(* ===== verification/Prelude.thy ===== *)
theory Prelude
  imports Complex_Main "HOL-Library.AList" "HOL-Library.Word"
begin

text \<open>
  Shared vocabulary of the development: the machine-integer types of the C++ code, the two
  container models (\<open>std::unordered_map\<close> and \<open>std::map\<close>), the collections of simplification
  rules the components extend, and the generic lemmas on lists, options and association lists
  that more than one component uses.

  An \<open>std::unordered_map\<close> is an association list with distinct keys; its order stands for the
  iteration order, which the C++ standard leaves open. An \<open>std::map\<close> is an association list
  sorted strictly by key, so that a range-for over it visits the keys in increasing order.
\<close>

section \<open>Rule collections\<close>

named_theorems map_simps \<open>look-ups after container updates\<close>
named_theorems inv_intros \<open>preservation of component invariants\<close>
named_theorems op_defs \<open>definitions of operations that have no interesting recursion\<close>

section \<open>Machine integers\<close>

type_synonym u8 = "8 word"
type_synonym u32 = "32 word"
type_synonym u64 = "64 word"

section \<open>Unordered maps\<close>

type_synonym ('k, 'v) umap = "('k \<times> 'v) list"

definition umap_find :: "('k, 'v) umap \<Rightarrow> 'k \<Rightarrow> 'v option" where
  "umap_find m k = map_of m k"

definition umap_set :: "'k \<Rightarrow> 'v \<Rightarrow> ('k, 'v) umap \<Rightarrow> ('k, 'v) umap" where
  "umap_set k v m = AList.update k v m"

definition umap_erase :: "'k \<Rightarrow> ('k, 'v) umap \<Rightarrow> ('k, 'v) umap" where
  "umap_erase k m = AList.delete k m"

definition umap_contains :: "('k, 'v) umap \<Rightarrow> 'k \<Rightarrow> bool" where
  "umap_contains m k \<longleftrightarrow> umap_find m k \<noteq> None"

definition umap_keys :: "('k, 'v) umap \<Rightarrow> 'k list" where
  "umap_keys m = List.map fst m"

definition umap_values :: "('k, 'v) umap \<Rightarrow> 'v list" where
  "umap_values m = List.map snd m"

text \<open>The container invariant: no key is stored twice.\<close>

definition umap_wf :: "('k, 'v) umap \<Rightarrow> bool" where
  "umap_wf m \<longleftrightarrow> distinct (List.map fst m)"

lemma umap_find_set [map_simps, simp]:
  "umap_find (umap_set k v m) k' = (if k = k' then Some v else umap_find m k')"
  by (simp add: umap_find_def umap_set_def update_conv')

lemma umap_find_erase [map_simps, simp]:
  "umap_find (umap_erase k m) k' = (if k = k' then None else umap_find m k')"
  by (simp add: umap_find_def umap_erase_def delete_conv')

lemma umap_find_Nil [map_simps, simp]: "umap_find [] k = None"
  by (simp add: umap_find_def)

lemma umap_wf_Nil [inv_intros, simp]: "umap_wf []"
  by (simp add: umap_wf_def)

lemma umap_wf_set [inv_intros, simp]: "umap_wf m \<Longrightarrow> umap_wf (umap_set k v m)"
  by (simp add: umap_wf_def umap_set_def distinct_update)

lemma umap_wf_erase [inv_intros, simp]: "umap_wf m \<Longrightarrow> umap_wf (umap_erase k m)"
  by (simp add: umap_wf_def umap_erase_def distinct_delete)

lemma umap_find_in_set: "umap_find m k = Some v \<Longrightarrow> (k, v) \<in> set m"
  by (simp add: umap_find_def map_of_SomeD)

lemma umap_find_iff: "umap_wf m \<Longrightarrow> umap_find m k = Some v \<longleftrightarrow> (k, v) \<in> set m"
  by (simp add: umap_find_def umap_wf_def)

lemma umap_values_iff: "umap_wf m \<Longrightarrow> v \<in> set (umap_values m) \<longleftrightarrow> (\<exists>k. umap_find m k = Some v)"
  by (force simp: umap_values_def umap_find_iff image_iff)

lemma umap_keys_dom: "k \<in> set (umap_keys m) \<longleftrightarrow> umap_contains m k"
  by (auto simp: umap_keys_def umap_contains_def umap_find_def map_of_eq_None_iff)

lemma set_umap_set_subset: "set (umap_set k v m) \<subseteq> insert (k, v) (set m)"
  by (induction m) (auto simp: umap_set_def)

lemma delete_set_subset: "set (AList.delete k m) \<subseteq> set m"
  by (induction m) auto

lemma set_umap_erase_subset: "set (umap_erase k m) \<subseteq> set m"
  by (simp add: umap_erase_def delete_set_subset)

lemma length_umap_set:
  "umap_wf m \<Longrightarrow> length (umap_set k v m) = (if umap_contains m k then length m else Suc (length m))"
  by (induction m) (auto simp: umap_set_def umap_wf_def umap_contains_def umap_find_def)

text \<open>A predicate on the stored values is kept by both updates.\<close>

lemma umap_all_set:
  "\<lbrakk> list_all (\<lambda>(k, v). P v) m; P v \<rbrakk> \<Longrightarrow> list_all (\<lambda>(k, v). P v) (umap_set k v m)"
  using set_umap_set_subset [of k v m] by (auto simp: list_all_iff)

lemma umap_all_erase: "list_all (\<lambda>(k, v). P v) m \<Longrightarrow> list_all (\<lambda>(k, v). P v) (umap_erase k m)"
  using set_umap_erase_subset [of k m] by (auto simp: list_all_iff)

text \<open>
  The statement \<open>m[k] = v\<close>: the reference \<open>operator[]\<close> gives is a value-initialised element when
  the key is new, and the assignment of the element type runs on it.
\<close>

definition umap_slot :: "'v \<Rightarrow> ('k, 'v) umap \<Rightarrow> 'k \<Rightarrow> 'v" where
  "umap_slot zero m k = (case umap_find m k of None \<Rightarrow> zero | Some old \<Rightarrow> old)"

definition umap_assign :: "('v \<Rightarrow> 'v \<Rightarrow> 'v) \<Rightarrow> 'v \<Rightarrow> 'k \<Rightarrow> 'v \<Rightarrow> ('k, 'v) umap \<Rightarrow> ('k, 'v) umap" where
  "umap_assign asg zero k v m = umap_set k (asg (umap_slot zero m k) v) m"

lemma umap_find_assign [map_simps, simp]:
  "umap_find (umap_assign asg zero k v m) k' =
     (if k = k' then Some (asg (umap_slot zero m k) v) else umap_find m k')"
  by (simp add: umap_assign_def)

lemma umap_wf_assign [inv_intros, simp]: "umap_wf m \<Longrightarrow> umap_wf (umap_assign asg zero k v m)"
  by (simp add: umap_assign_def)

lemma umap_contains_set [map_simps, simp]:
  "umap_contains (umap_set k v m) k' \<longleftrightarrow> k = k' \<or> umap_contains m k'"
  by (simp add: umap_contains_def)

lemma umap_contains_assign [map_simps, simp]:
  "umap_contains (umap_assign asg zero k v m) k' \<longleftrightarrow> k = k' \<or> umap_contains m k'"
  by (simp add: umap_contains_def)

lemma umap_contains_erase [map_simps, simp]:
  "umap_contains (umap_erase k m) k' \<longleftrightarrow> k \<noteq> k' \<and> umap_contains m k'"
  by (simp add: umap_contains_def)

lemma umap_slot_None [simp]: "umap_find m k = None \<Longrightarrow> umap_slot zero m k = zero"
  and umap_slot_Some [simp]: "umap_find m k = Some v \<Longrightarrow> umap_slot zero m k = v"
  by (simp_all add: umap_slot_def)

section \<open>Ordered maps\<close>

type_synonym ('k, 'v) omap = "('k \<times> 'v) list"

fun omap_set :: "'k::linorder \<Rightarrow> 'v \<Rightarrow> ('k, 'v) omap \<Rightarrow> ('k, 'v) omap" where
  "omap_set k v [] = [(k, v)]"
| "omap_set k v ((k', v') # m) =
     (if k < k' then (k, v) # (k', v') # m
      else if k = k' then (k, v) # m
      else (k', v') # omap_set k v m)"

fun omap_erase :: "'k::linorder \<Rightarrow> ('k, 'v) omap \<Rightarrow> ('k, 'v) omap" where
  "omap_erase k [] = []"
| "omap_erase k ((k', v') # m) = (if k = k' then m else (k', v') # omap_erase k m)"

fun omap_find :: "('k::linorder, 'v) omap \<Rightarrow> 'k \<Rightarrow> 'v option" where
  "omap_find [] k = None"
| "omap_find ((k', v') # m) k = (if k = k' then Some v' else omap_find m k)"

definition omap_wf :: "('k::linorder, 'v) omap \<Rightarrow> bool" where
  "omap_wf m \<longleftrightarrow> sorted_wrt (<) (List.map fst m)"

lemma omap_find_map_of: "omap_find m = map_of m"
  by (induction m) (auto simp: fun_eq_iff)

lemma omap_wf_Nil [inv_intros, simp]: "omap_wf []"
  by (simp add: omap_wf_def)

lemma omap_wf_Cons [simp]:
  "omap_wf ((k, v) # m) \<longleftrightarrow> (\<forall>k' \<in> fst ` set m. k < k') \<and> omap_wf m"
  by (simp add: omap_wf_def)

lemma omap_find_set [map_simps, simp]:
  "omap_find (omap_set k v m) k' = (if k = k' then Some v else omap_find m k')"
  by (induction m) auto

lemma set_omap_set_keys: "fst ` set (omap_set k v m) = insert k (fst ` set m)"
proof (induction m)
  case (Cons a m)
  then show ?case by (cases a) (simp add: insert_commute)
qed simp

lemma omap_wf_set [inv_intros, simp]: "omap_wf m \<Longrightarrow> omap_wf (omap_set k v m)"
proof (induction m)
  case (Cons a m)
  then show ?case
    by (cases a) (auto simp: set_omap_set_keys image_iff not_less order_less_le dest: order_less_trans)
qed simp

lemma set_omap_erase_subset: "set (omap_erase k m) \<subseteq> set m"
  by (induction k m rule: omap_erase.induct) (auto split: if_splits)

lemma omap_wf_erase [inv_intros, simp]: "omap_wf m \<Longrightarrow> omap_wf (omap_erase k m)"
proof (induction m)
  case (Cons a m)
  then show ?case
    using set_omap_erase_subset [of k m] by (cases a) auto
qed simp

lemma omap_find_None: "k \<notin> fst ` set m \<Longrightarrow> omap_find m k = None"
  by (induction m) auto

lemma omap_find_erase [map_simps]:
  "omap_wf m \<Longrightarrow> omap_find (omap_erase k m) k' = (if k = k' then None else omap_find m k')"
proof (induction m)
  case (Cons a m)
  then show ?case by (cases a) (auto intro: omap_find_None)
qed simp

lemma omap_find_iff: "omap_wf m \<Longrightarrow> omap_find m k = Some v \<longleftrightarrow> (k, v) \<in> set m"
proof (induction m)
  case (Cons a m)
  then show ?case by (cases a) (force simp: image_iff)
qed simp

lemma omap_find_Some_key: "omap_find m k = Some v \<Longrightarrow> (k, v) \<in> set m"
  by (simp add: omap_find_map_of map_of_SomeD)

lemma fst_set_omap_find: "k \<in> fst ` set m \<longleftrightarrow> omap_find m k \<noteq> None"
  by (induction m) auto

text \<open>\<open>m[k] = v\<close> on an ordered map, and a write through a reference to the element of \<open>k\<close>.\<close>

definition omap_slot :: "'v \<Rightarrow> ('k::linorder, 'v) omap \<Rightarrow> 'k \<Rightarrow> 'v" where
  "omap_slot zero m k = (case omap_find m k of None \<Rightarrow> zero | Some old \<Rightarrow> old)"

definition omap_assign ::
    "('v \<Rightarrow> 'v \<Rightarrow> 'v) \<Rightarrow> 'v \<Rightarrow> 'k::linorder \<Rightarrow> 'v \<Rightarrow> ('k, 'v) omap \<Rightarrow> ('k, 'v) omap" where
  "omap_assign asg zero k v m = omap_set k (asg (omap_slot zero m k) v) m"

definition omap_adjust :: "'k::linorder \<Rightarrow> ('v \<Rightarrow> 'v) \<Rightarrow> ('k, 'v) omap \<Rightarrow> ('k, 'v) omap" where
  "omap_adjust k f m = (case omap_find m k of None \<Rightarrow> m | Some v \<Rightarrow> omap_set k (f v) m)"

lemma omap_find_adjust [map_simps, simp]:
  "omap_find (omap_adjust k f m) k' = (if k = k' then map_option f (omap_find m k') else omap_find m k')"
  by (auto simp: omap_adjust_def split: option.splits)

lemma omap_wf_adjust [inv_intros, simp]: "omap_wf m \<Longrightarrow> omap_wf (omap_adjust k f m)"
  by (simp add: omap_adjust_def split: option.splits)

lemma keys_omap_adjust [simp]: "fst ` set (omap_adjust k f m) = fst ` set m"
  by (auto simp: omap_adjust_def set_omap_set_keys fst_set_omap_find split: option.splits)

lemma omap_find_assign [map_simps, simp]:
  "omap_find (omap_assign asg zero k v m) k' =
     (if k = k' then Some (asg (omap_slot zero m k) v) else omap_find m k')"
  by (simp add: omap_assign_def)

lemma omap_wf_assign [inv_intros, simp]: "omap_wf m \<Longrightarrow> omap_wf (omap_assign asg zero k v m)"
  by (simp add: omap_assign_def)

section \<open>Decimal digits\<close>

text \<open>\<open>std::to_string\<close> of an unsigned number.\<close>

definition digit :: "nat \<Rightarrow> char" where
  "digit n = char_of (48 + n)"

fun to_string :: "nat \<Rightarrow> string" where
  "to_string n = (if n < 10 then [digit n] else to_string (n div 10) @ [digit (n mod 10)])"

declare to_string.simps [simp del]

lemma of_char_digit [simp]: "n < 10 \<Longrightarrow> of_char (digit n) = 48 + n"
  by (simp add: digit_def)

lemma digit_inj: "\<lbrakk> m < 10; n < 10 \<rbrakk> \<Longrightarrow> digit m = digit n \<longleftrightarrow> m = n"
  by (metis of_char_digit add_left_cancel)

lemma to_string_nonempty [simp]: "to_string n \<noteq> []"
  by (subst to_string.simps) simp

text \<open>Reading the digits back.\<close>

definition of_digits :: "string \<Rightarrow> nat" where
  "of_digits ds = foldl (\<lambda>acc c. 10 * acc + (of_char c - 48)) 0 ds"

lemma of_digits_to_string [simp]: "of_digits (to_string n) = n"
proof (induction n rule: to_string.induct)
  case (1 n)
  then show ?case by (subst to_string.simps) (simp add: of_digits_def mult.commute)
qed

lemma to_string_inj: "to_string m = to_string n \<longleftrightarrow> m = n"
  by (metis of_digits_to_string)

lemma to_string_digits: "c \<in> set (to_string n) \<Longrightarrow> \<exists>d < 10. c = digit d"
proof (induction n rule: to_string.induct)
  case (1 n)
  show ?case
  proof (cases "n < 10")
    case True
    with "1.prems" show ?thesis by (subst (asm) to_string.simps) auto
  next
    case False
    with "1.prems" have "c \<in> set (to_string (n div 10)) \<or> c = digit (n mod 10)"
      by (subst (asm) to_string.simps) auto
    moreover have "n mod 10 < 10" by simp
    ultimately show ?thesis using "1.IH" False by blast
  qed
qed

section \<open>Lists and options\<close>

lemma takeWhile_eq_self: "list_all P xs \<Longrightarrow> takeWhile P xs = xs"
  by (simp add: list_all_iff takeWhile_eq_all_conv)

lemma takeWhile_append_stop:
  "\<lbrakk> list_all P xs; ys \<noteq> [] \<Longrightarrow> \<not> P (hd ys) \<rbrakk> \<Longrightarrow> takeWhile P (xs @ ys) = xs"
  by (induction xs) (auto, cases ys, auto)

lemma list_all_takeWhile: "list_all P (takeWhile P xs)"
  by (induction xs) auto

end
