(* ===== verification/Float64.thy ===== *)
theory Float64
  imports Prelude
begin

text \<open>
  The C++ type \<open>double\<close>: IEEE 754 binary64 with rounding to nearest, ties to even, as the
  compilers and processors the program is built for provide it. A value is a NaN (payloads are
  not distinguished), an infinity with its sign, the negative zero, or a finite number, held as
  the exact rational it denotes. Every operation computes the exact rational result and rounds
  it to the grid of binary64 (53 significant bits, exponents from -1074), overflowing to an
  infinity at \<open>2 ^ 1024\<close>. All definitions are executable.

  The lemmas give what the components use of this arithmetic: rounding is monotone and exact on
  the grid (integers up to \<open>2 ^ 53\<close> in particular), every operation returns a value of the
  format, and the comparisons are those of the denoted numbers.
\<close>

section \<open>Binary logarithms\<close>

fun nlog2 :: "nat \<Rightarrow> nat" where
  "nlog2 n = (if n < 2 then 0 else Suc (nlog2 (n div 2)))"

declare nlog2.simps [simp del]

lemma nlog2_bounds: "0 < n \<Longrightarrow> 2 ^ nlog2 n \<le> n \<and> n < 2 * 2 ^ nlog2 n"
proof (induction n rule: nlog2.induct)
  case (1 n)
  show ?case
  proof (cases "n < 2")
    case True
    with "1.prems" show ?thesis by (subst nlog2.simps, subst (2) nlog2.simps) simp
  next
    case False
    with "1.IH" have "2 ^ nlog2 (n div 2) \<le> n div 2 \<and> n div 2 < 2 * 2 ^ nlog2 (n div 2)" by simp
    then have "2 * 2 ^ nlog2 (n div 2) \<le> n \<and> n < 4 * 2 ^ nlog2 (n div 2)" by linarith
    with False show ?thesis by (simp add: nlog2.simps [of n])
  qed
qed

text \<open>The exponent \<open>k\<close> with \<open>2 ^ k \<le> q < 2 ^ (k + 1)\<close> of a positive rational.\<close>

definition rlog2 :: "rat \<Rightarrow> int" where
  "rlog2 q =
     (let (n, d) = quotient_of q;
          k = int (nlog2 (nat n)) - int (nlog2 (nat d))
      in if 2 powi k \<le> q then k else k - 1)"

lemma powi_int_less_iff: "(2::rat) powi a < 2 powi b \<longleftrightarrow> a < b"
  using power_int_strict_increasing [of a b "2::rat"] power_int_increasing [of b a "2::rat"]
  by (meson linorder_not_less one_less_numeral_iff semiring_norm(76) one_le_numeral)

lemma powi_int_le_iff: "(2::rat) powi a \<le> 2 powi b \<longleftrightarrow> a \<le> b"
  using powi_int_less_iff [of b a] by (simp flip: linorder_not_less)

lemma rlog2_bounds:
  assumes "0 < q"
  shows "2 powi rlog2 q \<le> q \<and> q < 2 powi (rlog2 q + 1)"
proof -
  obtain n d where nd: "quotient_of q = (n, d)" by (cases "quotient_of q")
  have d: "0 < d" and q: "q = of_int n / of_int d"
    using nd quotient_of_denom_pos quotient_of_div by blast+
  with assms have n: "0 < n" by (simp add: zero_less_divide_iff)
  define a b where "a = nlog2 (nat n)" and "b = nlog2 (nat d)"
  have "2 ^ a \<le> nat n \<and> nat n < 2 * 2 ^ a" "2 ^ b \<le> nat d \<and> nat d < 2 * 2 ^ b"
    unfolding a_def b_def using n d by (intro nlog2_bounds; simp)+
  then have "(2::int) ^ a \<le> n \<and> n < 2 * 2 ^ a" "(2::int) ^ b \<le> d \<and> d < 2 * 2 ^ b"
    using n d by (simp_all add: nat_le_iff zless_nat_eq_int_zless le_nat_iff nat_less_iff)
  then have "(of_int (2 ^ a) :: rat) \<le> of_int n" "of_int n < (of_int (2 * 2 ^ a) :: rat)"
    "(of_int (2 ^ b) :: rat) \<le> of_int d" "of_int d < (of_int (2 * 2 ^ b) :: rat)"
    by (simp_all only: of_int_le_iff of_int_less_iff)
  then have N: "(2::rat) ^ a \<le> of_int n" "of_int n < (2::rat) * 2 ^ a"
    and D: "(2::rat) ^ b \<le> of_int d" "of_int d < (2::rat) * 2 ^ b"
    by (simp_all only: of_int_power of_int_mult of_int_numeral)
  have dp: "(0::rat) < of_int d" using d by simp
  define k where "k = int a - int b"
  have kp: "(2::rat) powi k = 2 ^ a / 2 ^ b" "(2::rat) powi (k + 1) = 2 * (2 ^ a / 2 ^ b)"
    "(2::rat) powi (k - 1) = (2 ^ a / 2 ^ b) / 2"
    unfolding k_def by (simp_all add: power_int_diff power_int_add)
  have upper: "q < 2 powi (k + 1)"
  proof -
    have "q \<le> of_int n / 2 ^ b"
      unfolding q using D dp n by (intro divide_left_mono) auto
    also have "\<dots> < 2 * 2 ^ a / 2 ^ b" using N by (simp add: divide_strict_right_mono)
    finally show ?thesis by (simp add: kp)
  qed
  have lower: "2 powi (k - 1) \<le> q"
  proof -
    have "(2::rat) powi (k - 1) = 2 ^ a / (2 * 2 ^ b)" by (simp add: kp)
    also have "\<dots> \<le> 2 ^ a / of_int d" using D dp by (intro divide_left_mono) auto
    also have "\<dots> \<le> q" unfolding q using N dp by (simp add: divide_right_mono)
    finally show ?thesis .
  qed
  have "rlog2 q = (if 2 powi k \<le> q then k else k - 1)"
    by (simp add: rlog2_def nd a_def b_def k_def)
  with upper lower show ?thesis by auto
qed

lemma rlog2_mono:
  assumes "0 < p" "p \<le> q"
  shows "rlog2 p \<le> rlog2 q"
proof -
  have "(2::rat) powi rlog2 p < 2 powi (rlog2 q + 1)"
    using rlog2_bounds [of p] rlog2_bounds [of q] assms by linarith
  then show ?thesis by (simp only: powi_int_less_iff) 
qed

lemma rlog2_eqI:
  assumes "2 powi k \<le> q" "q < 2 powi (k + 1)"
  shows "rlog2 q = k"
proof -
  have q: "0 < q" using assms(1) by (rule less_le_trans [rotated]) simp
  have "(2::rat) powi rlog2 q < 2 powi (k + 1)" "(2::rat) powi k < 2 powi (rlog2 q + 1)"
    using rlog2_bounds [OF q] assms by linarith+
  then show ?thesis by (simp only: powi_int_less_iff)
qed

section \<open>Rounding to an integer, ties to even\<close>

definition rne :: "rat \<Rightarrow> int" where
  "rne x =
     (let f = \<lfloor>x\<rfloor>; r = x - of_int f
      in if r < 1 / 2 then f
         else if 1 / 2 < r then f + 1
         else if even f then f else f + 1)"

lemma rne_of_int [simp]: "rne (of_int n) = n"
  by (simp add: rne_def)

lemma rne_floor: "\<lfloor>x\<rfloor> \<le> rne x \<and> rne x \<le> \<lfloor>x\<rfloor> + 1"
  by (simp add: rne_def Let_def)

lemma rne_mono:
  assumes "x \<le> y"
  shows "rne x \<le> rne y"
proof (cases "\<lfloor>x\<rfloor> = \<lfloor>y\<rfloor>")
  case True
  with assms show ?thesis by (auto simp: rne_def Let_def)
next
  case False
  with assms have "\<lfloor>x\<rfloor> + 1 \<le> \<lfloor>y\<rfloor>" using floor_mono [OF assms] by linarith
  with rne_floor [of x] rne_floor [of y] show ?thesis by linarith
qed

lemma rne_ge_int: "of_int n \<le> x \<Longrightarrow> n \<le> rne x"
  using rne_mono [of "of_int n" x] by simp

lemma rne_le_int: "x \<le> of_int n \<Longrightarrow> rne x \<le> n"
  using rne_mono [of x "of_int n"] by simp

text \<open>The rounding error is at most one half, the defining property of a nearest integer.\<close>

lemma rne_error: "\<bar>of_int (rne x) - x\<bar> \<le> 1 / 2"
proof -
  have "of_int \<lfloor>x\<rfloor> \<le> x" "x < of_int \<lfloor>x\<rfloor> + 1" by linarith+
  then show ?thesis by (auto simp: rne_def Let_def abs_le_iff)
qed

section \<open>Rounding to the binary64 grid\<close>

text \<open>
  \<open>ulp_exp q\<close> is the exponent of the last place of a positive \<open>q\<close>: 52 below its leading bit,
  but never below the least subnormal exponent. \<open>fl\<close> rounds with an unbounded upper exponent;
  the overflow to infinity is taken in \<open>mk\<close> below.
\<close>

definition ulp_exp :: "rat \<Rightarrow> int" where
  "ulp_exp q = max (-1074) (rlog2 q - 52)"

definition flp :: "rat \<Rightarrow> rat" where
  "flp q = (if q = 0 then 0
            else let e = ulp_exp q in of_int (rne (q / 2 powi e)) * 2 powi e)"

definition fl :: "rat \<Rightarrow> rat" where
  "fl q = (if q < 0 then - flp (- q) else flp q)"

lemma flp_0 [simp]: "flp 0 = 0" and fl_0 [simp]: "fl 0 = 0"
  by (simp_all add: flp_def fl_def)

lemma fl_minus: "fl (- q) = - fl q"
  by (auto simp: fl_def)

lemma flp_nonneg: "0 \<le> q \<Longrightarrow> 0 \<le> flp q"
  by (auto simp: flp_def Let_def intro!: mult_nonneg_nonneg rne_ge_int)

lemma fl_nonneg: "0 \<le> q \<Longrightarrow> 0 \<le> fl q"
  by (simp add: fl_def flp_nonneg)

lemma ulp_exp_scaled:
  assumes "0 < q"
  shows "q / 2 powi ulp_exp q < 2 ^ 53"
    and "ulp_exp q = rlog2 q - 52 \<Longrightarrow> 2 ^ 52 \<le> q / 2 powi ulp_exp q"
proof -
  have b: "2 powi rlog2 q \<le> q" "q < 2 powi (rlog2 q + 1)"
    using rlog2_bounds [OF assms] by auto
  have "q < 2 powi (ulp_exp q + 53)"
    using b(2) by (rule less_le_trans) (simp add: powi_int_le_iff ulp_exp_def)
  then show "q / 2 powi ulp_exp q < 2 ^ 53"
    by (simp add: power_int_add divide_less_eq mult.commute)
  assume "ulp_exp q = rlog2 q - 52"
  then have "2 powi (ulp_exp q + 52) \<le> q" using b(1) by simp
  then show "2 ^ 52 \<le> q / 2 powi ulp_exp q"
    by (simp add: power_int_add le_divide_eq mult.commute)
qed

lemma flp_upper: "0 < q \<Longrightarrow> flp q \<le> 2 ^ 53 * 2 powi ulp_exp q"
proof -
  assume q: "0 < q"
  have "q / 2 powi ulp_exp q \<le> of_int (2 ^ 53)"
    using ulp_exp_scaled(1) [OF q] by simp
  then have "rne (q / 2 powi ulp_exp q) \<le> 2 ^ 53" by (rule rne_le_int)
  then have "of_int (rne (q / 2 powi ulp_exp q)) \<le> (2 ^ 53 :: rat)"
    by (metis of_int_le_iff of_int_numeral of_int_power)
  with q show ?thesis by (simp add: flp_def Let_def mult_right_mono)
qed

lemma flp_lower:
  assumes q: "0 < q" and e: "ulp_exp q = rlog2 q - 52"
  shows "2 ^ 52 * 2 powi ulp_exp q \<le> flp q"
proof -
  have "of_int (2 ^ 52) \<le> q / 2 powi ulp_exp q"
    using ulp_exp_scaled(2) [OF q e] by simp
  then have "2 ^ 52 \<le> rne (q / 2 powi ulp_exp q)" by (rule rne_ge_int)
  then have "(2 ^ 52 :: rat) \<le> of_int (rne (q / 2 powi ulp_exp q))"
    by (metis of_int_le_iff of_int_numeral of_int_power)
  with q show ?thesis by (simp add: flp_def Let_def mult_right_mono)
qed

lemma flp_mono:
  assumes "0 < p" "p \<le> q"
  shows "flp p \<le> flp q"
proof (cases "ulp_exp p = ulp_exp q")
  case True
  have "rne (p / 2 powi ulp_exp p) \<le> rne (q / 2 powi ulp_exp p)"
    using assms by (intro rne_mono divide_right_mono) auto
  with assms True show ?thesis by (simp add: flp_def Let_def mult_right_mono)
next
  case False
  from rlog2_mono [OF assms] False
  have lt: "ulp_exp p + 1 \<le> ulp_exp q" and e: "ulp_exp q = rlog2 q - 52"
    by (auto simp: ulp_exp_def max_def split: if_splits)
  have "flp p \<le> 2 ^ 52 * 2 powi (ulp_exp p + 1)"
    using flp_upper [OF assms(1)] by (simp add: power_int_add)
  also have "\<dots> \<le> 2 ^ 52 * 2 powi ulp_exp q"
    using lt by (intro mult_left_mono) (simp_all only: powi_int_le_iff, simp)
  also have "\<dots> \<le> flp q" using assms by (intro flp_lower e) auto
  finally show ?thesis .
qed

text \<open>Rounding is monotone on all rationals.\<close>

lemma fl_mono:
  assumes "p \<le> q"
  shows "fl p \<le> fl q"
proof -
  consider "q < 0" | "p < 0" "0 \<le> q" | "0 \<le> p" using assms by linarith
  then show ?thesis
  proof cases
    case 1
    with assms flp_mono [of "- q" "- p"] show ?thesis by (simp add: fl_def)
  next
    case 2
    then have "fl p \<le> 0" by (simp add: fl_def flp_nonneg)
    also have "0 \<le> fl q" using 2 by (rule_tac fl_nonneg)
    finally show ?thesis .
  next
    case 3
    with assms flp_mono [of p q] flp_nonneg [of q] show ?thesis
      by (cases "p = 0") (simp_all add: fl_def)
  qed
qed

text \<open>Numbers of the format are fixed points: 53-bit multiples of a power of two.\<close>

lemma flp_exact_aux:
  assumes m: "0 < m" and e: "ulp_exp (of_int m * 2 powi e) \<le> e"
  shows "flp (of_int m * 2 powi e) = of_int m * 2 powi e"
proof -
  define q where "q = (of_int m * 2 powi e :: rat)"
  have q: "q \<noteq> 0" using m by (simp add: q_def)
  define k where "k = nat (e - ulp_exp q)"
  have k: "e = int k + ulp_exp q" using e by (simp add: k_def q_def)
  have pe: "(2::rat) powi e = 2 ^ k * 2 powi ulp_exp q" by (subst k) (simp add: power_int_add)
  have eq: "q = of_int (m * 2 ^ k) * 2 powi ulp_exp q"
    by (subst q_def, subst pe) (simp only: of_int_mult of_int_power of_int_numeral mult.assoc)
  then have "q / 2 powi ulp_exp q = of_int (m * 2 ^ k)" by (simp add: divide_eq_eq)
  then have "rne (q / 2 powi ulp_exp q) = m * 2 ^ k" by (simp only: rne_of_int)
  moreover note eq [symmetric]
  ultimately show ?thesis
    using q unfolding q_def [symmetric] by (simp only: flp_def Let_def if_False)
qed

lemma flp_exact:
  assumes "0 < m" "m \<le> 2 ^ 53" "- 1074 \<le> e"
  shows "flp (of_int m * 2 powi e) = of_int m * 2 powi e"
proof (cases "m = 2 ^ 53")
  case False
  have "(of_int m :: rat) < of_int (2 ^ 53)" using assms False by (simp only: of_int_less_iff)
  then have m: "(of_int m :: rat) < 2 ^ 53" by simp
  define q where "q = (of_int m * 2 powi e :: rat)"
  have q: "0 < q" using assms by (simp add: q_def)
  have "2 powi rlog2 q \<le> q" using rlog2_bounds [OF q] by simp
  also have "q < 2 ^ 53 * 2 powi e" using m by (simp add: q_def)
  also have "\<dots> = 2 powi (e + 53)" by (simp add: power_int_add)
  finally have "rlog2 q < e + 53" by (simp only: powi_int_less_iff)
  with assms have "ulp_exp (of_int m * 2 powi e) \<le> e" by (simp add: ulp_exp_def q_def)
  with assms show ?thesis by (intro flp_exact_aux)
next
  case True
  have eq: "(of_int m * 2 powi e :: rat) = of_int (2 ^ 52) * 2 powi (e + 1)"
    by (simp add: True power_int_add)
  have "rlog2 (of_int (2 ^ 52) * 2 powi (e + 1)) = e + 53"
    by (rule rlog2_eqI) (simp_all add: power_int_add)
  then have "ulp_exp (of_int (2 ^ 52) * 2 powi (e + 1)) \<le> e + 1"
    using assms by (simp add: ulp_exp_def)
  then show ?thesis unfolding eq by (intro flp_exact_aux) simp
qed

lemma fl_exact:
  assumes "\<bar>m\<bar> \<le> 2 ^ 53" "- 1074 \<le> e"
  shows "fl (of_int m * 2 powi e) = of_int m * 2 powi e"
proof -
  consider "m = 0" | "0 < m" | "m < 0" by linarith
  then show ?thesis
  proof cases
    case 2
    then have "\<not> of_int m * 2 powi e < (0::rat)" by (simp add: not_less)
    with 2 assms flp_exact [of m e] show ?thesis by (simp add: fl_def)
  next
    case 3
    with assms flp_exact [of "- m" e] show ?thesis by (simp add: fl_def mult_less_0_iff)
  qed simp
qed

lemma fl_of_int [simp]: "\<bar>m\<bar> \<le> 2 ^ 53 \<Longrightarrow> fl (of_int m) = of_int m"
  using fl_exact [of m 0] by simp

lemma fl_numeral [simp]: "(numeral n :: int) \<le> 2 ^ 53 \<Longrightarrow> fl (numeral n) = numeral n"
  using fl_of_int [of "numeral n"] by simp

lemma fl_1 [simp]: "fl 1 = 1"
  using fl_of_int [of 1] by simp

text \<open>Every rounding lands on the grid, so rounding twice is rounding once.\<close>

lemma flp_form:
  assumes "0 < q"
  shows "\<exists>m e. flp q = of_int m * 2 powi e \<and> \<bar>m\<bar> \<le> 2 ^ 53 \<and> - 1074 \<le> e"
proof -
  have "q / 2 powi ulp_exp q \<le> of_int (2 ^ 53)" "of_int 0 \<le> q / 2 powi ulp_exp q"
    using ulp_exp_scaled(1) [OF assms] assms by simp_all
  then have "rne (q / 2 powi ulp_exp q) \<le> 2 ^ 53" "0 \<le> rne (q / 2 powi ulp_exp q)"
    by (blast intro: rne_le_int rne_ge_int)+
  moreover have "- 1074 \<le> ulp_exp q" by (simp add: ulp_exp_def)
  ultimately have "\<bar>rne (q / 2 powi ulp_exp q)\<bar> \<le> 2 ^ 53" "- 1074 \<le> ulp_exp q" by simp_all
  with assms show ?thesis unfolding flp_def Let_def by (auto intro!: exI conjI)
qed

lemma fl_idem [simp]: "fl (fl q) = fl q"
proof -
  consider "q = 0" | "0 < q" | "q < 0" by linarith
  then show ?thesis
  proof cases
    case 2
    with flp_form [of q] have "fl (flp q) = flp q" by (auto intro!: fl_exact)
    with 2 show ?thesis by (simp add: fl_def [of q])
  next
    case 3
    with flp_form [of "- q"] have "fl (flp (- q)) = flp (- q)" by (auto intro!: fl_exact)
    with 3 show ?thesis by (simp add: fl_def [of q] fl_minus)
  qed simp
qed

section \<open>Values and operations\<close>

text \<open>\<open>FInf True\<close> is minus infinity; \<open>NegZero\<close> is \<open>-0.0\<close>; \<open>Fin 0\<close> is \<open>+0.0\<close>.\<close>

datatype double = NaN | FInf bool | NegZero | Fin rat

text \<open>A finite value of the format lies on the grid, below the overflow threshold.\<close>

definition on_grid :: "rat \<Rightarrow> bool" where
  "on_grid q \<longleftrightarrow> fl q = q \<and> \<bar>q\<bar> < 2 ^ 1024"

fun wf_double :: "double \<Rightarrow> bool" where
  "wf_double (Fin q) = on_grid q"
| "wf_double _ = True"

fun is_finite :: "double \<Rightarrow> bool" where
  "is_finite NaN = False"
| "is_finite (FInf _) = False"
| "is_finite _ = True"

fun val :: "double \<Rightarrow> rat" where
  "val (Fin q) = q"
| "val _ = 0"

fun neg_sign :: "double \<Rightarrow> bool" where
  "neg_sign NaN = False"
| "neg_sign (FInf s) = s"
| "neg_sign NegZero = True"
| "neg_sign (Fin q) = (q < 0)"

text \<open>\<open>mk s q\<close> rounds the exact result \<open>q\<close>; \<open>s\<close> is the sign a zero result takes.\<close>

definition mk :: "bool \<Rightarrow> rat \<Rightarrow> double" where
  "mk s q =
     (let r = fl q
      in if r = 0 then (if s then NegZero else Fin 0)
         else if 2 ^ 1024 \<le> \<bar>r\<bar> then FInf (r < 0)
         else Fin r)"

text \<open>A literal of the source: the nearest double of a decimal constant.\<close>

definition lit :: "rat \<Rightarrow> double" where
  "lit q = mk False q"

fun fneg :: "double \<Rightarrow> double" where
  "fneg NaN = NaN"
| "fneg (FInf s) = FInf (\<not> s)"
| "fneg NegZero = Fin 0"
| "fneg (Fin q) = (if q = 0 then NegZero else Fin (- q))"

fun fabs :: "double \<Rightarrow> double" where
  "fabs NaN = NaN"
| "fabs (FInf s) = FInf False"
| "fabs NegZero = Fin 0"
| "fabs (Fin q) = Fin \<bar>q\<bar>"

fun fadd :: "double \<Rightarrow> double \<Rightarrow> double" where
  "fadd NaN b = NaN"
| "fadd a NaN = NaN"
| "fadd (FInf s) (FInf t) = (if s = t then FInf s else NaN)"
| "fadd (FInf s) b = FInf s"
| "fadd a (FInf t) = FInf t"
| "fadd NegZero NegZero = NegZero"
| "fadd a b = mk False (val a + val b)"

definition fsub :: "double \<Rightarrow> double \<Rightarrow> double" where
  "fsub a b = fadd a (fneg b)"

fun fmul :: "double \<Rightarrow> double \<Rightarrow> double" where
  "fmul NaN b = NaN"
| "fmul a NaN = NaN"
| "fmul (FInf s) b = (if is_finite b \<and> val b = 0 then NaN else FInf (s \<noteq> neg_sign b))"
| "fmul a (FInf t) = (if val a = 0 then NaN else FInf (neg_sign a \<noteq> t))"
| "fmul a b = mk (neg_sign a \<noteq> neg_sign b) (val a * val b)"

fun fdiv :: "double \<Rightarrow> double \<Rightarrow> double" where
  "fdiv NaN b = NaN"
| "fdiv a NaN = NaN"
| "fdiv (FInf s) (FInf t) = NaN"
| "fdiv (FInf s) b = FInf (s \<noteq> neg_sign b)"
| "fdiv a (FInf t) = (if neg_sign a \<noteq> t then NegZero else Fin 0)"
| "fdiv a b =
     (if val b = 0
      then (if val a = 0 then NaN else FInf (neg_sign a \<noteq> neg_sign b))
      else mk (neg_sign a \<noteq> neg_sign b) (val a / val b))"

text \<open>The comparisons: false whenever an operand is a NaN; the two zeros are equal.\<close>

fun fle :: "double \<Rightarrow> double \<Rightarrow> bool" where
  "fle NaN b = False"
| "fle a NaN = False"
| "fle (FInf True) b = True"
| "fle a (FInf False) = True"
| "fle (FInf False) b = False"
| "fle a (FInf True) = False"
| "fle a b = (val a \<le> val b)"

definition flt :: "double \<Rightarrow> double \<Rightarrow> bool" where
  "flt a b \<longleftrightarrow> fle a b \<and> \<not> fle b a"

definition feq :: "double \<Rightarrow> double \<Rightarrow> bool" where
  "feq a b \<longleftrightarrow> fle a b \<and> fle b a"

text \<open>\<open>std::min\<close> and \<open>std::max\<close> are written with \<open><\<close>, which decides what a NaN does.\<close>

definition fmin :: "double \<Rightarrow> double \<Rightarrow> double" where
  "fmin a b = (if flt b a then b else a)"

definition fmax :: "double \<Rightarrow> double \<Rightarrow> double" where
  "fmax a b = (if flt a b then b else a)"

text \<open>The operators of the source, so that the component models read like the code.\<close>

instantiation double :: "{zero, one, plus, minus, uminus, times, inverse, abs, ord}"
begin

definition zero_double :: double where "0 = Fin 0"
definition one_double :: double where "1 = Fin 1"
definition plus_double :: "double \<Rightarrow> double \<Rightarrow> double" where "a + b = fadd a b"
definition minus_double :: "double \<Rightarrow> double \<Rightarrow> double" where "a - b = fsub a b"
definition uminus_double :: "double \<Rightarrow> double" where "- a = fneg a"
definition times_double :: "double \<Rightarrow> double \<Rightarrow> double" where "a * b = fmul a b"
definition divide_double :: "double \<Rightarrow> double \<Rightarrow> double" where "a div b = fdiv a b"
definition inverse_double :: "double \<Rightarrow> double" where "inverse a = fdiv 1 a"
definition abs_double :: "double \<Rightarrow> double" where "\<bar>a\<bar> = fabs a"
definition less_eq_double :: "double \<Rightarrow> double \<Rightarrow> bool" where "a \<le> b \<longleftrightarrow> fle a b"
definition less_double :: "double \<Rightarrow> double \<Rightarrow> bool" where "a < b \<longleftrightarrow> flt a b"

instance ..

end

text \<open>
  \<open>static_cast<int64_t>\<close> truncates towards zero; on a NaN or a value outside the range of the
  integer type it is undefined, the value \<open>None\<close> here. \<open>of_i64\<close> is the conversion back, which
  rounds.
\<close>

definition trunc_rat :: "rat \<Rightarrow> int" where
  "trunc_rat q = (if 0 \<le> q then \<lfloor>q\<rfloor> else \<lceil>q\<rceil>)"

definition to_i64 :: "double \<Rightarrow> int option" where
  "to_i64 a =
     (if is_finite a
      then let n = trunc_rat (val a) in if - (2 ^ 63) \<le> n \<and> n < 2 ^ 63 then Some n else None
      else None)"

definition of_i64 :: "int \<Rightarrow> double" where
  "of_i64 n = mk False (of_int n)"

section \<open>Laws of the operations\<close>

named_theorems f64_ops \<open>the class operations as binary64 operations\<close>
declare zero_double_def [f64_ops] one_double_def [f64_ops] plus_double_def [f64_ops]
  minus_double_def [f64_ops] uminus_double_def [f64_ops] times_double_def [f64_ops]
  divide_double_def [f64_ops] abs_double_def [f64_ops] less_eq_double_def [f64_ops]
  less_double_def [f64_ops]

lemma is_finite_cases:
  assumes "is_finite a"
  obtains "a = NegZero" | q where "a = Fin q"
  using assms by (cases a) auto

lemma is_finite_zero [simp]: "is_finite 0" and val_zero [simp]: "val 0 = 0"
  and wf_zero [simp]: "wf_double 0"
  by (simp_all add: f64_ops on_grid_def)

lemma add_fin:
  "\<lbrakk> is_finite a; is_finite b \<rbrakk> \<Longrightarrow>
   a + b = (if a = NegZero \<and> b = NegZero then NegZero else mk False (val a + val b))"
  by (auto simp: f64_ops elim!: is_finite_cases)

lemma is_finite_neg [simp]: "is_finite (fneg a) = is_finite a" and val_neg [simp]: "val (fneg a) = - val a"
  by (cases a; simp)+

lemma sub_fin:
  assumes "is_finite a" "is_finite b"
  shows "a - b = (if a = NegZero \<and> b = Fin 0 then NegZero else mk False (val a - val b))"
proof -
  have "fneg b = NegZero \<longleftrightarrow> b = Fin 0" using assms(2) by (cases b) auto
  with assms add_fin [of a "fneg b"] show ?thesis
    by (simp add: minus_double_def fsub_def plus_double_def)
qed

lemma mul_fin:
  "\<lbrakk> is_finite a; is_finite b \<rbrakk> \<Longrightarrow> a * b = mk (neg_sign a \<noteq> neg_sign b) (val a * val b)"
  by (auto simp: f64_ops elim!: is_finite_cases)

lemma div_fin:
  "\<lbrakk> is_finite a; is_finite b; val b \<noteq> 0 \<rbrakk> \<Longrightarrow>
   a / b = mk (neg_sign a \<noteq> neg_sign b) (val a / val b)"
  by (auto simp: f64_ops elim!: is_finite_cases)

lemma le_fin: "\<lbrakk> is_finite a; is_finite b \<rbrakk> \<Longrightarrow> a \<le> b \<longleftrightarrow> val a \<le> val b"
  by (auto simp: f64_ops elim!: is_finite_cases)

lemma less_fin: "\<lbrakk> is_finite a; is_finite b \<rbrakk> \<Longrightarrow> a < b \<longleftrightarrow> val a < val b"
  using le_fin [of a b] le_fin [of b a] by (auto simp: less_double_def flt_def less_eq_double_def)

lemma feq_fin: "\<lbrakk> is_finite a; is_finite b \<rbrakk> \<Longrightarrow> feq a b \<longleftrightarrow> val a = val b"
  using le_fin [of a b] le_fin [of b a] by (auto simp: feq_def less_eq_double_def)

lemma le_NaN [simp]: "\<not> NaN \<le> a" "\<not> a \<le> NaN"
  by (simp add: f64_ops, cases a, simp_all add: f64_ops)

lemma less_NaN [simp]: "\<not> NaN < a" "\<not> a < NaN"
  by (simp add: f64_ops flt_def, cases a, simp_all add: f64_ops flt_def)

text \<open>The order of the non-NaN values, read off a key: sign of infinity first, then the number.\<close>

fun key :: "double \<Rightarrow> int \<times> rat" where
  "key (FInf s) = (if s then - 1 else 1, 0)"
| "key a = (0, val a)"

lemma double_exhaust:
  obtains "a = NaN" | "a = FInf True" | "a = FInf False" | "a = NegZero" | q where "a = Fin q"
proof (cases a)
  case (FInf s)
  then show thesis using that(2, 3) by (cases s) simp_all
qed (use that in simp_all)

lemma fle_key:
  "fle a b \<longleftrightarrow> a \<noteq> NaN \<and> b \<noteq> NaN \<and>
     (fst (key a) < fst (key b) \<or> fst (key a) = fst (key b) \<and> snd (key a) \<le> snd (key b))"
  by (cases a rule: double_exhaust; cases b rule: double_exhaust) auto

lemma flt_key:
  "flt a b \<longleftrightarrow> a \<noteq> NaN \<and> b \<noteq> NaN \<and>
     (fst (key a) < fst (key b) \<or> fst (key a) = fst (key b) \<and> snd (key a) < snd (key b))"
  by (auto simp: flt_def fle_key)

lemma double_le_refl [simp]: "a \<noteq> NaN \<Longrightarrow> (a::double) \<le> a"
  by (simp add: less_eq_double_def fle_key)

lemma double_le_trans: "\<lbrakk> (a::double) \<le> b; b \<le> c \<rbrakk> \<Longrightarrow> a \<le> c"
  by (auto simp: less_eq_double_def fle_key)

lemma double_le_total: "\<lbrakk> a \<noteq> NaN; b \<noteq> NaN \<rbrakk> \<Longrightarrow> (a::double) \<le> b \<or> b \<le> a"
  by (auto simp: less_eq_double_def fle_key)

lemma double_not_le: "\<lbrakk> a \<noteq> NaN; b \<noteq> NaN \<rbrakk> \<Longrightarrow> \<not> (a::double) \<le> b \<longleftrightarrow> b < a"
  by (auto simp: less_eq_double_def less_double_def fle_key flt_key)

lemma double_not_less: "\<lbrakk> a \<noteq> NaN; b \<noteq> NaN \<rbrakk> \<Longrightarrow> \<not> (a::double) < b \<longleftrightarrow> b \<le> a"
  by (auto simp: less_eq_double_def less_double_def fle_key flt_key)

lemma double_less_imp_le: "(a::double) < b \<Longrightarrow> a \<le> b"
  by (simp add: less_double_def less_eq_double_def flt_def)

lemma double_less_trans: "\<lbrakk> (a::double) < b; b < c \<rbrakk> \<Longrightarrow> a < c"
  by (auto simp: less_double_def flt_key)

lemma double_le_less_trans: "\<lbrakk> (a::double) \<le> b; b < c \<rbrakk> \<Longrightarrow> a < c"
  by (auto simp: less_double_def less_eq_double_def flt_key fle_key)

lemma double_less_le_trans: "\<lbrakk> (a::double) < b; b \<le> c \<rbrakk> \<Longrightarrow> a < c"
  by (auto simp: less_double_def less_eq_double_def flt_key fle_key)

lemma double_less_irrefl [simp]: "\<not> (a::double) < a"
  by (simp add: less_double_def flt_def)

subsection \<open>Results of the format\<close>

lemma mk_not_NaN [simp]: "mk s q \<noteq> NaN"
  by (simp add: mk_def Let_def)

lemma wf_mk [simp]: "wf_double (mk s q)"
  by (simp add: mk_def Let_def on_grid_def not_le)

lemma on_grid_0 [simp]: "on_grid 0"
  by (simp add: on_grid_def)

lemma on_grid_minus: "on_grid q \<Longrightarrow> on_grid (- q)"
  by (simp add: on_grid_def fl_minus)

lemma wf_neg [simp]: "wf_double a \<Longrightarrow> wf_double (fneg a)"
  by (cases a) (auto simp: on_grid_minus)

lemma wf_fabs [simp]: "wf_double a \<Longrightarrow> wf_double (fabs a)"
  by (cases a) (auto simp: on_grid_minus abs_if)

lemma wf_fadd [simp]: "\<lbrakk> wf_double a; wf_double b \<rbrakk> \<Longrightarrow> wf_double (fadd a b)"
  by (cases "(a, b)" rule: fadd.cases) auto

lemma wf_fmul [simp]: "\<lbrakk> wf_double a; wf_double b \<rbrakk> \<Longrightarrow> wf_double (fmul a b)"
  by (cases "(a, b)" rule: fmul.cases) auto

lemma wf_fdiv [simp]: "\<lbrakk> wf_double a; wf_double b \<rbrakk> \<Longrightarrow> wf_double (fdiv a b)"
  by (cases "(a, b)" rule: fdiv.cases) (auto simp: on_grid_def)

lemma wf_arith [inv_intros]:
  "\<lbrakk> wf_double a; wf_double b \<rbrakk> \<Longrightarrow> wf_double (a + b)"
  "\<lbrakk> wf_double a; wf_double b \<rbrakk> \<Longrightarrow> wf_double (a - b)"
  "\<lbrakk> wf_double a; wf_double b \<rbrakk> \<Longrightarrow> wf_double (a * b)"
  "\<lbrakk> wf_double a; wf_double b \<rbrakk> \<Longrightarrow> wf_double (a / b)"
  by (simp_all add: f64_ops fsub_def)

lemma wf_lit [simp]: "wf_double (lit q)" and wf_of_i64 [simp]: "wf_double (of_i64 n)"
  by (simp_all add: lit_def of_i64_def)

subsection \<open>Exactness and monotonicity\<close>

lemma mk_exact:
  "on_grid q \<Longrightarrow> mk s q = (if q = 0 then (if s then NegZero else Fin 0) else Fin q)"
  by (simp add: mk_def Let_def on_grid_def)

lemma mk_zero [simp]: "mk s 0 = (if s then NegZero else Fin 0)"
  by (simp add: mk_def)

lemma small_on_grid:
  assumes "\<bar>m\<bar> \<le> 2 ^ 53" "e \<le> 0" "- 1074 \<le> e"
  shows "on_grid (of_int m * 2 powi e)"
proof -
  have "(2::rat) powi e \<le> 2 powi 0" using assms(2) by (simp only: powi_int_le_iff)
  then have p: "(2::rat) powi e \<le> 1" by simp
  have "\<bar>of_int m :: rat\<bar> \<le> of_int (2 ^ 53)" using assms(1) by (metis of_int_abs of_int_le_iff)
  then have "\<bar>of_int m :: rat\<bar> * 2 powi e \<le> 2 ^ 53 * 1"
    using p by (intro mult_mono) auto
  also have "\<dots> < (2::rat) ^ 1024" by (simp only: mult_1_right, rule power_strict_increasing) auto
  finally show ?thesis using assms by (simp add: on_grid_def fl_exact abs_mult)
qed

lemma int_on_grid: "\<bar>m\<bar> \<le> 2 ^ 53 \<Longrightarrow> on_grid (of_int m)"
  using small_on_grid [of m 0] by simp

lemma mk_of_int: "\<lbrakk> \<bar>m\<bar> \<le> 2 ^ 53; m \<noteq> 0 \<rbrakk> \<Longrightarrow> mk s (of_int m) = Fin (of_int m)"
  by (simp add: mk_exact int_on_grid)

lemma mk_numeral [simp]:
  "(numeral n :: int) \<le> 2 ^ 53 \<Longrightarrow> mk s (numeral n) = Fin (numeral n)"
  "(numeral n :: int) \<le> 2 ^ 53 \<Longrightarrow> mk s (- numeral n) = Fin (- numeral n)"
  "mk s 1 = Fin 1" "mk s (- 1) = Fin (- 1)"
  using mk_of_int [of "numeral n" s] mk_of_int [of "- numeral n" s] mk_of_int [of 1 s]
    mk_of_int [of "- 1" s] by simp_all

text \<open>Binary fractions, for evaluating on concrete inputs.\<close>

lemma dyadic_on_grid:
  assumes "\<bar>m\<bar> \<le> 2 ^ 53" "k \<le> 1074"
  shows "on_grid (of_int m / 2 ^ k)"
proof -
  have "(of_int m :: rat) / 2 ^ k = of_int m * 2 powi (- int k)"
    by (simp add: power_int_minus divide_inverse)
  with small_on_grid [of m "- int k"] assms show ?thesis by simp
qed

lemma mk_dyadic: "\<lbrakk> \<bar>m\<bar> \<le> 2 ^ 53; m \<noteq> 0; k \<le> 1074 \<rbrakk> \<Longrightarrow> mk s (of_int m / 2 ^ k) = Fin (of_int m / 2 ^ k)"
  by (simp add: mk_exact dyadic_on_grid)

lemma mk_fractions [simp]:
  "mk s (1 / 2) = Fin (1 / 2)" "mk s (1 / 4) = Fin (1 / 4)" "mk s (3 / 4) = Fin (3 / 4)"
  "mk s (3 / 2) = Fin (3 / 2)" "on_grid (1 / 2)" "on_grid (1 / 4)"
  using mk_dyadic [of 1 1 s] mk_dyadic [of 1 2 s] mk_dyadic [of 3 2 s] mk_dyadic [of 3 1 s]
    dyadic_on_grid [of 1 1] dyadic_on_grid [of 1 2] by simp_all

lemma mk_nonneg: "0 \<le> q \<Longrightarrow> 0 \<le> mk s q"
  using fl_nonneg [of q] by (simp add: mk_def Let_def f64_ops)

lemma mk_mono:
  assumes "p \<le> q"
  shows "mk s p \<le> mk t q"
  using fl_mono [OF assms] by (auto simp: mk_def Let_def f64_ops fle_key)

lemma sub_nonneg:
  assumes "is_finite a" "is_finite b" "b \<le> a"
  shows "0 \<le> a - b"
proof -
  have "0 \<le> val a - val b" using assms by (simp add: le_fin)
  with assms show ?thesis by (auto simp: sub_fin mk_nonneg le_fin)
qed

lemma mk_val: "\<lbrakk> is_finite a; wf_double a \<rbrakk> \<Longrightarrow> mk (neg_sign a) (val a) = a"
  by (cases a) (auto simp: mk_exact)

lemma mk_val_le: "\<lbrakk> is_finite a; wf_double a; val a \<le> q \<rbrakk> \<Longrightarrow> a \<le> mk s q"
  using mk_mono [of "val a" q "neg_sign a" s] by (simp add: mk_val)

lemma mk_val_ge: "\<lbrakk> is_finite a; wf_double a; q \<le> val a \<rbrakk> \<Longrightarrow> mk s q \<le> a"
  using mk_mono [of q "val a" s "neg_sign a"] by (simp add: mk_val)

text \<open>Adding a non-negative amount never decreases, subtracting one never increases a value.\<close>

lemma add_nonneg_le:
  assumes "is_finite a" "wf_double a" "is_finite b" "0 \<le> b"
  shows "a \<le> a + b" "a - b \<le> a"
proof -
  have v: "0 \<le> val b" using assms by (simp add: le_fin)
  then show "a \<le> a + b" using assms by (auto simp: add_fin intro: mk_val_le)
  show "a - b \<le> a" using assms v by (auto simp: sub_fin intro: mk_val_ge)
qed

lemma to_i64_of_i64:
  "\<bar>n\<bar> \<le> 2 ^ 53 \<Longrightarrow> to_i64 (of_i64 n) = Some n"
  by (auto simp: of_i64_def mk_exact int_on_grid to_i64_def trunc_rat_def)

text \<open>Whole numbers up to \<open>2 ^ 53\<close>: the arithmetic of the format is the arithmetic of the integers.\<close>

lemma of_i64_Fin: "\<bar>n\<bar> \<le> 2 ^ 53 \<Longrightarrow> of_i64 n = Fin (of_int n)"
  by (simp add: of_i64_def mk_exact int_on_grid)

lemma of_i64_finite [simp]: "\<bar>n\<bar> \<le> 2 ^ 53 \<Longrightarrow> is_finite (of_i64 n)"
  and of_i64_val [simp]: "\<bar>n\<bar> \<le> 2 ^ 53 \<Longrightarrow> val (of_i64 n) = of_int n"
  by (simp_all add: of_i64_Fin)

lemma of_i64_0 [simp]: "of_i64 0 = 0" and of_i64_1 [simp]: "of_i64 1 = 1"
  and of_i64_m1 [simp]: "of_i64 (- 1) = - 1"
  by (simp_all add: of_i64_Fin f64_ops)

lemma of_i64_add:
  assumes "\<bar>a\<bar> \<le> 2 ^ 53" "\<bar>b\<bar> \<le> 2 ^ 53" "\<bar>a + b\<bar> \<le> 2 ^ 53"
  shows "of_i64 a + of_i64 b = of_i64 (a + b)"
proof -
  have "of_i64 a + of_i64 b = mk False (of_int (a + b))"
    using assms(1,2) by (simp add: of_i64_Fin f64_ops)
  with assms(3) show ?thesis by (simp add: of_i64_def)
qed

lemma of_i64_minus:
  assumes "\<bar>a\<bar> \<le> 2 ^ 53" "\<bar>b\<bar> \<le> 2 ^ 53" "\<bar>a - b\<bar> \<le> 2 ^ 53"
  shows "of_i64 a - of_i64 b = of_i64 (a - b)"
proof -
  have "of_i64 a - of_i64 b = mk False (of_int (a - b))"
    using assms(1,2) by (auto simp: of_i64_Fin f64_ops fsub_def)
  with assms(3) show ?thesis by (simp add: of_i64_def)
qed

lemma of_i64_times:
  assumes "\<bar>a\<bar> \<le> 2 ^ 53" "\<bar>b\<bar> \<le> 2 ^ 53" "\<bar>a * b\<bar> \<le> 2 ^ 53" "0 \<le> a" "0 \<le> b"
  shows "of_i64 a * of_i64 b = of_i64 (a * b)"
proof -
  have "of_i64 a * of_i64 b = mk False (of_int (a * b))"
    using assms by (auto simp: of_i64_Fin f64_ops)
  with assms(3) show ?thesis by (simp add: of_i64_def)
qed

lemma of_i64_le: "\<lbrakk> \<bar>a\<bar> \<le> 2 ^ 53; \<bar>b\<bar> \<le> 2 ^ 53 \<rbrakk> \<Longrightarrow> of_i64 a \<le> of_i64 b \<longleftrightarrow> a \<le> b"
  and of_i64_less: "\<lbrakk> \<bar>a\<bar> \<le> 2 ^ 53; \<bar>b\<bar> \<le> 2 ^ 53 \<rbrakk> \<Longrightarrow> of_i64 a < of_i64 b \<longleftrightarrow> a < b"
  by (simp_all add: le_fin less_fin)

lemmas of_i64_arith = of_i64_add of_i64_minus of_i64_times of_i64_le of_i64_less

lemma sub_self: "is_finite a \<Longrightarrow> a - a = 0"
  by (auto simp: f64_ops fsub_def elim!: is_finite_cases)

lemma zero_mult: "is_finite a \<Longrightarrow> 0 * a = 0 \<or> 0 * a = NegZero"
  by (auto simp: f64_ops elim!: is_finite_cases)

lemma add_neg_zero [simp]: "0 + NegZero = 0" "0 + (0::double) = 0"
  by (simp_all add: f64_ops)

lemma less_not_NaN: "a < b \<Longrightarrow> a \<noteq> NaN \<and> b \<noteq> NaN"
  by (auto simp: less_double_def flt_key)

lemma less_key: "(a::double) < b \<longleftrightarrow> a \<noteq> NaN \<and> b \<noteq> NaN \<and>
     (fst (key a) < fst (key b) \<or> fst (key a) = fst (key b) \<and> snd (key a) < snd (key b))"
  by (simp add: less_double_def flt_key)

lemma le_key: "(a::double) \<le> b \<longleftrightarrow> a \<noteq> NaN \<and> b \<noteq> NaN \<and>
     (fst (key a) < fst (key b) \<or> fst (key a) = fst (key b) \<and> snd (key a) \<le> snd (key b))"
  by (simp add: less_eq_double_def fle_key)

text \<open>A sum of positive values is positive.\<close>

lemma pos_add:
  assumes "0 < a" "0 < b" "wf_double a" "wf_double b"
  shows "0 < a + b"
proof (cases "is_finite a \<and> is_finite b")
  case True
  have "0 \<le> b" using assms(2) by (rule double_less_imp_le)
  then have "a \<le> a + b" using True assms by (simp add: add_nonneg_le)
  with assms(1) show ?thesis by (rule double_less_le_trans)
next
  case False
  with assms(1,2) show ?thesis unfolding less_key
    by (cases a rule: double_exhaust; cases b rule: double_exhaust)
       (auto simp: zero_double_def plus_double_def)
qed

lemma sub_not_NaN: "\<lbrakk> a \<noteq> NaN; is_finite b \<rbrakk> \<Longrightarrow> a - b \<noteq> NaN"
  by (cases a rule: double_exhaust; cases b rule: double_exhaust) (auto simp: f64_ops fsub_def)

lemma wf_times [simp]: "wf_double (a * b)"
  by (simp add: times_double_def, cases "(a, b)" rule: fmul.cases) auto

lemma mk_self: "on_grid q \<Longrightarrow> mk (q < 0) q = Fin q" "on_grid q \<Longrightarrow> q \<noteq> 0 \<Longrightarrow> mk s q = Fin q"
  by (simp_all add: mk_exact)

text \<open>One is neutral and minus one negates, for every value of the format.\<close>

lemma mult_one: "wf_double a \<Longrightarrow> a * 1 = a"
  by (cases a rule: double_exhaust) (auto simp: f64_ops mk_self)

lemma mult_minus_one: "wf_double a \<Longrightarrow> a * - 1 = - a"
  by (cases a rule: double_exhaust) (auto simp: f64_ops mk_self on_grid_minus)

lemma mult_pos_nonneg:
  fixes a b :: double
  assumes "0 < a" "0 \<le> b" "is_finite a"
  shows "0 \<le> a * b"
proof (cases "is_finite a \<and> is_finite b")
  case True
  then have "0 \<le> val a * val b" using assms by (simp add: le_fin less_fin)
  with True show ?thesis by (simp add: mul_fin mk_nonneg)
next
  case False
  with assms show ?thesis unfolding less_key le_key
    by (cases a rule: double_exhaust; cases b rule: double_exhaust)
       (auto simp: zero_double_def times_double_def)
qed

end
