(* ===== verification/CArray.thy ===== *)
theory CArray
  imports Prelude
begin

text \<open>
  \<open>infra::Array<char, N>\<close> (src/infra/array.h), the fixed-size character array the message
  structs are built of. A value is the list of its \<open>N\<close> bytes. \<open>to_string\<close> reads up to the first
  NUL; assignment copies the \<open>strlen\<close> bytes of the source and neither a terminator nor padding,
  so what lies behind them in the target stays. The copy constructor is the defaulted one and
  copies all bytes.

  The lemmas say when an assignment reads back what was assigned, and what it leaves behind when
  it does not.
\<close>

type_synonym carr = "char list"

abbreviation NUL :: char where "NUL \<equiv> CHR 0x00"

text \<open>\<open>Array()\<close>: all bytes NUL.\<close>

definition arr_zero :: "nat \<Rightarrow> carr" where
  "arr_zero n = replicate n NUL"

text \<open>\<open>to_string\<close>, that is \<open>std::string(value)\<close>: the bytes before the first NUL.\<close>

definition arr_str :: "carr \<Rightarrow> string" where
  "arr_str a = takeWhile (\<lambda>c. c \<noteq> NUL) a"

text \<open>
  \<open>operator=(const char *)\<close>: \<open>memcpy(value, data, strlen(data))\<close>. The source is the C string
  \<open>s\<close> (no NUL in it); a string longer than the array writes past its end, which is \<open>None\<close>.
\<close>

definition arr_assign_cstr :: "carr \<Rightarrow> string \<Rightarrow> carr option" where
  "arr_assign_cstr a s =
     (if length s \<le> length a then Some (s @ drop (length s) a) else None)"

text \<open>
  \<open>operator=(const Array &)\<close> delegates to it with the source's bytes as C string. Between arrays
  of one length with a NUL in the source nothing is written out of bounds.
\<close>

definition arr_assign :: "carr \<Rightarrow> carr \<Rightarrow> carr" where
  "arr_assign a b = arr_str b @ drop (length (arr_str b)) a"

text \<open>An array that ends in a NUL at the latest, the shape every reader of a C string needs.\<close>

definition arr_wf :: "nat \<Rightarrow> carr \<Rightarrow> bool" where
  "arr_wf n a \<longleftrightarrow> length a = n \<and> NUL \<in> set a"

lemma length_arr_zero [simp]: "length (arr_zero n) = n"
  by (simp add: arr_zero_def)

lemma arr_str_zero [simp]: "arr_str (arr_zero n) = []"
  by (cases n) (simp_all add: arr_zero_def arr_str_def)

lemma arr_wf_zero [inv_intros]: "0 < n \<Longrightarrow> arr_wf n (arr_zero n)"
  by (simp add: arr_wf_def arr_zero_def)

lemma arr_str_Nil [simp]: "arr_str [] = []"
  by (simp add: arr_str_def)

lemma arr_str_Cons: "arr_str (c # a) = (if c = NUL then [] else c # arr_str a)"
  by (simp add: arr_str_def)

lemma arr_str_no_NUL [simp]: "NUL \<notin> set (arr_str a)"
  by (auto simp: arr_str_def dest: set_takeWhileD)

lemma arr_str_id: "NUL \<notin> set s \<Longrightarrow> arr_str s = s"
  by (auto simp: arr_str_def takeWhile_eq_all_conv)

lemma arr_str_idem [simp]: "arr_str (arr_str a) = arr_str a"
  by (simp add: arr_str_id)

lemma arr_str_append: "NUL \<notin> set s \<Longrightarrow> arr_str (s @ t) = s @ arr_str t"
  by (induction s) (auto simp: arr_str_def)

lemma length_arr_str_le: "length (arr_str a) \<le> length a"
  by (simp add: arr_str_def length_takeWhile_le)

lemma length_arr_str_less: "NUL \<in> set a \<Longrightarrow> length (arr_str a) < length a"
  by (induction a) (auto simp: arr_str_def)

lemma arr_wf_str_length: "arr_wf n a \<Longrightarrow> length (arr_str a) < n"
  using length_arr_str_less [of a] by (auto simp: arr_wf_def)

lemma arr_assign_cstr_Some:
  "length (arr_str b) \<le> length a \<Longrightarrow> arr_assign_cstr a (arr_str b) = Some (arr_assign a b)"
  by (simp add: arr_assign_cstr_def arr_assign_def)

lemma length_arr_assign [simp]: "length b = length a \<Longrightarrow> length (arr_assign a b) = length a"
  using length_arr_str_le [of b] by (simp add: arr_assign_def)

text \<open>What an assignment reads back as: the source's text followed by the target's stale rest.\<close>

lemma arr_str_assign:
  "arr_str (arr_assign a b) = arr_str b @ arr_str (drop (length (arr_str b)) a)"
  by (simp add: arr_assign_def arr_str_append)

lemma arr_str_drop_fresh: "length (arr_str a) \<le> n \<Longrightarrow> a = arr_zero m \<Longrightarrow> arr_str (drop n a) = []"
  by (simp add: arr_zero_def drop_replicate) (metis arr_str_zero arr_zero_def)

lemma arr_assign_fresh [simp]: "arr_str (arr_assign (arr_zero n) b) = arr_str b"
  by (simp add: arr_str_assign arr_str_drop_fresh)

lemma arr_str_drop_same: "arr_str (drop (length (arr_str a)) a) = []"
  by (induction a) (auto simp: arr_str_def)

lemma arr_assign_self [simp]: "arr_assign a a = a"
proof -
  have "arr_str a @ drop (length (arr_str a)) a = a"
    unfolding arr_str_def by (metis append_eq_conv_conj takeWhile_eq_take append_take_drop_id)
  then show ?thesis by (simp add: arr_assign_def)
qed

text \<open>Assigning a text of the same length, or over the same text, is a faithful copy.\<close>

lemma arr_str_assign_same_length:
  assumes "length (arr_str a) = length (arr_str b)"
  shows "arr_str (arr_assign a b) = arr_str b"
  using arr_str_drop_same [of a] assms by (simp add: arr_str_assign)

lemma arr_str_assign_same: "arr_str a = arr_str b \<Longrightarrow> arr_str (arr_assign a b) = arr_str b"
  by (simp add: arr_str_assign_same_length)

text \<open>
  The exact condition: the copy is faithful unless the target held a longer text, whose rest
  then shows behind the new one. (For a source no longer than the text the target holds, the
  byte at the end of the new text is inside the old one.)
\<close>

lemma arr_str_drop_inner:
  "n \<le> length (arr_str a) \<Longrightarrow> arr_str (drop n a) = drop n (arr_str a)"
proof (induction a arbitrary: n)
  case (Cons x a)
  then show ?case by (cases n) (auto simp: arr_str_def split: if_splits)
qed (simp add: arr_str_def)

lemma arr_str_assign_shorter:
  "length (arr_str b) \<le> length (arr_str a) \<Longrightarrow>
   arr_str (arr_assign a b) = arr_str b @ drop (length (arr_str b)) (arr_str a)"
  by (simp add: arr_str_assign arr_str_drop_inner)

lemma arr_assign_stale_iff:
  assumes "length (arr_str b) \<le> length (arr_str a)"
  shows "arr_str (arr_assign a b) = arr_str b \<longleftrightarrow> length (arr_str b) = length (arr_str a)"
  using assms by (auto simp: arr_str_assign_shorter)

text \<open>Every byte behind the old text NUL, the shape a zeroed array keeps under assignment.\<close>

definition arr_clean :: "nat \<Rightarrow> carr \<Rightarrow> bool" where
  "arr_clean n a \<longleftrightarrow> length a = n \<and> list_all (\<lambda>c. c = NUL) (drop (length (arr_str a)) a) \<and> NUL \<in> set a"

lemma arr_clean_wf: "arr_clean n a \<Longrightarrow> arr_wf n a"
  by (simp add: arr_clean_def arr_wf_def)

lemma arr_clean_zero [inv_intros]: "0 < n \<Longrightarrow> arr_clean n (arr_zero n)"
  by (simp add: arr_clean_def arr_zero_def list_all_iff)

lemma arr_str_all_NUL: "list_all (\<lambda>c. c = NUL) a \<Longrightarrow> arr_str a = []"
  by (cases a) (auto simp: arr_str_def)

lemma arr_clean_longer:
  assumes "arr_clean n a" "length (arr_str a) \<le> length (arr_str b)"
  shows "arr_str (arr_assign a b) = arr_str b"
proof -
  have "drop (length (arr_str b)) a =
      drop (length (arr_str b) - length (arr_str a)) (drop (length (arr_str a)) a)"
    using assms(2) by simp
  moreover have "\<forall>c \<in> set (drop (length (arr_str a)) a). c = NUL"
    using assms(1) by (simp add: arr_clean_def list_all_iff)
  ultimately have "list_all (\<lambda>c. c = NUL) (drop (length (arr_str b)) a)"
    unfolding list_all_iff by (metis in_set_dropD)
  then show ?thesis by (simp add: arr_str_assign arr_str_all_NUL)
qed

end
