(* ===== verification/Enums.thy ===== *)
theory Enums
  imports Prelude
begin

text \<open>
  The enumerations of src/core/enums.h and the message tags of src/core/types.h, with the
  conversions the code has for them: names of run modes, modules and layouts, the direction of a
  side, and the numbers the binary formats store. Constructors carry the enum's name as a prefix.
\<close>

section \<open>Run modes, modules and layouts\<close>

datatype RunMode = Mode_LIVE | Mode_DATA | Mode_REPLAY | Mode_BACKTEST | Mode_USER_APP

fun get_mode_name :: "RunMode \<Rightarrow> string" where
  "get_mode_name Mode_LIVE = ''live''"
| "get_mode_name Mode_DATA = ''data''"
| "get_mode_name Mode_REPLAY = ''replay''"
| "get_mode_name Mode_BACKTEST = ''backtest''"
| "get_mode_name Mode_USER_APP = ''user-app''"

definition get_mode_by_name :: "string \<Rightarrow> RunMode" where
  "get_mode_by_name name =
     (if name = ''live'' then Mode_LIVE
      else if name = ''data'' then Mode_DATA
      else if name = ''replay'' then Mode_REPLAY
      else if name = ''backtest'' then Mode_BACKTEST
      else if name = ''user-app'' then Mode_USER_APP
      else Mode_LIVE)"

datatype Module = Module_MD | Module_TD | Module_STRATEGY | Module_SYSTEM

fun get_module_name :: "Module \<Rightarrow> string" where
  "get_module_name Module_MD = ''md''"
| "get_module_name Module_TD = ''td''"
| "get_module_name Module_STRATEGY = ''strategy''"
| "get_module_name Module_SYSTEM = ''system''"

definition get_module_by_name :: "string \<Rightarrow> Module" where
  "get_module_by_name name =
     (if name = ''md'' then Module_MD
      else if name = ''td'' then Module_TD
      else if name = ''strategy'' then Module_STRATEGY
      else Module_SYSTEM)"

datatype layout = Layout_JOURNAL | Layout_SQLITE | Layout_NANOMSG | Layout_LOG

fun get_layout_name :: "layout \<Rightarrow> string" where
  "get_layout_name Layout_JOURNAL = ''journal''"
| "get_layout_name Layout_SQLITE = ''db''"
| "get_layout_name Layout_NANOMSG = ''nn''"
| "get_layout_name Layout_LOG = ''log''"

text \<open>The \<open>int8_t\<close> a stored mode or module has, and its reading.\<close>

fun mode_code :: "RunMode \<Rightarrow> u8" where
  "mode_code Mode_LIVE = 0" | "mode_code Mode_DATA = 1" | "mode_code Mode_REPLAY = 2"
| "mode_code Mode_BACKTEST = 3" | "mode_code Mode_USER_APP = 4"

fun module_code :: "Module \<Rightarrow> u8" where
  "module_code Module_MD = 0" | "module_code Module_TD = 1"
| "module_code Module_STRATEGY = 2" | "module_code Module_SYSTEM = 3"

lemma mode_name_roundtrip [simp]: "get_mode_by_name (get_mode_name m) = m"
  by (cases m) (simp_all add: get_mode_by_name_def)

lemma module_name_roundtrip [simp]: "get_module_by_name (get_module_name c) = c"
  by (cases c) (simp_all add: get_module_by_name_def)

lemma layout_name_inj: "get_layout_name l = get_layout_name l' \<longleftrightarrow> l = l'"
  by (cases l; cases l') simp_all

lemma mode_code_inj: "mode_code m = mode_code m' \<longleftrightarrow> m = m'"
  by (cases m; cases m') simp_all

lemma module_code_inj: "module_code m = module_code m' \<longleftrightarrow> m = m'"
  by (cases m; cases m') simp_all

section \<open>Instruments and orders\<close>

datatype InstrumentType =
  IT_Unknown | IT_Stock | IT_Future | IT_Bond | IT_StockOption | IT_TechStock | IT_Fund | IT_Index
| IT_Repo | IT_Warrant | IT_Iopt | IT_Crypto

datatype Side =
  Side_Buy | Side_Sell | Side_Lock | Side_Unlock | Side_Exec | Side_Drop | Side_Purchase
| Side_Redemption | Side_Split | Side_Merge | Side_MarginTrade | Side_ShortSell
| Side_RepayMargin | Side_RepayStock | Side_CashRepayMargin | Side_StockRepayStock
| Side_SurplusStockTransfer | Side_GuaranteeStockTransferIn | Side_GuaranteeStockTransferOut
| Side_Unknown

datatype Offset = Offset_Open | Offset_Close | Offset_CloseToday | Offset_CloseYesterday

datatype HedgeFlag = Hedge_Speculation | Hedge_Arbitrage | Hedge_Hedge | Hedge_Covered

datatype PriceType =
  Price_Limit | Price_Any | Price_FakBest5 | Price_ForwardBest | Price_ReverseBest | Price_Fak
| Price_Fok | Price_Unknown

datatype VolumeCondition = VC_Any | VC_Min | VC_All

datatype TimeCondition = TC_IOC | TC_GFD | TC_GTC | TC_FOK

datatype OrderStatus =
  OS_Unknown | OS_Submitted | OS_Pending | OS_Cancelled | OS_Error | OS_Filled
| OS_PartialFilledNotActive | OS_PartialFilledActive | OS_Lost

datatype CurrencyType =
  Cur_Unknown | Cur_CNY | Cur_HKD | Cur_USD | Cur_JPY | Cur_GBP | Cur_EUR | Cur_CNH | Cur_SGD | Cur_MYR

datatype Direction = Dir_Long | Dir_Short | Dir_Unknown

datatype CommissionRateMode = CM_ByAmount | CM_ByVolume

datatype LedgerCategory = LC_Account | LC_Strategy

datatype BrokerState =
  BS_Pending | BS_Idle | BS_DisConnected | BS_Connected | BS_LoggedIn | BS_LoginFailed | BS_Ready

datatype StrategyState = SS_Normal | SS_Warn | SS_Error

datatype MDType = MD_Unknown | MD_Kline | MD_Depth | MD_Trade

datatype BrokerReqType =
  Req_Unknown | Req_OrderPlace | Req_OrderCancel | Req_OrderBook | Req_OrderState | Req_PositionBook

datatype BrokerRespType = Resp_Unknown | Resp_OrderPlace | Resp_OrderCancel

fun side2direction :: "Side \<Rightarrow> Direction" where
  "side2direction Side_Buy = Dir_Long"
| "side2direction Side_Sell = Dir_Short"
| "side2direction _ = Dir_Unknown"

section \<open>Message tags\<close>

datatype MsgTag =
  Tag_PageEnd | Tag_OrderInput | Tag_Bar | Tag_MDSubscribe | Tag_OrderCancel | Tag_TradingDay
| Tag_TimeReset | Tag_Commission | Tag_Quote | Tag_Entrust | Tag_Transaction
| Tag_OrderActionResp | Tag_Trade | Tag_Asset | Tag_AssetMargin | Tag_RequestHistoryOrder
| Tag_RequestHistoryTrade | Tag_Register | Tag_Deregister | Tag_BrokerStateUpdate
| Tag_TradingStart | Tag_TradingStop | Tag_InstrumentKey | Tag_Instrument | Tag_Position
| Tag_AccountReq | Tag_PositionBook | Tag_Order | Tag_HistoryOrder | Tag_HistoryTrade
| Tag_RequestHistoryOrderError | Tag_RequestHistoryTradeError | Tag_BacktestSyncSignal
| Tag_StrategyStateUpdate | Tag_Termination

text \<open>The tags in the order of the declaration; a tag's number is its place.\<close>

definition all_tags :: "MsgTag list" where
  "all_tags =
     [Tag_PageEnd, Tag_OrderInput, Tag_Bar, Tag_MDSubscribe, Tag_OrderCancel, Tag_TradingDay,
      Tag_TimeReset, Tag_Commission, Tag_Quote, Tag_Entrust, Tag_Transaction,
      Tag_OrderActionResp, Tag_Trade, Tag_Asset, Tag_AssetMargin, Tag_RequestHistoryOrder,
      Tag_RequestHistoryTrade, Tag_Register, Tag_Deregister, Tag_BrokerStateUpdate,
      Tag_TradingStart, Tag_TradingStop, Tag_InstrumentKey, Tag_Instrument, Tag_Position,
      Tag_AccountReq, Tag_PositionBook, Tag_Order, Tag_HistoryOrder, Tag_HistoryTrade,
      Tag_RequestHistoryOrderError, Tag_RequestHistoryTradeError, Tag_BacktestSyncSignal,
      Tag_StrategyStateUpdate, Tag_Termination]"

fun index_of :: "'a \<Rightarrow> 'a list \<Rightarrow> nat" where
  "index_of x [] = 0"
| "index_of x (y # ys) = (if x = y then 0 else Suc (index_of x ys))"

definition tag_num :: "MsgTag \<Rightarrow> nat" where
  "tag_num t = index_of t all_tags"

definition TAG_MAX_SIZE :: nat where
  "TAG_MAX_SIZE = 35"

lemma all_tags_complete: "t \<in> set all_tags"
  by (cases t) (simp_all add: all_tags_def)

lemma length_all_tags: "length all_tags = TAG_MAX_SIZE"
  by (simp add: all_tags_def TAG_MAX_SIZE_def)

lemma index_of_nth: "x \<in> set xs \<Longrightarrow> index_of x xs < length xs \<and> xs ! index_of x xs = x"
  by (induction xs) auto

lemma tag_num_less: "tag_num t < TAG_MAX_SIZE"
  using index_of_nth [OF all_tags_complete [of t]] by (simp add: tag_num_def length_all_tags)

lemma tag_num_inj: "tag_num t = tag_num u \<longleftrightarrow> t = u"
  using index_of_nth [OF all_tags_complete] unfolding tag_num_def by metis

lemma tag_num_PageEnd [simp]: "tag_num t = 0 \<longleftrightarrow> t = Tag_PageEnd"
proof -
  have "tag_num Tag_PageEnd = 0" by (simp add: tag_num_def all_tags_def)
  then show ?thesis using tag_num_inj [of t Tag_PageEnd] by simp
qed

end
