(* ===== verification/Types.thy ===== *)
theory Types
  imports Float64 CArray Enums
begin

text \<open>
  The message structs of src/core/types.h as records, field by field in the order of the
  declarations, and the two conversions of src/core/types.cpp. A \<open>uint32_t\<close> or \<open>uint64_t\<close> is a
  word, an \<open>int64_t\<close> time an \<open>int\<close> (the times stay far below \<open>2 ^ 63\<close>), a \<open>double\<close> or
  \<open>VolumeType\<close> a value of theory Float64, a character array a value of theory CArray. The
  implicit assignment of a struct assigns field by field, so its character arrays are assigned as
  \<open>Array::operator=\<close> does it: \<open>..._assign\<close>. A value-initialised struct is all zero:
  \<open>..._zero\<close>; the model also starts default-initialised locals from it.
\<close>

definition INSTRUMENT_ID_LEN :: nat where "INSTRUMENT_ID_LEN = 32"
definition PRODUCT_ID_LEN :: nat where "PRODUCT_ID_LEN = 128"
definition DATE_LEN :: nat where "DATE_LEN = 9"
definition EXCHANGE_ID_LEN :: nat where "EXCHANGE_ID_LEN = 16"
definition ERROR_MSG_LEN :: nat where "ERROR_MSG_LEN = 256"
definition EXTERNAL_ID_LEN :: nat where "EXTERNAL_ID_LEN = 32"

lemmas array_lens = INSTRUMENT_ID_LEN_def PRODUCT_ID_LEN_def DATE_LEN_def EXCHANGE_ID_LEN_def
  ERROR_MSG_LEN_def EXTERNAL_ID_LEN_def

type_synonym volume_type = double

section \<open>Market data\<close>

record InstrumentDepth =
  dp_real_depth_size :: u32
  dp_instrument_id :: carr
  dp_exchange_id :: carr
  dp_bid_price :: "double list"
  dp_ask_price :: "double list"
  dp_bid_volume :: "volume_type list"
  dp_ask_volume :: "volume_type list"

text \<open>\<open>InstrumentDepth<N>\<close>, as constructed.\<close>

definition InstrumentDepth_zero :: "nat \<Rightarrow> InstrumentDepth" where
  "InstrumentDepth_zero n =
     \<lparr> dp_real_depth_size = 0, dp_instrument_id = arr_zero INSTRUMENT_ID_LEN,
       dp_exchange_id = arr_zero EXCHANGE_ID_LEN,
       dp_bid_price = replicate n 0, dp_ask_price = replicate n 0,
       dp_bid_volume = replicate n 0, dp_ask_volume = replicate n 0 \<rparr>"

record Bar =
  bar_trading_day :: carr
  bar_instrument_id :: carr
  bar_exchange_id :: carr
  bar_instrument_type :: InstrumentType
  bar_start_time :: int
  bar_end_time :: int
  bar_open :: double
  bar_close :: double
  bar_low :: double
  bar_high :: double
  bar_volume :: volume_type
  bar_start_volume :: volume_type
  bar_tick_count :: int

datatype SyncFlag = Sync_MarketData | Sync_MatchOrder

record InstrumentKey =
  ik_key :: u32
  ik_instrument_id :: carr
  ik_exchange_id :: carr
  ik_instrument_type :: InstrumentType

section \<open>Products and instruments\<close>

record Commission =
  cm_product_id :: carr
  cm_exchange_id :: carr
  cm_instrument_type :: InstrumentType
  cm_mode :: CommissionRateMode
  cm_open_ratio :: double
  cm_close_ratio :: double
  cm_close_today_ratio :: double
  cm_min_commission :: double

definition Commission_zero :: Commission where
  "Commission_zero =
     \<lparr> cm_product_id = arr_zero PRODUCT_ID_LEN, cm_exchange_id = arr_zero EXCHANGE_ID_LEN,
       cm_instrument_type = IT_Unknown, cm_mode = CM_ByAmount, cm_open_ratio = 0,
       cm_close_ratio = 0, cm_close_today_ratio = 0, cm_min_commission = 0 \<rparr>"

definition Commission_assign :: "Commission \<Rightarrow> Commission \<Rightarrow> Commission" where
  "Commission_assign old new = new
     \<lparr> cm_product_id := arr_assign (cm_product_id old) (cm_product_id new),
       cm_exchange_id := arr_assign (cm_exchange_id old) (cm_exchange_id new) \<rparr>"

record Instrument =
  in_instrument_id :: carr
  in_exchange_id :: carr
  in_instrument_type :: InstrumentType
  in_product_id :: "u8 list"
  in_contract_multiplier :: int
  in_price_tick :: double
  in_open_date :: carr
  in_create_date :: carr
  in_expire_date :: carr
  in_delivery_year :: int
  in_delivery_month :: int
  in_is_trading :: bool
  in_force_update_ratio :: bool
  in_long_margin_ratio :: double
  in_short_margin_ratio :: double
  in_conversion_rate :: double
  in_exchange_rate :: double
  in_currency_type :: CurrencyType

definition Instrument_zero :: Instrument where
  "Instrument_zero =
     \<lparr> in_instrument_id = arr_zero INSTRUMENT_ID_LEN, in_exchange_id = arr_zero EXCHANGE_ID_LEN,
       in_instrument_type = IT_Unknown, in_product_id = replicate PRODUCT_ID_LEN 0,
       in_contract_multiplier = 0, in_price_tick = 0,
       in_open_date = arr_zero DATE_LEN, in_create_date = arr_zero DATE_LEN,
       in_expire_date = arr_zero DATE_LEN, in_delivery_year = 0, in_delivery_month = 0,
       in_is_trading = False, in_force_update_ratio = False, in_long_margin_ratio = 0,
       in_short_margin_ratio = 0, in_conversion_rate = 0, in_exchange_rate = 0,
       in_currency_type = Cur_Unknown \<rparr>"

text \<open>The product id is an array of \<open>int8_t\<close>, which is copied whole.\<close>

definition Instrument_assign :: "Instrument \<Rightarrow> Instrument \<Rightarrow> Instrument" where
  "Instrument_assign old new = new
     \<lparr> in_instrument_id := arr_assign (in_instrument_id old) (in_instrument_id new),
       in_exchange_id := arr_assign (in_exchange_id old) (in_exchange_id new),
       in_open_date := arr_assign (in_open_date old) (in_open_date new),
       in_create_date := arr_assign (in_create_date old) (in_create_date new),
       in_expire_date := arr_assign (in_expire_date old) (in_expire_date new) \<rparr>"

section \<open>Orders\<close>

record OrderInput =
  oi_order_id :: u64
  oi_parent_id :: u64
  oi_instrument_id :: carr
  oi_exchange_id :: carr
  oi_instrument_type :: InstrumentType
  oi_limit_price :: double
  oi_frozen_price :: double
  oi_volume :: volume_type
  oi_is_swap :: bool
  oi_side :: Side
  oi_offset :: Offset
  oi_hedge_flag :: HedgeFlag
  oi_price_type :: PriceType
  oi_volume_condition :: VolumeCondition
  oi_time_condition :: TimeCondition
  oi_block_id :: u64
  oi_insert_time :: int

definition OrderInput_zero :: OrderInput where
  "OrderInput_zero =
     \<lparr> oi_order_id = 0, oi_parent_id = 0, oi_instrument_id = arr_zero INSTRUMENT_ID_LEN,
       oi_exchange_id = arr_zero EXCHANGE_ID_LEN, oi_instrument_type = IT_Unknown,
       oi_limit_price = 0, oi_frozen_price = 0, oi_volume = 0, oi_is_swap = False,
       oi_side = Side_Buy, oi_offset = Offset_Open, oi_hedge_flag = Hedge_Speculation,
       oi_price_type = Price_Limit, oi_volume_condition = VC_Any, oi_time_condition = TC_IOC,
       oi_block_id = 0, oi_insert_time = 0 \<rparr>"

definition OrderInput_assign :: "OrderInput \<Rightarrow> OrderInput \<Rightarrow> OrderInput" where
  "OrderInput_assign old new = new
     \<lparr> oi_instrument_id := arr_assign (oi_instrument_id old) (oi_instrument_id new),
       oi_exchange_id := arr_assign (oi_exchange_id old) (oi_exchange_id new) \<rparr>"

record OrderCancel =
  oc_instrument_id :: carr
  oc_order_id :: u64
  oc_target_order_id :: u64
  oc_price :: double
  oc_volume :: volume_type
  oc_insert_time :: int

record OrderActionResp =
  ar_order_id :: u64
  ar_external_order_id :: carr
  ar_order_action_id :: u64
  ar_error_id :: int
  ar_error_msg :: carr
  ar_insert_time :: int
  ar_resp_type :: BrokerRespType

definition OrderActionResp_zero :: OrderActionResp where
  "OrderActionResp_zero =
     \<lparr> ar_order_id = 0, ar_external_order_id = arr_zero EXTERNAL_ID_LEN,
       ar_order_action_id = 0, ar_error_id = 0, ar_error_msg = arr_zero ERROR_MSG_LEN,
       ar_insert_time = 0, ar_resp_type = Resp_Unknown \<rparr>"

record Order =
  od_order_id :: u64
  od_external_order_id :: carr
  od_parent_id :: u64
  od_insert_time :: int
  od_update_time :: int
  od_trading_day :: carr
  od_instrument_id :: carr
  od_exchange_id :: carr
  od_instrument_type :: InstrumentType
  od_limit_price :: double
  od_frozen_price :: double
  od_volume :: volume_type
  od_volume_left :: volume_type
  od_tax :: double
  od_commission :: double
  od_status :: OrderStatus
  od_error_id :: int
  od_error_msg :: carr
  od_is_swap :: bool
  od_side :: Side
  od_offset :: Offset
  od_hedge_flag :: HedgeFlag
  od_price_type :: PriceType
  od_volume_condition :: VolumeCondition
  od_time_condition :: TimeCondition

definition Order_zero :: Order where
  "Order_zero =
     \<lparr> od_order_id = 0, od_external_order_id = arr_zero EXTERNAL_ID_LEN, od_parent_id = 0,
       od_insert_time = 0, od_update_time = 0, od_trading_day = arr_zero DATE_LEN,
       od_instrument_id = arr_zero INSTRUMENT_ID_LEN, od_exchange_id = arr_zero EXCHANGE_ID_LEN,
       od_instrument_type = IT_Unknown, od_limit_price = 0, od_frozen_price = 0, od_volume = 0,
       od_volume_left = 0, od_tax = 0, od_commission = 0, od_status = OS_Unknown,
       od_error_id = 0, od_error_msg = arr_zero ERROR_MSG_LEN, od_is_swap = False,
       od_side = Side_Buy, od_offset = Offset_Open, od_hedge_flag = Hedge_Speculation,
       od_price_type = Price_Limit, od_volume_condition = VC_Any, od_time_condition = TC_IOC \<rparr>"

definition Order_assign :: "Order \<Rightarrow> Order \<Rightarrow> Order" where
  "Order_assign old new = new
     \<lparr> od_external_order_id := arr_assign (od_external_order_id old) (od_external_order_id new),
       od_trading_day := arr_assign (od_trading_day old) (od_trading_day new),
       od_instrument_id := arr_assign (od_instrument_id old) (od_instrument_id new),
       od_exchange_id := arr_assign (od_exchange_id old) (od_exchange_id new),
       od_error_msg := arr_assign (od_error_msg old) (od_error_msg new) \<rparr>"

section \<open>Trades, positions, assets\<close>

record Trade =
  tr_trade_id :: u64
  tr_order_id :: u64
  tr_external_order_id :: carr
  tr_external_trade_id :: carr
  tr_trade_time :: int
  tr_trading_day :: carr
  tr_instrument_id :: carr
  tr_exchange_id :: carr
  tr_instrument_type :: InstrumentType
  tr_side :: Side
  tr_offset :: Offset
  tr_hedge_flag :: HedgeFlag
  tr_price :: double
  tr_volume :: volume_type
  tr_tax :: double
  tr_commission :: double

definition Trade_zero :: Trade where
  "Trade_zero =
     \<lparr> tr_trade_id = 0, tr_order_id = 0, tr_external_order_id = arr_zero EXTERNAL_ID_LEN,
       tr_external_trade_id = arr_zero EXTERNAL_ID_LEN, tr_trade_time = 0,
       tr_trading_day = arr_zero DATE_LEN, tr_instrument_id = arr_zero INSTRUMENT_ID_LEN,
       tr_exchange_id = arr_zero EXCHANGE_ID_LEN, tr_instrument_type = IT_Unknown,
       tr_side = Side_Buy, tr_offset = Offset_Open, tr_hedge_flag = Hedge_Speculation,
       tr_price = 0, tr_volume = 0, tr_tax = 0, tr_commission = 0 \<rparr>"

definition Trade_assign :: "Trade \<Rightarrow> Trade \<Rightarrow> Trade" where
  "Trade_assign old new = new
     \<lparr> tr_external_order_id := arr_assign (tr_external_order_id old) (tr_external_order_id new),
       tr_external_trade_id := arr_assign (tr_external_trade_id old) (tr_external_trade_id new),
       tr_trading_day := arr_assign (tr_trading_day old) (tr_trading_day new),
       tr_instrument_id := arr_assign (tr_instrument_id old) (tr_instrument_id new),
       tr_exchange_id := arr_assign (tr_exchange_id old) (tr_exchange_id new) \<rparr>"

record Position =
  ps_update_time :: int
  ps_trading_day :: carr
  ps_instrument_id :: carr
  ps_instrument_type :: InstrumentType
  ps_exchange_id :: carr
  ps_direction :: Direction
  ps_volume :: volume_type
  ps_position_cost_price :: double
  ps_unrealized_pnl :: double

definition Position_zero :: Position where
  "Position_zero =
     \<lparr> ps_update_time = 0, ps_trading_day = arr_zero DATE_LEN,
       ps_instrument_id = arr_zero INSTRUMENT_ID_LEN, ps_instrument_type = IT_Unknown,
       ps_exchange_id = arr_zero EXCHANGE_ID_LEN, ps_direction = Dir_Long, ps_volume = 0,
       ps_position_cost_price = 0, ps_unrealized_pnl = 0 \<rparr>"

definition Position_assign :: "Position \<Rightarrow> Position \<Rightarrow> Position" where
  "Position_assign old new = new
     \<lparr> ps_trading_day := arr_assign (ps_trading_day old) (ps_trading_day new),
       ps_instrument_id := arr_assign (ps_instrument_id old) (ps_instrument_id new),
       ps_exchange_id := arr_assign (ps_exchange_id old) (ps_exchange_id new) \<rparr>"

record Asset =
  as_update_time :: int
  as_trading_day :: carr
  as_avail :: double
  as_margin :: double
  as_accumulated_fee :: double

definition Asset_zero :: Asset where
  "Asset_zero =
     \<lparr> as_update_time = 0, as_trading_day = arr_zero DATE_LEN, as_avail = 0, as_margin = 0,
       as_accumulated_fee = 0 \<rparr>"

definition Asset_assign :: "Asset \<Rightarrow> Asset \<Rightarrow> Asset" where
  "Asset_assign old new = new
     \<lparr> as_trading_day := arr_assign (as_trading_day old) (as_trading_day new) \<rparr>"

record AssetMargin =
  am_update_time :: int
  am_trading_day :: carr
  am_holder_uid :: u32
  am_ledger_category :: LedgerCategory
  am_total_asset :: double
  am_avail_margin :: double
  am_cash_margin :: double
  am_short_margin :: double
  am_margin :: double
  am_cash_debt :: double
  am_short_cash :: double
  am_short_market_value :: double
  am_margin_market_value :: double
  am_margin_interest :: double
  am_settlement :: double
  am_credit :: double
  am_collateral_ratio :: double

definition AssetMargin_zero :: AssetMargin where
  "AssetMargin_zero =
     \<lparr> am_update_time = 0, am_trading_day = arr_zero DATE_LEN, am_holder_uid = 0,
       am_ledger_category = LC_Account, am_total_asset = 0, am_avail_margin = 0,
       am_cash_margin = 0, am_short_margin = 0, am_margin = 0, am_cash_debt = 0,
       am_short_cash = 0, am_short_market_value = 0, am_margin_market_value = 0,
       am_margin_interest = 0, am_settlement = 0, am_credit = 0, am_collateral_ratio = 0 \<rparr>"

definition AssetMargin_assign :: "AssetMargin \<Rightarrow> AssetMargin \<Rightarrow> AssetMargin" where
  "AssetMargin_assign old new = new
     \<lparr> am_trading_day := arr_assign (am_trading_day old) (am_trading_day new) \<rparr>"

lemmas struct_assigns [op_defs] = Commission_assign_def Instrument_assign_def
  OrderInput_assign_def Order_assign_def Trade_assign_def Position_assign_def Asset_assign_def
  AssetMargin_assign_def

section \<open>Orders and trades made from an order input\<close>

definition order_from_input :: "OrderInput \<Rightarrow> Order \<Rightarrow> Order" where
  "order_from_input input order = order
     \<lparr> od_order_id := oi_order_id input,
       od_instrument_id := arr_assign (od_instrument_id order) (oi_instrument_id input),
       od_exchange_id := arr_assign (od_exchange_id order) (oi_exchange_id input),
       od_instrument_type := oi_instrument_type input,
       od_limit_price := oi_limit_price input,
       od_frozen_price := oi_frozen_price input,
       od_volume := oi_volume input,
       od_volume_left := oi_volume input,
       od_status := OS_Pending,
       od_side := oi_side input,
       od_offset := oi_offset input,
       od_is_swap := oi_is_swap input,
       od_hedge_flag := oi_hedge_flag input,
       od_price_type := oi_price_type input,
       od_volume_condition := oi_volume_condition input,
       od_time_condition := oi_time_condition input,
       od_parent_id := oi_parent_id input \<rparr>"

definition trade_from_orderinput :: "OrderInput \<Rightarrow> Trade \<Rightarrow> Trade" where
  "trade_from_orderinput input trade = trade
     \<lparr> tr_trade_id := oi_order_id input,
       tr_order_id := oi_order_id input,
       tr_trade_time := oi_insert_time input,
       tr_instrument_id := arr_assign (tr_instrument_id trade) (oi_instrument_id input),
       tr_exchange_id := arr_assign (tr_exchange_id trade) (oi_exchange_id input),
       tr_instrument_type := oi_instrument_type input,
       tr_side := oi_side input,
       tr_offset := oi_offset input,
       tr_hedge_flag := oi_hedge_flag input,
       tr_price := oi_limit_price input,
       tr_volume := oi_volume input,
       tr_tax := 0,
       tr_commission := 0 \<rparr>"

end
