(* ===== verification/Hash.thy ===== *)
theory Hash
  imports CArray
begin

text \<open>
  The 32-bit hashes that key the books: \<open>MurmurHash3_x86_32\<close>
  (src/thirdparty/MurmurHash3/MurmurHash3.cpp), its wrappers \<open>hash_32\<close> and \<open>hash_str_32\<close>
  (src/infra/hash.cpp) and the composite keys \<open>hash_instrument\<close> and \<open>hash_product\<close>
  (src/core/hashid.h). Arithmetic is that of \<open>uint32_t\<close>: words of 32 bits, wrapping.
\<close>

unbundle bit_operations_syntax

definition rotl32 :: "u32 \<Rightarrow> nat \<Rightarrow> u32" where
  "rotl32 x r = push_bit r x OR drop_bit (32 - r) x"

definition fmix32 :: "u32 \<Rightarrow> u32" where
  "fmix32 h =
     (let h = h XOR drop_bit 16 h;
          h = h * 0x85ebca6b;
          h = h XOR drop_bit 13 h;
          h = h * 0xc2b2ae35
      in h XOR drop_bit 16 h)"

text \<open>\<open>getblock32\<close> reads four bytes on a little-endian machine.\<close>

definition getblock32 :: "u8 \<Rightarrow> u8 \<Rightarrow> u8 \<Rightarrow> u8 \<Rightarrow> u32" where
  "getblock32 b0 b1 b2 b3 =
     ucast b0 OR push_bit 8 (ucast b1) OR push_bit 16 (ucast b2) OR push_bit 24 (ucast b3)"

definition murmur_k :: "u32 \<Rightarrow> u32" where
  "murmur_k k1 = rotl32 (k1 * 0xcc9e2d51) 15 * 0x1b873593"

text \<open>The loop over the blocks of four bytes; what is left are the 0 to 3 bytes of the tail.\<close>

fun murmur_body :: "u32 \<Rightarrow> u8 list \<Rightarrow> u32 \<times> u8 list" where
  "murmur_body h1 (b0 # b1 # b2 # b3 # bs) =
     murmur_body (rotl32 (h1 XOR murmur_k (getblock32 b0 b1 b2 b3)) 13 * 5 + 0xe6546b64) bs"
| "murmur_body h1 bs = (h1, bs)"

text \<open>The switch over \<open>len & 3\<close>, whose cases fall through.\<close>

fun murmur_tail :: "u32 \<Rightarrow> u8 list \<Rightarrow> u32" where
  "murmur_tail h1 [t0] = h1 XOR murmur_k (ucast t0)"
| "murmur_tail h1 [t0, t1] = h1 XOR murmur_k (push_bit 8 (ucast t1) XOR ucast t0)"
| "murmur_tail h1 [t0, t1, t2] =
     h1 XOR murmur_k (push_bit 16 (ucast t2) XOR push_bit 8 (ucast t1) XOR ucast t0)"
| "murmur_tail h1 _ = h1"

definition MurmurHash3_x86_32 :: "u8 list \<Rightarrow> u32 \<Rightarrow> u32" where
  "MurmurHash3_x86_32 key seed =
     (let (h1, tail) = murmur_body seed key
      in fmix32 (murmur_tail h1 tail XOR word_of_nat (length key)))"

definition HASH_SEED :: u32 where
  "HASH_SEED = 42"

definition hash_32 :: "u8 list \<Rightarrow> u32 \<Rightarrow> u32" where
  "hash_32 key seed = MurmurHash3_x86_32 key seed"

definition bytes_of :: "string \<Rightarrow> u8 list" where
  "bytes_of s = List.map of_char s"

definition hash_str_32 :: "string \<Rightarrow> u32" where
  "hash_str_32 key = hash_32 (bytes_of key) HASH_SEED"

definition hash_instrument :: "carr \<Rightarrow> carr \<Rightarrow> u32" where
  "hash_instrument exchange_id instrument_id =
     hash_str_32 (arr_str instrument_id) XOR hash_str_32 (arr_str exchange_id)"

definition hash_product :: "carr \<Rightarrow> carr \<Rightarrow> u32" where
  "hash_product exchange_id product_id =
     hash_str_32 (arr_str product_id) XOR hash_str_32 (arr_str exchange_id)"

text \<open>The rotation of the source is the rotation of the word library.\<close>

lemma rotl32_rotate:
  assumes "r < 32"
  shows "rotl32 x r = word_rotl r x"
proof (rule bit_word_eqI)
  fix n
  assume n: "n < LENGTH(32)"
  show "bit (rotl32 x r) n = bit (word_rotl r x) n"
  proof (cases "r \<le> n")
    case True
    with n assms have "(n + (32 - r)) mod 32 = n - r" by (simp add: le_mod_geq)
    with True n show ?thesis
      by (auto simp: rotl32_def bit_or_iff bit_push_bit_iff bit_drop_bit_eq bit_word_rotl_iff
          dest: bit_imp_le_length)
  next
    case False
    have "32 + n - r = n + 32 - r" by simp
    with False n assms show ?thesis
      by (auto simp: rotl32_def bit_or_iff bit_push_bit_iff bit_drop_bit_eq bit_word_rotl_iff)
  qed
qed

text \<open>The block loop consumes all but the last \<open>length mod 4\<close> bytes.\<close>

lemma murmur_body_tail:
  "snd (murmur_body h bs) = drop (length bs - length bs mod 4) bs"
  by (induction h bs rule: murmur_body.induct) (auto simp: Suc_diff_le)

lemma murmur_body_append:
  "length bs mod 4 = 0 \<Longrightarrow> murmur_body h (bs @ cs) = murmur_body (fst (murmur_body h bs)) cs"
  by (induction h bs rule: murmur_body.induct) auto

lemma hash_instrument_cong [intro]:
  "\<lbrakk> arr_str e = arr_str e'; arr_str i = arr_str i' \<rbrakk> \<Longrightarrow> hash_instrument e i = hash_instrument e' i'"
  by (simp add: hash_instrument_def)

text \<open>
  The combination of the two hashes is symmetric: swapping the texts, or giving one text twice,
  collides whatever the hash is.
\<close>

lemma hash_instrument_swap:
  "\<lbrakk> arr_str e = arr_str i'; arr_str i = arr_str e' \<rbrakk> \<Longrightarrow> hash_instrument e i = hash_instrument e' i'"
  by (simp add: hash_instrument_def xor.commute)

lemma hash_instrument_diagonal: "arr_str e = arr_str i \<Longrightarrow> hash_instrument e i = 0"
  by (simp add: hash_instrument_def)

end
