(* ===== verification/Book.thy ===== *)
theory Book
  imports Types Hash
begin

text \<open>
  The books of src/core/book.h and src/core/book.cpp: positions, commissions, instruments, order
  inputs, orders and trades, each an unordered map behind a small interface, and the \<open>Book\<close> that
  holds them with the account's asset. Logging is left out; nothing in the bodies throws, so the
  \<open>try\<close> blocks are their bodies. 

  The five books keyed by an id share a contract, stated as the locale \<open>keyed_book\<close>: what a
  look-up returns after a \<open>set\<close>, for any key.
\<close>

section \<open>The contract of a keyed book\<close>

locale keyed_book =
  fixes key :: "'v \<Rightarrow> 'k"
    and asg :: "'v \<Rightarrow> 'v \<Rightarrow> 'v"
    and zero :: 'v
    and look :: "'b \<Rightarrow> 'k \<Rightarrow> 'v option"
    and put :: "'v \<Rightarrow> 'b \<Rightarrow> 'b"
    and ok :: "'b \<Rightarrow> bool"
    and batch :: "'v list \<Rightarrow> 'b \<Rightarrow> 'b"
  assumes look_put: "look (put v b) k =
      (if key v = k then Some (asg (case look b k of None \<Rightarrow> zero | Some old \<Rightarrow> old) v) else look b k)"
    and ok_put: "ok b \<Longrightarrow> ok (put v b)"
    and batch_fold: "batch vs b = fold put vs b"
begin

lemma look_put_same: "look (put v b) (key v) \<noteq> None"
  by (simp add: look_put)

lemma look_put_other: "key v \<noteq> k \<Longrightarrow> look (put v b) k = look b k"
  by (simp add: look_put)

lemma ok_batch: "ok b \<Longrightarrow> ok (batch vs b)"
  unfolding batch_fold by (induction vs arbitrary: b) (simp_all add: ok_put)

text \<open>A batch touches the keys of its elements and no other.\<close>

lemma look_batch_other: "k \<notin> key ` set vs \<Longrightarrow> look (batch vs b) k = look b k"
  unfolding batch_fold by (induction vs arbitrary: b) (auto simp: look_put_other)

lemma look_batch_defined:
  "look (batch vs b) k \<noteq> None \<longleftrightarrow> k \<in> key ` set vs \<or> look b k \<noteq> None"
  unfolding batch_fold by (induction vs arbitrary: b) (auto simp: look_put split: if_splits)

text \<open>For a key, the last element of the batch with it decides.\<close>

lemma look_batch_last:
  assumes "key v \<notin> key ` set ws"
  shows "look (batch (vs @ v # ws) b) (key v) =
    Some (asg (case look (batch vs b) (key v) of None \<Rightarrow> zero | Some old \<Rightarrow> old) v)"
  using look_batch_other [of "key v" ws "put v (batch vs b)"] assms
  by (simp add: batch_fold look_put)

end

section \<open>PositionBook\<close>

record PositionBook =
  pb_long :: "(u32, Position) umap"
  pb_short :: "(u32, Position) umap"

definition PositionBook_empty :: PositionBook where
  "PositionBook_empty = \<lparr> pb_long = [], pb_short = [] \<rparr>"

definition get_positions_by_direction :: "PositionBook \<Rightarrow> Direction \<Rightarrow> (u32, Position) umap" where
  "get_positions_by_direction b d = (if d = Dir_Long then pb_long b else pb_short b)"

text \<open>Writing through the reference \<open>positions\<close>, which is bound to one of the two maps.\<close>

definition upd_positions ::
    "Direction \<Rightarrow> ((u32, Position) umap \<Rightarrow> (u32, Position) umap) \<Rightarrow> PositionBook \<Rightarrow> PositionBook" where
  "upd_positions d f b =
     (if d = Dir_Long then b\<lparr> pb_long := f (pb_long b) \<rparr> else b\<lparr> pb_short := f (pb_short b) \<rparr>)"

definition positions_set :: "Position \<Rightarrow> PositionBook \<Rightarrow> PositionBook" where
  "positions_set p b =
     upd_positions (ps_direction p)
       (umap_assign Position_assign Position_zero (hash_instrument (ps_exchange_id p) (ps_instrument_id p)) p) b"

definition positions_get :: "PositionBook \<Rightarrow> carr \<Rightarrow> carr \<Rightarrow> Direction \<Rightarrow> Position option" where
  "positions_get b instrument_id exchange_id d =
     umap_find (get_positions_by_direction b d) (hash_instrument exchange_id instrument_id)"

definition get_all_positions :: "PositionBook \<Rightarrow> carr \<Rightarrow> carr \<Rightarrow> Position list" where
  "get_all_positions b instrument_id exchange_id =
     (let hash_key = hash_instrument exchange_id instrument_id
      in (case umap_find (pb_long b) hash_key of None \<Rightarrow> [] | Some p \<Rightarrow> [p]) @
         (case umap_find (pb_short b) hash_key of None \<Rightarrow> [] | Some p \<Rightarrow> [p]))"

definition remove_position :: "carr \<Rightarrow> carr \<Rightarrow> Direction \<Rightarrow> PositionBook \<Rightarrow> bool \<times> PositionBook" where
  "remove_position instrument_id exchange_id d b =
     (let hash_key = hash_instrument exchange_id instrument_id
      in if umap_contains (get_positions_by_direction b d) hash_key
         then (True, upd_positions d (umap_erase hash_key) b)
         else (False, b))"

definition positions_clear :: "PositionBook \<Rightarrow> PositionBook" where
  "positions_clear b = b\<lparr> pb_long := [], pb_short := [] \<rparr>"

definition has_positions :: "PositionBook \<Rightarrow> bool" where
  "has_positions b \<longleftrightarrow> pb_long b \<noteq> [] \<or> pb_short b \<noteq> []"

definition total_positions :: "PositionBook \<Rightarrow> nat" where
  "total_positions b = length (pb_long b) + length (pb_short b)"

definition positions_unrealized_pnl :: "PositionBook \<Rightarrow> double" where
  "positions_unrealized_pnl b =
     foldl (\<lambda>acc p. acc + ps_unrealized_pnl p)
       (foldl (\<lambda>acc p. acc + ps_unrealized_pnl p) 0 (umap_values (pb_long b)))
       (umap_values (pb_short b))"

text \<open>The map a trade goes to; sides other than buy and sell are skipped.\<close>

definition trade_direction :: "Trade \<Rightarrow> Direction option" where
  "trade_direction t =
     (case tr_side t of
        Side_Buy \<Rightarrow> Some (if tr_offset t = Offset_Open then Dir_Long else Dir_Short)
      | Side_Sell \<Rightarrow> Some (if tr_offset t = Offset_Open then Dir_Short else Dir_Long)
      | _ \<Rightarrow> None)"

definition position_of_trade :: "Direction \<Rightarrow> Trade \<Rightarrow> Position" where
  "position_of_trade d t = Position_zero
     \<lparr> ps_update_time := tr_trade_time t,
       ps_trading_day := arr_assign (ps_trading_day Position_zero) (tr_trading_day t),
       ps_instrument_id := arr_assign (ps_instrument_id Position_zero) (tr_instrument_id t),
       ps_instrument_type := tr_instrument_type t,
       ps_exchange_id := arr_assign (ps_exchange_id Position_zero) (tr_exchange_id t),
       ps_direction := d,
       ps_volume := tr_volume t,
       ps_position_cost_price := tr_price t,
       ps_unrealized_pnl := 0 \<rparr>"

text \<open>
  The average cost: the total volume is an \<open>int64_t\<close>, so a fraction of it is cut off. (For a
  total outside the range of \<open>int64_t\<close> the conversion gives what x86-64 gives, \<open>- 2 ^ 63\<close>.)
\<close>

definition i64_of :: "double \<Rightarrow> int" where
  "i64_of d = (case to_i64 d of Some n \<Rightarrow> n | None \<Rightarrow> - (2 ^ 63))"

definition average_cost :: "Position \<Rightarrow> Trade \<Rightarrow> double" where
  "average_cost p t =
     (let total_cost = ps_position_cost_price p * ps_volume p;
          new_cost = tr_price t * tr_volume t;
          total_volume = i64_of (ps_volume p + tr_volume t)
      in if total_volume > 0 then (total_cost + new_cost) / of_i64 total_volume
         else ps_position_cost_price p)"

definition positions_update :: "Trade \<Rightarrow> PositionBook \<Rightarrow> PositionBook" where
  "positions_update t b =
     (case trade_direction t of
        None \<Rightarrow> b
      | Some d \<Rightarrow>
          let hash_key = hash_instrument (tr_exchange_id t) (tr_instrument_id t)
          in case umap_find (get_positions_by_direction b d) hash_key of
               None \<Rightarrow>
                 upd_positions d (umap_assign Position_assign Position_zero hash_key (position_of_trade d t)) b
             | Some p \<Rightarrow>
                 let p1 = p\<lparr> ps_position_cost_price := average_cost p t \<rparr>
                 in if tr_offset t = Offset_Open
                    then upd_positions d (umap_set hash_key
                           (p1\<lparr> ps_volume := ps_volume p1 + tr_volume t, ps_update_time := tr_trade_time t \<rparr>)) b
                    else let v = ps_volume p1 - tr_volume t
                         in if v \<le> 0 then upd_positions d (umap_erase hash_key) b
                            else upd_positions d (umap_set hash_key
                                   (p1\<lparr> ps_volume := v, ps_update_time := tr_trade_time t \<rparr>)) b)"

section \<open>The books keyed by an id\<close>

type_synonym CommissionBook = "(u32, Commission) umap"
type_synonym InstrumentBook = "(u32, Instrument) umap"
type_synonym OrderInputBook = "(u64, OrderInput) umap"
type_synonym OrderBook = "(u64, Order) umap"
type_synonym TradeBook = "(u64, Trade) umap"

definition commission_key :: "Commission \<Rightarrow> u32" where
  "commission_key c = hash_str_32 (arr_str (cm_product_id c))"

definition commissions_set :: "Commission \<Rightarrow> CommissionBook \<Rightarrow> CommissionBook" where
  "commissions_set c b = umap_assign Commission_assign Commission_zero (hash_str_32 (arr_str (cm_product_id c))) c b"

definition commissions_get :: "CommissionBook \<Rightarrow> carr \<Rightarrow> Commission option" where
  "commissions_get b product_id = umap_find b (hash_str_32 (arr_str product_id))"

definition commissions_contains :: "CommissionBook \<Rightarrow> carr \<Rightarrow> bool" where
  "commissions_contains b product_id = umap_contains b (hash_str_32 (arr_str product_id))"

primrec commissions_set_batch :: "Commission list \<Rightarrow> CommissionBook \<Rightarrow> CommissionBook" where
  "commissions_set_batch [] b = b"
| "commissions_set_batch (c # cs) b = commissions_set_batch cs (commissions_set c b)"

definition get_with_default :: "CommissionBook \<Rightarrow> carr \<Rightarrow> Commission \<Rightarrow> Commission" where
  "get_with_default b product_id default_commission =
     (case commissions_get b product_id of Some c \<Rightarrow> c | None \<Rightarrow> default_commission)"

definition instrument_key :: "Instrument \<Rightarrow> u32" where
  "instrument_key i = hash_instrument (in_exchange_id i) (in_instrument_id i)"

definition instruments_set :: "Instrument \<Rightarrow> InstrumentBook \<Rightarrow> InstrumentBook" where
  "instruments_set i b =
     umap_assign Instrument_assign Instrument_zero (hash_instrument (in_exchange_id i) (in_instrument_id i)) i b"

definition instruments_get :: "InstrumentBook \<Rightarrow> carr \<Rightarrow> carr \<Rightarrow> Instrument option" where
  "instruments_get b instrument_id exchange_id = umap_find b (hash_instrument exchange_id instrument_id)"

definition instruments_contains :: "InstrumentBook \<Rightarrow> carr \<Rightarrow> carr \<Rightarrow> bool" where
  "instruments_contains b instrument_id exchange_id = umap_contains b (hash_instrument exchange_id instrument_id)"

primrec instruments_set_batch :: "Instrument list \<Rightarrow> InstrumentBook \<Rightarrow> InstrumentBook" where
  "instruments_set_batch [] b = b"
| "instruments_set_batch (i # is) b = instruments_set_batch is (instruments_set i b)"

definition find_by_exchange :: "InstrumentBook \<Rightarrow> carr \<Rightarrow> Instrument list" where
  "find_by_exchange b exchange_id =
     List.filter (\<lambda>i. arr_str (in_exchange_id i) = arr_str exchange_id) (umap_values b)"

definition order_inputs_set :: "OrderInput \<Rightarrow> OrderInputBook \<Rightarrow> OrderInputBook" where
  "order_inputs_set oi b = umap_assign OrderInput_assign OrderInput_zero (oi_order_id oi) oi b"

definition order_inputs_get :: "OrderInputBook \<Rightarrow> u64 \<Rightarrow> OrderInput option" where
  "order_inputs_get b order_id = umap_find b order_id"

definition order_inputs_contains :: "OrderInputBook \<Rightarrow> u64 \<Rightarrow> bool" where
  "order_inputs_contains b order_id = umap_contains b order_id"

primrec order_inputs_set_batch :: "OrderInput list \<Rightarrow> OrderInputBook \<Rightarrow> OrderInputBook" where
  "order_inputs_set_batch [] b = b"
| "order_inputs_set_batch (oi # ois) b = order_inputs_set_batch ois (order_inputs_set oi b)"

definition order_inputs_find_by_instrument :: "OrderInputBook \<Rightarrow> carr \<Rightarrow> carr \<Rightarrow> OrderInput list" where
  "order_inputs_find_by_instrument b instrument_id exchange_id =
     List.filter (\<lambda>oi. arr_str (oi_instrument_id oi) = arr_str instrument_id \<and>
                       arr_str (oi_exchange_id oi) = arr_str exchange_id) (umap_values b)"

definition orders_set :: "Order \<Rightarrow> OrderBook \<Rightarrow> OrderBook" where
  "orders_set od b = umap_assign Order_assign Order_zero (od_order_id od) od b"

definition orders_get :: "OrderBook \<Rightarrow> u64 \<Rightarrow> Order option" where
  "orders_get b order_id = umap_find b order_id"

definition orders_contains :: "OrderBook \<Rightarrow> u64 \<Rightarrow> bool" where
  "orders_contains b order_id = umap_contains b order_id"

primrec orders_set_batch :: "Order list \<Rightarrow> OrderBook \<Rightarrow> OrderBook" where
  "orders_set_batch [] b = b"
| "orders_set_batch (od # ods) b = orders_set_batch ods (orders_set od b)"

definition orders_find_by_instrument :: "OrderBook \<Rightarrow> carr \<Rightarrow> carr \<Rightarrow> Order list" where
  "orders_find_by_instrument b instrument_id exchange_id =
     List.filter (\<lambda>od. arr_str (od_instrument_id od) = arr_str instrument_id \<and>
                       arr_str (od_exchange_id od) = arr_str exchange_id) (umap_values b)"

definition find_by_status :: "OrderBook \<Rightarrow> OrderStatus \<Rightarrow> Order list" where
  "find_by_status b st = List.filter (\<lambda>od. od_status od = st) (umap_values b)"

definition trades_set :: "Trade \<Rightarrow> TradeBook \<Rightarrow> TradeBook" where
  "trades_set t b = umap_assign Trade_assign Trade_zero (tr_trade_id t) t b"

definition trades_get :: "TradeBook \<Rightarrow> u64 \<Rightarrow> Trade option" where
  "trades_get b trade_id = umap_find b trade_id"

definition trades_contains :: "TradeBook \<Rightarrow> u64 \<Rightarrow> bool" where
  "trades_contains b trade_id = umap_contains b trade_id"

primrec trades_set_batch :: "Trade list \<Rightarrow> TradeBook \<Rightarrow> TradeBook" where
  "trades_set_batch [] b = b"
| "trades_set_batch (t # ts) b = trades_set_batch ts (trades_set t b)"

definition trades_find_by_instrument :: "TradeBook \<Rightarrow> carr \<Rightarrow> carr \<Rightarrow> Trade list" where
  "trades_find_by_instrument b instrument_id exchange_id =
     List.filter (\<lambda>t. arr_str (tr_instrument_id t) = arr_str instrument_id \<and>
                      arr_str (tr_exchange_id t) = arr_str exchange_id) (umap_values b)"

text \<open>The bounds arrive as \<open>uint64_t\<close> and are cast to \<open>int64_t\<close>.\<close>

definition find_by_time_range :: "TradeBook \<Rightarrow> u64 \<Rightarrow> u64 \<Rightarrow> Trade list" where
  "find_by_time_range b start_time end_time =
     List.filter (\<lambda>t. tr_trade_time t \<ge> sint start_time \<and> tr_trade_time t \<le> sint end_time) (umap_values b)"

section \<open>Book\<close>

record Book =
  bk_commissions :: CommissionBook
  bk_instruments :: InstrumentBook
  bk_asset :: Asset
  bk_asset_margin :: AssetMargin
  bk_positions :: PositionBook
  bk_order_inputs :: OrderInputBook
  bk_orders :: OrderBook
  bk_trades :: TradeBook

definition Book_empty :: Book where
  "Book_empty =
     \<lparr> bk_commissions = [], bk_instruments = [], bk_asset = Asset_zero,
       bk_asset_margin = AssetMargin_zero, bk_positions = PositionBook_empty,
       bk_order_inputs = [], bk_orders = [], bk_trades = [] \<rparr>"

definition asset_after_trade :: "Trade \<Rightarrow> double \<Rightarrow> double" where
  "asset_after_trade t avail =
     (let avail1 = (case tr_side t of
                      Side_Buy \<Rightarrow> avail - tr_price t * tr_volume t
                    | Side_Sell \<Rightarrow> avail + tr_price t * tr_volume t
                    | _ \<Rightarrow> avail)
      in avail1 - tr_commission t - tr_tax t)"

definition book_update_trade :: "Trade \<Rightarrow> Book \<Rightarrow> Book" where
  "book_update_trade t b = b
     \<lparr> bk_positions := positions_update t (bk_positions b),
       bk_asset := (bk_asset b)\<lparr> as_avail := asset_after_trade t (as_avail (bk_asset b)) \<rparr> \<rparr>"

definition update_position_pnl :: "Bar \<Rightarrow> Position \<Rightarrow> Position" where
  "update_position_pnl bar p =
     (let factor = (if ps_direction p = Dir_Long then 1 else - 1 :: int)
      in p\<lparr> ps_unrealized_pnl :=
              ps_volume p * (bar_close bar - ps_position_cost_price p) * of_i64 factor,
            ps_update_time := bar_end_time bar \<rparr>)"

definition update_asset_from_positions :: "Bar \<Rightarrow> Book \<Rightarrow> Book" where
  "update_asset_from_positions bar b =
     b\<lparr> bk_asset := (bk_asset b)\<lparr> as_update_time := bar_end_time bar \<rparr> \<rparr>"

text \<open>The update through the pointer \<open>positions.get\<close> returned, for one direction.\<close>

definition update_direction_pnl :: "Bar \<Rightarrow> Direction \<Rightarrow> PositionBook \<Rightarrow> PositionBook" where
  "update_direction_pnl bar d b =
     (case positions_get b (bar_instrument_id bar) (bar_exchange_id bar) d of
        Some p \<Rightarrow>
          if ps_volume p > 0
          then upd_positions d
                 (umap_set (hash_instrument (bar_exchange_id bar) (bar_instrument_id bar)) (update_position_pnl bar p)) b
          else b
      | None \<Rightarrow> b)"

definition book_update_bar :: "Bar \<Rightarrow> Book \<Rightarrow> Book" where
  "book_update_bar bar b =
     (if bar_instrument_id bar ! 0 = NUL \<or> bar_exchange_id bar ! 0 = NUL then b
      else
        let long_position = positions_get (bk_positions b) (bar_instrument_id bar) (bar_exchange_id bar) Dir_Long;
            short_position = positions_get (bk_positions b) (bar_instrument_id bar) (bar_exchange_id bar) Dir_Short;
            b1 = b\<lparr> bk_positions :=
                     update_direction_pnl bar Dir_Short (update_direction_pnl bar Dir_Long (bk_positions b)) \<rparr>
        in if long_position \<noteq> None \<or> short_position \<noteq> None
           then update_asset_from_positions bar b1 else b1)"

definition total_unrealized_pnl :: "Book \<Rightarrow> double" where
  "total_unrealized_pnl b = positions_unrealized_pnl (bk_positions b)"

definition asset_price :: "Book \<Rightarrow> double" where
  "asset_price b = as_avail (bk_asset b) + positions_unrealized_pnl (bk_positions b)"

text \<open>Both branches of the source compute the same placeholder.\<close>

definition trade_realized_pnl :: "Trade \<Rightarrow> double" where
  "trade_realized_pnl t =
     (if tr_side t = Side_Sell then (tr_price t - tr_price t) * tr_volume t
      else (tr_price t - tr_price t) * tr_volume t)"

definition total_realized_pnl :: "Book \<Rightarrow> double" where
  "total_realized_pnl b =
     foldl (\<lambda>total t. if tr_offset t = Offset_Close then total + trade_realized_pnl t else total)
       0 (umap_values (bk_trades b))"

definition total_commission :: "Book \<Rightarrow> double" where
  "total_commission b = foldl (\<lambda>total t. total + tr_commission t) 0 (umap_values (bk_trades b))"

definition total_tax :: "Book \<Rightarrow> double" where
  "total_tax b = foldl (\<lambda>total t. total + tr_tax t) 0 (umap_values (bk_trades b))"

definition validate_positions :: "Book \<Rightarrow> bool" where
  "validate_positions b \<longleftrightarrow>
     list_all (\<lambda>p. \<not> ps_volume p < 0) (umap_values (pb_long (bk_positions b))) \<and>
     list_all (\<lambda>p. \<not> ps_volume p < 0) (umap_values (pb_short (bk_positions b)))"

text \<open>The check with a set of ids seen so far; the insertion of a seen id fails.\<close>

fun no_duplicates :: "'k list \<Rightarrow> 'k list \<Rightarrow> bool" where
  "no_duplicates seen [] = True"
| "no_duplicates seen (k # ks) = (if k \<in> set seen then False else no_duplicates (k # seen) ks)"

definition validate_orders :: "Book \<Rightarrow> bool" where
  "validate_orders b = no_duplicates [] (umap_keys (bk_orders b))"

definition validate_trades :: "Book \<Rightarrow> bool" where
  "validate_trades b = no_duplicates [] (umap_keys (bk_trades b))"

definition validate_consistency :: "Book \<Rightarrow> bool" where
  "validate_consistency b \<longleftrightarrow> validate_positions b \<and> validate_orders b \<and> validate_trades b"

text \<open>\<open>asset = {}\<close> is the implicit assignment from a value-initialised struct.\<close>

definition book_clear :: "Book \<Rightarrow> Book" where
  "book_clear b =
     \<lparr> bk_commissions = [], bk_instruments = [],
       bk_asset = Asset_assign (bk_asset b) Asset_zero,
       bk_asset_margin = AssetMargin_assign (bk_asset_margin b) AssetMargin_zero,
       bk_positions = positions_clear (bk_positions b),
       bk_order_inputs = [], bk_orders = [], bk_trades = [] \<rparr>"

section \<open>The books meet the contract\<close>

lemma assign_slot: "umap_slot zero m k = (case umap_find m k of None \<Rightarrow> zero | Some old \<Rightarrow> old)"
  by (simp add: umap_slot_def)

lemma commissions_batch_fold: "commissions_set_batch cs b = fold commissions_set cs b"
  by (induction cs arbitrary: b) simp_all

lemma instruments_batch_fold: "instruments_set_batch is b = fold instruments_set is b"
  by (induction "is" arbitrary: b) simp_all

lemma order_inputs_batch_fold: "order_inputs_set_batch ois b = fold order_inputs_set ois b"
  by (induction ois arbitrary: b) simp_all

lemma orders_batch_fold: "orders_set_batch ods b = fold orders_set ods b"
  by (induction ods arbitrary: b) simp_all

lemma trades_batch_fold: "trades_set_batch ts b = fold trades_set ts b"
  by (induction ts arbitrary: b) simp_all

lemmas batch_folds = commissions_batch_fold instruments_batch_fold order_inputs_batch_fold
  orders_batch_fold trades_batch_fold

interpretation cb: keyed_book commission_key Commission_assign Commission_zero umap_find
    commissions_set umap_wf commissions_set_batch
  by unfold_locales
    (simp_all add: commissions_set_def commission_key_def assign_slot commissions_batch_fold)

interpretation ib: keyed_book instrument_key Instrument_assign Instrument_zero umap_find
    instruments_set umap_wf instruments_set_batch
  by unfold_locales
    (simp_all add: instruments_set_def instrument_key_def assign_slot instruments_batch_fold)

interpretation oib: keyed_book oi_order_id OrderInput_assign OrderInput_zero order_inputs_get
    order_inputs_set umap_wf order_inputs_set_batch
  by unfold_locales
    (simp_all add: order_inputs_set_def order_inputs_get_def assign_slot order_inputs_batch_fold)

interpretation ob: keyed_book od_order_id Order_assign Order_zero orders_get orders_set umap_wf
    orders_set_batch
  by unfold_locales (simp_all add: orders_set_def orders_get_def assign_slot orders_batch_fold)

interpretation tb: keyed_book tr_trade_id Trade_assign Trade_zero trades_get trades_set umap_wf
    trades_set_batch
  by unfold_locales (simp_all add: trades_set_def trades_get_def assign_slot trades_batch_fold)

section \<open>Positions: invariant and effect of a trade\<close>

text \<open>
  Every map has distinct keys, and every stored position has a positive volume (possibly
  infinite, never a NaN).
\<close>

definition live_positions :: "(u32, Position) umap \<Rightarrow> bool" where
  "live_positions m \<longleftrightarrow> list_all (\<lambda>(k, p). 0 < ps_volume p \<and> wf_double (ps_volume p)) m"

definition pb_wf :: "PositionBook \<Rightarrow> bool" where
  "pb_wf b \<longleftrightarrow> umap_wf (pb_long b) \<and> umap_wf (pb_short b)"

definition pb_live :: "PositionBook \<Rightarrow> bool" where
  "pb_live b \<longleftrightarrow> live_positions (pb_long b) \<and> live_positions (pb_short b)"

lemma get_upd_positions [simp]:
  "get_positions_by_direction (upd_positions d f b) d' =
     (if (d = Dir_Long) = (d' = Dir_Long) then f (get_positions_by_direction b d')
      else get_positions_by_direction b d')"
  by (simp add: upd_positions_def get_positions_by_direction_def)

lemma pb_maps: "pb_long b = get_positions_by_direction b Dir_Long"
    "pb_short b = get_positions_by_direction b Dir_Short"
  by (simp_all add: get_positions_by_direction_def)

lemma pb_wf_alt: "pb_wf b \<longleftrightarrow> (\<forall>d. umap_wf (get_positions_by_direction b d))"
  unfolding pb_wf_def get_positions_by_direction_def
  by (metis (full_types) Direction.distinct(1))

lemma pb_live_alt: "pb_live b \<longleftrightarrow> (\<forall>d. live_positions (get_positions_by_direction b d))"
  unfolding pb_live_def get_positions_by_direction_def
  by (metis (full_types) Direction.distinct(1))

lemma pb_wf_upd [inv_intros]:
  "\<lbrakk> pb_wf b; \<And>m. umap_wf m \<Longrightarrow> umap_wf (f m) \<rbrakk> \<Longrightarrow> pb_wf (upd_positions d f b)"
  by (simp add: pb_wf_def upd_positions_def)

lemma pb_live_upd [inv_intros]:
  "\<lbrakk> pb_live b; \<And>m. live_positions m \<Longrightarrow> live_positions (f m) \<rbrakk> \<Longrightarrow> pb_live (upd_positions d f b)"
  by (simp add: pb_live_def upd_positions_def)

lemma live_set [inv_intros]:
  "\<lbrakk> live_positions m; 0 < ps_volume p; wf_double (ps_volume p) \<rbrakk> \<Longrightarrow> live_positions (umap_set k p m)"
  unfolding live_positions_def by (rule umap_all_set) auto

lemma live_assign [inv_intros]:
  "\<lbrakk> live_positions m; 0 < ps_volume p; wf_double (ps_volume p) \<rbrakk> \<Longrightarrow>
   live_positions (umap_assign Position_assign zero k p m)"
  unfolding umap_assign_def by (rule live_set) (simp_all add: Position_assign_def)

lemma live_erase [inv_intros]: "live_positions m \<Longrightarrow> live_positions (umap_erase k m)"
  unfolding live_positions_def by (rule umap_all_erase)

lemma live_find:
  "\<lbrakk> live_positions m; umap_find m k = Some p \<rbrakk> \<Longrightarrow> 0 < ps_volume p \<and> wf_double (ps_volume p)"
  unfolding live_positions_def list_all_iff by (drule umap_find_in_set) auto

lemma pb_wf_update [inv_intros]: "pb_wf b \<Longrightarrow> pb_wf (positions_update t b)"
  by (auto simp: positions_update_def Let_def split: option.splits intro!: pb_wf_upd)

text \<open>The four outcomes of a trade, on the map it goes to.\<close>

definition traded_map :: "Direction \<Rightarrow> Trade \<Rightarrow> (u32, Position) umap \<Rightarrow> (u32, Position) umap" where
  "traded_map d t m =
     (let k = hash_instrument (tr_exchange_id t) (tr_instrument_id t)
      in case umap_find m k of
           None \<Rightarrow> umap_assign Position_assign Position_zero k (position_of_trade d t) m
         | Some p \<Rightarrow>
             let v = (if tr_offset t = Offset_Open then ps_volume p + tr_volume t else ps_volume p - tr_volume t)
             in if tr_offset t \<noteq> Offset_Open \<and> v \<le> 0 then umap_erase k m
                else umap_set k (p\<lparr> ps_position_cost_price := average_cost p t, ps_volume := v,
                                    ps_update_time := tr_trade_time t \<rparr>) m)"

lemma upd_positions_cong:
  "f (get_positions_by_direction b d) = g (get_positions_by_direction b d) \<Longrightarrow>
   upd_positions d f b = upd_positions d g b"
  by (cases "d = Dir_Long") (simp_all add: upd_positions_def get_positions_by_direction_def)

lemma positions_update_traded:
  "positions_update t b =
     (case trade_direction t of None \<Rightarrow> b | Some d \<Rightarrow> upd_positions d (traded_map d t) b)"
  unfolding positions_update_def Let_def
  by (auto split: option.splits simp: traded_map_def Let_def intro!: upd_positions_cong)

lemma traded_map_other:
  "hash_instrument (tr_exchange_id t) (tr_instrument_id t) \<noteq> k \<Longrightarrow>
   umap_find (traded_map d t m) k = umap_find m k"
  by (auto simp: traded_map_def Let_def split: option.splits)

lemma live_traded_map:
  assumes "live_positions m" "0 < tr_volume t" "is_finite (tr_volume t)" "wf_double (tr_volume t)"
  shows "live_positions (traded_map d t m)"
proof (cases "umap_find m (hash_instrument (tr_exchange_id t) (tr_instrument_id t))")
  case None
  with assms show ?thesis
    by (auto simp: traded_map_def position_of_trade_def intro!: live_assign)
next
  case (Some p)
  note p = live_find [OF assms(1) this]
  have "ps_volume p - tr_volume t \<noteq> NaN"
    using p assms(3) by (metis less_not_NaN sub_not_NaN)
  then have "\<not> ps_volume p - tr_volume t \<le> 0 \<Longrightarrow> 0 < ps_volume p - tr_volume t"
    by (simp add: double_not_le f64_ops(1))
  with Some p assms show ?thesis
    by (auto simp: traded_map_def Let_def pos_add intro!: live_set live_erase wf_arith)
qed

lemma pb_live_update [inv_intros]:
  assumes "pb_live b" "0 < tr_volume t" "is_finite (tr_volume t)" "wf_double (tr_volume t)"
  shows "pb_live (positions_update t b)"
  using assms by (auto simp: positions_update_traded split: option.splits intro!: pb_live_upd live_traded_map)

lemma live_not_negative: "live_positions m \<Longrightarrow> list_all (\<lambda>p. \<not> ps_volume p < 0) (umap_values m)"
  unfolding live_positions_def list_all_iff umap_values_def
  using double_less_trans double_less_irrefl by fastforce

lemma no_duplicates_iff: "no_duplicates seen ks \<longleftrightarrow> distinct ks \<and> set ks \<inter> set seen = {}"
  by (induction seen ks rule: no_duplicates.induct) auto

lemma validate_ids: "umap_wf m \<Longrightarrow> no_duplicates [] (umap_keys m)"
  by (simp add: no_duplicates_iff umap_wf_def umap_keys_def)

section \<open>Costs\<close>

lemma i64_of_of_i64 [simp]: "\<bar>n\<bar> \<le> 2 ^ 53 \<Longrightarrow> i64_of (of_i64 n) = n"
  by (simp add: i64_of_def to_i64_of_i64)

lemma i64_of_zero_below_one: "\<lbrakk> is_finite a; 0 \<le> a; a < 1 \<rbrakk> \<Longrightarrow> i64_of a = 0"
  by (auto simp: i64_of_def to_i64_def trunc_rat_def le_fin less_fin one_double_def floor_eq_iff Let_def)

text \<open>The order of the sum matters for rounding, not for finite values that all vanish.\<close>

lemma sum_zero:
  "\<lbrakk> acc = 0; \<And>x. x \<in> set xs \<Longrightarrow> f x = 0 \<or> f x = NegZero \<rbrakk> \<Longrightarrow> foldl (\<lambda>acc x. acc + f x) acc xs = (0::double)"
proof (induction xs arbitrary: acc)
  case (Cons x xs)
  from Cons.prems(2) [of x] have "0 + f x = 0" by auto
  with Cons show ?case by simp
qed simp

lemma trade_realized_pnl_zero:
  "\<lbrakk> is_finite (tr_price t); is_finite (tr_volume t) \<rbrakk> \<Longrightarrow>
   trade_realized_pnl t = 0 \<or> trade_realized_pnl t = NegZero"
  by (simp add: trade_realized_pnl_def sub_self zero_mult)

section \<open>Bars and cash\<close>

lemma upd_long_short [simp]:
  "pb_short (upd_positions Dir_Long f b) = pb_short b" "pb_long (upd_positions Dir_Short f b) = pb_long b"
  "pb_long (upd_positions Dir_Long f b) = f (pb_long b)" "pb_short (upd_positions Dir_Short f b) = f (pb_short b)"
  by (simp_all add: upd_positions_def)

lemma pnl_volume [simp]: "ps_volume (update_position_pnl bar p) = ps_volume p"
  and pnl_cost [simp]: "ps_position_cost_price (update_position_pnl bar p) = ps_position_cost_price p"
  by (simp_all add: update_position_pnl_def Let_def)

lemma get_update_direction_pnl:
  "positions_get (update_direction_pnl bar d b) i e d' =
     (case positions_get b i e d' of
        None \<Rightarrow> None
      | Some p \<Rightarrow>
          if (d = Dir_Long) = (d' = Dir_Long) \<and> 0 < ps_volume p \<and>
             hash_instrument (bar_exchange_id bar) (bar_instrument_id bar) = hash_instrument e i
          then Some (update_position_pnl bar p) else Some p)"
  by (auto simp: update_direction_pnl_def positions_get_def get_positions_by_direction_def upd_positions_def
      split: option.splits)

lemma pb_wf_direction_pnl [inv_intros]: "pb_wf b \<Longrightarrow> pb_wf (update_direction_pnl bar d b)"
  by (auto simp: update_direction_pnl_def split: option.splits intro!: pb_wf_upd)

lemma pb_live_direction_pnl [inv_intros]:
  assumes "pb_live b"
  shows "pb_live (update_direction_pnl bar d b)"
proof (cases "positions_get b (bar_instrument_id bar) (bar_exchange_id bar) d")
  case (Some p)
  then have "0 < ps_volume p \<and> wf_double (ps_volume p)"
    using assms live_find unfolding positions_get_def pb_live_alt by blast
  with Some assms show ?thesis
    by (auto simp: update_direction_pnl_def intro!: pb_live_upd live_set)
qed (simp add: update_direction_pnl_def assms)

text \<open>The operations on a book that the engines call, as one step.\<close>

datatype BookOp =
  Op_Trade Trade | Op_Bar Bar | Op_SetOrder Order | Op_SetTrade Trade | Op_SetOrderInput OrderInput
| Op_SetInstrument Instrument | Op_SetCommission Commission | Op_Clear

fun book_step :: "BookOp \<Rightarrow> Book \<Rightarrow> Book" where
  "book_step (Op_Trade t) b = book_update_trade t b"
| "book_step (Op_Bar bar) b = book_update_bar bar b"
| "book_step (Op_SetOrder od) b = b\<lparr> bk_orders := orders_set od (bk_orders b) \<rparr>"
| "book_step (Op_SetTrade t) b = b\<lparr> bk_trades := trades_set t (bk_trades b) \<rparr>"
| "book_step (Op_SetOrderInput oi) b = b\<lparr> bk_order_inputs := order_inputs_set oi (bk_order_inputs b) \<rparr>"
| "book_step (Op_SetInstrument i) b = b\<lparr> bk_instruments := instruments_set i (bk_instruments b) \<rparr>"
| "book_step (Op_SetCommission c) b = b\<lparr> bk_commissions := commissions_set c (bk_commissions b) \<rparr>"
| "book_step Op_Clear b = book_clear b"

fun valid_op :: "BookOp \<Rightarrow> bool" where
  "valid_op (Op_Trade t) \<longleftrightarrow> 0 < tr_volume t \<and> is_finite (tr_volume t) \<and> wf_double (tr_volume t)"
| "valid_op _ \<longleftrightarrow> True"

definition book_inv :: "Book \<Rightarrow> bool" where
  "book_inv b \<longleftrightarrow> pb_wf (bk_positions b) \<and> pb_live (bk_positions b) \<and>
     umap_wf (bk_orders b) \<and> umap_wf (bk_trades b)"

lemma book_inv_empty [inv_intros]: "book_inv Book_empty"
  by (simp add: book_inv_def Book_empty_def PositionBook_empty_def pb_wf_def pb_live_def live_positions_def)

lemma book_update_bar_sel [simp]:
  "bk_orders (book_update_bar bar b) = bk_orders b" "bk_trades (book_update_bar bar b) = bk_trades b"
  by (simp_all add: book_update_bar_def update_asset_from_positions_def Let_def)

lemma book_update_bar_positions:
  "bk_positions (book_update_bar bar b) =
     (if bar_instrument_id bar ! 0 = NUL \<or> bar_exchange_id bar ! 0 = NUL then bk_positions b
      else update_direction_pnl bar Dir_Short (update_direction_pnl bar Dir_Long (bk_positions b)))"
  by (simp add: book_update_bar_def update_asset_from_positions_def Let_def)

lemma book_inv_step [inv_intros]:
  assumes "book_inv b" "valid_op x"
  shows "book_inv (book_step x b)"
proof (cases x)
  case (Op_Trade t)
  with assms show ?thesis
    by (simp add: book_inv_def book_update_trade_def pb_wf_update pb_live_update)
next
  case (Op_Bar bar)
  with assms show ?thesis
    by (simp add: book_inv_def book_update_bar_positions pb_wf_direction_pnl pb_live_direction_pnl)
next
  case Op_Clear
  then show ?thesis
    by (simp add: book_inv_def book_clear_def positions_clear_def pb_wf_def pb_live_def live_positions_def)
qed (use assms in \<open>simp_all add: book_inv_def orders_set_def trades_set_def\<close>)

lemma book_inv_steps: "\<lbrakk> book_inv b; \<forall>x \<in> set xs. valid_op x \<rbrakk> \<Longrightarrow> book_inv (fold book_step xs b)"
  by (induction xs arbitrary: b) (auto intro: book_inv_step)

lemma book_inv_consistent: "book_inv b \<Longrightarrow> validate_consistency b"
  by (simp add: book_inv_def validate_consistency_def validate_positions_def validate_orders_def
      validate_trades_def validate_ids pb_live_def live_not_negative)

section \<open>Properties\<close>

text \<open>C6: positions never go bad. Whatever sequence of trades of positive finite volume, bars,
  stored orders and trades and clears a book goes through, from the empty book on,
  \<open>validate_consistency\<close> holds: no negative volume, no duplicate order or trade id.\<close>

theorem book_always_consistent:
  assumes "\<forall>x \<in> set xs. valid_op x"
  shows "validate_consistency (fold book_step xs Book_empty)"
  using book_inv_consistent [OF book_inv_steps [OF book_inv_empty assms]] .

definition sample_trade :: Trade where
  "sample_trade = Trade_zero
     \<lparr> tr_trade_id := 7, tr_instrument_id := ''IF2401'' @ arr_zero 26, tr_exchange_id := ''CFFEX'' @ arr_zero 11,
       tr_price := of_i64 100, tr_volume := of_i64 2 \<rparr>"

lemma sample_trade_volume: "0 < tr_volume sample_trade \<and> is_finite (tr_volume sample_trade) \<and> wf_double (tr_volume sample_trade)"
  by (simp add: sample_trade_def less_fin)

lemma book_always_consistent_witness:
  "validate_consistency (fold book_step [Op_Trade sample_trade, Op_SetTrade sample_trade, Op_Clear] Book_empty)"
  by (rule book_always_consistent) (simp add: sample_trade_volume)

lemma positions_get_dir: "positions_get b i e d = umap_find (get_positions_by_direction b d) (hash_instrument e i)"
  by (simp add: positions_get_def)

lemma traded_map_find:
  "umap_find (traded_map d t m) (hash_instrument (tr_exchange_id t) (tr_instrument_id t)) =
     (case umap_find m (hash_instrument (tr_exchange_id t) (tr_instrument_id t)) of
        None \<Rightarrow> Some (Position_assign Position_zero (position_of_trade d t))
      | Some p \<Rightarrow>
          let v = (if tr_offset t = Offset_Open then ps_volume p + tr_volume t else ps_volume p - tr_volume t)
          in if tr_offset t \<noteq> Offset_Open \<and> v \<le> 0 then None
             else Some (p\<lparr> ps_position_cost_price := average_cost p t, ps_volume := v,
                           ps_update_time := tr_trade_time t \<rparr>))"
  by (simp add: traded_map_def Let_def split: option.split)

text \<open>C18: the effect of a trade on a position book, in full. A buy to open, or a sell that does not open, goes
  to the long side, a sell to open and a buy that does not to the short side; the position of the traded instrument there
  is created, enlarged, reduced or, at zero or below, removed, and no other position changes.\<close>

theorem positions_update_effect:
  assumes "tr_side t = Side_Buy \<or> tr_side t = Side_Sell"
    "d = (if tr_side t = Side_Buy \<and> tr_offset t = Offset_Open \<or> tr_side t = Side_Sell \<and> tr_offset t \<noteq> Offset_Open
          then Dir_Long else Dir_Short)"
  shows "positions_get (positions_update t b) (tr_instrument_id t) (tr_exchange_id t) d =
      (case positions_get b (tr_instrument_id t) (tr_exchange_id t) d of
         None \<Rightarrow> Some (Position_assign Position_zero (position_of_trade d t))
       | Some p \<Rightarrow>
           let v = (if tr_offset t = Offset_Open then ps_volume p + tr_volume t else ps_volume p - tr_volume t)
           in if tr_offset t \<noteq> Offset_Open \<and> v \<le> 0 then None
              else Some (p\<lparr> ps_position_cost_price := average_cost p t, ps_volume := v,
                            ps_update_time := tr_trade_time t \<rparr>))
    \<and> (((d' = Dir_Long) \<noteq> (d = Dir_Long) \<or>
         hash_instrument e i \<noteq> hash_instrument (tr_exchange_id t) (tr_instrument_id t)) \<longrightarrow>
        positions_get (positions_update t b) i e d' = positions_get b i e d')"
proof -
  have "trade_direction t = Some d" using assms by (auto simp: trade_direction_def)
  then show ?thesis
    using traded_map_other [of t "hash_instrument e i" d]
    by (auto simp: positions_update_traded positions_get_dir traded_map_find)
qed

lemma positions_update_effect_witness:
  "positions_get (positions_update sample_trade PositionBook_empty)
      (tr_instrument_id sample_trade) (tr_exchange_id sample_trade) Dir_Long =
    Some (Position_assign Position_zero (position_of_trade Dir_Long sample_trade))"
  using positions_update_effect [of sample_trade Dir_Long PositionBook_empty]
  by (simp add: sample_trade_def Trade_zero_def positions_get_def
      get_positions_by_direction_def PositionBook_empty_def)

text \<open>For whole volumes the truncation to \<open>int64_t\<close> is harmless: the new cost price is the
  volume-weighted average of the two prices, in the arithmetic of \<open>double\<close>.\<close>

theorem average_cost_whole:
  assumes "ps_volume p = of_i64 m" "tr_volume t = of_i64 n" "0 \<le> m" "0 \<le> n" "0 < m + n" "m + n \<le> 2 ^ 53"
  shows "average_cost p t =
    (ps_position_cost_price p * ps_volume p + tr_price t * tr_volume t) / (ps_volume p + tr_volume t)"
proof -
  have "of_i64 m + of_i64 n = of_i64 (m + n)" using assms by (intro of_i64_add) simp_all
  then show ?thesis using assms by (simp add: average_cost_def)
qed

lemma average_cost_whole_witness:
  "average_cost (Position_zero\<lparr> ps_volume := of_i64 3, ps_position_cost_price := of_i64 90 \<rparr>) sample_trade =
    (of_i64 90 * of_i64 3 + of_i64 100 * of_i64 2) / (of_i64 3 + of_i64 2)"
  using average_cost_whole [of "Position_zero\<lparr> ps_volume := of_i64 3, ps_position_cost_price := of_i64 90 \<rparr>" 3
      sample_trade 2]
  by (simp add: sample_trade_def)

text \<open>With fractional volumes it is not harmless. As long as the joint volume is below one, the
  cost price of the position never moves, whatever the price and the volume traded.\<close>

theorem average_cost_below_one:
  assumes "is_finite (ps_volume p)" "is_finite (tr_volume t)" "0 \<le> ps_volume p + tr_volume t"
    "ps_volume p + tr_volume t < 1"
  shows "average_cost p t = ps_position_cost_price p"
proof -
  have "is_finite (ps_volume p + tr_volume t)"
    using assms(3,4) by (cases "ps_volume p + tr_volume t" rule: double_exhaust) (auto simp: f64_ops flt_key)
  then show ?thesis using assms by (simp add: average_cost_def i64_of_zero_below_one)
qed

lemma average_cost_below_one_witness:
  "average_cost (Position_zero\<lparr> ps_volume := Fin (1 / 4), ps_position_cost_price := of_i64 100 \<rparr>)
     (sample_trade\<lparr> tr_volume := Fin (1 / 4), tr_price := of_i64 900 \<rparr>) = of_i64 100"
  using average_cost_below_one [of "Position_zero\<lparr> ps_volume := Fin (1 / 4), ps_position_cost_price := of_i64 100 \<rparr>"
      "sample_trade\<lparr> tr_volume := Fin (1 / 4), tr_price := of_i64 900 \<rparr>"]
  by (simp add: f64_ops flt_def)

lemma asset_after_whole:
  assumes "tr_price t = of_i64 p" "tr_volume t = of_i64 v" "tr_commission t = of_i64 c" "tr_tax t = of_i64 x"
    "0 \<le> p" "0 \<le> v" "0 \<le> c" "0 \<le> x" "p \<le> 2 ^ 20" "v \<le> 2 ^ 20" "c \<le> 2 ^ 40" "x \<le> 2 ^ 40"
    "tr_side t = Side_Buy \<or> tr_side t = Side_Sell" "\<bar>a\<bar> \<le> 2 ^ 52"
  shows "asset_after_trade t (of_i64 a) = of_i64 ((if tr_side t = Side_Buy then a - p * v else a + p * v) - c - x)"
proof -
  define q where "q = p * v"
  have pv: "0 \<le> q" "q \<le> 2 ^ 40"
    unfolding q_def using assms mult_mono [of p "2 ^ 20" v "2 ^ 20"] by simp_all
  have m: "tr_price t * tr_volume t = of_i64 q"
    unfolding assms(1,2) q_def using assms pv q_def by (intro of_i64_times) simp_all
  note bounds = pv assms(7,8,11,12,14)
  have less: "of_i64 b - of_i64 c - of_i64 x = of_i64 (b - c - x)" if "\<bar>b\<bar> \<le> 2 ^ 52 + 2 ^ 40" for b
  proof -
    have "of_i64 b - of_i64 c = of_i64 (b - c)"
      using bounds that by (intro of_i64_minus) simp_all
    moreover have "of_i64 (b - c) - of_i64 x = of_i64 (b - c - x)"
      using bounds that by (intro of_i64_minus) simp_all
    ultimately show ?thesis by simp
  qed
  have buy: "of_i64 a - of_i64 q = of_i64 (a - q)" using bounds by (intro of_i64_minus) simp_all
  have sell: "of_i64 a + of_i64 q = of_i64 (a + q)" using bounds by (intro of_i64_add) simp_all
  show ?thesis
    unfolding asset_after_trade_def m assms(3,4) q_def [symmetric]
    using assms(13) bounds by (auto simp: buy sell less Let_def)
qed

text \<open>Cash is conserved. For whole amounts, buying and selling the same volume at the same price
  leaves the available cash lower by exactly the fees of the two trades, in either order.\<close>

theorem round_trip_cash:
  assumes "tr_side t1 = Side_Buy \<and> tr_side t2 = Side_Sell \<or> tr_side t1 = Side_Sell \<and> tr_side t2 = Side_Buy"
    and "tr_price t1 = of_i64 p" "tr_volume t1 = of_i64 v" "tr_commission t1 = of_i64 c1" "tr_tax t1 = of_i64 x1"
    and "tr_price t2 = of_i64 p" "tr_volume t2 = of_i64 v" "tr_commission t2 = of_i64 c2" "tr_tax t2 = of_i64 x2"
    and "0 \<le> p" "p \<le> 2 ^ 20" "0 \<le> v" "v \<le> 2 ^ 20" "0 \<le> c1" "c1 \<le> 2 ^ 40" "0 \<le> c2" "c2 \<le> 2 ^ 40"
    and "0 \<le> x1" "x1 \<le> 2 ^ 40" "0 \<le> x2" "x2 \<le> 2 ^ 40"
    and "as_avail (bk_asset b) = of_i64 a" "\<bar>a\<bar> \<le> 2 ^ 51"
  shows "as_avail (bk_asset (book_update_trade t2 (book_update_trade t1 b))) =
    of_i64 (a - (c1 + x1 + c2 + x2))"
proof -
  define q where "q = p * v"
  have q: "0 \<le> q" "q \<le> 2 ^ 40"
    unfolding q_def using assms(10-13) mult_mono [of p "2 ^ 20" v "2 ^ 20"] by simp_all
  define a1 where "a1 = (if tr_side t1 = Side_Buy then a - q else a + q) - c1 - x1"
  have a1: "\<bar>a1\<bar> \<le> 2 ^ 52" using assms(14-23) q by (auto simp: a1_def)
  have "asset_after_trade t1 (of_i64 a) = of_i64 a1"
    unfolding a1_def q_def using assms by (intro asset_after_whole) auto
  moreover have "asset_after_trade t2 (of_i64 a1) =
      of_i64 ((if tr_side t2 = Side_Buy then a1 - q else a1 + q) - c2 - x2)"
    unfolding q_def using assms a1 by (intro asset_after_whole) auto
  ultimately show ?thesis
    using assms(1,22) by (auto simp: book_update_trade_def a1_def algebra_simps)
qed

definition sample_sell :: Trade where
  "sample_sell = sample_trade\<lparr> tr_side := Side_Sell, tr_commission := of_i64 3 \<rparr>"

lemma round_trip_cash_witness:
  "as_avail (bk_asset (book_update_trade sample_sell (book_update_trade sample_trade Book_empty))) = of_i64 (- 3)"
  using round_trip_cash [of sample_trade sample_sell 100 2 0 0 3 0 Book_empty 0]
  by (simp add: sample_trade_def sample_sell_def Trade_zero_def Book_empty_def Asset_zero_def)

text \<open>A bar revalues the positions of its instrument and nothing else: volumes, cost prices and
  cash stay, every other position is untouched, and a held position gets the profit of its side.\<close>

theorem book_update_bar_effect:
  assumes "bar_instrument_id bar ! 0 \<noteq> NUL" "bar_exchange_id bar ! 0 \<noteq> NUL"
  shows "positions_get (bk_positions (book_update_bar bar b)) i e d =
      (case positions_get (bk_positions b) i e d of
         None \<Rightarrow> None
       | Some p \<Rightarrow>
           if 0 < ps_volume p \<and>
              hash_instrument (bar_exchange_id bar) (bar_instrument_id bar) = hash_instrument e i
           then Some (update_position_pnl bar p) else Some p)
    \<and> as_avail (bk_asset (book_update_bar bar b)) = as_avail (bk_asset b)
    \<and> bk_trades (book_update_bar bar b) = bk_trades b \<and> bk_orders (book_update_bar bar b) = bk_orders b"
  using assms
  by (cases "d = Dir_Long")
    (auto simp: book_update_bar_positions get_update_direction_pnl book_update_bar_def
      update_asset_from_positions_def Let_def split: option.split)

definition sample_bar :: Bar where
  "sample_bar =
     \<lparr> bar_trading_day = arr_zero DATE_LEN, bar_instrument_id = ''IF2401'' @ arr_zero 26,
       bar_exchange_id = ''CFFEX'' @ arr_zero 11, bar_instrument_type = IT_Future,
       bar_start_time = 0, bar_end_time = 60, bar_open = of_i64 100, bar_close = of_i64 110,
       bar_low = of_i64 99, bar_high = of_i64 111, bar_volume = of_i64 5, bar_start_volume = 0,
       bar_tick_count = 1 \<rparr>"

lemma book_update_bar_effect_witness:
  "as_avail (bk_asset (book_update_bar sample_bar Book_empty)) = as_avail (bk_asset Book_empty)"
  using book_update_bar_effect [of sample_bar Book_empty]
  by (simp add: sample_bar_def)

text \<open>Long and short are mirror images. For one volume and one cost price the two sides'
  unrealised profits are exact opposites, and a long position shows no loss while the close is at
  or above its cost.\<close>

theorem pnl_mirror:
  "ps_unrealized_pnl (update_position_pnl bar (p\<lparr> ps_direction := Dir_Short \<rparr>)) =
     - ps_unrealized_pnl (update_position_pnl bar (p\<lparr> ps_direction := Dir_Long \<rparr>))
   \<and> (is_finite (bar_close bar) \<and> is_finite (ps_position_cost_price p) \<and> is_finite (ps_volume p) \<and>
      0 < ps_volume p \<and> ps_position_cost_price p \<le> bar_close bar \<longrightarrow>
      0 \<le> ps_unrealized_pnl (update_position_pnl bar (p\<lparr> ps_direction := Dir_Long \<rparr>)))"
  by (simp add: update_position_pnl_def Let_def mult_one mult_minus_one mult_pos_nonneg sub_nonneg)

definition sample_position :: Position where
  "sample_position = Position_zero\<lparr> ps_volume := of_i64 3, ps_position_cost_price := of_i64 90 \<rparr>"

lemma pnl_mirror_witness:
  "0 \<le> ps_unrealized_pnl (update_position_pnl sample_bar (sample_position\<lparr> ps_direction := Dir_Long \<rparr>))"
  using pnl_mirror [of sample_bar sample_position]
  by (simp add: sample_bar_def sample_position_def of_i64_less [of 0, simplified] of_i64_le)

text \<open>\<open>total_realized_pnl\<close> is zero for every book whose trades have finite prices and volumes: both
  branches of the source subtract the trade's price from itself.\<close>

theorem realized_pnl_always_zero:
  assumes "\<forall>t \<in> set (umap_values (bk_trades b)). is_finite (tr_price t) \<and> is_finite (tr_volume t)"
  shows "total_realized_pnl b = 0"
proof -
  have "foldl (\<lambda>total t. if tr_offset t = Offset_Close then total + trade_realized_pnl t else total) 0 ts = 0"
    if "\<forall>t \<in> set ts. is_finite (tr_price t) \<and> is_finite (tr_volume t)" for ts
    using that
  proof (induction ts)
    case (Cons t ts)
    then have "0 + trade_realized_pnl t = 0" using trade_realized_pnl_zero [of t] by auto
    with Cons show ?case by simp
  qed simp
  with assms show ?thesis by (simp add: total_realized_pnl_def)
qed

lemma realized_pnl_always_zero_witness:
  "total_realized_pnl (Book_empty\<lparr> bk_trades := trades_set (sample_sell\<lparr> tr_offset := Offset_Close \<rparr>) [] \<rparr>) = 0"
  by (rule realized_pnl_always_zero)
    (simp add: trades_set_def umap_assign_def umap_set_def umap_slot_def umap_values_def Trade_assign_def
      sample_sell_def sample_trade_def)

text \<open>\<open>clear\<close> empties the books and zeroes the cash, but the trading day survives it: assigning
  an empty array copies no byte.\<close>

theorem book_clear_keeps_trading_day:
  "total_positions (bk_positions (book_clear b)) = 0 \<and> as_avail (bk_asset (book_clear b)) = 0 \<and>
   bk_trades (book_clear b) = [] \<and> bk_orders (book_clear b) = [] \<and>
   as_trading_day (bk_asset (book_clear b)) = as_trading_day (bk_asset b)"
  by (simp add: book_clear_def total_positions_def positions_clear_def Asset_assign_def Asset_zero_def
      arr_assign_def)

text \<open>The commission book knows a product by its id alone. A commission of the same product at
  another exchange overwrites the first, and when its exchange id is shorter than the stored one
  what is read back is neither.\<close>

theorem commission_exchange_mixed:
  assumes "arr_str (cm_product_id c2) = arr_str (cm_product_id c1)"
    and "length (arr_str (cm_exchange_id c2)) \<le> length (arr_str (cm_exchange_id c1))"
    and "arr_str (cm_product_id c1) = arr_str i"
  shows "map_option (\<lambda>c. arr_str (cm_exchange_id c)) (commissions_get (commissions_set c2 (commissions_set c1 [])) i) =
      Some (arr_str (cm_exchange_id c2) @ drop (length (arr_str (cm_exchange_id c2))) (arr_str (cm_exchange_id c1)))
    \<and> length (commissions_set c2 (commissions_set c1 [])) = 1"
proof -
  have k: "hash_str_32 (arr_str (cm_product_id c2)) = hash_str_32 (arr_str (cm_product_id c1))"
    using assms(1) by simp
  have "arr_str (arr_assign (arr_assign (cm_exchange_id Commission_zero) (cm_exchange_id c1)) (cm_exchange_id c2)) =
     arr_str (cm_exchange_id c2) @ drop (length (arr_str (cm_exchange_id c2))) (arr_str (cm_exchange_id c1))"
    using assms(2) by (subst arr_str_assign_shorter) (simp_all add: Commission_zero_def)
  then show ?thesis
    using k assms(3)
    by (simp add: commissions_set_def commissions_get_def umap_assign_def umap_set_def umap_find_def
        umap_slot_def Commission_assign_def)
qed

definition sample_commission :: "string \<Rightarrow> Commission" where
  "sample_commission ex = Commission_zero
     \<lparr> cm_product_id := ''cu'' @ arr_zero 126, cm_exchange_id := ex @ arr_zero (16 - length ex) \<rparr>"

lemma commission_exchange_mixed_witness:
  "map_option (\<lambda>c. arr_str (cm_exchange_id c))
     (commissions_get (commissions_set (sample_commission ''INE'') (commissions_set (sample_commission ''SHFE'') []))
       (''cu'' @ arr_zero 126)) = Some ''INEE''"
  using commission_exchange_mixed [of "sample_commission ''INE''" "sample_commission ''SHFE''" "''cu'' @ arr_zero 126"]
  by (simp add: sample_commission_def arr_str_Cons)

text \<open>The order book's batch update: an id outside the batch keeps its order; for an id inside,
  the last order of the batch with it is the one read back, field for field, up to what
  array assignment leaves behind the texts.\<close>

theorem orders_batch_last_wins:
  assumes "od_order_id od \<notin> od_order_id ` set later"
  shows "orders_get (orders_set_batch (earlier @ od # later) b) (od_order_id od) =
      Some (Order_assign (case orders_get (orders_set_batch earlier b) (od_order_id od) of
                            None \<Rightarrow> Order_zero | Some old \<Rightarrow> old) od)
    \<and> (k \<notin> od_order_id ` set (earlier @ od # later) \<longrightarrow>
        orders_get (orders_set_batch (earlier @ od # later) b) k = orders_get b k)"
  using ob.look_batch_last [OF assms] ob.look_batch_other by blast

lemma orders_batch_last_wins_witness:
  "orders_get (orders_set_batch [Order_zero\<lparr> od_order_id := 5 \<rparr>, Order_zero\<lparr> od_order_id := 5, od_volume := 1 \<rparr>] []) 5 =
    Some (Order_assign (Order_assign Order_zero (Order_zero\<lparr> od_order_id := 5 \<rparr>))
            (Order_zero\<lparr> od_order_id := 5, od_volume := 1 \<rparr>))"
  using orders_batch_last_wins [of "Order_zero\<lparr> od_order_id := 5, od_volume := 1 \<rparr>" "[]"
      "[Order_zero\<lparr> od_order_id := 5 \<rparr>]" "[]"]
  by (simp add: ob.look_put) (simp add: orders_get_def)

text \<open>The search by time range returns exactly the stored trades in the closed range.\<close>

theorem find_by_time_range_exact:
  assumes "umap_wf b"
  shows "t \<in> set (find_by_time_range b t0 t1) \<longleftrightarrow>
    (\<exists>k. trades_get b k = Some t) \<and> sint t0 \<le> tr_trade_time t \<and> tr_trade_time t \<le> sint t1"
  using umap_values_iff [OF assms, of t] by (auto simp: find_by_time_range_def trades_get_def)

lemma find_by_time_range_exact_witness:
  "sample_trade \<in> set (find_by_time_range [(7, sample_trade)] 0 10)"
  using find_by_time_range_exact [of "[(7, sample_trade)]" sample_trade 0 10]
  by (auto simp: umap_wf_def trades_get_def umap_find_def sample_trade_def Trade_zero_def)

end
