(* ===== verification/DepthBoard.thy ===== *)
theory DepthBoard
  imports Types Hash
begin

text \<open>
  \<open>DepthCallBoard\<close> (src/extension/depthcallboard.h, depthcallboard.cpp): the order-book depth of
  every instrument in a memory-mapped file, written by the strategy process and read by the
  simulated broker. The shared memory is a header and the elements behind it, addressed by byte
  offset; each process has its own cache of the offsets. Both sides use \<open>InstrumentDepth<20>\<close>.

  A reader and the writer agree through the contract \<open>depth_source\<close>: what a reader gets for an
  instrument is what the writer set last, whatever either has cached.
\<close>

section \<open>Shared memory and local state\<close>

record DepthMem =
  dm_length :: nat
  dm_header_length :: nat
  dm_used_length :: nat
  dm_elm_size :: nat
  dm_data :: "nat \<Rightarrow> InstrumentDepth"

record DepthCallBoard =
  db_is_writing :: bool
  db_positions :: "(u32, nat) umap"

text \<open>\<open>sizeof(InstrumentDepth<20>)\<close> and \<open>sizeof(Header)\<close>.\<close>

definition DEPTH_LEVELS :: nat where "DEPTH_LEVELS = 20"
definition DEPTH_SIZE :: nat where "DEPTH_SIZE = 696"
definition BOARD_HEADER :: nat where "BOARD_HEADER = 16"

lemmas board_consts = DEPTH_LEVELS_def DEPTH_SIZE_def BOARD_HEADER_def

text \<open>Whichever process calls it, \<open>init\<close> clears the mapped file.\<close>

definition board_init :: "nat \<Rightarrow> nat \<Rightarrow> bool \<Rightarrow> DepthMem \<times> DepthCallBoard" where
  "board_init len elm_size is_writing =
     (\<lparr> dm_length = len, dm_header_length = BOARD_HEADER, dm_used_length = BOARD_HEADER,
        dm_elm_size = elm_size, dm_data = (\<lambda>_. InstrumentDepth_zero DEPTH_LEVELS) \<rparr>,
      \<lparr> db_is_writing = is_writing, db_positions = [] \<rparr>)"

text \<open>The search for an instrument; the offset it stops at.\<close>

function scan_board :: "(nat \<Rightarrow> InstrumentDepth) \<Rightarrow> u32 \<Rightarrow> nat \<Rightarrow> nat \<Rightarrow> nat" where
  "scan_board data iid p e =
     (if p + DEPTH_SIZE \<le> e
      then if iid = hash_str_32 (arr_str (dp_instrument_id (data p))) then p
           else scan_board data iid (p + DEPTH_SIZE) e
      else p)"
  by auto
termination by (relation "measure (\<lambda>(data, iid, p, e). e - p)") (auto simp: DEPTH_SIZE_def)

declare scan_board.simps [simp del]

definition depth_assign :: "InstrumentDepth \<Rightarrow> InstrumentDepth \<Rightarrow> InstrumentDepth" where
  "depth_assign old new = new
     \<lparr> dp_instrument_id := arr_assign (dp_instrument_id old) (dp_instrument_id new),
       dp_exchange_id := arr_assign (dp_exchange_id old) (dp_exchange_id new) \<rparr>"

text \<open>\<open>get\<close>: the board with its cache, and the element when there is one; \<open>output\<close> is assigned.\<close>

definition board_get ::
    "DepthMem \<Rightarrow> carr \<Rightarrow> InstrumentDepth \<Rightarrow> DepthCallBoard \<Rightarrow> bool \<times> InstrumentDepth \<times> DepthCallBoard" where
  "board_get m instrument_id output b =
     (let iid = hash_str_32 (arr_str instrument_id)
      in case umap_find (db_positions b) iid of
           Some p \<Rightarrow> (True, depth_assign output (dm_data m p), b)
         | None \<Rightarrow>
             let p = scan_board (dm_data m) iid (dm_header_length m) (dm_used_length m)
             in if p + DEPTH_SIZE > dm_used_length m then (False, output, b)
                else (True, depth_assign output (dm_data m p),
                      b\<lparr> db_positions := umap_set iid p (db_positions b) \<rparr>))"

text \<open>\<open>set\<close>: an element that does not fit the mapping is written past its end, \<open>None\<close> here.\<close>

definition board_set ::
    "carr \<Rightarrow> InstrumentDepth \<Rightarrow> DepthMem \<Rightarrow> DepthCallBoard \<Rightarrow> (DepthMem \<times> DepthCallBoard) option" where
  "board_set instrument_id input m b =
     (if \<not> db_is_writing b then Some (m, b)
      else
        let iid = hash_str_32 (arr_str instrument_id);
            (p, used, positions) =
              (case umap_find (db_positions b) iid of
                 Some p \<Rightarrow> (p, dm_used_length m, db_positions b)
               | None \<Rightarrow> (dm_used_length m, dm_used_length m + DEPTH_SIZE,
                          umap_set iid (dm_used_length m) (db_positions b)))
        in if p + DEPTH_SIZE > dm_length m then None
           else Some (m\<lparr> dm_used_length := used,
                         dm_data := (dm_data m)(p := depth_assign (dm_data m p) input) \<rparr>,
                      b\<lparr> db_positions := positions \<rparr>))"

section \<open>Layout invariant\<close>

definition slot_at :: "nat \<Rightarrow> nat" where
  "slot_at i = BOARD_HEADER + i * DEPTH_SIZE"

text \<open>The elements in use are the first \<open>n\<close> slots, with pairwise different instrument hashes.\<close>

definition slot_hash :: "DepthMem \<Rightarrow> nat \<Rightarrow> u32" where
  "slot_hash m i = hash_str_32 (arr_str (dp_instrument_id (dm_data m (slot_at i))))"

definition board_mem_wf :: "nat \<Rightarrow> DepthMem \<Rightarrow> bool" where
  "board_mem_wf n m \<longleftrightarrow>
     dm_header_length m = BOARD_HEADER \<and> dm_used_length m = slot_at n \<and>
     (\<forall>p \<ge> slot_at n. dm_data m p = InstrumentDepth_zero DEPTH_LEVELS) \<and>
     (\<forall>i j. i < n \<longrightarrow> j < n \<longrightarrow> slot_hash m i = slot_hash m j \<longrightarrow> i = j)"

text \<open>A cache is right when every offset in it is that of the instrument's slot.\<close>

definition cache_wf :: "nat \<Rightarrow> DepthMem \<Rightarrow> DepthCallBoard \<Rightarrow> bool" where
  "cache_wf n m b \<longleftrightarrow>
     (\<forall>iid p. umap_find (db_positions b) iid = Some p \<longrightarrow> (\<exists>i<n. p = slot_at i \<and> slot_hash m i = iid))"

text \<open>The writer knows every slot.\<close>

definition writer_wf :: "nat \<Rightarrow> DepthMem \<Rightarrow> DepthCallBoard \<Rightarrow> bool" where
  "writer_wf n m b \<longleftrightarrow> db_is_writing b \<and> cache_wf n m b \<and>
     (\<forall>i<n. umap_find (db_positions b) (slot_hash m i) = Some (slot_at i))"

lemma slot_at_inj [simp]: "slot_at i = slot_at j \<longleftrightarrow> i = j"
  by (simp add: slot_at_def board_consts)

lemma DEPTH_SIZE_pos [simp]: "DEPTH_SIZE \<noteq> 0"
  by (simp add: DEPTH_SIZE_def)

lemma slot_at_Suc: "slot_at (Suc i) = slot_at i + DEPTH_SIZE"
  by (simp add: slot_at_def)

lemma slot_fits: "slot_at i + DEPTH_SIZE \<le> slot_at n \<longleftrightarrow> i < n"
  by (simp add: slot_at_def board_consts) linarith

text \<open>The search stops at the slot of the hash when there is one, else behind the last.\<close>

lemma scan_board_found:
  assumes "i \<le> j" "j < n" "slot_hash m j = iid" "\<forall>k. i \<le> k \<longrightarrow> k < j \<longrightarrow> slot_hash m k \<noteq> iid"
  shows "scan_board (dm_data m) iid (slot_at i) (slot_at n) = slot_at j"
  using assms
proof (induction "j - i" arbitrary: i)
  case 0
  then have "i = j" by simp
  with 0 show ?case by (subst scan_board.simps) (simp add: slot_fits slot_hash_def)
next
  case (Suc d)
  then have ij: "i < j" "i < n" by simp_all
  with Suc.prems have "slot_hash m i \<noteq> iid" by simp
  moreover have "scan_board (dm_data m) iid (slot_at (Suc i)) (slot_at n) = slot_at j"
    using Suc ij by (intro Suc.hyps) auto
  ultimately show ?case
    using ij by (subst scan_board.simps) (simp add: slot_fits slot_hash_def slot_at_Suc)
qed

lemma scan_board_missing:
  assumes "i \<le> n" "\<forall>k. i \<le> k \<longrightarrow> k < n \<longrightarrow> slot_hash m k \<noteq> iid"
  shows "scan_board (dm_data m) iid (slot_at i) (slot_at n) = slot_at n"
  using assms
proof (induction "n - i" arbitrary: i)
  case 0
  then have "i = n" by simp
  then show ?case by (subst scan_board.simps) (simp add: slot_fits)
next
  case (Suc d)
  then have i: "i < n" by simp
  with Suc.prems have "slot_hash m i \<noteq> iid" by simp
  moreover have "scan_board (dm_data m) iid (slot_at (Suc i)) (slot_at n) = slot_at n"
    using Suc i by (intro Suc.hyps) auto
  ultimately show ?case
    using i by (subst scan_board.simps) (simp add: slot_fits slot_hash_def slot_at_Suc)
qed

section \<open>What a reader gets\<close>

text \<open>The content of the board, by instrument hash, and what of an element a reader can tell.\<close>

definition board_look :: "DepthMem \<Rightarrow> u32 \<Rightarrow> InstrumentDepth option" where
  "board_look m h =
     (let p = scan_board (dm_data m) h BOARD_HEADER (dm_used_length m)
      in if p + DEPTH_SIZE > dm_used_length m then None else Some (dm_data m p))"

definition depth_view ::
    "InstrumentDepth \<Rightarrow> u32 \<times> string \<times> string \<times> double list \<times> double list \<times> double list \<times> double list" where
  "depth_view d = (dp_real_depth_size d, arr_str (dp_instrument_id d), arr_str (dp_exchange_id d), dp_bid_price d,
                   dp_ask_price d, dp_bid_volume d, dp_ask_volume d)"

lemma slot_at_0: "slot_at 0 = BOARD_HEADER"
  by (simp add: slot_at_def)

lemma board_look_slot:
  assumes "board_mem_wf n m" "i < n"
  shows "scan_board (dm_data m) (slot_hash m i) BOARD_HEADER (dm_used_length m) = slot_at i"
proof -
  have "\<forall>k. 0 \<le> k \<longrightarrow> k < i \<longrightarrow> slot_hash m k \<noteq> slot_hash m i"
    using assms unfolding board_mem_wf_def by (metis less_trans nat_neq_iff)
  then show ?thesis
    using scan_board_found [of 0 i n m "slot_hash m i"] assms
    by (simp add: slot_at_0 board_mem_wf_def)
qed

lemma board_look_Some:
  "\<lbrakk> board_mem_wf n m; i < n \<rbrakk> \<Longrightarrow> board_look m (slot_hash m i) = Some (dm_data m (slot_at i))"
  using slot_fits [of i n] by (simp add: board_look_def board_look_slot) (simp add: board_mem_wf_def)

lemma board_look_None:
  assumes "board_mem_wf n m" "\<forall>i<n. slot_hash m i \<noteq> h"
  shows "board_look m h = None"
  using assms scan_board_missing [of 0 n m h]
  by (simp add: board_look_def slot_at_0 board_mem_wf_def)

lemma board_look_cases:
  assumes "board_mem_wf n m"
  obtains i where "i < n" "slot_hash m i = h" "board_look m h = Some (dm_data m (slot_at i))"
    | "\<forall>i<n. slot_hash m i \<noteq> h" "board_look m h = None"
  using assms board_look_Some board_look_None by metis

text \<open>With a right cache, a read gives the board's content and leaves the cache right.\<close>

lemma board_get_spec:
  assumes "board_mem_wf n m" "cache_wf n m b"
  shows "board_get m instrument_id output b =
      (case board_look m (hash_str_32 (arr_str instrument_id)) of
         None \<Rightarrow> (False, output, b)
       | Some d \<Rightarrow> (True, depth_assign output d, snd (snd (board_get m instrument_id output b))))"
    and "cache_wf n m (snd (snd (board_get m instrument_id output b)))"
proof -
  define h where "h = hash_str_32 (arr_str instrument_id)"
  have hd: "dm_header_length m = BOARD_HEADER" "dm_used_length m = slot_at n"
    using assms(1) by (simp_all add: board_mem_wf_def)
  have "board_get m instrument_id output b =
      (case board_look m h of None \<Rightarrow> (False, output, b)
       | Some d \<Rightarrow> (True, depth_assign output d, snd (snd (board_get m instrument_id output b)))) \<and>
    cache_wf n m (snd (snd (board_get m instrument_id output b)))"
  proof (cases "umap_find (db_positions b) h")
    case (Some p)
    with assms(2) obtain i where i: "i < n" "p = slot_at i" "slot_hash m i = h"
      unfolding cache_wf_def by blast
    with board_look_Some [OF assms(1) i(1)] Some assms(2) show ?thesis
      by (simp add: board_get_def h_def [symmetric])
  next
    case None
    show ?thesis
    proof (cases rule: board_look_cases [OF assms(1), of h])
      case (1 i)
      with board_look_slot [OF assms(1) 1(1)] None assms(2) slot_fits [of i n] hd show ?thesis
        by (auto simp: board_get_def h_def [symmetric] cache_wf_def Let_def)
    next
      case 2
      then have "scan_board (dm_data m) h BOARD_HEADER (slot_at n) = slot_at n"
        using scan_board_missing [of 0 n m h] by (simp add: slot_at_0)
      with 2 None assms(2) hd show ?thesis
        by (simp add: board_get_def h_def [symmetric] Let_def)
    qed
  qed
  then show "board_get m instrument_id output b =
      (case board_look m (hash_str_32 (arr_str instrument_id)) of
         None \<Rightarrow> (False, output, b)
       | Some d \<Rightarrow> (True, depth_assign output d, snd (snd (board_get m instrument_id output b))))"
    and "cache_wf n m (snd (snd (board_get m instrument_id output b)))"
    by (simp_all add: h_def)
qed

section \<open>What the writer does\<close>

definition put_slot :: "nat \<Rightarrow> nat \<Rightarrow> InstrumentDepth \<Rightarrow> DepthMem \<Rightarrow> DepthMem" where
  "put_slot n j e m = m\<lparr> dm_used_length := slot_at n, dm_data := (dm_data m)(slot_at j := e) \<rparr>"

lemma slot_hash_put_slot:
  "slot_hash (put_slot n j e m) i =
     (if i = j then hash_str_32 (arr_str (dp_instrument_id e)) else slot_hash m i)"
  by (simp add: put_slot_def slot_hash_def)

lemma put_slot_data: "dm_data (put_slot n j e m) (slot_at i) = (if i = j then e else dm_data m (slot_at i))"
  by (simp add: put_slot_def)

lemma board_mem_wf_put:
  assumes "board_mem_wf n m" "n' = n \<and> j < n \<or> n' = Suc n \<and> j = n"
    "\<forall>i<n. i \<noteq> j \<longrightarrow> slot_hash m i \<noteq> hash_str_32 (arr_str (dp_instrument_id e))"
  shows "board_mem_wf n' (put_slot n' j e m)"
proof -
  have j: "j < n'" "\<And>i. i < n' \<Longrightarrow> i \<noteq> j \<Longrightarrow> i < n" "n \<le> n'"
    using assms(2) by auto
  have "slot_at j < slot_at n'" using j(1) by (simp add: slot_at_def board_consts)
  moreover have "slot_at n \<le> slot_at n'" using j(3) by (simp add: slot_at_def)
  ultimately have zero: "\<forall>p \<ge> slot_at n'. dm_data (put_slot n' j e m) p = InstrumentDepth_zero DEPTH_LEVELS"
    using assms(1) by (simp add: board_mem_wf_def put_slot_def)
  have "i = i'" if "i < n'" "i' < n'"
    "slot_hash (put_slot n' j e m) i = slot_hash (put_slot n' j e m) i'" for i i'
  proof (cases "i = j \<or> i' = j")
    case True
    with that assms(3) j(2) [of i] j(2) [of i'] show ?thesis
      by (metis slot_hash_put_slot)
  next
    case False
    with that j(2) have "i < n" "i' < n" "slot_hash m i = slot_hash m i'"
      by (simp_all add: slot_hash_put_slot)
    with assms(1) show ?thesis by (simp add: board_mem_wf_def)
  qed
  with zero assms(1) show ?thesis by (simp add: board_mem_wf_def) (simp add: put_slot_def)
qed

lemma put_slot_look:
  assumes wf: "board_mem_wf n m"
    and wf': "board_mem_wf n' (put_slot n' j e m)"
    and n': "n' = n \<and> j < n \<or> n' = Suc n \<and> j = n"
    and h: "h = hash_str_32 (arr_str (dp_instrument_id e))" "j < n \<Longrightarrow> slot_hash m j = h"
  shows "board_look (put_slot n' j e m) = (board_look m)(h \<mapsto> e)"
proof
  fix k
  show "board_look (put_slot n' j e m) k = ((board_look m)(h \<mapsto> e)) k"
  proof (cases "k = h")
    case True
    have "j < n'" using n' by auto
    from board_look_Some [OF wf' this] True show ?thesis
      by (simp add: slot_hash_put_slot put_slot_data h)
  next
    case False
    show ?thesis
    proof (cases rule: board_look_cases [OF wf, of k])
      case (1 i)
      then have "i < n'" "i \<noteq> j" using n' h False by auto
      with board_look_Some [OF wf' this(1)] 1 False show ?thesis
        by (simp add: slot_hash_put_slot put_slot_data)
    next
      case 2
      then have "\<forall>i<n'. slot_hash (put_slot n' j e m) i \<noteq> k"
        using n' False h by (auto simp: slot_hash_put_slot less_Suc_eq)
      with board_look_None [OF wf'] 2 False show ?thesis by simp
    qed
  qed
qed

lemma cache_wf_put:
  assumes "cache_wf n m b" "n \<le> n'" "j < n \<Longrightarrow> slot_hash m j = hash_str_32 (arr_str (dp_instrument_id e))"
  shows "cache_wf n' (put_slot n' j e m) b"
  unfolding cache_wf_def
proof (intro allI impI)
  fix iid p
  assume "umap_find (db_positions b) iid = Some p"
  with assms(1) obtain i where "i < n" "p = slot_at i" "slot_hash m i = iid"
    unfolding cache_wf_def by blast
  with assms(2,3) show "\<exists>i<n'. p = slot_at i \<and> slot_hash (put_slot n' j e m) i = iid"
    by (auto simp: slot_hash_put_slot)
qed

lemma board_set_writing:
  assumes "board_mem_wf n m" "writer_wf n m b" "board_set instrument_id d m b = Some (m', b')"
    and "arr_str (dp_instrument_id d) = arr_str instrument_id"
    and "\<And>j. j < n \<Longrightarrow> slot_hash m j = hash_str_32 (arr_str instrument_id) \<Longrightarrow>
           arr_str (dp_instrument_id (dm_data m (slot_at j))) = arr_str instrument_id \<and>
           arr_str (dp_exchange_id (dm_data m (slot_at j))) = arr_str (dp_exchange_id d)"
  obtains n' j where
    "n' = n \<and> j < n \<or> n' = Suc n \<and> j = n"
    "m' = put_slot n' j (depth_assign (dm_data m (slot_at j)) d) m"
    "writer_wf n' m' b'" "board_mem_wf n' m'"
    "board_look m' = (board_look m)(hash_str_32 (arr_str instrument_id) \<mapsto>
       depth_assign (dm_data m (slot_at j)) d)"
    "depth_view (depth_assign (dm_data m (slot_at j)) d) = depth_view d"
    "j < n \<Longrightarrow> slot_hash m j = hash_str_32 (arr_str instrument_id)"
proof -
  define h where "h = hash_str_32 (arr_str instrument_id)"
  have wr: "db_is_writing b" using assms(2) by (simp add: writer_wf_def)
  have used: "dm_used_length m = slot_at n" using assms(1) by (simp add: board_mem_wf_def)
  obtain n' j where nj: "n' = n \<and> j < n \<or> n' = Suc n \<and> j = n"
    and jh: "j < n \<Longrightarrow> slot_hash m j = h" and other: "\<forall>i<n. i \<noteq> j \<longrightarrow> slot_hash m i \<noteq> h"
    and m': "m' = put_slot n' j (depth_assign (dm_data m (slot_at j)) d) m"
    and b': "b' = b \<and> j < n \<or> b' = b\<lparr> db_positions := umap_set h (slot_at n) (db_positions b) \<rparr> \<and> j = n"
  proof (cases "umap_find (db_positions b) h")
    case (Some p)
    with assms(2) obtain j where j: "j < n" "p = slot_at j" "slot_hash m j = h"
      unfolding writer_wf_def cache_wf_def by blast
    moreover from j assms(1) have "\<forall>i<n. i \<noteq> j \<longrightarrow> slot_hash m i \<noteq> h"
      unfolding board_mem_wf_def by blast
    moreover from assms(3) wr Some j used
    have "m' = put_slot n j (depth_assign (dm_data m (slot_at j)) d) m" "b' = b"
      by (auto simp: board_set_def h_def [symmetric] Let_def put_slot_def split: if_splits)
    ultimately show thesis using that [of n j] by blast
  next
    case None
    with assms(2) have nh: "\<forall>i<n. slot_hash m i \<noteq> h" unfolding writer_wf_def by auto
    from assms(3) wr None used
    have "m' = put_slot (Suc n) n (depth_assign (dm_data m (slot_at n)) d) m"
      "b' = b\<lparr> db_positions := umap_set h (slot_at n) (db_positions b) \<rparr>"
      by (auto simp: board_set_def h_def [symmetric] Let_def put_slot_def slot_at_Suc split: if_splits)
    with nh show thesis using that [of "Suc n" n] by blast
  qed
  define e where "e = depth_assign (dm_data m (slot_at j)) d"
  have etext: "arr_str (dp_instrument_id e) = arr_str instrument_id \<and> arr_str (dp_exchange_id e) = arr_str (dp_exchange_id d)"
  proof (cases "j < n")
    case True
    with jh assms(4,5) show ?thesis
      by (simp add: e_def depth_assign_def h_def arr_str_assign_same)
  next
    case False
    with nj assms(1) have "dm_data m (slot_at j) = InstrumentDepth_zero DEPTH_LEVELS"
      by (auto simp: board_mem_wf_def)
    with assms(4) show ?thesis
      by (simp add: e_def depth_assign_def InstrumentDepth_zero_def)
  qed
  then have he: "hash_str_32 (arr_str (dp_instrument_id e)) = h" by (simp add: h_def)
  have wf': "board_mem_wf n' m'"
    using board_mem_wf_put [OF assms(1) nj] other he by (simp add: m' e_def)
  have look: "board_look m' = (board_look m)(h \<mapsto> e)"
    using put_slot_look [OF assms(1) _ nj, of e h] wf' he jh by (simp add: m' e_def)
  have n'n: "n \<le> n'" using nj by auto
  have cache: "cache_wf n' m' b"
    using cache_wf_put [of n m b n' j e] n'n assms(2) jh he by (simp add: m' e_def writer_wf_def)
  have sh: "slot_hash m' i = (if i = j then h else slot_hash m i)" for i
    by (simp add: m' slot_hash_put_slot e_def [symmetric] he)
  have "writer_wf n' m' b'"
    using b'
  proof
    assume b': "b' = b \<and> j < n"
    then have "n' = n" using nj by auto
    with b' cache assms(2) jh sh show ?thesis by (auto simp: writer_wf_def)
  next
    assume b': "b' = b\<lparr> db_positions := umap_set h (slot_at n) (db_positions b) \<rparr> \<and> j = n"
    then have "n' = Suc n" using nj by auto
    with b' cache assms(2) other sh show ?thesis
      by (auto simp: writer_wf_def cache_wf_def less_Suc_eq)
  qed
  moreover have "depth_view e = depth_view d"
    using etext assms(4) by (simp add: depth_view_def e_def depth_assign_def)
  ultimately show thesis
    using that [OF nj _ _ wf'] look jh m' by (simp add: e_def h_def)
qed

section \<open>The contract between writer and readers\<close>

locale depth_source =
  fixes inv :: "'m \<Rightarrow> 'w \<Rightarrow> bool"
    and cached :: "'m \<Rightarrow> 'r \<Rightarrow> bool"
    and put :: "'i \<Rightarrow> 'd \<Rightarrow> 'm \<Rightarrow> 'w \<Rightarrow> ('m \<times> 'w) option"
    and get :: "'m \<Rightarrow> 'i \<Rightarrow> 'r \<Rightarrow> 'v option"
    and refresh :: "'m \<Rightarrow> 'i \<Rightarrow> 'r \<Rightarrow> 'r"
    and ok :: "'i \<Rightarrow> 'd \<Rightarrow> bool"
    and key :: "'i \<Rightarrow> 'k"
    and view :: "'d \<Rightarrow> 'v"
    and look :: "'m \<Rightarrow> 'k \<Rightarrow> 'v option"
  assumes get_look: "\<lbrakk> inv m w; cached m r \<rbrakk> \<Longrightarrow> get m i r = look m (key i)"
    and refresh_cached: "\<lbrakk> inv m w; cached m r \<rbrakk> \<Longrightarrow> cached m (refresh m i r)"
    and put_inv: "\<lbrakk> inv m w; ok i d; put i d m w = Some (m', w') \<rbrakk> \<Longrightarrow> inv m' w'"
    and put_cached: "\<lbrakk> inv m w; ok i d; put i d m w = Some (m', w'); cached m r \<rbrakk> \<Longrightarrow> cached m' r"
    and put_look: "\<lbrakk> inv m w; ok i d; put i d m w = Some (m', w') \<rbrakk> \<Longrightarrow> look m' = (look m)(key i \<mapsto> view d)"
begin

text \<open>Writes and reads in any order, and what the reader sees behind them.\<close>

primrec runs :: "('i \<times> 'd + 'i) list \<Rightarrow> 'm \<times> 'w \<times> 'r \<Rightarrow> ('m \<times> 'w \<times> 'r) option" where
  "runs [] s = Some s"
| "runs (x # xs) s =
     (case s of (m, w, r) \<Rightarrow>
        (case x of
           Inl (i, d) \<Rightarrow> (case put i d m w of None \<Rightarrow> None | Some (m', w') \<Rightarrow> runs xs (m', w', r))
         | Inr i \<Rightarrow> runs xs (m, w, refresh m i r)))"

definition written_to :: "('i \<times> 'd + 'i) list \<Rightarrow> ('k \<Rightarrow> 'v option) \<Rightarrow> 'k \<Rightarrow> 'v option" where
  "written_to xs f = fold (\<lambda>x f. case x of Inl (i, d) \<Rightarrow> f(key i \<mapsto> view d) | Inr i \<Rightarrow> f) xs f"

lemma runs_spec:
  assumes "inv m w" "cached m r" "\<forall>i d. Inl (i, d) \<in> set xs \<longrightarrow> ok i d" "runs xs (m, w, r) = Some (m', w', r')"
  shows "inv m' w' \<and> cached m' r' \<and> look m' = written_to xs (look m)"
  using assms
proof (induction xs arbitrary: m w r)
  case (Cons x xs)
  show ?case
  proof (cases x)
    case (Inl y)
    obtain i d where y: "y = (i, d)" by (cases y)
    with Inl Cons.prems obtain m1 w1 where put: "put i d m w = Some (m1, w1)"
      and rest: "runs xs (m1, w1, r) = Some (m', w', r')" and ok: "ok i d"
      by (auto split: option.splits)
    note step = put_inv [OF Cons.prems(1) ok put] put_cached [OF Cons.prems(1) ok put Cons.prems(2)]
    from Cons.IH [OF step _ rest] Cons.prems(3) put_look [OF Cons.prems(1) ok put]
    show ?thesis by (simp add: Inl y written_to_def fun_upd_def)
  next
    case (Inr i)
    from Cons.prems(4) have "runs xs (m, w, refresh m i r) = Some (m', w', r')" by (simp add: Inr)
    from Cons.IH [OF Cons.prems(1) refresh_cached [OF Cons.prems(1,2)] _ this] Cons.prems(3)
    show ?thesis by (simp add: Inr written_to_def)
  qed
qed (simp add: written_to_def)

lemma get_last:
  assumes "inv m w" "cached m r" "\<forall>i d. Inl (i, d) \<in> set (xs @ Inl (j, e) # ys) \<longrightarrow> ok i d"
    and "runs (xs @ Inl (j, e) # ys) (m, w, r) = Some (m', w', r')" "\<forall>i d. Inl (i, d) \<in> set ys \<longrightarrow> key i \<noteq> key j"
  shows "get m' j r' = Some (view e)"
proof -
  have untouched: "written_to ys f (key j) = f (key j)" for f
    using assms(5)
  proof (induction ys arbitrary: f)
    case (Cons x ys)
    have "\<forall>i d. Inl (i, d) \<in> set ys \<longrightarrow> key i \<noteq> key j" using Cons.prems by simp
    note ih = Cons.IH [OF this, unfolded written_to_def]
    show ?case
    proof (cases x)
      case (Inl y)
      obtain i d where y: "y = (i, d)" by (cases y)
      then have "key i \<noteq> key j" using Cons.prems Inl by simp
      then show ?thesis by (simp add: Inl y written_to_def ih fun_upd_def eq_commute)
    qed (simp add: written_to_def ih)
  qed (simp add: written_to_def)
  have "written_to (xs @ Inl (j, e) # ys) f = written_to ys ((written_to xs f)(key j \<mapsto> view e))" for f
    by (simp add: written_to_def)
  with runs_spec [OF assms(1-4)] get_look [of m' w' r' j] show ?thesis by (simp add: untouched)
qed

end

text \<open>
  The model's instance. An element is known by the 32 bits of a hash of its instrument's text, which
  nothing in the code compares with the text itself; and its two texts are assigned as C strings, so that
  a shorter one leaves the end of a longer one behind. The invariant is therefore about the texts in
  use, \<open>U\<close>, each with its exchange: no two of the instruments have the same hash.
\<close>

definition board_inv :: "(string \<Rightarrow> string option) \<Rightarrow> DepthMem \<Rightarrow> DepthCallBoard \<Rightarrow> bool" where
  "board_inv U m w \<longleftrightarrow> inj_on hash_str_32 (dom U) \<and>
     (\<exists>n. board_mem_wf n m \<and> writer_wf n m w \<and>
          (\<forall>i<n. U (arr_str (dp_instrument_id (dm_data m (slot_at i)))) = Some (arr_str (dp_exchange_id (dm_data m (slot_at i))))))"

definition board_cached :: "DepthMem \<Rightarrow> DepthCallBoard \<Rightarrow> bool" where
  "board_cached m r \<longleftrightarrow> (\<forall>n. board_mem_wf n m \<longrightarrow> cache_wf n m r)"

definition board_ok :: "(string \<Rightarrow> string option) \<Rightarrow> carr \<Rightarrow> InstrumentDepth \<Rightarrow> bool" where
  "board_ok U i d \<longleftrightarrow> arr_str (dp_instrument_id d) = arr_str i \<and> U (arr_str i) = Some (arr_str (dp_exchange_id d))"

text \<open>What a read into a fresh \<open>InstrumentDepth\<close> shows.\<close>

definition board_read ::
    "DepthMem \<Rightarrow> carr \<Rightarrow> DepthCallBoard \<Rightarrow>
     (u32 \<times> string \<times> string \<times> double list \<times> double list \<times> double list \<times> double list) option" where
  "board_read m i r =
     (case board_get m i (InstrumentDepth_zero DEPTH_LEVELS) r of
        (found, d, _) \<Rightarrow> if found then Some (depth_view d) else None)"

lemma depth_view_fresh [simp]:
  "depth_view (depth_assign (InstrumentDepth_zero n) d) = depth_view d"
  by (simp add: depth_view_def depth_assign_def InstrumentDepth_zero_def)

lemma board_mem_wf_unique: "\<lbrakk> board_mem_wf n m; board_mem_wf n' m \<rbrakk> \<Longrightarrow> n = n'"
  unfolding board_mem_wf_def by (metis slot_at_inj)

lemma board_put_inv:
  assumes "board_inv U m w" "board_ok U i d" "board_set i d m w = Some (m', w')"
  shows "board_inv U m' w'"
    and "board_cached m r \<Longrightarrow> board_cached m' r"
    and "map_option depth_view \<circ> board_look m' =
         (map_option depth_view \<circ> board_look m)(hash_str_32 (arr_str i) \<mapsto> depth_view d)"
proof -
  from assms(1) obtain n where n: "board_mem_wf n m" "writer_wf n m w"
    and U: "inj_on hash_str_32 (dom U)"
      "\<forall>i<n. U (arr_str (dp_instrument_id (dm_data m (slot_at i)))) = Some (arr_str (dp_exchange_id (dm_data m (slot_at i))))"
    unfolding board_inv_def by blast
  have same: "arr_str (dp_instrument_id (dm_data m (slot_at j))) = arr_str i \<and>
      arr_str (dp_exchange_id (dm_data m (slot_at j))) = arr_str (dp_exchange_id d)"
    if "j < n" "slot_hash m j = hash_str_32 (arr_str i)" for j
  proof -
    have "U (arr_str (dp_instrument_id (dm_data m (slot_at j)))) = Some (arr_str (dp_exchange_id (dm_data m (slot_at j))))"
      using U(2) that(1) by blast
    moreover have "U (arr_str i) = Some (arr_str (dp_exchange_id d))" using assms(2) by (simp add: board_ok_def)
    moreover from calculation have "arr_str (dp_instrument_id (dm_data m (slot_at j))) = arr_str i"
      using inj_onD [OF U(1)] that(2) unfolding slot_hash_def by (metis domI)
    ultimately show ?thesis by simp
  qed
  from assms(2) have txt': "arr_str (dp_instrument_id d) = arr_str i" "U (arr_str i) = Some (arr_str (dp_exchange_id d))"
    by (simp_all add: board_ok_def)
  from board_set_writing [OF n assms(3) txt'(1) same] obtain n' j where
    nj: "n' = n \<and> j < n \<or> n' = Suc n \<and> j = n" and
    m': "m' = put_slot n' j (depth_assign (dm_data m (slot_at j)) d) m" and
    wf': "writer_wf n' m' w'" "board_mem_wf n' m'" and
    look: "board_look m' = (board_look m)(hash_str_32 (arr_str i) \<mapsto> depth_assign (dm_data m (slot_at j)) d)" and
    view: "depth_view (depth_assign (dm_data m (slot_at j)) d) = depth_view d" and
    old: "j < n \<Longrightarrow> slot_hash m j = hash_str_32 (arr_str i)" by blast
  have ej: "arr_str (dp_instrument_id (depth_assign (dm_data m (slot_at j)) d)) = arr_str i"
    "arr_str (dp_exchange_id (depth_assign (dm_data m (slot_at j)) d)) = arr_str (dp_exchange_id d)"
    using view txt' by (simp_all add: depth_view_def)
  have "\<forall>k<n'. U (arr_str (dp_instrument_id (dm_data m' (slot_at k)))) = Some (arr_str (dp_exchange_id (dm_data m' (slot_at k))))"
    using nj U txt' ej by (auto simp: m' put_slot_data)
  with wf' U show "board_inv U m' w'" unfolding board_inv_def by blast
  show "board_cached m' r" if "board_cached m r"
  proof -
    have "n \<le> n'" using nj by auto
    moreover have "cache_wf n m r" using that n by (simp add: board_cached_def)
    ultimately have "cache_wf n' m' r" unfolding m' using old ej by (intro cache_wf_put) simp_all
    with wf'(2) show ?thesis unfolding board_cached_def using board_mem_wf_unique by blast
  qed
  show "map_option depth_view \<circ> board_look m' =
        (map_option depth_view \<circ> board_look m)(hash_str_32 (arr_str i) \<mapsto> depth_view d)"
    by (rule ext) (simp add: look view)
qed

lemma board_read_look:
  assumes "board_inv U m w" "board_cached m r"
  shows "board_read m i r = map_option depth_view (board_look m (hash_str_32 (arr_str i)))"
    and "board_cached m (snd (snd (board_get m i out r)))"
proof -
  from assms obtain n where n: "board_mem_wf n m" "cache_wf n m r"
    unfolding board_inv_def board_cached_def by blast
  show "board_read m i r = map_option depth_view (board_look m (hash_str_32 (arr_str i)))"
    unfolding board_read_def by (subst board_get_spec(1) [OF n]) (auto split: option.splits)
  show "board_cached m (snd (snd (board_get m i out r)))"
    unfolding board_cached_def using board_get_spec(2) [OF n] n(1) board_mem_wf_unique by blast
qed

interpretation board: depth_source "board_inv U" board_cached board_set board_read
    "\<lambda>m i r. snd (snd (board_get m i (InstrumentDepth_zero DEPTH_LEVELS) r))"
    "board_ok U" "\<lambda>i. hash_str_32 (arr_str i)" depth_view "\<lambda>m. map_option depth_view \<circ> board_look m"
  for U
proof (unfold_locales, goal_cases)
  case (1 m w r i)
  then show ?case by (simp add: board_read_look)
next
  case (2 m w r i)
  then show ?case by (rule board_read_look(2))
next
  case (3 m w i d m' w')
  then show ?case by (rule board_put_inv(1))
next
  case (4 m w i d m' w' r)
  then show ?case by (rule board_put_inv(2))
next
  case (5 m w i d m' w')
  then show ?case by (rule board_put_inv(3))
qed

section \<open>Properties\<close>

text \<open>The writes of the strategies' process and the reads of a broker, as they come.\<close>

datatype BoardOp = Op_put carr InstrumentDepth | Op_get carr

primrec board_ops ::
    "BoardOp list \<Rightarrow> DepthMem \<times> DepthCallBoard \<times> DepthCallBoard \<Rightarrow> (DepthMem \<times> DepthCallBoard \<times> DepthCallBoard) option" where
  "board_ops [] s = Some s"
| "board_ops (x # xs) s =
     (case s of (m, w, r) \<Rightarrow>
        (case x of
           Op_put i d \<Rightarrow> (case board_set i d m w of None \<Rightarrow> None | Some (m', w') \<Rightarrow> board_ops xs (m', w', r))
         | Op_get i \<Rightarrow> board_ops xs (m, w, snd (snd (board_get m i (InstrumentDepth_zero DEPTH_LEVELS) r)))))"

fun board_op :: "BoardOp \<Rightarrow> carr \<times> InstrumentDepth + carr" where
  "board_op (Op_put i d) = Inl (i, d)"
| "board_op (Op_get i) = Inr i"

lemma board_ops_runs: "board_ops xs s = board.runs (List.map board_op xs) s"
  by (induction xs arbitrary: s) (auto simp: board.runs.simps split: option.splits prod.splits BoardOp.splits)

lemma board_op_put: "Inl (i, d) \<in> set (List.map board_op xs) \<longleftrightarrow> Op_put i d \<in> set xs"
proof -
  have "Inl (i, d) = board_op x \<longleftrightarrow> x = Op_put i d" for x by (cases x) auto
  then show ?thesis by (simp add: image_iff)
qed

lemma board_start:
  assumes "inj_on hash_str_32 (dom U)"
  shows "board_inv U (fst (board_init len elm_size b)) (snd (board_init len elm_size True))"
    "board_cached (fst (board_init len elm_size b)) (snd (board_init len elm_size b'))"
proof -
  let ?m = "fst (board_init len elm_size b)"
  have m: "board_mem_wf 0 ?m" by (simp add: board_mem_wf_def board_init_def slot_at_def)
  have c: "cache_wf 0 ?m (snd (board_init len elm_size b'))" for b'
    by (simp add: cache_wf_def board_init_def umap_find_def)
  then show "board_inv U ?m (snd (board_init len elm_size True))"
    using assms m unfolding board_inv_def writer_wf_def
    by (intro conjI exI [of _ 0]) (simp_all add: board_init_def)
  show "board_cached ?m (snd (board_init len elm_size b'))"
    unfolding board_cached_def using board_mem_wf_unique [OF m] c by blast
qed

text \<open>C35: what a reader of the depth board gets for an instrument is the depth that was written for it last:
  its prices and volumes, its size and the texts of its instrument and exchange. Start with a board both
  sides have set up, let the writer put depths and the reader read any instruments, in any order, so that
  its cached positions may have come about at any time. The instruments written must have different hashes,
  and each always the same exchange: the board tells them apart by 32 bits of hash alone (see
  \<open>colliding_instruments\<close>) and assigns texts as C strings. And each element carries the instrument it is put under.\<close>

theorem depth_reader_sees_last:
  assumes "board_ops (xs @ Op_put j e # ys)
      (fst (board_init len elm_size True), snd (board_init len elm_size True), snd (board_init len elm_size False)) = Some (m', w', r')"
    "inj_on hash_str_32 (dom U)"
    "\<forall>i d. Op_put i d \<in> set (xs @ Op_put j e # ys) \<longrightarrow>
       arr_str (dp_instrument_id d) = arr_str i \<and> U (arr_str i) = Some (arr_str (dp_exchange_id d))"
    "\<forall>i d. Op_put i d \<in> set ys \<longrightarrow> arr_str i \<noteq> arr_str j"
  shows "board_read m' j r' = Some (depth_view e)"
proof -
  let ?xs = "List.map board_op xs" and ?ys = "List.map board_op ys"
  have ok: "\<forall>i d. Inl (i, d) \<in> set (?xs @ Inl (j, e) # ?ys) \<longrightarrow> board_ok U i d"
    using assms(3) board_op_put [of _ _ xs] board_op_put [of _ _ ys] by (auto simp: board_ok_def)
  have "hash_str_32 (arr_str i) \<noteq> hash_str_32 (arr_str j)" if "Op_put i d \<in> set ys" for i d
  proof -
    have "arr_str i \<in> dom U" "arr_str j \<in> dom U" "arr_str i \<noteq> arr_str j" using assms(3,4) that by fastforce+
    then show ?thesis using inj_on_eq_iff [OF assms(2)] by blast
  qed
  then have "\<forall>i d. Inl (i, d) \<in> set ?ys \<longrightarrow> hash_str_32 (arr_str i) \<noteq> hash_str_32 (arr_str j)"
    unfolding board_op_put by blast
  moreover have "board.runs (?xs @ Inl (j, e) # ?ys)
      (fst (board_init len elm_size True), snd (board_init len elm_size True), snd (board_init len elm_size False)) = Some (m', w', r')"
    using assms(1) by (simp add: board_ops_runs)
  ultimately show ?thesis by (intro board.get_last [OF board_start [OF assms(2)] ok])
qed

definition sample_element :: "string \<Rightarrow> u32 \<Rightarrow> InstrumentDepth" where
  "sample_element name n = (InstrumentDepth_zero 20)\<lparr> dp_instrument_id := name @ [NUL], dp_real_depth_size := n \<rparr>"

lemma depth_reader_sees_last_witness:
  "\<exists>m' w' r'. board_ops [Op_put (''A'' @ [NUL]) (sample_element ''A'' 1), Op_get (''A'' @ [NUL]),
        Op_put (''A'' @ [NUL]) (sample_element ''A'' 2), Op_put (''B'' @ [NUL]) (sample_element ''B'' 3)]
      (fst (board_init 4096 696 True), snd (board_init 4096 696 True), snd (board_init 4096 696 False)) = Some (m', w', r') \<and>
     board_read m' (''A'' @ [NUL]) r' = Some (depth_view (sample_element ''A'' 2))"
proof -
  let ?a = "''A'' @ [NUL]" and ?b = "''B'' @ [NUL]"
  let ?U = "[''A'' \<mapsto> [], ''B'' \<mapsto> []] :: string \<Rightarrow> string option"
  let ?s = "(fst (board_init 4096 696 True), snd (board_init 4096 696 True), snd (board_init 4096 696 False))"
  have str: "arr_str ?a = ''A''" "arr_str ?b = ''B''" by (simp_all add: arr_str_def)
  have h: "hash_str_32 ''A'' \<noteq> hash_str_32 ''B''" by code_simp
  then have inj: "inj_on hash_str_32 (dom ?U)" by (auto simp: inj_on_def)
  have ok: "\<forall>i d. Op_put i d \<in> set ([Op_put ?a (sample_element ''A'' 1), Op_get ?a] @ Op_put ?a (sample_element ''A'' 2) # [Op_put ?b (sample_element ''B'' 3)]) \<longrightarrow>
      arr_str (dp_instrument_id d) = arr_str i \<and> ?U (arr_str i) = Some (arr_str (dp_exchange_id d))"
    by (auto simp: sample_element_def arr_str_Cons InstrumentDepth_zero_def)
  have other: "\<forall>i d. Op_put i d \<in> set [Op_put ?b (sample_element ''B'' 3)] \<longrightarrow> arr_str i \<noteq> arr_str ?a" by (simp add: arr_str_Cons)
  obtain m' w' r' where s: "board_ops ([Op_put ?a (sample_element ''A'' 1), Op_get ?a] @ Op_put ?a (sample_element ''A'' 2) # [Op_put ?b (sample_element ''B'' 3)]) ?s
      = Some (m', w', r')"
    using h by (simp add: board_set_def board_init_def Let_def BOARD_HEADER_def DEPTH_SIZE_def umap_find_set arr_str_Cons h [symmetric] h board_get_def)
  show ?thesis using depth_reader_sees_last [OF s inj ok other] s by simp
qed

text \<open>Instruments with the same hash: the second is put over the first, and read as the first from then on.\<close>

theorem colliding_instruments:
  assumes "umap_find (db_positions w) (hash_str_32 (arr_str i)) = Some p" "hash_str_32 (arr_str j) = hash_str_32 (arr_str i)"
    "board_set j e m w = Some (m', w')" "db_is_writing w"
    "umap_find (db_positions r) (hash_str_32 (arr_str i)) = Some p"
  shows "dm_used_length m' = dm_used_length m \<and>
    board_get m' i output r = (True, depth_assign output (depth_assign (dm_data m p) e), r)"
  using assms by (auto simp: board_set_def board_get_def Let_def split: if_splits)

lemma colliding_instruments_witness:
  "\<exists>m'. board_set [CHR ''B''] (sample_element ''B'' 3) (fst (board_init 4096 696 True)) \<lparr> db_is_writing = True, db_positions = [(hash_str_32 ''B'', 16)] \<rparr> =
      Some (m', \<lparr> db_is_writing = True, db_positions = [(hash_str_32 ''B'', 16)] \<rparr>) \<and> dm_used_length m' = BOARD_HEADER"
proof -
  let ?w = "\<lparr> db_is_writing = True, db_positions = [(hash_str_32 ''B'', 16)] \<rparr>" and ?m = "fst (board_init 4096 696 True)"
  obtain m' where m': "board_set [CHR ''B''] (sample_element ''B'' 3) ?m ?w = Some (m', ?w)"
    by (simp add: board_set_def board_init_def umap_find_def DEPTH_SIZE_def arr_str_def)
  from colliding_instruments [of ?w "[CHR ''B'']" 16 "[CHR ''B'']", OF _ _ this, of ?w] m' show ?thesis
    by (simp add: umap_find_def arr_str_def board_init_def)
qed

end
