(* ===== verification/BrokerSim.thy ===== *)
theory BrokerSim
  imports Book DepthBoard
begin

text \<open>
  The simulated broker (src/broker/brokersim/brokersim.cpp): orders are kept in a map ordered by
  id and matched, one pass over the map at a time, against the depth of their instrument, or at
  the limit price when there is none. The environment is explicit in the state: the readings of
  the clock and the draws of the normal distribution are given as sequences with a cursor, and
  the responses sent to the strategy process are logged in \<open>sim_sent\<close>. A reference to an order
  is the order's place in the map. Logging is left out.
\<close>

section \<open>State\<close>

datatype SimMsg = Msg_OrderActionResp OrderActionResp | Msg_Trade Trade

text \<open>\<open>writers_\<close>: not set, set without the response channel (\<open>at\<close> throws), set with it.\<close>

datatype Writers = NoWriters | NoChannel | HasChannel

record BrokerSim =
  sim_orders :: "(u64, Order) omap"
  sim_asset :: Asset
  sim_positions :: PositionBook
  sim_commission_rate :: double
  sim_slippage_rate :: double
  sim_enable_slippage :: bool
  sim_enable_commission :: bool
  sim_running :: bool
  sim_state :: BrokerState
  sim_matching_thread :: bool
  sim_board :: DepthCallBoard
  sim_is_backtest :: bool
  sim_writers :: Writers
  sim_sent :: "(int \<times> SimMsg) list"
  sim_clock :: "nat \<Rightarrow> int"
  sim_ticks :: nat
  sim_rand :: "nat \<Rightarrow> double"
  sim_draws :: nat

definition now_time :: "BrokerSim \<Rightarrow> int \<times> BrokerSim" where
  "now_time s = (sim_clock s (sim_ticks s), s\<lparr> sim_ticks := Suc (sim_ticks s) \<rparr>)"

definition draw :: "BrokerSim \<Rightarrow> double \<times> BrokerSim" where
  "draw s = (sim_rand s (sim_draws s), s\<lparr> sim_draws := Suc (sim_draws s) \<rparr>)"

text \<open>\<open>notify_response\<close>; \<open>None\<close> is the exception of \<open>at\<close>.\<close>

definition notify_response :: "SimMsg \<Rightarrow> BrokerSim \<Rightarrow> (bool \<times> BrokerSim) option" where
  "notify_response msg s =
     (case sim_writers s of
        NoWriters \<Rightarrow> Some (False, s)
      | NoChannel \<Rightarrow> None
      | HasChannel \<Rightarrow>
          let (now, s) = now_time s
          in Some (True, s\<lparr> sim_sent := sim_sent s @ [(now, msg)] \<rparr>))"

definition DEFAULT_INITIAL_CAPITAL :: double where "DEFAULT_INITIAL_CAPITAL = lit 1000000"
definition DEFAULT_COMMISSION_RATE :: double where "DEFAULT_COMMISSION_RATE = lit (3 / 10000)"
definition DEFAULT_SLIPPAGE_RATE :: double where "DEFAULT_SLIPPAGE_RATE = lit (1 / 10000)"
definition MAX_DEPTH_LEVELS :: nat where "MAX_DEPTH_LEVELS = 20"
definition MIN_VALID_PRICE :: double where "MIN_VALID_PRICE = lit (1 / 1000000)"
definition MIN_VALID_VOLUME :: double where "MIN_VALID_VOLUME = lit (1 / 1000000)"

text \<open>The constructor, in the environment of a clock and a source of random numbers.\<close>

definition BrokerSim_new :: "(nat \<Rightarrow> int) \<Rightarrow> (nat \<Rightarrow> double) \<Rightarrow> BrokerSim" where
  "BrokerSim_new clock rand =
     \<lparr> sim_orders = [],
       sim_asset = Asset_zero\<lparr> as_update_time := clock 0, as_avail := DEFAULT_INITIAL_CAPITAL \<rparr>,
       sim_positions = PositionBook_empty,
       sim_commission_rate = DEFAULT_COMMISSION_RATE, sim_slippage_rate = DEFAULT_SLIPPAGE_RATE,
       sim_enable_slippage = True, sim_enable_commission = True, sim_running = False,
       sim_state = BS_DisConnected, sim_matching_thread = False,
       sim_board = \<lparr> db_is_writing = False, db_positions = [] \<rparr>, sim_is_backtest = False,
       sim_writers = NoWriters, sim_sent = [], sim_clock = clock, sim_ticks = 1,
       sim_rand = rand, sim_draws = 0 \<rparr>"

text \<open>
  The configuration read by \<open>setup\<close>: each entry of \<open>extra\<close> present or absent. Clearing the shared
  board is part of it; the memory is returned beside the broker. The page has \<open>PAGE_SIZE\<close> bytes
  and is announced with elements of ten levels.
\<close>

record SimConfig =
  cfg_commission_rate :: "double option"
  cfg_slippage_rate :: "double option"
  cfg_enable_slippage :: "bool option"
  cfg_enable_commission :: "bool option"
  cfg_initial_capital :: "double option"

definition PAGE_SIZE :: nat where "PAGE_SIZE = 128 * 1024 * 1024"
definition DEPTH10_SIZE :: nat where "DEPTH10_SIZE = 376"

definition or_else :: "'a option \<Rightarrow> 'a \<Rightarrow> 'a" where
  "or_else x d = (case x of Some v \<Rightarrow> v | None \<Rightarrow> d)"

definition sim_setup :: "SimConfig \<Rightarrow> bool \<Rightarrow> BrokerSim \<Rightarrow> DepthMem \<times> BrokerSim" where
  "sim_setup cfg is_backtest s =
     (let (mem, board) = board_init PAGE_SIZE DEPTH10_SIZE False
      in (mem, s
        \<lparr> sim_commission_rate := or_else (cfg_commission_rate cfg) DEFAULT_COMMISSION_RATE,
          sim_slippage_rate := or_else (cfg_slippage_rate cfg) DEFAULT_SLIPPAGE_RATE,
          sim_enable_slippage := or_else (cfg_enable_slippage cfg) True,
          sim_enable_commission := or_else (cfg_enable_commission cfg) True,
          sim_asset := (sim_asset s)\<lparr> as_avail := or_else (cfg_initial_capital cfg) (as_avail (sim_asset s)) \<rparr>,
          sim_is_backtest := is_backtest,
          sim_board := board \<rparr>))"

definition sim_start :: "BrokerSim \<Rightarrow> BrokerSim" where
  "sim_start s =
     (if sim_running s then s
      else s\<lparr> sim_running := True, sim_state := BS_Ready,
              sim_matching_thread := (if sim_is_backtest s then sim_matching_thread s else True) \<rparr>)"

text \<open>\<open>stop\<close>, with the thread's end awaited; the interleaving of the two is in theory SimThread.\<close>

definition sim_stop :: "BrokerSim \<Rightarrow> BrokerSim" where
  "sim_stop s =
     (if \<not> sim_running s then s
      else s\<lparr> sim_running := False, sim_state := BS_DisConnected, sim_matching_thread := False \<rparr>)"

section \<open>Orders\<close>

definition add_order :: "Order \<Rightarrow> BrokerSim \<Rightarrow> BrokerSim" where
  "add_order order s = s\<lparr> sim_orders := omap_assign Order_assign Order_zero (od_order_id order) order (sim_orders s) \<rparr>"

definition remove_order :: "u64 \<Rightarrow> BrokerSim \<Rightarrow> BrokerSim" where
  "remove_order order_id s = s\<lparr> sim_orders := omap_erase order_id (sim_orders s) \<rparr>"

definition update_order_status :: "u64 \<Rightarrow> OrderStatus \<Rightarrow> BrokerSim \<Rightarrow> BrokerSim" where
  "update_order_status order_id status s =
     (if omap_find (sim_orders s) order_id \<noteq> None
      then let (now, s) = now_time s
           in s\<lparr> sim_orders := omap_adjust order_id
                   (\<lambda>o'. o'\<lparr> od_status := status, od_update_time := now \<rparr>) (sim_orders s) \<rparr>
      else s)"

definition submitted_order :: "OrderInput \<Rightarrow> Order" where
  "submitted_order input = (order_from_input input Order_zero)
     \<lparr> od_status := OS_Submitted, od_insert_time := oi_insert_time input,
       od_update_time := oi_insert_time input \<rparr>"

definition insert_order :: "OrderInput \<Rightarrow> BrokerSim \<Rightarrow> bool \<times> BrokerSim" where
  "insert_order input s =
     (let order = submitted_order input
      in if oi_side input = Side_Buy \<and> as_avail (sim_asset s) < oi_limit_price input * oi_volume input
         then (False, s)
         else (True, add_order order s))"

definition cancel_resp :: "OrderCancel \<Rightarrow> int \<Rightarrow> OrderActionResp" where
  "cancel_resp input error_id = OrderActionResp_zero
     \<lparr> ar_order_action_id := oc_order_id input, ar_order_id := oc_target_order_id input,
       ar_resp_type := Resp_OrderCancel, ar_error_id := error_id \<rparr>"

text \<open>The statuses an order can be cancelled in.\<close>

definition cancellable :: "OrderStatus \<Rightarrow> bool" where
  "cancellable st \<longleftrightarrow> st = OS_Submitted \<or> st = OS_Pending \<or> st = OS_PartialFilledActive"

text \<open>An exception of \<open>notify_response\<close> is caught and gives \<open>false\<close>, with the state it found.\<close>

definition notify_or_false :: "bool \<Rightarrow> SimMsg \<Rightarrow> BrokerSim \<Rightarrow> bool \<times> BrokerSim" where
  "notify_or_false result msg s =
     (case notify_response msg s of Some (_, s') \<Rightarrow> (result, s') | None \<Rightarrow> (False, s))"

definition cancel_order :: "OrderCancel \<Rightarrow> BrokerSim \<Rightarrow> bool \<times> BrokerSim" where
  "cancel_order input s =
     (case omap_find (sim_orders s) (oc_target_order_id input) of
        None \<Rightarrow> notify_or_false False (Msg_OrderActionResp (cancel_resp input (- 2))) s
      | Some order \<Rightarrow>
          if \<not> cancellable (od_status order)
          then notify_or_false False (Msg_OrderActionResp (cancel_resp input (- 1))) s
          else notify_or_false True (Msg_OrderActionResp (cancel_resp input 0))
                 (update_order_status (oc_target_order_id input) OS_Cancelled s))"

section \<open>Money and positions\<close>

definition calculate_commission :: "BrokerSim \<Rightarrow> Trade \<Rightarrow> double" where
  "calculate_commission s t = tr_price t * tr_volume t * sim_commission_rate s"

definition apply_slippage :: "BrokerSim \<Rightarrow> double \<Rightarrow> Side \<Rightarrow> double" where
  "apply_slippage s base_price side =
     (if \<not> sim_enable_slippage s then base_price
      else if side = Side_Buy then base_price * (1 + sim_slippage_rate s)
      else base_price * (1 - sim_slippage_rate s))"

definition update_asset :: "Trade \<Rightarrow> BrokerSim \<Rightarrow> BrokerSim" where
  "update_asset t s =
     (let trade_value = tr_price t * tr_volume t;
          a = sim_asset s;
          avail1 = (if tr_side t = Side_Buy then as_avail a - trade_value else as_avail a + trade_value);
          avail2 = (if sim_enable_commission s then avail1 - tr_commission t else avail1);
          fee = (if sim_enable_commission s then as_accumulated_fee a + tr_commission t
                 else as_accumulated_fee a);
          (now, s) = now_time s
      in s\<lparr> sim_asset := a\<lparr> as_avail := avail2, as_accumulated_fee := fee, as_update_time := now \<rparr> \<rparr>)"

definition updated_position :: "int \<Rightarrow> Trade \<Rightarrow> Position \<Rightarrow> Position" where
  "updated_position now t p =
     (let total_cost = ps_volume p * ps_position_cost_price p;
          new_cost = tr_volume t * tr_price t;
          total_volume = ps_volume p + tr_volume t
      in p\<lparr> ps_update_time := now,
            ps_position_cost_price :=
              (if total_volume > 0 then (total_cost + new_cost) / total_volume else ps_position_cost_price p),
            ps_volume := ps_volume p + tr_volume t \<rparr>)"

definition new_position :: "int \<Rightarrow> Trade \<Rightarrow> Direction \<Rightarrow> Position" where
  "new_position now t d = Position_zero
     \<lparr> ps_update_time := now,
       ps_trading_day := arr_assign (ps_trading_day Position_zero) (tr_trading_day t),
       ps_position_cost_price := tr_price t,
       ps_volume := tr_volume t,
       ps_exchange_id := arr_assign (ps_exchange_id Position_zero) (tr_exchange_id t),
       ps_instrument_id := arr_assign (ps_instrument_id Position_zero) (tr_instrument_id t),
       ps_instrument_type := tr_instrument_type t,
       ps_direction := d,
       ps_unrealized_pnl := 0 \<rparr>"

definition update_position :: "Trade \<Rightarrow> BrokerSim \<Rightarrow> BrokerSim" where
  "update_position t s =
     (let direction = side2direction (tr_side t);
          (now, s') = now_time s
      in case positions_get (sim_positions s) (tr_instrument_id t) (tr_exchange_id t) direction of
           Some p \<Rightarrow>
             s'\<lparr> sim_positions := upd_positions direction
                   (umap_set (hash_instrument (tr_exchange_id t) (tr_instrument_id t)) (updated_position now t p))
                   (sim_positions s) \<rparr>
         | None \<Rightarrow> s'\<lparr> sim_positions := positions_set (new_position now t direction) (sim_positions s) \<rparr>)"

section \<open>Matching\<close>

definition generate_market_price :: "Order \<Rightarrow> BrokerSim \<Rightarrow> double \<times> BrokerSim" where
  "generate_market_price order s =
     (let base_price = (if od_limit_price order \<le> 0 then lit 100 else od_limit_price order);
          (price_change, s) = draw s
      in (base_price * (1 + price_change), s))"

definition can_execute_order :: "Order \<Rightarrow> double \<Rightarrow> bool" where
  "can_execute_order order market_price =
     (if od_price_type order = Price_Limit
      then if od_side order = Side_Buy then market_price \<le> od_limit_price order
           else market_price \<ge> od_limit_price order
      else True)"

definition check_funds_sufficiency :: "BrokerSim \<Rightarrow> Order \<Rightarrow> double \<Rightarrow> double \<Rightarrow> bool" where
  "check_funds_sufficiency s order price volume =
     (if od_side order = Side_Buy then \<not> as_avail (sim_asset s) < price * volume else True)"

text \<open>The levels opposite to the order, in book order, up to the depth the board announces.\<close>

definition side_levels :: "u32 \<Rightarrow> double list \<Rightarrow> double list \<Rightarrow> (double \<times> double) list" where
  "side_levels depth_size prices volumes =
     List.filter (\<lambda>(p, v). p > MIN_VALID_PRICE \<and> v > MIN_VALID_VOLUME)
       (take (min (unat depth_size) MAX_DEPTH_LEVELS) (zip prices volumes))"

definition build_price_levels :: "InstrumentDepth \<Rightarrow> Side \<Rightarrow> (double \<times> double) list" where
  "build_price_levels depth side =
     (if side = Side_Buy then side_levels (dp_real_depth_size depth) (dp_ask_price depth) (dp_ask_volume depth)
      else side_levels (dp_real_depth_size depth) (dp_bid_price depth) (dp_bid_volume depth))"

record Fill =
  fl_remaining :: double
  fl_weighted :: double
  fl_total :: double
  fl_executed :: "(double \<times> double) list"

text \<open>The loop over the levels; it reads the broker's funds and does not change them.\<close>

fun fill_levels :: "BrokerSim \<Rightarrow> Order \<Rightarrow> (double \<times> double) list \<Rightarrow> Fill \<Rightarrow> Fill" where
  "fill_levels s order [] acc = acc"
| "fill_levels s order ((price, volume) # ls) acc =
     (if fl_remaining acc \<le> 0 then acc
      else let final_price = apply_slippage s price (od_side order)
           in if can_execute_order order final_price
              then let trade_volume = fmin (fl_remaining acc) volume
                   in if \<not> check_funds_sufficiency s order final_price trade_volume
                      then fill_levels s order ls acc
                      else fill_levels s order ls
                        \<lparr> fl_remaining = fl_remaining acc - trade_volume,
                          fl_weighted = fl_weighted acc + final_price * trade_volume,
                          fl_total = fl_total acc + trade_volume,
                          fl_executed = fl_executed acc @ [(final_price, trade_volume)] \<rparr>
              else acc)"

text \<open>\<open>strncpy\<close> into the zeroed array: at most one byte less than it holds.\<close>

definition strncpy_id :: "string \<Rightarrow> carr" where
  "strncpy_id str =
     (let n = min (length str) (EXTERNAL_ID_LEN - 1)
      in take n str @ drop n (arr_zero EXTERNAL_ID_LEN))"

text \<open>
  The trade id: the clock in the upper digits, the order id in the lower six. With the default unit,
  milliseconds, the product stays in the range of \<open>int64_t\<close>; with nanoseconds it leaves it and wraps.
\<close>

definition summary_trade_id :: "int \<Rightarrow> u64 \<Rightarrow> u64" where
  "summary_trade_id now order_id = word_of_int (now * 1000000) + order_id mod 1000000"

definition generate_summary_trade :: "Order \<Rightarrow> double \<Rightarrow> double \<Rightarrow> BrokerSim \<Rightarrow> Trade \<times> BrokerSim" where
  "generate_summary_trade order avg_price total_volume s =
     (let (now1, s1) = now_time s;
          (now2, s2) = now_time s1;
          tid = summary_trade_id now1 (od_order_id order)
      in (Trade_zero
            \<lparr> tr_trade_id := tid,
              tr_order_id := od_order_id order,
              tr_instrument_id := arr_assign (tr_instrument_id Trade_zero) (od_instrument_id order),
              tr_exchange_id := arr_assign (tr_exchange_id Trade_zero) (od_exchange_id order),
              tr_instrument_type := od_instrument_type order,
              tr_side := od_side order,
              tr_offset := od_offset order,
              tr_hedge_flag := od_hedge_flag order,
              tr_price := avg_price,
              tr_volume := total_volume,
              tr_trade_time := now2,
              tr_trading_day := arr_assign (tr_trading_day Trade_zero) (od_trading_day order),
              tr_commission := (if sim_enable_commission s
                                then avg_price * total_volume * sim_commission_rate s else 0),
              tr_tax := 0,
              tr_external_order_id := strncpy_id (''SIM_'' @ to_string (unat (od_order_id order))),
              tr_external_trade_id := strncpy_id (''SIM_'' @ to_string (unat tid)) \<rparr>, s2))"

text \<open>
  \<open>execute_summary_trade\<close> on the order at key \<open>k\<close>. The volume is cast to \<open>int64_t\<close> before it is
  taken off; \<open>None\<close> is the exception of the response channel.
\<close>

definition execute_summary_trade :: "u64 \<Rightarrow> Trade \<Rightarrow> BrokerSim \<Rightarrow> BrokerSim option" where
  "execute_summary_trade k t s =
     (case omap_find (sim_orders s) k of
        None \<Rightarrow> None
      | Some order \<Rightarrow>
          let left = od_volume_left order - of_i64 (i64_of (tr_volume t));
              s1 = s\<lparr> sim_orders := omap_adjust k (\<lambda>o'. o'\<lparr> od_volume_left := left \<rparr>) (sim_orders s) \<rparr>;
              s2 = update_order_status (od_order_id order)
                     (if feq left 0 then OS_Filled else OS_PartialFilledActive) s1;
              s3 = update_position t s2;
              s4 = update_asset t s3
          in map_option snd (notify_response (Msg_Trade t) s4))"

definition handle_no_depth_execution :: "u64 \<Rightarrow> BrokerSim \<Rightarrow> BrokerSim option" where
  "handle_no_depth_execution k s =
     (case omap_find (sim_orders s) k of
        None \<Rightarrow> None
      | Some order \<Rightarrow>
          let (execution_price, s1) =
                (if od_price_type order = Price_Limit then (od_limit_price order, s)
                 else let (simulated_price, s') = generate_market_price order s
                      in (apply_slippage s' simulated_price (od_side order), s'))
          in if od_side order = Side_Buy \<and> as_avail (sim_asset s1) < execution_price * od_volume_left order
             then Some (update_order_status (od_order_id order) OS_Error s1)
             else let (t, s2) = generate_summary_trade order execution_price (od_volume_left order) s1
                  in execute_summary_trade k t s2)"

definition match_order_with_market_data :: "DepthMem \<Rightarrow> u64 \<Rightarrow> BrokerSim \<Rightarrow> BrokerSim option" where
  "match_order_with_market_data mem k s0 =
     (case omap_find (sim_orders s0) k of
        None \<Rightarrow> None
      | Some order \<Rightarrow>
          let (_, depth, board) = board_get mem (od_instrument_id order) (InstrumentDepth_zero DEPTH_LEVELS) (sim_board s0);
              s = s0\<lparr> sim_board := board \<rparr>
          in if dp_real_depth_size depth = 0 then handle_no_depth_execution k s
             else let levels = build_price_levels depth (od_side order)
                  in if levels = []
                     then if od_status order = OS_Submitted
                          then let (now, s1) = now_time s
                               in Some (s1\<lparr> sim_orders := omap_adjust k
                                    (\<lambda>o'. o'\<lparr> od_status := OS_Pending, od_update_time := now \<rparr>) (sim_orders s1) \<rparr>)
                          else Some s
                     else let f = fill_levels s order levels
                                    \<lparr> fl_remaining = od_volume_left order, fl_weighted = 0, fl_total = 0, fl_executed = [] \<rparr>
                          in if fl_total f > 0
                             then let (t, s1) = generate_summary_trade order (fl_weighted f / fl_total f) (fl_total f) s
                                  in execute_summary_trade k t s1
                             else Some s)"

definition done_status :: "OrderStatus \<Rightarrow> bool" where
  "done_status st \<longleftrightarrow> st = OS_Filled \<or> st = OS_Cancelled \<or> st = OS_Error"

definition status_of :: "BrokerSim \<Rightarrow> u64 \<Rightarrow> OrderStatus option" where
  "status_of s k = map_option od_status (omap_find (sim_orders s) k)"

text \<open>One step of the pass: the order at key \<open>k\<close>.\<close>

definition match_one :: "DepthMem \<Rightarrow> u64 \<Rightarrow> BrokerSim \<Rightarrow> BrokerSim option" where
  "match_one mem k s =
     (case status_of s k of
        None \<Rightarrow> Some s
      | Some st \<Rightarrow>
          if done_status st then Some s
          else (case match_order_with_market_data mem k s of
                  None \<Rightarrow> None
                | Some s' \<Rightarrow>
                    if status_of s' k = Some OS_Filled \<or> status_of s' k = Some OS_Cancelled
                    then Some (remove_order k s') else Some s'))"

primrec match_keys :: "DepthMem \<Rightarrow> u64 list \<Rightarrow> BrokerSim \<Rightarrow> BrokerSim option" where
  "match_keys mem [] s = Some s"
| "match_keys mem (k # ks) s = (case match_one mem k s of None \<Rightarrow> None | Some s' \<Rightarrow> match_keys mem ks s')"

text \<open>No step adds a key, so the pass visits the keys the map has at its start, in order.\<close>

definition process_order_matching :: "DepthMem \<Rightarrow> BrokerSim \<Rightarrow> BrokerSim option" where
  "process_order_matching mem s = match_keys mem (List.map fst (sim_orders s)) s"

definition handle_backtest_sync_signal :: "DepthMem \<Rightarrow> BrokerSim \<Rightarrow> (bool \<times> BrokerSim) option" where
  "handle_backtest_sync_signal mem s = map_option (Pair True) (process_order_matching mem s)"

section \<open>What each step does to the orders\<close>

lemma now_time_sel [simp]:
  "sim_orders (snd (now_time s)) = sim_orders s" "sim_positions (snd (now_time s)) = sim_positions s"
  "sim_asset (snd (now_time s)) = sim_asset s"
  by (simp_all add: now_time_def)

lemma orders_update_asset [simp]: "sim_orders (update_asset t s) = sim_orders s"
  and positions_update_asset [simp]: "sim_positions (update_asset t s) = sim_positions s"
  by (simp_all add: update_asset_def now_time_def Let_def)

lemma orders_update_position [simp]: "sim_orders (update_position t s) = sim_orders s"
  and asset_update_position [simp]: "sim_asset (update_position t s) = sim_asset s"
  by (simp_all add: update_position_def now_time_def Let_def split: option.splits)

lemma orders_update_order_status [simp]:
  "sim_orders (update_order_status i st s) =
     omap_adjust i (\<lambda>o'. o'\<lparr> od_status := st, od_update_time := sim_clock s (sim_ticks s) \<rparr>) (sim_orders s)"
  by (auto simp: update_order_status_def now_time_def omap_adjust_def split: option.splits)

lemma sel_update_order_status [simp]:
  "sim_positions (update_order_status i st s) = sim_positions s"
  "sim_asset (update_order_status i st s) = sim_asset s"
  "sim_enable_commission (update_order_status i st s) = sim_enable_commission s"
  by (simp_all add: update_order_status_def now_time_def)

lemma notify_sel:
  assumes "notify_response msg s = Some (r, s')"
  shows "sim_orders s' = sim_orders s" "sim_positions s' = sim_positions s" "sim_asset s' = sim_asset s"
  using assms by (auto simp: notify_response_def now_time_def split: Writers.splits)

lemma generate_sel [simp]:
  "sim_orders (snd (generate_summary_trade o' p v s)) = sim_orders s"
  "sim_positions (snd (generate_summary_trade o' p v s)) = sim_positions s"
  "sim_asset (snd (generate_summary_trade o' p v s)) = sim_asset s"
  "sim_enable_commission (snd (generate_summary_trade o' p v s)) = sim_enable_commission s"
  by (simp_all add: generate_summary_trade_def now_time_def Let_def)

lemma generate_trade [simp]:
  "tr_price (fst (generate_summary_trade o' p v s)) = p"
  "tr_volume (fst (generate_summary_trade o' p v s)) = v"
  "tr_side (fst (generate_summary_trade o' p v s)) = od_side o'"
  "tr_order_id (fst (generate_summary_trade o' p v s)) = od_order_id o'"
  "arr_str (tr_instrument_id (fst (generate_summary_trade o' p v s))) = arr_str (od_instrument_id o')"
  "arr_str (tr_exchange_id (fst (generate_summary_trade o' p v s))) = arr_str (od_exchange_id o')"
  "tr_commission (fst (generate_summary_trade o' p v s)) =
     (if sim_enable_commission s then p * v * sim_commission_rate s else 0)"
  by (simp_all add: generate_summary_trade_def now_time_def Let_def Trade_zero_def)

lemma market_price_sel [simp]:
  "sim_orders (snd (generate_market_price o' s)) = sim_orders s"
  "sim_positions (snd (generate_market_price o' s)) = sim_positions s"
  "sim_asset (snd (generate_market_price o' s)) = sim_asset s"
  by (simp_all add: generate_market_price_def draw_def Let_def)

text \<open>An order as the code rewrites it: the request stays, the three progress fields may change.\<close>

definition request_of :: "Order \<Rightarrow> Order" where
  "request_of a = a\<lparr> od_volume_left := 0, od_status := OS_Unknown, od_update_time := 0 \<rparr>"

definition progressed :: "Order \<Rightarrow> Order \<Rightarrow> bool" where
  "progressed a b \<longleftrightarrow> request_of a = request_of b"

lemma progressed_refl [simp]: "progressed a a"
  by (simp add: progressed_def)

lemma progressed_upd [simp]:
  "progressed a (a\<lparr> od_volume_left := v, od_status := st, od_update_time := n \<rparr>)"
  "progressed a (a\<lparr> od_status := st, od_update_time := n \<rparr>)"
  "progressed a (a\<lparr> od_volume_left := v \<rparr>)"
  by (simp_all add: progressed_def request_of_def)

lemma progressed_trans: "\<lbrakk> progressed a b; progressed b c \<rbrakk> \<Longrightarrow> progressed a c"
  by (simp add: progressed_def)

lemma progressed_id: "progressed a b \<Longrightarrow> od_order_id b = od_order_id a"
  by (drule arg_cong [where f = od_order_id, OF progressed_def [THEN iffD1]]) (simp add: request_of_def)

text \<open>The order statuses as a state machine, with the moves of matching and cancelling.\<close>

inductive status_step :: "OrderStatus \<Rightarrow> OrderStatus \<Rightarrow> bool" where
  wait: "status_step OS_Submitted OS_Pending"
| fill: "\<not> done_status st \<Longrightarrow> status_step st OS_Filled"
| part: "\<not> done_status st \<Longrightarrow> status_step st OS_PartialFilledActive"
| error: "\<not> done_status st \<Longrightarrow> status_step st OS_Error"
| cancel: "cancellable st \<Longrightarrow> status_step st OS_Cancelled"

inductive_cases status_stepE: "status_step st st'"
inductive_simps status_step_simps: "status_step OS_Filled st'" "status_step OS_Cancelled st'"
  "status_step OS_Error st'"

lemma done_no_step: "done_status st \<Longrightarrow> \<not> status_step st st'"
  by (auto simp: done_status_def cancellable_def elim!: status_stepE)

text \<open>What matching the order at \<open>k\<close> may do to the map.\<close>

definition touches :: "u64 \<Rightarrow> (u64, Order) omap \<Rightarrow> (u64, Order) omap \<Rightarrow> bool" where
  "touches k m m' \<longleftrightarrow>
     (\<forall>k'. k' \<noteq> k \<longrightarrow> omap_find m' k' = omap_find m k') \<and>
     (omap_wf m \<longrightarrow> omap_wf m') \<and> fst ` set m' = fst ` set m \<and>
     (\<forall>a. omap_find m k = Some a \<longrightarrow>
        (\<exists>b. omap_find m' k = Some b \<and> progressed a b \<and>
             (od_status b = od_status a \<or> status_step (od_status a) (od_status b))))"

lemma touches_refl [simp]: "touches k m m"
  by (simp add: touches_def)

lemma touches_adjust:
  assumes "\<And>a. omap_find m k = Some a \<Longrightarrow>
      progressed a (f a) \<and> (od_status (f a) = od_status a \<or> status_step (od_status a) (od_status (f a)))"
  shows "touches k m (omap_adjust k f m)"
  using assms by (auto simp: touches_def)

text \<open>The positions and the funds behind a trade, as functions of the values they replace.\<close>

definition positions_after :: "int \<Rightarrow> Trade \<Rightarrow> PositionBook \<Rightarrow> PositionBook" where
  "positions_after now t pb =
     (let d = side2direction (tr_side t)
      in case positions_get pb (tr_instrument_id t) (tr_exchange_id t) d of
           Some p \<Rightarrow> upd_positions d
             (umap_set (hash_instrument (tr_exchange_id t) (tr_instrument_id t)) (updated_position now t p)) pb
         | None \<Rightarrow> positions_set (new_position now t d) pb)"

definition avail_after :: "bool \<Rightarrow> Trade \<Rightarrow> double \<Rightarrow> double" where
  "avail_after commission t avail =
     (let a = (if tr_side t = Side_Buy then avail - tr_price t * tr_volume t
               else avail + tr_price t * tr_volume t)
      in if commission then a - tr_commission t else a)"

definition fee_after :: "bool \<Rightarrow> Trade \<Rightarrow> double \<Rightarrow> double" where
  "fee_after commission t fee = (if commission then fee + tr_commission t else fee)"

lemma update_position_after:
  "sim_positions (update_position t s) = positions_after (sim_clock s (sim_ticks s)) t (sim_positions s)"
  by (simp add: update_position_def positions_after_def now_time_def Let_def split: option.splits)

lemma update_asset_after:
  "as_avail (sim_asset (update_asset t s)) = avail_after (sim_enable_commission s) t (as_avail (sim_asset s))"
  "as_accumulated_fee (sim_asset (update_asset t s)) =
     fee_after (sim_enable_commission s) t (as_accumulated_fee (sim_asset s))"
  by (simp_all add: update_asset_def avail_after_def fee_after_def now_time_def Let_def)

lemma commission_update_position [simp]:
  "sim_enable_commission (update_position t s) = sim_enable_commission s"
  by (simp add: update_position_def now_time_def Let_def split: option.splits)

text \<open>The order and the account behind an executed trade.\<close>

lemma execute_effect:
  assumes "omap_find (sim_orders s) k = Some order" "od_order_id order = k"
    "execute_summary_trade k t s = Some s'"
  defines "left \<equiv> od_volume_left order - of_i64 (i64_of (tr_volume t))"
  shows "sim_orders s' =
      omap_adjust k (\<lambda>o'. o'\<lparr> od_status := (if feq left 0 then OS_Filled else OS_PartialFilledActive),
                              od_update_time := sim_clock s (sim_ticks s) \<rparr>)
        (omap_adjust k (\<lambda>o'. o'\<lparr> od_volume_left := left \<rparr>) (sim_orders s))"
    and "\<exists>now. sim_positions s' = positions_after now t (sim_positions s)"
    and "as_avail (sim_asset s') = avail_after (sim_enable_commission s) t (as_avail (sim_asset s))"
    and "as_accumulated_fee (sim_asset s') =
      fee_after (sim_enable_commission s) t (as_accumulated_fee (sim_asset s))"
proof -
  define s1 where "s1 = s\<lparr> sim_orders := omap_adjust k (\<lambda>o'. o'\<lparr> od_volume_left := left \<rparr>) (sim_orders s) \<rparr>"
  define s2 where "s2 = update_order_status k (if feq left 0 then OS_Filled else OS_PartialFilledActive) s1"
  from assms have "map_option snd (notify_response (Msg_Trade t) (update_asset t (update_position t s2))) = Some s'"
    by (simp add: execute_summary_trade_def s1_def s2_def left_def Let_def)
  then obtain r where n: "notify_response (Msg_Trade t) (update_asset t (update_position t s2)) = Some (r, s')"
    by auto
  show "sim_orders s' =
      omap_adjust k (\<lambda>o'. o'\<lparr> od_status := (if feq left 0 then OS_Filled else OS_PartialFilledActive),
                              od_update_time := sim_clock s (sim_ticks s) \<rparr>)
        (omap_adjust k (\<lambda>o'. o'\<lparr> od_volume_left := left \<rparr>) (sim_orders s))"
    by (simp add: notify_sel [OF n] s2_def s1_def)
  show "\<exists>now. sim_positions s' = positions_after now t (sim_positions s)"
    by (rule exI) (simp only: notify_sel [OF n] positions_update_asset update_position_after,
        simp add: s2_def s1_def)
  show "as_avail (sim_asset s') = avail_after (sim_enable_commission s) t (as_avail (sim_asset s))"
    "as_accumulated_fee (sim_asset s') =
      fee_after (sim_enable_commission s) t (as_accumulated_fee (sim_asset s))"
    by (simp_all add: notify_sel [OF n] update_asset_after s2_def s1_def)
qed

lemma execute_touches:
  assumes "omap_find (sim_orders s) k = Some order" "od_order_id order = k"
    "\<not> done_status (od_status order)" "execute_summary_trade k t s = Some s'"
  shows "touches k (sim_orders s) (sim_orders s')"
  using assms(1-3) execute_effect(1) [OF assms(1,2,4)]
  by (auto simp: touches_def intro: status_step.intros)

lemma no_depth_touches:
  assumes "omap_find (sim_orders s) k = Some order" "od_order_id order = k"
    "\<not> done_status (od_status order)" "handle_no_depth_execution k s = Some s'"
  shows "touches k (sim_orders s) (sim_orders s')"
proof -
  define ps where "ps = (if od_price_type order = Price_Limit then (od_limit_price order, s)
     else let (simulated_price, s') = generate_market_price order s
          in (apply_slippage s' simulated_price (od_side order), s'))"
  have o1: "sim_orders (snd ps) = sim_orders s"
    by (simp add: ps_def split_beta Let_def)
  show ?thesis
  proof (cases "od_side order = Side_Buy \<and> as_avail (sim_asset (snd ps)) < fst ps * od_volume_left order")
    case True
    with assms have "s' = update_order_status k OS_Error (snd ps)"
      unfolding handle_no_depth_execution_def by (simp add: ps_def [symmetric] split_beta)
    with assms o1 show ?thesis by (auto intro!: touches_adjust status_step.intros)
  next
    case False
    with assms have "execute_summary_trade k (fst (generate_summary_trade order (fst ps) (od_volume_left order) (snd ps)))
        (snd (generate_summary_trade order (fst ps) (od_volume_left order) (snd ps))) = Some s'"
      unfolding handle_no_depth_execution_def by (simp add: ps_def [symmetric] split_beta)
    from execute_touches [OF _ assms(2,3) this] assms(1) o1 show ?thesis by simp
  qed
qed

text \<open>The matching of an order, its depth, its levels and its fill named.\<close>

definition depth_of :: "DepthMem \<Rightarrow> Order \<Rightarrow> BrokerSim \<Rightarrow> InstrumentDepth" where
  "depth_of mem order s =
     fst (snd (board_get mem (od_instrument_id order) (InstrumentDepth_zero DEPTH_LEVELS) (sim_board s)))"

definition with_board :: "DepthMem \<Rightarrow> Order \<Rightarrow> BrokerSim \<Rightarrow> BrokerSim" where
  "with_board mem order s = s\<lparr> sim_board :=
     snd (snd (board_get mem (od_instrument_id order) (InstrumentDepth_zero DEPTH_LEVELS) (sim_board s))) \<rparr>"

definition fill_of :: "BrokerSim \<Rightarrow> Order \<Rightarrow> (double \<times> double) list \<Rightarrow> Fill" where
  "fill_of s order levels = fill_levels s order levels
     \<lparr> fl_remaining = od_volume_left order, fl_weighted = 0, fl_total = 0, fl_executed = [] \<rparr>"

definition summary_of :: "BrokerSim \<Rightarrow> Order \<Rightarrow> Fill \<Rightarrow> Trade \<times> BrokerSim" where
  "summary_of s order f = generate_summary_trade order (fl_weighted f / fl_total f) (fl_total f) s"

lemma with_board_sel [simp]:
  "sim_orders (with_board mem order s) = sim_orders s"
  "sim_positions (with_board mem order s) = sim_positions s"
  "sim_asset (with_board mem order s) = sim_asset s"
  "sim_enable_commission (with_board mem order s) = sim_enable_commission s"
  "sim_enable_slippage (with_board mem order s) = sim_enable_slippage s"
  "sim_slippage_rate (with_board mem order s) = sim_slippage_rate s"
  by (simp_all add: with_board_def)

lemma summary_of_sel [simp]:
  "sim_orders (snd (summary_of s order f)) = sim_orders s"
  "sim_positions (snd (summary_of s order f)) = sim_positions s"
  "sim_asset (snd (summary_of s order f)) = sim_asset s"
  "sim_enable_commission (snd (summary_of s order f)) = sim_enable_commission s"
  by (simp_all add: summary_of_def)

definition mark_pending :: "u64 \<Rightarrow> BrokerSim \<Rightarrow> BrokerSim" where
  "mark_pending k s = (snd (now_time s))\<lparr> sim_orders := omap_adjust k
     (\<lambda>o'. o'\<lparr> od_status := OS_Pending, od_update_time := fst (now_time s) \<rparr>) (sim_orders s) \<rparr>"

lemma match_order_eq:
  assumes "omap_find (sim_orders s0) k = Some order"
    and s: "s = with_board mem order s0"
    and levels: "levels = build_price_levels (depth_of mem order s0) (od_side order)"
  shows "match_order_with_market_data mem k s0 =
     (if dp_real_depth_size (depth_of mem order s0) = 0 then handle_no_depth_execution k s
      else if levels = []
      then if od_status order = OS_Submitted then Some (mark_pending k s) else Some s
      else if fl_total (fill_of s order levels) > 0
           then execute_summary_trade k (fst (summary_of s order (fill_of s order levels)))
                  (snd (summary_of s order (fill_of s order levels)))
           else Some s)"
  unfolding match_order_with_market_data_def assms(1) option.case Let_def split_beta
    depth_of_def [symmetric] with_board_def [symmetric] s [symmetric] levels [symmetric]
    fill_of_def [symmetric] summary_of_def [symmetric] now_time_sel(1) mark_pending_def [symmetric]
  by (rule refl)

lemma match_order_touches:
  assumes "omap_find (sim_orders s) k = Some order" "od_order_id order = k"
    "\<not> done_status (od_status order)" "match_order_with_market_data mem k s = Some s'"
  shows "touches k (sim_orders s) (sim_orders s')"
proof -
  let ?s = "with_board mem order s"
  have f: "omap_find (sim_orders ?s) k = Some order" "\<And>f. omap_find (sim_orders (snd (summary_of ?s order f))) k = Some order"
    using assms(1) by simp_all
  note m = assms(4) [unfolded match_order_eq [OF assms(1) refl refl]]
  from m show ?thesis
    using no_depth_touches [OF f(1) assms(2,3)] execute_touches [OF f(2) assms(2,3)] assms(1,3)
    by (auto simp: mark_pending_def split: if_splits intro!: touches_adjust status_step.intros)
qed

section \<open>Invariant of the broker and the effect of a pass\<close>

definition orders_keyed :: "(u64, Order) omap \<Rightarrow> bool" where
  "orders_keyed m \<longleftrightarrow> omap_wf m \<and> (\<forall>k a. omap_find m k = Some a \<longrightarrow> od_order_id a = k)"

lemma keyed_Nil [simp]: "orders_keyed []"
  by (simp add: orders_keyed_def)

lemma keyed_touches:
  assumes "orders_keyed m" "touches k m m'"
  shows "orders_keyed m'"
proof -
  have "od_order_id b = k'" if "omap_find m' k' = Some b" for k' b
  proof (cases "k' = k")
    case True
    have "omap_find m k \<noteq> None"
      using assms(2) that True unfolding touches_def by (metis fst_set_omap_find option.distinct(1))
    then obtain a where "omap_find m k = Some a" by blast
    with assms that True show ?thesis
      unfolding touches_def orders_keyed_def by (metis option.inject progressed_id)
  next
    case False
    with assms that show ?thesis by (simp add: touches_def orders_keyed_def)
  qed
  with assms show ?thesis by (simp add: orders_keyed_def touches_def)
qed

lemma keyed_erase: "orders_keyed m \<Longrightarrow> orders_keyed (omap_erase k m)"
  by (simp add: orders_keyed_def omap_find_erase)

text \<open>What becomes of an order in one pass.\<close>

definition pass_outcome :: "Order \<Rightarrow> Order option \<Rightarrow> bool" where
  "pass_outcome a r \<longleftrightarrow>
     (if done_status (od_status a) then r = Some a
      else case r of None \<Rightarrow> True
           | Some b \<Rightarrow> progressed a b \<and> od_status b \<noteq> OS_Filled \<and> od_status b \<noteq> OS_Cancelled \<and>
                      (od_status b = od_status a \<or> status_step (od_status a) (od_status b)))"

lemma match_one_effect:
  assumes "orders_keyed (sim_orders s)" "match_one mem k s = Some s'"
  shows "orders_keyed (sim_orders s')"
    and "k' \<noteq> k \<Longrightarrow> omap_find (sim_orders s') k' = omap_find (sim_orders s) k'"
    and "omap_find (sim_orders s) k = Some a \<Longrightarrow> pass_outcome a (omap_find (sim_orders s') k)"
    and "omap_find (sim_orders s) k = None \<Longrightarrow> s' = s"
proof -
  have *: "orders_keyed (sim_orders s') \<and>
      (\<forall>k'. k' \<noteq> k \<longrightarrow> omap_find (sim_orders s') k' = omap_find (sim_orders s) k') \<and>
      (\<forall>a. omap_find (sim_orders s) k = Some a \<longrightarrow> pass_outcome a (omap_find (sim_orders s') k)) \<and>
      (omap_find (sim_orders s) k = None \<longrightarrow> s' = s)"
  proof (cases "omap_find (sim_orders s) k")
    case None
    with assms show ?thesis by (simp add: match_one_def status_of_def)
  next
    case (Some a)
    note a = Some
    show ?thesis
    proof (cases "done_status (od_status a)")
      case True
      with a assms show ?thesis by (simp add: match_one_def status_of_def pass_outcome_def)
    next
      case False
      from a assms(2) False obtain s1 where s1: "match_order_with_market_data mem k s = Some s1"
        and s': "s' = (if status_of s1 k = Some OS_Filled \<or> status_of s1 k = Some OS_Cancelled
                       then remove_order k s1 else s1)"
        by (auto simp: match_one_def status_of_def split: option.splits if_splits)
      have ida: "od_order_id a = k" using assms(1) a by (simp add: orders_keyed_def)
      have t: "touches k (sim_orders s) (sim_orders s1)"
        using match_order_touches [OF a ida False s1] .
      then obtain b where b: "omap_find (sim_orders s1) k = Some b" "progressed a b"
        "od_status b = od_status a \<or> status_step (od_status a) (od_status b)"
        using a unfolding touches_def by blast
      have k1: "orders_keyed (sim_orders s1)" using keyed_touches [OF assms(1) t] .
      then have wf1: "omap_wf (sim_orders s1)" by (simp add: orders_keyed_def)
      show ?thesis
        using t b a False k1 wf1
        by (auto simp: s' status_of_def remove_order_def omap_find_erase keyed_erase touches_def pass_outcome_def)
    qed
  qed
  then show "orders_keyed (sim_orders s')"
    and "k' \<noteq> k \<Longrightarrow> omap_find (sim_orders s') k' = omap_find (sim_orders s) k'"
    and "omap_find (sim_orders s) k = Some a \<Longrightarrow> pass_outcome a (omap_find (sim_orders s') k)"
    and "omap_find (sim_orders s) k = None \<Longrightarrow> s' = s"
    by blast+
qed

lemma match_keys_effect:
  assumes "orders_keyed (sim_orders s)" "distinct ks" "match_keys mem ks s = Some s'"
  shows "orders_keyed (sim_orders s') \<and>
    (\<forall>k. if k \<in> set ks
         then (case omap_find (sim_orders s) k of
                 None \<Rightarrow> omap_find (sim_orders s') k = None
               | Some a \<Rightarrow> pass_outcome a (omap_find (sim_orders s') k))
         else omap_find (sim_orders s') k = omap_find (sim_orders s) k)"
  using assms
proof (induction ks arbitrary: s)
  case (Cons k ks)
  then obtain s1 where s1: "match_one mem k s = Some s1" "match_keys mem ks s1 = Some s'"
    by (auto split: option.splits)
  note e = match_one_effect [OF Cons.prems(1) s1(1)]
  have IH: "orders_keyed (sim_orders s') \<and>
    (\<forall>k. if k \<in> set ks
         then (case omap_find (sim_orders s1) k of
                 None \<Rightarrow> omap_find (sim_orders s') k = None
               | Some a \<Rightarrow> pass_outcome a (omap_find (sim_orders s') k))
         else omap_find (sim_orders s') k = omap_find (sim_orders s1) k)"
    using Cons.IH [OF e(1) _ s1(2)] Cons.prems(2) by simp
  show ?case
  proof (intro conjI allI)
    show "orders_keyed (sim_orders s')" using IH by blast
    fix j
    show "if j \<in> set (k # ks)
      then (case omap_find (sim_orders s) j of
              None \<Rightarrow> omap_find (sim_orders s') j = None
            | Some a \<Rightarrow> pass_outcome a (omap_find (sim_orders s') j))
      else omap_find (sim_orders s') j = omap_find (sim_orders s) j"
    proof (cases "j = k")
      case True
      with IH Cons.prems(2) have "omap_find (sim_orders s') k = omap_find (sim_orders s1) k" by simp
      with True e(3,4) show ?thesis by (auto split: option.split)
    next
      case False
      with IH [THEN conjunct2, THEN spec, of j] e(2) [OF False] show ?thesis
        by (cases "j \<in> set ks") simp_all
    qed
  qed
qed simp

lemma pass_effect:
  assumes "orders_keyed (sim_orders s)" "process_order_matching mem s = Some s'"
  shows "orders_keyed (sim_orders s')"
    and "omap_find (sim_orders s) k = None \<Longrightarrow> omap_find (sim_orders s') k = None"
    and "omap_find (sim_orders s) k = Some a \<Longrightarrow> pass_outcome a (omap_find (sim_orders s') k)"
proof -
  have "distinct (List.map fst (sim_orders s))"
    using assms(1) by (simp add: orders_keyed_def omap_wf_def strict_sorted_iff)
  note e = match_keys_effect [OF assms(1) this assms(2) [unfolded process_order_matching_def]]
  show "orders_keyed (sim_orders s')" using e by blast
  have "k \<in> set (List.map fst (sim_orders s)) \<longleftrightarrow> omap_find (sim_orders s) k \<noteq> None"
    by (simp add: fst_set_omap_find)
  with e [THEN conjunct2, THEN spec, of k]
  show "omap_find (sim_orders s) k = None \<Longrightarrow> omap_find (sim_orders s') k = None"
    and "omap_find (sim_orders s) k = Some a \<Longrightarrow> pass_outcome a (omap_find (sim_orders s') k)"
    by simp_all
qed

section \<open>Filling against the book\<close>




text \<open>Whole lots: the volumes of the order and of the levels are integers up to \<open>2 ^ 53\<close>.\<close>

definition whole :: "double \<Rightarrow> bool" where
  "whole v \<longleftrightarrow> (\<exists>n. 0 \<le> n \<and> n \<le> 2 ^ 53 \<and> v = of_i64 n)"

lemma fmin_whole:
  "\<lbrakk> 0 \<le> a; a \<le> 2 ^ 53; 0 \<le> b; b \<le> 2 ^ 53 \<rbrakk> \<Longrightarrow> fmin (of_i64 a) (of_i64 b) = of_i64 (min a b)"
  using of_i64_less [of b a] by (simp add: fmin_def less_double_def min_def not_less order_le_less)

lemma fill_levels_whole:
  assumes "fl_remaining acc = of_i64 r" "fl_total acc = of_i64 t" "0 \<le> r" "0 \<le> t" "r + t \<le> 2 ^ 53"
    "\<forall>(p, v) \<in> set ls. whole v"
  shows "\<exists>r' t'. fl_remaining (fill_levels s order ls acc) = of_i64 r' \<and>
     fl_total (fill_levels s order ls acc) = of_i64 t' \<and> 0 \<le> r' \<and> t \<le> t' \<and> r' + t' = r + t"
  using assms
proof (induction s order ls acc arbitrary: r t rule: fill_levels.induct)
  case (2 s order p v ls acc)
  from "2.prems"(6) obtain n where n: "0 \<le> n" "n \<le> 2 ^ 53" "v = of_i64 n" unfolding whole_def by auto
  have tv: "fmin (of_i64 r) (of_i64 n) = of_i64 (min r n)"
    using "2.prems" n by (simp add: fmin_whole)
  have upd: "of_i64 r - of_i64 (min r n) = of_i64 (r - min r n)" "of_i64 t + of_i64 (min r n) = of_i64 (t + min r n)"
    using "2.prems" n by (intro of_i64_minus of_i64_add; simp add: min_def)+
  show ?case
  proof (cases "fl_remaining acc \<le> 0 \<or> \<not> can_execute_order order (apply_slippage s p (od_side order))")
    case True
    with "2.prems" show ?thesis by (auto simp: Let_def)
  next
    case go: False
    show ?thesis
    proof (cases "check_funds_sufficiency s order (apply_slippage s p (od_side order)) (of_i64 (min r n))")
      case True
      let ?acc = "\<lparr> fl_remaining = of_i64 (r - min r n),
                     fl_weighted = fl_weighted acc + apply_slippage s p (od_side order) * of_i64 (min r n),
                     fl_total = of_i64 (t + min r n),
                     fl_executed = fl_executed acc @ [(apply_slippage s p (od_side order), of_i64 (min r n))] \<rparr>"
      have "\<exists>r' t'. fl_remaining (fill_levels s order ls ?acc) = of_i64 r' \<and>
         fl_total (fill_levels s order ls ?acc) = of_i64 t' \<and> 0 \<le> r' \<and> t + min r n \<le> t' \<and>
         r' + t' = (r - min r n) + (t + min r n)"
        using "2.IH"(2) [OF _ refl _ refl, of "r - min r n" "t + min r n"] go True "2.prems" n
        by (simp add: tv upd n(3))
      then obtain r' t' where "fl_remaining (fill_levels s order ls ?acc) = of_i64 r'"
        "fl_total (fill_levels s order ls ?acc) = of_i64 t'" "0 \<le> r'" "t \<le> t'" "r' + t' = r + t"
        using n(1) \<open>0 \<le> r\<close> by auto
      then show ?thesis using go True "2.prems"(1,2)
        by (intro exI [of _ r'] exI [of _ t']) (simp add: Let_def tv upd n(3))
    next
      case False
      with "2.IH"(1) [OF _ refl _ refl, of r t] go "2.prems" show ?thesis by (simp add: Let_def tv n(3))
    qed
  qed
qed auto

section \<open>A pass goes through\<close>

lemma writers_sel [simp]:
  "sim_writers (snd (now_time s)) = sim_writers s"
  "sim_writers (update_order_status i st s) = sim_writers s"
  "sim_writers (update_position t s) = sim_writers s"
  "sim_writers (update_asset t s) = sim_writers s"
  "sim_writers (with_board mem order s) = sim_writers s"
  "sim_writers (snd (generate_summary_trade o' p v s)) = sim_writers s"
  "sim_writers (snd (generate_market_price o' s)) = sim_writers s"
  "sim_writers (mark_pending k s) = sim_writers s"
  "sim_writers (remove_order k s) = sim_writers s"
  by (simp_all add: now_time_def update_order_status_def update_position_def update_asset_def with_board_def
      generate_summary_trade_def generate_market_price_def draw_def mark_pending_def remove_order_def Let_def
      split: option.splits)

lemma notify_defined:
  "sim_writers s \<noteq> NoChannel \<Longrightarrow> \<exists>r s'. notify_response msg s = Some (r, s') \<and> sim_writers s' = sim_writers s"
  by (cases "sim_writers s") (auto simp: notify_response_def now_time_def)

lemma execute_defined:
  assumes "sim_writers s \<noteq> NoChannel" "omap_find (sim_orders s) k \<noteq> None"
  shows "\<exists>s'. execute_summary_trade k t s = Some s' \<and> sim_writers s' = sim_writers s"
proof -
  obtain order where order: "omap_find (sim_orders s) k = Some order" using assms(2) by auto
  define left where "left = od_volume_left order - of_i64 (i64_of (tr_volume t))"
  define s4 where "s4 = update_asset t (update_position t (update_order_status (od_order_id order)
      (if feq left 0 then OS_Filled else OS_PartialFilledActive)
      (s\<lparr> sim_orders := omap_adjust k (\<lambda>o'. o'\<lparr> od_volume_left := left \<rparr>) (sim_orders s) \<rparr>)))"
  have "sim_writers s4 = sim_writers s" by (simp add: s4_def)
  with assms(1) notify_defined [of s4 "Msg_Trade t"]
  obtain r s' where "notify_response (Msg_Trade t) s4 = Some (r, s')" "sim_writers s' = sim_writers s" by auto
  then show ?thesis
    by (simp add: execute_summary_trade_def order Let_def left_def [symmetric] s4_def)
qed

lemma no_depth_defined:
  assumes "sim_writers s \<noteq> NoChannel" "omap_find (sim_orders s) k \<noteq> None"
  shows "\<exists>s'. handle_no_depth_execution k s = Some s' \<and> sim_writers s' = sim_writers s"
proof -
  obtain order where order: "omap_find (sim_orders s) k = Some order" using assms(2) by auto
  define ps where "ps = (if od_price_type order = Price_Limit then (od_limit_price order, s)
     else let (simulated_price, s') = generate_market_price order s
          in (apply_slippage s' simulated_price (od_side order), s'))"
  have ps: "sim_writers (snd ps) = sim_writers s" "sim_orders (snd ps) = sim_orders s"
    by (simp_all add: ps_def split_beta Let_def)
  obtain s' where "execute_summary_trade k (fst (generate_summary_trade order (fst ps) (od_volume_left order) (snd ps)))
      (snd (generate_summary_trade order (fst ps) (od_volume_left order) (snd ps))) = Some s'"
    "sim_writers s' = sim_writers s"
    using execute_defined [of "snd (generate_summary_trade order (fst ps) (od_volume_left order) (snd ps))" k]
      assms ps by auto
  with ps show ?thesis
    unfolding handle_no_depth_execution_def order by (simp add: ps_def [symmetric] split_beta)
qed

lemma match_order_defined:
  assumes "sim_writers s \<noteq> NoChannel" "omap_find (sim_orders s) k \<noteq> None"
  shows "\<exists>s'. match_order_with_market_data mem k s = Some s' \<and> sim_writers s' = sim_writers s"
proof -
  obtain order where order: "omap_find (sim_orders s) k = Some order" using assms(2) by auto
  let ?s = "with_board mem order s"
  have "\<exists>s'. handle_no_depth_execution k ?s = Some s' \<and> sim_writers s' = sim_writers s"
    using no_depth_defined [of ?s k] assms by simp
  moreover have "\<exists>s'. execute_summary_trade k t (snd (summary_of ?s order f)) = Some s' \<and> sim_writers s' = sim_writers s"
    for t f using execute_defined [of "snd (summary_of ?s order f)" k t] assms by (simp add: summary_of_def)
  ultimately show ?thesis
    unfolding match_order_eq [OF order refl refl] by simp
qed

lemma match_one_defined:
  assumes "sim_writers s \<noteq> NoChannel"
  shows "\<exists>s'. match_one mem k s = Some s' \<and> sim_writers s' = sim_writers s"
proof (cases "omap_find (sim_orders s) k")
  case None
  then show ?thesis by (simp add: match_one_def status_of_def)
next
  case (Some a)
  then obtain s' where "match_order_with_market_data mem k s = Some s'" "sim_writers s' = sim_writers s"
    using match_order_defined [OF assms, of k mem] by auto
  with Some show ?thesis by (simp add: match_one_def status_of_def)
qed

lemma match_keys_defined:
  "sim_writers s \<noteq> NoChannel \<Longrightarrow> \<exists>s'. match_keys mem ks s = Some s' \<and> sim_writers s' = sim_writers s"
proof (induction ks arbitrary: s)
  case (Cons k ks)
  then obtain s1 where "match_one mem k s = Some s1" "sim_writers s1 = sim_writers s"
    using match_one_defined by blast
  with Cons.IH [of s1] Cons.prems show ?case by simp
qed simp

section \<open>Properties\<close>

text \<open>C19: an order is rejected exactly when it buys and its limit value exceeds the available cash,
  and then nothing changes; otherwise it is stored under its id as submitted with its whole volume
  open, and no other order, no position and no money changes.\<close>

theorem insert_order_spec:
  "if oi_side input = Side_Buy \<and> as_avail (sim_asset s) < oi_limit_price input * oi_volume input
   then insert_order input s = (False, s)
   else fst (insert_order input s) \<and>
     (\<exists>od. omap_find (sim_orders (snd (insert_order input s))) (oi_order_id input) = Some od \<and>
        od_order_id od = oi_order_id input \<and> od_status od = OS_Submitted \<and>
        od_volume od = oi_volume input \<and> od_volume_left od = oi_volume input \<and>
        od_limit_price od = oi_limit_price input \<and> od_side od = oi_side input) \<and>
     (\<forall>k. k \<noteq> oi_order_id input \<longrightarrow>
        omap_find (sim_orders (snd (insert_order input s))) k = omap_find (sim_orders s) k) \<and>
     sim_asset (snd (insert_order input s)) = sim_asset s \<and>
     sim_positions (snd (insert_order input s)) = sim_positions s"
  by (simp add: insert_order_def add_order_def submitted_order_def order_from_input_def Order_assign_def Let_def)

definition sample_broker :: BrokerSim where
  "sample_broker = (BrokerSim_new (\<lambda>n. int n) (\<lambda>_. 0))\<lparr> sim_writers := HasChannel \<rparr>"

definition sample_input :: OrderInput where
  "sample_input = OrderInput_zero
     \<lparr> oi_order_id := 11, oi_limit_price := of_i64 100, oi_volume := of_i64 2, oi_side := Side_Sell,
       oi_instrument_id := ''IF2401'' @ arr_zero 26, oi_exchange_id := ''CFFEX'' @ arr_zero 11 \<rparr>"

lemma insert_order_spec_witness: "fst (insert_order sample_input sample_broker)"
  using insert_order_spec [of sample_input sample_broker] by (simp add: sample_input_def)

text \<open>C20: a cancel request answers with exactly one response, whose error is -2 for an unknown
  order, -1 for an order in a status that cannot be cancelled and 0 for a cancelled one; only in
  the last case an order changes, and it is the named one.\<close>

theorem cancel_order_spec:
  assumes "sim_writers s = HasChannel"
  shows "(\<exists>now. sim_sent (snd (cancel_order input s)) = sim_sent s @
      [(now, Msg_OrderActionResp (cancel_resp input
         (case omap_find (sim_orders s) (oc_target_order_id input) of
            None \<Rightarrow> - 2 | Some od \<Rightarrow> if cancellable (od_status od) then 0 else - 1)))]) \<and>
    (fst (cancel_order input s) \<longleftrightarrow>
      (\<exists>od. omap_find (sim_orders s) (oc_target_order_id input) = Some od \<and> cancellable (od_status od))) \<and>
    (\<exists>now. sim_orders (snd (cancel_order input s)) =
      (if fst (cancel_order input s)
       then omap_adjust (oc_target_order_id input)
              (\<lambda>od. od\<lparr> od_status := OS_Cancelled, od_update_time := now \<rparr>) (sim_orders s)
       else sim_orders s))"
proof -
  have n: "notify_or_false r msg x =
      (r, x\<lparr> sim_ticks := Suc (sim_ticks x), sim_sent := sim_sent x @ [(sim_clock x (sim_ticks x), msg)] \<rparr>)"
    if "sim_writers x = HasChannel" for r msg x
    using that by (simp add: notify_or_false_def notify_response_def now_time_def)
  have u: "sim_writers (update_order_status i st s) = HasChannel"
    "sim_sent (update_order_status i st s) = sim_sent s" for i st
    using assms by (simp_all add: update_order_status_def now_time_def)
  show ?thesis
    using assms by (auto simp: cancel_order_def n u split: option.split)
qed

definition sample_cancel :: OrderCancel where
  "sample_cancel =
     \<lparr> oc_instrument_id = arr_zero 32, oc_order_id = 12, oc_target_order_id = 99, oc_price = 0,
       oc_volume = 0, oc_insert_time = 0 \<rparr>"

lemma cancel_order_spec_witness: "\<not> fst (cancel_order sample_cancel sample_broker)"
  using cancel_order_spec [where s = sample_broker and input = sample_cancel]
  by (simp add: sample_broker_def BrokerSim_new_def)

text \<open>C7: one matching pass. Orders in a final status (filled, cancelled, error) are left exactly as they
  are; every other order keeps its request and either moves along the status machine or leaves
  the map; no order appears, and the ids stay the keys.\<close>

theorem matching_pass:
  assumes "orders_keyed (sim_orders s)" "process_order_matching mem s = Some s'"
  shows "orders_keyed (sim_orders s') \<and>
    (case omap_find (sim_orders s) k of
       None \<Rightarrow> omap_find (sim_orders s') k = None
     | Some a \<Rightarrow>
         if done_status (od_status a) then omap_find (sim_orders s') k = Some a
         else (case omap_find (sim_orders s') k of
                 None \<Rightarrow> True
               | Some b \<Rightarrow> progressed a b \<and> od_status b \<noteq> OS_Filled \<and> od_status b \<noteq> OS_Cancelled \<and>
                           (od_status b = od_status a \<or> status_step (od_status a) (od_status b))))"
  using pass_effect(1) [OF assms] pass_effect(2,3) [OF assms, of k] by (auto simp: pass_outcome_def split: option.split)

definition cancelled_broker :: BrokerSim where
  "cancelled_broker = sample_broker\<lparr> sim_orders := [(11, (submitted_order sample_input)\<lparr> od_status := OS_Cancelled \<rparr>)] \<rparr>"

lemma matching_pass_witness:
  "process_order_matching (fst (board_init 0 0 False)) cancelled_broker = Some cancelled_broker \<and>
   orders_keyed (sim_orders cancelled_broker)"
proof -
  have p: "process_order_matching (fst (board_init 0 0 False)) cancelled_broker = Some cancelled_broker"
    by (simp add: process_order_matching_def cancelled_broker_def match_one_def status_of_def done_status_def)
  have "orders_keyed (sim_orders cancelled_broker)"
    by (auto simp: orders_keyed_def cancelled_broker_def submitted_order_def order_from_input_def
        sample_input_def split: if_splits)
  with p matching_pass [OF this p, where k = 11] show ?thesis by simp
qed


lemma feq_of_i64_0: "\<bar>a\<bar> \<le> 2 ^ 53 \<Longrightarrow> feq (of_i64 a) 0 \<longleftrightarrow> a = 0"
  by (simp add: feq_fin)

lemma whole_levels_fill:
  assumes "od_volume_left order = of_i64 n" "0 \<le> n" "n \<le> 2 ^ 53" "\<forall>(p, v) \<in> set levels. whole v"
  obtains m where "fl_total (fill_of s order levels) = of_i64 m" "0 \<le> m" "m \<le> n"
proof -
  from fill_levels_whole [of "\<lparr> fl_remaining = od_volume_left order, fl_weighted = 0, fl_total = 0, fl_executed = [] \<rparr>"
      n 0 levels s order] assms
  obtain r t where "fl_total (fill_of s order levels) = of_i64 t" "0 \<le> r" "0 \<le> t" "r + t = n"
    by (auto simp: fill_of_def)
  then show thesis using that [of t] by simp
qed

text \<open>C21: whole lots are conserved. When the open volume and the levels are whole, matching an order
  against the book takes some \<open>m\<close> off its open volume, the order is filled exactly when nothing is
  left, and the position book receives one trade of that same volume \<open>m\<close>.\<close>

theorem match_conserves_whole_lots:
  assumes "omap_find (sim_orders s) k = Some order" "od_order_id order = k"
    "od_volume_left order = of_i64 n" "0 < n" "n \<le> 2 ^ 53"
    "dp_real_depth_size (depth_of mem order s) \<noteq> 0"
    "\<forall>(p, v) \<in> set (build_price_levels (depth_of mem order s) (od_side order)). whole v"
    "match_order_with_market_data mem k s = Some s'"
  shows "\<exists>m b. 0 \<le> m \<and> m \<le> n \<and> omap_find (sim_orders s') k = Some b \<and>
    od_volume_left b = of_i64 (n - m) \<and> progressed order b \<and>
    (if m = 0 then sim_positions s' = sim_positions s
     else (od_status b = OS_Filled \<longleftrightarrow> m = n) \<and>
       (\<exists>t now. tr_volume t = of_i64 m \<and> tr_order_id t = k \<and> tr_side t = od_side order \<and>
          sim_positions s' = positions_after now t (sim_positions s)))"
proof -
  define s1 where "s1 = with_board mem order s"
  define levels where "levels = build_price_levels (depth_of mem order s) (od_side order)"
  define f where "f = fill_of s1 order levels"
  have lv: "\<forall>(p, v) \<in> set levels. whole v" using assms(7) by (simp add: levels_def)
  obtain m where m: "fl_total f = of_i64 m" "0 \<le> m" "m \<le> n"
    using whole_levels_fill [OF assms(3) _ assms(5) lv, of s1 thesis] assms(4) by (auto simp: f_def)
  have eq: "match_order_with_market_data mem k s =
     (if levels = [] then if od_status order = OS_Submitted then Some (mark_pending k s1) else Some s1
      else if fl_total f > 0
           then execute_summary_trade k (fst (summary_of s1 order f)) (snd (summary_of s1 order f))
           else Some s1)"
    using match_order_eq [OF assms(1) s1_def levels_def] assms(6) by (simp add: f_def)
  have pos: "fl_total f > 0 \<longleftrightarrow> m > 0"
    using m assms(5) of_i64_less [of 0 m] by simp
  show ?thesis
  proof (cases "levels \<noteq> [] \<and> m > 0")
    case True
    define t s2 where "t = fst (summary_of s1 order f)" and "s2 = snd (summary_of s1 order f)"
    have ex: "execute_summary_trade k t s2 = Some s'"
      using True eq pos assms(8) by (simp add: t_def s2_def)
    have s2: "omap_find (sim_orders s2) k = Some order" "sim_positions s2 = sim_positions s"
      using assms(1) by (simp_all add: s2_def s1_def)
    have t: "tr_volume t = of_i64 m" "tr_order_id t = k" "tr_side t = od_side order"
      using m(1) assms(2) by (simp_all add: t_def summary_of_def)
    have left: "od_volume_left order - of_i64 (i64_of (tr_volume t)) = of_i64 (n - m)"
      using t m assms(3,5) by (simp add: of_i64_minus)
    note e = execute_effect [OF s2(1) assms(2) ex]
    have fz: "feq (of_i64 (n - m)) 0 \<longleftrightarrow> m = n" using m assms(5) by (subst feq_of_i64_0) auto
    from e(1) s2(1) have "\<exists>b. omap_find (sim_orders s') k = Some b \<and> od_volume_left b = of_i64 (n - m) \<and>
        progressed order b \<and> (od_status b = OS_Filled \<longleftrightarrow> m = n)"
      by (auto simp: left fz progressed_def request_of_def)
    moreover have "\<exists>now. sim_positions s' = positions_after now t (sim_positions s)"
      using e(2) s2(2) by simp
    ultimately show ?thesis using True m t by (metis less_irrefl)
  next
    case False
    then have "s' = mark_pending k s1 \<or> s' = s1"
      using eq pos m(2) assms(8) by (auto split: if_splits)
    then have "\<exists>b. omap_find (sim_orders s') k = Some b \<and> od_volume_left b = of_i64 n \<and> progressed order b \<and>
        sim_positions s' = sim_positions s"
      using assms(1,3) by (auto simp: mark_pending_def s1_def progressed_def request_of_def)
    then show ?thesis using assms(4) by (intro exI [of _ 0]) auto
  qed
qed

definition sample_order :: Order where
  "sample_order = Order_zero
     \<lparr> od_order_id := 11, od_instrument_id := ''IF2401'' @ arr_zero 26, od_exchange_id := ''CFFEX'' @ arr_zero 11,
       od_limit_price := of_i64 100, od_volume := of_i64 2, od_volume_left := of_i64 2,
       od_side := Side_Sell, od_status := OS_Submitted \<rparr>"

definition sample_depth :: InstrumentDepth where
  "sample_depth = (InstrumentDepth_zero 20)
     \<lparr> dp_real_depth_size := 2, dp_instrument_id := ''IF2401'' @ arr_zero 26,
       dp_bid_price := [of_i64 100, of_i64 100] @ replicate 18 0, dp_bid_volume := [of_i64 1, of_i64 5] @ replicate 18 0,
       dp_ask_price := [of_i64 100, of_i64 100] @ replicate 18 0, dp_ask_volume := [of_i64 1, of_i64 5] @ replicate 18 0 \<rparr>"

definition sample_mem :: DepthMem where
  "sample_mem = \<lparr> dm_length = 1000, dm_header_length = 16, dm_used_length = 712, dm_elm_size = 696,
                  dm_data = (\<lambda>_. sample_depth) \<rparr>"

definition matching_broker :: "Side \<Rightarrow> BrokerSim" where
  "matching_broker side = sample_broker\<lparr> sim_enable_slippage := False, sim_enable_commission := False,
     sim_asset := Asset_zero\<lparr> as_avail := of_i64 100 \<rparr>,
     sim_orders := [(11, sample_order\<lparr> od_side := side \<rparr>)] \<rparr>"

lemma min_valid: "MIN_VALID_PRICE < of_i64 100" "MIN_VALID_VOLUME < of_i64 1" "MIN_VALID_VOLUME < of_i64 5"
proof -
  have q: "fl (1 / 1000000) \<le> fl (1 / 2)" by (rule fl_mono) simp
  have h: "fl (1 / 2) = 1 / 2" using mk_fractions(5) by (simp add: on_grid_def)
  have n: "0 \<le> fl (1 / 1000000)" by (rule fl_nonneg) simp
  then have *: "is_finite (lit (1 / 1000000)) \<and> val (lit (1 / 1000000)) \<le> 1 / 2"
    using q h by (auto simp: lit_def mk_def Let_def)
  show "MIN_VALID_PRICE < of_i64 100" "MIN_VALID_VOLUME < of_i64 1" "MIN_VALID_VOLUME < of_i64 5"
    using * by (simp_all add: MIN_VALID_PRICE_def MIN_VALID_VOLUME_def less_fin del: of_i64_1)
qed

lemma sample_depth_of: "depth_of sample_mem (sample_order\<lparr> od_side := side \<rparr>) (matching_broker side) =
    depth_assign (InstrumentDepth_zero DEPTH_LEVELS) sample_depth"
proof -
  have "scan_board (dm_data sample_mem) (hash_str_32 (arr_str (''IF2401'' @ arr_zero 26))) 16 712 = 16"
    by (subst scan_board.simps) (simp add: DEPTH_SIZE_def sample_mem_def sample_depth_def)
  then show ?thesis
    by (simp add: depth_of_def board_get_def matching_broker_def sample_broker_def BrokerSim_new_def
        sample_mem_def sample_order_def DEPTH_SIZE_def Let_def)
qed

lemma sample_levels: "build_price_levels (depth_assign (InstrumentDepth_zero DEPTH_LEVELS) sample_depth) side =
    [(of_i64 100, of_i64 1), (of_i64 100, of_i64 5)]"
  using min_valid by (simp add: build_price_levels_def side_levels_def depth_assign_def sample_depth_def MAX_DEPTH_LEVELS_def)

lemma match_conserves_whole_lots_witness:
  "\<exists>s'. match_order_with_market_data sample_mem 11 (matching_broker Side_Sell) = Some s' \<and>
     (\<exists>m b. 0 \<le> m \<and> m \<le> 2 \<and> omap_find (sim_orders s') 11 = Some b \<and> od_volume_left b = of_i64 (2 - m))"
proof -
  have f: "omap_find (sim_orders (matching_broker Side_Sell)) 11 = Some (sample_order\<lparr> od_side := Side_Sell \<rparr>)"
    by (simp add: matching_broker_def)
  obtain s' where s': "match_order_with_market_data sample_mem 11 (matching_broker Side_Sell) = Some s'"
    using match_order_defined [of "matching_broker Side_Sell" 11 sample_mem] f
    by (auto simp: matching_broker_def sample_broker_def)
  have "\<forall>(p, v) \<in> set (build_price_levels (depth_of sample_mem (sample_order\<lparr> od_side := Side_Sell \<rparr>)
      (matching_broker Side_Sell)) (od_side (sample_order\<lparr> od_side := Side_Sell \<rparr>))). whole v"
    unfolding sample_depth_of sample_levels whole_def by (auto intro: exI [of _ 1] exI [of _ 5])
  moreover have "dp_real_depth_size (depth_of sample_mem (sample_order\<lparr> od_side := Side_Sell \<rparr>)
      (matching_broker Side_Sell)) \<noteq> 0"
    by (simp add: sample_depth_of depth_assign_def sample_depth_def)
  moreover have "od_order_id (sample_order\<lparr> od_side := Side_Sell \<rparr>) = 11"
    "od_volume_left (sample_order\<lparr> od_side := Side_Sell \<rparr>) = of_i64 2"
    by (simp_all add: sample_order_def)
  ultimately show ?thesis
    using match_conserves_whole_lots [OF f _ _ _ _ _ _ s', of 2] s' by fastforce
qed

lemma no_depth_sell_limit:
  assumes "omap_find (sim_orders s) k = Some order" "od_price_type order = Price_Limit"
    "od_side order \<noteq> Side_Buy \<or> \<not> as_avail (sim_asset s) < od_limit_price order * od_volume_left order"
  shows "handle_no_depth_execution k s =
    execute_summary_trade k (fst (generate_summary_trade order (od_limit_price order) (od_volume_left order) s))
      (snd (generate_summary_trade order (od_limit_price order) (od_volume_left order) s))"
  using assms by (auto simp: handle_no_depth_execution_def split_beta)

lemma minus_zero: "\<lbrakk> wf_double a; 0 < a \<rbrakk> \<Longrightarrow> a - 0 = a"
  by (cases a rule: double_exhaust) (auto simp: f64_ops fsub_def flt_key mk_self)

text \<open>An order for less than one lot never completes. Matched at its limit without depth data, a
  sell order for a fraction of a lot keeps its whole open volume and stays active, while its trade
  is booked: the next pass executes it again.\<close>

theorem fractional_order_never_completes:
  assumes "omap_find (sim_orders s) k = Some order" "od_order_id order = k" "sim_writers s \<noteq> NoChannel"
    "\<not> done_status (od_status order)" "od_price_type order = Price_Limit" "od_side order = Side_Sell"
    "wf_double (od_volume_left order)" "0 < od_volume_left order" "od_volume_left order < 1"
    "dp_real_depth_size (depth_of mem order s) = 0"
  shows "\<exists>s' b. match_one mem k s = Some s' \<and> omap_find (sim_orders s') k = Some b \<and>
    od_volume_left b = od_volume_left order \<and> od_status b = OS_PartialFilledActive \<and> progressed order b \<and>
    (\<exists>t. tr_volume t = od_volume_left order \<and> tr_price t = od_limit_price order \<and> tr_side t = Side_Sell \<and>
       as_avail (sim_asset s') = avail_after (sim_enable_commission s) t (as_avail (sim_asset s)))"
proof -
  define s1 where "s1 = with_board mem order s"
  define g where "g = generate_summary_trade order (od_limit_price order) (od_volume_left order) s1"
  have f1: "omap_find (sim_orders s1) k = Some order" using assms(1) by (simp add: s1_def)
  have fg: "omap_find (sim_orders (snd g)) k = Some order" using f1 by (simp add: g_def)
  have fin: "is_finite (od_volume_left order)"
    using assms(8,9) by (cases "od_volume_left order" rule: double_exhaust) (auto simp: f64_ops flt_key)
  then have tz: "i64_of (od_volume_left order) = 0"
    using assms(8,9) by (intro i64_of_zero_below_one double_less_imp_le) simp_all
  then have left: "od_volume_left order - of_i64 (i64_of (tr_volume (fst g))) = od_volume_left order"
    using assms(7,8) by (simp add: g_def minus_zero)
  have nz: "\<not> feq (od_volume_left order) 0"
    using assms(8) fin by (simp add: feq_fin less_fin)
  obtain s' where ex: "execute_summary_trade k (fst g) (snd g) = Some s'"
    using execute_defined [of "snd g" k "fst g"] fg assms(3) by (auto simp: g_def s1_def)
  have "match_order_with_market_data mem k s = Some s'"
    using match_order_eq [OF assms(1) refl refl] assms(5,6,10) no_depth_sell_limit [OF f1] ex
    by (simp add: s1_def g_def)
  moreover note e = execute_effect [OF fg assms(2) ex, unfolded left]
  have b: "omap_find (sim_orders s') k = Some (order\<lparr> od_volume_left := od_volume_left order,
      od_status := OS_PartialFilledActive, od_update_time := sim_clock (snd g) (sim_ticks (snd g)) \<rparr>)"
    using e(1) fg nz by simp
  ultimately have one: "match_one mem k s = Some s'"
    using assms(1,4) by (simp add: match_one_def status_of_def)
  have "\<exists>b. omap_find (sim_orders s') k = Some b \<and> od_volume_left b = od_volume_left order \<and>
      od_status b = OS_PartialFilledActive \<and> progressed order b"
    using b by (simp add: progressed_def request_of_def)
  moreover have "tr_volume (fst g) = od_volume_left order \<and> tr_price (fst g) = od_limit_price order \<and>
      tr_side (fst g) = Side_Sell \<and>
      as_avail (sim_asset s') = avail_after (sim_enable_commission s) (fst g) (as_avail (sim_asset s))"
    using e(3) assms(6) by (simp add: g_def s1_def)
  ultimately show ?thesis using one by blast
qed

definition no_depth_mem :: DepthMem where
  "no_depth_mem = fst (board_init 1000 696 True)"

lemma no_depth_mem_depth: "sim_board s = \<lparr> db_is_writing = w, db_positions = [] \<rparr> \<Longrightarrow>
    depth_of no_depth_mem order s = InstrumentDepth_zero DEPTH_LEVELS"
  by (simp add: depth_of_def board_get_def no_depth_mem_def board_init_def scan_board.simps board_consts Let_def)

definition fractional_broker :: BrokerSim where
  "fractional_broker = sample_broker
     \<lparr> sim_orders := [(11, sample_order\<lparr> od_volume := Fin (1 / 2), od_volume_left := Fin (1 / 2) \<rparr>)] \<rparr>"

lemma fractional_order_never_completes_witness:
  "\<exists>s' b. match_one no_depth_mem 11 fractional_broker = Some s' \<and> omap_find (sim_orders s') 11 = Some b \<and>
     od_volume_left b = Fin (1 / 2) \<and> od_status b = OS_PartialFilledActive"
proof -
  have "dp_real_depth_size (depth_of no_depth_mem (sample_order\<lparr> od_volume := Fin (1 / 2), od_volume_left := Fin (1 / 2) \<rparr>)
      fractional_broker) = 0"
    by (subst no_depth_mem_depth [where w = False]) (simp_all add: fractional_broker_def sample_broker_def BrokerSim_new_def InstrumentDepth_zero_def)
  moreover have "0 < Fin (1 / 2)" "Fin (1 / 2) < 1"
    by (simp_all add: f64_ops flt_def)
  ultimately show ?thesis
    using fractional_order_never_completes [of fractional_broker 11
        "sample_order\<lparr> od_volume := Fin (1 / 2), od_volume_left := Fin (1 / 2) \<rparr>" no_depth_mem]
    by (force simp: fractional_broker_def sample_broker_def sample_order_def Order_zero_def done_status_def)
qed

text \<open>A single buy never overdraws. Without commission, a buy order executed at its limit price
  without depth data leaves available cash that was not negative not negative: either the order
  is marked as failed and the cash stays, or the cash paid is at most the cash there was.\<close>

theorem no_depth_buy_keeps_cash:
  assumes "omap_find (sim_orders s) k = Some order" "od_order_id order = k"
    "od_price_type order = Price_Limit" "od_side order = Side_Buy" "\<not> sim_enable_commission s"
    "is_finite (as_avail (sim_asset s))" "is_finite (od_limit_price order * od_volume_left order)"
    "0 \<le> as_avail (sim_asset s)" "handle_no_depth_execution k s = Some s'"
  shows "0 \<le> as_avail (sim_asset s')"
proof (cases "as_avail (sim_asset s) < od_limit_price order * od_volume_left order")
  case True
  then have "s' = update_order_status k OS_Error s"
    using assms by (simp add: handle_no_depth_execution_def)
  with assms(8) show ?thesis by simp
next
  case False
  define g where "g = generate_summary_trade order (od_limit_price order) (od_volume_left order) s"
  have ex: "execute_summary_trade k (fst g) (snd g) = Some s'"
    using no_depth_sell_limit [OF assms(1,3)] False assms(9) by (simp add: g_def)
  have fg: "omap_find (sim_orders (snd g)) k = Some order" using assms(1) by (simp add: g_def)
  have le: "od_limit_price order * od_volume_left order \<le> as_avail (sim_asset s)"
    using False assms(6,7) by (simp add: less_fin le_fin)
  have "as_avail (sim_asset s') = as_avail (sim_asset s) - od_limit_price order * od_volume_left order"
    using execute_effect(3) [OF fg assms(2) ex] assms(4,5) by (simp add: g_def avail_after_def)
  then show ?thesis using sub_nonneg [OF assms(6,7) le] by simp
qed

lemma no_depth_buy_keeps_cash_witness:
  "\<exists>s'. handle_no_depth_execution 11 (matching_broker Side_Buy) = Some s' \<and> 0 \<le> as_avail (sim_asset s')"
proof -
  have f: "omap_find (sim_orders (matching_broker Side_Buy)) 11 = Some (sample_order\<lparr> od_side := Side_Buy \<rparr>)"
    by (simp add: matching_broker_def)
  obtain s' where s': "handle_no_depth_execution 11 (matching_broker Side_Buy) = Some s'"
    using no_depth_defined [of "matching_broker Side_Buy" 11] f
    by (auto simp: matching_broker_def sample_broker_def)
  have m: "of_i64 100 * of_i64 2 = of_i64 200" by (simp add: of_i64_times)
  show ?thesis
    using no_depth_buy_keeps_cash [OF f _ _ _ _ _ _ _ s'] s'
    by (simp add: sample_order_def Order_zero_def matching_broker_def m of_i64_le [of 0, simplified])
qed

lemma overdraw_fill:
  "fill_of (with_board sample_mem (sample_order\<lparr> od_side := Side_Buy \<rparr>) (matching_broker Side_Buy))
     (sample_order\<lparr> od_side := Side_Buy \<rparr>) [(of_i64 100, of_i64 1), (of_i64 100, of_i64 5)] =
   \<lparr> fl_remaining = of_i64 0, fl_weighted = of_i64 200, fl_total = of_i64 2,
     fl_executed = [(of_i64 100, of_i64 1), (of_i64 100, of_i64 1)] \<rparr>"
  by (simp add: fill_of_def apply_slippage_def can_execute_order_def check_funds_sufficiency_def
      matching_broker_def sample_order_def Order_zero_def fmin_whole of_i64_arith of_i64_0 [symmetric] Let_def
      del: of_i64_0 of_i64_1)


text \<open>Several levels together can overdraw. Every level is checked against the cash before the
  match, so with cash for one lot and two levels of one lot each, the buy of two lots is executed
  and the cash falls below zero.\<close>

theorem matching_can_overdraw:
  "as_avail (sim_asset (matching_broker Side_Buy)) = of_i64 100 \<and>
   (\<exists>s'. match_order_with_market_data sample_mem 11 (matching_broker Side_Buy) = Some s' \<and>
         as_avail (sim_asset s') = of_i64 (- 100))"
proof -
  define order where "order = sample_order\<lparr> od_side := Side_Buy \<rparr>"
  define s where "s = with_board sample_mem order (matching_broker Side_Buy)"
  define f where "f = fill_of s order [(of_i64 100, of_i64 1), (of_i64 100, of_i64 5)]"
  define t s2 where "t = fst (summary_of s order f)" and "s2 = snd (summary_of s order f)"
  have find: "omap_find (sim_orders (matching_broker Side_Buy)) 11 = Some order"
    by (simp add: matching_broker_def order_def)
  have f: "fl_total f = of_i64 2" "fl_weighted f = of_i64 200"
    unfolding f_def s_def order_def overdraw_fill by simp_all
  have lv: "build_price_levels (depth_of sample_mem order (matching_broker Side_Buy)) (od_side order) =
      [(of_i64 100, of_i64 1), (of_i64 100, of_i64 5)]"
    unfolding order_def sample_depth_of sample_levels by (rule refl)
  have d: "dp_real_depth_size (depth_of sample_mem order (matching_broker Side_Buy)) \<noteq> 0"
    unfolding order_def sample_depth_of by (simp add: depth_assign_def sample_depth_def)
  have pos: "fl_total f > 0" unfolding f using of_i64_less [of 0 2] by simp
  have avg: "of_i64 200 / of_i64 2 = of_i64 100"
    by (simp add: div_fin of_i64_Fin)
  have f2: "omap_find (sim_orders s2) 11 = Some order" using find by (simp add: s2_def s_def)
  have "sim_writers s2 \<noteq> NoChannel"
    by (simp add: s2_def s_def summary_of_def matching_broker_def sample_broker_def)
  then obtain s' where ex: "execute_summary_trade 11 t s2 = Some s'"
    using execute_defined [of s2 11 t] f2 by auto
  have "match_order_with_market_data sample_mem 11 (matching_broker Side_Buy) = Some s'"
    using match_order_eq [OF find s_def refl] d lv pos ex by (simp add: f_def t_def s2_def)
  moreover have "as_avail (sim_asset s') = of_i64 (- 100)"
  proof -
    have "od_order_id order = 11" by (simp add: order_def sample_order_def)
    from execute_effect(3) [OF f2 this ex]
    have "as_avail (sim_asset s') = of_i64 100 - of_i64 100 * of_i64 2"
      using f avg by (simp add: avail_after_def t_def s2_def s_def summary_of_def matching_broker_def order_def)
    then show ?thesis by (simp add: of_i64_arith)
  qed
  ultimately show ?thesis by (simp add: matching_broker_def)
qed

text \<open>Selling never closes. Whatever is sold, executing a sell trade leaves every long position as it
  is and grows or creates a short one; a buy leaves the short side as it is.\<close>

theorem execute_never_closes:
  assumes "omap_find (sim_orders s) k = Some order" "od_order_id order = k"
    "execute_summary_trade k t s = Some s'"
  shows "(tr_side t = Side_Sell \<longrightarrow> pb_long (sim_positions s') = pb_long (sim_positions s)) \<and>
    (tr_side t = Side_Buy \<longrightarrow> pb_short (sim_positions s') = pb_short (sim_positions s))"
proof -
  obtain now where "sim_positions s' = positions_after now t (sim_positions s)"
    using execute_effect(2) [OF assms] by blast
  then show ?thesis
    by (auto simp: positions_after_def positions_set_def new_position_def Let_def split: option.splits)
qed

definition sample_sim_trade :: Trade where
  "sample_sim_trade = sample_sell\<lparr> tr_volume := of_i64 1 \<rparr>"

lemma execute_never_closes_witness:
  "\<exists>s'. execute_summary_trade 11 sample_sim_trade (matching_broker Side_Sell) = Some s' \<and>
     pb_long (sim_positions s') = pb_long (sim_positions (matching_broker Side_Sell))"
proof -
  have f: "omap_find (sim_orders (matching_broker Side_Sell)) 11 = Some (sample_order\<lparr> od_side := Side_Sell \<rparr>)"
    by (simp add: matching_broker_def)
  obtain s' where s': "execute_summary_trade 11 sample_sim_trade (matching_broker Side_Sell) = Some s'"
    using execute_defined [of "matching_broker Side_Sell" 11 sample_sim_trade] f
    by (auto simp: matching_broker_def sample_broker_def)
  have o: "od_order_id (sample_order\<lparr> od_side := Side_Sell \<rparr>) = 11" by (simp add: sample_order_def)
  show ?thesis
    using execute_never_closes [OF f o s'] s' by (simp add: sample_sim_trade_def sample_sell_def)
qed

text \<open>Slippage is never in the trader's favour. With a rate between 0 and 1 a buy is priced at or above
  and a sell at or below the base price.\<close>

theorem slippage_unfavourable:
  assumes "is_finite p" "wf_double p" "0 \<le> p" "is_finite (sim_slippage_rate s)" "0 \<le> sim_slippage_rate s"
    "sim_slippage_rate s \<le> 1"
  shows "p \<le> apply_slippage s p Side_Buy \<and> apply_slippage s p Side_Sell \<le> p"
proof (cases "sim_enable_slippage s")
  case True
  let ?r = "sim_slippage_rate s"
  have one: "is_finite 1" "wf_double 1" "val 1 = 1" by (simp_all add: one_double_def int_on_grid [of 1, simplified])
  have up: "1 \<le> 1 + ?r" using add_nonneg_le(1) [of 1 ?r] one assms by simp
  have down: "1 - ?r \<le> 1" using add_nonneg_le(2) [of 1 ?r] one assms by simp
  have lo: "0 \<le> 1 - ?r" using sub_nonneg [of 1 ?r] one assms by simp
  have v: "0 \<le> val p" using assms by (simp add: le_fin)
  have fu: "is_finite (1 + ?r)"
  proof -
    have "1 + ?r \<le> of_i64 2"
    proof -
      have "1 + ?r = mk False (1 + val ?r)" using assms one by (auto simp: add_fin one_double_def)
      also have "\<dots> \<le> mk False 2" using assms one by (intro mk_mono) (simp add: le_fin)
      finally show ?thesis by (simp add: of_i64_def)
    qed
    with up show ?thesis by (cases "1 + ?r" rule: double_exhaust) (auto simp: le_key of_i64_Fin one_double_def)
  qed
  have fl: "is_finite (1 - ?r)"
    using lo down by (cases "1 - ?r" rule: double_exhaust) (auto simp: le_key one_double_def zero_double_def)
  have "p \<le> p * (1 + ?r)"
  proof -
    have "val p * 1 \<le> val p * val (1 + ?r)" using up fu one v by (intro mult_left_mono) (simp_all add: le_fin)
    then show ?thesis using assms fu by (auto simp: mul_fin intro: mk_val_le)
  qed
  moreover have "p * (1 - ?r) \<le> p"
  proof -
    have "val p * val (1 - ?r) \<le> val p * 1" using down fl one v by (intro mult_left_mono) (simp_all add: le_fin)
    then show ?thesis using assms fl by (auto simp: mul_fin intro: mk_val_ge)
  qed
  ultimately show ?thesis using True by (simp add: apply_slippage_def)
next
  case False
  then show ?thesis using assms by (simp add: apply_slippage_def le_fin)
qed

lemma slippage_unfavourable_witness:
  "of_i64 100 \<le> apply_slippage (sample_broker\<lparr> sim_slippage_rate := Fin (1 / 4) \<rparr>) (of_i64 100) Side_Buy"
  using slippage_unfavourable [of "of_i64 100" "sample_broker\<lparr> sim_slippage_rate := Fin (1 / 4) \<rparr>"]
  by (simp add: le_fin one_double_def)

text \<open>A pass ends. Unless the response channel is missing, matching every order of the broker
  against any memory returns, and the channel is still there.\<close>

theorem matching_pass_total:
  assumes "sim_writers s \<noteq> NoChannel"
  shows "\<exists>s'. process_order_matching mem s = Some s' \<and> sim_writers s' = sim_writers s"
  unfolding process_order_matching_def by (rule match_keys_defined [OF assms])

lemma matching_pass_total_witness:
  "\<exists>s'. process_order_matching sample_mem (matching_broker Side_Buy) = Some s' \<and> sim_writers s' = HasChannel"
  using matching_pass_total [of "matching_broker Side_Buy" sample_mem]
  by (simp add: matching_broker_def sample_broker_def)

section \<open>Runs of the broker\<close>

datatype SimOp =
  Sim_Insert OrderInput | Sim_Cancel OrderCancel | Sim_Match DepthMem | Sim_Start | Sim_Stop

fun sim_step :: "SimOp \<Rightarrow> BrokerSim \<Rightarrow> BrokerSim option" where
  "sim_step (Sim_Insert oi) s = Some (snd (insert_order oi s))"
| "sim_step (Sim_Cancel oc) s = Some (snd (cancel_order oc s))"
| "sim_step (Sim_Match mem) s = process_order_matching mem s"
| "sim_step Sim_Start s = Some (sim_start s)"
| "sim_step Sim_Stop s = Some (sim_stop s)"

primrec sim_run :: "SimOp list \<Rightarrow> BrokerSim \<Rightarrow> BrokerSim option" where
  "sim_run [] s = Some s"
| "sim_run (x # xs) s = (case sim_step x s of None \<Rightarrow> None | Some s' \<Rightarrow> sim_run xs s')"

fun inserts :: "u64 \<Rightarrow> SimOp \<Rightarrow> bool" where
  "inserts k (Sim_Insert oi) \<longleftrightarrow> oi_order_id oi = k"
| "inserts k _ \<longleftrightarrow> False"

lemma notify_or_false_orders [simp]: "sim_orders (snd (notify_or_false r msg s)) = sim_orders s"
  by (auto simp: notify_or_false_def dest: notify_sel split: option.splits)

lemma cancel_orders:
  "sim_orders (snd (cancel_order oc s)) =
     (case omap_find (sim_orders s) (oc_target_order_id oc) of
        None \<Rightarrow> sim_orders s
      | Some a \<Rightarrow> if cancellable (od_status a)
                 then sim_orders (update_order_status (oc_target_order_id oc) OS_Cancelled s)
                 else sim_orders s)"
  by (simp add: cancel_order_def split: option.split)

lemma keyed_assign:
  "orders_keyed m \<Longrightarrow> od_order_id (asg (omap_slot z m k) v) = k \<Longrightarrow> orders_keyed (omap_assign asg z k v m)"
  by (auto simp: orders_keyed_def)

lemma keyed_step [inv_intros]:
  assumes "orders_keyed (sim_orders s)" "sim_step x s = Some s'"
  shows "orders_keyed (sim_orders s')"
proof (cases x)
  case (Sim_Insert oi)
  with assms show ?thesis
    by (auto simp: insert_order_def add_order_def Let_def Order_assign_def submitted_order_def
        order_from_input_def intro!: keyed_assign)
next
  case (Sim_Cancel oc)
  with assms show ?thesis
    by (auto simp: cancel_orders orders_keyed_def split: option.splits if_splits)
next
  case (Sim_Match mem)
  with assms show ?thesis by (auto dest: pass_effect(1))
qed (use assms in \<open>auto simp: sim_start_def sim_stop_def\<close>)

lemma cancelled_step:
  assumes "orders_keyed (sim_orders s)" "omap_find (sim_orders s) k = Some a" "od_status a = OS_Cancelled"
    "\<not> inserts k x" "sim_step x s = Some s'"
  shows "omap_find (sim_orders s') k = Some a"
proof (cases x)
  case (Sim_Insert oi)
  with assms show ?thesis
    by (auto simp: insert_order_def add_order_def Let_def submitted_order_def order_from_input_def)
next
  case (Sim_Cancel oc)
  with assms show ?thesis by (auto simp: cancel_orders cancellable_def split: option.splits)
next
  case (Sim_Match mem)
  with assms(5) have "process_order_matching mem s = Some s'" by simp
  from pass_effect(3) [OF assms(1) this assms(2)] assms(3) show ?thesis
    by (simp add: pass_outcome_def done_status_def)
qed (use assms in \<open>auto simp: sim_start_def sim_stop_def\<close>)

text \<open>A cancelled order is kept for ever. In every run that does not insert its id again it stays in the
  map, unchanged; no pass removes it, although the pass means to remove finished orders.\<close>

theorem cancelled_never_removed:
  assumes "orders_keyed (sim_orders s)" "omap_find (sim_orders s) k = Some a" "od_status a = OS_Cancelled"
    "\<not> list_ex (inserts k) xs" "sim_run xs s = Some s'"
  shows "omap_find (sim_orders s') k = Some a"
  using assms
proof (induction xs arbitrary: s)
  case (Cons x xs)
  then obtain s1 where s1: "sim_step x s = Some s1" "sim_run xs s1 = Some s'"
    by (auto split: option.splits)
  from Cons.IH [OF keyed_step [OF Cons.prems(1) s1(1)]
      cancelled_step [OF Cons.prems(1-3) _ s1(1)] Cons.prems(3) _ s1(2)] Cons.prems(4)
  show ?case by simp
qed simp

lemma cancelled_never_removed_witness:
  "omap_find (sim_orders cancelled_broker) 11 \<noteq> None \<and>
   sim_run [Sim_Match no_depth_mem, Sim_Match no_depth_mem, Sim_Stop] cancelled_broker = Some cancelled_broker"
proof -
  have k: "orders_keyed (sim_orders cancelled_broker)"
    by (auto simp: orders_keyed_def cancelled_broker_def submitted_order_def order_from_input_def
        sample_input_def split: if_splits)
  have p: "process_order_matching no_depth_mem cancelled_broker = Some cancelled_broker"
    by (simp add: process_order_matching_def cancelled_broker_def match_one_def status_of_def done_status_def)
  have r: "sim_run [Sim_Match no_depth_mem, Sim_Match no_depth_mem, Sim_Stop] cancelled_broker = Some cancelled_broker"
    using p by (simp add: sim_stop_def) (simp add: cancelled_broker_def sample_broker_def BrokerSim_new_def)
  have f: "omap_find (sim_orders cancelled_broker) 11 =
      Some ((submitted_order sample_input)\<lparr> od_status := OS_Cancelled \<rparr>)"
    by (simp add: cancelled_broker_def)
  show ?thesis
    using cancelled_never_removed [OF k f _ _ r] r by simp
qed

text \<open>From the new broker on, every order is stored under its own id, in increasing order.\<close>

theorem broker_orders_keyed:
  assumes "sim_run xs (BrokerSim_new clock rand) = Some s"
  shows "orders_keyed (sim_orders s)"
proof -
  have "orders_keyed (sim_orders s')" if "orders_keyed (sim_orders s0)" "sim_run xs s0 = Some s'" for xs s0 s'
    using that by (induction xs arbitrary: s0) (auto split: option.splits intro: keyed_step)
  from this [OF _ assms] show ?thesis by (simp add: BrokerSim_new_def)
qed

lemma broker_orders_keyed_witness:
  "orders_keyed (sim_orders (snd (insert_order sample_input (BrokerSim_new (\<lambda>n. int n) (\<lambda>_. 0)))))"
  using broker_orders_keyed [of "[Sim_Insert sample_input]" "\<lambda>n. int n" "\<lambda>_. 0"] by simp

end
