(* ===== verification/Messages.thy ===== *)
theory Messages
  imports Book
begin

text \<open>
  The messages the engines exchange over the journals (src/core/types.h), those of them the engines
  act on with their data, as one datatype: an event is its tag and its data. The remaining structs
  that are only passed through are kept as their tag.
\<close>

text \<open>The quote, its fields in four groups, each extending the one before.\<close>

record QuoteHead =
  qt_trading_day :: carr
  qt_data_time :: int
  qt_instrument_id :: carr
  qt_exchange_id :: carr
  qt_instrument_type :: InstrumentType

record QuotePrices = QuoteHead +
  qt_pre_close_price :: double
  qt_pre_settlement_price :: double
  qt_last_price :: double
  qt_volume :: volume_type
  qt_turnover :: double
  qt_pre_open_interest :: double
  qt_open_interest :: double
  qt_open_price :: double
  qt_high_price :: double
  qt_low_price :: double

record QuoteLimits = QuotePrices +
  qt_upper_limit_price :: double
  qt_lower_limit_price :: double
  qt_close_price :: double
  qt_settlement_price :: double
  qt_iopv :: double

record Quote = QuoteLimits +
  qt_bid_price :: "double list"
  qt_ask_price :: "double list"
  qt_bid_volume :: "volume_type list"
  qt_ask_volume :: "volume_type list"
  qt_real_depth_size :: u32
  qt_trading_phase_code :: carr

datatype AccountReqType = AR_Status | AR_OrderBook | AR_Order | AR_PositionBook

record AccountReq =
  rq_id :: u64
  rq_type :: AccountReqType
  rq_instrument_id :: carr
  rq_target_id :: u64
  rq_insert_time :: int

record MDSubscribe =
  sub_id :: u32
  sub_instrument_keys :: "InstrumentKey list"

datatype Event =
    Ev_Termination
  | Ev_TradingStart int
  | Ev_TradingDay int
  | Ev_Sync SyncFlag
  | Ev_MDSubscribe MDSubscribe
  | Ev_OrderInput OrderInput
  | Ev_OrderCancel OrderCancel
  | Ev_AccountReq AccountReq
  | Ev_Bar Bar
  | Ev_Quote Quote
  | Ev_Trade Trade
  | Ev_OrderActionResp OrderActionResp
  | Ev_Asset Asset
  | Ev_AssetMargin AssetMargin
  | Ev_Passed MsgTag
  | Ev_Custom nat

fun event_tag :: "Event \<Rightarrow> nat" where
  "event_tag Ev_Termination = tag_num Tag_Termination"
| "event_tag (Ev_TradingStart _) = tag_num Tag_TradingStart"
| "event_tag (Ev_TradingDay _) = tag_num Tag_TradingDay"
| "event_tag (Ev_Sync _) = tag_num Tag_BacktestSyncSignal"
| "event_tag (Ev_MDSubscribe _) = tag_num Tag_MDSubscribe"
| "event_tag (Ev_OrderInput _) = tag_num Tag_OrderInput"
| "event_tag (Ev_OrderCancel _) = tag_num Tag_OrderCancel"
| "event_tag (Ev_AccountReq _) = tag_num Tag_AccountReq"
| "event_tag (Ev_Bar _) = tag_num Tag_Bar"
| "event_tag (Ev_Quote _) = tag_num Tag_Quote"
| "event_tag (Ev_Trade _) = tag_num Tag_Trade"
| "event_tag (Ev_OrderActionResp _) = tag_num Tag_OrderActionResp"
| "event_tag (Ev_Asset _) = tag_num Tag_Asset"
| "event_tag (Ev_AssetMargin _) = tag_num Tag_AssetMargin"
| "event_tag (Ev_Passed t) = tag_num t"
| "event_tag (Ev_Custom n) = TAG_MAX_SIZE + n"

end
