(* ===== verification/Csv.thy ===== *)
theory Csv
  imports Prelude
begin

text \<open>
  Comma-separated files (src/infra/csv.h, csv.cpp). The writer collects output in a buffer of a
  chosen size and moves it to the file when the next field would not fit; the reader takes the
  file line by line and splits each line with a small state machine over its characters.

  A file is the list of its characters. Opening succeeds and no write fails: an error of the file
  system is outside the model, as is \<open>set_buffer_size\<close> (it reallocates the buffer under the data
  that waits in it). The code only reserves \<open>write_buffer_\<close>, so its size stays 0 and indexing it behind
  that size is formally undefined; the model is of the memory it addresses, which the reservation gives it. \<open>std::getline\<close> sets the end-of-file state when it meets the end of the text
  and the failure state when it finds nothing at all.
\<close>

section \<open>The writer\<close>

record CSVWriter =
  cw_delimiter :: char
  cw_quote :: char
  cw_header_written :: bool
  cw_buffer_size :: nat
  cw_buffer :: string
  cw_file :: string
  cw_open :: bool

definition CSVWriter_new :: "char \<Rightarrow> char \<Rightarrow> nat \<Rightarrow> CSVWriter" where
  "CSVWriter_new delimiter quote buffer_size =
     \<lparr> cw_delimiter = delimiter, cw_quote = quote, cw_header_written = False,
       cw_buffer_size = buffer_size, cw_buffer = [], cw_file = [], cw_open = True \<rparr>"

definition cw_flush :: "CSVWriter \<Rightarrow> CSVWriter" where
  "cw_flush w =
     (if cw_open w \<and> length (cw_buffer w) > 0
      then w\<lparr> cw_file := cw_file w @ cw_buffer w, cw_buffer := [] \<rparr> else w)"

definition write_field :: "string \<Rightarrow> CSVWriter \<Rightarrow> CSVWriter" where
  "write_field field w =
     (let w = (if length (cw_buffer w) + length field > cw_buffer_size w then cw_flush w else w)
      in if length field \<le> cw_buffer_size w
         then w\<lparr> cw_buffer := cw_buffer w @ field \<rparr>
         else let w = cw_flush w in w\<lparr> cw_file := cw_file w @ field \<rparr>)"

fun write_fields :: "bool \<Rightarrow> string list \<Rightarrow> CSVWriter \<Rightarrow> CSVWriter" where
  "write_fields begun [] w = w"
| "write_fields begun (f # fs) w =
     write_fields True fs (write_field f (if begun then write_field [cw_delimiter w] w else w))"

definition write_row :: "string list \<Rightarrow> CSVWriter \<Rightarrow> bool \<times> CSVWriter" where
  "write_row row w =
     (if \<not> cw_open w then (False, w)
      else (True, write_field [CHR 0x0A] (write_fields False row w)))"

definition write_header :: "string list \<Rightarrow> CSVWriter \<Rightarrow> bool \<times> CSVWriter" where
  "write_header headers w =
     (if \<not> cw_open w then (False, w)
      else if cw_header_written w then (False, w)
      else let (success, w) = write_row headers w
           in (success, if success then w\<lparr> cw_header_written := True \<rparr> else w))"

primrec write_rows_loop :: "string list list \<Rightarrow> CSVWriter \<Rightarrow> bool \<times> CSVWriter" where
  "write_rows_loop [] w = (True, w)"
| "write_rows_loop (row # rows) w =
     (let (ok, w) = write_row row w in if \<not> ok then (False, w) else write_rows_loop rows w)"

definition write_rows :: "string list list \<Rightarrow> CSVWriter \<Rightarrow> bool \<times> CSVWriter" where
  "write_rows rows w = (if \<not> cw_open w then (False, w) else write_rows_loop rows w)"

definition cw_close :: "CSVWriter \<Rightarrow> CSVWriter" where
  "cw_close w = (cw_flush w)\<lparr> cw_open := False \<rparr>"

text \<open>The escaping of a field, which the class defines and no writing operation calls.\<close>

definition needs_quotes :: "char \<Rightarrow> char \<Rightarrow> string \<Rightarrow> bool" where
  "needs_quotes delimiter quote field \<longleftrightarrow>
     delimiter \<in> set field \<or> quote \<in> set field \<or> CHR 0x0A \<in> set field \<or> CHR 0x0D \<in> set field"

primrec double_quotes :: "char \<Rightarrow> string \<Rightarrow> string" where
  "double_quotes quote [] = []"
| "double_quotes quote (c # cs) = (if c = quote then [quote, c] else [c]) @ double_quotes quote cs"

definition escape_field :: "char \<Rightarrow> char \<Rightarrow> string \<Rightarrow> string" where
  "escape_field delimiter quote field =
     (if \<not> needs_quotes delimiter quote field then field
      else [quote] @ double_quotes quote field @ [quote])"

section \<open>The reader\<close>

fun collapse_quotes :: "char \<Rightarrow> string \<Rightarrow> string" where
  "collapse_quotes quote (a # b # cs) =
     (if a = quote \<and> b = quote then quote # collapse_quotes quote cs
      else a # collapse_quotes quote (b # cs))"
| "collapse_quotes quote cs = cs"

definition unescape_field :: "char \<Rightarrow> string \<Rightarrow> string" where
  "unescape_field quote field =
     (if field = [] \<or> hd field \<noteq> quote \<or> last field \<noteq> quote then field
      else collapse_quotes quote (take (length field - 2) (drop 1 field)))"

text \<open>The loop over the characters of a line.\<close>

fun parse_chars :: "char \<Rightarrow> char \<Rightarrow> string \<Rightarrow> bool \<Rightarrow> string \<Rightarrow> string list \<Rightarrow> string list" where
  "parse_chars delimiter quote [] in_quotes cur fs = fs @ [unescape_field quote cur]"
| "parse_chars delimiter quote (c # cs) in_quotes cur fs =
     (if c = quote then
        (if in_quotes \<and> cs \<noteq> [] \<and> hd cs = quote
         then parse_chars delimiter quote (tl cs) in_quotes (cur @ [quote]) fs
         else parse_chars delimiter quote cs (\<not> in_quotes) cur fs)
      else if c = delimiter \<and> \<not> in_quotes
      then parse_chars delimiter quote cs in_quotes [] (fs @ [unescape_field quote cur])
      else parse_chars delimiter quote cs in_quotes (cur @ [c]) fs)"

definition parse_line_into :: "char \<Rightarrow> char \<Rightarrow> string \<Rightarrow> bool \<times> string list" where
  "parse_line_into delimiter quote line =
     (if line = [] then (False, []) else (True, parse_chars delimiter quote line False [] []))"

definition parse_line :: "char \<Rightarrow> char \<Rightarrow> string \<Rightarrow> string list" where
  "parse_line delimiter quote line = snd (parse_line_into delimiter quote line)"

record CSVReader =
  cr_delimiter :: char
  cr_quote :: char
  cr_headers :: "string list"
  cr_header_read :: bool
  cr_text :: string
  cr_rest :: string
  cr_eof :: bool
  cr_fail :: bool
  cr_file_open :: bool

definition CSVReader_new :: "char \<Rightarrow> char \<Rightarrow> string \<Rightarrow> CSVReader" where
  "CSVReader_new delimiter quote content =
     \<lparr> cr_delimiter = delimiter, cr_quote = quote, cr_headers = [], cr_header_read = False,
       cr_text = content, cr_rest = content, cr_eof = False, cr_fail = False, cr_file_open = True \<rparr>"

definition estimate_row_count :: "CSVReader \<Rightarrow> nat" where
  "estimate_row_count r = length (cr_text r) div 100"

definition cr_is_open :: "CSVReader \<Rightarrow> bool" where
  "cr_is_open r \<longleftrightarrow> cr_file_open r \<and> \<not> cr_eof r \<and> \<not> cr_fail r"

definition getline :: "CSVReader \<Rightarrow> string option \<times> CSVReader" where
  "getline r =
     (let (line, rest) = (takeWhile (\<lambda>c. c \<noteq> CHR 0x0A) (cr_rest r), dropWhile (\<lambda>c. c \<noteq> CHR 0x0A) (cr_rest r))
      in if rest \<noteq> [] then (Some line, r\<lparr> cr_rest := tl rest \<rparr>)
         else if line \<noteq> [] then (Some line, r\<lparr> cr_rest := [], cr_eof := True \<rparr>)
         else (None, r\<lparr> cr_rest := [], cr_eof := True, cr_fail := True \<rparr>))"

definition read_header :: "CSVReader \<Rightarrow> string list \<times> CSVReader" where
  "read_header r =
     (if \<not> cr_is_open r then ([], r)
      else if cr_header_read r then (cr_headers r, r)
      else case getline r of
             (Some line, r) \<Rightarrow>
               let headers = parse_line (cr_delimiter r) (cr_quote r) line
               in (headers, r\<lparr> cr_headers := headers, cr_header_read := True \<rparr>)
           | (None, r) \<Rightarrow> ([], r))"

text \<open>The row given in is left as it is when nothing is read.\<close>

definition read_row_into :: "string list \<Rightarrow> CSVReader \<Rightarrow> bool \<times> string list \<times> CSVReader" where
  "read_row_into row r =
     (if \<not> cr_is_open r then (False, row, r)
      else if \<not> cr_header_read r then (False, row, r)
      else case getline r of
             (Some line, r) \<Rightarrow>
               let (ok, fields) = parse_line_into (cr_delimiter r) (cr_quote r) line in (ok, fields, r)
           | (None, r) \<Rightarrow> (False, row, r))"

definition read_row :: "CSVReader \<Rightarrow> string list \<times> CSVReader" where
  "read_row r =
     (if \<not> cr_is_open r \<or> \<not> cr_header_read r then ([], r)
      else let (ok, row, r) = read_row_into [] r in (if ok then row else [], r))"

lemma getline_shorter:
  "getline r = (Some line, r') \<Longrightarrow> length (cr_rest r') < length (cr_rest r)"
proof -
  assume a: "getline r = (Some line, r')"
  define p where "p = (\<lambda>c. c \<noteq> CHR 0x0A)"
  have l: "length (dropWhile p (cr_rest r)) \<le> length (cr_rest r)" by (rule length_dropWhile_le)
  show ?thesis
  proof (cases "dropWhile p (cr_rest r)")
    case Nil
    then show ?thesis using a unfolding getline_def p_def [symmetric] Let_def by (auto split: if_splits)
  next
    case (Cons c cs)
    then show ?thesis using a l unfolding getline_def p_def [symmetric] Let_def by auto
  qed
qed

lemma read_row_into_shorter:
  "read_row_into row r = (True, row', r') \<Longrightarrow> length (cr_rest r') < length (cr_rest r)"
  by (auto simp: read_row_into_def Let_def split: if_splits option.splits prod.splits dest: getline_shorter)

function read_rows_loop :: "CSVReader \<Rightarrow> string list list \<times> CSVReader" where
  "read_rows_loop r =
     (case read_row_into [] r of
        (ok, row, r') \<Rightarrow>
          if ok then (case read_rows_loop r' of (rows, r'') \<Rightarrow> (row # rows, r'')) else ([], r'))"
  by pat_completeness auto
termination
  by (relation "measure (\<lambda>r. length (cr_rest r))") (auto dest: read_row_into_shorter [OF sym])

declare read_rows_loop.simps [simp del]

definition read_all_rows :: "CSVReader \<Rightarrow> string list list \<times> CSVReader" where
  "read_all_rows r = (if \<not> cr_is_open r \<or> \<not> cr_header_read r then ([], r) else read_rows_loop r)"

definition cr_close :: "CSVReader \<Rightarrow> CSVReader" where
  "cr_close r = r\<lparr> cr_file_open := False \<rparr>"

definition cr_reset :: "CSVReader \<Rightarrow> CSVReader" where
  "cr_reset r =
     (if cr_file_open r
      then r\<lparr> cr_eof := False, cr_fail := False, cr_rest := cr_text r, cr_header_read := False, cr_headers := [] \<rparr>
      else r)"

section \<open>What is written\<close>

text \<open>The text a writer stands for: what is in the file and what waits in the buffer.\<close>

definition cw_text :: "CSVWriter \<Rightarrow> string" where
  "cw_text w = cw_file w @ cw_buffer w"

fun csv_join :: "char \<Rightarrow> string list \<Rightarrow> string" where
  "csv_join d [] = []"
| "csv_join d [f] = f"
| "csv_join d (f # g # fs) = f @ d # csv_join d (g # fs)"

lemma csv_join_Cons: "fs \<noteq> [] \<Longrightarrow> csv_join d (f # fs) = f @ d # csv_join d fs"
  by (cases fs) simp_all

definition csv_line :: "char \<Rightarrow> string list \<Rightarrow> string" where
  "csv_line d row = csv_join d row @ [CHR 0x0A]"

text \<open>Two writers are on the same file if only buffering and the header flag tell them apart.\<close>

definition same_cfg :: "CSVWriter \<Rightarrow> CSVWriter \<Rightarrow> bool" where
  "same_cfg w w' \<longleftrightarrow> cw_delimiter w' = cw_delimiter w \<and> cw_quote w' = cw_quote w \<and>
     cw_buffer_size w' = cw_buffer_size w \<and> cw_open w' = cw_open w \<and>
     cw_header_written w' = cw_header_written w"

lemma same_cfg_refl [simp]: "same_cfg w w"
  and same_cfg_trans: "same_cfg w w' \<Longrightarrow> same_cfg w' w'' \<Longrightarrow> same_cfg w w''"
  by (simp_all add: same_cfg_def)

lemma cw_flush_text: "cw_open w \<Longrightarrow> cw_text (cw_flush w) = cw_text w \<and> cw_buffer (cw_flush w) = []"
  by (simp add: cw_flush_def cw_text_def)

lemma cw_flush_cfg [simp]: "same_cfg w (cw_flush w)"
  by (simp add: cw_flush_def same_cfg_def)

lemma write_field_text:
  assumes "cw_open w"
  shows "cw_text (write_field f w) = cw_text w @ f \<and> same_cfg w (write_field f w)"
proof -
  define w1 where "w1 = (if length (cw_buffer w) + length f > cw_buffer_size w then cw_flush w else w)"
  have w1: "cw_text w1 = cw_text w" "same_cfg w w1"
    using assms cw_flush_text by (auto simp: w1_def)
  have o1: "cw_open w1" using w1(2) assms by (simp add: same_cfg_def)
  show ?thesis
  proof (cases "length f \<le> cw_buffer_size w1")
    case True
    then have "write_field f w = w1\<lparr> cw_buffer := cw_buffer w1 @ f \<rparr>"
      unfolding write_field_def w1_def [symmetric] Let_def by simp
    then show ?thesis using w1 by (simp add: cw_text_def same_cfg_def)
  next
    case False
    then have "write_field f w = (cw_flush w1)\<lparr> cw_file := cw_file (cw_flush w1) @ f \<rparr>"
      unfolding write_field_def w1_def [symmetric] Let_def by simp
    then show ?thesis
      using w1 cw_flush_text [OF o1] cw_flush_cfg [of w1]
      by (auto simp: cw_text_def same_cfg_def)
  qed
qed

lemma write_fields_text:
  assumes "cw_open w"
  shows "cw_text (write_fields begun fs w) =
      cw_text w @ (if begun \<and> fs \<noteq> [] then [cw_delimiter w] else []) @ csv_join (cw_delimiter w) fs \<and>
    same_cfg w (write_fields begun fs w)"
  using assms
proof (induction fs arbitrary: begun w)
  case (Cons f fs)
  define w1 where "w1 = (if begun then write_field [cw_delimiter w] w else w)"
  define w2 where "w2 = write_field f w1"
  have w1: "cw_text w1 = cw_text w @ (if begun then [cw_delimiter w] else [])" "same_cfg w w1"
    using write_field_text [OF Cons.prems] by (auto simp: w1_def)
  have o1: "cw_open w1" using w1(2) Cons.prems by (simp add: same_cfg_def)
  have w2: "cw_text w2 = cw_text w1 @ f" "same_cfg w1 w2"
    using write_field_text [OF o1] by (auto simp: w2_def)
  have c2: "same_cfg w w2" using w1(2) w2(2) by (rule same_cfg_trans)
  then have o2: "cw_open w2" "cw_delimiter w2 = cw_delimiter w" using Cons.prems by (simp_all add: same_cfg_def)
  have eq: "write_fields begun (f # fs) w = write_fields True fs w2" by (simp add: w2_def w1_def)
  from Cons.IH [OF o2(1), of True] have ih:
    "cw_text (write_fields True fs w2) =
       cw_text w2 @ (if fs \<noteq> [] then [cw_delimiter w] else []) @ csv_join (cw_delimiter w) fs"
    "same_cfg w2 (write_fields True fs w2)"
    by (simp_all add: o2)
  show ?case
    unfolding eq ih(1) w2(1) w1(1) using same_cfg_trans [OF c2 ih(2)]
    by (cases fs) auto
qed simp

lemma write_row_text:
  assumes "cw_open w"
  shows "fst (write_row row w) \<and> cw_text (snd (write_row row w)) = cw_text w @ csv_line (cw_delimiter w) row \<and>
    same_cfg w (snd (write_row row w))"
proof -
  define w1 where "w1 = write_fields False row w"
  have w1: "cw_text w1 = cw_text w @ csv_join (cw_delimiter w) row" "same_cfg w w1"
    using write_fields_text [OF assms, of False row] by (simp_all add: w1_def)
  then have "cw_open w1" using assms by (simp add: same_cfg_def)
  from write_field_text [OF this, of "[CHR 0x0A]"] show ?thesis
    using assms w1 same_cfg_trans [OF w1(2)]
    by (auto simp: write_row_def w1_def [symmetric] csv_line_def)
qed

lemma write_rows_text:
  assumes "cw_open w"
  shows "fst (write_rows_loop rows w) \<and>
    cw_text (snd (write_rows_loop rows w)) = cw_text w @ concat (List.map (csv_line (cw_delimiter w)) rows) \<and>
    same_cfg w (snd (write_rows_loop rows w))"
  using assms
proof (induction rows arbitrary: w)
  case (Cons row rows)
  obtain w1 where w1: "write_row row w = (True, w1)"
    "cw_text w1 = cw_text w @ csv_line (cw_delimiter w) row" "same_cfg w w1"
    using write_row_text [OF Cons.prems, of row] by (cases "write_row row w") auto
  have o1: "cw_open w1" "cw_delimiter w1 = cw_delimiter w" using w1(3) Cons.prems by (simp_all add: same_cfg_def)
  show ?case using Cons.IH [OF o1(1)] w1 o1(2) same_cfg_trans [OF w1(3)] by (simp add: w1(1))
qed simp

section \<open>What is read back\<close>

text \<open>A field that needs no quotes passes the state machine as it is.\<close>

definition plain :: "char \<Rightarrow> char \<Rightarrow> string \<Rightarrow> bool" where
  "plain d q f \<longleftrightarrow> d \<notin> set f \<and> q \<notin> set f"

lemma unescape_plain: "q \<notin> set f \<Longrightarrow> unescape_field q f = f"
  by (cases f) (auto simp: unescape_field_def)

lemma parse_plain:
  "\<lbrakk> d \<notin> set f; q \<notin> set f \<rbrakk> \<Longrightarrow> parse_chars d q (f @ rest) False cur fs = parse_chars d q rest False (cur @ f) fs"
  by (induction f arbitrary: cur) auto

text \<open>Inside quotes a doubled field is read back to its characters.\<close>

lemma parse_quoted:
  assumes "rest = [] \<or> hd rest \<noteq> q"
  shows "parse_chars d q (double_quotes q f @ q # rest) True cur fs = parse_chars d q rest False (cur @ f) fs"
  using assms by (induction f arbitrary: cur) auto

lemma parse_escaped:
  assumes "rest = [] \<or> hd rest \<noteq> q"
  shows "parse_chars d q (escape_field d q f @ rest) False [] fs = parse_chars d q rest False f fs"
proof (cases "needs_quotes d q f")
  case True
  have "parse_chars d q (q # double_quotes q f @ q # rest) False [] fs =
        parse_chars d q (double_quotes q f @ q # rest) True [] fs" by simp
  also have "\<dots> = parse_chars d q rest False f fs" using parse_quoted [OF assms, of d f "[]"] by simp
  finally show ?thesis using True by (simp add: escape_field_def)
next
  case False
  then show ?thesis using parse_plain [of d f q rest "[]" fs] by (simp add: escape_field_def needs_quotes_def)
qed

lemma parse_join_escaped:
  assumes "d \<noteq> q" "row \<noteq> []"
  shows "parse_chars d q (csv_join d (List.map (escape_field d q) row)) False [] fs =
    fs @ List.map (unescape_field q) row"
  using assms(2)
proof (induction row arbitrary: fs rule: list_nonempty_induct)
  case (single f)
  show ?case using parse_escaped [of "[]" q d f fs] by simp
next
  case (cons f row)
  let ?rest = "d # csv_join d (List.map (escape_field d q) row)"
  have "csv_join d (List.map (escape_field d q) (f # row)) = escape_field d q f @ ?rest"
    using cons.hyps by (simp add: csv_join_Cons)
  moreover have "parse_chars d q (escape_field d q f @ ?rest) False [] fs = parse_chars d q ?rest False f fs"
    using assms(1) by (intro parse_escaped) simp
  moreover have "parse_chars d q ?rest False f fs =
      parse_chars d q (csv_join d (List.map (escape_field d q) row)) False [] (fs @ [unescape_field q f])"
    using assms(1) by simp
  ultimately show ?case using cons.IH by simp
qed

lemma escape_plain: "\<lbrakk> plain d q f; CHR 0x0A \<notin> set f; CHR 0x0D \<notin> set f \<rbrakk> \<Longrightarrow> escape_field d q f = f"
  by (simp add: escape_field_def needs_quotes_def plain_def)

lemma parse_join_plain:
  assumes "d \<noteq> q" "row \<noteq> []" "\<forall>f \<in> set row. plain d q f"
  shows "parse_chars d q (csv_join d row) False [] fs = fs @ row"
  using assms(2,3)
proof (induction row arbitrary: fs rule: list_nonempty_induct)
  case (single f)
  then show ?case using parse_plain [of d f q "[]" "[]" fs] unescape_plain [of q f] by (simp add: plain_def)
next
  case (cons f row)
  have "parse_chars d q (f @ d # csv_join d row) False [] fs = parse_chars d q (d # csv_join d row) False f fs"
    using cons.prems parse_plain [of d f q] by (simp add: plain_def)
  also have "\<dots> = parse_chars d q (csv_join d row) False [] (fs @ [f])"
    using assms(1) cons.prems by (simp add: unescape_plain plain_def)
  finally show ?case using cons by (simp add: csv_join_Cons)
qed

section \<open>Files\<close>

definition single_line :: "string \<Rightarrow> bool" where
  "single_line f \<longleftrightarrow> CHR 0x0A \<notin> set f"

definition plain_row :: "char \<Rightarrow> char \<Rightarrow> string list \<Rightarrow> bool" where
  "plain_row d q row \<longleftrightarrow> (\<forall>f \<in> set row. plain d q f \<and> single_line f)"

definition blank_row :: "string list \<Rightarrow> bool" where
  "blank_row row \<longleftrightarrow> row = [] \<or> row = [[]]"

lemma csv_join_blank: "csv_join d row = [] \<longleftrightarrow> blank_row row"
  by (cases "(d, row)" rule: csv_join.cases) (auto simp: blank_row_def)

lemma csv_join_set: "set (csv_join d row) \<subseteq> insert d (\<Union> (set ` set row))"
  by (induction d row rule: csv_join.induct) auto

lemma csv_join_single_line:
  assumes "d \<noteq> CHR 0x0A" "\<forall>f \<in> set row. single_line f"
  shows "single_line (csv_join d row)"
  using assms csv_join_set [of d row] by (auto simp: single_line_def)

lemma getline_line:
  assumes "single_line l" "cr_rest r = l @ CHR 0x0A # rest"
  shows "getline r = (Some l, r\<lparr> cr_rest := rest \<rparr>)"
proof -
  have "\<And>x. x \<in> set l \<Longrightarrow> x \<noteq> CHR 0x0A" using assms(1) by (auto simp: single_line_def)
  then have "takeWhile (\<lambda>c. c \<noteq> CHR 0x0A) (cr_rest r) = l"
    "dropWhile (\<lambda>c. c \<noteq> CHR 0x0A) (cr_rest r) = CHR 0x0A # rest"
    unfolding assms(2) by (simp_all add: takeWhile_append2 dropWhile_append2)
  then show ?thesis by (simp add: getline_def Let_def)
qed

lemma read_rows_written:
  assumes "cr_delimiter r \<noteq> cr_quote r" "cr_delimiter r \<noteq> CHR 0x0A"
    "cr_is_open r" "cr_header_read r"
    "\<forall>row \<in> set rows. plain_row (cr_delimiter r) (cr_quote r) row"
    "cr_rest r = concat (List.map (csv_line (cr_delimiter r)) rows)"
  shows "fst (read_rows_loop r) = takeWhile (\<lambda>row. \<not> blank_row row) rows"
  using assms
proof (induction rows arbitrary: r)
  case Nil
  then have "getline r = (None, r\<lparr> cr_rest := [], cr_eof := True, cr_fail := True \<rparr>)"
    by (simp add: getline_def)
  then show ?case using Nil by (subst read_rows_loop.simps) (simp add: read_row_into_def)
next
  case (Cons row rows)
  let ?d = "cr_delimiter r" and ?q = "cr_quote r"
  let ?rest = "concat (List.map (csv_line ?d) rows)"
  have sl: "single_line (csv_join ?d row)"
    using Cons.prems by (intro csv_join_single_line) (auto simp: plain_row_def)
  have g: "getline r = (Some (csv_join ?d row), r\<lparr> cr_rest := ?rest \<rparr>)"
    using Cons.prems by (intro getline_line [OF sl]) (simp add: csv_line_def [of _ row])
  show ?case
  proof (cases "blank_row row")
    case True
    then have "csv_join ?d row = []" by (simp add: csv_join_blank)
    then have "read_row_into [] r = (False, [], r\<lparr> cr_rest := ?rest \<rparr>)"
      using Cons.prems g by (simp add: read_row_into_def parse_line_into_def)
    then show ?thesis using True by (subst read_rows_loop.simps) simp
  next
    case False
    then have ne: "csv_join ?d row \<noteq> []" "row \<noteq> []" by (auto simp: csv_join_blank blank_row_def)
    have "parse_chars ?d ?q (csv_join ?d row) False [] [] = [] @ row"
      using Cons.prems ne by (intro parse_join_plain) (auto simp: plain_row_def)
    then have "read_row_into [] r = (True, row, r\<lparr> cr_rest := ?rest \<rparr>)"
      using Cons.prems g ne by (simp add: read_row_into_def parse_line_into_def)
    moreover have "fst (read_rows_loop (r\<lparr> cr_rest := ?rest \<rparr>)) = takeWhile (\<lambda>row. \<not> blank_row row) rows"
      using Cons.prems by (intro Cons.IH) (simp_all add: cr_is_open_def)
    ultimately show ?thesis
      using False by (subst read_rows_loop.simps) (simp add: split_beta)
  qed
qed

text \<open>A file of a header and rows of plain fields.\<close>

lemma read_file_text:
  assumes "d \<noteq> q" "d \<noteq> CHR 0x0A" "plain_row d q headers" "\<not> blank_row headers"
    "\<forall>row \<in> set rows. plain_row d q row"
  shows "fst (read_header (CSVReader_new d q (concat (List.map (csv_line d) (headers # rows))))) = headers \<and>
    fst (read_all_rows (snd (read_header (CSVReader_new d q (concat (List.map (csv_line d) (headers # rows))))))) =
      takeWhile (\<lambda>row. \<not> blank_row row) rows"
proof -
  define r0 where "r0 = CSVReader_new d q (concat (List.map (csv_line d) (headers # rows)))"
  let ?rest = "concat (List.map (csv_line d) rows)"
  have "single_line (csv_join d headers)"
    using assms by (intro csv_join_single_line) (auto simp: plain_row_def)
  then have "getline r0 = (Some (csv_join d headers), r0\<lparr> cr_rest := ?rest \<rparr>)"
    by (rule getline_line) (simp add: r0_def CSVReader_new_def csv_line_def)
  moreover have "parse_chars d q (csv_join d headers) False [] [] = [] @ headers"
    using assms by (intro parse_join_plain) (auto simp: plain_row_def blank_row_def)
  moreover have "csv_join d headers \<noteq> []" using assms(4) by (simp add: csv_join_blank)
  ultimately have rh: "read_header r0 = (headers, r0\<lparr> cr_rest := ?rest, cr_headers := headers, cr_header_read := True \<rparr>)"
    by (simp add: read_header_def parse_line_def parse_line_into_def cr_is_open_def r0_def CSVReader_new_def)
  define r where "r = r0\<lparr> cr_rest := ?rest, cr_headers := headers, cr_header_read := True \<rparr>"
  have r: "cr_delimiter r = d" "cr_quote r = q" "cr_is_open r" "cr_header_read r" "cr_rest r = ?rest"
    by (simp_all add: r_def r0_def CSVReader_new_def cr_is_open_def)
  have "fst (read_rows_loop r) = takeWhile (\<lambda>row. \<not> blank_row row) rows"
    using assms by (intro read_rows_written) (simp_all add: r)
  then show ?thesis
    unfolding r0_def [symmetric] rh snd_conv fst_conv r_def [symmetric] using r(3,4) by (simp add: read_all_rows_def)
qed

section \<open>Properties\<close>

text \<open>C22: a written file reads back. Whatever the size of the writer's buffer, a header and rows of plain
  fields, written and closed, are read back as they were, up to the first blank row: a row with no
  fields, or with one empty field, is an empty line, and the reader takes it for the end.\<close>

theorem csv_file_roundtrip:
  assumes "d \<noteq> q" "d \<noteq> CHR 0x0A" "plain_row d q headers" "\<not> blank_row headers"
    "\<forall>row \<in> set rows. plain_row d q row"
  shows "let (h, w1) = write_header headers (CSVWriter_new d q n);
             (ok, w2) = write_rows rows w1;
             (hs, r) = read_header (CSVReader_new d q (cw_file (cw_close w2)))
         in h \<and> ok \<and> hs = headers \<and> fst (read_all_rows r) = takeWhile (\<lambda>row. \<not> blank_row row) rows"
proof -
  define w0 where "w0 = CSVWriter_new d q n"
  have o0: "cw_open w0" "cw_delimiter w0 = d" "cw_text w0 = []" "\<not> cw_header_written w0"
    by (simp_all add: w0_def CSVWriter_new_def cw_text_def)
  obtain w where w: "write_row headers w0 = (True, w)" "cw_text w = csv_line d headers" "same_cfg w0 w"
    using write_row_text [OF o0(1), of headers] o0 by (cases "write_row headers w0") auto
  define w1 where "w1 = w\<lparr> cw_header_written := True \<rparr>"
  have h: "write_header headers w0 = (True, w1)" using o0 w(1) by (simp add: write_header_def w1_def)
  have o1: "cw_open w1" "cw_delimiter w1 = d" "cw_text w1 = csv_line d headers"
    using w o0 by (simp_all add: w1_def same_cfg_def cw_text_def)
  obtain w2 where w2: "write_rows rows w1 = (True, w2)"
    "cw_text w2 = csv_line d headers @ concat (List.map (csv_line d) rows)" "same_cfg w1 w2"
    using write_rows_text [OF o1(1), of rows] o1 by (cases "write_rows_loop rows w1") (auto simp: write_rows_def)
  have "cw_open w2" using w2(3) o1(1) by (simp add: same_cfg_def)
  then have txtf: "cw_file (cw_close w2) = csv_line d headers @ concat (List.map (csv_line d) rows)"
    using cw_flush_text [of w2] w2(2) by (auto simp: cw_close_def cw_text_def)
  then have "cw_file (cw_close w2) = concat (List.map (csv_line d) (headers # rows))" by simp
  then show ?thesis
    using read_file_text [OF assms] by (simp add: w0_def [symmetric] h w2(1) split_beta)
qed

lemma csv_file_roundtrip_witness:
  "fst (read_all_rows (snd (read_header (CSVReader_new CHR '','' CHR 0x22
     (cw_file (cw_close (snd (write_rows [[''1'', ''23''], [''4'', []], [[]], [''5'', ''6'']]
        (snd (write_header [''date'', ''close''] (CSVWriter_new CHR '','' CHR 0x22 3))))))))))) =
   [[''1'', ''23''], [''4'', []]]"
  using csv_file_roundtrip [of "CHR '',''" "CHR 0x22" "[''date'', ''close'']"
      "[[''1'', ''23''], [''4'', []], [[]], [''5'', ''6'']]" 3]
  by (simp add: plain_row_def plain_def single_line_def blank_row_def Let_def split_beta)

text \<open>The parser undoes the escaping of fields, delimiters, quotes and line breaks inside included, and then
  takes one pair of quotes too many: every field comes back through \<open>unescape_field\<close> once more, which
  changes exactly those that begin and end with a quote.\<close>

theorem csv_escape_roundtrip:
  assumes "d \<noteq> q" "row \<noteq> []" "row \<noteq> [[]]"
  shows "parse_line_into d q (csv_join d (List.map (escape_field d q) row)) = (True, List.map (unescape_field q) row) \<and>
    ((\<forall>f \<in> set row. f = [] \<or> hd f \<noteq> q \<or> last f \<noteq> q) \<longleftrightarrow> List.map (unescape_field q) row = row)"
proof
  have "escape_field d q f = [] \<longleftrightarrow> f = []" for f by (auto simp: escape_field_def needs_quotes_def)
  then have "\<not> blank_row (List.map (escape_field d q) row)"
    using assms(2,3) by (cases row) (auto simp: blank_row_def)
  then show "parse_line_into d q (csv_join d (List.map (escape_field d q) row)) = (True, List.map (unescape_field q) row)"
    using parse_join_escaped [OF assms(1,2), of "[]"] by (simp add: parse_line_into_def csv_join_blank)
  have shorter: "length (collapse_quotes q cs) \<le> length cs" for cs
    by (induction q cs rule: collapse_quotes.induct) auto
  have "unescape_field q f = f \<longleftrightarrow> f = [] \<or> hd f \<noteq> q \<or> last f \<noteq> q" for f
  proof (cases "f = [] \<or> hd f \<noteq> q \<or> last f \<noteq> q")
    case False
    then have "length f > 0" by auto
    then have "length (take (length f - 2) (drop 1 f)) < length f" by simp
    then have "length (unescape_field q f) < length f"
      using False le_less_trans [OF shorter] by (auto simp: unescape_field_def)
    then show ?thesis using False by auto
  qed (simp add: unescape_field_def)
  then show "(\<forall>f \<in> set row. f = [] \<or> hd f \<noteq> q \<or> last f \<noteq> q) \<longleftrightarrow> List.map (unescape_field q) row = row"
    by (simp add: map_eq_conv [of _ _ id, simplified])
qed

lemma csv_escape_roundtrip_witness:
  "parse_line_into CHR '','' CHR 0x22 [CHR 0x22, CHR 0x22, CHR 0x22, CHR ''a'', CHR 0x22, CHR 0x22, CHR 0x22] =
     (True, [''a''])"
  using csv_escape_roundtrip [of "CHR '',''" "CHR 0x22" "[[CHR 0x22, CHR ''a'', CHR 0x22]]"]
  by (simp add: escape_field_def needs_quotes_def unescape_field_def)

end
