(* ===== verification/TimeUtil.thy ===== *)
theory TimeUtil
  imports Hash "HOL-Library.Signed_Division"
begin

text \<open>
  Time (src/infra/time.h, time.cpp): seconds with nanoseconds, the clock of the process and the
  calendar functions in the unit the process runs in. \<open>int64_t\<close> values are integers; every value of
  this file is far from the bounds for dates up to the year 2262. Division and remainder are those of
  C++, towards zero. The readings of the system's two clocks are arguments. The reading and
  printing of dates is in the theory DateText.
\<close>

datatype TimeUnit = NANO | MILLI | SEC

definition MILLISECONDS_PER_SECOND :: int where "MILLISECONDS_PER_SECOND = 1000"
definition SECONDS_PER_MINUTE :: int where "SECONDS_PER_MINUTE = 60"
definition SECONDS_PER_HOUR :: int where "SECONDS_PER_HOUR = SECONDS_PER_MINUTE * 60"
definition SECONDS_PER_DAY :: int where "SECONDS_PER_DAY = SECONDS_PER_HOUR * 24"
definition MILLISECONDS_PER_MINUTE :: int where "MILLISECONDS_PER_MINUTE = MILLISECONDS_PER_SECOND * SECONDS_PER_MINUTE"
definition MILLISECONDS_PER_HOUR :: int where "MILLISECONDS_PER_HOUR = MILLISECONDS_PER_MINUTE * 60"
definition MILLISECONDS_PER_DAY :: int where "MILLISECONDS_PER_DAY = MILLISECONDS_PER_HOUR * 24"
definition NANOSECONDS_PER_MILLISECOND :: int where "NANOSECONDS_PER_MILLISECOND = 1000 * 1000"
definition NANOSECONDS_PER_SECOND :: int where "NANOSECONDS_PER_SECOND = NANOSECONDS_PER_MILLISECOND * MILLISECONDS_PER_SECOND"
definition NANOSECONDS_PER_MINUTE :: int where "NANOSECONDS_PER_MINUTE = NANOSECONDS_PER_SECOND * SECONDS_PER_MINUTE"
definition NANOSECONDS_PER_HOUR :: int where "NANOSECONDS_PER_HOUR = NANOSECONDS_PER_SECOND * SECONDS_PER_HOUR"
definition NANOSECONDS_PER_DAY :: int where "NANOSECONDS_PER_DAY = NANOSECONDS_PER_HOUR * 24"
definition NANO_UTC_OFFSET :: int where "NANO_UTC_OFFSET = NANOSECONDS_PER_HOUR * 8"
definition MILI_UTC_OFFSET :: int where "MILI_UTC_OFFSET = MILLISECONDS_PER_HOUR * 8"
definition SEC_UTC_OFFSET :: int where "SEC_UTC_OFFSET = SECONDS_PER_HOUR * 8"

lemmas time_consts =
  MILLISECONDS_PER_SECOND_def SECONDS_PER_MINUTE_def SECONDS_PER_HOUR_def SECONDS_PER_DAY_def
  MILLISECONDS_PER_MINUTE_def MILLISECONDS_PER_HOUR_def MILLISECONDS_PER_DAY_def
  NANOSECONDS_PER_MILLISECOND_def NANOSECONDS_PER_SECOND_def NANOSECONDS_PER_MINUTE_def
  NANOSECONDS_PER_HOUR_def NANOSECONDS_PER_DAY_def NANO_UTC_OFFSET_def MILI_UTC_OFFSET_def SEC_UTC_OFFSET_def

section \<open>Seconds and nanoseconds\<close>

record TimeSpec =
  ts_sec :: int
  ts_nano :: int

definition ts_neg :: "TimeSpec \<Rightarrow> TimeSpec" where
  "ts_neg a = \<lparr> ts_sec = - ts_sec a, ts_nano = - ts_nano a \<rparr>"

definition ts_add :: "TimeSpec \<Rightarrow> TimeSpec \<Rightarrow> TimeSpec" where
  "ts_add a b =
     (let nano = ts_nano a + ts_nano b
      in \<lparr> ts_sec = ts_sec a + ts_sec b + nano sdiv NANOSECONDS_PER_SECOND,
           ts_nano = nano smod NANOSECONDS_PER_SECOND \<rparr>)"

definition ts_sub :: "TimeSpec \<Rightarrow> TimeSpec \<Rightarrow> TimeSpec" where
  "ts_sub a b = ts_add a (ts_neg b)"

definition to_nano :: "TimeSpec \<Rightarrow> int" where
  "to_nano a = ts_sec a * NANOSECONDS_PER_SECOND + ts_nano a"

definition to_mili :: "TimeSpec \<Rightarrow> int" where
  "to_mili a = ts_sec a * MILLISECONDS_PER_SECOND + ts_nano a sdiv NANOSECONDS_PER_MILLISECOND"

section \<open>The clock\<close>

text \<open>The singleton: the two clocks read when it is made, and the unit.\<close>

record TimeBase =
  tb_system :: TimeSpec
  tb_steady :: TimeSpec
  tb_unit :: TimeUnit

definition elapsed_now :: "TimeBase \<Rightarrow> TimeSpec \<Rightarrow> TimeSpec" where
  "elapsed_now b steady = ts_add (tb_system b) (ts_sub steady (tb_steady b))"

definition now_in_nano :: "TimeBase \<Rightarrow> TimeSpec \<Rightarrow> int" where
  "now_in_nano b steady = to_nano (elapsed_now b steady)"

definition now_in_sec :: "TimeBase \<Rightarrow> TimeSpec \<Rightarrow> int" where
  "now_in_sec b steady = ts_sec (elapsed_now b steady)"

definition now_in_mili :: "TimeBase \<Rightarrow> TimeSpec \<Rightarrow> int" where
  "now_in_mili b steady = to_mili (elapsed_now b steady)"

definition clock_now :: "TimeBase \<Rightarrow> TimeSpec \<Rightarrow> int" where
  "clock_now b steady =
     (case tb_unit b of
        NANO \<Rightarrow> now_in_nano b steady | MILLI \<Rightarrow> now_in_mili b steady | SEC \<Rightarrow> now_in_sec b steady)"

definition time_reset :: "TimeSpec \<Rightarrow> TimeSpec \<Rightarrow> TimeBase \<Rightarrow> TimeBase" where
  "time_reset system steady b = b\<lparr> tb_system := system, tb_steady := steady \<rparr>"

section \<open>The calendar\<close>

definition next_minute :: "TimeUnit \<Rightarrow> int \<Rightarrow> int" where
  "next_minute unit timestamp =
     (case unit of
        NANO \<Rightarrow> timestamp - timestamp smod SECONDS_PER_MINUTE + SECONDS_PER_MINUTE
      | MILLI \<Rightarrow> timestamp - timestamp smod MILLISECONDS_PER_MINUTE + MILLISECONDS_PER_MINUTE
      | SEC \<Rightarrow> timestamp - timestamp smod NANOSECONDS_PER_MINUTE + NANOSECONDS_PER_MINUTE)"

text \<open>\<open>next_trading_day_end\<close>; \<open>now\<close> is the present time in the unit.\<close>

definition next_trading_day_end :: "TimeUnit \<Rightarrow> int \<Rightarrow> int \<Rightarrow> int" where
  "next_trading_day_end unit now timestamp =
     (case unit of
        NANO \<Rightarrow>
          let end_offset = 15 * NANOSECONDS_PER_HOUR + 30 * NANOSECONDS_PER_MINUTE;
              trading_day = timestamp - timestamp smod NANOSECONDS_PER_DAY - NANO_UTC_OFFSET + end_offset
          in if trading_day < now then trading_day + NANOSECONDS_PER_DAY else trading_day
      | MILLI \<Rightarrow>
          let end_offset = 15 * MILLISECONDS_PER_HOUR + 30 * MILLISECONDS_PER_MINUTE;
              trading_day = timestamp - timestamp smod MILLISECONDS_PER_DAY - MILI_UTC_OFFSET + end_offset
          in if trading_day < now then trading_day + MILLISECONDS_PER_DAY else trading_day
      | SEC \<Rightarrow>
          let end_offset = 15 * SECONDS_PER_HOUR + 30 * SECONDS_PER_MINUTE;
              trading_day = timestamp - timestamp smod SECONDS_PER_DAY - SEC_UTC_OFFSET + end_offset
          in if trading_day < now then trading_day + SECONDS_PER_DAY else trading_day)"

definition calendar_day_start :: "TimeUnit \<Rightarrow> int \<Rightarrow> int" where
  "calendar_day_start unit timestamp =
     (case unit of
        NANO \<Rightarrow> timestamp - timestamp smod NANOSECONDS_PER_DAY - NANO_UTC_OFFSET
      | MILLI \<Rightarrow> timestamp - timestamp smod MILLISECONDS_PER_DAY - MILI_UTC_OFFSET
      | SEC \<Rightarrow> timestamp - timestamp smod SECONDS_PER_DAY - SEC_UTC_OFFSET)"

definition today_start :: "TimeBase \<Rightarrow> TimeSpec \<Rightarrow> int" where
  "today_start b steady = calendar_day_start (tb_unit b) (clock_now b steady)"

text \<open>\<open>strptimerange\<close>, given the time the date was parsed to.\<close>

definition time_range :: "TimeUnit \<Rightarrow> int \<Rightarrow> int \<Rightarrow> int \<times> int" where
  "time_range unit now parsed =
     (let start_time = calendar_day_start unit parsed
      in (start_time, next_trading_day_end unit now start_time))"

section \<open>Units and days\<close>

definition day_of :: "TimeUnit \<Rightarrow> int" where
  "day_of unit = (case unit of NANO \<Rightarrow> NANOSECONDS_PER_DAY | MILLI \<Rightarrow> MILLISECONDS_PER_DAY | SEC \<Rightarrow> SECONDS_PER_DAY)"

definition offset_of :: "TimeUnit \<Rightarrow> int" where
  "offset_of unit = (case unit of NANO \<Rightarrow> NANO_UTC_OFFSET | MILLI \<Rightarrow> MILI_UTC_OFFSET | SEC \<Rightarrow> SEC_UTC_OFFSET)"

definition minute_of :: "TimeUnit \<Rightarrow> int" where
  "minute_of unit = (case unit of NANO \<Rightarrow> NANOSECONDS_PER_MINUTE | MILLI \<Rightarrow> MILLISECONDS_PER_MINUTE | SEC \<Rightarrow> SECONDS_PER_MINUTE)"

text \<open>The start of the calendar day in the zone eight hours east, as it would be computed.\<close>

definition local_midnight :: "TimeUnit \<Rightarrow> int \<Rightarrow> int" where
  "local_midnight unit t = t - (t + offset_of unit) mod day_of unit"

lemma day_offset: "day_of unit = 3 * offset_of unit" "0 < offset_of unit" "0 < day_of unit"
  by (cases unit; simp add: day_of_def offset_of_def time_consts)+

lemma smod_pos: "0 < b \<Longrightarrow> (a :: int) smod b = (if 0 \<le> a then a mod b else - (- a mod b))"
  by (auto simp: signed_modulo_int_def sgn_if)

lemma sdiv_pos: "0 < b \<Longrightarrow> (a :: int) sdiv b = (if 0 \<le> a then a div b else - (- a div b))"
  by (auto simp: signed_divide_int_def sgn_if)

lemma sdiv_smod: "0 < b \<Longrightarrow> (a :: int) sdiv b * b + a smod b = a"
proof (cases "0 \<le> a")
  case False
  assume b: "0 < b"
  have "- a div b * b + - a mod b = - a" by (rule div_mult_mod_eq)
  moreover have "a sdiv b * b = - (- a div b * b)" using False b by (simp add: sdiv_pos)
  moreover have "a smod b = - (- a mod b)" using False b by (simp add: smod_pos)
  ultimately show ?thesis by linarith
qed (simp add: smod_pos sdiv_pos)

lemma smod_bounds:
  assumes "0 < (b :: int)"
  shows "\<bar>a smod b\<bar> < b" "0 \<le> a \<Longrightarrow> 0 \<le> a smod b" "a \<le> 0 \<Longrightarrow> a smod b \<le> 0"
  using assms pos_mod_sign [OF assms, of a] pos_mod_bound [OF assms, of a]
    pos_mod_sign [OF assms, of "- a"] pos_mod_bound [OF assms, of "- a"]
  by (auto simp: smod_pos)

text \<open>The clock in the three units, by the sum of the nanoseconds.\<close>

lemma sdiv_mono: "0 < (u :: int) \<Longrightarrow> a \<le> b \<Longrightarrow> a sdiv u \<le> b sdiv u"
  using zdiv_mono1 [of a b u] zdiv_mono1 [of "- b" "- a" u]
    pos_imp_zdiv_nonneg_iff [of u b] pos_imp_zdiv_nonneg_iff [of u "- a"]
  by (auto simp: sdiv_pos)

lemma div_le_sdiv: "0 < (u :: int) \<Longrightarrow> a div u \<le> a sdiv u"
  using zdiv_zminus1_eq_if [of u "- a"] by (simp add: sdiv_pos)

lemma sdiv_thousand:
  assumes "- 1000000000 < m" "m < (2000000000 :: int)"
  shows "1000 * (m sdiv 1000000000) + (m smod 1000000000) sdiv 1000000 = m sdiv 1000000"
proof -
  consider "m < 0" | "0 \<le> m" "m < 1000000000" | "1000000000 \<le> m" by linarith
  then show ?thesis
  proof cases
    case 3
    have "(m - 1000000000) div 1000000 = m div 1000000 - 1000"
      using div_mult_self3 [of 1000000 "- 1000" m] by simp
    moreover have "m div 1000000000 = 1"
      using 3 assms by (intro int_div_pos_eq [of _ _ _ "m - 1000000000"]) auto
    moreover from this have "m mod 1000000000 = m - 1000000000"
      using div_mult_mod_eq [of m 1000000000] by simp
    ultimately show ?thesis using 3 by (simp add: sdiv_pos smod_pos)
  qed (use assms in \<open>simp_all add: sdiv_pos smod_pos\<close>)
qed

lemma trunc_mono:
  assumes "0 < u" "u * q = G" "0 < G" "L \<le> m" "m < L + G" "L \<le> m'" "m' < L + G" "- G < L"
    "K * G + m \<le> K' * G + m'"
  shows "q * K + m sdiv u \<le> q * K' + (m' :: int) sdiv u"
proof -
  have q: "0 < q" using assms(1-3) zero_less_mult_pos by blast
  consider "K = K'" | "K < K'" | "K' < K" by linarith
  then show ?thesis
  proof cases
    case 1
    then show ?thesis using assms sdiv_mono [of u m m'] by simp
  next
    case 2
    have "q * (K + 1) \<le> q * K'" using 2 q by simp
    moreover have "m sdiv u \<le> (m' + G) sdiv u" using assms by (intro sdiv_mono) auto
    moreover have "(m' + G) sdiv u = m' div u + q"
    proof -
      have "(m' + u * q) div u = q + m' div u" using assms(1) by (subst div_mult_self2) simp_all
      then show ?thesis using assms by (simp add: sdiv_pos)
    qed
    ultimately show ?thesis using div_le_sdiv [OF assms(1), of m'] by (simp add: distrib_left)
  next
    case 3
    then have "(K' + 1) * G \<le> K * G" using assms(3) by (intro mult_right_mono) auto
    then show ?thesis using assms by (simp add: distrib_right)
  qed
qed

definition ts_normal :: "TimeSpec \<Rightarrow> bool" where
  "ts_normal a \<longleftrightarrow> 0 \<le> ts_nano a \<and> ts_nano a < NANOSECONDS_PER_SECOND"

definition whole_part :: "TimeBase \<Rightarrow> TimeSpec \<Rightarrow> int" where
  "whole_part b r = ts_sec (tb_system b) + ts_sec r - ts_sec (tb_steady b)"

definition nano_part :: "TimeBase \<Rightarrow> TimeSpec \<Rightarrow> int" where
  "nano_part b r = ts_nano (tb_system b) + ts_nano r - ts_nano (tb_steady b)"

lemma elapsed_parts:
  assumes "ts_normal (tb_system b)" "ts_normal (tb_steady b)" "ts_normal r"
  shows "elapsed_now b r =
    \<lparr> ts_sec = whole_part b r + nano_part b r sdiv NANOSECONDS_PER_SECOND,
      ts_nano = nano_part b r smod NANOSECONDS_PER_SECOND \<rparr>"
proof -
  have "ts_sub r (tb_steady b) = \<lparr> ts_sec = ts_sec r - ts_sec (tb_steady b), ts_nano = ts_nano r - ts_nano (tb_steady b) \<rparr>"
    using assms by (auto simp: ts_sub_def ts_add_def ts_neg_def ts_normal_def Let_def sdiv_pos smod_pos time_consts)
  then show ?thesis
    by (simp add: elapsed_now_def ts_add_def Let_def whole_part_def nano_part_def add_diff_eq)
qed

lemma clock_parts:
  assumes "ts_normal (tb_system b)" "ts_normal (tb_steady b)" "ts_normal r"
  shows "now_in_nano b r = whole_part b r * NANOSECONDS_PER_SECOND + nano_part b r"
    "now_in_mili b r = 1000 * whole_part b r + nano_part b r sdiv NANOSECONDS_PER_MILLISECOND"
    "now_in_sec b r = 1 * whole_part b r + nano_part b r sdiv NANOSECONDS_PER_SECOND"
proof -
  let ?m = "nano_part b r"
  have pos: "0 < NANOSECONDS_PER_SECOND" by (simp add: time_consts)
  show "now_in_nano b r = whole_part b r * NANOSECONDS_PER_SECOND + ?m"
    using sdiv_smod [OF pos, of ?m]
    by (simp add: now_in_nano_def elapsed_parts [OF assms] to_nano_def distrib_right)
  show "now_in_sec b r = 1 * whole_part b r + ?m sdiv NANOSECONDS_PER_SECOND"
    by (simp add: now_in_sec_def elapsed_parts [OF assms])
  have "- 1000000000 < ?m" "?m < 2000000000"
    using assms by (auto simp: nano_part_def ts_normal_def time_consts)
  then have "1000 * (?m sdiv 1000000000) + (?m smod 1000000000) sdiv 1000000 = ?m sdiv 1000000"
    by (rule sdiv_thousand)
  then show "now_in_mili b r = 1000 * whole_part b r + ?m sdiv NANOSECONDS_PER_MILLISECOND"
    by (simp add: now_in_mili_def elapsed_parts [OF assms] to_mili_def time_consts distrib_right)
qed

section \<open>Properties\<close>

text \<open>Arithmetic on seconds and nanoseconds is exact: addition and subtraction are those of the nanoseconds
  they stand for, and a result keeps less than a second in its nanoseconds, of either sign.\<close>

theorem timespec_exact:
  "to_nano (ts_add a b) = to_nano a + to_nano b \<and> to_nano (ts_sub a b) = to_nano a - to_nano b \<and>
   \<bar>ts_nano (ts_add a b)\<bar> < NANOSECONDS_PER_SECOND \<and> \<bar>ts_nano (ts_sub a b)\<bar> < NANOSECONDS_PER_SECOND"
proof -
  have pos: "0 < NANOSECONDS_PER_SECOND" by (simp add: time_consts)
  have add: "to_nano (ts_add a b) = to_nano a + to_nano b" for a b
    using sdiv_smod [OF pos, of "ts_nano a + ts_nano b"] by (simp add: to_nano_def ts_add_def Let_def algebra_simps)
  have "to_nano (ts_neg b) = - to_nano b" by (simp add: to_nano_def ts_neg_def)
  then show ?thesis
    using add smod_bounds(1) [OF pos] by (simp add: ts_sub_def ts_add_def Let_def)
qed

text \<open>The calendar day starts in the wrong day for a third of it. In the zone the code is written for, eight
  hours east, the start of the day is right from 08:00 on universal time's day, and exactly one day
  early for times between local midnight and 08:00; so the start of a start of day is a day too early.\<close>

theorem calendar_day_start_exact:
  assumes "day_of unit \<le> t"
  shows "calendar_day_start unit t =
      (if t mod day_of unit < 2 * offset_of unit then local_midnight unit t else local_midnight unit t - day_of unit) \<and>
    calendar_day_start unit (local_midnight unit t) = local_midnight unit t - day_of unit"
proof -
  let ?d = "day_of unit" and ?o = "offset_of unit"
  note d = day_offset [of unit]
  have cd: "calendar_day_start unit x = x - x mod ?d - ?o" if "0 \<le> x" for x
    using that d(3) by (cases unit) (simp_all add: calendar_day_start_def day_of_def offset_of_def smod_pos)
  define r where "r = t mod ?d"
  have r: "0 \<le> r" "r < ?d" using d(3) by (simp_all add: r_def)
  have "(t + ?o) mod ?d = (r + ?o) mod ?d" by (simp add: r_def mod_add_left_eq)
  also have "\<dots> = (if r < 2 * ?o then r + ?o else r + ?o - ?d)"
  proof (cases "r < 2 * ?o")
    case False
    have "(r + ?o) mod ?d = (r + ?o - ?d) mod ?d" by (simp add: mod_diff_right_eq [symmetric])
    also have "\<dots> = r + ?o - ?d" using False r d by (intro mod_pos_pos_trivial) auto
    finally show ?thesis using False by simp
  qed (use r d in simp)
  finally have m: "local_midnight unit t = t - (if r < 2 * ?o then r + ?o else r + ?o - ?d)"
    by (simp add: local_midnight_def)
  have "0 \<le> t" using assms d by linarith
  have 1: "calendar_day_start unit t = (if r < 2 * ?o then local_midnight unit t else local_midnight unit t - ?d)"
    using cd [OF \<open>0 \<le> t\<close>] by (simp add: m r_def)
  have tr: "t - r = ?d * (t div ?d)" by (simp add: r_def minus_mod_eq_mult_div)
  have lm: "local_midnight unit t mod ?d = 2 * ?o"
  proof -
    have "local_midnight unit t = 2 * ?o + ?d * (t div ?d - (if r < 2 * ?o then 1 else 0))"
      using tr d(1) by (simp add: m algebra_simps)
    then show ?thesis using d by simp
  qed
  have "(t + ?o) mod ?d < ?d" using d(3) by simp
  then have "0 \<le> local_midnight unit t" using assms by (simp add: local_midnight_def)
  from cd [OF this] show ?thesis using 1 lm d by (simp add: r_def)
qed

text \<open>One hour after midnight of 2 January 1970, eight hours east: the start of the day before.\<close>

lemma calendar_day_start_witness:
  "calendar_day_start MILLI 147600000 = local_midnight MILLI 147600000 - MILLISECONDS_PER_DAY"
  using calendar_day_start_exact [of MILLI 147600000] by (simp add: day_of_def offset_of_def time_consts)

text \<open>The process clock never runs backwards, in any of its units, as long as the steady clock of the system
  does not; and it shows the nanosecond time to within one unit.\<close>

theorem clock_monotone:
  assumes "ts_normal (tb_system b)" "ts_normal (tb_steady b)" "ts_normal r" "ts_normal r'"
    "to_nano r \<le> to_nano r'"
  shows "clock_now b r \<le> clock_now b r' \<and>
    \<bar>now_in_nano b r - now_in_mili b r * NANOSECONDS_PER_MILLISECOND\<bar> < NANOSECONDS_PER_MILLISECOND \<and>
    \<bar>now_in_nano b r - now_in_sec b r * NANOSECONDS_PER_SECOND\<bar> < NANOSECONDS_PER_SECOND"
proof -
  let ?L = "ts_nano (tb_system b) - ts_nano (tb_steady b)" and ?G = "NANOSECONDS_PER_SECOND"
  have "whole_part b r * ?G + nano_part b r \<le> whole_part b r' * ?G + nano_part b r'"
    using assms(5) by (simp add: whole_part_def nano_part_def to_nano_def algebra_simps)
  moreover have "?L \<le> nano_part b r" "nano_part b r < ?L + ?G" "?L \<le> nano_part b r'" "nano_part b r' < ?L + ?G"
    "- ?G < ?L"
    using assms(1-4) by (auto simp: nano_part_def ts_normal_def)
  ultimately have mono: "q * whole_part b r + nano_part b r sdiv u \<le> q * whole_part b r' + nano_part b r' sdiv u"
    if "0 < u" "u * q = ?G" for u q
    using that by (intro trunc_mono [of u q ?G ?L]) (simp_all add: time_consts)
  note p = clock_parts [OF assms(1,2,3)] clock_parts [OF assms(1,2,4)]
  have "now_in_nano b r \<le> now_in_nano b r'"
    using mono [of 1 ?G] by (simp add: p sdiv_pos mult.commute)
  moreover have "now_in_mili b r \<le> now_in_mili b r'" "now_in_sec b r \<le> now_in_sec b r'"
    unfolding p by (rule mono; simp add: time_consts)+
  ultimately have "clock_now b r \<le> clock_now b r'" by (cases "tb_unit b") (simp_all add: clock_now_def)
  moreover have "now_in_nano b r - now_in_mili b r * NANOSECONDS_PER_MILLISECOND = nano_part b r smod NANOSECONDS_PER_MILLISECOND"
    using sdiv_smod [of NANOSECONDS_PER_MILLISECOND "nano_part b r"]
    by (simp add: p distrib_right) (simp add: time_consts)
  moreover have "now_in_nano b r - now_in_sec b r * ?G = nano_part b r smod ?G"
    using sdiv_smod [of ?G "nano_part b r"] by (simp add: p distrib_right) (simp add: time_consts)
  ultimately show ?thesis by (simp add: smod_bounds time_consts)
qed

lemma clock_monotone_witness:
  "clock_now \<lparr> tb_system = \<lparr> ts_sec = 10, ts_nano = 50 \<rparr>, tb_steady = \<lparr> ts_sec = 3, ts_nano = 200 \<rparr>, tb_unit = MILLI \<rparr>
     \<lparr> ts_sec = 5, ts_nano = 100 \<rparr> \<le>
   clock_now \<lparr> tb_system = \<lparr> ts_sec = 10, ts_nano = 50 \<rparr>, tb_steady = \<lparr> ts_sec = 3, ts_nano = 200 \<rparr>, tb_unit = MILLI \<rparr>
     \<lparr> ts_sec = 5, ts_nano = 200 \<rparr>"
  using clock_monotone [of "\<lparr> tb_system = \<lparr> ts_sec = 10, ts_nano = 50 \<rparr>, tb_steady = \<lparr> ts_sec = 3, ts_nano = 200 \<rparr>, tb_unit = MILLI \<rparr>"
      "\<lparr> ts_sec = 5, ts_nano = 100 \<rparr>" "\<lparr> ts_sec = 5, ts_nano = 200 \<rparr>"]
  by (simp add: ts_normal_def time_consts to_nano_def)

text \<open>The next minute, in the unit of milliseconds and in that of nanoseconds, where it is 60 units away.\<close>

lemma next_minute_milli:
  "0 \<le> t \<Longrightarrow> t < next_minute MILLI t \<and> next_minute MILLI t \<le> t + 60000 \<and> next_minute MILLI t mod 60000 = 0"
proof -
  assume "0 \<le> t"
  then have "next_minute MILLI t = t - t mod 60000 + 60000"
    by (simp add: next_minute_def smod_pos time_consts)
  moreover have "t - t mod 60000 + 60000 = 60000 * (t div 60000 + 1)"
    using div_mult_mod_eq [of t 60000] by (simp add: algebra_simps)
  moreover have "t - t mod 60000 + 60000 > t" "t - t mod 60000 + 60000 \<le> t + 60000"
    using pos_mod_bound [of 60000 t] pos_mod_sign [of 60000 t] by simp_all
  ultimately show ?thesis by (metis mod_mult_self1_is_0)
qed

lemma next_minute_nano: "0 \<le> t \<Longrightarrow> next_minute NANO t \<le> t + 60"
  using pos_mod_sign [of 60 t] by (simp add: next_minute_def smod_pos time_consts)

end
