(* ===== verification/FileData.thy ===== *)
theory FileData
  imports Messages Csv TimeUtil
begin

text \<open>
  The data service that replays a file of daily bars in a backtest
  (src/broker/filedataservice/filedataservice.cpp): every sync signal takes one row of the CSV file
  and sends it as a bar.

  The C library's decimal conversions are modelled for decimal notation; the spellings of
  infinity, not-a-number and hexadecimal are not read, and a number too small for a normal double is
  rounded, where \<open>std::stod\<close> may raise \<open>out_of_range\<close>. The reading of a date depends on the host's
  time zone and is an argument, \<open>parse_day\<close>: what \<open>strptime\<close> gives for the text, in the unit of the
  process. An exception is caught in the handler; an access behind the end of the row is undefined.
\<close>

section \<open>Conversions\<close>

definition is_digit :: "char \<Rightarrow> bool" where
  "is_digit c \<longleftrightarrow> (48 :: nat) \<le> of_char c \<and> (of_char c :: nat) \<le> 57"

definition is_space :: "char \<Rightarrow> bool" where
  "is_space c \<longleftrightarrow> c = CHR '' '' \<or> ((9 :: nat) \<le> of_char c \<and> (of_char c :: nat) \<le> 13)"

definition skip_space :: "string \<Rightarrow> string" where
  "skip_space s = dropWhile is_space s"

definition read_sign :: "string \<Rightarrow> bool \<times> string" where
  "read_sign s =
     (case s of
        c # cs \<Rightarrow> if c = CHR ''-'' then (True, cs) else if c = CHR ''+'' then (False, cs) else (False, s)
      | [] \<Rightarrow> (False, s))"

definition read_digits :: "string \<Rightarrow> string \<times> string" where
  "read_digits s = (takeWhile is_digit s, dropWhile is_digit s)"

text \<open>\<open>std::stol\<close>: \<open>None\<close> is the exception, for a text without a number and one out of range.\<close>

definition stol :: "string \<Rightarrow> int option" where
  "stol s =
     (let (neg, s) = read_sign (skip_space s);
          (ds, _) = read_digits s;
          n = (if neg then - int (of_digits ds) else int (of_digits ds))
      in if ds = [] \<or> n < - (2 ^ 63) \<or> n \<ge> 2 ^ 63 then None else Some n)"

definition read_exponent :: "string \<Rightarrow> int" where
  "read_exponent s =
     (case s of
        c # cs \<Rightarrow>
          if c = CHR ''e'' \<or> c = CHR ''E''
          then (let (neg, cs) = read_sign cs; (ds, _) = read_digits cs
                in if neg then - int (of_digits ds) else int (of_digits ds))
          else 0
      | [] \<Rightarrow> 0)"

definition stod :: "string \<Rightarrow> double option" where
  "stod s =
     (let (neg, s) = read_sign (skip_space s);
          (whole, s) = read_digits s;
          (frac, s) = (case s of
                         c # cs \<Rightarrow> if c = CHR ''.'' then read_digits cs else ([], s)
                       | [] \<Rightarrow> ([], s));
          e = read_exponent s - int (length frac);
          m = of_nat (of_digits (whole @ frac));
          q = (if 0 \<le> e then m * 10 ^ nat e else m / 10 ^ nat (- e));
          d = mk neg (if neg then - q else q)
      in if whole @ frac = [] then None
         else case d of FInf _ \<Rightarrow> None | _ \<Rightarrow> Some d)"

section \<open>The service\<close>

record FileDataService =
  fds_reader :: "CSVReader option"
  fds_row_buffer :: "string list"
  fds_row_count :: nat
  fds_has_writer :: bool

definition FileDataService_new :: FileDataService where
  "FileDataService_new = \<lparr> fds_reader = None, fds_row_buffer = [], fds_row_count = 0, fds_has_writer = False \<rparr>"

definition fds_set_customer :: "FileDataService \<Rightarrow> FileDataService" where
  "fds_set_customer s = s\<lparr> fds_has_writer := True \<rparr>"

text \<open>\<open>setup\<close>, where \<open>content\<close> is what the named file holds, if it can be opened.\<close>

definition fds_setup :: "string option \<Rightarrow> FileDataService \<Rightarrow> FileDataService option" where
  "fds_setup content s =
     (case content of
        None \<Rightarrow> None
      | Some txt \<Rightarrow> Some (s\<lparr> fds_reader := Some (CSVReader_new CHR '','' CHR 0x22 txt) \<rparr>))"

definition fds_start :: "FileDataService \<Rightarrow> FileDataService" where
  "fds_start s =
     (case fds_reader s of
        None \<Rightarrow> s
      | Some r \<Rightarrow> if \<not> cr_is_open r then s else s\<lparr> fds_reader := Some (snd (read_header r)) \<rparr>)"

definition fds_stop :: "FileDataService \<Rightarrow> FileDataService" where
  "fds_stop s = s\<lparr> fds_reader := map_option cr_close (fds_reader s) \<rparr>"

definition fds_subscribe :: "InstrumentKey list \<Rightarrow> FileDataService \<Rightarrow> bool \<times> FileDataService" where
  "fds_subscribe keys s = (True, s)"

definition fds_unsubscribe :: "InstrumentKey list \<Rightarrow> FileDataService \<Rightarrow> bool \<times> FileDataService" where
  "fds_unsubscribe keys s = (True, s)"

text \<open>Outcomes inside the \<open>try\<close> block.\<close>

datatype 'a outcome = Undefined | Raised | Value 'a

definition column :: "(string \<Rightarrow> 'a option) \<Rightarrow> string list \<Rightarrow> nat \<Rightarrow> 'a outcome" where
  "column conv row i =
     (if i < length row then (case conv (row ! i) of None \<Rightarrow> Raised | Some v \<Rightarrow> Value v) else Undefined)"

fun then_do :: "'a outcome \<Rightarrow> ('a \<Rightarrow> 'b outcome) \<Rightarrow> 'b outcome" where
  "then_do (Value v) f = f v"
| "then_do Raised f = Raised"
| "then_do Undefined f = Undefined"

definition BACKTEST :: string where "BACKTEST = ''BACKTEST''"

definition Bar_zero :: Bar where
  "Bar_zero = \<lparr> bar_trading_day = arr_zero DATE_LEN, bar_instrument_id = arr_zero INSTRUMENT_ID_LEN,
     bar_exchange_id = arr_zero EXCHANGE_ID_LEN, bar_instrument_type = IT_Unknown,
     bar_start_time = 0, bar_end_time = 0, bar_open = 0, bar_close = 0, bar_low = 0, bar_high = 0,
     bar_volume = 0, bar_start_volume = 0, bar_tick_count = 0 \<rparr>"

definition row_prices :: "string list \<Rightarrow> Bar outcome" where
  "row_prices row =
     then_do (column stod row 1) (\<lambda>c. then_do (column stod row 2) (\<lambda>h. then_do (column stod row 3) (\<lambda>l.
     then_do (column stod row 4) (\<lambda>o'. then_do (column stol row 5) (\<lambda>v.
       Value (Bar_zero\<lparr> bar_close := c, bar_high := h, bar_low := l, bar_open := o', bar_volume := of_i64 v \<rparr>))))))"

text \<open>The bar of a row, if its dates are usable. \<open>now\<close> is the present time.\<close>

definition row_bar :: "(string \<Rightarrow> int) \<Rightarrow> TimeUnit \<Rightarrow> int \<Rightarrow> string list \<Rightarrow> Bar option outcome" where
  "row_bar parse_day unit now row =
     then_do (row_prices row) (\<lambda>bar.
       let (start_time, end_time) = time_range unit now (parse_day (row ! 0))
       in if start_time \<le> 0 \<or> end_time \<le> 0 then Value None
          else Value (Some (bar
            \<lparr> bar_start_time := start_time, bar_end_time := end_time,
              bar_instrument_id := BACKTEST @ drop (length BACKTEST) (bar_instrument_id bar),
              bar_exchange_id := BACKTEST @ drop (length BACKTEST) (bar_exchange_id bar),
              bar_instrument_type := IT_Stock, bar_tick_count := 1, bar_start_volume := 0 \<rparr>)))"

text \<open>
  \<open>handle_backtest_sync_signal\<close>: the answer, the events written, and the service; \<open>None\<close> is
  undefined behaviour. The flag of the signal is not looked at.
\<close>

definition fds_sync ::
    "(string \<Rightarrow> int) \<Rightarrow> TimeUnit \<Rightarrow> int \<Rightarrow> SyncFlag \<Rightarrow> FileDataService \<Rightarrow> (bool \<times> Event list \<times> FileDataService) option" where
  "fds_sync parse_day unit now flag s =
     (case fds_reader s of
        None \<Rightarrow> None
      | Some r \<Rightarrow>
          let (ok, row, r) = read_row_into (fds_row_buffer s) r;
              s = s\<lparr> fds_reader := Some r, fds_row_buffer := row \<rparr>
          in if \<not> ok then Some (False, if fds_has_writer s then [Ev_Termination] else [], s)
             else case row_bar parse_day unit now row of
                    Undefined \<Rightarrow> None
                  | Raised \<Rightarrow> Some (True, [], s)
                  | Value None \<Rightarrow> Some (True, [], s)
                  | Value (Some bar) \<Rightarrow>
                      if fds_has_writer s
                      then Some (True, [Ev_Bar bar], s\<lparr> fds_row_count := Suc (fds_row_count s) \<rparr>)
                      else Some (True, [], s))"

end
