(* ===== verification/Journal.thy ===== *)
theory Journal
  imports Types Hash
begin

text \<open>
  The journal (src/core/journal/frame.h, page.h, page.cpp, journal.h, journal.cpp, writer.h,
  writer.cpp): messages between the processes are frames, written one behind the other into
  memory-mapped pages. One journal is a directory of pages, an ordered map from page ids to
  pages; a page is its header and, for every byte offset a frame can start at, the frame found
  there. A frame is its header and its data bytes. What a shorter frame leaves of the bytes of an
  older one inside its own extent is not represented: no reader starts there.

  A failed \<open>assert\<close> and a thrown \<open>JournalError\<close> are \<open>None\<close>. The writer's lock is held by one
  thread at a time, so its operations are sequential. The store is passed explicitly, because the
  readers of a journal map the same pages.
\<close>

section \<open>Frames and pages\<close>

record Frame =
  fr_length :: nat
  fr_header_length :: nat
  fr_gen_time :: int
  fr_trigger_time :: int
  fr_msg_type :: nat
  fr_source :: u32
  fr_dest :: u32
  fr_data :: "u8 list"

definition Frame_zero :: Frame where
  "Frame_zero = \<lparr> fr_length = 0, fr_header_length = 0, fr_gen_time = 0, fr_trigger_time = 0,
                  fr_msg_type = 0, fr_source = 0, fr_dest = 0, fr_data = [] \<rparr>"

definition FRAME_HEADER :: nat where "FRAME_HEADER = 40"
definition PAGE_HEADER :: nat where "PAGE_HEADER = 24"
definition JOURNAL_VERSION :: nat where "JOURNAL_VERSION = 4"

lemmas journal_consts = FRAME_HEADER_def PAGE_HEADER_def

definition has_data :: "Frame \<Rightarrow> bool" where
  "has_data f \<longleftrightarrow> fr_length f > 0 \<and> fr_msg_type f > 0"

definition data_length :: "Frame \<Rightarrow> nat" where
  "data_length f = fr_length f - fr_header_length f"

record Page =
  pg_version :: nat
  pg_header_length :: nat
  pg_size :: nat
  pg_frame_header_length :: nat
  pg_last :: nat
  pg_mem :: "nat \<Rightarrow> Frame"

text \<open>A new file is all zero.\<close>

definition Page_zero :: Page where
  "Page_zero = \<lparr> pg_version = 0, pg_header_length = 0, pg_size = 0, pg_frame_header_length = 0,
                 pg_last = 0, pg_mem = (\<lambda>_. Frame_zero) \<rparr>"

type_synonym store = "(nat, Page) omap"

definition address_border :: "Page \<Rightarrow> nat" where
  "address_border p = pg_size p - FRAME_HEADER"

definition begin_time :: "Page \<Rightarrow> int" where
  "begin_time p = fr_gen_time (pg_mem p (pg_header_length p))"

definition end_time :: "Page \<Rightarrow> int" where
  "end_time p = fr_gen_time (pg_mem p (pg_last p))"

definition is_full :: "Page \<Rightarrow> bool" where
  "is_full p \<longleftrightarrow> pg_last p + fr_length (pg_mem p (pg_last p)) > address_border p"

definition find_page_size :: "Module \<Rightarrow> nat" where
  "find_page_size category =
     (case category of
        Module_MD \<Rightarrow> 128 * 1048576
      | Module_TD \<Rightarrow> 16 * 1048576
      | Module_STRATEGY \<Rightarrow> 16 * 1048576
      | _ \<Rightarrow> 1048576)"

definition init_page :: "nat \<Rightarrow> Page \<Rightarrow> Page" where
  "init_page size' p =
     (if pg_last p = 0
      then p\<lparr> pg_version := JOURNAL_VERSION, pg_header_length := PAGE_HEADER, pg_size := size',
              pg_frame_header_length := FRAME_HEADER, pg_last := PAGE_HEADER \<rparr>
      else p)"

definition page_valid :: "nat \<Rightarrow> Page \<Rightarrow> bool" where
  "page_valid size' p \<longleftrightarrow>
     pg_version p = JOURNAL_VERSION \<and> pg_header_length p = PAGE_HEADER \<and> pg_size p = size'"

text \<open>\<open>PageUnit::load\<close>: maps the file, creating it, and initialises the header of a new one.\<close>

definition page_at :: "store \<Rightarrow> nat \<Rightarrow> Page" where
  "page_at st pid = (case omap_find st pid of Some p \<Rightarrow> p | None \<Rightarrow> Page_zero)"

definition load_unit :: "nat \<Rightarrow> store \<Rightarrow> nat \<Rightarrow> store option" where
  "load_unit size' st pid =
     (let p = init_page size' (page_at st pid)
      in if page_valid size' p then Some (omap_set pid p st) else None)"

definition list_page_id :: "store \<Rightarrow> nat list" where
  "list_page_id st = List.map fst st"

text \<open>\<open>PageUnit::find_page_id\<close>: the last page that begins before the time.\<close>

definition find_page_id :: "store \<Rightarrow> int \<Rightarrow> nat" where
  "find_page_id st time =
     (if st = [] then 1
      else if time = 0 then hd (list_page_id st)
      else case List.find (\<lambda>pid. begin_time (page_at st pid) < time) (rev (list_page_id st)) of
             Some pid \<Rightarrow> pid
           | None \<Rightarrow> hd (list_page_id st))"

section \<open>A position in a journal\<close>

record Journal =
  jn_uid :: u32
  jn_dest :: u32
  jn_size :: nat
  jn_writing :: bool
  jn_page :: nat
  jn_pos :: nat
  jn_frame_nb :: nat
  jn_in_rollback :: nat

definition current_page :: "store \<Rightarrow> Journal \<Rightarrow> Page" where
  "current_page st j = page_at st (jn_page j)"

definition current_frame :: "store \<Rightarrow> Journal \<Rightarrow> Frame" where
  "current_frame st j = pg_mem (current_page st j) (jn_pos j)"

definition upd_page :: "nat \<Rightarrow> (Page \<Rightarrow> Page) \<Rightarrow> store \<Rightarrow> store" where
  "upd_page pid f st = omap_set pid (f (page_at st pid)) st"

definition upd_frame :: "nat \<Rightarrow> nat \<Rightarrow> (Frame \<Rightarrow> Frame) \<Rightarrow> store \<Rightarrow> store" where
  "upd_frame pid a f = upd_page pid (\<lambda>p. p\<lparr> pg_mem := (pg_mem p)(a := f (pg_mem p a)) \<rparr>)"

text \<open>\<open>load_page\<close>: the page is mapped unless it is the current one already.\<close>

definition load_page :: "store \<Rightarrow> Journal \<Rightarrow> nat \<Rightarrow> (store \<times> Journal) option" where
  "load_page st j pid =
     (let at_start = (\<lambda>st. (st, j\<lparr> jn_page := pid, jn_pos := pg_header_length (page_at st pid), jn_frame_nb := 0 \<rparr>))
      in if jn_page j \<noteq> pid then map_option at_start (load_unit (jn_size j) st pid)
         else Some (at_start st))"

definition wipe_page :: "Page \<Rightarrow> Page" where
  "wipe_page p = p\<lparr> pg_last := pg_header_length p, pg_mem := (\<lambda>_. Frame_zero) \<rparr>"

text \<open>\<open>load_next_page\<close>, with the static \<open>s_page_rollback_size\<close> as \<open>rb\<close>.\<close>

definition load_next_page :: "nat \<Rightarrow> store \<Rightarrow> Journal \<Rightarrow> (store \<times> Journal) option" where
  "load_next_page rb st j =
     (if rb = 0 \<or> jn_page j < rb
      then
        let old_page_id = jn_page j
        in case load_page st j (old_page_id + 1) of
             None \<Rightarrow> None
           | Some (st, j) \<Rightarrow>
               if jn_writing j \<and> jn_in_rollback j = old_page_id
               then Some (upd_page (jn_page j) wipe_page st, j\<lparr> jn_in_rollback := jn_page j \<rparr>)
               else Some (st, j)
      else
        case load_page st j 1 of
          None \<Rightarrow> None
        | Some (st, j) \<Rightarrow>
            if jn_writing j
            then Some (upd_page (jn_page j) wipe_page st, j\<lparr> jn_in_rollback := 1 \<rparr>)
            else Some (st, j))"

text \<open>\<open>next\<close>: the tag of a page end is the tag number 0, which an empty frame has too.\<close>

definition journal_next :: "nat \<Rightarrow> store \<Rightarrow> Journal \<Rightarrow> (store \<times> Journal) option" where
  "journal_next rb st j =
     (if fr_msg_type (current_frame st j) = tag_num Tag_PageEnd then load_next_page rb st j
      else Some (st, j\<lparr> jn_pos := jn_pos j + fr_length (current_frame st j), jn_frame_nb := jn_frame_nb j + 1 \<rparr>))"

text \<open>
  \<open>seek_to_time\<close>: two loops, over pages and over frames. With a rollback the first may go round
  for ever, so both are partial functions; not returning is \<open>None\<close>.
\<close>

partial_function (option) seek_pages :: "nat \<Rightarrow> int \<Rightarrow> store \<Rightarrow> Journal \<Rightarrow> (store \<times> Journal) option" where
  "seek_pages rb time st j =
     (if is_full (current_page st j) \<and> end_time (current_page st j) \<le> time
      then Option.bind (load_next_page rb st j) (\<lambda>sj. seek_pages rb time (fst sj) (snd sj))
      else Some (st, j))"

partial_function (option) seek_frames :: "nat \<Rightarrow> int \<Rightarrow> store \<Rightarrow> Journal \<Rightarrow> (store \<times> Journal) option" where
  "seek_frames rb time st j =
     (if has_data (current_frame st j) \<and> fr_gen_time (current_frame st j) \<le> time
      then Option.bind (journal_next rb st j) (\<lambda>sj. seek_frames rb time (fst sj) (snd sj))
      else Some (st, j))"

definition seek_to_time :: "nat \<Rightarrow> int \<Rightarrow> store \<Rightarrow> Journal \<Rightarrow> (store \<times> Journal) option" where
  "seek_to_time rb time st j =
     (case load_page st j (find_page_id st time) of
        None \<Rightarrow> None
      | Some (st, j) \<Rightarrow>
          (case seek_pages rb time st j of
             None \<Rightarrow> None
           | Some (st, j) \<Rightarrow> seek_frames rb time st j))"

section \<open>The writer\<close>

definition close_page :: "nat \<Rightarrow> int \<Rightarrow> int \<Rightarrow> store \<Rightarrow> Journal \<Rightarrow> (store \<times> Journal) option" where
  "close_page rb now trigger_time st j =
     (case load_next_page rb st j of
        None \<Rightarrow> None
      | Some (st1, j1) \<Rightarrow>
          let last_page = page_at st1 (jn_page j);
              a = pg_last last_page + fr_length (pg_mem last_page (pg_last last_page));
              st2 = upd_frame (jn_page j) a
                (\<lambda>f. f\<lparr> fr_header_length := FRAME_HEADER, fr_trigger_time := trigger_time,
                       fr_msg_type := tag_num Tag_PageEnd, fr_source := jn_uid j, fr_dest := jn_dest j,
                       fr_gen_time := now, fr_length := FRAME_HEADER \<rparr>) st1
          in Some (upd_page (jn_page j) (\<lambda>p. p\<lparr> pg_last := a \<rparr>) st2, j1))"

definition open_frame ::
    "nat \<Rightarrow> int \<Rightarrow> int \<Rightarrow> nat \<Rightarrow> nat \<Rightarrow> store \<Rightarrow> Journal \<Rightarrow> (store \<times> Journal) option" where
  "open_frame rb now trigger_time msg_type len st j =
     (if \<not> FRAME_HEADER + len + FRAME_HEADER \<le> pg_size (current_page st j) then None
      else
        case (if jn_pos j + FRAME_HEADER + len \<ge> address_border (current_page st j)
              then close_page rb now trigger_time st j else Some (st, j)) of
          None \<Rightarrow> None
        | Some (st, j) \<Rightarrow>
            Some (upd_frame (jn_page j) (jn_pos j)
              (\<lambda>f. f\<lparr> fr_header_length := FRAME_HEADER, fr_trigger_time := trigger_time,
                     fr_msg_type := msg_type, fr_source := jn_uid j, fr_dest := jn_dest j \<rparr>) st, j))"

definition close_frame :: "nat \<Rightarrow> int \<Rightarrow> nat \<Rightarrow> store \<Rightarrow> Journal \<Rightarrow> (store \<times> Journal) option" where
  "close_frame rb gen_time len st j =
     (let a = jn_pos j + fr_header_length (current_frame st j) + len
      in if \<not> a < address_border (current_page st j) then None
         else
           let st1 = upd_frame (jn_page j) a (\<lambda>_. Frame_zero) st;
               st2 = upd_frame (jn_page j) (jn_pos j)
                       (\<lambda>f. f\<lparr> fr_gen_time := gen_time, fr_length := fr_header_length f + len \<rparr>) st1;
               st3 = upd_page (jn_page j) (\<lambda>p. p\<lparr> pg_last := jn_pos j \<rparr>) st2
           in journal_next rb st3 j)"

text \<open>\<open>write\<close>: open, copy the data, close. \<open>now\<close> stamps a page end, \<open>gen_time\<close> the frame.\<close>

definition writer_write ::
    "nat \<Rightarrow> int \<Rightarrow> int \<Rightarrow> int \<Rightarrow> nat \<Rightarrow> u8 list \<Rightarrow> store \<Rightarrow> Journal \<Rightarrow> (store \<times> Journal) option" where
  "writer_write rb now gen_time trigger_time msg_type data st j =
     (case open_frame rb now trigger_time msg_type (length data) st j of
        None \<Rightarrow> None
      | Some (st, j) \<Rightarrow>
          close_frame rb gen_time (length data) (upd_frame (jn_page j) (jn_pos j) (\<lambda>f. f\<lparr> fr_data := data \<rparr>) st) j)"

definition writer_mark :: "nat \<Rightarrow> int \<Rightarrow> int \<Rightarrow> int \<Rightarrow> nat \<Rightarrow> store \<Rightarrow> Journal \<Rightarrow> (store \<times> Journal) option" where
  "writer_mark rb now gen_time trigger_time msg_type st j =
     (case open_frame rb now trigger_time msg_type 0 st j of
        None \<Rightarrow> None
      | Some (st, j) \<Rightarrow> close_frame rb gen_time 0 st j)"

definition write_as ::
    "nat \<Rightarrow> int \<Rightarrow> int \<Rightarrow> int \<Rightarrow> nat \<Rightarrow> u8 list \<Rightarrow> u32 \<Rightarrow> u32 \<Rightarrow> store \<Rightarrow> Journal \<Rightarrow> (store \<times> Journal) option" where
  "write_as rb now gen_time trigger_time msg_type data source dest st j =
     (case open_frame rb now trigger_time msg_type (length data) st j of
        None \<Rightarrow> None
      | Some (st, j) \<Rightarrow>
          close_frame rb gen_time (length data)
            (upd_frame (jn_page j) (jn_pos j)
               (\<lambda>f. f\<lparr> fr_data := data, fr_source := source, fr_dest := dest \<rparr>) st) j)"

definition copy_frame :: "nat \<Rightarrow> int \<Rightarrow> int \<Rightarrow> Frame \<Rightarrow> store \<Rightarrow> Journal \<Rightarrow> (store \<times> Journal) option" where
  "copy_frame rb now trigger_time source st j =
     (if \<not> fr_length source + FRAME_HEADER \<le> pg_size (current_page st j) then None
      else
        case (if jn_pos j + fr_length source \<ge> address_border (current_page st j)
              then close_page rb now trigger_time st j else Some (st, j)) of
          None \<Rightarrow> None
        | Some (st, j) \<Rightarrow>
            let st1 = upd_frame (jn_page j) (jn_pos j) (\<lambda>_. source) st;
                f = current_frame st1 j;
                st2 = upd_frame (jn_page j) (jn_pos j + fr_header_length f + data_length f) (\<lambda>_. Frame_zero) st1;
                st3 = upd_page (jn_page j) (\<lambda>p. p\<lparr> pg_last := jn_pos j \<rparr>) st2
            in journal_next rb st3 j)"

text \<open>
  The writer's constructor: the journal is opened at the present time. \<open>start_time\<close> is the hash of
  the time the writer was made.
\<close>

definition journal_new :: "u32 \<Rightarrow> u32 \<Rightarrow> nat \<Rightarrow> bool \<Rightarrow> Journal" where
  "journal_new uid dest len writing =
     \<lparr> jn_uid = uid, jn_dest = dest, jn_size = len, jn_writing = writing, jn_page = 0, jn_pos = 0,
       jn_frame_nb = 0, jn_in_rollback = 0 \<rparr>"

unbundle bit_operations_syntax

definition frame_id_base :: "u32 \<Rightarrow> u32 \<Rightarrow> u64" where
  "frame_id_base uid dest = push_bit 32 (ucast (uid XOR dest))"

definition current_frame_uid :: "u32 \<Rightarrow> Journal \<Rightarrow> u64" where
  "current_frame_uid start_time j =
     (let page_part = push_bit 16 (word_of_nat (jn_page j) :: u32) AND 0xFFFF0000;
          frame_part = (word_of_nat (jn_frame_nb j) :: u32) AND 0x0000FFFF
      in frame_id_base (jn_uid j) (jn_dest j) OR ucast ((page_part OR frame_part) XOR start_time))"

text \<open>The account an order belongs to, read back from the order id when it is cancelled.\<close>

definition to_account_uid :: "u64 \<Rightarrow> u32 \<Rightarrow> u32" where
  "to_account_uid order_id location_uid = ucast (drop_bit 32 order_id) XOR location_uid"

section \<open>Pages under update\<close>

lemma PageEnd_0 [simp]: "tag_num Tag_PageEnd = 0"
  by simp

lemma page_at_set [simp]: "page_at (omap_set pid p st) pid' = (if pid = pid' then p else page_at st pid')"
  by (simp add: page_at_def)

lemma page_at_upd [simp]:
  "page_at (upd_page pid f st) pid' = (if pid = pid' then f (page_at st pid) else page_at st pid')"
  by (simp add: upd_page_def)

lemma page_at_upd_frame [simp]:
  "page_at (upd_frame pid a f st) pid' =
     (if pid = pid' then (page_at st pid)\<lparr> pg_mem := (pg_mem (page_at st pid))(a := f (pg_mem (page_at st pid) a)) \<rparr>
      else page_at st pid')"
  by (simp add: upd_frame_def)

lemma address_border_mem [simp]:
  "address_border (p\<lparr> pg_mem := m \<rparr>) = address_border p" "address_border (p\<lparr> pg_last := l \<rparr>) = address_border p"
  by (simp_all add: address_border_def)

lemma page_valid_upd [simp]:
  "page_valid n (p\<lparr> pg_mem := m \<rparr>) = page_valid n p" "page_valid n (p\<lparr> pg_last := l \<rparr>) = page_valid n p"
  by (simp_all add: page_valid_def)

lemma border_valid: "page_valid n p \<Longrightarrow> address_border p = n - FRAME_HEADER"
  by (simp add: page_valid_def address_border_def)

section \<open>Frames behind one another\<close>

text \<open>The frames from offset \<open>a\<close> on are \<open>fs\<close>, each with its header and data, up to offset \<open>b\<close>.\<close>

fun frames :: "(nat \<Rightarrow> Frame) \<Rightarrow> nat \<Rightarrow> Frame list \<Rightarrow> nat \<Rightarrow> bool" where
  "frames m a [] b \<longleftrightarrow> a = b"
| "frames m a (f # fs) b \<longleftrightarrow>
     m a = f \<and> 0 < fr_msg_type f \<and> fr_header_length f = FRAME_HEADER \<and>
     fr_length f = FRAME_HEADER + length (fr_data f) \<and> frames m (a + fr_length f) fs b"

lemma frames_ConsD:
  "frames m a (f # fs) b \<Longrightarrow> m a = f \<and> 0 < fr_msg_type f"
  "frames m a (f # fs) b \<Longrightarrow> frames m (a + fr_length f) fs b"
  by (simp, unfold frames.simps, elim conjE)

lemma frames_le: "frames m a fs b \<Longrightarrow> a \<le> b"
  by (induction m a fs b rule: frames.induct) auto

lemma frames_append: "frames m a (fs @ gs) c \<longleftrightarrow> (\<exists>b. frames m a fs b \<and> frames m b gs c)"
  by (induction fs arbitrary: a) auto

text \<open>An update behind the frames keeps them.\<close>

lemma frames_upd: "\<lbrakk> frames m a fs b; b \<le> c \<rbrakk> \<Longrightarrow> frames (m(c := f)) a fs b"
proof (induction m a fs b rule: frames.induct)
  case (2 m a g fs b)
  have "frames m (a + fr_length g) fs b" using "2.prems"(1) by (rule frames_ConsD)
  then have "a + fr_length g \<le> b" by (rule frames_le)
  moreover have "0 < fr_length g" using "2.prems" by (simp add: journal_consts)
  ultimately have "a \<noteq> c" using "2.prems"(2) by linarith
  with 2 show ?case by auto
qed simp

lemma frames_has_data: "frames m a (f # fs) b \<Longrightarrow> has_data (m a)"
  by (simp add: has_data_def journal_consts)

text \<open>The frames of a page a writer stands at the end of.\<close>

definition writer_at :: "store \<Rightarrow> Journal \<Rightarrow> Frame list \<Rightarrow> bool" where
  "writer_at st j fs \<longleftrightarrow>
     page_valid (jn_size j) (current_page st j) \<and>
     frames (pg_mem (current_page st j)) PAGE_HEADER fs (jn_pos j) \<and>
     fr_length (current_frame st j) = 0 \<and>
     jn_pos j < address_border (current_page st j) \<and>
     pg_last (current_page st j) + fr_length (pg_mem (current_page st j) (pg_last (current_page st j))) = jn_pos j \<and>
     0 < pg_last (current_page st j)"

definition written :: "Journal \<Rightarrow> int \<Rightarrow> int \<Rightarrow> nat \<Rightarrow> u8 list \<Rightarrow> Frame" where
  "written j gen_time trigger_time msg_type data =
     \<lparr> fr_length = FRAME_HEADER + length data, fr_header_length = FRAME_HEADER, fr_gen_time = gen_time,
       fr_trigger_time = trigger_time, fr_msg_type = msg_type, fr_source = jn_uid j, fr_dest = jn_dest j,
       fr_data = data \<rparr>"

definition fits :: "store \<Rightarrow> Journal \<Rightarrow> nat \<Rightarrow> bool" where
  "fits st j len \<longleftrightarrow> jn_pos j + FRAME_HEADER + len < address_border (current_page st j)"

text \<open>The two halves of a write on the current page.\<close>

definition put_frame :: "Journal \<Rightarrow> Frame \<Rightarrow> store \<Rightarrow> store" where
  "put_frame j f st = upd_page (jn_page j)
     (\<lambda>p. p\<lparr> pg_mem := (pg_mem p)(jn_pos j + fr_length f := Frame_zero, jn_pos j := f), pg_last := jn_pos j \<rparr>) st"

lemma omap_set_set [simp]: "omap_set k v (omap_set k w m) = omap_set k v m"
proof (induction m)
  case (Cons a m)
  then show ?case by (cases a) auto
qed simp

lemma write_fits:
  assumes "fits st j (length data)" "0 < msg_type" "page_valid (jn_size j) (current_page st j)"
  shows "writer_write rb now gen_time trigger_time msg_type data st j =
    Some (put_frame j (written j gen_time trigger_time msg_type data) st,
          j\<lparr> jn_pos := jn_pos j + (FRAME_HEADER + length data), jn_frame_nb := jn_frame_nb j + 1 \<rparr>)"
proof -
  define p where "p = page_at st (jn_page j)"
  have b: "jn_pos j + FRAME_HEADER + length data < pg_size p - FRAME_HEADER"
    using assms(1) by (simp add: fits_def current_page_def address_border_def p_def)
  define st1 where "st1 = upd_frame (jn_page j) (jn_pos j)
     (\<lambda>f. f\<lparr> fr_header_length := FRAME_HEADER, fr_trigger_time := trigger_time,
            fr_msg_type := msg_type, fr_source := jn_uid j, fr_dest := jn_dest j \<rparr>) st"
  have o: "open_frame rb now trigger_time msg_type (length data) st j = Some (st1, j)"
    using b by (simp add: open_frame_def current_page_def p_def [symmetric] address_border_def st1_def)
  define st2 where "st2 = upd_frame (jn_page j) (jn_pos j) (\<lambda>f. f\<lparr> fr_data := data \<rparr>) st1"
  have "close_frame rb gen_time (length data) st2 j =
    Some (put_frame j (written j gen_time trigger_time msg_type data) st,
          j\<lparr> jn_pos := jn_pos j + (FRAME_HEADER + length data), jn_frame_nb := jn_frame_nb j + 1 \<rparr>)"
    using b assms(2)
    by (cases "pg_mem p (jn_pos j)")
      (simp add: close_frame_def current_page_def current_frame_def st2_def st1_def p_def [symmetric]
        address_border_def journal_next_def put_frame_def written_def upd_frame_def upd_page_def Let_def
        fun_upd_twist journal_consts add.assoc)
  then show ?thesis by (simp add: writer_write_def o st2_def)
qed

text \<open>A write that fits appends one frame to the frames of the page.\<close>

lemma writer_at_write:
  assumes w: "writer_at st j fs" and fit: "fits st j (length data)" and type: "0 < msg_type"
    and wr: "writer_write rb now gen_time trigger_time msg_type data st j = Some (st', j')"
  shows "writer_at st' j' (fs @ [written j gen_time trigger_time msg_type data])"
    and "jn_page j' = jn_page j" "jn_size j' = jn_size j" "jn_uid j' = jn_uid j" "jn_dest j' = jn_dest j"
    and "jn_pos j' = jn_pos j + (FRAME_HEADER + length data)"
    and "jn_frame_nb j' = jn_frame_nb j + 1"
    and "pid \<noteq> jn_page j \<Longrightarrow> page_at st' pid = page_at st pid"
    and "address_border (current_page st' j') = address_border (current_page st j)"
proof -
  define f where "f = written j gen_time trigger_time msg_type data"
  have fl: "fr_length f = FRAME_HEADER + length data" "fr_header_length f = FRAME_HEADER"
    "fr_msg_type f = msg_type" "fr_data f = data"
    by (simp_all add: f_def written_def)
  have v: "page_valid (jn_size j) (current_page st j)" using w by (simp add: writer_at_def)
  from write_fits [OF fit type v, of rb now gen_time trigger_time] wr
  have st': "st' = put_frame j f st"
    and j': "j' = j\<lparr> jn_pos := jn_pos j + (FRAME_HEADER + length data), jn_frame_nb := jn_frame_nb j + 1 \<rparr>"
    by (simp_all add: f_def)
  show jn: "jn_page j' = jn_page j" "jn_size j' = jn_size j" "jn_uid j' = jn_uid j" "jn_dest j' = jn_dest j"
    "jn_pos j' = jn_pos j + (FRAME_HEADER + length data)" "jn_frame_nb j' = jn_frame_nb j + 1"
    by (simp_all add: j')
  show "pid \<noteq> jn_page j \<Longrightarrow> page_at st' pid = page_at st pid" by (simp add: st' put_frame_def)
  show bd: "address_border (current_page st' j') = address_border (current_page st j)"
    by (simp add: st' j' put_frame_def current_page_def)
  let ?m = "pg_mem (current_page st j)"
  let ?m' = "?m(jn_pos j + fr_length f := Frame_zero, jn_pos j := f)"
  have cur: "current_page st' j' = (current_page st j)\<lparr> pg_mem := ?m', pg_last := jn_pos j \<rparr>"
    by (simp add: st' j' put_frame_def current_page_def)
  have "frames ?m PAGE_HEADER fs (jn_pos j)" using w by (simp add: writer_at_def)
  then have "frames ?m' PAGE_HEADER fs (jn_pos j)" by (intro frames_upd) simp_all
  moreover have "frames ?m' (jn_pos j) [f] (jn_pos j + (FRAME_HEADER + length data))"
    using type fl by simp
  ultimately have "frames ?m' PAGE_HEADER (fs @ [f]) (jn_pos j + (FRAME_HEADER + length data))"
    using frames_append by blast
  moreover have "jn_pos j + (FRAME_HEADER + length data) < address_border (current_page st j)"
    using fit by (simp add: fits_def)
  moreover have "PAGE_HEADER \<le> jn_pos j" using w frames_le by (auto simp: writer_at_def)
  ultimately show "writer_at st' j' (fs @ [written j gen_time trigger_time msg_type data])"
    using v fl jn unfolding writer_at_def current_frame_def bd f_def [symmetric] cur
    by (simp add: Frame_zero_def journal_consts)
qed

section \<open>Reading\<close>

text \<open>A single journal read as long as its current frame has data, at most \<open>n\<close> frames.\<close>

primrec read_frames :: "nat \<Rightarrow> nat \<Rightarrow> store \<Rightarrow> Journal \<Rightarrow> (Frame list \<times> store \<times> Journal) option" where
  "read_frames rb 0 st j = Some ([], st, j)"
| "read_frames rb (Suc n) st j =
     (if has_data (current_frame st j)
      then (case journal_next rb st j of
              None \<Rightarrow> None
            | Some (st', j') \<Rightarrow>
                map_option (\<lambda>(fs, sj). (current_frame st j # fs, sj)) (read_frames rb n st' j'))
      else Some ([], st, j))"

lemma read_frames_exact:
  assumes "frames (pg_mem (current_page st r)) (jn_pos r) fs b"
    "\<not> has_data (pg_mem (current_page st r) b)" "length fs \<le> n"
  shows "read_frames rb n st r = Some (fs, st, r\<lparr> jn_pos := b, jn_frame_nb := jn_frame_nb r + length fs \<rparr>)"
  using assms
proof (induction fs arbitrary: r n)
  case Nil
  then show ?case by (cases n) (simp_all add: current_frame_def)
next
  case (Cons f fs)
  then obtain n' where n: "n = Suc n'" by (cases n) auto
  have f: "current_frame st r = f" "0 < fr_msg_type f" "frames (pg_mem (current_page st r)) (jn_pos r + fr_length f) fs b"
    using frames_ConsD [OF Cons.prems(1)] by (simp_all add: current_frame_def)
  have h: "has_data (current_frame st r)"
    using frames_has_data [OF Cons.prems(1)] by (simp add: current_frame_def)
  define r' where "r' = r\<lparr> jn_pos := jn_pos r + fr_length f, jn_frame_nb := jn_frame_nb r + 1 \<rparr>"
  have "journal_next rb st r = Some (st, r')" using f by (simp add: journal_next_def r'_def)
  moreover have "read_frames rb n' st r' = Some (fs, st, r'\<lparr> jn_pos := b, jn_frame_nb := jn_frame_nb r' + length fs \<rparr>)"
    using Cons.prems f n by (intro Cons.IH) (simp_all add: r'_def current_page_def)
  ultimately show ?case using h f by (simp add: n r'_def)
qed

text \<open>A list of messages, written one after the other.\<close>

record Msg =
  msg_gen :: int
  msg_trigger :: int
  msg_tag :: nat
  msg_bytes :: "u8 list"

primrec write_all :: "nat \<Rightarrow> int \<Rightarrow> Msg list \<Rightarrow> store \<Rightarrow> Journal \<Rightarrow> (store \<times> Journal) option" where
  "write_all rb now [] st j = Some (st, j)"
| "write_all rb now (x # xs) st j =
     (case writer_write rb now (msg_gen x) (msg_trigger x) (msg_tag x) (msg_bytes x) st j of
        None \<Rightarrow> None | Some (st', j') \<Rightarrow> write_all rb now xs st' j')"

definition msgs_size :: "Msg list \<Rightarrow> nat" where
  "msgs_size xs = sum_list (List.map (\<lambda>x. FRAME_HEADER + length (msg_bytes x)) xs)"

definition frame_of :: "Journal \<Rightarrow> Msg \<Rightarrow> Frame" where
  "frame_of j x = written j (msg_gen x) (msg_trigger x) (msg_tag x) (msg_bytes x)"

lemma write_all_fits:
  assumes "writer_at st j fs" "jn_pos j + msgs_size xs < address_border (current_page st j)"
    "\<forall>x \<in> set xs. 0 < msg_tag x"
  shows "\<exists>st' j'. write_all rb now xs st j = Some (st', j') \<and>
    writer_at st' j' (fs @ List.map (frame_of j) xs) \<and> jn_page j' = jn_page j \<and>
    jn_pos j' = jn_pos j + msgs_size xs \<and> jn_frame_nb j' = jn_frame_nb j + length xs \<and>
    jn_uid j' = jn_uid j \<and> jn_dest j' = jn_dest j"
  using assms
proof (induction xs arbitrary: st j fs)
  case (Cons x xs)
  have fit: "fits st j (length (msg_bytes x))" "0 < msg_tag x"
    using Cons.prems(2,3) by (simp_all add: fits_def msgs_size_def)
  have v: "page_valid (jn_size j) (current_page st j)" using Cons.prems(1) by (simp add: writer_at_def)
  obtain st1 j1 where w: "writer_write rb now (msg_gen x) (msg_trigger x) (msg_tag x) (msg_bytes x) st j = Some (st1, j1)"
    using write_fits [OF fit v] by blast
  note e = writer_at_write [OF Cons.prems(1) fit w]
  have fo: "frame_of j1 = frame_of j" using e by (simp add: fun_eq_iff frame_of_def written_def)
  have "jn_pos j1 + msgs_size xs < address_border (current_page st1 j1)"
    using Cons.prems(2) e by (simp add: msgs_size_def)
  from Cons.IH [OF e(1) this] Cons.prems(3) show ?case
    using w e by (simp add: fo frame_of_def [symmetric] msgs_size_def add.assoc)
qed (simp add: msgs_size_def)

lemma frames_end: "frames m a fs b \<Longrightarrow> b = a + sum_list (List.map fr_length fs)"
proof (induction fs arbitrary: a)
  case (Cons f fs)
  from Cons.IH [OF frames_ConsD(2) [OF Cons.prems]] show ?case by simp
qed simp

lemma frames_tail:
  assumes "frames m a (fs @ gs) c" "frames m' a fs b"
  shows "frames m b gs c"
proof -
  from assms(1) obtain b' where "frames m a fs b'" "frames m b' gs c" by (auto simp: frames_append)
  moreover have "b' = b" using frames_end [OF calculation(1)] frames_end [OF assms(2)] by simp
  ultimately show ?thesis by simp
qed

section \<open>Pages in sequence\<close>

lemma init_new_page:
  "page_valid n (init_page n Page_zero)" "address_border (init_page n Page_zero) = n - FRAME_HEADER"
  "pg_header_length (init_page n Page_zero) = PAGE_HEADER" "pg_last (init_page n Page_zero) = PAGE_HEADER"
  "pg_mem (init_page n Page_zero) = (\<lambda>_. Frame_zero)" "pg_size (init_page n Page_zero) = n"
  by (simp_all add: init_page_def Page_zero_def page_valid_def address_border_def)

lemma load_new_page:
  assumes "omap_find st pid = None" "jn_page j \<noteq> pid"
  shows "load_page st j pid = Some (omap_set pid (init_page (jn_size j) Page_zero) st,
     j\<lparr> jn_page := pid, jn_pos := PAGE_HEADER, jn_frame_nb := 0 \<rparr>)"
proof -
  have "page_at st pid = Page_zero" using assms(1) by (simp add: page_at_def)
  then show ?thesis
    using assms(2) by (simp add: load_page_def load_unit_def init_new_page Let_def)
qed

lemma writer_at_new_page:
  assumes "page_at st (jn_page j) = init_page (jn_size j) Page_zero" "jn_pos j = PAGE_HEADER"
    "PAGE_HEADER + FRAME_HEADER < jn_size j"
  shows "writer_at st j []"
  using assms
  by (simp add: writer_at_def current_page_def current_frame_def init_new_page Frame_zero_def journal_consts)

text \<open>Closing a page: the page end is the frame the writer stood at, and the writer is on a new page.\<close>

lemma close_page_new:
  assumes "writer_at st j fs" "omap_find st (jn_page j + 1) = None" "jn_in_rollback j \<noteq> jn_page j"
  obtains st' j' e where "close_page 0 now trigger_time st j = Some (st', j')"
    "jn_page j' = jn_page j + 1" "jn_pos j' = PAGE_HEADER" "jn_size j' = jn_size j"
    "jn_uid j' = jn_uid j" "jn_dest j' = jn_dest j" "jn_in_rollback j' = jn_in_rollback j"
    "page_at st' (jn_page j') = init_page (jn_size j) Page_zero"
    "page_at st' (jn_page j) = (current_page st j)\<lparr> pg_mem := (pg_mem (current_page st j))(jn_pos j := e), pg_last := jn_pos j \<rparr>"
    "fr_msg_type e = 0" "fr_length e = FRAME_HEADER"
proof -
  define st1 where "st1 = omap_set (jn_page j + 1) (init_page (jn_size j) Page_zero) st"
  define j1 where "j1 = j\<lparr> jn_page := jn_page j + 1, jn_pos := PAGE_HEADER, jn_frame_nb := 0 \<rparr>"
  define e where "e = (pg_mem (current_page st j) (jn_pos j))
    \<lparr> fr_header_length := FRAME_HEADER, fr_trigger_time := trigger_time, fr_msg_type := 0,
      fr_source := jn_uid j, fr_dest := jn_dest j, fr_gen_time := now, fr_length := FRAME_HEADER \<rparr>"
  have "load_next_page 0 st j = Some (st1, j1)"
    using load_new_page [OF assms(2), of j] assms(3) by (simp add: load_next_page_def st1_def j1_def Let_def)
  moreover have p: "page_at st1 (jn_page j) = current_page st j" by (simp add: st1_def current_page_def)
  moreover have "pg_last (current_page st j) + fr_length (pg_mem (current_page st j) (pg_last (current_page st j))) = jn_pos j"
    using assms(1) by (simp add: writer_at_def)
  ultimately have c: "close_page 0 now trigger_time st j =
      Some (upd_page (jn_page j) (\<lambda>p. p\<lparr> pg_last := jn_pos j \<rparr>) (upd_frame (jn_page j) (jn_pos j) (\<lambda>_. e) st1), j1)"
    by (simp add: close_page_def Let_def upd_frame_def upd_page_def e_def)
  have j1: "jn_page j1 = jn_page j + 1" "jn_pos j1 = PAGE_HEADER" "jn_size j1 = jn_size j"
    "jn_uid j1 = jn_uid j" "jn_dest j1 = jn_dest j" "jn_in_rollback j1 = jn_in_rollback j"
    by (simp_all add: j1_def)
  have e: "fr_msg_type e = 0" "fr_length e = FRAME_HEADER" by (simp_all add: e_def)
  have n: "page_at st1 (Suc (jn_page j)) = init_page (jn_size j) Page_zero" by (simp add: st1_def)
  show thesis by (rule that [OF c j1 _ _ e]) (simp_all add: j1 n p)
qed

lemma write_on_new_page:
  assumes "\<not> fits st j (length data)" "FRAME_HEADER + length data + FRAME_HEADER \<le> pg_size (current_page st j)"
    "close_page rb now trigger_time st j = Some (st', j')"
    "fits st' j' (length data)" "page_valid n (current_page st j)" "page_valid n (current_page st' j')"
  shows "writer_write rb now gen_time trigger_time msg_type data st j =
         writer_write rb now gen_time trigger_time msg_type data st' j'"
  using assms
  by (simp add: writer_write_def open_frame_def fits_def not_less page_valid_def)

text \<open>A writer never goes back (without rollback): what it writes is on its page or behind it.\<close>

lemma load_page_pages:
  "load_page st j pid = Some (st', j') \<Longrightarrow> jn_page j' = pid \<and> (\<forall>q. q \<noteq> pid \<longrightarrow> page_at st' q = page_at st q)"
  by (auto simp: load_page_def load_unit_def Let_def split: if_splits)

lemma load_next_pages:
  "load_next_page 0 st j = Some (st', j') \<Longrightarrow>
   jn_page j' = jn_page j + 1 \<and> (\<forall>q \<le> jn_page j. page_at st' q = page_at st q)"
  by (auto simp: load_next_page_def Let_def split: option.splits if_splits dest!: load_page_pages)

lemma journal_next_pages:
  "journal_next 0 st j = Some (st', j') \<Longrightarrow>
   jn_page j \<le> jn_page j' \<and> (\<forall>q < jn_page j. page_at st' q = page_at st q)"
  by (auto simp: journal_next_def split: if_splits dest!: load_next_pages)

lemma close_page_pages:
  "close_page 0 now trigger_time st j = Some (st', j') \<Longrightarrow>
   jn_page j' = jn_page j + 1 \<and> (\<forall>q < jn_page j. page_at st' q = page_at st q)"
  by (auto simp: close_page_def Let_def split: option.splits dest!: load_next_pages)

lemma open_frame_pages:
  "open_frame 0 now trigger_time msg_type len st j = Some (st', j') \<Longrightarrow>
   jn_page j \<le> jn_page j' \<and> (\<forall>q < jn_page j. page_at st' q = page_at st q)"
  by (auto simp: open_frame_def split: option.splits if_splits dest!: close_page_pages)

lemma close_frame_pages:
  "close_frame 0 gen_time len st j = Some (st', j') \<Longrightarrow>
   jn_page j \<le> jn_page j' \<and> (\<forall>q < jn_page j. page_at st' q = page_at st q)"
  by (auto simp: close_frame_def Let_def split: if_splits dest!: journal_next_pages)

lemma writer_write_pages:
  "writer_write 0 now gen_time trigger_time msg_type data st j = Some (st', j') \<Longrightarrow>
   jn_page j \<le> jn_page j' \<and> (\<forall>q < jn_page j. page_at st' q = page_at st q)"
  by (fastforce simp: writer_write_def split: option.splits dest!: open_frame_pages close_frame_pages)

lemma write_all_pages:
  "write_all 0 now xs st j = Some (st', j') \<Longrightarrow> jn_page j \<le> jn_page j' \<and> (\<forall>q < jn_page j. page_at st' q = page_at st q)"
proof (induction xs arbitrary: st j)
  case (Cons x xs)
  then obtain st1 j1 where 1: "writer_write 0 now (msg_gen x) (msg_trigger x) (msg_tag x) (msg_bytes x) st j = Some (st1, j1)"
    "write_all 0 now xs st1 j1 = Some (st', j')" by (auto split: option.splits)
  from writer_write_pages [OF 1(1)] Cons.IH [OF 1(2)] show ?case by simp
qed simp

lemma page_end_written:
  assumes "writer_at st j fs" "\<not> fits st j (length data)" "0 < msg_type"
    "PAGE_HEADER + FRAME_HEADER + length data < jn_size j - FRAME_HEADER" "FRAME_HEADER \<le> jn_size j"
    "omap_find st (jn_page j + 1) = None" "jn_in_rollback j \<noteq> jn_page j"
  shows "\<exists>st' j'. writer_write 0 now gen_time trigger_time msg_type data st j = Some (st', j') \<and>
    jn_page j' = jn_page j + 1 \<and>
    writer_at st' j' [written j gen_time trigger_time msg_type data] \<and>
    frames (pg_mem (page_at st' (jn_page j))) PAGE_HEADER fs (jn_pos j) \<and>
    fr_msg_type (pg_mem (page_at st' (jn_page j)) (jn_pos j)) = tag_num Tag_PageEnd \<and>
    fr_length (pg_mem (page_at st' (jn_page j)) (jn_pos j)) = FRAME_HEADER \<and>
    jn_pos j + FRAME_HEADER \<le> pg_size (page_at st' (jn_page j))"
proof -
  obtain st1 j1 e where c: "close_page 0 now trigger_time st j = Some (st1, j1)"
    "jn_page j1 = jn_page j + 1" "jn_pos j1 = PAGE_HEADER" "jn_size j1 = jn_size j"
    "jn_uid j1 = jn_uid j" "jn_dest j1 = jn_dest j" "jn_in_rollback j1 = jn_in_rollback j"
    "page_at st1 (jn_page j1) = init_page (jn_size j) Page_zero"
    "page_at st1 (jn_page j) = (current_page st j)\<lparr> pg_mem := (pg_mem (current_page st j))(jn_pos j := e), pg_last := jn_pos j \<rparr>"
    "fr_msg_type e = 0" "fr_length e = FRAME_HEADER"
    using close_page_new [OF assms(1,6,7)] by blast
  have w1: "writer_at st1 j1 []"
    using c(3,4,8) assms(4) by (intro writer_at_new_page) simp_all
  have cur1: "current_page st1 j1 = init_page (jn_size j) Page_zero" using c(8) by (simp add: current_page_def)
  have fit1: "fits st1 j1 (length data)"
    using assms(4) c(3) by (simp add: fits_def cur1 init_new_page)
  have v: "page_valid (jn_size j) (current_page st j)" using assms(1) by (simp add: writer_at_def)
  have v1: "page_valid (jn_size j) (current_page st1 j1)" by (simp add: cur1 init_new_page)
  have size: "FRAME_HEADER + length data + FRAME_HEADER \<le> pg_size (current_page st j)"
    using v assms(4) by (simp add: page_valid_def journal_consts)
  obtain st' j' where wr: "writer_write 0 now gen_time trigger_time msg_type data st1 j1 = Some (st', j')"
    using write_fits [OF fit1 assms(3)] v1 c(4) by fastforce
  note e = writer_at_write [OF w1 fit1 assms(3) wr]
  have "page_at st' (jn_page j) = page_at st1 (jn_page j)"
    using e(8) [of "jn_page j"] c(2) by simp
  moreover have "frames (pg_mem (current_page st j)) PAGE_HEADER fs (jn_pos j)"
    using assms(1) by (simp add: writer_at_def)
  moreover have "jn_pos j + FRAME_HEADER \<le> pg_size (current_page st j)"
  proof -
    have "jn_pos j < pg_size (current_page st j) - FRAME_HEADER"
      using assms(1) by (simp add: writer_at_def address_border_def)
    then show ?thesis by linarith
  qed
  moreover have "writer_write 0 now gen_time trigger_time msg_type data st j = Some (st', j')"
    using write_on_new_page [OF assms(2) size c(1) fit1 v v1] wr by simp
  moreover have "written j1 gen_time trigger_time msg_type data = written j gen_time trigger_time msg_type data"
    using c(5,6) by (simp add: written_def)
  ultimately show ?thesis
    using e(1,2) c by (simp add: frames_upd)
qed

lemma frame_uid_account:
  "to_account_uid (current_frame_uid start_time j) (jn_uid j) = jn_dest j"
proof -
  have "drop_bit 32 (push_bit 32 (ucast (a :: u32)) OR (ucast (b :: u32) :: u64)) = (ucast a :: u64)" for a b
    by (rule bit_word_eqI) (auto simp: bit_simps dest: bit_imp_le_length)
  moreover have "ucast (ucast (a :: u32) :: u64) = a" for a
    by (rule bit_word_eqI) (auto simp: bit_simps)
  moreover have "(a XOR b) XOR a = b" for a b :: u32
    by (rule bit_word_eqI) (auto simp: bit_simps)
  ultimately show ?thesis
    by (simp only: to_account_uid_def current_frame_uid_def frame_id_base_def Let_def)
qed

text \<open>What a reader finds behind the messages of a page.\<close>

lemma write_all_reads:
  assumes "writer_at st j fs" "jn_pos j + msgs_size xs < address_border (current_page st j)"
    "\<forall>x \<in> set xs. 0 < msg_tag x" "jn_page r = jn_page j" "jn_pos r = jn_pos j" "length xs \<le> n"
  shows "\<exists>st' j' r'. write_all rb now xs st j = Some (st', j') \<and>
    read_frames rb n st' r = Some (List.map (frame_of j) xs, st', r') \<and>
    jn_page r' = jn_page j' \<and> jn_pos r' = jn_pos j' \<and> writer_at st' j' (fs @ List.map (frame_of j) xs)"
proof -
  obtain st' j' where w: "write_all rb now xs st j = Some (st', j')"
    "writer_at st' j' (fs @ List.map (frame_of j) xs)" "jn_page j' = jn_page j"
    "jn_pos j' = jn_pos j + msgs_size xs"
    using write_all_fits [OF assms(1-3)] by blast
  let ?m = "pg_mem (current_page st' r)"
  have cur: "current_page st' r = current_page st' j'" using w assms(4) by (simp add: current_page_def)
  have "frames ?m PAGE_HEADER (fs @ List.map (frame_of j) xs) (jn_pos j')"
    using w(2) by (simp add: writer_at_def cur)
  moreover have "frames (pg_mem (current_page st j)) PAGE_HEADER fs (jn_pos j)"
    using assms(1) by (simp add: writer_at_def)
  ultimately have "frames ?m (jn_pos r) (List.map (frame_of j) xs) (jn_pos j')"
    using frames_tail assms(5) by simp
  moreover have "\<not> has_data (?m (jn_pos j'))"
    using w(2) by (simp add: writer_at_def cur current_frame_def has_data_def)
  ultimately show ?thesis
    using w assms(4,6) by (simp add: read_frames_exact)
qed

section \<open>Properties\<close>

text \<open>C8: a page is a first-in first-out queue. A reader that waits where the writer stands reads, after any
  messages that fit the page, exactly those messages in their order, with their times, tags, bytes
  and addresses, and then waits where the writer stands again.\<close>

theorem journal_fifo:
  assumes "writer_at st j fs" "jn_pos j + msgs_size xs < address_border (current_page st j)"
    "\<forall>x \<in> set xs. 0 < msg_tag x" "jn_page r = jn_page j" "jn_pos r = jn_pos j" "length xs \<le> n"
  shows "\<exists>st' j' r'. write_all rb now xs st j = Some (st', j') \<and>
    read_frames rb n st' r = Some (List.map (frame_of j) xs, st', r') \<and>
    jn_page r' = jn_page j' \<and> jn_pos r' = jn_pos j' \<and> writer_at st' j' (fs @ List.map (frame_of j) xs)"
  using write_all_reads [OF assms] .

definition sample_journal :: Journal where
  "sample_journal = (journal_new 1 2 1048576 True)\<lparr> jn_page := 1, jn_pos := PAGE_HEADER \<rparr>"

definition sample_store :: store where
  "sample_store = [(1, init_page 1048576 Page_zero)]"

definition sample_msg :: Msg where
  "sample_msg = \<lparr> msg_gen = 5, msg_trigger = 4, msg_tag = tag_num Tag_Bar, msg_bytes = [1, 2, 3] \<rparr>"

lemma sample_writer_at: "writer_at sample_store sample_journal []"
  by (rule writer_at_new_page)
    (simp_all add: sample_store_def sample_journal_def journal_new_def page_at_def journal_consts)

lemma tag_num_Bar: "tag_num Tag_Bar = 2"
  by (simp add: tag_num_def all_tags_def)

lemma journal_fifo_witness:
  "\<exists>st' j' r'. write_all 0 9 [sample_msg, sample_msg] sample_store sample_journal = Some (st', j') \<and>
     read_frames 0 5 st' sample_journal =
       Some ([frame_of sample_journal sample_msg, frame_of sample_journal sample_msg], st', r')"
proof -
  have "address_border (current_page sample_store sample_journal) = 1048576 - FRAME_HEADER"
    by (simp add: current_page_def sample_store_def sample_journal_def page_at_def init_new_page)
  then show ?thesis
    using journal_fifo [OF sample_writer_at, of "[sample_msg, sample_msg]" sample_journal 5 0 9]
    by (auto simp: sample_journal_def sample_msg_def msgs_size_def journal_consts tag_num_Bar)
qed

text \<open>A message that no longer fits the page starts the next one, the page end frame stands where the
  writer stood and is inside the page, and everything written before is still there.\<close>

theorem page_switch:
  assumes "writer_at st j fs" "\<not> fits st j (length data)" "0 < msg_type"
    "PAGE_HEADER + FRAME_HEADER + length data < jn_size j - FRAME_HEADER" "FRAME_HEADER \<le> jn_size j"
    "omap_find st (jn_page j + 1) = None" "jn_in_rollback j \<noteq> jn_page j"
  shows "\<exists>st' j'. writer_write 0 now gen_time trigger_time msg_type data st j = Some (st', j') \<and>
    jn_page j' = jn_page j + 1 \<and>
    writer_at st' j' [written j gen_time trigger_time msg_type data] \<and>
    frames (pg_mem (page_at st' (jn_page j))) PAGE_HEADER fs (jn_pos j) \<and>
    fr_msg_type (pg_mem (page_at st' (jn_page j)) (jn_pos j)) = tag_num Tag_PageEnd \<and>
    fr_length (pg_mem (page_at st' (jn_page j)) (jn_pos j)) = FRAME_HEADER \<and>
    jn_pos j + FRAME_HEADER \<le> pg_size (page_at st' (jn_page j))"
  by (rule page_end_written [OF assms])


text \<open>A page of 1 MiB whose first frame leaves room for less than a header.\<close>

definition sample_full :: "(store \<times> Journal) option" where
  "sample_full = writer_write 0 9 5 4 2 (replicate 1048430 0) sample_store sample_journal"

lemma sample_full:
  obtains st j fs where "sample_full = Some (st, j)" "writer_at st j fs" "\<not> fits st j 10"
    "jn_size j = 1048576" "jn_page j = 1" "jn_in_rollback j = 0" "omap_find st 2 = None"
proof -
  have b: "address_border (current_page sample_store sample_journal) = 1048576 - FRAME_HEADER"
    by (simp add: current_page_def sample_store_def sample_journal_def page_at_def init_new_page)
  have sz: "jn_pos sample_journal = PAGE_HEADER" "jn_size sample_journal = 1048576" "jn_page sample_journal = 1"
    "jn_in_rollback sample_journal = 0"
    by (simp_all add: sample_journal_def journal_new_def)
  have f: "fits sample_store sample_journal (length (replicate 1048430 (0 :: u8)))"
    by (simp only: length_replicate fits_def b sz journal_consts)
  have v: "page_valid (jn_size sample_journal) (current_page sample_store sample_journal)"
    using sample_writer_at by (simp add: writer_at_def)
  note w = write_fits [OF f _ v, of 2 0 9 5 4]
  have s: "sample_full = Some (put_frame sample_journal (written sample_journal 5 4 2 (replicate 1048430 0)) sample_store,
     sample_journal\<lparr> jn_pos := jn_pos sample_journal + (FRAME_HEADER + 1048430), jn_frame_nb := jn_frame_nb sample_journal + 1 \<rparr>)"
    using w unfolding sample_full_def length_replicate by simp
  note e = writer_at_write [OF sample_writer_at f _ s [unfolded sample_full_def], of ]
  have e1: "writer_at (put_frame sample_journal (written sample_journal 5 4 2 (replicate 1048430 0)) sample_store)
     (sample_journal\<lparr> jn_pos := jn_pos sample_journal + (FRAME_HEADER + 1048430), jn_frame_nb := jn_frame_nb sample_journal + 1 \<rparr>)
     ([] @ [written sample_journal 5 4 2 (replicate 1048430 0)])"
    by (rule e(1)) simp
  show thesis
  proof (rule that [OF s e1])
    show "\<not> fits (put_frame sample_journal (written sample_journal 5 4 2 (replicate 1048430 0)) sample_store)
     (sample_journal\<lparr> jn_pos := jn_pos sample_journal + (FRAME_HEADER + 1048430), jn_frame_nb := jn_frame_nb sample_journal + 1 \<rparr>) 10"
      using b by (simp add: fits_def put_frame_def current_page_def sz journal_consts)
  qed (simp_all add: sz put_frame_def upd_page_def sample_store_def)
qed

lemma page_switch_witness:
  "\<exists>st j st' j'. sample_full = Some (st, j) \<and>
     writer_write 0 9 5 4 2 (replicate 10 0) st j = Some (st', j') \<and> jn_page j' = 2"
proof -
  obtain st j fs where s: "sample_full = Some (st, j)" "writer_at st j fs" "\<not> fits st j 10"
    "jn_size j = 1048576" "jn_page j = 1" "jn_in_rollback j = 0" "omap_find st 2 = None"
    by (rule sample_full)
  have "\<exists>st' j'. writer_write 0 9 5 4 2 (replicate 10 0) st j = Some (st', j') \<and> jn_page j' = jn_page j + 1"
    using page_switch [OF s(2), of "replicate 10 0" 2 9 5 4] s(3-7)
    by (auto simp: journal_consts numeral_2_eq_2)
  then obtain st' j' where "writer_write 0 9 5 4 2 (replicate 10 0) st j = Some (st', j')" "jn_page j' = 2"
    using s(5) by auto
  then show ?thesis using s(1) by blast
qed

text \<open>C32: a reader does not get past the end of a page. It waits where the writer stood, and once the writer
  has gone on to the next page it never has data again, whatever is written later.\<close>

theorem reader_stuck_at_page_end:
  assumes "writer_at st j fs" "\<not> fits st j (length data)" "0 < msg_type"
    "PAGE_HEADER + FRAME_HEADER + length data < jn_size j - FRAME_HEADER"
    "omap_find st (jn_page j + 1) = None" "jn_in_rollback j \<noteq> jn_page j"
    "jn_page r = jn_page j" "jn_pos r = jn_pos j"
    "writer_write 0 now gen_time trigger_time msg_type data st j = Some (st1, j1)"
    "write_all 0 now' xs st1 j1 = Some (st2, j2)"
  shows "\<not> has_data (current_frame st2 r) \<and> read_frames rb n st2 r = Some ([], st2, r)"
proof -
  have "FRAME_HEADER \<le> jn_size j" using assms(4) by linarith
  from page_end_written [OF assms(1-4) this assms(5,6), of now gen_time trigger_time] assms(9)
  have p: "jn_page j1 = jn_page j + 1"
    "fr_msg_type (pg_mem (page_at st1 (jn_page j)) (jn_pos j)) = 0" by auto
  have "page_at st2 (jn_page j) = page_at st1 (jn_page j)"
    using write_all_pages [OF assms(10)] p(1) by simp
  then have "\<not> has_data (current_frame st2 r)"
    using p(2) assms(7,8) by (simp add: current_frame_def current_page_def has_data_def)
  then show ?thesis by (cases n) simp_all
qed

lemma reader_stuck_witness:
  "\<exists>st j st' j'. sample_full = Some (st, j) \<and>
     writer_write 0 9 5 4 2 (replicate 10 0) st j = Some (st', j') \<and>
     read_frames 0 100 st' j = Some ([], st', j)"
proof -
  obtain st j fs where s: "sample_full = Some (st, j)" "writer_at st j fs" "\<not> fits st j 10"
    "jn_size j = 1048576" "jn_page j = 1" "jn_in_rollback j = 0" "omap_find st 2 = None"
    by (rule sample_full)
  have a: "\<not> fits st j (length (replicate 10 (0 :: u8)))"
    "PAGE_HEADER + FRAME_HEADER + length (replicate 10 (0 :: u8)) < jn_size j - FRAME_HEADER"
    "FRAME_HEADER \<le> jn_size j" "omap_find st (jn_page j + 1) = None" "jn_in_rollback j \<noteq> jn_page j"
    using s by (simp_all add: journal_consts numeral_2_eq_2)
  obtain st' j' where w: "writer_write 0 9 5 4 2 (replicate 10 0) st j = Some (st', j')"
    using page_end_written [OF s(2) a(1) _ a(2-5), of 2 9 5 4] by auto
  have "read_frames 0 100 st' j = Some ([], st', j)"
    using reader_stuck_at_page_end [OF s(2) a(1) _ a(2,4,5) refl refl w, of 0 "[]" st' j' 0 100] by simp
  then show ?thesis using s(1) w by blast
qed

text \<open>An order id carries the account it was placed for: what the trade service reads back from the id
  is the destination of the journal the id was drawn from, on whatever page and frame.\<close>

theorem order_id_names_account:
  "to_account_uid (current_frame_uid start_time j) (jn_uid j) = jn_dest j"
  by (rule frame_uid_account)

text \<open>The check at the start of a write is too weak for the one at its end: a message that fits a page
  without the border, but not behind the page header, passes the first assertion, starts a new page,
  and fails there.\<close>

theorem oversize_write_fails:
  assumes "writer_at st j fs" "omap_find st (jn_page j + 1) = None" "jn_in_rollback j \<noteq> jn_page j"
    "FRAME_HEADER + length data + FRAME_HEADER \<le> jn_size j"
    "jn_size j \<le> PAGE_HEADER + FRAME_HEADER + length data + FRAME_HEADER"
  shows "writer_write 0 now gen_time trigger_time msg_type data st j = None \<and>
    (\<exists>st' j'. open_frame 0 now trigger_time msg_type (length data) st j = Some (st', j') \<and> jn_page j' = jn_page j + 1)"
proof -
  obtain st1 j1 e where c: "close_page 0 now trigger_time st j = Some (st1, j1)"
    "jn_page j1 = jn_page j + 1" "jn_pos j1 = PAGE_HEADER" "jn_size j1 = jn_size j"
    "jn_uid j1 = jn_uid j" "jn_dest j1 = jn_dest j" "jn_in_rollback j1 = jn_in_rollback j"
    "page_at st1 (jn_page j1) = init_page (jn_size j) Page_zero"
    using close_page_new [OF assms(1-3)] by metis
  have v: "pg_size (current_page st j) = jn_size j" "address_border (current_page st j) = jn_size j - FRAME_HEADER"
    using assms(1) border_valid by (simp_all add: writer_at_def page_valid_def address_border_def)
  have "PAGE_HEADER \<le> jn_pos j" using assms(1) frames_le by (auto simp: writer_at_def)
  then have nf: "jn_size j - FRAME_HEADER \<le> jn_pos j + FRAME_HEADER + length data"
    using assms(5) by linarith
  define st2 where "st2 = upd_frame (jn_page j1) (jn_pos j1)
      (\<lambda>f. f\<lparr> fr_header_length := FRAME_HEADER, fr_trigger_time := trigger_time,
             fr_msg_type := msg_type, fr_source := jn_uid j1, fr_dest := jn_dest j1 \<rparr>) st1"
  have o: "open_frame 0 now trigger_time msg_type (length data) st j = Some (st2, j1)"
    using assms(4) nf by (simp add: open_frame_def v c(1) st2_def)
  have "\<not> PAGE_HEADER + FRAME_HEADER + length data < jn_size j - FRAME_HEADER" using assms(5) by linarith
  then have "close_frame 0 gen_time (length data) (upd_frame (jn_page j1) (jn_pos j1) (\<lambda>f. f\<lparr> fr_data := data \<rparr>) st2) j1 = None"
    by (simp add: close_frame_def st2_def current_page_def current_frame_def c(3,8) init_new_page Let_def)
  then show ?thesis using o c(2) by (simp add: writer_write_def)
qed

lemma oversize_write_witness:
  "writer_write 0 9 5 4 2 (replicate 1048480 0) sample_store sample_journal = None"
  using oversize_write_fails [OF sample_writer_at, of "replicate 1048480 0" 9 5 4 2]
  by (simp add: sample_store_def sample_journal_def journal_new_def journal_consts)

end
