(* ===== verification/Reader.thy ===== *)
theory Reader
  imports Journal
begin

text \<open>
  The reader of several journals (src/core/journal/reader.h, reader.cpp) and the loop of the event
  engine that drains it (src/core/eventengine.cpp).

  The journals a reader has joined are an unordered map from the 64-bit key of the writing location
  and the destination to the position in the journal; \<open>rd_current\<close>, a raw pointer into the map in
  the code, is the key it points at. The pages of every journal are in a \<open>world\<close>, a store for each
  key, since two processes map the same files. \<open>now_time\<close> is called in every \<open>sort\<close>; its successive
  values are a function of the number of calls.
\<close>

section \<open>The reader\<close>

type_synonym world = "u64 \<Rightarrow> store"

record Reader =
  rd_journals :: "(u64, Journal) umap"
  rd_current :: "u64 option"

definition Reader_new :: Reader where
  "Reader_new = \<lparr> rd_journals = [], rd_current = None \<rparr>"

unbundle bit_operations_syntax

definition journal_key :: "u32 \<Rightarrow> u32 \<Rightarrow> u64" where
  "journal_key location_uid dest_id = push_bit 32 (ucast location_uid) OR ucast dest_id"

definition frame_at :: "world \<Rightarrow> u64 \<Rightarrow> Journal \<Rightarrow> Frame" where
  "frame_at w k j = current_frame (w k) j"

text \<open>One turn of the loop of \<open>sort\<close>: a frame that is due and no later than the earliest so far is taken.\<close>

definition sort_step :: "world \<Rightarrow> u64 \<times> Journal \<Rightarrow> int \<times> u64 option \<Rightarrow> int \<times> u64 option" where
  "sort_step w = (\<lambda>(k, j) (min_time, cur).
     (let f = frame_at w k j
      in if has_data f \<and> fr_gen_time f \<le> min_time then (fr_gen_time f, Some k) else (min_time, cur)))"

definition reader_sort :: "int \<Rightarrow> world \<Rightarrow> Reader \<Rightarrow> Reader" where
  "reader_sort now w r = r\<lparr> rd_current := snd (fold (sort_step w) (rd_journals r) (now, rd_current r)) \<rparr>"

definition reader_frame :: "world \<Rightarrow> Reader \<Rightarrow> Frame option" where
  "reader_frame w r = Option.bind (rd_current r) (\<lambda>k. map_option (frame_at w k) (umap_find (rd_journals r) k))"

definition data_available :: "int \<Rightarrow> world \<Rightarrow> Reader \<Rightarrow> bool \<times> Reader" where
  "data_available now w r =
     (let r = reader_sort now w r
      in (case reader_frame w r of None \<Rightarrow> False | Some f \<Rightarrow> has_data f, r))"

definition reader_join ::
    "nat \<Rightarrow> int \<Rightarrow> Module \<Rightarrow> u32 \<Rightarrow> u32 \<Rightarrow> int \<Rightarrow> world \<Rightarrow> Reader \<Rightarrow> (world \<times> Reader) option" where
  "reader_join rb now category location_uid dest_id from_time w r =
     (let key = journal_key location_uid dest_id;
          sorted_when_idle = (\<lambda>(w, r). (w, if rd_current r = None then reader_sort now w r else r))
      in if umap_contains (rd_journals r) key then Some (sorted_when_idle (w, r))
         else
           case seek_to_time rb from_time (w key) (journal_new location_uid dest_id (find_page_size category) False) of
             None \<Rightarrow> None
           | Some (st, j) \<Rightarrow>
               Some (sorted_when_idle (w(key := st), r\<lparr> rd_journals := umap_set key j (rd_journals r) \<rparr>)))"

definition reader_disjoin :: "int \<Rightarrow> u32 \<Rightarrow> world \<Rightarrow> Reader \<Rightarrow> Reader" where
  "reader_disjoin now location_uid w r =
     reader_sort now w
       (r\<lparr> rd_journals := filter (\<lambda>(k, j). (drop_bit 32 k XOR ucast location_uid) \<noteq> 0) (rd_journals r),
           rd_current := None \<rparr>)"

definition reader_disjoin_channel :: "int \<Rightarrow> u32 \<Rightarrow> u32 \<Rightarrow> world \<Rightarrow> Reader \<Rightarrow> Reader" where
  "reader_disjoin_channel now location_uid dest_id w r =
     reader_sort now w
       (r\<lparr> rd_journals := umap_erase (journal_key location_uid dest_id) (rd_journals r), rd_current := None \<rparr>)"

definition reader_next :: "nat \<Rightarrow> int \<Rightarrow> world \<Rightarrow> Reader \<Rightarrow> (world \<times> Reader) option" where
  "reader_next rb now w r =
     (case rd_current r of
        None \<Rightarrow> Some (w, reader_sort now w r)
      | Some k \<Rightarrow>
          (case umap_find (rd_journals r) k of
             None \<Rightarrow> None
           | Some j \<Rightarrow>
               (case journal_next rb (w k) j of
                  None \<Rightarrow> None
                | Some (st, j') \<Rightarrow>
                    let w = w(k := st);
                        r = r\<lparr> rd_journals := umap_set k j' (rd_journals r) \<rparr>
                    in Some (w, reader_sort now w r))))"

fun reader_seek_all ::
    "nat \<Rightarrow> int \<Rightarrow> world \<Rightarrow> (u64 \<times> Journal) list \<Rightarrow> (world \<times> (u64 \<times> Journal) list) option" where
  "reader_seek_all rb time w [] = Some (w, [])"
| "reader_seek_all rb time w ((k, j) # js) =
     (case seek_to_time rb time (w k) j of
        None \<Rightarrow> None
      | Some (st, j') \<Rightarrow>
          (case reader_seek_all rb time (w(k := st)) js of
             None \<Rightarrow> None
           | Some (w, js') \<Rightarrow> Some (w, (k, j') # js')))"

definition reader_seek_to_time :: "nat \<Rightarrow> int \<Rightarrow> int \<Rightarrow> world \<Rightarrow> Reader \<Rightarrow> (world \<times> Reader) option" where
  "reader_seek_to_time rb now time w r =
     map_option (\<lambda>(w, js). (w, reader_sort now w (r\<lparr> rd_journals := js \<rparr>)))
       (reader_seek_all rb time w (rd_journals r))"

section \<open>Draining the reader\<close>

text \<open>
  The event engine: \<open>live\<close> is cleared by a handler that stops the engine, \<open>now_event_time\<close> is the
  latest generation time handed out. A handler gets the frame and may change the world (its writers)
  and the engine's own state \<open>'s\<close>. The result of \<open>drain\<close> is false when the defined end time is
  reached. The reader's clock readings are a list, two of them used per event; when it runs out the
  loop is cut, which is the result \<open>None\<close>. \<open>trace\<close> is what was delivered, with the journal it
  came from.
\<close>

record Engine =
  eng_live :: bool
  eng_end_time :: int
  eng_now_event_time :: int
  eng_reader :: Reader

type_synonym 's handler = "Frame \<Rightarrow> world \<Rightarrow> bool \<Rightarrow> 's \<Rightarrow> world \<times> bool \<times> 's"

record 's drained =
  dr_result :: bool
  dr_engine :: Engine
  dr_world :: world
  dr_state :: 's
  dr_trace :: "(u64 \<times> Frame) list"

fun engine_drain :: "nat \<Rightarrow> 's handler \<Rightarrow> int list \<Rightarrow> Engine \<Rightarrow> world \<Rightarrow> 's \<Rightarrow> 's drained option" where
  "engine_drain rb h (now1 # now2 # clock) e w s =
     (if \<not> eng_live e then Some \<lparr> dr_result = True, dr_engine = e, dr_world = w, dr_state = s, dr_trace = [] \<rparr>
      else
        let (avail, r) = data_available now1 w (eng_reader e);
            e = e\<lparr> eng_reader := r \<rparr>
        in case (avail, reader_frame w r, rd_current r) of
             (True, Some f, Some k) \<Rightarrow>
               if fr_gen_time f \<le> eng_end_time e
               then
                 let e = e\<lparr> eng_now_event_time := max (eng_now_event_time e) (fr_gen_time f) \<rparr>;
                     (w, live, s) = h f w (eng_live e) s
                 in (case reader_next rb now2 w r of
                       None \<Rightarrow> None
                     | Some (w, r) \<Rightarrow>
                         map_option (\<lambda>d. d\<lparr> dr_trace := (k, f) # dr_trace d \<rparr>)
                           (engine_drain rb h clock (e\<lparr> eng_live := live, eng_reader := r \<rparr>) w s))
               else Some \<lparr> dr_result = False, dr_engine = e, dr_world = w, dr_state = s, dr_trace = [] \<rparr>
           | _ \<Rightarrow> Some \<lparr> dr_result = True, dr_engine = e, dr_world = w, dr_state = s, dr_trace = [] \<rparr>)"
| "engine_drain rb h _ e w s = None"

section \<open>What \<open>sort\<close> chooses\<close>

definition due :: "world \<Rightarrow> int \<Rightarrow> u64 \<times> Journal \<Rightarrow> bool" where
  "due w now = (\<lambda>(k, j). has_data (frame_at w k j) \<and> fr_gen_time (frame_at w k j) \<le> now)"

definition time_of :: "world \<Rightarrow> u64 \<times> Journal \<Rightarrow> int" where
  "time_of w = (\<lambda>(k, j). fr_gen_time (frame_at w k j))"

lemma sort_step_cases:
  "sort_step w x (t, c) = (if due w t x then (time_of w x, Some (fst x)) else (t, c))"
  by (simp add: sort_step_def due_def time_of_def Let_def split: prod.splits)

lemma due_mono: "due w t x \<Longrightarrow> t \<le> t' \<Longrightarrow> due w t' x"
  by (auto simp: due_def)

lemma due_time: "due w t x \<Longrightarrow> time_of w x \<le> t"
  by (auto simp: due_def time_of_def)

text \<open>Nothing due: the choice stays. Something due: one with the earliest time is chosen.\<close>

lemma fold_sort_none: "\<not> list_ex (due w t) xs \<Longrightarrow> fold (sort_step w) xs (t, c) = (t, c)"
  by (induction xs) (simp_all add: sort_step_cases)

lemma fold_sort_some:
  "list_ex (due w t) xs \<Longrightarrow>
   \<exists>x \<in> set xs. due w t x \<and> fold (sort_step w) xs (t, c) = (time_of w x, Some (fst x)) \<and>
     (\<forall>y \<in> set xs. due w t y \<longrightarrow> time_of w x \<le> time_of w y)"
proof (induction xs arbitrary: t c)
  case (Cons a xs)
  show ?case
  proof (cases "due w t a")
    case a: True
    then have fold_a: "fold (sort_step w) (a # xs) (t, c) = fold (sort_step w) xs (time_of w a, Some (fst a))"
      by (simp add: sort_step_cases)
    show ?thesis
    proof (cases "list_ex (due w (time_of w a)) xs")
      case True
      from Cons.IH [OF this, of "Some (fst a)"] obtain x where
        x: "x \<in> set xs" "due w (time_of w a) x"
        "fold (sort_step w) xs (time_of w a, Some (fst a)) = (time_of w x, Some (fst x))"
        "\<forall>y \<in> set xs. due w (time_of w a) y \<longrightarrow> time_of w x \<le> time_of w y" by blast
      have xa: "time_of w x \<le> time_of w a" using x(2) by (rule due_time)
      moreover have "time_of w x \<le> time_of w y" if "y \<in> set xs" "due w t y" for y
      proof (cases "due w (time_of w a) y")
        case True
        then show ?thesis using x(4) that by blast
      next
        case False
        then have "time_of w a < time_of w y" using that(2) by (cases y) (auto simp: due_def time_of_def)
        then show ?thesis using xa by linarith
      qed
      moreover have "due w t x" using x(2) due_time [OF a] by (rule due_mono)
      ultimately show ?thesis using x fold_a by (intro bexI [of _ x]) auto
    next
      case False
      have "time_of w a \<le> time_of w y" if "y \<in> set xs" "due w t y" for y
      proof -
        have "\<not> due w (time_of w a) y" using False that(1) by (auto simp: list_ex_iff)
        then show ?thesis using that(2) by (cases y) (auto simp: due_def time_of_def)
      qed
      then show ?thesis using a fold_a fold_sort_none [OF False] by (intro bexI [of _ a]) auto
    qed
  next
    case False
    then have "list_ex (due w t) xs" using Cons.prems by simp
    from Cons.IH [OF this, of c] show ?thesis
      using False by (auto simp: sort_step_cases)
  qed
qed simp

lemma reader_sort_idle:
  "\<not> list_ex (due w now) (rd_journals r) \<Longrightarrow> reader_sort now w r = r"
  by (simp add: reader_sort_def fold_sort_none)

lemma reader_sort_journals [simp]: "rd_journals (reader_sort now w r) = rd_journals r"
  by (simp add: reader_sort_def)

lemma reader_sort_earliest:
  assumes "list_ex (due w now) (rd_journals r)" "umap_wf (rd_journals r)"
  shows "\<exists>k j. umap_find (rd_journals r) k = Some j \<and> due w now (k, j) \<and>
    rd_current (reader_sort now w r) = Some k \<and>
    (\<forall>k' j'. umap_find (rd_journals r) k' = Some j' \<and> due w now (k', j') \<longrightarrow>
      fr_gen_time (frame_at w k j) \<le> fr_gen_time (frame_at w k' j'))"
proof -
  obtain x where x: "x \<in> set (rd_journals r)" "due w now x"
    "fold (sort_step w) (rd_journals r) (now, rd_current r) = (time_of w x, Some (fst x))"
    "\<forall>y \<in> set (rd_journals r). due w now y \<longrightarrow> time_of w x \<le> time_of w y"
    using fold_sort_some [OF assms(1)] by blast
  obtain k j where k: "x = (k, j)" by (cases x)
  show ?thesis
  proof (intro exI conjI allI impI)
    show "umap_find (rd_journals r) k = Some j" using x(1) k umap_find_iff [OF assms(2)] by simp
    show "due w now (k, j)" using x(2) k by simp
    show "rd_current (reader_sort now w r) = Some k" using x(3) k by (simp add: reader_sort_def)
    fix k' j'
    assume "umap_find (rd_journals r) k' = Some j' \<and> due w now (k', j')"
    then show "fr_gen_time (frame_at w k j) \<le> fr_gen_time (frame_at w k' j')"
      using x(4) k umap_find_iff [OF assms(2)] by (force simp: time_of_def)
  qed
qed

section \<open>Draining is merging\<close>

text \<open>What each journal still holds, on the page its reader is on.\<close>

definition pending :: "world \<Rightarrow> Reader \<Rightarrow> (u64 \<Rightarrow> Frame list) \<Rightarrow> bool" where
  "pending w r q \<longleftrightarrow>
     (\<forall>k j. umap_find (rd_journals r) k = Some j \<longrightarrow>
        (\<exists>b. frames (pg_mem (current_page (w k) j)) (jn_pos j) (q k) b \<and>
             \<not> has_data (pg_mem (current_page (w k) j) b)))"

definition joined :: "Reader \<Rightarrow> u64 set" where
  "joined r = set (umap_keys (rd_journals r))"

definition read_handler :: "(Frame \<Rightarrow> 's \<Rightarrow> 's) \<Rightarrow> 's handler" where
  "read_handler g = (\<lambda>f w live s. (w, live, g f s))"

lemma joined_iff: "k \<in> joined r \<longleftrightarrow> (\<exists>j. umap_find (rd_journals r) k = Some j)"
  by (simp add: joined_def umap_keys_dom umap_contains_def)

lemma pending_frame:
  assumes "pending w r q" "umap_find (rd_journals r) k = Some j"
  shows "has_data (frame_at w k j) \<longleftrightarrow> q k \<noteq> []" "q k \<noteq> [] \<Longrightarrow> frame_at w k j = hd (q k)"
proof -
  obtain b where b: "frames (pg_mem (current_page (w k) j)) (jn_pos j) (q k) b"
    "\<not> has_data (pg_mem (current_page (w k) j) b)"
    using assms unfolding pending_def by blast
  show "has_data (frame_at w k j) \<longleftrightarrow> q k \<noteq> []"
    using b frames_has_data by (cases "q k") (auto simp: frame_at_def current_frame_def)
  show "q k \<noteq> [] \<Longrightarrow> frame_at w k j = hd (q k)"
    using b by (cases "q k") (auto simp: frame_at_def current_frame_def)
qed

lemma umap_keys_set: "umap_find m k = Some v \<Longrightarrow> umap_keys (umap_set k v' m) = umap_keys m"
  by (induction m) (auto simp: umap_keys_def umap_set_def umap_find_def split: if_splits)

text \<open>Reading the frame of one journal takes it off that journal's queue and leaves the others.\<close>

lemma reader_next_pending:
  assumes "pending w r q" "rd_current r = Some k" "umap_find (rd_journals r) k = Some j" "q k = f # fs"
  shows "\<exists>r'. reader_next rb now w r = Some (w, r') \<and> pending w r' (q(k := fs)) \<and> joined r' = joined r \<and>
    (umap_wf (rd_journals r) \<longrightarrow> umap_wf (rd_journals r'))"
proof -
  define j' where "j' = j\<lparr> jn_pos := jn_pos j + fr_length f, jn_frame_nb := jn_frame_nb j + 1 \<rparr>"
  define r1 where "r1 = r\<lparr> rd_journals := umap_set k j' (rd_journals r) \<rparr>"
  obtain b where b: "frames (pg_mem (current_page (w k) j)) (jn_pos j) (f # fs) b"
    "\<not> has_data (pg_mem (current_page (w k) j) b)"
    using assms(1,3,4) unfolding pending_def by metis
  have cur: "current_frame (w k) j = f" "0 < fr_msg_type f"
    using frames_ConsD(1) [OF b(1)] by (simp_all add: current_frame_def)
  have "journal_next rb (w k) j = Some (w k, j')"
    using cur by (simp add: journal_next_def j'_def)
  then have n: "reader_next rb now w r = Some (w, reader_sort now w r1)"
    using assms(2,3) by (simp add: reader_next_def Let_def r1_def)
  have "frames (pg_mem (current_page (w k) j')) (jn_pos j') fs b"
    using frames_ConsD(2) [OF b(1)] by (simp add: j'_def current_page_def)
  moreover have "current_page (w k) j' = current_page (w k) j" by (simp add: j'_def current_page_def)
  ultimately have "pending w (reader_sort now w r1) (q(k := fs))"
    using assms(1) b(2) unfolding pending_def reader_sort_journals by (auto simp: r1_def)
  moreover have "joined (reader_sort now w r1) = joined r"
    using umap_keys_set [OF assms(3)] by (simp add: joined_def r1_def)
  ultimately show ?thesis using n by (auto simp: r1_def)
qed

definition backlog :: "Reader \<Rightarrow> (u64 \<Rightarrow> Frame list) \<Rightarrow> nat" where
  "backlog r q = (\<Sum>k \<in> joined r. length (q k))"

lemma backlog_tail:
  assumes "k \<in> joined r" "q k = f # fs" "joined r' = joined r"
  shows "backlog r q = Suc (backlog r' (q(k := fs)))"
proof -
  have fin: "finite (joined r)" by (simp add: joined_def)
  have "backlog r q = length (q k) + (\<Sum>i \<in> joined r - {k}. length (q i))"
    unfolding backlog_def by (rule sum.remove [OF fin assms(1)])
  moreover have "backlog r' (q(k := fs)) = length fs + (\<Sum>i \<in> joined r - {k}. length ((q(k := fs)) i))"
    unfolding backlog_def assms(3) using sum.remove [OF fin assms(1), of "\<lambda>x. length ((q(k := fs)) x)"] by (simp only: fun_upd_same)
  moreover have "(\<Sum>i \<in> joined r - {k}. length ((q(k := fs)) i)) = (\<Sum>i \<in> joined r - {k}. length (q i))"
    by (rule sum.cong) auto
  ultimately show ?thesis using assms(2) by simp
qed

text \<open>What is asked of the queues: ordered in time, not after the end time, not after the clock.\<close>

definition timely :: "int \<Rightarrow> int list \<Rightarrow> Reader \<Rightarrow> (u64 \<Rightarrow> Frame list) \<Rightarrow> bool" where
  "timely et clock r q \<longleftrightarrow>
     (\<forall>k \<in> joined r. sorted (List.map fr_gen_time (q k)) \<and>
        (\<forall>f \<in> set (q k). fr_gen_time f \<le> et \<and> (\<forall>t \<in> set clock. fr_gen_time f \<le> t)))"

lemma timely_tail:
  assumes "timely et (t1 # t2 # clock) r q" "q k = f # fs" "joined r' = joined r"
  shows "timely et clock r' (q(k := fs))"
  using assms unfolding timely_def by auto

definition merge_of :: "Reader \<Rightarrow> (u64 \<Rightarrow> Frame list) \<Rightarrow> (u64 \<times> Frame) list \<Rightarrow> bool" where
  "merge_of r q es \<longleftrightarrow>
     fst ` set es \<subseteq> joined r \<and> (\<forall>k \<in> joined r. List.map snd (filter (\<lambda>x. fst x = k) es) = q k) \<and>
     sorted (List.map (\<lambda>x. fr_gen_time (snd x)) es)"

lemma merge_of_mem:
  assumes "merge_of r q es" "(k, f) \<in> set es"
  shows "k \<in> joined r" "f \<in> set (q k)"
proof -
  have "k \<in> fst ` set es" using assms(2) by (rule rev_image_eqI) simp
  then show k: "k \<in> joined r" using assms(1) unfolding merge_of_def by blast
  have "f \<in> set (List.map snd (filter (\<lambda>x. fst x = k) es))"
    using assms(2) by (auto intro!: rev_image_eqI)
  moreover have "List.map snd (filter (\<lambda>x. fst x = k) es) = q k"
    using assms(1) k unfolding merge_of_def by blast
  ultimately show "f \<in> set (q k)" by (simp only:)
qed

lemma sorted_hd_le: "\<lbrakk> sorted (List.map g xs); x \<in> set xs \<rbrakk> \<Longrightarrow> g (hd xs) \<le> (g x :: int)"
  by (cases xs) auto

lemma merge_of_Cons:
  assumes "merge_of r' (q(k := fs)) es" "joined r' = joined r" "k \<in> joined r" "q k = f # fs"
    "\<forall>k' \<in> joined r. q k' \<noteq> [] \<longrightarrow> fr_gen_time f \<le> fr_gen_time (hd (q k'))"
    "\<forall>k' \<in> joined r. sorted (List.map fr_gen_time (q k'))"
  shows "merge_of r q ((k, f) # es)"
proof -
  have "fr_gen_time f \<le> fr_gen_time f'" if "(k', f') \<in> set es" for k' f'
  proof -
    have m: "k' \<in> joined r" using merge_of_mem(1) [OF assms(1) that] assms(2) by simp
    have m2: "f' \<in> set (q k')"
      using merge_of_mem(2) [OF assms(1) that] assms(4) by (simp split: if_splits)
    have ne: "q k' \<noteq> []" using m2 by auto
    have "fr_gen_time f \<le> fr_gen_time (hd (q k'))" using assms(5) m ne by blast
    also have "\<dots> \<le> fr_gen_time f'" using m m2 assms(6) by (intro sorted_hd_le) simp_all
    finally show ?thesis .
  qed
  then have "sorted (List.map (\<lambda>x. fr_gen_time (snd x)) ((k, f) # es))"
    using assms(1) by (auto simp: merge_of_def)
  moreover have "List.map snd (filter (\<lambda>x. fst x = k') ((k, f) # es)) = q k'" if "k' \<in> joined r" for k'
  proof -
    have "List.map snd (filter (\<lambda>x. fst x = k') es) = (q(k := fs)) k'"
      using assms(1,2) that unfolding merge_of_def by blast
    then show ?thesis using assms(4) by auto
  qed
  moreover have "fst ` set ((k, f) # es) \<subseteq> joined r"
    using assms(1-3) unfolding merge_of_def by simp
  ultimately show ?thesis unfolding merge_of_def by blast
qed

lemma engine_drain_merge:
  assumes "umap_wf (rd_journals (eng_reader e))" "pending w (eng_reader e) q" "eng_live e"
    "timely (eng_end_time e) clock (eng_reader e) q" "2 * backlog (eng_reader e) q + 2 \<le> length clock"
  shows "\<exists>d. engine_drain rb (read_handler g) clock e w s = Some d \<and> dr_result d \<and> dr_world d = w \<and>
    merge_of (eng_reader e) q (dr_trace d) \<and> dr_state d = fold g (List.map snd (dr_trace d)) s"
  using assms
proof (induction n \<equiv> "backlog (eng_reader e) q" arbitrary: e q clock s)
  case (0 e q clock s)
  define r where "r = reader_sort (hd clock) w (eng_reader e)"
  obtain t1 t2 ts where c: "clock = t1 # t2 # ts"
    using "0.prems"(5) by (cases clock; cases "tl clock") auto
  have q: "q k = []" if "k \<in> joined (eng_reader e)" for k
    using "0.hyps" that by (simp add: backlog_def joined_def)
  have nd: "\<not> has_data (frame_at w k j)" if "umap_find (rd_journals (eng_reader e)) k = Some j" for k j
    using pending_frame(1) [OF "0.prems"(2) that] q that by (auto simp: joined_iff)
  have "\<not> fst (data_available t1 w (eng_reader e))"
    using nd by (auto simp: data_available_def Let_def reader_frame_def split: option.splits bind_splits)
  then obtain r' where "data_available t1 w (eng_reader e) = (False, r')"
    by (cases "data_available t1 w (eng_reader e)") simp
  then have "engine_drain rb (read_handler g) clock e w s =
      Some \<lparr> dr_result = True, dr_engine = e\<lparr> eng_reader := r' \<rparr>, dr_world = w, dr_state = s, dr_trace = [] \<rparr>"
    using "0.prems"(3) by (simp add: c)
  then show ?case using q by (auto simp: merge_of_def)
next
  case (Suc n e q clock s)
  note wf = Suc.prems(1) and pend = Suc.prems(2) and tm = Suc.prems(4)
  obtain t1 t2 ts where c: "clock = t1 # t2 # ts"
    using Suc.prems(5) by (cases clock; cases "tl clock") auto
  let ?js = "rd_journals (eng_reader e)"
  define r where "r = reader_sort t1 w (eng_reader e)"
  have jr: "joined r = joined (eng_reader e)" "rd_journals r = ?js" by (simp_all add: r_def joined_def)
  have due_iff: "due w t1 (k, j) \<longleftrightarrow> q k \<noteq> []" if "umap_find ?js k = Some j" for k j
  proof -
    have "fr_gen_time (hd (q k)) \<le> t1" if "q k \<noteq> []"
      using tm \<open>umap_find ?js k = Some j\<close> hd_in_set [OF that] by (auto simp: timely_def c joined_iff)
    then show ?thesis using pending_frame [OF pend that] by (auto simp: due_def)
  qed
  have "\<exists>k \<in> joined (eng_reader e). q k \<noteq> []"
  proof (rule ccontr)
    assume "\<not> ?thesis"
    then have "backlog (eng_reader e) q = 0" by (simp add: backlog_def)
    then show False using Suc.hyps(2) by simp
  qed
  then obtain k0 j0 where k0: "umap_find ?js k0 = Some j0" "q k0 \<noteq> []" by (auto simp: joined_iff)
  then have "list_ex (due w t1) ?js"
    using due_iff umap_find_in_set [OF k0(1)] by (auto simp: list_ex_iff)
  from reader_sort_earliest [OF this wf] obtain k j where k: "umap_find ?js k = Some j"
    "due w t1 (k, j)" "rd_current r = Some k"
    and least: "\<And>k' j'. umap_find ?js k' = Some j' \<Longrightarrow> due w t1 (k', j') \<Longrightarrow>
      fr_gen_time (frame_at w k j) \<le> fr_gen_time (frame_at w k' j')"
    unfolding r_def by blast
  obtain f fs where f: "q k = f # fs" using due_iff [OF k(1)] k(2) by (cases "q k") auto
  have kj: "k \<in> joined (eng_reader e)" using k(1) by (auto simp: joined_iff)
  have fr: "frame_at w k j = f" using pending_frame(2) [OF pend k(1)] f by simp
  have hd_f: "has_data f" using pending_frame(1) [OF pend k(1)] f fr by simp
  have rf: "reader_frame w r = Some f" using k fr jr by (simp add: reader_frame_def)
  have av: "data_available t1 w (eng_reader e) = (True, r)"
    using rf hd_f by (simp add: data_available_def Let_def r_def)
  have et: "fr_gen_time f \<le> eng_end_time e" using tm kj f by (auto simp: timely_def)
  have "pending w r q" using pend by (simp add: pending_def jr)
  from reader_next_pending [OF this k(3) _ f, of j rb t2] obtain r' where
    r': "reader_next rb t2 w r = Some (w, r')" "pending w r' (q(k := fs))" "joined r' = joined (eng_reader e)"
      "umap_wf (rd_journals r')"
    using k(1) jr wf by auto
  define e' where "e' = e\<lparr> eng_now_event_time := max (eng_now_event_time e) (fr_gen_time f), eng_reader := r' \<rparr>"
  have e': "eng_reader e' = r'" "eng_live e'" "eng_end_time e' = eng_end_time e"
    using Suc.prems(3) by (simp_all add: e'_def)
  have bl: "backlog (eng_reader e) q = Suc (backlog r' (q(k := fs)))"
    using kj f r'(3) by (rule backlog_tail)
  have "\<exists>d. engine_drain rb (read_handler g) ts e' w (g f s) = Some d \<and> dr_result d \<and> dr_world d = w \<and>
    merge_of (eng_reader e') (q(k := fs)) (dr_trace d) \<and> dr_state d = fold g (List.map snd (dr_trace d)) (g f s)"
  proof (rule Suc.hyps(1))
    show "n = backlog (eng_reader e') (q(k := fs))" using bl Suc.hyps(2) e' by simp
    show "timely (eng_end_time e') ts (eng_reader e') (q(k := fs))"
      using timely_tail [of _ t1 t2 ts _ q k f fs, OF tm [unfolded c] f r'(3)] e' by simp
    show "2 * backlog (eng_reader e') (q(k := fs)) + 2 \<le> length ts"
      using Suc.prems(5) bl e' by (simp add: c)
  qed (use e' r' in simp_all)
  then obtain d where d: "engine_drain rb (read_handler g) ts e' w (g f s) = Some d" "dr_result d"
    "dr_world d = w" "merge_of r' (q(k := fs)) (dr_trace d)"
    "dr_state d = fold g (List.map snd (dr_trace d)) (g f s)"
    using e' by auto
  have "engine_drain rb (read_handler g) clock e w s = Some (d\<lparr> dr_trace := (k, f) # dr_trace d \<rparr>)"
    using Suc.prems(3) et d(1) r'(1)
    by (simp add: c av rf k(3) read_handler_def e'_def)
  moreover have "merge_of (eng_reader e) q ((k, f) # dr_trace d)"
  proof (rule merge_of_Cons [of _ q k fs, OF d(4) r'(3) kj f])
    show "\<forall>k' \<in> joined (eng_reader e). q k' \<noteq> [] \<longrightarrow> fr_gen_time f \<le> fr_gen_time (hd (q k'))"
    proof (intro ballI impI)
      fix k' assume "k' \<in> joined (eng_reader e)" "q k' \<noteq> []"
      moreover from this obtain j' where "umap_find ?js k' = Some j'" by (auto simp: joined_iff)
      ultimately show "fr_gen_time f \<le> fr_gen_time (hd (q k'))"
        using least [of k' j'] due_iff [of k' j'] pending_frame(2) [OF pend, of k' j'] fr by simp
    qed
  qed (use tm in \<open>simp add: timely_def\<close>)
  ultimately show ?case using d by auto
qed

section \<open>Properties\<close>

text \<open>C10: draining merges the journals. When every journal's waiting frames are in time order and due, the event
  loop ends and has handed the handler all of them, once each, in the order of their generation
  times, the frames of one journal in the order they were written.\<close>

theorem drain_merges:
  assumes "umap_wf (rd_journals (eng_reader e))" "pending w (eng_reader e) q" "eng_live e"
    "timely (eng_end_time e) clock (eng_reader e) q" "2 * backlog (eng_reader e) q + 2 \<le> length clock"
  shows "\<exists>d. engine_drain rb (read_handler g) clock e w s = Some d \<and> dr_result d \<and> dr_world d = w \<and>
    sorted (List.map (\<lambda>(k, f). fr_gen_time f) (dr_trace d)) \<and>
    (\<forall>k \<in> joined (eng_reader e). List.map snd (filter (\<lambda>(k', f). k' = k) (dr_trace d)) = q k) \<and>
    (\<forall>(k, f) \<in> set (dr_trace d). k \<in> joined (eng_reader e)) \<and>
    dr_state d = fold g (List.map snd (dr_trace d)) s"
  using engine_drain_merge [OF assms, of rb g s] by (auto simp: merge_of_def case_prod_unfold)

definition sample_frame :: "int \<Rightarrow> Frame" where
  "sample_frame t = Frame_zero\<lparr> fr_length := FRAME_HEADER, fr_header_length := FRAME_HEADER,
                               fr_gen_time := t, fr_msg_type := 2 \<rparr>"

definition sample_world :: world where
  "sample_world = (\<lambda>k. [(1, (init_page 1048576 Page_zero)
     \<lparr> pg_mem := (\<lambda>a. if a = PAGE_HEADER then sample_frame (if k = 1 then 5 else 3) else Frame_zero) \<rparr>)])"

definition sample_engine :: Engine where
  "sample_engine = \<lparr> eng_live = True, eng_end_time = 100, eng_now_event_time = 0,
     eng_reader = Reader_new\<lparr> rd_journals := [(1, sample_journal), (2, sample_journal)] \<rparr> \<rparr>"

lemma drain_merges_witness:
  "\<exists>d. engine_drain 0 (read_handler (\<lambda>f s. s @ [fr_gen_time f])) [9, 9, 9, 9, 9, 9] sample_engine sample_world [] = Some d \<and>
     sorted (List.map (\<lambda>(k, f). fr_gen_time f) (dr_trace d)) \<and>
     List.map snd (filter (\<lambda>(k', f). k' = 1) (dr_trace d)) = [sample_frame 5] \<and>
     List.map snd (filter (\<lambda>(k', f). k' = 2) (dr_trace d)) = [sample_frame 3]"
proof -
  define q where "q = (\<lambda>k :: u64. [sample_frame (if k = 1 then 5 else 3)])"
  have j: "joined (eng_reader sample_engine) = {1, 2}"
    by (simp add: joined_def sample_engine_def Reader_new_def umap_keys_def)
  have fr: "frames (pg_mem (current_page (sample_world k) sample_journal)) PAGE_HEADER (q k) (PAGE_HEADER + FRAME_HEADER) \<and>
    \<not> has_data (pg_mem (current_page (sample_world k) sample_journal) (PAGE_HEADER + FRAME_HEADER))" for k
    by (simp add: q_def current_page_def page_at_def sample_world_def sample_journal_def sample_frame_def
        Frame_zero_def has_data_def journal_consts)
  have "umap_wf (rd_journals (eng_reader sample_engine))" "eng_live sample_engine"
    by (simp_all add: sample_engine_def Reader_new_def umap_wf_def)
  moreover have "pending sample_world (eng_reader sample_engine) q"
    using fr by (auto simp: pending_def sample_engine_def Reader_new_def umap_find_def sample_journal_def
        split: if_splits)
  moreover have "timely (eng_end_time sample_engine) [9, 9, 9, 9, 9, 9] (eng_reader sample_engine) q"
    unfolding timely_def j by (simp add: q_def sample_frame_def sample_engine_def)
  moreover have "2 * backlog (eng_reader sample_engine) q + 2 \<le> length [9, 9, 9, 9, 9, 9 :: int]"
    unfolding backlog_def j by (simp add: q_def)
  ultimately show ?thesis
    using drain_merges [of sample_engine sample_world q "[9, 9, 9, 9, 9, 9]" 0 "\<lambda>f s. s @ [fr_gen_time f]" "[]"]
    unfolding j by (auto simp: q_def)
qed

text \<open>Leaving a channel is complete: afterwards no event of that channel is delivered, the choice of the
  next frame is made afresh among the others, and the other journals keep their positions.\<close>

theorem disjoin_channel_exact:
  assumes "umap_wf (rd_journals r)"
  shows "let r' = reader_disjoin_channel now l d w r in
    umap_find (rd_journals r') (journal_key l d) = None \<and> rd_current r' \<noteq> Some (journal_key l d) \<and>
    (\<forall>k. k \<noteq> journal_key l d \<longrightarrow> umap_find (rd_journals r') k = umap_find (rd_journals r) k) \<and>
    (rd_current r' = None \<longleftrightarrow> \<not> list_ex (due w now) (rd_journals r'))"
proof -
  let ?r = "r\<lparr> rd_journals := umap_erase (journal_key l d) (rd_journals r), rd_current := None \<rparr>"
  have wf: "umap_wf (rd_journals ?r)" using assms by simp
  have "rd_current (reader_sort now w ?r) \<noteq> Some (journal_key l d)"
  proof (cases "list_ex (due w now) (rd_journals ?r)")
    case True
    then show ?thesis using reader_sort_earliest [OF True wf] by auto
  qed (simp add: reader_sort_idle)
  moreover have "rd_current (reader_sort now w ?r) = None \<longleftrightarrow> \<not> list_ex (due w now) (rd_journals ?r)"
    using reader_sort_earliest [OF _ wf] reader_sort_idle [of w now ?r] by fastforce
  ultimately show ?thesis by (simp add: reader_disjoin_channel_def Let_def)
qed

lemma disjoin_channel_witness:
  "rd_current (reader_disjoin_channel 9 0 1 sample_world (eng_reader sample_engine)) \<noteq> Some (journal_key 0 1)"
  using disjoin_channel_exact [of "eng_reader sample_engine" 9 0 1 sample_world]
  by (simp add: Let_def sample_engine_def Reader_new_def umap_wf_def)

text \<open>The clock does not hold back the journal read last. A frame stamped later than the present time is
  never chosen, but the reader stays on the journal of its previous choice: when nothing is due, a
  future frame of that journal counts as available, and one of another journal does not.\<close>

theorem stale_choice_reads_future:
  assumes "umap_wf (rd_journals r)" "\<not> list_ex (due w now) (rd_journals r)" "rd_current r = Some k"
    "umap_find (rd_journals r) k = Some j"
  shows "data_available now w r = (has_data (frame_at w k j), r) \<and>
    data_available now w (r\<lparr> rd_current := None \<rparr>) = (False, r\<lparr> rd_current := None \<rparr>)"
  using assms by (simp add: data_available_def reader_sort_idle reader_frame_def Let_def)

lemma stale_choice_witness:
  "data_available 2 sample_world ((eng_reader sample_engine)\<lparr> rd_current := Some 1 \<rparr>) =
     (True, (eng_reader sample_engine)\<lparr> rd_current := Some 1 \<rparr>)"
proof -
  let ?r = "(eng_reader sample_engine)\<lparr> rd_current := Some 1 \<rparr>"
  have fr: "frame_at sample_world k sample_journal = sample_frame (if k = 1 then 5 else 3)" for k
    by (simp add: frame_at_def current_frame_def current_page_def page_at_def sample_world_def
        sample_journal_def sample_frame_def)
  have "umap_wf (rd_journals ?r)" "umap_find (rd_journals ?r) 1 = Some sample_journal"
    by (simp_all add: sample_engine_def Reader_new_def umap_wf_def umap_find_def)
  moreover have "\<not> list_ex (due sample_world 2) (rd_journals ?r)"
    by (simp add: sample_engine_def Reader_new_def due_def fr sample_frame_def)
  moreover have "has_data (sample_frame 5)" by (simp add: sample_frame_def has_data_def journal_consts)
  ultimately show ?thesis
    using stale_choice_reads_future [of ?r sample_world 2 1 sample_journal] by (simp add: fr)
qed

end
