(* ===== verification/Executor.thy ===== *)
theory Executor
  imports Messages Reader
begin

text \<open>
  The executor a strategy places orders with (src/strategy/live_executor.cpp): a request is a frame in
  the journal of its account, written in place, and the id of the frame is the id of the request.
  The data of a request is copied into the frame whole; \<open>encode\<close> is its layout in memory, which
  nothing here depends on, and the sizes are those of the structs. The code assigns the text arrays of an order
  as C strings, which leaves the bytes behind the terminator as they were in the frame; the copy has the order's.

  \<open>ex_writers\<close> are the engine's writers, by destination; \<open>ex_starts\<close> the hash each writer made
  of its start time. \<open>None\<close> is an exception or a failed assertion.
\<close>

record Executor =
  ex_writers :: "(u32, Journal) umap"
  ex_starts :: "u32 \<Rightarrow> u32"
  ex_td_uid :: u32
  ex_now_event_time :: int

unbundle bit_operations_syntax

definition jid_build :: "string \<Rightarrow> string \<Rightarrow> u32" where
  "jid_build institution account_id = hash_str_32 institution XOR hash_str_32 account_id"

definition sizeof_OrderInput :: nat where "sizeof_OrderInput = 120"
definition sizeof_OrderCancel :: nat where "sizeof_OrderCancel = 72"
definition sizeof_AccountReq :: nat where "sizeof_AccountReq = 64"

text \<open>
  \<open>open_data\<close>, the data written with the id of the frame in it, \<open>close_data\<close>. \<open>bytes\<close> makes the bytes
  of the request from the id.
\<close>

definition send_request ::
    "nat \<Rightarrow> int \<Rightarrow> nat \<Rightarrow> nat \<Rightarrow> (u64 \<Rightarrow> u8 list) \<Rightarrow> u32 \<Rightarrow> world \<Rightarrow> Executor \<Rightarrow> (u64 \<times> world \<times> Executor) option" where
  "send_request rb now tag len bytes dest w ex =
     (case umap_find (ex_writers ex) dest of
        None \<Rightarrow> None
      | Some j \<Rightarrow>
          let key = journal_key (jn_uid j) (jn_dest j)
          in case open_frame rb now (ex_now_event_time ex) tag len (w key) j of
               None \<Rightarrow> None
             | Some (st, j) \<Rightarrow>
                 let uid = current_frame_uid (ex_starts ex dest) j;
                     st = upd_frame (jn_page j) (jn_pos j) (\<lambda>f. f\<lparr> fr_data := bytes uid \<rparr>) st
                 in (case close_frame rb now len st j of
                       None \<Rightarrow> None
                     | Some (st, j) \<Rightarrow>
                         Some (uid, w(key := st), ex\<lparr> ex_writers := umap_set dest j (ex_writers ex) \<rparr>)))"

definition live_insert_order ::
    "nat \<Rightarrow> int \<Rightarrow> (Event \<Rightarrow> u8 list) \<Rightarrow> string \<Rightarrow> string \<Rightarrow> OrderInput \<Rightarrow> world \<Rightarrow> Executor \<Rightarrow> (u64 \<times> world \<times> Executor) option" where
  "live_insert_order rb now encode institution account order =
     send_request rb now (tag_num Tag_OrderInput) sizeof_OrderInput
       (\<lambda>uid. encode (Ev_OrderInput (order\<lparr> oi_order_id := uid, oi_insert_time := now \<rparr>)))
       (jid_build institution account)"

text \<open>The cancel request names the frame's own id and the target; its other fields stay unset.\<close>

definition OrderCancel_zero :: OrderCancel where
  "OrderCancel_zero = \<lparr> oc_instrument_id = arr_zero INSTRUMENT_ID_LEN, oc_order_id = 0, oc_target_order_id = 0,
     oc_price = 0, oc_volume = 0, oc_insert_time = 0 \<rparr>"

definition live_cancel_order ::
    "nat \<Rightarrow> int \<Rightarrow> (Event \<Rightarrow> u8 list) \<Rightarrow> u64 \<Rightarrow> world \<Rightarrow> Executor \<Rightarrow> (u64 \<times> world \<times> Executor) option" where
  "live_cancel_order rb now encode order_id w ex =
     send_request rb now (tag_num Tag_OrderCancel) sizeof_OrderCancel
       (\<lambda>uid. encode (Ev_OrderCancel (OrderCancel_zero\<lparr> oc_order_id := uid, oc_target_order_id := order_id \<rparr>)))
       (ucast (drop_bit 32 order_id) XOR ex_td_uid ex) w ex"

definition live_req_account_info ::
    "nat \<Rightarrow> int \<Rightarrow> (Event \<Rightarrow> u8 list) \<Rightarrow> string \<Rightarrow> string \<Rightarrow> AccountReq \<Rightarrow> world \<Rightarrow> Executor \<Rightarrow> (u64 \<times> world \<times> Executor) option" where
  "live_req_account_info rb now encode institution account req =
     send_request rb now (tag_num Tag_AccountReq) sizeof_AccountReq
       (\<lambda>uid. encode (Ev_AccountReq (req\<lparr> rq_id := uid, rq_insert_time := now \<rparr>)))
       (jid_build institution account)"

section \<open>Where a request goes\<close>

text \<open>The writers of the trading accounts: each is on the journal of its destination.\<close>

definition executor_wf :: "Executor \<Rightarrow> bool" where
  "executor_wf ex \<longleftrightarrow>
     (\<forall>dest j. umap_find (ex_writers ex) dest = Some j \<longrightarrow> jn_uid j = ex_td_uid ex \<and> jn_dest j = dest)"

lemma load_page_ids:
  "load_page st j pid = Some (st', j') \<Longrightarrow> jn_uid j' = jn_uid j \<and> jn_dest j' = jn_dest j"
  by (auto simp: load_page_def Let_def split: if_splits)

lemma load_next_ids:
  "load_next_page rb st j = Some (st', j') \<Longrightarrow> jn_uid j' = jn_uid j \<and> jn_dest j' = jn_dest j"
  by (auto simp: load_next_page_def Let_def split: option.splits if_splits dest!: load_page_ids)

lemma journal_next_ids:
  "journal_next rb st j = Some (st', j') \<Longrightarrow> jn_uid j' = jn_uid j \<and> jn_dest j' = jn_dest j"
  by (auto simp: journal_next_def split: if_splits dest!: load_next_ids)

lemma close_page_ids:
  "close_page rb now tt st j = Some (st', j') \<Longrightarrow> jn_uid j' = jn_uid j \<and> jn_dest j' = jn_dest j"
  by (auto simp: close_page_def Let_def split: option.splits dest!: load_next_ids)

lemma open_frame_ids:
  "open_frame rb now tt msg_type len st j = Some (st', j') \<Longrightarrow> jn_uid j' = jn_uid j \<and> jn_dest j' = jn_dest j"
  by (auto simp: open_frame_def split: option.splits if_splits dest!: close_page_ids)

lemma close_frame_ids:
  "close_frame rb gen_time len st j = Some (st', j') \<Longrightarrow> jn_uid j' = jn_uid j \<and> jn_dest j' = jn_dest j"
  by (auto simp: close_frame_def Let_def split: if_splits dest!: journal_next_ids)

lemma account_of_uid:
  "ucast (drop_bit 32 (current_frame_uid start j)) XOR jn_uid j = jn_dest j"
  using frame_uid_account [of start j] by (simp add: to_account_uid_def)

lemma send_request_spec:
  assumes "executor_wf ex" "send_request rb now tag len bytes dest w ex = Some (uid, w', ex')"
  shows "ucast (drop_bit 32 uid) XOR ex_td_uid ex = dest" "executor_wf ex'"
    "ex_td_uid ex' = ex_td_uid ex" "umap_contains (ex_writers ex') dest"
    "\<And>key. key \<noteq> journal_key (ex_td_uid ex) dest \<Longrightarrow> w' key = w key"
    "\<And>d. d \<noteq> dest \<Longrightarrow> umap_find (ex_writers ex') d = umap_find (ex_writers ex) d"
proof -
  obtain j where j: "umap_find (ex_writers ex) dest = Some j"
    using assms(2) by (auto simp: send_request_def split: option.splits)
  have id: "jn_uid j = ex_td_uid ex" "jn_dest j = dest" using assms(1) j by (auto simp: executor_wf_def)
  obtain st1 j1 where o: "open_frame rb now (ex_now_event_time ex) tag len (w (journal_key (jn_uid j) (jn_dest j))) j = Some (st1, j1)"
    using assms(2) j by (auto simp: send_request_def Let_def split: option.splits)
  obtain st2 j2 where c: "close_frame rb now len (upd_frame (jn_page j1) (jn_pos j1)
      (\<lambda>f. f\<lparr> fr_data := bytes (current_frame_uid (ex_starts ex dest) j1) \<rparr>) st1) j1 = Some (st2, j2)"
    using assms(2) j o by (auto simp: send_request_def Let_def split: option.splits)
  have r: "uid = current_frame_uid (ex_starts ex dest) j1"
    "w' = w(journal_key (jn_uid j) (jn_dest j) := st2)"
    "ex' = ex\<lparr> ex_writers := umap_set dest j2 (ex_writers ex) \<rparr>"
    using assms(2) j o c by (simp_all add: send_request_def Let_def)
  note i1 = open_frame_ids [OF o] and i2 = close_frame_ids [OF c]
  show "ucast (drop_bit 32 uid) XOR ex_td_uid ex = dest"
    using account_of_uid [of "ex_starts ex dest" j1] r(1) i1 id by simp
  show "executor_wf ex'" "ex_td_uid ex' = ex_td_uid ex" "umap_contains (ex_writers ex') dest"
    using assms(1) i1 i2 id by (auto simp: executor_wf_def r(3))
  show "\<And>key. key \<noteq> journal_key (ex_td_uid ex) dest \<Longrightarrow> w' key = w key" using id by (simp add: r(2))
  show "\<And>d. d \<noteq> dest \<Longrightarrow> umap_find (ex_writers ex') d = umap_find (ex_writers ex) d" by (simp add: r(3))
qed

text \<open>The frame of a sent request holds its data, and is addressed to its account.\<close>

lemma send_request_frame:
  assumes "executor_wf ex" "send_request rb now tag len bytes dest w ex = Some (uid, w', ex')" "0 < tag"
  shows "\<exists>pid pos. let f = pg_mem (page_at (w' (journal_key (ex_td_uid ex) dest)) pid) pos
    in fr_data f = bytes uid \<and> fr_msg_type f = tag \<and> fr_length f = FRAME_HEADER + len \<and>
       fr_source f = ex_td_uid ex \<and> fr_dest f = dest \<and> fr_gen_time f = now"
proof -
  obtain j where j: "umap_find (ex_writers ex) dest = Some j"
    using assms(2) by (auto simp: send_request_def split: option.splits)
  have id: "jn_uid j = ex_td_uid ex" "jn_dest j = dest" using assms(1) j by (auto simp: executor_wf_def)
  obtain st1 j1 where o: "open_frame rb now (ex_now_event_time ex) tag len (w (journal_key (jn_uid j) (jn_dest j))) j = Some (st1, j1)"
    using assms(2) j by (auto simp: send_request_def Let_def split: option.splits)
  define st2 where "st2 = upd_frame (jn_page j1) (jn_pos j1)
      (\<lambda>f. f\<lparr> fr_data := bytes (current_frame_uid (ex_starts ex dest) j1) \<rparr>) st1"
  obtain st3 j3 where c: "close_frame rb now len st2 j1 = Some (st3, j3)"
    using assms(2) j o by (auto simp: send_request_def Let_def st2_def split: option.splits)
  have r: "uid = current_frame_uid (ex_starts ex dest) j1" "w' = w(journal_key (jn_uid j) (jn_dest j) := st3)"
    using assms(2) j o c by (simp_all add: send_request_def Let_def st2_def)
  have f1: "fr_header_length (pg_mem (page_at st1 (jn_page j1)) (jn_pos j1)) = FRAME_HEADER"
    "fr_msg_type (pg_mem (page_at st1 (jn_page j1)) (jn_pos j1)) = tag"
    "fr_source (pg_mem (page_at st1 (jn_page j1)) (jn_pos j1)) = jn_uid j"
    "fr_dest (pg_mem (page_at st1 (jn_page j1)) (jn_pos j1)) = jn_dest j"
    using o by (auto simp: open_frame_def split: option.splits if_splits dest!: close_page_ids)
  have "st3 = upd_page (jn_page j1) (\<lambda>p. p\<lparr> pg_last := jn_pos j1 \<rparr>)
      (upd_frame (jn_page j1) (jn_pos j1) (\<lambda>f. f\<lparr> fr_gen_time := now, fr_length := fr_header_length f + len \<rparr>)
        (upd_frame (jn_page j1) (jn_pos j1 + FRAME_HEADER + len) (\<lambda>_. Frame_zero) st2))"
    using c f1 assms(3)
    by (simp add: close_frame_def journal_next_def current_frame_def current_page_def st2_def Let_def journal_consts
        split: if_splits)
  then have "pg_mem (page_at st3 (jn_page j1)) (jn_pos j1) =
      (pg_mem (page_at st1 (jn_page j1)) (jn_pos j1))\<lparr> fr_data := bytes uid, fr_gen_time := now, fr_length := FRAME_HEADER + len \<rparr>"
    using f1 by (simp add: st2_def r(1) journal_consts)
  then show ?thesis
    using f1 id r(2) by (intro exI [of _ "jn_page j1"] exI [of _ "jn_pos j1"]) (simp add: Let_def)
qed

text \<open>A request that fits the page of its account's journal is written.\<close>

lemma send_request_fits:
  assumes "umap_find (ex_writers ex) dest = Some j" "0 < tag"
    "page_valid n (current_page (w (journal_key (jn_uid j) (jn_dest j))) j)"
    "fits (w (journal_key (jn_uid j) (jn_dest j))) j len"
  shows "\<exists>st'. send_request rb now tag len bytes dest w ex =
      Some (current_frame_uid (ex_starts ex dest) j, w(journal_key (jn_uid j) (jn_dest j) := st'),
        ex\<lparr> ex_writers := umap_set dest (j\<lparr> jn_pos := jn_pos j + (FRAME_HEADER + len), jn_frame_nb := jn_frame_nb j + 1 \<rparr>)
              (ex_writers ex) \<rparr>) \<and>
    page_valid n (page_at st' (jn_page j)) \<and>
    address_border (page_at st' (jn_page j)) = address_border (current_page (w (journal_key (jn_uid j) (jn_dest j))) j)"
proof -
  define st where "st = w (journal_key (jn_uid j) (jn_dest j))"
  define p where "p = page_at st (jn_page j)"
  have b: "jn_pos j + FRAME_HEADER + len < pg_size p - FRAME_HEADER"
    using assms(4) by (simp add: fits_def current_page_def address_border_def p_def st_def)
  define st1 where "st1 = upd_frame (jn_page j) (jn_pos j)
     (\<lambda>f. f\<lparr> fr_header_length := FRAME_HEADER, fr_trigger_time := ex_now_event_time ex,
            fr_msg_type := tag, fr_source := jn_uid j, fr_dest := jn_dest j \<rparr>) st"
  have o: "open_frame rb now (ex_now_event_time ex) tag len st j = Some (st1, j)"
    using b by (simp add: open_frame_def current_page_def p_def [symmetric] address_border_def st1_def)
  define st2 where "st2 = upd_frame (jn_page j) (jn_pos j)
     (\<lambda>f. f\<lparr> fr_data := bytes (current_frame_uid (ex_starts ex dest) j) \<rparr>) st1"
  have p2: "page_at st2 (jn_page j) = p\<lparr> pg_mem := (pg_mem p)(jn_pos j := (pg_mem p (jn_pos j))
      \<lparr> fr_header_length := FRAME_HEADER, fr_trigger_time := ex_now_event_time ex,
        fr_msg_type := tag, fr_source := jn_uid j, fr_dest := jn_dest j,
        fr_data := bytes (current_frame_uid (ex_starts ex dest) j) \<rparr>) \<rparr>"
    by (simp add: st2_def st1_def p_def)
  obtain st3 where c: "close_frame rb now len st2 j =
      Some (st3, j\<lparr> jn_pos := jn_pos j + (FRAME_HEADER + len), jn_frame_nb := jn_frame_nb j + 1 \<rparr>)"
    "page_valid n (page_at st3 (jn_page j)) = page_valid n p"
    "address_border (page_at st3 (jn_page j)) = address_border p"
    using b assms(2)
    by (simp add: close_frame_def current_page_def current_frame_def p2 address_border_def Let_def
        journal_next_def journal_consts add.assoc)
  have "send_request rb now tag len bytes dest w ex =
      Some (current_frame_uid (ex_starts ex dest) j, w(journal_key (jn_uid j) (jn_dest j) := st3),
        ex\<lparr> ex_writers := umap_set dest (j\<lparr> jn_pos := jn_pos j + (FRAME_HEADER + len), jn_frame_nb := jn_frame_nb j + 1 \<rparr>)
              (ex_writers ex) \<rparr>)"
    using assms(1) o c(1) by (simp add: send_request_def st_def [symmetric] st2_def Let_def)
  then show ?thesis using c(2,3) assms(3) by (auto simp: st_def p_def current_page_def)
qed

section \<open>The bits of an id\<close>

definition frame_bits :: "Journal \<Rightarrow> u32" where
  "frame_bits j = (push_bit 16 (word_of_nat (jn_page j)) AND 0xFFFF0000) OR (word_of_nat (jn_frame_nb j) AND 0x0000FFFF)"

lemma bit_mask_low: "bit (0xFFFF :: u32) n \<longleftrightarrow> n < 16"
proof -
  have "(0xFFFF :: u32) = mask 16" by (simp add: mask_eq_exp_minus_1)
  then show ?thesis by (simp only: bit_mask_iff) auto
qed

lemma bit_mask_high: "bit (0xFFFF0000 :: u32) n \<longleftrightarrow> 16 \<le> n \<and> n < 32"
proof -
  have "(0xFFFF0000 :: u32) = push_bit 16 (mask 16)" by (simp add: mask_eq_exp_minus_1 push_bit_eq_mult)
  then show ?thesis by (simp only: bit_push_bit_iff bit_mask_iff) auto
qed

lemma bit_u32_of_nat: "bit (word_of_nat a :: u32) n \<longleftrightarrow> n < 32 \<and> bit a n"
proof -
  have "bit (unat (word_of_nat a :: u32)) n \<longleftrightarrow> bit (word_of_nat a :: u32) n"
    by (auto simp: bit_unsigned_iff possible_bit_def dest: bit_imp_le_length)
  moreover have "unat (word_of_nat a :: u32) = take_bit 32 a" by (simp add: unsigned_of_nat)
  ultimately show ?thesis by (simp add: bit_take_bit_iff)
qed

lemma bit_frame_bits:
  "bit (frame_bits j) n \<longleftrightarrow> n < 32 \<and> (if n < 16 then bit (jn_frame_nb j) n else bit (jn_page j) (n - 16))"
  unfolding frame_bits_def
  by (simp only: bit_or_iff bit_and_iff bit_push_bit_iff bit_mask_low bit_mask_high bit_u32_of_nat possible_bit_def)
    auto

lemma uid_eq_iff:
  assumes "jn_uid j = jn_uid i" "jn_dest j = jn_dest i"
  shows "current_frame_uid start i = current_frame_uid start j \<longleftrightarrow> frame_bits i = frame_bits j"
proof
  have low: "ucast (push_bit 32 (ucast (a :: u32)) OR (ucast (b :: u32) :: u64)) = (b :: u32)" for a b
    by (rule bit_word_eqI) (auto simp: bit_simps)
  have u: "current_frame_uid start k = push_bit 32 (ucast (jn_uid k XOR jn_dest k)) OR ucast (frame_bits k XOR start)" for k
    by (simp add: current_frame_uid_def frame_id_base_def frame_bits_def)
  show "frame_bits i = frame_bits j" if "current_frame_uid start i = current_frame_uid start j"
  proof -
    have "frame_bits i XOR start = frame_bits j XOR start"
      using arg_cong [OF that, of "\<lambda>x. ucast x :: u32"] unfolding u low .
    then have "(frame_bits i XOR start) XOR start = (frame_bits j XOR start) XOR start" by simp
    then show ?thesis by (simp add: xor.assoc)
  qed
  show "current_frame_uid start i = current_frame_uid start j" if "frame_bits i = frame_bits j"
    using that assms by (simp add: u)
qed

lemma bit_small: "a < 65536 \<Longrightarrow> bit (a :: nat) n \<Longrightarrow> n < 16"
proof (rule ccontr)
  assume a: "a < 65536" "bit a n" "\<not> n < 16"
  have "(2 :: nat) ^ 16 \<le> 2 ^ n" using a(3) by (intro power_increasing) auto
  then have "a < 2 ^ n" using a(1) by simp
  then show False using a(2) by (simp add: bit_iff_odd)
qed

lemma frame_bits_inj:
  assumes "jn_page i < 65536" "jn_page j < 65536" "jn_frame_nb i < 65536" "jn_frame_nb j < 65536"
  shows "frame_bits i = frame_bits j \<longleftrightarrow> jn_page i = jn_page j \<and> jn_frame_nb i = jn_frame_nb j"
proof
  assume e: "frame_bits i = frame_bits j"
  have "bit (jn_frame_nb i) n = bit (jn_frame_nb j) n" for n
  proof (cases "n < 16")
    case True
    then show ?thesis using arg_cong [OF e, of "\<lambda>x. bit x n"] by (simp add: bit_frame_bits)
  next
    case False
    then show ?thesis using bit_small assms(3,4) by blast
  qed
  moreover have "bit (jn_page i) n = bit (jn_page j) n" for n
  proof (cases "n < 16")
    case True
    then show ?thesis using arg_cong [OF e, of "\<lambda>x. bit x (n + 16)"] by (simp add: bit_frame_bits)
  next
    case False
    then show ?thesis using bit_small assms(1,2) by blast
  qed
  ultimately show "jn_page i = jn_page j \<and> jn_frame_nb i = jn_frame_nb j" by (auto intro: bit_eqI)
qed (simp add: frame_bits_def)

lemma frame_bits_repeat:
  assumes "jn_page j = jn_page i" "jn_frame_nb j = jn_frame_nb i + 65536"
  shows "frame_bits j = frame_bits i"
proof (rule bit_word_eqI)
  fix n assume "n < LENGTH(32)"
  have "bit (a + 65536) n = bit (a :: nat) n" if "n < 16" for a
  proof -
    have "take_bit 16 (a + 65536) = take_bit 16 a" by (simp add: take_bit_eq_mod)
    then have "bit (take_bit 16 (a + 65536)) n = bit (take_bit 16 a) n" by simp
    then show ?thesis using that by (simp add: bit_take_bit_iff)
  qed
  then show "bit (frame_bits j) n = bit (frame_bits i) n" using assms by (simp add: bit_frame_bits)
qed

section \<open>Properties\<close>

text \<open>A cancellation finds its order's account. The id an order gets is that of the account it was placed
  with; cancelling by that id, at any later time and whatever was sent in between, writes to the
  journal of that account and to no other.\<close>

theorem cancel_reaches_account:
  assumes "executor_wf ex"
    "live_insert_order rb now encode institution account order w ex = Some (order_id, w1, ex1)"
    "executor_wf ex2" "ex_td_uid ex2 = ex_td_uid ex"
    "live_cancel_order rb' now' encode order_id w2 ex2 = Some (action_id, w3, ex3)"
  shows "to_account_uid order_id (ex_td_uid ex) = jid_build institution account \<and>
    to_account_uid action_id (ex_td_uid ex) = jid_build institution account \<and>
    (\<forall>key. key \<noteq> journal_key (ex_td_uid ex) (jid_build institution account) \<longrightarrow> w1 key = w key \<and> w3 key = w2 key)"
proof -
  note i = send_request_spec [OF assms(1) assms(2) [unfolded live_insert_order_def]]
  note c = send_request_spec [OF assms(3) assms(5) [unfolded live_cancel_order_def]]
  show ?thesis using i(1,5) c(1,5) assms(4) by (simp add: to_account_uid_def)
qed

definition sample_account :: u32 where
  "sample_account = jid_build ''simulation'' ''a1''"

definition sample_executor :: Executor where
  "sample_executor = \<lparr> ex_writers = [(sample_account, (journal_new 7 sample_account 16777216 True)\<lparr> jn_page := 1, jn_pos := PAGE_HEADER \<rparr>)],
     ex_starts = (\<lambda>_. 99), ex_td_uid = 7, ex_now_event_time = 5 \<rparr>"

definition sample_journals :: world where
  "sample_journals = (\<lambda>_. [(1, init_page 16777216 Page_zero)])"

lemma sample_session:
  "\<exists>order_id w1 ex1 action_id w2 ex2.
     live_insert_order 0 8 (\<lambda>_. []) ''simulation'' ''a1'' OrderInput_zero sample_journals sample_executor = Some (order_id, w1, ex1) \<and>
     live_cancel_order 0 9 (\<lambda>_. []) order_id w1 ex1 = Some (action_id, w2, ex2) \<and>
     executor_wf ex1 \<and> ex_td_uid ex1 = ex_td_uid sample_executor"
proof -
  define j where "j = (journal_new 7 sample_account 16777216 True)\<lparr> jn_page := 1, jn_pos := PAGE_HEADER \<rparr>"
  have f0: "umap_find (ex_writers sample_executor) sample_account = Some j"
    by (simp add: sample_executor_def umap_find_def j_def)
  have wf: "executor_wf sample_executor" "ex_td_uid sample_executor = 7"
    by (simp_all add: executor_wf_def sample_executor_def umap_find_def journal_new_def)
  let ?k = "journal_key (jn_uid j) (jn_dest j)"
  have pg: "current_page (sample_journals ?k) j = init_page 16777216 Page_zero"
    by (simp add: current_page_def sample_journals_def page_at_def j_def)
  have tg: "0 < tag_num Tag_OrderInput" "0 < tag_num Tag_OrderCancel" by (simp_all add: zero_less_iff_neq_zero)
  have fit: "fits (sample_journals ?k) j sizeof_OrderInput"
    unfolding fits_def pg init_new_page
    by (simp add: j_def journal_new_def journal_consts sizeof_OrderInput_def)
  define bytes where "bytes = (\<lambda>uid :: u64. [] :: u8 list)"
  obtain st1 where i: "send_request 0 8 (tag_num Tag_OrderInput) sizeof_OrderInput bytes sample_account sample_journals sample_executor =
      Some (current_frame_uid (ex_starts sample_executor sample_account) j, sample_journals(?k := st1),
        sample_executor\<lparr> ex_writers := umap_set sample_account
          (j\<lparr> jn_pos := jn_pos j + (FRAME_HEADER + sizeof_OrderInput), jn_frame_nb := jn_frame_nb j + 1 \<rparr>)
          (ex_writers sample_executor) \<rparr>)"
    "page_valid 16777216 (page_at st1 (jn_page j))" "address_border (page_at st1 (jn_page j)) = 16777216 - FRAME_HEADER"
    using send_request_fits [OF f0 tg(1), of 16777216 sample_journals sizeof_OrderInput 0 8 bytes] fit pg
    by (auto simp: init_new_page)
  define j1 where "j1 = j\<lparr> jn_pos := jn_pos j + (FRAME_HEADER + sizeof_OrderInput), jn_frame_nb := jn_frame_nb j + 1 \<rparr>"
  define ex1 where "ex1 = sample_executor\<lparr> ex_writers := umap_set sample_account j1 (ex_writers sample_executor) \<rparr>"
  define w1 where "w1 = sample_journals(?k := st1)"
  define oid where "oid = current_frame_uid (ex_starts sample_executor sample_account) j"
  have ins: "live_insert_order 0 8 (\<lambda>_. []) ''simulation'' ''a1'' OrderInput_zero sample_journals sample_executor = Some (oid, w1, ex1)"
    using i(1) by (simp add: live_insert_order_def sample_account_def [symmetric] bytes_def oid_def w1_def ex1_def j1_def)
  note sp = send_request_spec [OF wf(1) ins [unfolded live_insert_order_def]]
  have k1: "journal_key (jn_uid j1) (jn_dest j1) = ?k" by (simp add: j1_def)
  have f1: "umap_find (ex_writers ex1) sample_account = Some j1" by (simp add: ex1_def)
  have cp: "current_page (w1 (journal_key (jn_uid j1) (jn_dest j1))) j1 = page_at st1 (jn_page j)"
    unfolding k1 by (simp add: w1_def current_page_def j1_def)
  have fit1: "fits (w1 (journal_key (jn_uid j1) (jn_dest j1))) j1 sizeof_OrderCancel"
    unfolding fits_def cp i(3)
    by (simp add: j1_def j_def journal_new_def journal_consts sizeof_OrderInput_def sizeof_OrderCancel_def)
  have dest: "ucast (drop_bit 32 oid) XOR ex_td_uid ex1 = sample_account"
    using sp(1,3) by (simp add: sample_account_def)
  obtain st2 where "send_request 0 9 (tag_num Tag_OrderCancel) sizeof_OrderCancel bytes sample_account w1 ex1 =
      Some (current_frame_uid (ex_starts ex1 sample_account) j1, w1(?k := st2),
        ex1\<lparr> ex_writers := umap_set sample_account
          (j1\<lparr> jn_pos := jn_pos j1 + (FRAME_HEADER + sizeof_OrderCancel), jn_frame_nb := jn_frame_nb j1 + 1 \<rparr>)
          (ex_writers ex1) \<rparr>)"
    using send_request_fits [OF f1 tg(2), of 16777216 w1 sizeof_OrderCancel 0 9 bytes] i(2) fit1 cp k1 by auto
  then obtain aid w2 ex2 where "live_cancel_order 0 9 (\<lambda>_. []) oid w1 ex1 = Some (aid, w2, ex2)"
    by (simp add: live_cancel_order_def dest bytes_def)
  then show ?thesis using ins sp(2,3) by blast
qed

lemma sample_executor_wf: "executor_wf sample_executor"
  by (simp add: executor_wf_def sample_executor_def umap_find_def journal_new_def)

lemma cancel_reaches_account_witness:
  "\<exists>action_id. to_account_uid action_id (ex_td_uid sample_executor) = sample_account"
proof -
  obtain order_id w1 ex1 action_id w2 ex2 where
    "live_insert_order 0 8 (\<lambda>_. []) ''simulation'' ''a1'' OrderInput_zero sample_journals sample_executor = Some (order_id, w1, ex1)"
    "live_cancel_order 0 9 (\<lambda>_. []) order_id w1 ex1 = Some (action_id, w2, ex2)"
    "executor_wf ex1" "ex_td_uid ex1 = ex_td_uid sample_executor"
    using sample_session by blast
  from cancel_reaches_account [OF sample_executor_wf this(1,3,4,2)] show ?thesis
    by (auto simp: sample_account_def)
qed

text \<open>Order ids come round again. Two requests of one account get different ids as long as the number of
  the page and the number of the frame in it each fit 16 bits; and a page holds more than that: after
  65536 further messages on the same page the id is the same.\<close>

theorem order_id_repeats:
  assumes "jn_uid j = jn_uid i" "jn_dest j = jn_dest i"
  shows "(jn_page i < 65536 \<and> jn_page j < 65536 \<and> jn_frame_nb i < 65536 \<and> jn_frame_nb j < 65536 \<longrightarrow>
      (current_frame_uid start i = current_frame_uid start j \<longleftrightarrow> jn_page i = jn_page j \<and> jn_frame_nb i = jn_frame_nb j)) \<and>
    (writer_at st i fs \<and> length xs = 65536 \<and> jn_pos i + msgs_size xs < address_border (current_page st i) \<and>
       (\<forall>x \<in> set xs. 0 < msg_tag x) \<longrightarrow>
      (\<exists>st' i'. write_all rb now xs st i = Some (st', i') \<and> current_frame_uid start i' = current_frame_uid start i))"
proof (intro conjI impI)
  assume "jn_page i < 65536 \<and> jn_page j < 65536 \<and> jn_frame_nb i < 65536 \<and> jn_frame_nb j < 65536"
  then show "current_frame_uid start i = current_frame_uid start j \<longleftrightarrow> jn_page i = jn_page j \<and> jn_frame_nb i = jn_frame_nb j"
    using uid_eq_iff [OF assms] frame_bits_inj by simp
next
  assume a: "writer_at st i fs \<and> length xs = 65536 \<and> jn_pos i + msgs_size xs < address_border (current_page st i) \<and>
       (\<forall>x \<in> set xs. 0 < msg_tag x)"
  then obtain st' i' where w: "write_all rb now xs st i = Some (st', i')" "jn_page i' = jn_page i"
    "jn_frame_nb i' = jn_frame_nb i + 65536" "jn_uid i' = jn_uid i" "jn_dest i' = jn_dest i"
    using write_all_fits [of st i fs xs rb now] by auto
  have "current_frame_uid start i = current_frame_uid start i'"
    using uid_eq_iff [OF w(4,5)] frame_bits_repeat [OF w(2,3)] by simp
  then show "\<exists>st' i'. write_all rb now xs st i = Some (st', i') \<and> current_frame_uid start i' = current_frame_uid start i"
    using w(1) by auto
qed

lemma order_id_repeats_witness:
  "\<exists>st' i'. write_all 0 9 (replicate 65536 sample_msg) (sample_journals 0)
       ((journal_new 7 sample_account 16777216 True)\<lparr> jn_page := 1, jn_pos := PAGE_HEADER \<rparr>) = Some (st', i') \<and>
     current_frame_uid 99 i' =
       current_frame_uid 99 ((journal_new 7 sample_account 16777216 True)\<lparr> jn_page := 1, jn_pos := PAGE_HEADER \<rparr>)"
proof -
  define j where "j = (journal_new 7 sample_account 16777216 True)\<lparr> jn_page := 1, jn_pos := PAGE_HEADER \<rparr>"
  have pg: "current_page (sample_journals 0) j = init_page 16777216 Page_zero"
    by (simp add: current_page_def sample_journals_def page_at_def j_def)
  have w: "writer_at (sample_journals 0) j []"
    by (rule writer_at_new_page)
      (simp_all add: sample_journals_def page_at_def j_def journal_new_def journal_consts)
  have "msgs_size (replicate 65536 sample_msg) = 65536 * 43"
    by (simp add: msgs_size_def sum_list_replicate sample_msg_def FRAME_HEADER_def)
  moreover have "address_border (current_page (sample_journals 0) j) = 16777216 - FRAME_HEADER"
    unfolding pg by (rule init_new_page(2))
  moreover have "jn_pos j = PAGE_HEADER" by (simp add: j_def)
  moreover have "0 < msg_tag sample_msg" by (simp add: sample_msg_def tag_num_Bar)
  ultimately show ?thesis
    using order_id_repeats [of j j 99 "sample_journals 0" "[]" "replicate 65536 sample_msg" 0 9] w
    unfolding j_def [symmetric]
    by (simp add: journal_consts)
qed

end
