(* ===== verification/Engines.thy ===== *)
theory Engines
  imports BrokerSim FileData Executor
begin

text \<open>
  The three engines (src/engines/md/md_engine.cpp, src/engines/td/td_engine.cpp,
  src/engines/cp/cp_engine.cpp, live_subscriber.cpp, strategy_invoke.h): market data, trading and the
  strategies' engine, each a handler per message. A handler returns the messages it writes, with
  the journal each goes to, and the engine. The data services are file services, the trade services
  simulated brokers; the strategies, which are loaded from libraries of the user, are functions.

  A dereference of a service that is not there, an exception that is not caught and a division by
  zero are \<open>None\<close>.
\<close>

section \<open>Journals between the engines\<close>

datatype Channel = Ch_MdReq | Ch_MdResp | Ch_TdReq | Ch_TdResp | Ch_Md u32 | Ch_Td u32

type_synonym outbox = "(Channel \<times> Event) list"

section \<open>The market data engine\<close>

record MDEngine =
  md_live :: bool
  md_begin_time :: int
  md_services :: "(u32, FileDataService) umap"

definition md_on_trading_start :: "int \<Rightarrow> MDEngine \<Rightarrow> MDEngine" where
  "md_on_trading_start sync_time md = md
     \<lparr> md_begin_time := sync_time,
       md_services := List.map (\<lambda>(k, s). (k, fds_start s)) (md_services md) \<rparr>"

definition md_on_subscribe_data :: "MDSubscribe \<Rightarrow> MDEngine \<Rightarrow> MDEngine option" where
  "md_on_subscribe_data sub md =
     (case umap_find (md_services md) (sub_id sub) of
        None \<Rightarrow> None
      | Some s \<Rightarrow>
          Some (md\<lparr> md_services := umap_set (sub_id sub) (snd (fds_subscribe (sub_instrument_keys sub) s)) (md_services md) \<rparr>))"

text \<open>The loop over the services: all are asked, and what each writes goes to its own journal.\<close>

fun md_sync_loop ::
    "(string \<Rightarrow> int) \<Rightarrow> TimeUnit \<Rightarrow> int \<Rightarrow> SyncFlag \<Rightarrow> (u32, FileDataService) umap \<Rightarrow>
     (bool \<times> outbox \<times> (u32, FileDataService) umap) option" where
  "md_sync_loop parse_day unit now flag [] = Some (True, [], [])"
| "md_sync_loop parse_day unit now flag ((k, s) # services) =
     (case fds_sync parse_day unit now flag s of
        None \<Rightarrow> None
      | Some (ok, evs, s) \<Rightarrow>
          (case md_sync_loop parse_day unit now flag services of
             None \<Rightarrow> None
           | Some (oks, out, services) \<Rightarrow>
               Some (ok \<and> oks, List.map (Pair (Ch_Md k)) evs @ out, (k, s) # services)))"

definition md_on_backtest_sync_signal ::
    "(string \<Rightarrow> int) \<Rightarrow> TimeUnit \<Rightarrow> int \<Rightarrow> SyncFlag \<Rightarrow> MDEngine \<Rightarrow> (outbox \<times> MDEngine) option" where
  "md_on_backtest_sync_signal parse_day unit now flag md =
     map_option (\<lambda>(success, out, services).
        (out @ (if success then [(Ch_MdResp, Ev_Sync flag)] else []), md\<lparr> md_services := services \<rparr>))
       (md_sync_loop parse_day unit now flag (md_services md))"

fun md_react ::
    "(string \<Rightarrow> int) \<Rightarrow> TimeUnit \<Rightarrow> int \<Rightarrow> Event \<Rightarrow> MDEngine \<Rightarrow> (outbox \<times> MDEngine) option" where
  "md_react parse_day unit now Ev_Termination md = Some ([], md\<lparr> md_live := False \<rparr>)"
| "md_react parse_day unit now (Ev_TradingStart t) md = Some ([], md_on_trading_start t md)"
| "md_react parse_day unit now (Ev_MDSubscribe sub) md = map_option (Pair []) (md_on_subscribe_data sub md)"
| "md_react parse_day unit now (Ev_Sync flag) md = md_on_backtest_sync_signal parse_day unit now flag md"
| "md_react parse_day unit now _ md = Some ([], md)"

section \<open>The trading engine\<close>

record TDEngine =
  td_live :: bool
  td_begin_time :: int
  td_services :: "(u32, BrokerSim) umap"
  td_started :: bool
  td_uid :: u32

definition sim_event :: "int \<times> SimMsg \<Rightarrow> Channel \<times> Event" where
  "sim_event = (\<lambda>(now, msg). (Ch_TdResp, case msg of Msg_Trade t \<Rightarrow> Ev_Trade t | Msg_OrderActionResp r \<Rightarrow> Ev_OrderActionResp r))"

text \<open>What a broker has sent since the state \<open>old\<close>.\<close>

definition sent_since :: "BrokerSim \<Rightarrow> BrokerSim \<Rightarrow> outbox" where
  "sent_since old new = List.map sim_event (drop (length (sim_sent old)) (sim_sent new))"

definition td_on_trading_start :: "int \<Rightarrow> TDEngine \<Rightarrow> TDEngine" where
  "td_on_trading_start sync_time td =
     (if td_started td then td
      else td\<lparr> td_begin_time := sync_time,
               td_services := List.map (\<lambda>(k, s). (k, sim_start s)) (td_services td),
               td_started := True \<rparr>)"

text \<open>
  The three requests: the account is read from the id, the service must be there, and nothing is
  done and nothing answered when it is not ready.
\<close>

definition with_service ::
    "u64 \<Rightarrow> (BrokerSim \<Rightarrow> bool \<times> BrokerSim) \<Rightarrow> TDEngine \<Rightarrow> (outbox \<times> TDEngine) option" where
  "with_service request_id act td =
     (let account_uid = to_account_uid request_id (td_uid td)
      in case umap_find (td_services td) account_uid of
           None \<Rightarrow> None
         | Some s \<Rightarrow>
             if sim_state s \<noteq> BS_Ready then Some ([], td)
             else let s' = snd (act s)
                  in Some (sent_since s s', td\<lparr> td_services := umap_set account_uid s' (td_services td) \<rparr>))"

definition td_insert_order :: "OrderInput \<Rightarrow> TDEngine \<Rightarrow> (outbox \<times> TDEngine) option" where
  "td_insert_order order_input = with_service (oi_order_id order_input) (insert_order order_input)"

definition td_cancel_order :: "OrderCancel \<Rightarrow> TDEngine \<Rightarrow> (outbox \<times> TDEngine) option" where
  "td_cancel_order action = with_service (oc_order_id action) (cancel_order action)"

text \<open>The simulated broker prints the account information asked for and changes nothing.\<close>

definition sim_req_account_info :: "AccountReq \<Rightarrow> BrokerSim \<Rightarrow> bool \<times> BrokerSim" where
  "sim_req_account_info req s = (True, s)"

definition td_on_account_req :: "AccountReq \<Rightarrow> TDEngine \<Rightarrow> (outbox \<times> TDEngine) option" where
  "td_on_account_req req = with_service (rq_id req) (sim_req_account_info req)"

fun td_sync_loop ::
    "DepthMem \<Rightarrow> (u32, BrokerSim) umap \<Rightarrow> (bool \<times> outbox \<times> (u32, BrokerSim) umap) option" where
  "td_sync_loop mem [] = Some (True, [], [])"
| "td_sync_loop mem ((k, s) # services) =
     (case handle_backtest_sync_signal mem s of
        None \<Rightarrow> None
      | Some (ok, s') \<Rightarrow>
          (case td_sync_loop mem services of
             None \<Rightarrow> None
           | Some (oks, out, services) \<Rightarrow> Some (ok \<and> oks, sent_since s s' @ out, (k, s') # services)))"

definition td_on_backtest_sync_signal :: "DepthMem \<Rightarrow> SyncFlag \<Rightarrow> TDEngine \<Rightarrow> (outbox \<times> TDEngine) option" where
  "td_on_backtest_sync_signal mem flag td =
     map_option (\<lambda>(success, out, services).
        (out @ (if success then [(Ch_TdResp, Ev_Sync flag)] else []), td\<lparr> td_services := services \<rparr>))
       (td_sync_loop mem (td_services td))"

fun td_react :: "DepthMem \<Rightarrow> Event \<Rightarrow> TDEngine \<Rightarrow> (outbox \<times> TDEngine) option" where
  "td_react mem Ev_Termination td = Some ([], td\<lparr> td_live := False \<rparr>)"
| "td_react mem (Ev_TradingStart t) td = Some ([], td_on_trading_start t td)"
| "td_react mem (Ev_OrderInput oi) td = td_insert_order oi td"
| "td_react mem (Ev_OrderCancel oc) td = td_cancel_order oc td"
| "td_react mem (Ev_AccountReq rq) td = td_on_account_req rq td"
| "td_react mem (Ev_Sync flag) td = td_on_backtest_sync_signal mem flag td"
| "td_react mem _ td = Some ([], td)"

section \<open>The strategies' engine\<close>

text \<open>
  What a strategy can be called back with, and what it can ask of the executor, which puts the id
  on the request. A strategy reads the book.
\<close>

datatype Callback =
    Cb_pre_start
  | Cb_trading_day int
  | Cb_event Event u32
  | Cb_asset_reset Asset Asset u32
  | Cb_asset_margin_reset AssetMargin AssetMargin u32

datatype Request = Req_insert u32 OrderInput | Req_cancel u32 OrderCancel | Req_account u32 AccountReq

fun request_event :: "Request \<Rightarrow> Channel \<times> Event" where
  "request_event (Req_insert d oi) = (Ch_Td d, Ev_OrderInput oi)"
| "request_event (Req_cancel d oc) = (Ch_Td d, Ev_OrderCancel oc)"
| "request_event (Req_account d rq) = (Ch_Td d, Ev_AccountReq rq)"

type_synonym 's strategy = "Callback \<Rightarrow> Book \<Rightarrow> 's \<Rightarrow> 's \<times> Request list"

datatype StatRecord = Stat_asset int double | Stat_kline Bar | Stat_trade Trade

record 's CPEngine =
  cp_live :: bool
  cp_begin_time :: int
  cp_pre_start :: bool
  cp_trading_msg_count :: u32
  cp_md_account_count :: u32
  cp_book :: Book
  cp_td_dests :: "u32 list"
  cp_is_backtest :: bool
  cp_is_simulation :: bool
  cp_stats_all :: bool
  cp_stats :: "StatRecord list"
  cp_board :: DepthCallBoard
  cp_strategy_state :: 's

text \<open>\<open>Invoker::invoke\<close>: every strategy in turn, each on what the one before left.\<close>

primrec invoke :: "'s strategy list \<Rightarrow> Callback \<Rightarrow> 's CPEngine \<Rightarrow> outbox \<times> 's CPEngine" where
  "invoke [] cb cp = ([], cp)"
| "invoke (f # fs) cb cp =
     (let (s, reqs) = f cb (cp_book cp) (cp_strategy_state cp);
          (out, cp) = invoke fs cb (cp\<lparr> cp_strategy_state := s \<rparr>)
      in (List.map request_event reqs @ out, cp))"

text \<open>A message to every writer, the market data requests first.\<close>

definition to_all_writers :: "Event \<Rightarrow> 's CPEngine \<Rightarrow> outbox" where
  "to_all_writers ev cp = (Ch_MdReq, ev) # (Ch_TdReq, ev) # List.map (\<lambda>d. (Ch_Td d, ev)) (cp_td_dests cp)"

definition cp_do_pre_start :: "'s strategy list \<Rightarrow> 's CPEngine \<Rightarrow> outbox \<times> 's CPEngine" where
  "cp_do_pre_start strats cp =
     (let (out, cp') = invoke strats Cb_pre_start cp
      in (to_all_writers (Ev_TradingStart (cp_begin_time cp)) cp @ out @
            (if cp_is_backtest cp then [(Ch_MdReq, Ev_Sync Sync_MarketData)] else []), cp'))"

definition cp_on_active :: "'s strategy list \<Rightarrow> 's CPEngine \<Rightarrow> outbox \<times> 's CPEngine" where
  "cp_on_active strats cp =
     (if \<not> cp_pre_start cp
      then let (out, cp) = cp_do_pre_start strats cp in (out, cp\<lparr> cp_pre_start := True \<rparr>)
      else ([], cp))"

definition cp_on_termination :: "'s CPEngine \<Rightarrow> outbox \<times> 's CPEngine" where
  "cp_on_termination cp = (to_all_writers Ev_Termination cp, cp\<lparr> cp_live := False \<rparr>)"

definition cp_on_trading_day :: "'s strategy list \<Rightarrow> int \<Rightarrow> 's CPEngine \<Rightarrow> (outbox \<times> 's CPEngine) option" where
  "cp_on_trading_day strats timestamp cp =
     (let count = cp_trading_msg_count cp;
          cp = cp\<lparr> cp_trading_msg_count := count + 1 \<rparr>
      in if count \<noteq> 0
         then (if cp_md_account_count cp = 0 then None
               else Some ([], cp\<lparr> cp_trading_msg_count := (count + 1) mod cp_md_account_count cp \<rparr>))
         else Some (invoke strats (Cb_trading_day timestamp) cp))"

definition cp_log :: "StatRecord list \<Rightarrow> 's CPEngine \<Rightarrow> 's CPEngine" where
  "cp_log recs cp = (if cp_stats_all cp then cp\<lparr> cp_stats := cp_stats cp @ recs \<rparr> else cp)"

definition cp_on_bar :: "'s strategy list \<Rightarrow> Bar \<Rightarrow> u32 \<Rightarrow> 's CPEngine \<Rightarrow> outbox \<times> 's CPEngine" where
  "cp_on_bar strats bar source cp =
     (let (out, cp) = invoke strats (Cb_event (Ev_Bar bar) source) (cp\<lparr> cp_book := book_update_bar bar (cp_book cp) \<rparr>)
      in (out, cp_log [Stat_asset (bar_end_time bar) (asset_price (cp_book cp)), Stat_kline bar] cp))"

definition depth_of_quote :: "Quote \<Rightarrow> InstrumentDepth" where
  "depth_of_quote data =
     (let input = InstrumentDepth_zero 20
      in input\<lparr> dp_real_depth_size := 20,
                dp_instrument_id := arr_assign (dp_instrument_id input) (qt_instrument_id data),
                dp_exchange_id := arr_assign (dp_exchange_id input) (qt_exchange_id data),
                dp_ask_price := qt_ask_price data, dp_bid_price := qt_bid_price data,
                dp_ask_volume := qt_ask_volume data, dp_bid_volume := qt_bid_volume data \<rparr>)"

definition cp_on_quote ::
    "'s strategy list \<Rightarrow> Quote \<Rightarrow> u32 \<Rightarrow> DepthMem \<Rightarrow> 's CPEngine \<Rightarrow> (outbox \<times> DepthMem \<times> 's CPEngine) option" where
  "cp_on_quote strats data source mem cp =
     (let input = depth_of_quote data
      in case (if cp_is_simulation cp
               then map_option (\<lambda>(mem, board). (mem, cp\<lparr> cp_board := board \<rparr>))
                      (board_set (dp_instrument_id input) input mem (cp_board cp))
               else Some (mem, cp)) of
           None \<Rightarrow> None
         | Some (mem, cp) \<Rightarrow>
             let (out, cp) = invoke strats (Cb_event (Ev_Quote data) source) cp in Some (out, mem, cp))"

definition cp_on_trade :: "'s strategy list \<Rightarrow> Trade \<Rightarrow> u32 \<Rightarrow> 's CPEngine \<Rightarrow> outbox \<times> 's CPEngine" where
  "cp_on_trade strats trade source cp =
     invoke strats (Cb_event (Ev_Trade trade) source)
       (cp_log [Stat_trade trade] (cp\<lparr> cp_book := book_update_trade trade (cp_book cp) \<rparr>))"

text \<open>The strategies see the old and the new value; then the book takes the new one.\<close>

definition cp_on_asset_sync_reset :: "'s strategy list \<Rightarrow> Asset \<Rightarrow> u32 \<Rightarrow> 's CPEngine \<Rightarrow> outbox \<times> 's CPEngine" where
  "cp_on_asset_sync_reset strats asset source cp =
     (let (out, cp) = invoke strats (Cb_asset_reset (bk_asset (cp_book cp)) asset source) cp
      in (out, cp\<lparr> cp_book := (cp_book cp)\<lparr> bk_asset := Asset_assign (bk_asset (cp_book cp)) asset \<rparr> \<rparr>))"

definition cp_on_asset_margin_sync_reset ::
    "'s strategy list \<Rightarrow> AssetMargin \<Rightarrow> u32 \<Rightarrow> 's CPEngine \<Rightarrow> outbox \<times> 's CPEngine" where
  "cp_on_asset_margin_sync_reset strats am source cp =
     (let (out, cp) = invoke strats (Cb_asset_margin_reset (bk_asset_margin (cp_book cp)) am source) cp
      in (out, cp\<lparr> cp_book := (cp_book cp)\<lparr> bk_asset_margin := AssetMargin_assign (bk_asset_margin (cp_book cp)) am \<rparr> \<rparr>))"

definition cp_on_backtest_sync_signal :: "SyncFlag \<Rightarrow> outbox" where
  "cp_on_backtest_sync_signal flag =
     (case flag of
        Sync_MarketData \<Rightarrow> [(Ch_TdReq, Ev_Sync Sync_MatchOrder)]
      | Sync_MatchOrder \<Rightarrow> [(Ch_MdReq, Ev_Sync Sync_MarketData)])"

text \<open>The tags that are handed to the strategies as they are.\<close>

definition passed_on :: "MsgTag \<Rightarrow> bool" where
  "passed_on t \<longleftrightarrow> t = Tag_Entrust \<or> t = Tag_Transaction \<or> t = Tag_Deregister \<or> t = Tag_BrokerStateUpdate"

definition keeping :: "DepthMem \<Rightarrow> outbox \<times> 's CPEngine \<Rightarrow> (outbox \<times> DepthMem \<times> 's CPEngine) option" where
  "keeping mem r = Some (fst r, mem, snd r)"

fun cp_react ::
    "'s strategy list \<Rightarrow> Event \<Rightarrow> u32 \<Rightarrow> DepthMem \<Rightarrow> 's CPEngine \<Rightarrow> (outbox \<times> DepthMem \<times> 's CPEngine) option" where
  "cp_react strats Ev_Termination source mem cp = keeping mem (cp_on_termination cp)"
| "cp_react strats (Ev_TradingDay t) source mem cp = Option.bind (cp_on_trading_day strats t cp) (keeping mem)"
| "cp_react strats (Ev_Bar bar) source mem cp = keeping mem (cp_on_bar strats bar source cp)"
| "cp_react strats (Ev_Quote q) source mem cp = cp_on_quote strats q source mem cp"
| "cp_react strats (Ev_OrderActionResp r) source mem cp = keeping mem (invoke strats (Cb_event (Ev_OrderActionResp r) source) cp)"
| "cp_react strats (Ev_Trade t) source mem cp = keeping mem (cp_on_trade strats t source cp)"
| "cp_react strats (Ev_Asset a) source mem cp = keeping mem (cp_on_asset_sync_reset strats a source cp)"
| "cp_react strats (Ev_AssetMargin a) source mem cp = keeping mem (cp_on_asset_margin_sync_reset strats a source cp)"
| "cp_react strats (Ev_Sync flag) source mem cp = keeping mem (cp_on_backtest_sync_signal flag, cp)"
| "cp_react strats (Ev_Passed t) source mem cp =
     keeping mem (if passed_on t then invoke strats (Cb_event (Ev_Passed t) source) cp else ([], cp))"
| "cp_react strats (Ev_Custom n) source mem cp = keeping mem (invoke strats (Cb_event (Ev_Custom n) source) cp)"
| "cp_react strats _ source mem cp = keeping mem ([], cp)"

end
