(* ===== verification/Lockstep.thy ===== *)
theory Lockstep
  imports Engines
begin

text \<open>
  The three engines together in a backtest: processes that run at their own pace, each taking the
  next message of one of the journals it reads. Which journal comes next is left open (the reader
  goes by times), and so is the time of every step, so that every interleaving of the processes is a
  run of the step relation. A step whose handler has no result stops that process.

  A channel is a list that can be read to its end. A page of a journal cannot: its reader does not get past
  \<open>PageEnd\<close>. The relation has every run the pages allow and more, so what holds of all its states holds on
  pages; what needs a step to be possible is stated over \<open>paged_step\<close> of the theory \<open>Backtest\<close>, which keeps
  the page ends.

  The protocol (md_engine.cpp, td_engine.cpp and live_subscriber.cpp,
  \<open>on_backtest_sync_signal\<close>; its start is in \<open>pre_start\<close>) passes one signal round: market data is
  asked for one bar, the strategies' engine passes on to the trading engine, which matches the
  orders, and back.
\<close>

section \<open>The system\<close>

record 's System =
  sy_md :: MDEngine
  sy_td :: TDEngine
  sy_cp :: "'s CPEngine"
  sy_mem :: DepthMem
  sy_chan :: "Channel \<Rightarrow> Event list"
  sy_served :: nat
  sy_matched :: nat

definition deliver :: "outbox \<Rightarrow> (Channel \<Rightarrow> Event list) \<Rightarrow> Channel \<Rightarrow> Event list" where
  "deliver out ch = (\<lambda>c. ch c @ List.map snd (filter (\<lambda>x. fst x = c) out))"

definition answered :: "Channel \<Rightarrow> outbox \<Rightarrow> bool" where
  "answered c out \<longleftrightarrow> (\<exists>f. (c, Ev_Sync f) \<in> set out)"

inductive step :: "(string \<Rightarrow> int) \<Rightarrow> TimeUnit \<Rightarrow> 's strategy list \<Rightarrow> 's System \<Rightarrow> 's System \<Rightarrow> bool"
  for parse_day :: "string \<Rightarrow> int" and unit :: TimeUnit and strats :: "'s strategy list" where
  active:
    "\<lbrakk> cp_live (sy_cp s); cp_on_active strats (sy_cp s) = (out, cp) \<rbrakk>
     \<Longrightarrow> step parse_day unit strats s (s\<lparr> sy_cp := cp, sy_chan := deliver out (sy_chan s) \<rparr>)"
| md:
    "\<lbrakk> md_live (sy_md s); sy_chan s Ch_MdReq = ev # rest;
       md_react parse_day unit now ev (sy_md s) = Some (out, md) \<rbrakk>
     \<Longrightarrow> step parse_day unit strats s (s\<lparr> sy_md := md, sy_chan := deliver out ((sy_chan s)(Ch_MdReq := rest)),
                          sy_served := sy_served s + (if answered Ch_MdResp out then 1 else 0) \<rparr>)"
| td:
    "\<lbrakk> td_live (sy_td s); c = Ch_TdReq \<or> c \<in> range Ch_Td; sy_chan s c = ev # rest;
       td_react (sy_mem s) ev (sy_td s) = Some (out, td) \<rbrakk>
     \<Longrightarrow> step parse_day unit strats s (s\<lparr> sy_td := td, sy_chan := deliver out ((sy_chan s)(c := rest)),
                          sy_matched := sy_matched s + (if answered Ch_TdResp out then 1 else 0) \<rparr>)"
| cp:
    "\<lbrakk> cp_live (sy_cp s); c = Ch_MdResp \<or> c = Ch_TdResp \<or> c \<in> range Ch_Md; sy_chan s c = ev # rest;
       cp_react strats ev source (sy_mem s) (sy_cp s) = Some (out, mem, cp) \<rbrakk>
     \<Longrightarrow> step parse_day unit strats s (s\<lparr> sy_cp := cp, sy_mem := mem, sy_chan := deliver out ((sy_chan s)(c := rest)) \<rparr>)"

inductive_cases step_cases: "step parse_day unit strats s s'"

inductive reachable :: "(string \<Rightarrow> int) \<Rightarrow> TimeUnit \<Rightarrow> 's strategy list \<Rightarrow> 's System \<Rightarrow> bool"
  for parse_day :: "string \<Rightarrow> int" and unit :: TimeUnit and strats :: "'s strategy list" where
  start: "\<lbrakk> \<not> cp_pre_start (sy_cp s); \<forall>c. sy_chan s c = []; sy_served s = 0; sy_matched s = 0 \<rbrakk> \<Longrightarrow> reachable parse_day unit strats s"
| then_step: "\<lbrakk> reachable parse_day unit strats s; step parse_day unit strats s s' \<rbrakk> \<Longrightarrow> reachable parse_day unit strats s'"

section \<open>Signals in what the engines write\<close>

text \<open>The signals on their way to a channel, in a list of events and in an outbox.\<close>

fun sync_flag :: "Event \<Rightarrow> SyncFlag option" where
  "sync_flag (Ev_Sync f) = Some f"
| "sync_flag _ = None"

definition syncs :: "Event list \<Rightarrow> SyncFlag list" where
  "syncs evs = List.map_filter sync_flag evs"

definition syncs_to :: "Channel \<Rightarrow> outbox \<Rightarrow> SyncFlag list" where
  "syncs_to c out = syncs (List.map snd (filter (\<lambda>x. fst x = c) out))"

lemma syncs_simps [simp]:
  "syncs [] = []" "syncs (ev # evs) = (case sync_flag ev of None \<Rightarrow> syncs evs | Some f \<Rightarrow> f # syncs evs)"
  "syncs (xs @ ys) = syncs xs @ syncs ys"
  by (simp_all add: syncs_def List.map_filter_def split: option.splits)

lemma syncs_to_simps [simp]:
  "syncs_to c [] = []"
  "syncs_to c ((d, ev) # out) = (if d = c then (case sync_flag ev of None \<Rightarrow> [] | Some f \<Rightarrow> [f]) else []) @ syncs_to c out"
  "syncs_to c (xs @ ys) = syncs_to c xs @ syncs_to c ys"
  by (simp_all add: syncs_to_def split: option.splits)

lemma syncs_deliver: "syncs (deliver out ch c) = syncs (ch c) @ syncs_to c out"
  by (simp add: deliver_def syncs_to_def)

lemma answered_syncs: "answered c out \<longleftrightarrow> syncs_to c out \<noteq> []"
proof (induction out)
  case (Cons x out)
  obtain d ev where x: "x = (d, ev)" by (cases x)
  show ?case using Cons.IH by (cases ev) (auto simp: x answered_def)
qed (simp add: answered_def)

text \<open>A quiet outbox has no signal for anyone.\<close>

definition quiet :: "outbox \<Rightarrow> bool" where
  "quiet out \<longleftrightarrow> (\<forall>(c, ev) \<in> set out. sync_flag ev = None)"

lemma quiet_simps [simp]:
  "quiet []" "quiet ((c, ev) # out) \<longleftrightarrow> sync_flag ev = None \<and> quiet out"
  "quiet (xs @ ys) \<longleftrightarrow> quiet xs \<and> quiet ys"
  by (auto simp: quiet_def)

lemma quiet_syncs [simp]: "quiet out \<Longrightarrow> syncs_to c out = []"
proof (induction out)
  case (Cons x out)
  then show ?case by (cases x) simp
qed simp

lemma quiet_alt: "quiet out \<longleftrightarrow> (\<forall>x \<in> set out. sync_flag (snd x) = None)"
  by (auto simp: quiet_def)

lemma quiet_fds: "fds_sync parse_day unit now flag s = Some (ok, evs, s') \<Longrightarrow> quiet (List.map (Pair c) evs)"
  by (auto simp: fds_sync_def Let_def split: option.splits outcome.splits if_splits prod.splits)

lemma quiet_md_loop:
  "md_sync_loop parse_day unit now flag services = Some (ok, out, services') \<Longrightarrow> quiet out"
proof (induction services arbitrary: ok out services')
  case (Cons x services)
  obtain k s where x: "x = (k, s)" by (cases x)
  from Cons.prems obtain ok1 evs s1 oks out1 sv1 where
    1: "fds_sync parse_day unit now flag s = Some (ok1, evs, s1)"
    "md_sync_loop parse_day unit now flag services = Some (oks, out1, sv1)" "out = List.map (Pair (Ch_Md k)) evs @ out1"
    by (auto simp: x split: option.splits prod.splits)
  show ?case using Cons.IH [OF 1(2)] quiet_fds [OF 1(1)] by (simp add: 1(3))
qed simp

lemma quiet_sent: "quiet (sent_since s s')"
proof -
  have "sync_flag (snd (sim_event x)) = None" for x
    by (cases x) (simp add: sim_event_def split: SimMsg.splits)
  then show ?thesis by (simp add: quiet_alt sent_since_def)
qed

lemma quiet_td_loop: "td_sync_loop mem services = Some (ok, out, services') \<Longrightarrow> quiet out"
proof (induction services arbitrary: ok out services')
  case (Cons x services)
  obtain k s where x: "x = (k, s)" by (cases x)
  from Cons.prems obtain ok1 s1 oks out1 sv1 where
    1: "handle_backtest_sync_signal mem s = Some (ok1, s1)"
    "td_sync_loop mem services = Some (oks, out1, sv1)" "out = sent_since s s1 @ out1"
    by (auto simp: x split: option.splits prod.splits)
  show ?case using Cons.IH [OF 1(2)] quiet_sent by (simp add: 1(3))
qed simp

lemma quiet_with_service: "with_service rid act td = Some (out, td') \<Longrightarrow> quiet out"
  by (auto simp: with_service_def Let_def quiet_sent split: option.splits if_splits)

lemma quiet_invoke: "invoke strats cb cp = (out, cp') \<Longrightarrow> quiet out"
proof (induction strats arbitrary: cp out cp')
  case (Cons f fs)
  have r: "quiet (List.map request_event reqs)" for reqs
  proof -
    have "sync_flag (snd (request_event q)) = None" for q by (cases q) simp_all
    then show ?thesis by (simp add: quiet_alt)
  qed
  from Cons show ?case by (auto simp: Let_def r split: prod.splits)
qed simp

lemma quiet_invoke_fst [simp]: "quiet (fst (invoke strats cb cp))"
  by (cases "invoke strats cb cp") (simp add: quiet_invoke)

lemma quiet_all_writers: "sync_flag ev = None \<Longrightarrow> quiet (to_all_writers ev cp)"
  by (auto simp: to_all_writers_def quiet_def)

text \<open>What each handler writes in answer to a signal, and that nothing else makes one.\<close>

lemma md_react_syncs:
  assumes "md_react parse_day unit now ev md = Some (out, md')"
  shows "(\<exists>q. quiet q \<and> out = q @ (case sync_flag ev of Some f \<Rightarrow> [(Ch_MdResp, Ev_Sync f)] | None \<Rightarrow> [])) \<or> quiet out"
  using assms
  by (cases ev) (auto simp: md_on_backtest_sync_signal_def dest: quiet_md_loop split: if_splits)

lemma td_loop_succeeds: "td_sync_loop mem services = Some (ok, out, services') \<Longrightarrow> ok"
  by (induction services arbitrary: ok out services')
    (auto simp: handle_backtest_sync_signal_def split: option.splits prod.splits)

lemma td_react_syncs:
  assumes "td_react mem ev td = Some (out, td')"
  shows "\<exists>q. quiet q \<and> out = q @ (case sync_flag ev of Some f \<Rightarrow> [(Ch_TdResp, Ev_Sync f)] | None \<Rightarrow> [])"
  using assms
  by (cases ev)
    (auto simp: td_on_backtest_sync_signal_def td_insert_order_def td_cancel_order_def td_on_account_req_def
      dest: quiet_td_loop quiet_with_service td_loop_succeeds split: if_splits)

lemma cp_react_syncs:
  assumes "cp_react strats ev source mem cp = Some (out, mem', cp')"
  shows "if sync_flag ev = None then quiet out else out = cp_on_backtest_sync_signal (the (sync_flag ev))"
  using assms
  by (cases ev)
    (auto simp: keeping_def cp_on_termination_def quiet_all_writers cp_on_trading_day_def Let_def cp_on_bar_def
      cp_on_quote_def cp_on_trade_def cp_on_asset_sync_reset_def cp_on_asset_margin_sync_reset_def
      split: if_splits prod.splits option.splits bind_splits dest: quiet_invoke)

section \<open>One signal\<close>

definition flags_ok :: "(Channel \<Rightarrow> Event list) \<Rightarrow> bool" where
  "flags_ok ch \<longleftrightarrow>
     (\<forall>d. syncs (ch (Ch_Md d)) = [] \<and> syncs (ch (Ch_Td d)) = []) \<and>
     set (syncs (ch Ch_MdReq)) \<subseteq> {Sync_MarketData} \<and> set (syncs (ch Ch_MdResp)) \<subseteq> {Sync_MarketData} \<and>
     set (syncs (ch Ch_TdReq)) \<subseteq> {Sync_MatchOrder} \<and> set (syncs (ch Ch_TdResp)) \<subseteq> {Sync_MatchOrder}"

definition in_flight :: "Channel \<Rightarrow> (Channel \<Rightarrow> Event list) \<Rightarrow> nat" where
  "in_flight c ch = length (syncs (ch c))"

definition signals :: "(Channel \<Rightarrow> Event list) \<Rightarrow> nat" where
  "signals ch = in_flight Ch_MdReq ch + in_flight Ch_MdResp ch + in_flight Ch_TdReq ch + in_flight Ch_TdResp ch"

definition lock_inv :: "'s System \<Rightarrow> bool" where
  "lock_inv s \<longleftrightarrow>
     flags_ok (sy_chan s) \<and> signals (sy_chan s) \<le> 1 \<and>
     (\<not> cp_pre_start (sy_cp s) \<longrightarrow> signals (sy_chan s) = 0) \<and>
     sy_served s = sy_matched s + in_flight Ch_MdResp (sy_chan s) + in_flight Ch_TdReq (sy_chan s)"

text \<open>Strategies change nothing of the engine but their own state.\<close>

lemma invoke_Cons:
  "snd (invoke (f # fs) cb cp) =
     snd (invoke fs cb (cp\<lparr> cp_strategy_state := fst (f cb (cp_book cp) (cp_strategy_state cp)) \<rparr>))"
  by (simp add: Let_def split_beta)

lemma invoke_state: "\<exists>st. snd (invoke strats cb cp) = cp\<lparr> cp_strategy_state := st \<rparr>"
proof (induction strats arbitrary: cp)
  case Nil
  show ?case by (rule exI [of _ "cp_strategy_state cp"]) simp
next
  case (Cons f fs)
  show ?case
    using Cons.IH [of "cp\<lparr> cp_strategy_state := fst (f cb (cp_book cp) (cp_strategy_state cp)) \<rparr>"]
    unfolding invoke_Cons by auto
qed

lemma invoke_fields [simp]:
  "cp_pre_start (snd (invoke strats cb cp)) = cp_pre_start cp"
  "cp_is_backtest (snd (invoke strats cb cp)) = cp_is_backtest cp"
  "cp_trading_msg_count (snd (invoke strats cb cp)) = cp_trading_msg_count cp"
  "cp_md_account_count (snd (invoke strats cb cp)) = cp_md_account_count cp"
  "cp_book (snd (invoke strats cb cp)) = cp_book cp"
  using invoke_state [of strats cb cp] by auto

lemma cp_react_pre_start:
  "cp_react strats ev source mem cp = Some (out, mem', cp') \<Longrightarrow> cp_pre_start cp' = cp_pre_start cp"
  by (cases ev)
    (auto simp: keeping_def cp_on_termination_def cp_on_trading_day_def Let_def cp_on_bar_def cp_log_def
      cp_on_quote_def cp_on_trade_def cp_on_asset_sync_reset_def cp_on_asset_margin_sync_reset_def split_beta
      split: if_splits option.splits bind_splits)

lemma on_active_cases:
  assumes "cp_on_active strats cp = (out, cp')"
  shows "cp_pre_start cp' \<and>
    (quiet out \<or> \<not> cp_pre_start cp \<and> (\<exists>q. quiet q \<and> out = q @ [(Ch_MdReq, Ev_Sync Sync_MarketData)]))"
proof (cases "cp_pre_start cp")
  case False
  let ?q = "to_all_writers (Ev_TradingStart (cp_begin_time cp)) cp @ fst (invoke strats Cb_pre_start cp)"
  have q: "quiet ?q" by (simp add: quiet_all_writers)
  have "out = ?q @ (if cp_is_backtest cp then [(Ch_MdReq, Ev_Sync Sync_MarketData)] else [])" "cp_pre_start cp'"
    using assms False by (auto simp: cp_on_active_def cp_do_pre_start_def Let_def split_beta)
  then show ?thesis using q False by (cases "cp_is_backtest cp") auto
qed (use assms in \<open>simp add: cp_on_active_def\<close>)

section \<open>The invariant\<close>

text \<open>Taking the head of a channel and adding an outbox.\<close>

lemma syncs_after:
  "syncs (deliver out (ch(c := rest)) d) = (if d = c then syncs rest else syncs (ch d)) @ syncs_to d out"
  by (simp add: syncs_deliver)

lemma lock_inv_start:
  "\<lbrakk> \<not> cp_pre_start (sy_cp s); \<forall>c. sy_chan s c = []; sy_served s = 0; sy_matched s = 0 \<rbrakk> \<Longrightarrow> lock_inv s"
  by (simp add: lock_inv_def flags_ok_def signals_def in_flight_def)

lemma lock_inv_active:
  assumes "lock_inv s" "cp_on_active strats (sy_cp s) = (out, cp)"
  shows "lock_inv (s\<lparr> sy_cp := cp, sy_chan := deliver out (sy_chan s) \<rparr>)"
  using on_active_cases [OF assms(2)] assms(1)
  by (auto simp: lock_inv_def flags_ok_def signals_def in_flight_def syncs_deliver)

lemma lock_inv_md:
  assumes "lock_inv s" "sy_chan s Ch_MdReq = ev # rest"
    "md_react parse_day unit now ev (sy_md s) = Some (out, md)"
  shows "lock_inv (s\<lparr> sy_md := md, sy_chan := deliver out ((sy_chan s)(Ch_MdReq := rest)),
     sy_served := sy_served s + (if answered Ch_MdResp out then 1 else 0) \<rparr>)"
  using md_react_syncs [OF assms(3)] assms(1,2)
  by (cases "sync_flag ev")
    (auto simp: lock_inv_def flags_ok_def signals_def in_flight_def syncs_after answered_syncs)

text \<open>A step that neither takes nor makes a signal keeps the invariant.\<close>

lemma syncs_quiet_step:
  assumes "ch c = ev # rest" "sync_flag ev = None" "quiet out"
  shows "syncs (deliver out (ch(c := rest)) d) = syncs (ch d)"
  using assms by (simp add: syncs_after)

lemma no_sync_elsewhere:
  assumes "flags_ok ch" "c \<in> range Ch_Td \<or> c \<in> range Ch_Md" "ch c = ev # rest"
  shows "sync_flag ev = None"
proof -
  have "syncs (ch c) = []" using assms(1,2) by (auto simp: flags_ok_def)
  then show ?thesis using assms(3) by (cases "sync_flag ev") auto
qed

lemma lock_inv_same:
  assumes "lock_inv s" "\<forall>d. syncs (sy_chan s' d) = syncs (sy_chan s d)"
    "cp_pre_start (sy_cp s') = cp_pre_start (sy_cp s)" "sy_served s' = sy_served s" "sy_matched s' = sy_matched s"
  shows "lock_inv s'"
  using assms by (simp add: lock_inv_def flags_ok_def signals_def in_flight_def)

lemma lock_inv_td:
  assumes "lock_inv s" "c = Ch_TdReq \<or> c \<in> range Ch_Td" "sy_chan s c = ev # rest"
    "td_react (sy_mem s) ev (sy_td s) = Some (out, td)"
  shows "lock_inv (s\<lparr> sy_td := td, sy_chan := deliver out ((sy_chan s)(c := rest)),
     sy_matched := sy_matched s + (if answered Ch_TdResp out then 1 else 0) \<rparr>)"
proof (cases "sync_flag ev")
  case None
  then have "quiet out" using td_react_syncs [OF assms(4)] by simp
  then show ?thesis
    using syncs_quiet_step [of "sy_chan s" c, OF assms(3) None] by (intro lock_inv_same [OF assms(1)]) (simp_all add: answered_syncs)
next
  case (Some f)
  have "flags_ok (sy_chan s)" using assms(1) by (simp add: lock_inv_def)
  then have c: "c = Ch_TdReq" using no_sync_elsewhere [of "sy_chan s" c ev rest] assms(2,3) Some by auto
  obtain q where "quiet q" "out = q @ [(Ch_TdResp, Ev_Sync f)]" using td_react_syncs [OF assms(4)] Some by auto
  then show ?thesis
    using assms(1,3) Some unfolding c
    by (auto simp: lock_inv_def flags_ok_def signals_def in_flight_def syncs_after answered_syncs)
qed

lemma lock_inv_cp:
  assumes "lock_inv s" "c = Ch_MdResp \<or> c = Ch_TdResp \<or> c \<in> range Ch_Md" "sy_chan s c = ev # rest"
    "cp_react strats ev source (sy_mem s) (sy_cp s) = Some (out, mem, cp)"
  shows "lock_inv (s\<lparr> sy_cp := cp, sy_mem := mem, sy_chan := deliver out ((sy_chan s)(c := rest)) \<rparr>)"
proof (cases "sync_flag ev")
  case None
  then have "quiet out" using cp_react_syncs [OF assms(4)] by simp
  then show ?thesis
    using syncs_quiet_step [of "sy_chan s" c, OF assms(3) None] cp_react_pre_start [OF assms(4)]
    by (intro lock_inv_same [OF assms(1)]) simp_all
next
  case (Some f)
  have fl: "flags_ok (sy_chan s)" using assms(1) by (simp add: lock_inv_def)
  have out: "out = cp_on_backtest_sync_signal f" using cp_react_syncs [OF assms(4)] Some by simp
  have c: "c = Ch_MdResp \<and> f = Sync_MarketData \<or> c = Ch_TdResp \<and> f = Sync_MatchOrder"
    using no_sync_elsewhere [OF fl, of c ev rest] assms(2,3) Some fl by (auto simp: flags_ok_def)
  then show ?thesis
    using assms(1,3) Some cp_react_pre_start [OF assms(4)]
    by (elim disjE conjE)
      (auto simp: out cp_on_backtest_sync_signal_def lock_inv_def flags_ok_def signals_def in_flight_def syncs_after)
qed

lemma lock_inv_step: "\<lbrakk> step parse_day unit strats s s'; lock_inv s \<rbrakk> \<Longrightarrow> lock_inv s'"
proof (induction rule: step.induct)
  case (active s out cp)
  then show ?case using lock_inv_active by blast
next
  case (md s ev rest now out md)
  then show ?case using lock_inv_md by blast
next
  case (td s c ev rest out td)
  then show ?case using lock_inv_td by blast
next
  case (cp s c ev rest source out mem cp)
  then show ?case using lock_inv_cp by blast
qed

lemma reachable_lock_inv: "reachable parse_day unit strats s \<Longrightarrow> lock_inv s"
  by (induction rule: reachable.induct) (auto intro: lock_inv_start lock_inv_step)

section \<open>Properties\<close>

text \<open>C1: the engines of a backtest run in lock step. In every reachable state of the three processes, however
  their steps interleave, at most one sync signal is under way; a bar is asked for only when every
  bar served before has had its matching pass; and the passes never lag by more than the bar in
  hand.\<close>

theorem backtest_lockstep:
  assumes "reachable parse_day unit strats s"
  shows "signals (sy_chan s) \<le> 1 \<and> sy_matched s \<le> sy_served s \<and> sy_served s \<le> sy_matched s + 1 \<and>
    (in_flight Ch_MdReq (sy_chan s) = 1 \<longrightarrow> sy_served s = sy_matched s) \<and>
    (in_flight Ch_TdReq (sy_chan s) = 1 \<longrightarrow> sy_served s = sy_matched s + 1)"
  using reachable_lock_inv [OF assms] by (auto simp: lock_inv_def signals_def)

definition idle_board :: DepthCallBoard where
  "idle_board = \<lparr> db_is_writing = False, db_positions = [] \<rparr>"

definition sample_cp :: "bool \<Rightarrow> unit CPEngine" where
  "sample_cp started = \<lparr> cp_live = True, cp_begin_time = 5, cp_pre_start = started, cp_trading_msg_count = 0,
     cp_md_account_count = 1, cp_book = Book_empty, cp_td_dests = [], cp_is_backtest = True,
     cp_is_simulation = False, cp_stats_all = False, cp_stats = [], cp_board = idle_board,
     cp_strategy_state = () \<rparr>"

definition sample_md :: "int \<Rightarrow> MDEngine" where
  "sample_md t = \<lparr> md_live = True, md_begin_time = t, md_services = [] \<rparr>"

definition sample_td :: TDEngine where
  "sample_td = \<lparr> td_live = True, td_begin_time = 0, td_services = [], td_started = False, td_uid = 7 \<rparr>"

definition sample_system ::
    "bool \<Rightarrow> int \<Rightarrow> (Channel \<Rightarrow> Event list) \<Rightarrow> nat \<Rightarrow> unit System" where
  "sample_system started t ch n = \<lparr> sy_md = sample_md t, sy_td = sample_td, sy_cp = sample_cp started,
     sy_mem = fst (board_init 0 0 False), sy_chan = ch, sy_served = n, sy_matched = 0 \<rparr>"

definition sample_started :: "Channel \<Rightarrow> Event list" where
  "sample_started = deliver (fst (cp_on_active ([] :: unit strategy list) (sample_cp False))) (\<lambda>_. [])"

lemma sample_started_chan:
  "sample_started Ch_MdReq = [Ev_TradingStart 5, Ev_Sync Sync_MarketData]"
  by (simp add: sample_started_def deliver_def cp_on_active_def cp_do_pre_start_def to_all_writers_def sample_cp_def)

lemma sample_reachable:
  "reachable (\<lambda>_. 0) MILLI [] (sample_system True 5 (deliver [(Ch_MdResp, Ev_Sync Sync_MarketData)]
     ((deliver [] (sample_started(Ch_MdReq := [Ev_Sync Sync_MarketData])))(Ch_MdReq := []))) 1)"
proof -
  let ?s0 = "sample_system False 0 (\<lambda>_. []) 0" and ?s1 = "sample_system True 0 sample_started 0"
  let ?ch2 = "deliver [] (sample_started(Ch_MdReq := [Ev_Sync Sync_MarketData]))"
  let ?s2 = "sample_system True 5 ?ch2 0"
  have "reachable (\<lambda>_. 0) MILLI [] ?s0" by (rule reachable.start) (simp_all add: sample_system_def sample_cp_def)
  moreover have "step (\<lambda>_. 0) MILLI [] ?s0 ?s1"
    using step.active [of ?s0 "[]" "fst (cp_on_active [] (sample_cp False))" "snd (cp_on_active [] (sample_cp False))"]
    by (simp add: sample_system_def sample_started_def [symmetric])
      (simp add: sample_cp_def cp_on_active_def cp_do_pre_start_def)
  moreover have "step (\<lambda>_. 0) MILLI [] ?s1 ?s2"
    using step.md [of ?s1 "Ev_TradingStart 5" "[Ev_Sync Sync_MarketData]" "\<lambda>_. 0" MILLI 0 "[]" "sample_md 5" "[]"]
    by (simp add: sample_system_def sample_started_chan sample_md_def md_on_trading_start_def answered_def)
  moreover have "?ch2 Ch_MdReq = [Ev_Sync Sync_MarketData]" by (simp add: deliver_def)
  then have "step (\<lambda>_. 0) MILLI [] ?s2 (sample_system True 5 (deliver [(Ch_MdResp, Ev_Sync Sync_MarketData)] (?ch2(Ch_MdReq := []))) 1)"
    using step.md [of ?s2 "Ev_Sync Sync_MarketData" "[]" "\<lambda>_. 0" MILLI 0 "[(Ch_MdResp, Ev_Sync Sync_MarketData)]" "sample_md 5" "[]"]
    by (simp add: sample_system_def sample_md_def md_on_backtest_sync_signal_def answered_def)
  ultimately show ?thesis by (blast intro: reachable.then_step)
qed

lemma backtest_lockstep_witness:
  "\<exists>s :: unit System. reachable (\<lambda>_. 0) MILLI [] s \<and> sy_served s = 1 \<and> sy_served s \<le> sy_matched s + 1 \<and> signals (sy_chan s) \<le> 1"
  using sample_reachable backtest_lockstep [OF sample_reachable]
  by (intro exI [of _ "sample_system True 5 (deliver [(Ch_MdResp, Ev_Sync Sync_MarketData)]
     ((deliver [] (sample_started(Ch_MdReq := [Ev_Sync Sync_MarketData])))(Ch_MdReq := []))) 1"])
    (simp add: sample_system_def)

text \<open>With one market data account every second trading day is lost. The first day reaches the strategies;
  the next one is dropped and only resets the counter; then it starts again.\<close>

theorem trading_day_dropped:
  assumes "cp_md_account_count cp = 1" "cp_trading_msg_count cp = 0"
  shows "\<exists>cp1 cp2. cp_on_trading_day strats t cp = Some (fst (invoke strats (Cb_trading_day t) (cp\<lparr> cp_trading_msg_count := 1 \<rparr>)), cp1) \<and>
    cp_on_trading_day strats t' cp1 = Some ([], cp2) \<and>
    cp_strategy_state cp2 = cp_strategy_state cp1 \<and>
    cp_md_account_count cp2 = 1 \<and> cp_trading_msg_count cp2 = 0"
proof -
  let ?cp1 = "snd (invoke strats (Cb_trading_day t) (cp\<lparr> cp_trading_msg_count := 1 \<rparr>))"
  have "cp_on_trading_day strats t cp = Some (fst (invoke strats (Cb_trading_day t) (cp\<lparr> cp_trading_msg_count := 1 \<rparr>)), ?cp1)"
    using assms by (simp add: cp_on_trading_day_def)
  moreover have "cp_on_trading_day strats t' ?cp1 = Some ([], ?cp1\<lparr> cp_trading_msg_count := 0 \<rparr>)"
    using assms by (simp add: cp_on_trading_day_def Let_def)
  ultimately show ?thesis using assms by fastforce
qed

lemma trading_day_dropped_witness:
  "\<exists>cp1 cp2. cp_on_trading_day [] 1 (sample_cp True) = Some ([], cp1) \<and> cp_on_trading_day [] 2 cp1 = Some ([], cp2) \<and>
     cp_trading_msg_count cp2 = 0"
  using trading_day_dropped [of "sample_cp True" "[]" 1 2] by (auto simp: sample_cp_def)

text \<open>A request reaches the broker of the account its id names, and no other; a broker that is not ready
  loses it without an answer.\<close>

theorem request_routing:
  assumes "umap_find (td_services td) (to_account_uid (oi_order_id order) (td_uid td)) = Some s"
  shows "\<exists>out td'. td_react mem (Ev_OrderInput order) td = Some (out, td') \<and>
    (\<forall>k. k \<noteq> to_account_uid (oi_order_id order) (td_uid td) \<longrightarrow> umap_find (td_services td') k = umap_find (td_services td) k) \<and>
    (if sim_state s = BS_Ready
     then umap_find (td_services td') (to_account_uid (oi_order_id order) (td_uid td)) = Some (snd (insert_order order s)) \<and>
          out = sent_since s (snd (insert_order order s))
     else td' = td \<and> out = [])"
  using assms by (auto simp: td_insert_order_def with_service_def Let_def)

lemma request_routing_witness:
  "\<exists>td'. td_react (fst (board_init 0 0 False)) (Ev_OrderInput (sample_input\<lparr> oi_order_id := 0 \<rparr>))
     (sample_td\<lparr> td_services := [(7, sample_broker)] \<rparr>) = Some ([], td') \<and> td' = sample_td\<lparr> td_services := [(7, sample_broker)] \<rparr>"
proof -
  have a: "to_account_uid 0 7 = 7" by (simp add: to_account_uid_def)
  have st: "sim_state sample_broker \<noteq> BS_Ready" by (simp add: sample_broker_def BrokerSim_new_def)
  show ?thesis
    using request_routing [of "sample_td\<lparr> td_services := [(7, sample_broker)] \<rparr>" "sample_input\<lparr> oi_order_id := 0 \<rparr>" sample_broker
        "fst (board_init 0 0 False)"] st
    by (simp add: a sample_td_def umap_find_def)
qed

end
