(* ===== verification/SimThread.thy ===== *)
theory SimThread
  imports BrokerSim
begin

text \<open>
  The simulated broker outside a backtest runs a thread that matches the orders in a loop
  (src/broker/brokersim/brokersim.cpp, \<open>start\<close> and \<open>stop\<close>). Every operation takes the broker's
  mutex; \<open>stop\<close> holds it while it waits for the thread to end. The two threads and the mutex as a
  step relation: the program counters name the places between the shared actions, and any thread
  that can act may act next. A sleep may end at any time. (No engine of the repository calls \<open>stop\<close> on a
  service; it is part of the interface of a trade service.)
\<close>

datatype MatcherPc = Mt_none | Mt_test | Mt_wait | Mt_match | Mt_sleep | Mt_done
datatype StopperPc = St_idle | St_wait | St_clear | St_join | St_release
datatype Holder = Matcher | Stopper

record Threads =
  th_running :: bool
  th_mutex :: "Holder option"
  th_matcher :: MatcherPc
  th_stopper :: StopperPc

definition Threads_started :: Threads where
  "Threads_started = \<lparr> th_running = True, th_mutex = None, th_matcher = Mt_test, th_stopper = St_idle \<rparr>"

inductive tstep :: "Threads \<Rightarrow> Threads \<Rightarrow> bool" where
  test: "th_matcher s = Mt_test \<Longrightarrow>
     tstep s (s\<lparr> th_matcher := (if th_running s then Mt_wait else Mt_done) \<rparr>)"
| lock: "\<lbrakk> th_matcher s = Mt_wait; th_mutex s = None \<rbrakk> \<Longrightarrow>
     tstep s (s\<lparr> th_matcher := Mt_match, th_mutex := Some Matcher \<rparr>)"
| unlock: "th_matcher s = Mt_match \<Longrightarrow> tstep s (s\<lparr> th_matcher := Mt_sleep, th_mutex := None \<rparr>)"
| wake: "th_matcher s = Mt_sleep \<Longrightarrow> tstep s (s\<lparr> th_matcher := Mt_test \<rparr>)"
| stop: "th_stopper s = St_idle \<Longrightarrow> tstep s (s\<lparr> th_stopper := St_wait \<rparr>)"
| stop_lock: "\<lbrakk> th_stopper s = St_wait; th_mutex s = None \<rbrakk> \<Longrightarrow>
     tstep s (s\<lparr> th_stopper := St_clear, th_mutex := Some Stopper \<rparr>)"
| clear: "th_stopper s = St_clear \<Longrightarrow>
     tstep s (s\<lparr> th_running := False,
                th_stopper := (if th_running s \<and> th_matcher s \<noteq> Mt_none then St_join else St_release) \<rparr>)"
| join: "\<lbrakk> th_stopper s = St_join; th_matcher s = Mt_done \<rbrakk> \<Longrightarrow>
     tstep s (s\<lparr> th_stopper := St_release, th_matcher := Mt_none \<rparr>)"
| release: "th_stopper s = St_release \<Longrightarrow> tstep s (s\<lparr> th_stopper := St_idle, th_mutex := None \<rparr>)"

inductive_cases tstep_cases: "tstep s s'"

inductive treach :: "Threads \<Rightarrow> bool" where
  started: "treach Threads_started"
| tstep: "\<lbrakk> treach s; tstep s s' \<rbrakk> \<Longrightarrow> treach s'"

definition matching_inside :: "Threads \<Rightarrow> bool" where
  "matching_inside s \<longleftrightarrow> th_matcher s = Mt_match"

definition stopping_inside :: "Threads \<Rightarrow> bool" where
  "stopping_inside s \<longleftrightarrow> th_stopper s = St_clear \<or> th_stopper s = St_join \<or> th_stopper s = St_release"

definition mutex_inv :: "Threads \<Rightarrow> bool" where
  "mutex_inv s \<longleftrightarrow>
     (matching_inside s \<longleftrightarrow> th_mutex s = Some Matcher) \<and> (stopping_inside s \<longleftrightarrow> th_mutex s = Some Stopper)"

lemma mutex_inv_step: "\<lbrakk> tstep s s'; mutex_inv s \<rbrakk> \<Longrightarrow> mutex_inv s'"
  by (induction rule: tstep.induct) (auto simp: mutex_inv_def matching_inside_def stopping_inside_def)

lemma treach_mutex_inv: "treach s \<Longrightarrow> mutex_inv s"
proof (induction rule: treach.induct)
  case started
  show ?case by (simp add: mutex_inv_def matching_inside_def stopping_inside_def Threads_started_def)
qed (rule mutex_inv_step)

text \<open>The thread waits for the mutex, \<open>stop\<close> holds it and waits for the thread.\<close>

definition deadlocked :: "Threads \<Rightarrow> bool" where
  "deadlocked s \<longleftrightarrow> th_matcher s = Mt_wait \<and> th_stopper s = St_join \<and> th_mutex s = Some Stopper"

lemma deadlocked_stuck: "deadlocked s \<Longrightarrow> \<not> tstep s s'"
  by (auto simp: deadlocked_def elim!: tstep_cases)

text \<open>A stop that is waiting always finishes when the thread is not waiting for the mutex.\<close>

lemma join_progress:
  assumes "treach s" "th_stopper s = St_join" "th_matcher s \<noteq> Mt_wait" "\<not> th_running s" "th_matcher s \<noteq> Mt_none"
  shows "\<exists>s'. tstep\<^sup>*\<^sup>* s s' \<and> th_stopper s' = St_idle \<and> th_mutex s' = None"
proof -
  have finish: "\<exists>s'. tstep\<^sup>*\<^sup>* u s' \<and> th_stopper s' = St_idle \<and> th_mutex s' = None" if "th_stopper u = St_join" "th_matcher u = Mt_done" for u
  proof -
    let ?u1 = "u\<lparr> th_stopper := St_release, th_matcher := Mt_none \<rparr>"
    let ?u2 = "?u1\<lparr> th_stopper := St_idle, th_mutex := None \<rparr>"
    have "tstep u ?u1" using that by (rule tstep.join)
    moreover have "tstep ?u1 ?u2" by (rule tstep.release) simp
    ultimately have "tstep\<^sup>*\<^sup>* u ?u2" by (meson converse_rtranclp_into_rtranclp rtranclp.rtrancl_refl)
    then show ?thesis by (intro exI [of _ ?u2]) simp
  qed
  have test: "\<exists>s'. tstep\<^sup>*\<^sup>* u s' \<and> th_stopper s' = St_idle \<and> th_mutex s' = None"
    if "th_stopper u = St_join" "th_matcher u = Mt_test" "\<not> th_running u" for u
  proof -
    have "tstep u (u\<lparr> th_matcher := Mt_done \<rparr>)" using tstep.test [OF that(2)] that(3) by simp
    then show ?thesis using finish [of "u\<lparr> th_matcher := Mt_done \<rparr>"] that(1)
      by (auto intro: converse_rtranclp_into_rtranclp)
  qed
  have "th_matcher s \<noteq> Mt_match"
    using treach_mutex_inv [OF assms(1)] assms(2) by (auto simp: mutex_inv_def matching_inside_def stopping_inside_def)
  then consider "th_matcher s = Mt_test" | "th_matcher s = Mt_sleep" | "th_matcher s = Mt_done"
    using assms(3,5) by (cases "th_matcher s") auto
  then show ?thesis
  proof cases
    case 2
    have "tstep s (s\<lparr> th_matcher := Mt_test \<rparr>)" using 2 by (rule tstep.wake)
    then show ?thesis using test [of "s\<lparr> th_matcher := Mt_test \<rparr>"] assms(2,4)
      by (auto intro: converse_rtranclp_into_rtranclp)
  qed (use test finish assms in auto)
qed

text \<open>A \<open>stop\<close> that waits for the thread has cleared \<open>running_\<close> before, and the thread is joinable.\<close>

definition joining_inv :: "Threads \<Rightarrow> bool" where
  "joining_inv s \<longleftrightarrow> (th_stopper s = St_join \<longrightarrow> \<not> th_running s \<and> th_matcher s \<noteq> Mt_none)"

lemma treach_joining_inv: "treach s \<Longrightarrow> joining_inv s"
proof (induction rule: treach.induct)
  case started
  show ?case by (simp add: joining_inv_def Threads_started_def)
next
  case (tstep s s')
  from tstep.hyps(2) tstep.IH show ?case
    by (induction rule: tstep.induct) (auto simp: joining_inv_def)
qed

lemma join_hangs_or_finishes:
  assumes "treach s" "th_stopper s = St_join"
  shows "deadlocked s \<or> (\<exists>s'. tstep\<^sup>*\<^sup>* s s' \<and> th_stopper s' = St_idle \<and> th_mutex s' = None)"
proof (cases "th_matcher s = Mt_wait")
  case True
  have "th_mutex s = Some Stopper"
    using treach_mutex_inv [OF assms(1)] assms(2) by (simp add: mutex_inv_def stopping_inside_def)
  with True assms(2) show ?thesis by (simp add: deadlocked_def)
next
  case False
  then show ?thesis
    using join_progress [OF assms False] treach_joining_inv [OF assms(1)] assms(2) by (simp add: joining_inv_def)
qed

lemma deadlock_reached: "\<exists>s. treach s \<and> th_stopper s = St_join \<and> th_matcher s = Mt_wait"
proof -
  let ?s0 = "Threads_started"
  let ?s1 = "?s0\<lparr> th_stopper := St_wait \<rparr>"
  let ?s2 = "?s1\<lparr> th_matcher := Mt_wait \<rparr>"
  let ?s3 = "?s2\<lparr> th_stopper := St_clear, th_mutex := Some Stopper \<rparr>"
  let ?s4 = "?s3\<lparr> th_running := False, th_stopper := St_join \<rparr>"
  have "tstep ?s0 ?s1" by (rule tstep.stop) (simp add: Threads_started_def)
  moreover have "tstep ?s1 ?s2" using tstep.test [of ?s1] by (simp add: Threads_started_def)
  moreover have "tstep ?s2 ?s3" by (rule tstep.stop_lock) (simp_all add: Threads_started_def)
  moreover have "tstep ?s3 ?s4" using tstep.clear [of ?s3] by (simp add: Threads_started_def)
  ultimately have "treach ?s4"
    using treach.tstep [OF treach.tstep [OF treach.tstep [OF treach.tstep [OF treach.started]]]] by metis
  then show ?thesis by (intro exI [of _ ?s4]) simp
qed

section \<open>Properties\<close>

text \<open>C38: Stopping the simulated broker outside a backtest can hang for good. In every reachable state of the
  matching thread and \<open>stop\<close> the two keep out of each other's way. A \<open>stop\<close> that waits for the thread to end
  is stuck exactly when the thread in turn waits for the mutex \<open>stop\<close> holds: then neither of the two can
  take a step; otherwise it can still finish and give the mutex back. A stuck state can be reached.\<close>

theorem stop_can_hang:
  "(\<forall>s. treach s \<longrightarrow> \<not> (matching_inside s \<and> stopping_inside s)) \<and>
   (\<forall>s. treach s \<and> th_stopper s = St_join \<longrightarrow>
      (if th_matcher s = Mt_wait then \<forall>s'. \<not> tstep s s'
       else \<exists>s'. tstep\<^sup>*\<^sup>* s s' \<and> th_stopper s' = St_idle \<and> th_mutex s' = None)) \<and>
   (\<exists>s. treach s \<and> th_stopper s = St_join \<and> th_matcher s = Mt_wait)"
proof (intro conjI allI impI)
  show "\<not> (matching_inside s \<and> stopping_inside s)" if "treach s" for s
    using treach_mutex_inv [OF that] by (auto simp: mutex_inv_def)
  show "if th_matcher s = Mt_wait then \<forall>s'. \<not> tstep s s'
      else \<exists>s'. tstep\<^sup>*\<^sup>* s s' \<and> th_stopper s' = St_idle \<and> th_mutex s' = None" if "treach s \<and> th_stopper s = St_join" for s
    using that treach_mutex_inv [of s] join_hangs_or_finishes [of s] deadlocked_stuck [of s]
    by (auto simp: deadlocked_def mutex_inv_def stopping_inside_def)
  show "\<exists>s. treach s \<and> th_stopper s = St_join \<and> th_matcher s = Mt_wait" by (rule deadlock_reached)
qed

lemma stop_can_hang_witness:
  "treach Threads_started \<and> \<not> (matching_inside Threads_started \<and> stopping_inside Threads_started)"
  using stop_can_hang treach.started by blast

end
