(* ===== verification/Indicators.thy ===== *)
theory Indicators
  imports Float64 "HOL-Library.Multiset"
begin

text \<open>
  The performance figures of src/algorithm/algorithm.h and algorithm.cpp: plain functions over an
  array of returns, in the arithmetic of \<open>double\<close>. The array and its length are a list. A function
  whose access would leave the array, or that would sort values that are not ordered, is \<open>None\<close>
  there. \<open>std::sqrt\<close> is the correctly rounded root of IEEE 754; \<open>std::pow\<close> and \<open>std::log\<close>, whose
  last digits the standard leaves to the library, are arguments.
\<close>

section \<open>The square root\<close>

fun isqrt :: "nat \<Rightarrow> nat" where
  "isqrt n =
     (if n = 0 then 0
      else let r = 2 * isqrt (n div 4) in if (r + 1) * (r + 1) \<le> n then r + 1 else r)"

declare isqrt.simps [simp del]

text \<open>
  For a positive number the exponent is chosen such that the root has 53 bits before the point; a
  tie cannot occur, since a number with 53 bits is no square of one with 54.
\<close>

definition root_exp :: "rat \<Rightarrow> int" where
  "root_exp q = rlog2 q div 2 - 52"

definition rounded_root :: "rat \<Rightarrow> nat" where
  "rounded_root x =
     (let n = isqrt (nat \<lfloor>x\<rfloor>) in if (of_nat n + 1 / 2) * (of_nat n + 1 / 2) < x then n + 1 else n)"

fun fsqrt :: "double \<Rightarrow> double" where
  "fsqrt NaN = NaN"
| "fsqrt (FInf s) = (if s then NaN else FInf False)"
| "fsqrt NegZero = NegZero"
| "fsqrt (Fin q) =
     (if q = 0 then Fin 0 else if q < 0 then NaN
      else let e = root_exp q in mk False (of_nat (rounded_root (q / 2 powi (2 * e))) * 2 powi e))"

section \<open>Returns\<close>

definition simple_return :: "double \<Rightarrow> double \<Rightarrow> double" where
  "simple_return current_price previous_price =
     (if feq previous_price 0 then 0 else (current_price - previous_price) / previous_price)"

definition log_return :: "(double \<Rightarrow> double) \<Rightarrow> double \<Rightarrow> double \<Rightarrow> double" where
  "log_return std_log current_price previous_price =
     (if previous_price \<le> 0 then 0 else std_log (current_price / previous_price))"

definition annualized_return :: "(double \<Rightarrow> double \<Rightarrow> double) \<Rightarrow> double \<Rightarrow> int \<Rightarrow> double" where
  "annualized_return std_pow cumulative_return years =
     (if years \<le> 0 then 0 else std_pow (1 + cumulative_return) (1 / of_i64 years) - 1)"

definition potifolio_return :: "double list \<Rightarrow> double" where
  "potifolio_return rs =
     (if rs = [] then 0 else foldl (\<lambda>total r. total * (1 + r)) 1 rs - 1)"

section \<open>Means and deviations\<close>

text \<open>The loops that add up a term for every element, and the mean, which most functions begin with.\<close>

definition sum_of :: "(double \<Rightarrow> double) \<Rightarrow> double list \<Rightarrow> double" where
  "sum_of f rs = foldl (\<lambda>acc r. acc + f r) 0 rs"

definition count_of :: "(double \<Rightarrow> bool) \<Rightarrow> double list \<Rightarrow> int" where
  "count_of P rs = int (length (filter P rs))"

definition len_of :: "double list \<Rightarrow> double" where
  "len_of rs = of_i64 (int (length rs))"

definition mean_of :: "double list \<Rightarrow> double" where
  "mean_of rs = sum_of (\<lambda>r. r) rs / len_of rs"

definition volatility :: "double list \<Rightarrow> double" where
  "volatility rs =
     (if length rs \<le> 1 then 0
      else let mean = mean_of rs;
               variance = sum_of (\<lambda>r. (r - mean) * (r - mean)) rs
           in fsqrt (variance / of_i64 (int (length rs) - 1)))"

text \<open>The sum of the squared shortfalls below a target, over their number.\<close>

definition downside_deviation :: "double list \<Rightarrow> double \<Rightarrow> double" where
  "downside_deviation rs target_return =
     fsqrt (sum_of (\<lambda>r. (r - target_return) * (r - target_return)) (filter (\<lambda>r. r < target_return) rs) /
            of_i64 (count_of (\<lambda>r. r < target_return) rs))"

definition sharpe_ratio :: "double list \<Rightarrow> double \<Rightarrow> double" where
  "sharpe_ratio rs risk_free_rate =
     (if length rs \<le> 1 then 0
      else let mean_return = mean_of rs; stddev = volatility rs
           in if feq stddev 0 then 0 else (mean_return - risk_free_rate) / stddev)"

definition sortino_ratio :: "double list \<Rightarrow> double \<Rightarrow> double" where
  "sortino_ratio rs target_return =
     (if length rs \<le> 1 then 0
      else if count_of (\<lambda>r. r < target_return) rs = 0 then 0
      else let dev = downside_deviation rs target_return; mean_return = mean_of rs
           in if feq dev 0 then 0 else (mean_return - target_return) / dev)"

definition downside_risk :: "double list \<Rightarrow> double \<Rightarrow> double" where
  "downside_risk rs target_return =
     (if rs = [] then 0
      else if count_of (\<lambda>r. r < target_return) rs = 0 then 0
      else downside_deviation rs target_return)"

definition calmar_ratio :: "double \<Rightarrow> double \<Rightarrow> double" where
  "calmar_ratio cumulative_return max_dd = (if feq max_dd 0 then 0 else cumulative_return / max_dd)"

section \<open>Drawdown\<close>

text \<open>The loop, with the peak so far, the lowest value since the peak and the deepest fall.\<close>

fun drawdown_loop :: "double \<Rightarrow> double \<Rightarrow> double \<Rightarrow> double list \<Rightarrow> double" where
  "drawdown_loop peak trough max_dd [] = max_dd"
| "drawdown_loop peak trough max_dd (r # rs) =
     (if r > peak then drawdown_loop r r max_dd rs
      else if r < trough
      then let dd = (peak - r) / peak
           in drawdown_loop peak r (if dd > max_dd then dd else max_dd) rs
      else drawdown_loop peak trough max_dd rs)"

definition max_drawdown :: "double list \<Rightarrow> double" where
  "max_drawdown rs = (case rs of [] \<Rightarrow> 0 | r # rs \<Rightarrow> drawdown_loop r r 0 rs)"

section \<open>Ratios of gains and losses\<close>

definition gains :: "(double \<Rightarrow> bool) \<Rightarrow> (double \<Rightarrow> double) \<Rightarrow> double list \<Rightarrow> double" where
  "gains P f rs = sum_of f (filter P rs)"

text \<open>The shape all of them end with: an infinite ratio when there is no loss.\<close>

definition ratio_or_inf :: "double \<Rightarrow> double \<Rightarrow> double" where
  "ratio_or_inf gain loss = (if feq loss 0 then FInf False else gain / loss)"

definition omega_ratio :: "double list \<Rightarrow> double \<Rightarrow> double" where
  "omega_ratio rs target_return =
     (if rs = [] then 0
      else ratio_or_inf (gains (\<lambda>r. r > target_return) (\<lambda>r. r - target_return) rs)
                        (gains (\<lambda>r. \<not> r > target_return) (\<lambda>r. target_return - r) rs))"

definition omega_ratio_threshold :: "double list \<Rightarrow> double \<Rightarrow> double \<Rightarrow> double" where
  "omega_ratio_threshold rs target_return threshold =
     (if rs = [] then 0
      else ratio_or_inf (gains (\<lambda>r. r > target_return) (\<lambda>r. r - target_return) rs)
                        (gains (\<lambda>r. \<not> r > target_return \<and> r < threshold) (\<lambda>r. target_return - r) rs))"

definition gain_loss_ratio :: "double list \<Rightarrow> double" where
  "gain_loss_ratio rs =
     (if rs = [] then 0
      else ratio_or_inf (gains (\<lambda>r. r > 0) (\<lambda>r. r) rs) (gains (\<lambda>r. \<not> r > 0) (\<lambda>r. - r) rs))"

definition profit_factor :: "double list \<Rightarrow> double" where
  "profit_factor rs =
     (if rs = [] then 0
      else ratio_or_inf (gains (\<lambda>r. r > 0) (\<lambda>r. r) rs) (gains (\<lambda>r. \<not> r > 0) (\<lambda>r. - r) rs))"

definition gain_to_pain_ratio :: "double list \<Rightarrow> double" where
  "gain_to_pain_ratio rs =
     (if rs = [] then 0
      else ratio_or_inf (gains (\<lambda>r. r > 0) (\<lambda>r. r) rs) (gains (\<lambda>r. \<not> r > 0) (\<lambda>r. - r) rs))"

definition tail_ratio :: "double list \<Rightarrow> double \<Rightarrow> double" where
  "tail_ratio rs threshold =
     (if rs = [] then 0
      else ratio_or_inf (gains (\<lambda>r. r > threshold) (\<lambda>r. r) rs)
                        (gains (\<lambda>r. \<not> r > threshold \<and> r < threshold) (\<lambda>r. - r) rs))"

definition upside_potential_ratio :: "double list \<Rightarrow> double \<Rightarrow> double" where
  "upside_potential_ratio rs target_return =
     (if rs = [] then 0
      else ratio_or_inf (gains (\<lambda>r. r > target_return) (\<lambda>r. r - target_return) rs)
                        (gains (\<lambda>r. \<not> r > target_return \<and> r < target_return) (\<lambda>r. target_return - r) rs))"

section \<open>Against a benchmark\<close>

definition information_ratio :: "double list \<Rightarrow> double \<Rightarrow> double" where
  "information_ratio rs benchmark_return =
     (if length rs \<le> 1 then 0
      else let active_return = sum_of (\<lambda>r. r - benchmark_return) rs / len_of rs;
               tracking_error = fsqrt (sum_of (\<lambda>r. (r - benchmark_return - active_return) *
                                                    (r - benchmark_return - active_return)) rs /
                                       of_i64 (int (length rs) - 1))
           in if feq tracking_error 0 then 0 else active_return / tracking_error)"

text \<open>The average of the captures on one side, one when there are none.\<close>

definition capture_on :: "(double \<Rightarrow> bool) \<Rightarrow> double list \<Rightarrow> double \<Rightarrow> double" where
  "capture_on P rs benchmark_return =
     (if count_of P rs = 0 then 1
      else gains P (\<lambda>r. r / benchmark_return) rs / of_i64 (count_of P rs))"

definition capture_ratio :: "double list \<Rightarrow> double \<Rightarrow> double" where
  "capture_ratio rs benchmark_return =
     (if rs = [] then 0
      else capture_on (\<lambda>r. r > benchmark_return) rs benchmark_return /
           capture_on (\<lambda>r. \<not> r > benchmark_return \<and> r < benchmark_return) rs benchmark_return)"

definition up_capture_ratio :: "double list \<Rightarrow> double \<Rightarrow> double" where
  "up_capture_ratio rs benchmark_return =
     (if rs = [] then 0 else capture_on (\<lambda>r. r > benchmark_return) rs benchmark_return)"

definition down_capture_ratio :: "double list \<Rightarrow> double \<Rightarrow> double" where
  "down_capture_ratio rs benchmark_return =
     (if rs = [] then 0 else capture_on (\<lambda>r. r < benchmark_return) rs benchmark_return)"

definition downside_capture_ratio :: "double list \<Rightarrow> double \<Rightarrow> double" where
  "downside_capture_ratio rs benchmark_return =
     (if rs = [] then 0 else capture_on (\<lambda>r. r < benchmark_return) rs benchmark_return)"

definition upside_capture_ratio :: "double list \<Rightarrow> double \<Rightarrow> double" where
  "upside_capture_ratio rs benchmark_return =
     (if rs = [] then 0 else capture_on (\<lambda>r. r > benchmark_return) rs benchmark_return)"

text \<open>The benchmark is one number, added up as often as there are returns for its mean.\<close>

definition beta :: "double list \<Rightarrow> double \<Rightarrow> double" where
  "beta rs benchmark_return =
     (if length rs \<le> 1 then 0
      else let mean_return = mean_of rs;
               mean_benchmark = sum_of (\<lambda>_. benchmark_return) rs / len_of rs;
               covariance = sum_of (\<lambda>r. (r - mean_return) * (benchmark_return - mean_benchmark)) rs;
               variance = sum_of (\<lambda>_. (benchmark_return - mean_benchmark) * (benchmark_return - mean_benchmark)) rs
           in if feq variance 0 then 0 else covariance / variance)"

definition alpha :: "double list \<Rightarrow> double \<Rightarrow> double \<Rightarrow> double" where
  "alpha rs benchmark_return risk_free_rate =
     (if length rs \<le> 1 then 0
      else mean_of rs - (risk_free_rate + beta rs benchmark_return * (benchmark_return - risk_free_rate)))"

definition jensens_alpha :: "double list \<Rightarrow> double \<Rightarrow> double \<Rightarrow> double" where
  "jensens_alpha rs benchmark_return risk_free_rate =
     (if length rs \<le> 1 then 0
      else mean_of rs - (risk_free_rate + beta rs benchmark_return * (benchmark_return - risk_free_rate)))"

definition treynor_ratio :: "double list \<Rightarrow> double \<Rightarrow> double \<Rightarrow> double" where
  "treynor_ratio rs benchmark_return risk_free_rate =
     (if length rs \<le> 1 then 0
      else let beta_value = beta rs benchmark_return
           in if feq beta_value 0 then 0 else (mean_of rs - risk_free_rate) / beta_value)"

section \<open>Tails of the distribution\<close>

text \<open>
  \<open>std::sort\<close>. Without a NaN among them doubles are ordered, up to the two zeros, which compare
  equal and whose order the standard leaves open; here they stay in the order they come in. A
  confidence level that is no number passes the checks, and its cast to \<open>int\<close> is undefined.
\<close>

fun sort_insert :: "double \<Rightarrow> double list \<Rightarrow> double list" where
  "sort_insert x [] = [x]"
| "sort_insert x (y # ys) = (if x < y then x # y # ys else y # sort_insert x ys)"

definition std_sort :: "double list \<Rightarrow> double list option" where
  "std_sort rs = (if NaN \<in> set rs then None else Some (fold sort_insert rs []))"

text \<open>\<open>static_cast<int>\<close> of a value in the range of the type.\<close>

definition tail_index :: "double \<Rightarrow> nat \<Rightarrow> int" where
  "tail_index confidence_level n =
     (let index = trunc_rat (val ((1 - confidence_level) * of_i64 (int n)))
      in if index < 0 then 0 else index)"

definition value_at_risk :: "double list \<Rightarrow> double \<Rightarrow> double option" where
  "value_at_risk rs confidence_level =
     (if rs = [] \<or> confidence_level \<le> 0 \<or> confidence_level \<ge> 1 then Some 0
      else case (if confidence_level = NaN then None else std_sort rs) of
             None \<Rightarrow> None
           | Some sorted_returns \<Rightarrow>
               let index = nat (tail_index confidence_level (length rs))
               in if index < length sorted_returns then Some (sorted_returns ! index) else None)"

definition expected_shortfall :: "double list \<Rightarrow> double \<Rightarrow> double option" where
  "expected_shortfall rs confidence_level =
     (if rs = [] \<or> confidence_level \<le> 0 \<or> confidence_level \<ge> 1 then Some 0
      else case (if confidence_level = NaN then None else std_sort rs) of
             None \<Rightarrow> None
           | Some sorted_returns \<Rightarrow>
               let index = nat (tail_index confidence_level (length rs))
               in if index \<le> length sorted_returns
                  then Some (sum_of (\<lambda>r. r) (take index sorted_returns) / of_i64 (int index)) else None)"

text \<open>The moments about the mean.\<close>

definition skewness :: "(double \<Rightarrow> double \<Rightarrow> double) \<Rightarrow> double list \<Rightarrow> double" where
  "skewness std_pow rs =
     (if length rs \<le> 2 then 0
      else let mean = mean_of rs;
               m3 = sum_of (\<lambda>r. let diff = r - mean in diff * diff * diff) rs / len_of rs;
               m2 = sum_of (\<lambda>r. let diff = r - mean in diff * diff) rs / len_of rs
           in if feq m2 0 then 0 else m3 / std_pow m2 (lit (3 / 2)))"

definition kurtosis :: "double list \<Rightarrow> double" where
  "kurtosis rs =
     (if length rs \<le> 3 then 0
      else let mean = mean_of rs;
               m4 = sum_of (\<lambda>r. let diff = r - mean in diff * diff * diff * diff) rs / len_of rs;
               m2 = sum_of (\<lambda>r. let diff = r - mean in diff * diff) rs / len_of rs
           in if feq m2 0 then 0 else m4 / (m2 * m2) - lit 3)"

section \<open>The risk-adjusted copies\<close>

text \<open>The source repeats the bodies above under further names.\<close>

definition risk_adjusted_return :: "double list \<Rightarrow> double \<Rightarrow> double" where
  "risk_adjusted_return rs risk_free_rate =
     (if length rs \<le> 1 then 0
      else let mean_return = mean_of rs; stddev = volatility rs
           in if feq stddev 0 then 0 else (mean_return - risk_free_rate) / stddev)"

definition risk_return_ratio :: "double list \<Rightarrow> double \<Rightarrow> double" where
  "risk_return_ratio rs risk_free_rate =
     (if length rs \<le> 1 then 0
      else let mean_return = mean_of rs; stddev = volatility rs
           in if feq stddev 0 then 0 else (mean_return - risk_free_rate) / stddev)"

definition risk_adjusted_sharpe_ratio :: "double list \<Rightarrow> double \<Rightarrow> double" where
  "risk_adjusted_sharpe_ratio rs risk_free_rate =
     (if length rs \<le> 1 then 0
      else let mean_return = mean_of rs; stddev = volatility rs
           in if feq stddev 0 then 0 else (mean_return - risk_free_rate) / stddev)"

definition risk_adjusted_sortino_ratio :: "double list \<Rightarrow> double \<Rightarrow> double" where
  "risk_adjusted_sortino_ratio rs target_return =
     (if length rs \<le> 1 then 0
      else if count_of (\<lambda>r. r < target_return) rs = 0 then 0
      else let dev = downside_deviation rs target_return; mean_return = mean_of rs
           in if feq dev 0 then 0 else (mean_return - target_return) / dev)"

definition risk_adjusted_calmar_ratio :: "double \<Rightarrow> double \<Rightarrow> double" where
  "risk_adjusted_calmar_ratio cumulative_return max_dd = (if feq max_dd 0 then 0 else cumulative_return / max_dd)"

definition risk_adjusted_omega_ratio :: "double list \<Rightarrow> double \<Rightarrow> double \<Rightarrow> double" where
  "risk_adjusted_omega_ratio rs target_return threshold =
     (if rs = [] then 0
      else ratio_or_inf (gains (\<lambda>r. r > target_return) (\<lambda>r. r - target_return) rs)
                        (gains (\<lambda>r. \<not> r > target_return \<and> r < threshold) (\<lambda>r. target_return - r) rs))"

definition risk_adjusted_gain_loss_ratio :: "double list \<Rightarrow> double" where
  "risk_adjusted_gain_loss_ratio rs =
     (if rs = [] then 0
      else ratio_or_inf (gains (\<lambda>r. r > 0) (\<lambda>r. r) rs) (gains (\<lambda>r. \<not> r > 0) (\<lambda>r. - r) rs))"

definition risk_adjusted_upside_potential_ratio :: "double list \<Rightarrow> double \<Rightarrow> double" where
  "risk_adjusted_upside_potential_ratio rs target_return =
     (if rs = [] then 0
      else ratio_or_inf (gains (\<lambda>r. r > target_return) (\<lambda>r. r - target_return) rs)
                        (gains (\<lambda>r. \<not> r > target_return \<and> r < target_return) (\<lambda>r. target_return - r) rs))"

definition risk_adjusted_downside_capture_ratio :: "double list \<Rightarrow> double \<Rightarrow> double" where
  "risk_adjusted_downside_capture_ratio rs benchmark_return =
     (if rs = [] then 0 else capture_on (\<lambda>r. r < benchmark_return) rs benchmark_return)"

definition risk_adjusted_upside_capture_ratio :: "double list \<Rightarrow> double \<Rightarrow> double" where
  "risk_adjusted_upside_capture_ratio rs benchmark_return =
     (if rs = [] then 0 else capture_on (\<lambda>r. r > benchmark_return) rs benchmark_return)"

definition risk_adjusted_risk_return_ratio :: "double list \<Rightarrow> double \<Rightarrow> double" where
  "risk_adjusted_risk_return_ratio rs risk_free_rate =
     (if length rs \<le> 1 then 0
      else let mean_return = mean_of rs; stddev = volatility rs
           in if feq stddev 0 then 0 else (mean_return - risk_free_rate) / stddev)"

definition risk_adjusted_risk_adjusted_sharpe_ratio :: "double list \<Rightarrow> double \<Rightarrow> double" where
  "risk_adjusted_risk_adjusted_sharpe_ratio rs risk_free_rate =
     (if length rs \<le> 1 then 0
      else let mean_return = mean_of rs; stddev = volatility rs
           in if feq stddev 0 then 0 else (mean_return - risk_free_rate) / stddev)"

definition risk_adjusted_risk_adjusted_sortino_ratio :: "double list \<Rightarrow> double \<Rightarrow> double" where
  "risk_adjusted_risk_adjusted_sortino_ratio rs target_return =
     (if length rs \<le> 1 then 0
      else if count_of (\<lambda>r. r < target_return) rs = 0 then 0
      else let dev = downside_deviation rs target_return; mean_return = mean_of rs
           in if feq dev 0 then 0 else (mean_return - target_return) / dev)"

definition risk_adjusted_risk_adjusted_calmar_ratio :: "double \<Rightarrow> double \<Rightarrow> double" where
  "risk_adjusted_risk_adjusted_calmar_ratio cumulative_return max_dd = (if feq max_dd 0 then 0 else cumulative_return / max_dd)"

definition risk_adjusted_risk_adjusted_omega_ratio :: "double list \<Rightarrow> double \<Rightarrow> double \<Rightarrow> double" where
  "risk_adjusted_risk_adjusted_omega_ratio rs target_return threshold =
     (if rs = [] then 0
      else ratio_or_inf (gains (\<lambda>r. r > target_return) (\<lambda>r. r - target_return) rs)
                        (gains (\<lambda>r. \<not> r > target_return \<and> r < threshold) (\<lambda>r. target_return - r) rs))"

definition risk_adjusted_risk_adjusted_gain_loss_ratio :: "double list \<Rightarrow> double" where
  "risk_adjusted_risk_adjusted_gain_loss_ratio rs =
     (if rs = [] then 0
      else ratio_or_inf (gains (\<lambda>r. r > 0) (\<lambda>r. r) rs) (gains (\<lambda>r. \<not> r > 0) (\<lambda>r. - r) rs))"

definition risk_adjusted_risk_adjusted_upside_potential_ratio :: "double list \<Rightarrow> double \<Rightarrow> double" where
  "risk_adjusted_risk_adjusted_upside_potential_ratio rs target_return =
     (if rs = [] then 0
      else ratio_or_inf (gains (\<lambda>r. r > target_return) (\<lambda>r. r - target_return) rs)
                        (gains (\<lambda>r. \<not> r > target_return \<and> r < target_return) (\<lambda>r. target_return - r) rs))"

definition risk_adjusted_risk_adjusted_downside_capture_ratio :: "double list \<Rightarrow> double \<Rightarrow> double" where
  "risk_adjusted_risk_adjusted_downside_capture_ratio rs benchmark_return =
     (if rs = [] then 0 else capture_on (\<lambda>r. r < benchmark_return) rs benchmark_return)"

definition risk_adjusted_risk_adjusted_upside_capture_ratio :: "double list \<Rightarrow> double \<Rightarrow> double" where
  "risk_adjusted_risk_adjusted_upside_capture_ratio rs benchmark_return =
     (if rs = [] then 0 else capture_on (\<lambda>r. r > benchmark_return) rs benchmark_return)"

section \<open>Sorting\<close>

lemma set_sort_insert [simp]: "set (sort_insert x xs) = insert x (set xs)"
  by (induction xs) auto

lemma mset_sort_insert: "mset (sort_insert x xs) = add_mset x (mset xs)"
  by (induction xs) auto

lemma mset_std_sort: "std_sort rs = Some ys \<Longrightarrow> mset ys = mset rs"
proof -
  have "mset (fold sort_insert rs zs) = mset rs + mset zs" for zs
    by (induction rs arbitrary: zs) (simp_all add: mset_sort_insert)
  then show "std_sort rs = Some ys \<Longrightarrow> mset ys = mset rs"
    by (auto simp: std_sort_def split: if_splits)
qed

lemma sorted_sort_insert:
  "\<lbrakk> sorted_wrt (\<le>) xs; NaN \<notin> set xs; NaN \<noteq> x \<rbrakk> \<Longrightarrow> sorted_wrt (\<le>) (sort_insert x xs)"
proof (induction xs)
  case (Cons y ys)
  show ?case
  proof (cases "x < y")
    case True
    then have "x \<le> z" if "z \<in> set (y # ys)" for z
      using Cons.prems that by (auto intro: double_less_imp_le double_le_trans [of x y z])
    with True Cons.prems show ?thesis by simp
  next
    case False
    then have "y \<le> x" using Cons.prems double_not_less [of x y] by auto
    with False Cons show ?thesis by simp
  qed
qed simp

lemma sorted_std_sort: "std_sort rs = Some ys \<Longrightarrow> sorted_wrt (\<le>) ys"
proof -
  have "sorted_wrt (\<le>) (fold sort_insert rs zs)" if "NaN \<notin> set rs" "NaN \<notin> set zs" "sorted_wrt (\<le>) zs" for zs
    using that by (induction rs arbitrary: zs) (simp_all add: sorted_sort_insert)
  then show "std_sort rs = Some ys \<Longrightarrow> sorted_wrt (\<le>) ys"
    by (auto simp: std_sort_def split: if_splits)
qed

lemma length_std_sort: "std_sort rs = Some ys \<Longrightarrow> length ys = length rs"
  using mset_std_sort by (metis size_mset)

text \<open>What the element at an index of a sorted list says about its neighbours, as counts.\<close>

lemma sorted_counts:
  assumes "sorted_wrt (\<le>) ys" "i < length ys" "NaN \<notin> set ys"
  shows "i < length (filter (\<lambda>r. r \<le> ys ! i) ys)" "length (filter (\<lambda>r. r < ys ! i) ys) \<le> i"
proof -
  have ys: "ys = take (Suc i) ys @ drop (Suc i) ys" "ys = take i ys @ drop i ys" by simp_all
  have "filter (\<lambda>r. r \<le> ys ! i) (take (Suc i) ys) = take (Suc i) ys"
    using assms by (auto simp: filter_id_conv in_set_conv_nth sorted_wrt_iff_nth_less less_Suc_eq)
  then have "length (filter (\<lambda>r. r \<le> ys ! i) ys) = Suc i + length (filter (\<lambda>r. r \<le> ys ! i) (drop (Suc i) ys))"
    using assms(2) by (subst (2) ys(1)) (simp only: filter_append length_append, simp)
  then show "i < length (filter (\<lambda>r. r \<le> ys ! i) ys)" by simp
  have "\<not> r < ys ! i" if "r \<in> set (drop i ys)" for r
  proof -
    from that obtain j where j: "j < length (drop i ys)" "drop i ys ! j = r" by (auto simp: in_set_conv_nth)
    moreover have "ys ! i \<noteq> NaN" using assms(2,3) nth_mem by metis
    ultimately have "ys ! i \<le> r" using assms sorted_wrt_nth_less [OF assms(1), of i "i + j"]
      by (cases "j = 0") auto
    then show ?thesis by (auto simp: double_not_less less_key le_key)
  qed
  then have "filter (\<lambda>r. r < ys ! i) (drop i ys) = []" by (simp add: filter_empty_conv)
  then have "length (filter (\<lambda>r. r < ys ! i) ys) = length (filter (\<lambda>r. r < ys ! i) (take i ys))"
    by (subst (2) ys(2)) (simp only: filter_append length_append, simp)
  also have "\<dots> \<le> i" by (rule order_trans [OF length_filter_le]) simp
  finally show "length (filter (\<lambda>r. r < ys ! i) ys) \<le> i" .
qed

lemma mset_filter_length: "mset xs = mset ys \<Longrightarrow> length (filter P xs) = length (filter P ys)"
  by (metis mset_filter size_mset)

section \<open>Drawdown\<close>

lemma finite_between: "\<lbrakk> a \<le> (x :: double); x \<le> b; is_finite a; is_finite b \<rbrakk> \<Longrightarrow> is_finite x"
  by (cases x rule: double_exhaust; cases a rule: double_exhaust; cases b rule: double_exhaust) (auto simp: le_key)

lemma sub_finite:
  assumes "is_finite a" "wf_double a" "is_finite b" "wf_double b" "0 \<le> a" "0 \<le> b"
  shows "is_finite (a - b)"
proof (cases "a = NegZero \<and> b = Fin 0")
  case False
  have v: "0 \<le> val a" "0 \<le> val b" using assms by (simp_all add: le_fin)
  have "mk False (val a - val b) \<le> a" using assms v by (intro mk_val_ge) auto
  moreover have "fneg b \<le> mk False (val a - val b)" using assms v by (intro mk_val_le) auto
  ultimately have "is_finite (mk False (val a - val b))"
    using assms finite_between [of "fneg b" "mk False (val a - val b)" a] by simp
  then show ?thesis using assms False by (auto simp: sub_fin)
qed (use assms in \<open>simp add: sub_fin\<close>)

lemma sub_mono:
  assumes "is_finite p" "is_finite a" "is_finite b" "a \<le> b" "0 < p"
  shows "p - b \<le> p - a"
proof -
  have "p \<noteq> NegZero" using assms(5) by (auto simp: less_key zero_double_def)
  then show ?thesis using assms by (auto simp: sub_fin le_fin intro!: mk_mono)
qed

lemma div_mono_pos:
  assumes "is_finite a" "is_finite b" "a \<le> b" "is_finite p" "0 < p"
  shows "a / p \<le> b / p"
proof -
  have "0 < val p" using assms by (simp add: less_fin)
  then show ?thesis using assms by (auto simp: div_fin le_fin divide_right_mono intro!: mk_mono)
qed

definition positive :: "double \<Rightarrow> bool" where
  "positive r \<longleftrightarrow> is_finite r \<and> wf_double r \<and> 0 < r"

lemma fall_mono:
  assumes "positive p" "positive a" "positive b" "a \<le> b"
  shows "(p - b) / p \<le> (p - a) / p"
proof (rule div_mono_pos)
  show "is_finite (p - b)" "is_finite (p - a)"
    using assms by (auto simp: positive_def intro: sub_finite double_less_imp_le)
qed (use assms sub_mono [of p a b] in \<open>auto simp: positive_def\<close>)

lemma fall_self: "positive p \<Longrightarrow> (p - p) / p = 0"
  by (cases p rule: double_exhaust) (auto simp: positive_def sub_self div_fin less_fin zero_double_def)

text \<open>
  The fall of every value from the highest before it, and the deepest of these: what the loop is
  for.
\<close>

fun falls :: "double \<Rightarrow> double list \<Rightarrow> double list" where
  "falls peak [] = []"
| "falls peak (r # rs) = (let p = (if r > peak then r else peak) in (p - r) / p # falls p rs)"

definition deepest :: "double \<Rightarrow> double list \<Rightarrow> double" where
  "deepest m ds = foldl (\<lambda>m d. if d > m then d else m) m ds"

lemma drawdown_loop_deepest:
  assumes "list_all positive rs" "positive peak" "positive trough" "0 \<le> max_dd" "(peak - trough) / peak \<le> max_dd"
  shows "drawdown_loop peak trough max_dd rs = deepest max_dd (falls peak rs)"
  using assms
proof (induction rs arbitrary: peak trough max_dd)
  case (Cons r rs)
  have r: "positive r" "list_all positive rs" using Cons.prems(1) by simp_all
  consider (new) "r > peak" | (low) "\<not> r > peak" "r < trough" | (other) "\<not> r > peak" "\<not> r < trough" by blast
  then show ?case
  proof cases
    case new
    have n: "\<not> max_dd < 0" using Cons.prems(4) by (auto simp: le_key less_key)
    have "drawdown_loop r r max_dd rs = deepest max_dd (falls r rs)"
      by (rule Cons.IH) (use r Cons.prems(4) fall_self [OF r(1)] in simp_all)
    then show ?thesis using new n fall_self [OF r(1)] by (simp add: deepest_def Let_def)
  next
    case low
    define dd where "dd = (peak - r) / peak"
    define m where "m = (if dd > max_dd then dd else max_dd)"
    have nn: "max_dd \<noteq> NaN" using Cons.prems(4) by (auto simp: le_key)
    have "dd \<noteq> NaN"
      using fall_mono [OF Cons.prems(2) r(1) Cons.prems(3)] low double_less_imp_le by (fastforce simp: dd_def le_key)
    then have "0 \<le> m" "dd \<le> m"
      using Cons.prems(4) nn double_le_trans [OF Cons.prems(4)] double_not_less [of max_dd dd]
      by (auto simp: m_def intro: double_less_imp_le)
    then have "drawdown_loop peak r m rs = deepest m (falls peak rs)"
      using Cons.IH [OF r(2) Cons.prems(2) r(1)] by (simp add: dd_def)
    moreover have "drawdown_loop peak trough max_dd (r # rs) = drawdown_loop peak r m rs"
      using low by (simp add: Let_def dd_def m_def)
    moreover have "deepest max_dd (falls peak (r # rs)) = deepest m (falls peak rs)"
      using low by (simp add: deepest_def Let_def dd_def m_def)
    ultimately show ?thesis by simp
  next
    case other
    have "r \<noteq> NaN" "trough \<noteq> NaN" using r(1) Cons.prems(3) by (auto simp: positive_def)
    then have "trough \<le> r" using other double_not_less [of r trough] by simp
    then have "(peak - r) / peak \<le> max_dd"
      using fall_mono [OF Cons.prems(2) Cons.prems(3) r(1)] Cons.prems(5) double_le_trans by blast
    then have "\<not> (peak - r) / peak > max_dd" by (auto simp: le_key less_key)
    moreover have "drawdown_loop peak trough max_dd rs = deepest max_dd (falls peak rs)"
      using Cons.IH [OF r(2)] Cons.prems by blast
    ultimately show ?thesis using other by (simp add: deepest_def Let_def)
  qed
qed (simp add: deepest_def)

lemma deepest_max:
  assumes "m \<noteq> NaN" "NaN \<notin> set ds"
  shows "m \<le> deepest m ds" "\<forall>d \<in> set ds. d \<le> deepest m ds" "deepest m ds = m \<or> deepest m ds \<in> set ds"
proof -
  have "m \<le> deepest m ds \<and> (\<forall>d \<in> set ds. d \<le> deepest m ds) \<and> (deepest m ds = m \<or> deepest m ds \<in> set ds)"
    using assms
  proof (induction ds arbitrary: m)
    case (Cons d ds)
    let ?m = "if d > m then d else m"
    have d: "?m \<noteq> NaN" "m \<le> ?m" "d \<le> ?m" using Cons.prems double_not_less [of m d] by (auto intro: double_less_imp_le)
    have IH: "?m \<le> deepest ?m ds" "\<forall>d \<in> set ds. d \<le> deepest ?m ds" "deepest ?m ds = ?m \<or> deepest ?m ds \<in> set ds"
      using Cons.IH [of ?m] d(1) Cons.prems(2) by auto
    have "deepest m (d # ds) = deepest ?m ds" by (simp add: deepest_def)
    then show ?case using IH d double_le_trans [of m ?m] double_le_trans [of d ?m] by (auto split: if_splits)
  qed (simp add: deepest_def)
  then show "m \<le> deepest m ds" "\<forall>d \<in> set ds. d \<le> deepest m ds" "deepest m ds = m \<or> deepest m ds \<in> set ds" by auto
qed

section \<open>The root is the nearest number\<close>

lemma isqrt_bounds: "isqrt n * isqrt n \<le> n \<and> n < (isqrt n + 1) * (isqrt n + 1)"
proof (induction n rule: isqrt.induct)
  case (1 n)
  show ?case
  proof (cases "n = 0")
    case False
    define s where "s = isqrt (n div 4)"
    have s: "s * s \<le> n div 4" "n div 4 < (s + 1) * (s + 1)" using 1 False by (simp_all add: s_def)
    have "4 * (s * s) \<le> n" using s(1) by linarith
    moreover have "n < 4 * ((s + 1) * (s + 1))" using s(2) by linarith
    moreover have "isqrt n = (if (2 * s + 1) * (2 * s + 1) \<le> n then 2 * s + 1 else 2 * s)"
      using False by (subst isqrt.simps) (simp add: s_def Let_def)
    ultimately show ?thesis by (auto simp: algebra_simps)
  qed (simp add: isqrt.simps)
qed

lemma rounded_root_nearest:
  assumes "0 \<le> x"
  shows "x \<le> (of_nat (rounded_root x) + 1 / 2) * (of_nat (rounded_root x) + 1 / 2)"
    "0 < rounded_root x \<Longrightarrow> (of_nat (rounded_root x) - 1 / 2) * (of_nat (rounded_root x) - 1 / 2) \<le> x"
proof -
  define n where "n = isqrt (nat \<lfloor>x\<rfloor>)"
  have b: "n * n \<le> nat \<lfloor>x\<rfloor>" "nat \<lfloor>x\<rfloor> < (n + 1) * (n + 1)" using isqrt_bounds [of "nat \<lfloor>x\<rfloor>"] by (simp_all add: n_def)
  have fl: "(of_nat (nat \<lfloor>x\<rfloor>) :: rat) = of_int \<lfloor>x\<rfloor>" using assms by simp
  have lo: "of_nat n * of_nat n \<le> x"
  proof -
    have "(of_nat (n * n) :: rat) \<le> of_nat (nat \<lfloor>x\<rfloor>)" using b(1) by (simp only: of_nat_le_iff)
    then show ?thesis using fl order_trans [OF _ of_int_floor_le [of x]] by simp
  qed
  have hi: "x < (of_nat n + 1) * (of_nat n + 1)"
  proof -
    have "(of_nat (nat \<lfloor>x\<rfloor> + 1) :: rat) \<le> of_nat ((n + 1) * (n + 1))" using b(2) by (simp only: of_nat_le_iff)
    moreover have "x < of_int \<lfloor>x\<rfloor> + 1" by linarith
    ultimately show ?thesis using assms by (simp add: algebra_simps)
  qed
  show "x \<le> (of_nat (rounded_root x) + 1 / 2) * (of_nat (rounded_root x) + 1 / 2)"
    using hi by (auto simp: rounded_root_def n_def [symmetric] Let_def algebra_simps)
  show "(of_nat (rounded_root x) - 1 / 2) * (of_nat (rounded_root x) - 1 / 2) \<le> x" if "0 < rounded_root x"
    using lo that by (auto simp: rounded_root_def n_def [symmetric] Let_def algebra_simps split: if_splits)
qed

section \<open>A constant benchmark\<close>

lemma sum_of_const:
  assumes "\<bar>int (length rs) * b\<bar> \<le> 2 ^ 53" "\<bar>b\<bar> \<le> 2 ^ 53"
  shows "sum_of (\<lambda>_. of_i64 b) rs = of_i64 (int (length rs) * b)"
proof -
  have "foldl (\<lambda>acc r. acc + of_i64 b) (of_i64 (int k * b)) rs = of_i64 (int (k + length rs) * b)"
    if "\<bar>int (k + length rs) * b\<bar> \<le> 2 ^ 53" for k
    using that
  proof (induction rs arbitrary: k)
    case (Cons r rs)
    have le: "\<bar>int m * b\<bar> \<le> 2 ^ 53" if "m \<le> k + length (r # rs)" for m
    proof -
      have "\<bar>int m * b\<bar> \<le> \<bar>int (k + length (r # rs)) * b\<bar>"
        using that by (simp add: abs_mult mult_right_mono del: length_Cons)
      then show ?thesis using Cons.prems by linarith
    qed
    have "of_i64 (int k * b) + of_i64 b = of_i64 (int k * b + b)"
      using le [of k] le [of "Suc k"] assms(2) by (intro of_i64_add) (simp_all add: algebra_simps)
    moreover have "int k * b + b = int (Suc k) * b" by (simp add: algebra_simps)
    ultimately show ?case using Cons.IH [of "Suc k"] Cons.prems by simp
  qed simp
  from this [of 0] show ?thesis using assms(1) by (simp add: sum_of_def)
qed

lemma sum_of_zero: "sum_of (\<lambda>_. 0) rs = 0"
proof -
  have "foldl (\<lambda>acc r. acc + 0) 0 rs = (0 :: double)" by (induction rs) simp_all
  then show ?thesis by (simp add: sum_of_def)
qed

lemma mean_of_const:
  assumes "rs \<noteq> []" "int (length rs) < 2 ^ 31" "\<bar>int (length rs) * b\<bar> \<le> 2 ^ 53"
  shows "\<bar>b\<bar> \<le> 2 ^ 53" "sum_of (\<lambda>_. of_i64 b) rs / len_of rs = of_i64 b"
proof -
  define n where "n = int (length rs)"
  have n: "0 < n" "n < 2 ^ 31" using assms(1,2) by (simp_all add: n_def)
  have "1 * \<bar>b\<bar> \<le> n * \<bar>b\<bar>" using n by (intro mult_right_mono) auto
  then show b: "\<bar>b\<bar> \<le> 2 ^ 53" using assms n by (simp add: n_def abs_mult)
  have "of_i64 (n * b) / of_i64 n = of_i64 b"
    using n b assms(3) by (cases "b = 0") (simp_all add: n_def [symmetric] of_i64_Fin f64_ops mk_of_int)
  then show "sum_of (\<lambda>_. of_i64 b) rs / len_of rs = of_i64 b"
    using sum_of_const [of rs b] assms(3) b by (simp add: n_def len_of_def)
qed

lemma zero_times_zero: "(0 :: double) * 0 = 0"
  using of_i64_times [of 0 0] by simp

lemma positive_not_NaN: "positive a \<Longrightarrow> a \<noteq> NaN"
  by (auto simp: positive_def)

text \<open>
  The functions the source repeats under further names are the same functions.
\<close>

lemma repeated_figures:
  "risk_adjusted_return = sharpe_ratio" "risk_return_ratio = sharpe_ratio" "risk_adjusted_sharpe_ratio = sharpe_ratio"
  "risk_adjusted_risk_return_ratio = sharpe_ratio" "risk_adjusted_risk_adjusted_sharpe_ratio = sharpe_ratio"
  "risk_adjusted_sortino_ratio = sortino_ratio" "risk_adjusted_risk_adjusted_sortino_ratio = sortino_ratio"
  "risk_adjusted_omega_ratio = omega_ratio_threshold" "risk_adjusted_risk_adjusted_omega_ratio = omega_ratio_threshold"
  "profit_factor = gain_loss_ratio" "gain_to_pain_ratio = gain_loss_ratio" "risk_adjusted_gain_loss_ratio = gain_loss_ratio"
  "upside_capture_ratio = up_capture_ratio" "downside_capture_ratio = down_capture_ratio" "jensens_alpha = alpha"
  by (intro ext; simp add: risk_adjusted_return_def risk_return_ratio_def risk_adjusted_sharpe_ratio_def
      risk_adjusted_risk_return_ratio_def risk_adjusted_risk_adjusted_sharpe_ratio_def sharpe_ratio_def
      risk_adjusted_sortino_ratio_def risk_adjusted_risk_adjusted_sortino_ratio_def sortino_ratio_def
      risk_adjusted_omega_ratio_def risk_adjusted_risk_adjusted_omega_ratio_def omega_ratio_threshold_def
      profit_factor_def gain_to_pain_ratio_def risk_adjusted_gain_loss_ratio_def gain_loss_ratio_def
      upside_capture_ratio_def up_capture_ratio_def downside_capture_ratio_def down_capture_ratio_def
      jensens_alpha_def alpha_def)+

section \<open>Properties\<close>

text \<open>C34: the maximal drawdown is the deepest fall from a running peak. For positive returns the loop, which only
  looks at new lows since the last peak, computes the largest of all relative falls of a value from
  the highest one before it, and zero when nothing falls.\<close>

theorem max_drawdown_deepest:
  assumes "list_all positive (r # rs)"
  shows "max_drawdown (r # rs) = deepest 0 (falls r rs) \<and>
    0 \<le> max_drawdown (r # rs) \<and> (\<forall>d \<in> set (falls r rs). d \<le> max_drawdown (r # rs)) \<and>
    (max_drawdown (r # rs) = 0 \<or> max_drawdown (r # rs) \<in> set (falls r rs))"
proof -
  have p: "positive r" "list_all positive rs" using assms by simp_all
  have z: "(0 :: double) \<noteq> NaN" by (simp add: zero_double_def)
  have "NaN \<notin> set (falls q qs)" if "positive q" "list_all positive qs" for q qs
    using that
  proof (induction q qs rule: falls.induct)
    case (2 q s qs)
    have "positive (if s > q then s else q)" using 2 by simp
    moreover have "NaN \<noteq> (t - s) / t" if "positive t" "positive s" for t
      using fall_mono [OF that that(2) double_le_refl] that by (auto simp: le_key dest: positive_not_NaN)
    ultimately show ?case using 2 by (auto simp: Let_def)
  qed simp
  then have nan: "NaN \<notin> set (falls r rs)" using p by blast
  have "max_drawdown (r # rs) = deepest 0 (falls r rs)"
    using drawdown_loop_deepest [OF p(2,1) p(1), of 0] fall_self [OF p(1)] z by (simp add: max_drawdown_def)
  then show ?thesis using deepest_max [OF z nan] by auto
qed

lemma max_drawdown_deepest_witness:
  "max_drawdown [of_i64 4, of_i64 2, of_i64 8, of_i64 6] = Fin (1 / 2)"
proof -
  have "list_all positive [of_i64 4, of_i64 2, of_i64 8, of_i64 6]" by (simp add: positive_def less_fin)
  from max_drawdown_deepest [OF this]
  have "max_drawdown [of_i64 4, of_i64 2, of_i64 8, of_i64 6] =
      deepest 0 (falls (of_i64 4) [of_i64 2, of_i64 8, of_i64 6])" by simp
  then show ?thesis
    by (simp add: deepest_def falls.simps of_i64_arith of_i64_Fin Let_def f64_ops flt_key fsub_def)
qed

text \<open>Beta carries no information: the benchmark is one constant, so for a whole number its mean is the
  number, its variance zero, and beta is zero whatever the returns are; Treynor's ratio is then
  always zero and alpha ignores the benchmark up to a zero product.\<close>

theorem beta_is_zero:
  assumes "int (length rs) < 2 ^ 31" "\<bar>int (length rs) * b\<bar> \<le> 2 ^ 53"
  shows "beta rs (of_i64 b) = 0 \<and> treynor_ratio rs (of_i64 b) risk_free_rate = 0 \<and>
    (1 < length rs \<longrightarrow> alpha rs (of_i64 b) risk_free_rate =
       mean_of rs - (risk_free_rate + 0 * (of_i64 b - risk_free_rate)))"
proof -
  have "beta rs (of_i64 b) = 0"
  proof (cases "length rs \<le> 1")
    case False
    then have "rs \<noteq> []" by auto
    from mean_of_const [OF this assms] have d: "of_i64 b - sum_of (\<lambda>_. of_i64 b) rs / len_of rs = 0"
      by (simp add: sub_self)
    show ?thesis by (simp add: beta_def Let_def d zero_times_zero sum_of_zero feq_fin)
  qed (simp add: beta_def)
  then show ?thesis by (simp add: treynor_ratio_def alpha_def feq_fin)
qed

lemma beta_is_zero_witness:
  "beta [of_i64 1, of_i64 7, of_i64 3] (of_i64 2) = 0"
  using beta_is_zero [of "[of_i64 1, of_i64 7, of_i64 3]" 2 0] by simp

text \<open>The value at risk is an order statistic: a return with at most \<open>index\<close> returns below it and more than
  \<open>index\<close> not above it. But a confidence level so small that \<open>1 - confidence_level\<close> rounds to one reads
  behind the end of the array; and the expected shortfall, which averages the returns before that
  index, divides zero by zero when there are none.\<close>

theorem value_at_risk_spec:
  assumes "NaN \<notin> set rs" "rs \<noteq> []" "0 < c" "c < 1"
  defines "index \<equiv> nat (tail_index c (length rs))"
  shows "(index < length rs \<longrightarrow>
      (\<exists>v \<in> set rs. value_at_risk rs c = Some v \<and>
         length (filter (\<lambda>r. r < v) rs) \<le> index \<and> index < length (filter (\<lambda>r. r \<le> v) rs))) \<and>
    (length rs \<le> index \<longrightarrow> value_at_risk rs c = None) \<and>
    (index = 0 \<longrightarrow> expected_shortfall rs c = Some NaN)"
proof -
  have c: "c \<noteq> NaN" "\<not> c \<le> 0" "\<not> c \<ge> 1"
    using less_not_NaN [OF assms(3)] less_not_NaN [OF assms(4)] assms(3,4) double_not_le by blast+
  obtain ys where ys: "std_sort rs = Some ys" using assms(1) by (auto simp: std_sort_def)
  note m = mset_std_sort [OF ys] and len = length_std_sort [OF ys]
  have set: "set ys = set rs" using m by (rule mset_eq_setD)
  then have nan: "NaN \<notin> set ys" using assms(1) by simp
  have v: "value_at_risk rs c = (if index < length ys then Some (ys ! index) else None)"
    using c assms(2) ys by (simp add: value_at_risk_def index_def Let_def)
  have "\<exists>v \<in> set rs. value_at_risk rs c = Some v \<and>
      length (filter (\<lambda>r. r < v) rs) \<le> index \<and> index < length (filter (\<lambda>r. r \<le> v) rs)" if i: "index < length rs"
  proof (intro bexI [of _ "ys ! index"] conjI)
    show "ys ! index \<in> set rs" using i len set nth_mem [of index ys] by simp
    show "length (filter (\<lambda>r. r < ys ! index) rs) \<le> index" "index < length (filter (\<lambda>r. r \<le> ys ! index) rs)"
      using sorted_counts [OF sorted_std_sort [OF ys] _ nan] i len mset_filter_length [OF m] by simp_all
  qed (use v i len in simp)
  moreover have "expected_shortfall rs c = Some NaN" if "index = 0"
    using c assms(2) ys that by (simp add: expected_shortfall_def index_def [symmetric] Let_def sum_of_def f64_ops)
  ultimately show ?thesis using v len by simp
qed

lemma value_at_risk_spec_witness:
  "expected_shortfall [of_i64 3, of_i64 1, of_i64 2] (Fin (3 / 4)) = Some NaN"
proof -
  have "\<lfloor>3 / 4 :: rat\<rfloor> = 0" by (simp add: floor_eq_iff)
  then have "tail_index (Fin (3 / 4)) 3 = 0"
    by (simp add: tail_index_def f64_ops fsub_def of_i64_Fin trunc_rat_def)
  then show ?thesis
    using value_at_risk_spec [of "[of_i64 3, of_i64 1, of_i64 2]" "Fin (3 / 4)"]
    by (simp add: of_i64_Fin less_key zero_double_def one_double_def eval_nat_numeral)
qed

end
