(* ===== verification/Strategy.thy ===== *)
theory Strategy
  imports Engines
begin

text \<open>
  What the user's strategies share (src/strategy/strategy.h, src/strategy/executor.h): the calls they
  make on the executor, the entries they read from the JSON configuration, and the contract under
  which a strategy runs in the engine. The JSON library is outside the repository: an entry is absent,
  has a type the code's \<open>get\<close> refuses with an exception, or gives a value.

  The locale \<open>strategy_contract\<close> states what a strategy promises about its state and its requests;
  its lemmas carry that promise through the handlers of the strategies' engine.
\<close>

section \<open>Calls on the executor\<close>

datatype ExecCall = Call_insert string string OrderInput | Call_cancel u64

text \<open>The account a call is for, which is the account of the order when one is cancelled.\<close>

fun call_request :: "u32 \<Rightarrow> ExecCall \<Rightarrow> Request" where
  "call_request home (Call_insert institution account order) = Req_insert (jid_build institution account) order"
| "call_request home (Call_cancel order_id) =
     Req_cancel (ucast (drop_bit 32 order_id) XOR home) (OrderCancel_zero\<lparr> oc_target_order_id := order_id \<rparr>)"

section \<open>Entries of the configuration\<close>

datatype 'a entry = Absent | Mistyped | Given 'a

text \<open>
  One \<open>if (cfg.contains(..))\<close> of a setup. The flag is false once an exception has been thrown;
  then nothing further is read.
\<close>

fun read_entry :: "'a entry \<Rightarrow> ('a \<Rightarrow> 's \<Rightarrow> 's) \<Rightarrow> 's \<times> bool \<Rightarrow> 's \<times> bool" where
  "read_entry e f (s, False) = (s, False)"
| "read_entry Absent f (s, True) = (s, True)"
| "read_entry Mistyped f (s, True) = (s, False)"
| "read_entry (Given v) f (s, True) = (f v s, True)"

lemma read_entry_inv [inv_intros]:
  "\<lbrakk> P (fst r); \<And>v s. \<lbrakk> e = Given v; P s \<rbrakk> \<Longrightarrow> P (f v s) \<rbrakk> \<Longrightarrow> P (fst (read_entry e f r))"
  by (cases "(e, f, r)" rule: read_entry.cases) auto

lemma read_entry_ok: "snd (read_entry e f r) \<longleftrightarrow> snd r \<and> e \<noteq> Mistyped"
  by (cases "(e, f, r)" rule: read_entry.cases) auto

section \<open>A strategy in the engine\<close>

text \<open>Events one after the other, as the event loop hands them to the engine.\<close>

fun cp_run ::
    "'s strategy list \<Rightarrow> (Event \<times> u32) list \<Rightarrow> DepthMem \<Rightarrow> 's CPEngine \<Rightarrow> (outbox \<times> DepthMem \<times> 's CPEngine) option" where
  "cp_run strats [] mem cp = Some ([], mem, cp)"
| "cp_run strats ((ev, source) # evs) mem cp =
     (case cp_react strats ev source mem cp of
        None \<Rightarrow> None
      | Some (out, mem, cp) \<Rightarrow>
          map_option (\<lambda>(outs, mem, cp). (out @ outs, mem, cp)) (cp_run strats evs mem cp))"

text \<open>The messages of the engine itself: termination to all, and the sync signals.\<close>

definition engine_own :: "Channel \<times> Event \<Rightarrow> bool" where
  "engine_own m \<longleftrightarrow> snd m = Ev_Termination \<or> (\<exists>flag. snd m = Ev_Sync flag)"

text \<open>An engine with nothing in it but its strategies.\<close>

definition sample_engine :: "'s \<Rightarrow> 's CPEngine" where
  "sample_engine s = \<lparr> cp_live = True, cp_begin_time = 5, cp_pre_start = True, cp_trading_msg_count = 0,
     cp_md_account_count = 1, cp_book = Book_empty, cp_td_dests = [], cp_is_backtest = True,
     cp_is_simulation = False, cp_stats_all = False, cp_stats = [],
     cp_board = \<lparr> db_is_writing = False, db_positions = [] \<rparr>, cp_strategy_state = s \<rparr>"

locale strategy_contract =
  fixes f :: "'s strategy" and inv :: "'s \<Rightarrow> bool" and may_send :: "Request \<Rightarrow> bool"
  assumes keeps: "inv s \<Longrightarrow> inv (fst (f cb book s))"
    and sends: "\<lbrakk> inv s; r \<in> set (snd (f cb book s)) \<rbrakk> \<Longrightarrow> may_send r"
begin

definition allowed :: "outbox \<Rightarrow> bool" where
  "allowed out \<longleftrightarrow> (\<forall>m \<in> set out. engine_own m \<or> (\<exists>r. may_send r \<and> m = request_event r))"

lemma allowed_append: "allowed (xs @ ys) \<longleftrightarrow> allowed xs \<and> allowed ys"
  by (auto simp: allowed_def)

definition good :: "outbox \<times> 's CPEngine \<Rightarrow> bool" where
  "good r \<longleftrightarrow> inv (cp_strategy_state (snd r)) \<and> allowed (fst r)"

lemma good_nil: "inv (cp_strategy_state cp) \<Longrightarrow> good ([], cp)"
  by (simp add: good_def allowed_def)

lemma good_invoke: "inv (cp_strategy_state cp) \<Longrightarrow> good (invoke [f] cb cp)"
  using keeps [of "cp_strategy_state cp" cb "cp_book cp"] sends [of "cp_strategy_state cp" _ cb "cp_book cp"]
  by (auto simp: good_def allowed_def split_beta)

text \<open>What a handler changes around the call of the strategy is not the strategy's state.\<close>

lemma good_then: "\<lbrakk> good r; cp_strategy_state cp = cp_strategy_state (snd r) \<rbrakk> \<Longrightarrow> good (fst r, cp)"
  by (simp add: good_def)

lemma state_log [simp]: "cp_strategy_state (cp_log recs cp) = cp_strategy_state cp"
  by (simp add: cp_log_def)

lemma good_handlers:
  assumes "inv (cp_strategy_state cp)"
  shows "good (cp_on_bar [f] bar source cp)" "good (cp_on_trade [f] trade source cp)"
    "good (cp_on_asset_sync_reset [f] asset source cp)" "good (cp_on_asset_margin_sync_reset [f] am source cp)"
    "good (cp_on_termination cp)" "good (cp_on_backtest_sync_signal flag, cp)"
proof -
  show "good (cp_on_bar [f] bar source cp)" unfolding cp_on_bar_def Let_def split_beta
    by (rule good_then [OF good_invoke]) (simp_all add: assms del: invoke.simps)
  show "good (cp_on_trade [f] trade source cp)" unfolding cp_on_trade_def
    by (rule good_invoke) (simp add: assms)
  show "good (cp_on_asset_sync_reset [f] asset source cp)" unfolding cp_on_asset_sync_reset_def Let_def split_beta
    by (rule good_then [OF good_invoke]) (simp_all add: assms del: invoke.simps)
  show "good (cp_on_asset_margin_sync_reset [f] am source cp)"
    unfolding cp_on_asset_margin_sync_reset_def Let_def split_beta
    by (rule good_then [OF good_invoke]) (simp_all add: assms del: invoke.simps)
  show "good (cp_on_termination cp)" using assms
    by (auto simp: good_def cp_on_termination_def allowed_def to_all_writers_def engine_own_def)
  show "good (cp_on_backtest_sync_signal flag, cp)" using assms
    by (auto simp: good_def cp_on_backtest_sync_signal_def allowed_def engine_own_def split: SyncFlag.splits)
qed

lemma good_trading_day:
  "\<lbrakk> cp_on_trading_day [f] t cp = Some r; inv (cp_strategy_state cp) \<rbrakk> \<Longrightarrow> good r"
  by (auto simp: cp_on_trading_day_def Let_def simp del: invoke.simps split: if_splits intro!: good_invoke good_nil)

lemma good_quote:
  assumes "cp_on_quote [f] q source mem cp = Some (out, mem', cp')" "inv (cp_strategy_state cp)"
  shows "good (out, cp')"
proof -
  obtain c where "invoke [f] (Cb_event (Ev_Quote q) source) c = (out, cp')" "cp_strategy_state c = cp_strategy_state cp"
    using assms(1) by (auto simp: cp_on_quote_def Let_def simp del: invoke.simps split: option.splits if_splits prod.splits)
  then show ?thesis using good_invoke [of c "Cb_event (Ev_Quote q) source"] assms(2) by simp
qed

lemma good_keeping: "\<lbrakk> keeping mem r = Some (out, mem', cp'); good r \<rbrakk> \<Longrightarrow> good (out, cp')"
  by (cases r) (auto simp: keeping_def)

lemma good_react:
  assumes "cp_react [f] ev source mem cp = Some (out, mem', cp')" "inv (cp_strategy_state cp)"
  shows "good (out, cp')"
proof (cases ev)
  case (Ev_TradingDay t)
  then obtain r where r: "cp_on_trading_day [f] t cp = Some r" "keeping mem r = Some (out, mem', cp')"
    using assms(1) by (auto simp: Option.bind_eq_Some_conv)
  show ?thesis by (rule good_keeping [OF r(2) good_trading_day [OF r(1) assms(2)]])
next
  case (Ev_Quote q)
  then show ?thesis using assms by (simp add: good_quote)
qed (use assms in \<open>auto simp del: invoke.simps split: if_splits
       elim!: good_keeping intro: good_handlers good_invoke good_nil\<close>)

lemma good_run:
  assumes "cp_run [f] evs mem cp = Some (out, mem', cp')" "inv (cp_strategy_state cp)"
  shows "good (out, cp')"
  using assms
proof (induction evs arbitrary: mem cp out)
  case (Cons e evs)
  obtain ev source where e: "e = (ev, source)" by (cases e)
  obtain out1 mem1 cp1 out2 where s: "cp_react [f] ev source mem cp = Some (out1, mem1, cp1)"
    "cp_run [f] evs mem1 cp1 = Some (out2, mem', cp')" "out = out1 @ out2"
    using Cons.prems(1) by (auto simp: e split: option.splits)
  have g: "good (out1, cp1)" using s(1) Cons.prems(2) by (rule good_react)
  then have "good (out2, cp')" using Cons.IH [OF s(2)] by (simp add: good_def)
  with g s(3) show ?case by (simp add: good_def allowed_append)
qed (simp add: good_nil)

end

end
