(* ===== verification/ConsecutiveBar.thy ===== *)
theory ConsecutiveBar
  imports Strategy
begin

text \<open>
  The consecutive bar strategy (src/strategies/consecutive_bar_strategy.h and .cpp): buy after two bars
  up, sell after two bars down, leave at a loss or at a profit. A handler returns the calls it makes
  on the executor and the strategy; it is \<open>None\<close> where an assignment writes behind an array. The
  reading of the system clock, in milliseconds, is an argument. The id counter is a static variable
  of the process; here it is a field. Printing is left out, and the counter of bars is an integer.
\<close>

section \<open>State\<close>

record CbConfig =
  cc_min_bars :: int
  cc_max_position :: double
  cc_stop_loss :: double
  cc_take_profit :: double
  cc_risk_per_trade :: double
  cc_max_drawdown :: double
  cc_enable_quote_trading :: bool

record CbState =
  cb_bar_history :: "Bar list"
  cb_position_opened :: bool
  cb_entry_price :: double
  cb_current_position :: double
  cb_consecutive_up_bars :: int
  cb_consecutive_down_bars :: int
  cb_bar_count :: int

record ConsecutiveBar =
  cs_config :: CbConfig
  cs_state :: CbState
  cs_symbol :: string
  cs_institution :: string
  cs_account :: string
  cs_last_trade_time :: int
  cs_total_pnl :: double
  cs_max_drawdown :: double
  cs_peak_equity :: double
  cs_active_orders :: "(u64, Order) umap"
  cs_trade_history :: "Trade list"
  cs_next_order_id :: u64

definition MAX_BAR_HISTORY :: nat where "MAX_BAR_HISTORY = 50"
definition MAX_TRADE_HISTORY :: nat where "MAX_TRADE_HISTORY = 1000"
definition MIN_TRADE_INTERVAL :: int where "MIN_TRADE_INTERVAL = 1000"

definition CbConfig_default :: CbConfig where
  "CbConfig_default = \<lparr> cc_min_bars = 3, cc_max_position = lit 1000, cc_stop_loss = lit (2 / 100), cc_take_profit = lit (3 / 100),
     cc_risk_per_trade = lit (1 / 100), cc_max_drawdown = lit (10 / 100), cc_enable_quote_trading = False \<rparr>"

definition CbState_init :: CbState where
  "CbState_init = \<lparr> cb_bar_history = [], cb_position_opened = False, cb_entry_price = 0, cb_current_position = 0,
     cb_consecutive_up_bars = 0, cb_consecutive_down_bars = 0, cb_bar_count = 0 \<rparr>"

definition ConsecutiveBar_new :: "u64 \<Rightarrow> ConsecutiveBar" where
  "ConsecutiveBar_new next_order_id =
     \<lparr> cs_config = CbConfig_default, cs_state = CbState_init, cs_symbol = [], cs_institution = [], cs_account = [],
       cs_last_trade_time = 0, cs_total_pnl = 0, cs_max_drawdown = 0, cs_peak_equity = 0,
       cs_active_orders = [], cs_trade_history = [], cs_next_order_id = next_order_id \<rparr>"

abbreviation upd_config :: "(CbConfig \<Rightarrow> CbConfig) \<Rightarrow> ConsecutiveBar \<Rightarrow> ConsecutiveBar" where
  "upd_config f s \<equiv> s\<lparr> cs_config := f (cs_config s) \<rparr>"

abbreviation upd_state :: "(CbState \<Rightarrow> CbState) \<Rightarrow> ConsecutiveBar \<Rightarrow> ConsecutiveBar" where
  "upd_state f s \<equiv> s\<lparr> cs_state := f (cs_state s) \<rparr>"

section \<open>Setup\<close>

record CbJson =
  js_symbol :: "string entry"
  js_institution :: "string entry"
  js_account :: "string entry"
  js_min_bars :: "int entry"
  js_max_position :: "double entry"
  js_stop_loss :: "double entry"
  js_take_profit :: "double entry"
  js_risk_per_trade :: "double entry"
  js_max_drawdown :: "double entry"
  js_enable_quote_trading :: "bool entry"

text \<open>A rate outside its range is replaced by the default.\<close>

definition checked_rate :: "double \<Rightarrow> double \<Rightarrow> double \<Rightarrow> double" where
  "checked_rate upper fallback v = (if v \<le> 0 \<or> v > upper then fallback else v)"

definition stop_below_profit :: "CbConfig \<Rightarrow> CbConfig" where
  "stop_below_profit c =
     (if cc_stop_loss c \<ge> cc_take_profit c then c\<lparr> cc_stop_loss := cc_take_profit c * lit (8 / 10) \<rparr> else c)"

text \<open>An exception leaves what has been set so far, and skips the last check too.\<close>

definition cb_read :: "CbJson \<Rightarrow> ConsecutiveBar \<Rightarrow> ConsecutiveBar \<times> bool" where
  "cb_read cfg s =
     (let r = (s, True);
          r = read_entry (js_symbol cfg) (\<lambda>v s. s\<lparr> cs_symbol := v \<rparr>) r;
          r = read_entry (js_institution cfg) (\<lambda>v s. s\<lparr> cs_institution := v \<rparr>) r;
          r = read_entry (js_account cfg) (\<lambda>v s. s\<lparr> cs_account := v \<rparr>) r;
          r = read_entry (js_min_bars cfg) (\<lambda>v. upd_config (cc_min_bars_update (\<lambda>_. if v < 3 then 3 else v))) r;
          r = read_entry (js_max_position cfg)
                (\<lambda>v. upd_config (cc_max_position_update (\<lambda>_. if v \<le> 0 then lit 1000 else v))) r;
          r = read_entry (js_stop_loss cfg)
                (\<lambda>v. upd_config (cc_stop_loss_update (\<lambda>_. checked_rate (lit (5 / 10)) (lit (2 / 100)) v))) r;
          r = read_entry (js_take_profit cfg)
                (\<lambda>v. upd_config (cc_take_profit_update (\<lambda>_. checked_rate (lit (5 / 10)) (lit (3 / 100)) v))) r;
          r = read_entry (js_risk_per_trade cfg)
                (\<lambda>v. upd_config (cc_risk_per_trade_update (\<lambda>_. checked_rate (lit (1 / 10)) (lit (1 / 100)) v))) r;
          r = read_entry (js_max_drawdown cfg)
                (\<lambda>v. upd_config (cc_max_drawdown_update (\<lambda>_. checked_rate (lit (5 / 10)) (lit (10 / 100)) v))) r
      in read_entry (js_enable_quote_trading cfg) (\<lambda>v. upd_config (cc_enable_quote_trading_update (\<lambda>_. v))) r)"

definition cb_setup :: "CbJson \<Rightarrow> ConsecutiveBar \<Rightarrow> ConsecutiveBar" where
  "cb_setup cfg s = (let (s, ok) = cb_read cfg s in if ok then upd_config stop_below_profit s else s)"

definition cb_pre_start :: "ConsecutiveBar \<Rightarrow> ConsecutiveBar" where
  "cb_pre_start s =
     (upd_state (\<lambda>st. st\<lparr> cb_bar_count := 0, cb_position_opened := False, cb_current_position := 0,
          cb_consecutive_up_bars := 0, cb_consecutive_down_bars := 0, cb_bar_history := [] \<rparr>) s)
        \<lparr> cs_total_pnl := 0, cs_max_drawdown := 0, cs_peak_equity := 0 \<rparr>"

section \<open>Signals\<close>

text \<open>\<open>push_back\<close>, then \<open>pop_front\<close> when the deque has grown beyond its bound.\<close>

definition push_bounded :: "nat \<Rightarrow> 'a \<Rightarrow> 'a list \<Rightarrow> 'a list" where
  "push_bounded bound x xs = (let xs = xs @ [x] in if bound < length xs then tl xs else xs)"

definition update_bar_history :: "Bar \<Rightarrow> ConsecutiveBar \<Rightarrow> ConsecutiveBar" where
  "update_bar_history bar = upd_state (cb_bar_history_update (push_bounded MAX_BAR_HISTORY bar))"

definition analyze_consecutive_bars :: "ConsecutiveBar \<Rightarrow> ConsecutiveBar" where
  "analyze_consecutive_bars = upd_state (\<lambda>st.
     (let st' = st\<lparr> cb_consecutive_up_bars := 0, cb_consecutive_down_bars := 0 \<rparr>
      in case rev (cb_bar_history st) of
           current_bar # previous_bar # _ \<Rightarrow>
             if bar_close current_bar > bar_open current_bar
             then st'\<lparr> cb_consecutive_up_bars := if bar_close previous_bar > bar_open previous_bar then 2 else 1 \<rparr>
             else if bar_close current_bar < bar_open current_bar
             then st'\<lparr> cb_consecutive_down_bars := if bar_close previous_bar < bar_open previous_bar then 2 else 1 \<rparr>
             else st'
         | _ \<Rightarrow> st'))"

definition should_buy :: "ConsecutiveBar \<Rightarrow> bool" where
  "should_buy s \<longleftrightarrow> cb_consecutive_up_bars (cs_state s) \<ge> 2 \<and> \<not> cb_position_opened (cs_state s) \<and>
     cs_max_drawdown s \<le> cc_max_drawdown (cs_config s)"

definition should_sell :: "ConsecutiveBar \<Rightarrow> bool" where
  "should_sell s \<longleftrightarrow> cb_consecutive_down_bars (cs_state s) \<ge> 2 \<and> \<not> cb_position_opened (cs_state s) \<and>
     cs_max_drawdown s \<le> cc_max_drawdown (cs_config s)"

section \<open>Orders\<close>

definition generate_order_id :: "ConsecutiveBar \<Rightarrow> u64 \<times> ConsecutiveBar" where
  "generate_order_id s = (cs_next_order_id s, s\<lparr> cs_next_order_id := cs_next_order_id s + 1 \<rparr>)"

definition available_capital :: double where "available_capital = lit 100000"

definition calculate_position_size :: "CbConfig \<Rightarrow> double \<Rightarrow> double" where
  "calculate_position_size c price =
     (let risk_amount = available_capital * cc_risk_per_trade c;
          position_size = risk_amount / price;
          position_size = (if position_size > cc_max_position c then cc_max_position c else position_size)
      in if position_size < 1 then 1 else position_size)"

definition execute_trade :: "double \<Rightarrow> bool \<Rightarrow> ConsecutiveBar \<Rightarrow> (ExecCall list \<times> ConsecutiveBar) option" where
  "execute_trade price is_buy s =
     (let position_size = calculate_position_size (cs_config s) price;
          (order_id, s) = generate_order_id s
      in case (arr_assign_cstr (arr_zero INSTRUMENT_ID_LEN) (cs_symbol s),
               arr_assign_cstr (arr_zero EXCHANGE_ID_LEN) (cs_institution s)) of
           (Some instrument_id, Some exchange_id) \<Rightarrow>
             Some ([Call_insert (cs_institution s) (cs_account s)
                      (OrderInput_zero\<lparr> oi_order_id := order_id, oi_instrument_id := instrument_id,
                         oi_exchange_id := exchange_id, oi_instrument_type := IT_Stock, oi_limit_price := price,
                         oi_volume := position_size, oi_side := (if is_buy then Side_Buy else Side_Sell),
                         oi_offset := Offset_Open, oi_price_type := Price_Limit, oi_volume_condition := VC_Any,
                         oi_time_condition := TC_GFD \<rparr>)], s)
         | _ \<Rightarrow> None)"

definition close_position :: "double \<Rightarrow> bool \<Rightarrow> ConsecutiveBar \<Rightarrow> (ExecCall list \<times> ConsecutiveBar) option" where
  "close_position price is_buy s =
     (if feq (cb_current_position (cs_state s)) 0 then Some ([], s)
      else let close_volume = \<bar>cb_current_position (cs_state s)\<bar>;
               (order_id, s) = generate_order_id s
           in case (arr_assign_cstr (arr_zero INSTRUMENT_ID_LEN) (cs_symbol s),
                    arr_assign_cstr (arr_zero EXCHANGE_ID_LEN) ''DEFAULT_EXCHANGE'') of
                (Some instrument_id, Some exchange_id) \<Rightarrow>
                  Some ([Call_insert (cs_institution s) (cs_account s)
                           (OrderInput_zero\<lparr> oi_order_id := order_id, oi_instrument_id := instrument_id,
                              oi_exchange_id := exchange_id, oi_instrument_type := IT_Stock, oi_limit_price := price,
                              oi_volume := close_volume, oi_side := (if is_buy then Side_Buy else Side_Sell),
                              oi_offset := Offset_Close, oi_price_type := Price_Limit, oi_volume_condition := VC_All,
                              oi_time_condition := TC_IOC \<rparr>)], s)
              | _ \<Rightarrow> None)"

text \<open>One step after the other, the calls in order.\<close>

definition and_then ::
    "(ExecCall list \<times> 's) option \<Rightarrow> ('s \<Rightarrow> (ExecCall list \<times> 's) option) \<Rightarrow> (ExecCall list \<times> 's) option" where
  "and_then r g = Option.bind r (\<lambda>(calls, s). map_option (\<lambda>(more, s). (calls @ more, s)) (g s))"

definition check_exit_conditions :: "double \<Rightarrow> ConsecutiveBar \<Rightarrow> (ExecCall list \<times> ConsecutiveBar) option" where
  "check_exit_conditions current_price s =
     (let st = cs_state s
      in if \<not> cb_position_opened st \<or> feq (cb_entry_price st) 0 then Some ([], s)
         else
           let price_change = (current_price - cb_entry_price st) / cb_entry_price st;
               stop_loss = cc_stop_loss (cs_config s); take_profit = cc_take_profit (cs_config s);
               position = cb_current_position st
           in and_then
                (if position > 0 \<and> price_change < - stop_loss then close_position current_price False s
                 else if position < 0 \<and> price_change > stop_loss then close_position current_price True s
                 else Some ([], s))
                (\<lambda>s. if position > 0 \<and> price_change > take_profit then close_position current_price False s
                     else if position < 0 \<and> price_change < - take_profit then close_position current_price True s
                     else Some ([], s)))"

section \<open>Callbacks\<close>

definition cb_on_quote :: "Quote \<Rightarrow> ConsecutiveBar \<Rightarrow> (ExecCall list \<times> ConsecutiveBar) option" where
  "cb_on_quote quote s =
     (if \<not> cc_enable_quote_trading (cs_config s) then Some ([], s)
      else let mid_price =
                 (case (qt_bid_price quote, qt_ask_price quote) of
                    (bid # _, ask # _) \<Rightarrow> (bid + ask) / lit 2
                  | _ \<Rightarrow> qt_last_price quote)
           in check_exit_conditions mid_price s)"

text \<open>What \<open>on_bar\<close> does after the exits, and the whole callback.\<close>

definition enter_on_signal :: "int \<Rightarrow> double \<Rightarrow> ConsecutiveBar \<Rightarrow> (ExecCall list \<times> ConsecutiveBar) option" where
  "enter_on_signal current_time price s =
     (if cb_bar_count (cs_state s) \<ge> cc_min_bars (cs_config s) \<and>
         current_time - cs_last_trade_time s > MIN_TRADE_INTERVAL
      then if should_buy s
           then map_option (\<lambda>(calls, s). (calls, s\<lparr> cs_last_trade_time := current_time \<rparr>)) (execute_trade price True s)
           else if should_sell s
           then map_option (\<lambda>(calls, s). (calls, s\<lparr> cs_last_trade_time := current_time \<rparr>)) (execute_trade price False s)
           else Some ([], s)
      else Some ([], s))"

definition cb_on_bar :: "int \<Rightarrow> Bar \<Rightarrow> ConsecutiveBar \<Rightarrow> (ExecCall list \<times> ConsecutiveBar) option" where
  "cb_on_bar current_time bar s =
     (let s = analyze_consecutive_bars (update_bar_history bar s);
          s = upd_state (cb_bar_count_update (\<lambda>n. n + 1)) s
      in and_then (check_exit_conditions (bar_close bar) s) (enter_on_signal current_time (bar_close bar)))"

definition cb_on_order :: "Order \<Rightarrow> ConsecutiveBar \<Rightarrow> ConsecutiveBar" where
  "cb_on_order order s =
     (let active = umap_assign Order_assign Order_zero (od_order_id order) order (cs_active_orders s)
      in s\<lparr> cs_active_orders :=
             (if od_status order \<in> {OS_Filled, OS_Cancelled, OS_Error}
              then umap_erase (od_order_id order) active else active) \<rparr>)"

definition update_pnl_tracking :: "Trade \<Rightarrow> ConsecutiveBar \<Rightarrow> ConsecutiveBar" where
  "update_pnl_tracking trade s =
     (let entry_price = cb_entry_price (cs_state s)
      in if entry_price > 0
         then
           let pnl = (if tr_side trade = Side_Buy then (tr_price trade - entry_price) * tr_volume trade
                      else (entry_price - tr_price trade) * tr_volume trade);
               total_pnl = cs_total_pnl s + pnl;
               current_equity = lit 100000 + total_pnl;
               peak_equity = (if current_equity > cs_peak_equity s then current_equity else cs_peak_equity s);
               drawdown = (peak_equity - current_equity) / peak_equity
           in s\<lparr> cs_total_pnl := total_pnl, cs_peak_equity := peak_equity,
                 cs_max_drawdown := (if drawdown > cs_max_drawdown s then drawdown else cs_max_drawdown s) \<rparr>
         else s)"

definition cb_on_trade :: "Trade \<Rightarrow> ConsecutiveBar \<Rightarrow> ConsecutiveBar" where
  "cb_on_trade trade s =
     (let s = upd_state (\<lambda>st.
            (let position = (case tr_side trade of
                               Side_Buy \<Rightarrow> cb_current_position st + tr_volume trade
                             | Side_Sell \<Rightarrow> cb_current_position st - tr_volume trade
                             | _ \<Rightarrow> cb_current_position st);
                 st = st\<lparr> cb_current_position := position \<rparr>
             in if \<not> feq position 0
                then st\<lparr> cb_position_opened := True,
                         cb_entry_price := (if feq \<bar>position\<bar> (tr_volume trade) then tr_price trade else cb_entry_price st) \<rparr>
                else st\<lparr> cb_position_opened := False, cb_entry_price := 0 \<rparr>)) s
      in update_pnl_tracking trade (s\<lparr> cs_trade_history := push_bounded MAX_TRADE_HISTORY trade (cs_trade_history s) \<rparr>))"

definition calculate_net_position :: "PositionBook \<Rightarrow> double" where
  "calculate_net_position position_book =
     (let net = foldl (\<lambda>net p. if ps_volume p > 0 then net + ps_volume p else net) 0 (umap_values (pb_long position_book))
      in foldl (\<lambda>net p. if ps_volume p > 0 then net - ps_volume p else net) net (umap_values (pb_short position_book)))"

definition cb_on_position_sync_reset :: "PositionBook \<Rightarrow> ConsecutiveBar \<Rightarrow> ConsecutiveBar" where
  "cb_on_position_sync_reset new_book s = upd_state (\<lambda>st.
     (let st = st\<lparr> cb_current_position := calculate_net_position new_book \<rparr>
      in if \<not> feq (cb_current_position st) 0
         then st\<lparr> cb_position_opened := True,
                  cb_entry_price := (if cs_trade_history s \<noteq> [] then tr_price (last (cs_trade_history s))
                                     else cb_entry_price st) \<rparr>
         else st\<lparr> cb_position_opened := False, cb_entry_price := 0 \<rparr>)) s"

definition close_all_positions :: "ConsecutiveBar \<Rightarrow> (ExecCall list \<times> ConsecutiveBar) option" where
  "close_all_positions s =
     (if feq (cb_current_position (cs_state s)) 0 then Some ([], s)
      else
        let history = cb_bar_history (cs_state s);
            current_price = (if history \<noteq> [] then bar_close (last history) else 0)
        in and_then
             (if current_price > 0 then close_position current_price (cb_current_position (cs_state s) < 0) s else Some ([], s))
             (\<lambda>s. Some (List.map (\<lambda>(order_id, order). Call_cancel order_id)
                          (filter (\<lambda>(order_id, order). od_status order = OS_Pending \<or> od_status order = OS_Submitted)
                             (cs_active_orders s)), s)))"

definition cb_pre_stop :: "ConsecutiveBar \<Rightarrow> (ExecCall list \<times> ConsecutiveBar) option" where
  "cb_pre_stop s =
     (if cb_position_opened (cs_state s) \<and> \<not> feq (cb_current_position (cs_state s)) 0 then close_all_positions s
      else Some ([], s))"

section \<open>In the engine\<close>

text \<open>
  The callbacks the engine makes; the others are inherited and empty. The clock gives a reading for
  each; after an undefined step the state is \<open>None\<close>.
\<close>

fun cb_callback :: "int \<Rightarrow> Callback \<Rightarrow> ConsecutiveBar \<Rightarrow> (ExecCall list \<times> ConsecutiveBar) option" where
  "cb_callback now Cb_pre_start s = Some ([], cb_pre_start s)"
| "cb_callback now (Cb_event (Ev_Bar bar) source) s = cb_on_bar now bar s"
| "cb_callback now (Cb_event (Ev_Quote quote) source) s = cb_on_quote quote s"
| "cb_callback now (Cb_event (Ev_Trade trade) source) s = Some ([], cb_on_trade trade s)"
| "cb_callback now _ s = Some ([], s)"

definition cb_strategy :: "(nat \<Rightarrow> int) \<Rightarrow> u32 \<Rightarrow> (nat \<times> ConsecutiveBar) option strategy" where
  "cb_strategy clock home cb book state =
     (case state of
        None \<Rightarrow> (None, [])
      | Some (n, s) \<Rightarrow>
          (case cb_callback (clock n) cb s of
             None \<Rightarrow> (None, [])
           | Some (calls, s) \<Rightarrow> (Some (n + 1, s), List.map (call_request home) calls)))"

section \<open>The configuration\<close>

definition in_rate :: "rat \<Rightarrow> double \<Rightarrow> bool" where
  "in_rate upper v \<longleftrightarrow> wf_double v \<and> 0 < v \<and> v \<le> lit upper"

definition valid_config :: "CbConfig \<Rightarrow> bool" where
  "valid_config c \<longleftrightarrow> 3 \<le> cc_min_bars c \<and> 0 < cc_max_position c \<and> in_rate (5 / 10) (cc_stop_loss c) \<and>
     in_rate (5 / 10) (cc_take_profit c) \<and> in_rate (1 / 10) (cc_risk_per_trade c) \<and> in_rate (5 / 10) (cc_max_drawdown c)"

text \<open>A number the JSON library reads is a number, and one of the format.\<close>

fun number_entry :: "double entry \<Rightarrow> bool" where
  "number_entry (Given v) \<longleftrightarrow> v \<noteq> NaN \<and> wf_double v"
| "number_entry _ \<longleftrightarrow> True"

definition number_entries :: "CbJson \<Rightarrow> bool" where
  "number_entries cfg \<longleftrightarrow> list_all number_entry
     [js_max_position cfg, js_stop_loss cfg, js_take_profit cfg, js_risk_per_trade cfg, js_max_drawdown cfg]"

lemma lit_pos: "1 / 1024 \<le> q \<Longrightarrow> 0 < lit q"
  using double_less_le_trans [of 0 "Fin (1 / 1024)" "lit q"] mk_mono [of "1 / 1024" q False False] mk_dyadic [of 1 10 False]
  by (simp add: lit_def f64_ops flt_def)

lemma lit_mono: "p \<le> q \<Longrightarrow> lit p \<le> lit q"
  by (simp add: lit_def mk_mono)

lemma in_rate_lit: "\<lbrakk> 1 / 1024 \<le> q; q \<le> u \<rbrakk> \<Longrightarrow> in_rate u (lit q)"
  by (simp add: in_rate_def lit_pos lit_mono)

lemma in_rate_checked:
  assumes "number_entry (Given v)" "in_rate u (lit q)"
  shows "in_rate u (checked_rate (lit u) (lit q) v)"
proof -
  have "v \<noteq> NaN" "wf_double v" "lit u \<noteq> NaN" "(0 :: double) \<noteq> NaN" using assms(1) by (simp_all add: lit_def zero_double_def)
  then show ?thesis using assms(2) double_not_le [of v 0] double_not_less [of "lit u" v]
    by (auto simp: checked_rate_def in_rate_def)
qed

text \<open>Four fifths of a positive number of the format, rounded, are positive and no more than it.\<close>

lemma grid_least:
  assumes "on_grid q" "0 < q"
  shows "2 powi (- 1074) \<le> q"
proof -
  have "q = of_int (rne (q / 2 powi ulp_exp q)) * 2 powi ulp_exp q"
    using assms by (simp add: on_grid_def fl_def flp_def Let_def)
  moreover define n where "n = rne (q / 2 powi ulp_exp q)"
  ultimately have q: "q = of_int n * 2 powi ulp_exp q" by simp
  then have "0 < n" using assms(2) by (metis zero_less_mult_pos2 of_int_0_less_iff zero_less_power_int zero_less_numeral)
  then have "(1 :: rat) \<le> of_int n" by simp
  then have "1 * 2 powi ulp_exp q \<le> q" by (subst (2) q) (intro mult_right_mono, simp_all)
  moreover have "(2 :: rat) powi (- 1074) \<le> 2 powi ulp_exp q" by (simp only: powi_int_le_iff) (simp add: ulp_exp_def)
  ultimately show ?thesis by simp
qed

lemma least_rounds_up: "0 < mk s (3 / 4 * 2 powi (- 1074))"
proof -
  define q :: rat where "q = 3 / 4 * 2 powi (- 1074)"
  have h: "(2 :: rat) powi (- 1075) = 2 powi (- 1074) / 2" using power_int_diff [of "2 :: rat" "- 1074" 1] by simp
  have "rlog2 q = - 1075"
    by (rule rlog2_eqI) (simp_all add: q_def h)
  then have e: "ulp_exp q = - 1074" by (simp add: ulp_exp_def)
  have p: "0 < q" by (simp add: q_def)
  have "fl q = of_int (rne (q / 2 powi (- 1074))) * 2 powi (- 1074)" using p by (simp add: fl_def flp_def Let_def e)
  also have "q / 2 powi (- 1074) = 3 / 4" by (simp add: q_def)
  also have "rne (3 / 4) = 1"
  proof -
    have "\<lfloor>3 / 4 :: rat\<rfloor> = 0" by (simp add: floor_eq_iff)
    then show ?thesis by (simp add: rne_def Let_def)
  qed
  finally have f: "fl q = 2 powi (- 1074)" by simp
  have "(2 :: rat) powi (- 1074) \<le> 2 powi 0" by (simp only: powi_int_le_iff)
  moreover have "(1 :: rat) < 2 ^ 1024" by simp
  ultimately have "fl q < 2 ^ 1024" unfolding f by (simp only: power_int_0_right)
  moreover have "0 < fl q" unfolding f by (rule zero_less_power_int) simp
  ultimately have "0 < mk s q" by (simp add: mk_def Let_def less_key zero_double_def)
  then show ?thesis unfolding q_def .
qed

lemma four_fifths:
  assumes "wf_double v" "0 < v" "is_finite v"
  shows "0 < v * lit (8 / 10)" "v * lit (8 / 10) \<le> v"
proof -
  obtain q where v: "v = Fin q" "on_grid q" "0 < q"
    using assms by (cases v) (auto simp: less_key zero_double_def)
  define c where "c = lit (8 / 10)"
  have b: "Fin (3 / 4) \<le> c" "c \<le> Fin 1"
    using mk_mono [of "3 / 4" "8 / 10" False False] mk_mono [of "8 / 10" 1 False False] by (simp_all add: c_def lit_def mk_numeral)
  then have c: "is_finite c" "3 / 4 \<le> val c" "val c \<le> 1" by (cases c rule: double_exhaust; auto simp: le_key)+
  have p: "v * c = mk (neg_sign v \<noteq> neg_sign c) (q * val c)" using c(1) v by (simp add: mul_fin)
  have "3 / 4 * 2 powi (- 1074) \<le> val c * q"
    using c(2) grid_least [OF v(2,3)] by (intro mult_mono) auto
  then have "0 < mk (neg_sign v \<noteq> neg_sign c) (q * val c)"
    using double_less_le_trans [OF least_rounds_up mk_mono] by (simp add: mult.commute)
  then show "0 < v * lit (8 / 10)" using p by (simp add: c_def)
  have "q * val c \<le> q" using c(3) v(3) by (simp add: mult_le_cancel_left2)
  then show "v * lit (8 / 10) \<le> v" using mk_val_ge [of v "q * val c"] p v by (simp add: c_def)
qed


lemma in_rate_finite: "in_rate u v \<Longrightarrow> u \<le> 1 \<Longrightarrow> is_finite v"
  using lit_mono [of u 1] double_le_trans [of v "lit u" "Fin 1"]
  by (cases v rule: double_exhaust) (auto simp: in_rate_def less_key le_key zero_double_def lit_def)

lemma in_rate_tighten:
  assumes "in_rate u v" "in_rate u w" "u \<le> 1"
  shows "in_rate u (w * lit (8 / 10)) \<and> w * lit (8 / 10) \<le> w"
proof -
  have w: "wf_double w" "0 < w" "w \<le> lit u" using assms(2) by (simp_all add: in_rate_def)
  note f = four_fifths [OF w(1,2) in_rate_finite [OF assms(2,3)]]
  show ?thesis using f double_le_trans [OF f(2) w(3)] by (simp add: in_rate_def)
qed

lemma valid_default: "valid_config CbConfig_default"
  by (simp add: valid_config_def CbConfig_default_def in_rate_lit lit_pos)

lemma valid_read:
  assumes "number_entries cfg" "valid_config (cs_config s)"
  shows "valid_config (cs_config (fst (cb_read cfg s)))"
proof -
  note n = assms(1) [unfolded number_entries_def list.pred_inject, simplified]
  have m: "0 < (if v \<le> 0 then lit 1000 else v)" if "number_entry (Given v)" for v
    using that double_not_le [of v 0] lit_pos [of 1000] by (auto simp: zero_double_def)
  show ?thesis unfolding cb_read_def Let_def
    by (intro read_entry_inv [where P = "\<lambda>s. valid_config (cs_config s)"])
       (use n m assms(2) in \<open>auto simp: valid_config_def in_rate_checked in_rate_lit\<close>)
qed

lemma cb_read_ok:
  "snd (cb_read cfg s) \<longleftrightarrow> js_symbol cfg \<noteq> Mistyped \<and> js_institution cfg \<noteq> Mistyped \<and> js_account cfg \<noteq> Mistyped \<and>
     js_min_bars cfg \<noteq> Mistyped \<and> js_max_position cfg \<noteq> Mistyped \<and> js_stop_loss cfg \<noteq> Mistyped \<and>
     js_take_profit cfg \<noteq> Mistyped \<and> js_risk_per_trade cfg \<noteq> Mistyped \<and> js_max_drawdown cfg \<noteq> Mistyped \<and>
     js_enable_quote_trading cfg \<noteq> Mistyped"
  by (auto simp: cb_read_def Let_def read_entry_ok)

lemma valid_stop_below:
  assumes "valid_config c"
  shows "valid_config (stop_below_profit c) \<and> cc_stop_loss (stop_below_profit c) \<le> cc_take_profit (stop_below_profit c)"
proof (cases "cc_stop_loss c \<ge> cc_take_profit c")
  case True
  then show ?thesis using assms in_rate_tighten [of "5 / 10" "cc_stop_loss c" "cc_take_profit c"]
    by (simp add: stop_below_profit_def valid_config_def)
next
  case False
  have "cc_take_profit c \<noteq> NaN" "cc_stop_loss c \<noteq> NaN"
    using assms by (auto simp: valid_config_def in_rate_def)
  with False have "cc_stop_loss c \<le> cc_take_profit c" using double_le_total by blast
  with False assms show ?thesis by (simp add: stop_below_profit_def)
qed

text \<open>Whatever numbers the configuration gives, the strategy comes out of its setup with every parameter in
  its documented range, and with the stop loss not above the take profit when no entry had a wrong
  type. An entry of a wrong type ends the setup early: the parameters are still in range, but the
  comparison of stop loss and take profit is skipped.\<close>

theorem cb_setup_valid:
  assumes "number_entries cfg" "valid_config (cs_config s)"
  shows "valid_config (cs_config (cb_setup cfg s)) \<and>
    (if snd (cb_read cfg s)
     then cc_stop_loss (cs_config (cb_setup cfg s)) \<le> cc_take_profit (cs_config (cb_setup cfg s))
     else cb_setup cfg s = fst (cb_read cfg s))"
  using valid_read [OF assms] valid_stop_below [OF valid_read [OF assms]]
  by (simp add: cb_setup_def split_beta)

definition mistyped_json :: CbJson where
  "mistyped_json = \<lparr> js_symbol = Given ''AAPL'', js_institution = Given ''simulation'', js_account = Given ''a1'',
     js_min_bars = Absent, js_max_position = Absent, js_stop_loss = Absent, js_take_profit = Given (lit (1 / 100)),
     js_risk_per_trade = Mistyped, js_max_drawdown = Absent, js_enable_quote_trading = Absent \<rparr>"

lemma cb_setup_valid_witness:
  "cc_take_profit (cs_config (cb_setup mistyped_json (ConsecutiveBar_new 1))) <
     cc_stop_loss (cs_config (cb_setup mistyped_json (ConsecutiveBar_new 1)))"
proof -
  have "number_entries mistyped_json" by (simp add: number_entries_def mistyped_json_def lit_def)
  moreover have "valid_config (cs_config (ConsecutiveBar_new 1))" by (simp add: ConsecutiveBar_new_def valid_default)
  ultimately have "cb_setup mistyped_json (ConsecutiveBar_new 1) = fst (cb_read mistyped_json (ConsecutiveBar_new 1))"
    using cb_setup_valid [of mistyped_json "ConsecutiveBar_new 1"] by (simp add: cb_read_ok mistyped_json_def)
  moreover have "checked_rate (lit (5 / 10)) (lit (3 / 100)) (lit (1 / 100)) = lit (1 / 100)"
  proof -
    have "0 < lit (1 / 100)" "lit (1 / 100) \<le> lit (5 / 10)" by (simp_all add: lit_pos lit_mono)
    then show ?thesis by (auto simp: checked_rate_def less_double_def flt_def less_eq_double_def)
  qed
  moreover have "lit (1 / 100) < lit (2 / 100)"
    using double_le_less_trans [of "lit (1 / 100)" "Fin (1 / 64)" "lit (2 / 100)"] mk_mono [of "1 / 100" "1 / 64" False False]
      double_less_le_trans [of "Fin (1 / 64)" "Fin (5 / 256)" "lit (2 / 100)"] mk_mono [of "5 / 256" "2 / 100" False False]
      mk_dyadic [of 1 6 False] mk_dyadic [of 5 8 False] by (simp add: lit_def less_key)
  ultimately show ?thesis
    by (simp add: cb_read_def mistyped_json_def Let_def ConsecutiveBar_new_def CbConfig_default_def)
qed

section \<open>What a bar makes the strategy do\<close>

text \<open>
  A decision, as the description of the strategy has it, and the order it leads to.
\<close>

datatype Decision = Stay | Enter Side | Leave Side

definition rising :: "Bar \<Rightarrow> bool" where "rising bar \<longleftrightarrow> bar_open bar < bar_close bar"
definition falling :: "Bar \<Rightarrow> bool" where "falling bar \<longleftrightarrow> bar_close bar < bar_open bar"

definition decide_exit :: "double \<Rightarrow> ConsecutiveBar \<Rightarrow> Decision" where
  "decide_exit price s =
     (let st = cs_state s; c = cs_config s; change = (price - cb_entry_price st) / cb_entry_price st
      in if feq (cb_entry_price st) 0 then Stay
         else if 0 < cb_current_position st \<and> (change < - cc_stop_loss c \<or> cc_take_profit c < change) then Leave Side_Sell
         else if cb_current_position st < 0 \<and> (cc_stop_loss c < change \<or> change < - cc_take_profit c) then Leave Side_Buy
         else Stay)"

definition decide :: "int \<Rightarrow> Bar \<Rightarrow> ConsecutiveBar \<Rightarrow> Decision" where
  "decide now bar s =
     (let st = cs_state s; c = cs_config s
      in if cb_position_opened st then decide_exit (bar_close bar) s
         else if cc_min_bars c \<le> cb_bar_count st + 1 \<and> 1000 < now - cs_last_trade_time s \<and>
                 cs_max_drawdown s \<le> cc_max_drawdown c \<and> cb_bar_history st \<noteq> []
         then if rising (last (cb_bar_history st)) \<and> rising bar then Enter Side_Buy
              else if falling (last (cb_bar_history st)) \<and> falling bar then Enter Side_Sell else Stay
         else Stay)"

definition padded :: "nat \<Rightarrow> string \<Rightarrow> carr" where
  "padded n s = s @ replicate (n - length s) NUL"

definition decision_order :: "ConsecutiveBar \<Rightarrow> double \<Rightarrow> Side \<Rightarrow> OrderInput" where
  "decision_order s price side = OrderInput_zero
     \<lparr> oi_order_id := cs_next_order_id s, oi_instrument_id := padded INSTRUMENT_ID_LEN (cs_symbol s),
       oi_instrument_type := IT_Stock, oi_limit_price := price, oi_side := side, oi_price_type := Price_Limit \<rparr>"

fun decision_calls :: "ConsecutiveBar \<Rightarrow> double \<Rightarrow> Decision \<Rightarrow> ExecCall list" where
  "decision_calls s price Stay = []"
| "decision_calls s price (Enter side) =
     [Call_insert (cs_institution s) (cs_account s) ((decision_order s price side)
        \<lparr> oi_exchange_id := padded EXCHANGE_ID_LEN (cs_institution s),
          oi_volume := calculate_position_size (cs_config s) price, oi_offset := Offset_Open,
          oi_volume_condition := VC_Any, oi_time_condition := TC_GFD \<rparr>)]"
| "decision_calls s price (Leave side) =
     [Call_insert (cs_institution s) (cs_account s) ((decision_order s price side)
        \<lparr> oi_exchange_id := ''DEFAULT_EXCHANGE'',
          oi_volume := \<bar>cb_current_position (cs_state s)\<bar>, oi_offset := Offset_Close,
          oi_volume_condition := VC_All, oi_time_condition := TC_IOC \<rparr>)]"

text \<open>The symbol and the institution fit into the arrays of an order.\<close>

definition names_fit :: "ConsecutiveBar \<Rightarrow> bool" where
  "names_fit s \<longleftrightarrow> length (cs_symbol s) \<le> INSTRUMENT_ID_LEN \<and> length (cs_institution s) \<le> EXCHANGE_ID_LEN"

lemma assign_padded: "length s \<le> n \<Longrightarrow> arr_assign_cstr (arr_zero n) s = Some (padded n s)"
  by (simp add: arr_assign_cstr_def padded_def arr_zero_def)

lemma default_exchange: "arr_assign_cstr (arr_zero EXCHANGE_ID_LEN) ''DEFAULT_EXCHANGE'' = Some ''DEFAULT_EXCHANGE''"
  by (simp add: arr_assign_cstr_def EXCHANGE_ID_LEN_def)

definition numbered :: "Decision \<Rightarrow> ConsecutiveBar \<Rightarrow> ConsecutiveBar" where
  "numbered d s = (if d = Stay then s else s\<lparr> cs_next_order_id := cs_next_order_id s + 1 \<rparr>)"

lemma OrderInput_offset_open: "oi_offset OrderInput_zero = Offset_Open" "oi_price_type OrderInput_zero = Price_Limit"
  by (simp_all add: OrderInput_zero_def)

lemma execute_trade_order:
  assumes "names_fit s"
  shows "execute_trade price is_buy s =
    (let d = Enter (if is_buy then Side_Buy else Side_Sell) in Some (decision_calls s price d, numbered d s))"
  using assms
  by (simp add: execute_trade_def names_fit_def generate_order_id_def assign_padded Let_def decision_order_def numbered_def
      OrderInput_zero_def)

lemma close_position_order:
  assumes "names_fit s" "\<not> feq (cb_current_position (cs_state s)) 0"
  shows "close_position price is_buy s =
    (let d = Leave (if is_buy then Side_Buy else Side_Sell) in Some (decision_calls s price d, numbered d s))"
  using assms
  by (simp add: close_position_def names_fit_def generate_order_id_def assign_padded default_exchange Let_def
      decision_order_def numbered_def OrderInput_zero_def)

lemma neg_lt_zero: "0 < (a :: double) \<Longrightarrow> - a < 0"
  by (cases a rule: double_exhaust) (auto simp: less_key f64_ops)

lemma both_ways: "\<lbrakk> 0 < (a :: double); 0 < b; x < - a \<rbrakk> \<Longrightarrow> \<not> b < x"
  using double_less_trans [of x "- a" 0] double_less_trans [of 0 b x] neg_lt_zero [of a]
    double_less_trans [of x 0 x] double_less_irrefl [of x] by blast

lemma signed_not_zero: "0 < (a :: double) \<Longrightarrow> \<not> feq a 0" "a < 0 \<Longrightarrow> \<not> feq a 0" "0 < a \<Longrightarrow> \<not> a < 0"
  by (auto simp: less_double_def flt_def feq_def)

lemma and_then_Some [simp]: "and_then (Some (calls, s)) g = map_option (\<lambda>(more, s). (calls @ more, s)) (g s)"
  by (simp add: and_then_def)

lemma exit_decides:
  assumes "names_fit s" "valid_config (cs_config s)" "cb_position_opened (cs_state s)"
  shows "check_exit_conditions price s =
    Some (decision_calls s price (decide_exit price s), numbered (decide_exit price s) s)"
proof -
  define p where "p = cb_current_position (cs_state s)"
  define ch where "ch = (price - cb_entry_price (cs_state s)) / cb_entry_price (cs_state s)"
  define sl where "sl = cc_stop_loss (cs_config s)"
  define tp where "tp = cc_take_profit (cs_config s)"
  have r: "0 < sl" "0 < tp" using assms(2) by (simp_all add: sl_def tp_def valid_config_def in_rate_def)
  have x: "\<not> (ch < - sl \<and> tp < ch)" "\<not> (sl < ch \<and> ch < - tp)"
    using both_ways [OF r] both_ways [OF r(2,1)] by blast+
  note c = close_position_order [OF assms(1)]
  have q: "0 < p \<Longrightarrow> \<not> p < 0 \<and> \<not> feq p 0" "p < 0 \<Longrightarrow> \<not> 0 < p \<and> \<not> feq p 0"
    using signed_not_zero by blast+
  show ?thesis
    using assms(3) x q unfolding check_exit_conditions_def decide_exit_def Let_def
    by (fold p_def ch_def sl_def tp_def) (auto simp: c [folded p_def] numbered_def Let_def)
qed

definition counted :: "Bar \<Rightarrow> ConsecutiveBar \<Rightarrow> ConsecutiveBar" where
  "counted bar s =
     (let up = cb_bar_history (cs_state s) \<noteq> [] \<and> rising (last (cb_bar_history (cs_state s)));
          down = cb_bar_history (cs_state s) \<noteq> [] \<and> falling (last (cb_bar_history (cs_state s)))
      in upd_state (\<lambda>st. st
         \<lparr> cb_bar_history := push_bounded MAX_BAR_HISTORY bar (cb_bar_history st), cb_bar_count := cb_bar_count st + 1,
           cb_consecutive_up_bars := if cb_bar_history st = [] \<or> \<not> rising bar then 0 else if up then 2 else 1,
           cb_consecutive_down_bars := if cb_bar_history st = [] \<or> rising bar \<or> \<not> falling bar then 0 else if down then 2 else 1 \<rparr>) s)"

lemma rev_push: "1 < n \<Longrightarrow> xs \<noteq> [] \<Longrightarrow> \<exists>r. rev (push_bounded n x xs) = x # last xs # r"
  by (cases xs rule: rev_cases; cases "butlast xs")
     (auto simp: push_bounded_def Let_def neq_Nil_conv intro: exI [of _ "rev l" for l])

lemma analyze_counted:
  "upd_state (cb_bar_count_update (\<lambda>n. n + 1)) (analyze_consecutive_bars (update_bar_history bar s)) = counted bar s"
proof (cases "cb_bar_history (cs_state s) = []")
  case True
  then show ?thesis
    by (simp add: analyze_consecutive_bars_def update_bar_history_def counted_def push_bounded_def MAX_BAR_HISTORY_def Let_def)
next
  case False
  obtain r where "rev (push_bounded MAX_BAR_HISTORY bar (cb_bar_history (cs_state s))) =
      bar # last (cb_bar_history (cs_state s)) # r"
    using rev_push [of MAX_BAR_HISTORY, OF _ False] by (auto simp: MAX_BAR_HISTORY_def)
  then show ?thesis using False
    by (simp add: analyze_consecutive_bars_def update_bar_history_def counted_def rising_def falling_def Let_def)
qed


lemma counted_sel [simp]:
  "cs_config (counted bar s) = cs_config s" "cs_symbol (counted bar s) = cs_symbol s"
  "cs_institution (counted bar s) = cs_institution s" "cs_account (counted bar s) = cs_account s"
  "cs_last_trade_time (counted bar s) = cs_last_trade_time s" "cs_max_drawdown (counted bar s) = cs_max_drawdown s"
  "cs_next_order_id (counted bar s) = cs_next_order_id s"
  "cb_position_opened (cs_state (counted bar s)) = cb_position_opened (cs_state s)"
  "cb_entry_price (cs_state (counted bar s)) = cb_entry_price (cs_state s)"
  "cb_current_position (cs_state (counted bar s)) = cb_current_position (cs_state s)"
  "cb_bar_count (cs_state (counted bar s)) = cb_bar_count (cs_state s) + 1"
  by (simp_all add: counted_def Let_def)

lemma counted_calls [simp]: "decision_calls (counted bar s) price d = decision_calls s price d"
  by (cases d) (simp_all add: decision_order_def)

lemma counted_exit [simp]: "decide_exit price (counted bar s) = decide_exit price s"
  unfolding decide_exit_def Let_def by (simp only: counted_sel)

lemma counted_fits [simp]: "names_fit (counted bar s) = names_fit s"
  by (simp add: names_fit_def)

lemma signal_up: "2 \<le> cb_consecutive_up_bars (cs_state (counted bar s)) \<longleftrightarrow>
    cb_bar_history (cs_state s) \<noteq> [] \<and> rising (last (cb_bar_history (cs_state s))) \<and> rising bar"
  by (auto simp: counted_def Let_def)

lemma rising_not_falling: "rising bar \<Longrightarrow> \<not> falling bar"
  by (auto simp: rising_def falling_def less_double_def flt_def)

lemma signal_down: "2 \<le> cb_consecutive_down_bars (cs_state (counted bar s)) \<longleftrightarrow>
    cb_bar_history (cs_state s) \<noteq> [] \<and> falling (last (cb_bar_history (cs_state s))) \<and> falling bar"
  using rising_not_falling [of bar] by (auto simp: counted_def Let_def)

definition after_entry :: "int \<Rightarrow> Decision \<Rightarrow> ConsecutiveBar \<Rightarrow> ConsecutiveBar" where
  "after_entry now d s = (case d of Enter side \<Rightarrow> s\<lparr> cs_last_trade_time := now \<rparr> | _ \<Rightarrow> s)"

lemma enter_decides:
  assumes "names_fit s" "\<not> cb_position_opened (cs_state s)"
  shows "enter_on_signal now (bar_close bar) (counted bar s) =
    Some (decision_calls s (bar_close bar) (decide now bar s), after_entry now (decide now bar s) (numbered (decide now bar s) (counted bar s)))"
proof -
  define h where "h = cb_bar_history (cs_state s)"
  define ready where "ready \<longleftrightarrow> cc_min_bars (cs_config s) \<le> cb_bar_count (cs_state s) + 1 \<and> 1000 < now - cs_last_trade_time s"
  define dd where "dd \<longleftrightarrow> cs_max_drawdown s \<le> cc_max_drawdown (cs_config s)"
  define up where "up \<longleftrightarrow> h \<noteq> [] \<and> rising (last h) \<and> rising bar"
  define down where "down \<longleftrightarrow> h \<noteq> [] \<and> falling (last h) \<and> falling bar"
  have d: "decide now bar s = (if ready \<and> dd then if up then Enter Side_Buy else if down then Enter Side_Sell else Stay else Stay)"
    using assms(2) by (auto simp: decide_def Let_def ready_def dd_def up_def down_def h_def)
  have b: "should_buy (counted bar s) \<longleftrightarrow> up \<and> dd" "should_sell (counted bar s) \<longleftrightarrow> down \<and> dd"
    using assms(2) by (auto simp: should_buy_def should_sell_def signal_up signal_down up_def down_def h_def dd_def)
  have r: "cc_min_bars (cs_config (counted bar s)) \<le> cb_bar_count (cs_state (counted bar s)) \<and>
      MIN_TRADE_INTERVAL < now - cs_last_trade_time (counted bar s) \<longleftrightarrow> ready"
    by (simp add: ready_def MIN_TRADE_INTERVAL_def)
  note e = execute_trade_order [of "counted bar s", simplified, OF assms(1)]
  show ?thesis unfolding enter_on_signal_def b r d
    by (cases ready; cases dd; cases up; cases down) (simp_all add: e after_entry_def numbered_def)
qed

text \<open>C24: a bar makes the strategy do exactly what its description decides, and at most one thing. It leaves an
  open position at a loss beyond the stop loss or a profit beyond the take profit, with one order for
  the whole position; without a position it enters in the direction of the last two bars when there
  are enough of them, more than a second has passed since the last entry and the drawdown is
  within its limit. Only the history, the counters, the time of the last entry and the order id
  change; and the exchange of an order that closes is not that of the order that opened.\<close>

theorem cb_on_bar_decides:
  assumes "names_fit s" "valid_config (cs_config s)"
  shows "cb_on_bar now bar s =
    (let d = decide now bar s in
     Some (decision_calls s (bar_close bar) d, after_entry now d (numbered d (counted bar s))))"
proof (cases "cb_position_opened (cs_state s)")
  case True
  have "check_exit_conditions (bar_close bar) (counted bar s) =
      Some (decision_calls s (bar_close bar) (decide_exit (bar_close bar) s),
            numbered (decide_exit (bar_close bar) s) (counted bar s))"
    using exit_decides [of "counted bar s"] assms True by simp
  moreover have "decide_exit (bar_close bar) s \<noteq> Enter side" for side
    by (simp add: decide_exit_def Let_def)
  ultimately show ?thesis using True
    by (auto simp: cb_on_bar_def analyze_counted Let_def enter_on_signal_def should_buy_def should_sell_def numbered_def
        decide_def after_entry_def split: Decision.splits)
next
  case False
  then have "check_exit_conditions (bar_close bar) (counted bar s) = Some ([], counted bar s)"
    by (simp add: check_exit_conditions_def Let_def)
  then show ?thesis using enter_decides [OF assms(1) False] by (simp add: cb_on_bar_def analyze_counted Let_def)
qed

definition sample_bar :: Bar where
  "sample_bar = Bar_zero\<lparr> bar_open := Fin 10, bar_close := Fin 12 \<rparr>"

definition sample_cb :: ConsecutiveBar where
  "sample_cb = (ConsecutiveBar_new 1)\<lparr> cs_symbol := ''AAPL'', cs_institution := ''simulation'', cs_account := ''a1'',
     cs_state := CbState_init\<lparr> cb_bar_history := [sample_bar], cb_bar_count := 2 \<rparr> \<rparr>"

lemma sample_cb_ok: "names_fit sample_cb" "valid_config (cs_config sample_cb)"
  by (simp_all add: names_fit_def sample_cb_def ConsecutiveBar_new_def valid_default INSTRUMENT_ID_LEN_def EXCHANGE_ID_LEN_def)

lemma sample_bar_rising: "rising sample_bar"
  by (simp add: rising_def sample_bar_def less_key)

lemma cb_on_bar_decides_witness:
  "map_option (List.map (\<lambda>c. case c of Call_insert i a oi \<Rightarrow> oi_side oi) \<circ> fst) (cb_on_bar 5000 sample_bar sample_cb) =
     Some [Side_Buy]"
proof -
  have "0 \<le> lit (10 / 100)" using double_less_imp_le [OF lit_pos [of "10 / 100"]] by simp
  then have "decide 5000 sample_bar sample_cb = Enter Side_Buy"
    using sample_bar_rising
    by (simp add: decide_def sample_cb_def ConsecutiveBar_new_def CbState_init_def CbConfig_default_def Let_def)
  with cb_on_bar_decides [OF sample_cb_ok, of 5000 sample_bar] show ?thesis
    by (simp add: Let_def decision_order_def)
qed

section \<open>What the strategy remembers\<close>

fun cb_events :: "(int \<times> Callback) list \<Rightarrow> ConsecutiveBar \<Rightarrow> (ExecCall list \<times> ConsecutiveBar) option" where
  "cb_events [] s = Some ([], s)"
| "cb_events ((now, cb) # evs) s = and_then (cb_callback now cb s) (cb_events evs)"

fun bars_of :: "(int \<times> Callback) list \<Rightarrow> Bar list" where
  "bars_of [] = []"
| "bars_of ((now, Cb_event (Ev_Bar bar) source) # evs) = bar # bars_of evs"
| "bars_of (_ # evs) = bars_of evs"

fun trades_of :: "(int \<times> Callback) list \<Rightarrow> Trade list" where
  "trades_of [] = []"
| "trades_of ((now, Cb_event (Ev_Trade trade) source) # evs) = trade # trades_of evs"
| "trades_of (_ # evs) = trades_of evs"

definition signed :: "double \<Rightarrow> Trade \<Rightarrow> double" where
  "signed position t = (if tr_side t = Side_Buy then position + tr_volume t
     else if tr_side t = Side_Sell then position - tr_volume t else position)"

definition last_n :: "nat \<Rightarrow> 'a list \<Rightarrow> 'a list" where
  "last_n n xs = drop (length xs - n) xs"

lemma push_last_n: "length xs \<le> n \<Longrightarrow> push_bounded n x xs = last_n n (xs @ [x])"
  by (cases "length xs = n"; cases xs) (auto simp: push_bounded_def last_n_def Let_def)

lemma length_last_n [simp]: "length (last_n n xs) = min n (length xs)"
  by (auto simp: last_n_def)

lemma last_n_append: "last_n n (last_n n xs @ ys) = last_n n (xs @ ys)"
proof (cases "length xs \<le> n")
  case False
  have "drop (length (drop (length xs - n) xs @ ys) - n) (drop (length xs - n) xs @ ys) =
      drop (length ys) (drop (length xs - n) (xs @ ys))" using False by simp
  then show ?thesis using False by (simp add: last_n_def add.commute)
qed (simp add: last_n_def)

definition same_core :: "ConsecutiveBar \<Rightarrow> ConsecutiveBar \<Rightarrow> bool" where
  "same_core s s' \<longleftrightarrow> (\<exists>k t. s' = s\<lparr> cs_next_order_id := k, cs_last_trade_time := t \<rparr>)"

lemma same_core_refl: "same_core s s"
  by (auto simp: same_core_def intro!: exI [of _ "cs_next_order_id s"] exI [of _ "cs_last_trade_time s"])

lemma same_core_trans: "\<lbrakk> same_core r s; same_core s t \<rbrakk> \<Longrightarrow> same_core r t"
  by (auto simp: same_core_def; blast)

lemma same_core_id: "same_core s (s\<lparr> cs_next_order_id := k \<rparr>)"
  by (auto simp: same_core_def intro!: exI [of _ k] exI [of _ "cs_last_trade_time s"])

lemma same_core_time: "same_core s s' \<Longrightarrow> same_core s (s'\<lparr> cs_last_trade_time := t \<rparr>)"
  by (auto simp: same_core_def; blast)

lemma and_then_core:
  assumes "and_then r g = Some (calls, s')" "\<And>c t. r = Some (c, t) \<Longrightarrow> same_core s t"
    "\<And>t c u. g t = Some (c, u) \<Longrightarrow> same_core t u"
  shows "same_core s s'"
  using assms(1) same_core_trans assms(2,3) by (fastforce simp: and_then_def Option.bind_eq_Some_conv)

lemma execute_trade_core: "execute_trade price b s = Some (calls, s') \<Longrightarrow> same_core s s'"
  by (auto simp: execute_trade_def generate_order_id_def Let_def same_core_id split: option.splits)

lemma close_position_core: "close_position price b s = Some (calls, s') \<Longrightarrow> same_core s s'"
  by (auto simp: close_position_def generate_order_id_def Let_def same_core_id same_core_refl split: option.splits if_splits)

lemma exit_core: "check_exit_conditions price s = Some (calls, s') \<Longrightarrow> same_core s s'"
  by (auto simp: check_exit_conditions_def Let_def same_core_refl split: if_splits
      elim!: and_then_core dest: close_position_core)

lemma enter_core: "enter_on_signal now price s = Some (calls, s') \<Longrightarrow> same_core s s'"
  by (auto simp: enter_on_signal_def same_core_refl split: if_splits intro!: same_core_time dest: execute_trade_core)

lemma bar_core:
  assumes "cb_on_bar now bar s = Some (calls, s')"
  shows "same_core (counted bar s) s'"
  by (rule and_then_core [OF assms [unfolded cb_on_bar_def Let_def analyze_counted]]) (auto dest: exit_core enter_core)

lemma quote_core: "cb_on_quote q s = Some (calls, s') \<Longrightarrow> same_core s s'"
  by (auto simp: cb_on_quote_def Let_def same_core_refl split: if_splits dest: exit_core)

lemma pnl_sel [simp]:
  "cs_state (update_pnl_tracking t s) = cs_state s" "cs_trade_history (update_pnl_tracking t s) = cs_trade_history s"
  "cs_config (update_pnl_tracking t s) = cs_config s" "cs_symbol (update_pnl_tracking t s) = cs_symbol s"
  "cs_institution (update_pnl_tracking t s) = cs_institution s" "cs_account (update_pnl_tracking t s) = cs_account s"
  by (simp_all add: update_pnl_tracking_def Let_def)

lemma on_trade_state:
  "cb_current_position (cs_state (cb_on_trade t s)) = signed (cb_current_position (cs_state s)) t"
  "cb_position_opened (cs_state (cb_on_trade t s)) \<longleftrightarrow> \<not> feq (signed (cb_current_position (cs_state s)) t) 0"
  "cb_bar_history (cs_state (cb_on_trade t s)) = cb_bar_history (cs_state s)"
  "cb_bar_count (cs_state (cb_on_trade t s)) = cb_bar_count (cs_state s)"
  "cs_trade_history (cb_on_trade t s) = push_bounded MAX_TRADE_HISTORY t (cs_trade_history s)"
  by (cases "tr_side t"; simp add: cb_on_trade_def signed_def Let_def)+

definition remembers :: "Bar list \<Rightarrow> Trade list \<Rightarrow> double \<Rightarrow> int \<Rightarrow> ConsecutiveBar \<Rightarrow> bool" where
  "remembers bars trades position n s \<longleftrightarrow>
     cb_bar_history (cs_state s) = last_n MAX_BAR_HISTORY bars \<and> cb_bar_count (cs_state s) = n \<and>
     cs_trade_history s = last_n MAX_TRADE_HISTORY trades \<and>
     cb_current_position (cs_state s) = position \<and> (cb_position_opened (cs_state s) \<longleftrightarrow> \<not> feq position 0)"

lemma remembers_core: "\<lbrakk> same_core s s'; remembers bars trades p n s \<rbrakk> \<Longrightarrow> remembers bars trades p n s'"
  by (auto simp: same_core_def remembers_def)

lemma remembers_bar:
  "\<lbrakk> cb_on_bar now bar s = Some (calls, s'); remembers bars trades p n s \<rbrakk> \<Longrightarrow> remembers (bars @ [bar]) trades p (n + 1) s'"
  using remembers_core [OF bar_core]
  by (fastforce simp: remembers_def counted_def Let_def push_last_n last_n_append)

lemma remembers_trade:
  "remembers bars trades p n s \<Longrightarrow> remembers bars (trades @ [t]) (signed p t) n (cb_on_trade t s)"
  by (simp add: remembers_def on_trade_state push_last_n last_n_append)

lemma remembers_events:
  assumes "cb_events evs s = Some (calls, s')" "remembers bars trades p n s" "Cb_pre_start \<notin> snd ` set evs"
  shows "remembers (bars @ bars_of evs) (trades @ trades_of evs) (foldl signed p (trades_of evs)) (n + int (length (bars_of evs))) s'"
  using assms
proof (induction evs arbitrary: s bars trades p n calls)
  case (Cons e evs)
  obtain now cb where e: "e = (now, cb)" by (cases e)
  obtain c1 s1 c2 where st: "cb_callback now cb s = Some (c1, s1)" "cb_events evs s1 = Some (c2, s')"
    using Cons.prems(1) by (auto simp: e and_then_def Option.bind_eq_Some_conv)
  have n: "Cb_pre_start \<notin> snd ` set evs" "cb \<noteq> Cb_pre_start" using Cons.prems(3) by (auto simp: e)
  note IH = Cons.IH [OF st(2) _ n(1)]
  show ?case
  proof (cases "(now, cb, s)" rule: cb_callback.cases)
    case (2 now' bar source s')
    then show ?thesis using IH [OF remembers_bar [OF _ Cons.prems(2)]] st(1) by (simp add: e add.assoc)
  next
    case (3 now' quote source s')
    then show ?thesis using IH [OF remembers_core [OF quote_core Cons.prems(2)]] st(1) by (simp add: e)
  next
    case (4 now' trade source s')
    then have "s1 = cb_on_trade trade s" "cb = Cb_event (Ev_Trade trade) source" using st(1) by simp_all
    then show ?thesis using IH [of bars "trades @ [trade]" "signed p trade" n] remembers_trade [OF Cons.prems(2)] by (simp add: e)
  qed (use n(2) IH [of bars trades p n] Cons.prems(2) st(1) in \<open>simp_all add: e\<close>)
qed simp

text \<open>After any sequence of callbacks the strategy remembers exactly the last fifty bars, the last thousand
  trades and the number of bars since its start; its position is the sum of the signed volumes of
  the trades, in their order, and it counts as open precisely when that sum is not zero.\<close>

theorem cb_remembers:
  assumes "cb_events evs (cb_pre_start s) = Some (calls, s')" "length (cs_trade_history s) \<le> MAX_TRADE_HISTORY"
    "Cb_pre_start \<notin> snd ` set evs"
  shows "remembers (bars_of evs) (cs_trade_history s @ trades_of evs) (foldl signed 0 (trades_of evs))
    (int (length (bars_of evs))) s'"
proof -
  have "remembers [] (cs_trade_history s) 0 0 (cb_pre_start s)"
    using assms(2) by (simp add: remembers_def cb_pre_start_def last_n_def feq_fin)
  from remembers_events [OF assms(1) this assms(3)] show ?thesis by simp
qed

lemma cb_remembers_witness:
  "map_option (\<lambda>(calls, s). length (cb_bar_history (cs_state s)))
     (cb_events [(1, Cb_event (Ev_Bar sample_bar) 3), (2, Cb_event (Ev_Trade Trade_zero) 4)] (cb_pre_start sample_cb)) = Some 1"
proof -
  let ?evs = "[(1, Cb_event (Ev_Bar sample_bar) 3), (2, Cb_event (Ev_Trade Trade_zero) 4)]"
  have fit: "names_fit (cb_pre_start sample_cb)" "valid_config (cs_config (cb_pre_start sample_cb))"
    using sample_cb_ok by (simp_all add: names_fit_def cb_pre_start_def)
  obtain calls s' where r: "cb_events ?evs (cb_pre_start sample_cb) = Some (calls, s')"
    using cb_on_bar_decides [OF fit, of 1 sample_bar] by (auto simp: Let_def)
  have "remembers (bars_of ?evs) (cs_trade_history sample_cb @ trades_of ?evs) (foldl signed 0 (trades_of ?evs))
      (int (length (bars_of ?evs))) s'"
    by (rule cb_remembers [OF r]) (simp_all add: sample_cb_def ConsecutiveBar_new_def)
  then show ?thesis unfolding r by (simp add: remembers_def last_n_def MAX_BAR_HISTORY_def)
qed

section \<open>The size of an order\<close>

lemma risk_amount:
  assumes "in_rate (1 / 10) r"
  shows "is_finite (available_capital * r)" "0 < available_capital * r"
proof -
  obtain q where r: "r = Fin q" "on_grid q" "0 < q"
    using assms in_rate_finite [OF assms] by (cases r) (auto simp: in_rate_def less_key zero_double_def)
  have "r \<le> Fin 1" using assms lit_mono [of "1 / 10" 1] double_le_trans [of r "lit (1 / 10)" "Fin 1"]
    by (simp add: in_rate_def lit_def)
  then have q1: "q \<le> 1" using r by (simp add: le_key)
  have c: "available_capital = Fin 100000" by (simp add: available_capital_def lit_def mk_numeral)
  have m: "available_capital * r = mk False (100000 * q)" using r(3) unfolding r(1) c by (simp add: times_double_def)
  have "(0 :: rat) \<le> 2 powi (- 1074)" by (rule zero_le_power_int) simp
  then have "3 / 4 * 2 powi (- 1074) \<le> 1 * q" using grid_least [OF r(2,3)] by linarith
  also have "\<dots> \<le> 100000 * q" using r(3) by (intro mult_right_mono) simp_all
  finally show "0 < available_capital * r" unfolding m by (rule double_less_le_trans [OF least_rounds_up mk_mono])
  then have "0 < mk False (100000 * q)" by (simp add: m)
  moreover have "mk False (100000 * q) \<le> Fin 100000" using mk_mono [of "100000 * q" 100000 False False] q1 by (simp add: mk_numeral)
  ultimately show "is_finite (available_capital * r)" unfolding m
    by (cases "mk False (100000 * q)" rule: double_exhaust) (auto simp: less_key le_key zero_double_def)
qed

lemma div_not_NaN: "\<lbrakk> is_finite a; 0 < a; b \<noteq> NaN \<rbrakk> \<Longrightarrow> a / b \<noteq> NaN"
  by (cases a rule: double_exhaust; cases b rule: double_exhaust)
     (auto simp: less_key divide_double_def zero_double_def)

lemma position_size_bounds:
  assumes "valid_config c" "price \<noteq> NaN"
  shows "1 \<le> calculate_position_size c price \<and>
    (calculate_position_size c price \<le> cc_max_position c \<or> calculate_position_size c price = 1)"
proof -
  define x where "x = available_capital * cc_risk_per_trade c / price"
  define y where "y = (if x > cc_max_position c then cc_max_position c else x)"
  have r: "in_rate (1 / 10) (cc_risk_per_trade c)" "0 < cc_max_position c" using assms(1) by (simp_all add: valid_config_def)
  have x: "x \<noteq> NaN" unfolding x_def by (rule div_not_NaN [OF risk_amount [OF r(1)] assms(2)])
  have m: "cc_max_position c \<noteq> NaN" using r(2) less_not_NaN by blast
  have y: "y \<noteq> NaN" "y \<le> cc_max_position c" using x m double_not_less [OF m x] by (auto simp: y_def)
  have s: "calculate_position_size c price = (if y < 1 then 1 else y)"
    by (simp add: calculate_position_size_def Let_def x_def y_def)
  have "(1 :: double) \<noteq> NaN" by (simp add: one_double_def)
  then show ?thesis unfolding s using y double_not_less [OF y(1), of 1] by auto
qed

section \<open>In the engine\<close>

text \<open>What the strategy is configured with, and what it may send.\<close>

definition own_order :: "ConsecutiveBar \<Rightarrow> Request \<Rightarrow> bool" where
  "own_order s r \<longleftrightarrow> (\<exists>oi. r = Req_insert (jid_build (cs_institution s) (cs_account s)) oi \<and>
     oi_instrument_id oi = padded INSTRUMENT_ID_LEN (cs_symbol s) \<and> oi_price_type oi = Price_Limit \<and>
     (oi_offset oi = Offset_Open \<and> oi_exchange_id oi = padded EXCHANGE_ID_LEN (cs_institution s) \<and>
        (oi_limit_price oi \<noteq> NaN \<longrightarrow> 1 \<le> oi_volume oi \<and> (oi_volume oi \<le> cc_max_position (cs_config s) \<or> oi_volume oi = 1)) \<or>
      oi_offset oi = Offset_Close \<and> 0 < oi_volume oi \<and>
        oi_exchange_id oi = ''DEFAULT_EXCHANGE'' \<and> \<not> arr_wf EXCHANGE_ID_LEN (oi_exchange_id oi)))"

lemma default_exchange_full: "\<not> arr_wf EXCHANGE_ID_LEN ''DEFAULT_EXCHANGE''"
  by (simp add: arr_wf_def)

definition same_setup :: "ConsecutiveBar \<Rightarrow> ConsecutiveBar \<Rightarrow> bool" where
  "same_setup s t \<longleftrightarrow> cs_config t = cs_config s \<and> cs_symbol t = cs_symbol s \<and>
     cs_institution t = cs_institution s \<and> cs_account t = cs_account s"

lemma same_setup_refl: "same_setup s s"
  by (simp add: same_setup_def)

lemma same_setup_core: "same_core s t \<Longrightarrow> same_setup s t"
  by (auto simp: same_core_def same_setup_def)

lemma abs_pos: "0 < (a :: double) \<or> a < 0 \<Longrightarrow> 0 < \<bar>a\<bar>"
  by (cases a rule: double_exhaust) (auto simp: less_key f64_ops)

lemma decision_calls_own:
  assumes "valid_config (cs_config s)" "same_setup s0 s"
    "\<And>side. d = Leave side \<Longrightarrow> 0 < cb_current_position (cs_state s) \<or> cb_current_position (cs_state s) < 0"
    "r \<in> call_request home ` set (decision_calls s price d)"
  shows "own_order s0 r"
proof (cases d)
  case (Enter side)
  then show ?thesis using assms(2,4) position_size_bounds [OF assms(1), of price]
    by (auto simp: own_order_def same_setup_def decision_order_def)
next
  case (Leave side)
  then show ?thesis using assms(2,3,4) abs_pos
    by (auto simp: own_order_def same_setup_def decision_order_def OrderInput_zero_def default_exchange_full)
qed (use assms(4) in simp)

lemma leave_position:
  "decide_exit price s = Leave side \<Longrightarrow> 0 < cb_current_position (cs_state s) \<or> cb_current_position (cs_state s) < 0"
  "decide now bar s = Leave side \<Longrightarrow> 0 < cb_current_position (cs_state s) \<or> cb_current_position (cs_state s) < 0"
  by (auto simp: decide_exit_def decide_def Let_def split: if_splits)

definition runs_as :: "ConsecutiveBar \<Rightarrow> ConsecutiveBar \<Rightarrow> bool" where
  "runs_as s0 s \<longleftrightarrow> same_setup s0 s \<and> names_fit s \<and> valid_config (cs_config s)"

lemma runs_as_setup: "\<lbrakk> runs_as s0 s; same_setup s t \<rbrakk> \<Longrightarrow> runs_as s0 t"
  by (auto simp: runs_as_def same_setup_def names_fit_def)

lemma runs_as_sel [simp]:
  "runs_as s0 (upd_state f s) = runs_as s0 s" "runs_as s0 (cb_pre_start s) = runs_as s0 s"
  "runs_as s0 (cb_on_trade t s) = runs_as s0 s" "runs_as s0 (counted bar s) = runs_as s0 s"
  "runs_as s0 (numbered d s) = runs_as s0 s" "runs_as s0 (after_entry now d s) = runs_as s0 s"
  by (simp_all add: runs_as_def same_setup_def names_fit_def cb_pre_start_def cb_on_trade_def numbered_def after_entry_def
      Let_def split: Decision.split)

lemma quote_decides:
  assumes "names_fit s" "valid_config (cs_config s)"
  shows "\<exists>price d. cb_on_quote q s = Some (decision_calls s price d, numbered d s) \<and>
    (\<forall>side. d = Leave side \<longrightarrow> 0 < cb_current_position (cs_state s) \<or> cb_current_position (cs_state s) < 0)"
proof (cases "cc_enable_quote_trading (cs_config s) \<and> cb_position_opened (cs_state s)")
  case True
  then show ?thesis unfolding cb_on_quote_def Let_def
    by (auto simp: exit_decides [OF assms] dest: leave_position)
next
  case False
  then have "cb_on_quote q s = Some (decision_calls s 0 Stay, numbered Stay s)"
    by (auto simp: cb_on_quote_def Let_def check_exit_conditions_def numbered_def)
  then show ?thesis by blast
qed

lemma callback_runs:
  assumes "runs_as s0 s"
  shows "\<exists>calls t. cb_callback now cb s = Some (calls, t) \<and> runs_as s0 t \<and>
    (\<forall>r \<in> call_request home ` set calls. own_order s0 r)"
proof (cases "(now, cb, s)" rule: cb_callback.cases)
  case (2 now' bar source s')
  define d where "d = decide now bar s"
  have s: "names_fit s" "valid_config (cs_config s)" "same_setup s0 s" using assms by (simp_all add: runs_as_def)
  have "\<forall>r \<in> call_request home ` set (decision_calls s (bar_close bar) d). own_order s0 r"
    using decision_calls_own [OF s(2,3), of d] leave_position(2) [of now bar s] unfolding d_def by blast
  moreover have "cb_on_bar now bar s = Some (decision_calls s (bar_close bar) d, after_entry now d (numbered d (counted bar s)))"
    using cb_on_bar_decides [OF s(1,2)] by (simp add: d_def Let_def)
  ultimately show ?thesis using 2 assms by simp
next
  case (3 now' quote source s')
  obtain price d where "cb_on_quote quote s = Some (decision_calls s price d, numbered d s)"
    "\<forall>side. d = Leave side \<longrightarrow> 0 < cb_current_position (cs_state s) \<or> cb_current_position (cs_state s) < 0"
    using quote_decides [of s quote] assms by (auto simp: runs_as_def)
  moreover have "\<forall>r \<in> call_request home ` set (decision_calls s price d). own_order s0 r"
    using decision_calls_own [of s s0 d _ home price] calculation(2) assms unfolding runs_as_def by blast
  ultimately show ?thesis using 3 assms by simp
qed (use assms in simp_all)

interpretation cb: strategy_contract "cb_strategy clock home"
  "\<lambda>state. \<exists>n :: nat. \<exists>s. state = Some (n, s) \<and> runs_as s0 s" "own_order s0" for clock home s0
proof
  fix state cb book
  assume "\<exists>n :: nat. \<exists>s. state = Some (n, s) \<and> runs_as s0 s"
  then obtain n s where s: "state = Some (n, s)" "runs_as s0 s" by blast
  obtain calls t where "cb_callback (clock n) cb s = Some (calls, t)" "runs_as s0 t"
    "\<forall>r \<in> call_request home ` set calls. own_order s0 r"
    using callback_runs [OF s(2)] by blast
  then show "\<exists>n :: nat. \<exists>s. fst (cb_strategy clock home cb book state) = Some (n, s) \<and> runs_as s0 s"
    "\<And>r. r \<in> set (snd (cb_strategy clock home cb book state)) \<Longrightarrow> own_order s0 r"
    by (auto simp: cb_strategy_def s(1))
qed

text \<open>C30: whatever events the engine feeds it, the strategy never leaves its defined behaviour and sends nothing
  but limit orders for its own symbol to its own account: to open, of a volume of at least one and at
  most the larger of one and the maximal position; to close, of a positive volume, under the name of an exchange
  that fills its array without a terminator. It never cancels an order, and all else the engine
  writes is a termination or a sync signal.\<close>

theorem cb_in_engine:
  assumes "cp_run [cb_strategy clock home] evs mem cp = Some (out, mem', cp')"
    "cp_strategy_state cp = Some (n, s)" "names_fit s" "valid_config (cs_config s)"
  shows "(\<exists>n' s'. cp_strategy_state cp' = Some (n', s') \<and> same_setup s s') \<and>
    (\<forall>m \<in> set out. engine_own m \<or> (\<exists>r. own_order s r \<and> m = request_event r))"
proof -
  have "\<exists>n t. cp_strategy_state cp = Some (n, t) \<and> runs_as s t" using assms by (simp add: runs_as_def same_setup_refl)
  from cb.good_run [OF assms(1) this] have g: "cb.good s (out, cp')" .
  then have "\<exists>n' t. cp_strategy_state cp' = Some (n', t) \<and> same_setup s t"
    unfolding cb.good_def by (auto simp: runs_as_def)
  moreover have "\<forall>m \<in> set out. engine_own m \<or> (\<exists>r. own_order s r \<and> m = request_event r)"
    using g unfolding cb.good_def cb.allowed_def by simp
  ultimately show ?thesis by blast
qed


lemma cb_in_engine_witness:
  "\<forall>n. \<exists>out mem' cp'. cp_run [cb_strategy (\<lambda>_. 5000) 7] [(Ev_Bar sample_bar, 3)] (fst (board_init 0 0 False)) (sample_engine (Some (n, sample_cb))) =
       Some (out, mem', cp') \<and> (\<exists>n' s'. cp_strategy_state cp' = Some (n', s') \<and> same_setup sample_cb s')"
proof
  fix n
  obtain out mem' cp' where r: "cp_run [cb_strategy (\<lambda>_. 5000) 7] [(Ev_Bar sample_bar, 3)] (fst (board_init 0 0 False))
      (sample_engine (Some (n, sample_cb))) = Some (out, mem', cp')"
    by (auto simp: keeping_def simp del: invoke.simps)
  have "cp_strategy_state (sample_engine (Some (n, sample_cb))) = Some (n, sample_cb)" by (simp add: sample_engine_def)
  from cb_in_engine [OF r this sample_cb_ok] r
  show "\<exists>out mem' cp'. cp_run [cb_strategy (\<lambda>_. 5000) 7] [(Ev_Bar sample_bar, 3)] (fst (board_init 0 0 False)) (sample_engine (Some (n, sample_cb))) =
       Some (out, mem', cp') \<and> (\<exists>n' s'. cp_strategy_state cp' = Some (n', s') \<and> same_setup sample_cb s')" by blast
qed

section \<open>Signals without trades\<close>

fun spaced :: "int \<Rightarrow> int list \<Rightarrow> bool" where
  "spaced t [] = True"
| "spaced t (u # us) \<longleftrightarrow> t + MIN_TRADE_INTERVAL < u \<and> spaced u us"

definition bar_events :: "u32 \<Rightarrow> (int \<times> Bar) list \<Rightarrow> (int \<times> Callback) list" where
  "bar_events source = List.map (\<lambda>(now, bar). (now, Cb_event (Ev_Bar bar) source))"

definition climbing :: "ConsecutiveBar \<Rightarrow> bool" where
  "climbing s \<longleftrightarrow> names_fit s \<and> valid_config (cs_config s) \<and> \<not> cb_position_opened (cs_state s) \<and>
     cs_max_drawdown s \<le> cc_max_drawdown (cs_config s) \<and> 0 \<le> cb_bar_count (cs_state s) \<and>
     (cb_bar_history (cs_state s) = [] \<longleftrightarrow> cb_bar_count (cs_state s) = 0) \<and>
     (cb_bar_history (cs_state s) \<noteq> [] \<longrightarrow> rising (last (cb_bar_history (cs_state s))))"

lemma last_push: "0 < n \<Longrightarrow> push_bounded n x xs \<noteq> [] \<and> last (push_bounded n x xs) = x"
  by (cases xs) (auto simp: push_bounded_def Let_def)

definition opens_long :: "ExecCall \<Rightarrow> bool" where
  "opens_long c \<longleftrightarrow> (\<exists>i a oi. c = Call_insert i a oi \<and> oi_side oi = Side_Buy \<and> oi_offset oi = Offset_Open \<and> 1 \<le> oi_volume oi)"

lemma climbing_bar:
  assumes "climbing s" "rising bar" "cs_last_trade_time s + MIN_TRADE_INTERVAL < now"
  shows "\<exists>calls s'. cb_on_bar now bar s = Some (calls, s') \<and> climbing s' \<and> list_all opens_long calls \<and>
    length calls = (if cc_min_bars (cs_config s) \<le> cb_bar_count (cs_state s) + 1 then 1 else 0) \<and>
    cs_config s' = cs_config s \<and> cb_bar_count (cs_state s') = cb_bar_count (cs_state s) + 1 \<and>
    (cs_last_trade_time s' = cs_last_trade_time s \<or> cs_last_trade_time s' = now)"
proof -
  have c: "names_fit s" "valid_config (cs_config s)" "\<not> cb_position_opened (cs_state s)" "3 \<le> cc_min_bars (cs_config s)"
    "cs_max_drawdown s \<le> cc_max_drawdown (cs_config s)"
    using assms(1) by (auto simp: climbing_def valid_config_def)
  define d where "d = decide now bar s"
  have d: "d = (if cc_min_bars (cs_config s) \<le> cb_bar_count (cs_state s) + 1 then Enter Side_Buy else Stay)"
    using assms c(4) by (auto simp: d_def decide_def Let_def climbing_def MIN_TRADE_INTERVAL_def)
  have "bar_close bar \<noteq> NaN" using assms(2) less_not_NaN unfolding rising_def by blast
  then have v: "1 \<le> calculate_position_size (cs_config s) (bar_close bar)" using position_size_bounds [OF c(2)] by simp
  have "climbing (counted bar s)"
    using assms(1,2) last_push [of MAX_BAR_HISTORY bar]
    by (auto simp: climbing_def counted_def names_fit_def Let_def MAX_BAR_HISTORY_def)
  then have k: "climbing (after_entry now d (numbered d (counted bar s)))"
    by (auto simp: after_entry_def numbered_def climbing_def names_fit_def split: Decision.split)
  have "cb_on_bar now bar s = Some (decision_calls s (bar_close bar) d, after_entry now d (numbered d (counted bar s)))"
    using cb_on_bar_decides [OF c(1,2)] by (simp add: d_def Let_def)
  then show ?thesis using k d v
    by (auto simp: after_entry_def numbered_def opens_long_def decision_order_def)
qed

lemma climbing_bars:
  assumes "climbing s" "list_all rising (List.map snd bars)" "spaced t (List.map fst bars)" "cs_last_trade_time s \<le> t"
  shows "\<exists>calls s'. cb_events (bar_events source bars) s = Some (calls, s') \<and> list_all opens_long calls \<and>
    int (length calls) = max 0 (int (length bars) - max 0 (cc_min_bars (cs_config s) - 1 - cb_bar_count (cs_state s)))"
  using assms
proof (induction bars arbitrary: s t)
  case (Cons b bars)
  obtain now bar where b: "b = (now, bar)" by (cases b)
  have p: "rising bar" "list_all rising (List.map snd bars)" "t + MIN_TRADE_INTERVAL < now" "spaced now (List.map fst bars)"
    using Cons.prems(2,3) by (simp_all add: b)
  then obtain c1 s1 where st: "cb_on_bar now bar s = Some (c1, s1)" "climbing s1" "list_all opens_long c1"
    "length c1 = (if cc_min_bars (cs_config s) \<le> cb_bar_count (cs_state s) + 1 then 1 else 0)"
    "cs_config s1 = cs_config s" "cb_bar_count (cs_state s1) = cb_bar_count (cs_state s) + 1"
    "cs_last_trade_time s1 = cs_last_trade_time s \<or> cs_last_trade_time s1 = now"
    using climbing_bar [OF Cons.prems(1), of bar now] Cons.prems(4) by auto
  have "cs_last_trade_time s1 \<le> now" using st(7) p(3) Cons.prems(4) by (auto simp: MIN_TRADE_INTERVAL_def)
  from Cons.IH [OF st(2) p(2,4) this] obtain c2 s2 where "cb_events (bar_events source bars) s1 = Some (c2, s2)"
    "list_all opens_long c2"
    "int (length c2) = max 0 (int (length bars) - max 0 (cc_min_bars (cs_config s1) - 1 - cb_bar_count (cs_state s1)))"
    by blast
  then show ?case using st by (auto simp: b bar_events_def list_all_append)
qed (auto simp: bar_events_def)

text \<open>The strategy knows its position from trades alone. As long as none arrives it opens again with every
  rising bar that comes more than a second after the one before: \<open>n\<close> rising bars after its start give
  \<open>n + 1 - min_bars\<close> orders to buy, each of at least one unit, whatever the maximal position is.\<close>

theorem cb_orders_pile_up:
  assumes "names_fit s" "valid_config (cs_config s)" "list_all rising (List.map snd bars)"
    "spaced (cs_last_trade_time s) (List.map fst bars)"
  shows "\<exists>calls s'. cb_events (bar_events source bars) (cb_pre_start s) = Some (calls, s') \<and> list_all opens_long calls \<and>
    int (length calls) = max 0 (int (length bars) + 1 - cc_min_bars (cs_config s))"
proof -
  have "0 \<le> cc_max_drawdown (cs_config s)" using assms(2) double_less_imp_le by (simp add: valid_config_def in_rate_def)
  then have "climbing (cb_pre_start s)" using assms(1,2) by (simp add: climbing_def cb_pre_start_def names_fit_def)
  from climbing_bars [OF this assms(3,4), of source] show ?thesis using assms(2)
    by (auto simp: cb_pre_start_def valid_config_def)
qed

lemma cb_orders_pile_up_witness:
  "\<exists>calls s'. cb_events (bar_events 3 [(2000, sample_bar), (4000, sample_bar), (6000, sample_bar), (8000, sample_bar), (10000, sample_bar)])
     (cb_pre_start sample_cb) = Some (calls, s') \<and> length calls = 3"
  using cb_orders_pile_up [OF sample_cb_ok, of "[(2000, sample_bar), (4000, sample_bar), (6000, sample_bar), (8000, sample_bar), (10000, sample_bar)]" 3]
    sample_bar_rising
  by (auto simp: MIN_TRADE_INTERVAL_def sample_cb_def ConsecutiveBar_new_def CbConfig_default_def)

section \<open>Profit and drawdown\<close>

definition positive_amount :: "double \<Rightarrow> bool" where
  "positive_amount a \<longleftrightarrow> wf_double a \<and> is_finite a \<and> 0 < a"

text \<open>A trade that opens, and the one that closes all of it again.\<close>

definition round_trip :: "Trade \<times> Trade \<Rightarrow> bool" where
  "round_trip = (\<lambda>(t, u). positive_amount (tr_volume t) \<and> positive_amount (tr_price t) \<and> tr_volume u = tr_volume t \<and>
     (tr_side t = Side_Buy \<and> tr_side u = Side_Sell \<or> tr_side t = Side_Sell \<and> tr_side u = Side_Buy))"

definition untouched :: "ConsecutiveBar \<Rightarrow> bool" where
  "untouched s \<longleftrightarrow> cs_total_pnl s = 0 \<and> cs_max_drawdown s = 0 \<and> (cs_peak_equity s = 0 \<or> cs_peak_equity s = lit 100000) \<and>
     cb_current_position (cs_state s) = 0 \<and> \<not> cb_position_opened (cs_state s)"

lemma amount_laws:
  assumes "positive_amount a"
  shows "0 + a = a" "a - a = 0" "(0 - a) + a = 0" "\<bar>a\<bar> = a" "\<bar>0 - a\<bar> = a" "\<not> feq a 0" "\<not> feq (0 - a) 0" "0 * a = 0" "feq a a"
proof -
  obtain q where a: "a = Fin q" "0 < q" "on_grid q"
    using assms by (cases a) (auto simp: positive_amount_def less_key zero_double_def)
  then have m: "mk False q = Fin q" "mk False (- q) = Fin (- q)" using mk_exact [of q] mk_exact [of "- q"]
    by (auto simp: on_grid_minus)
  show "0 + a = a" "a - a = 0" "(0 - a) + a = 0" "\<bar>a\<bar> = a" "\<bar>0 - a\<bar> = a" "\<not> feq a 0" "\<not> feq (0 - a) 0" "0 * a = 0" "feq a a"
    using a m by (auto simp: f64_ops fsub_def feq_def)
qed

lemma peak_laws: "lit 100000 + 0 = lit 100000" "(lit 100000 - lit 100000) / lit 100000 = 0" "0 < lit 100000"
  "\<not> lit 100000 < (lit 100000 :: double)" "\<not> (0 :: double) < 0"
  by (simp_all add: lit_def mk_numeral f64_ops fsub_def less_key flt_key)

lemma entry_untouched:
  assumes "untouched s" "positive_amount (tr_volume t)" "positive_amount (tr_price t)" "tr_side t = Side_Buy \<or> tr_side t = Side_Sell"
  shows "cs_total_pnl (cb_on_trade t s) = 0 \<and> cs_max_drawdown (cb_on_trade t s) = 0 \<and>
    cs_peak_equity (cb_on_trade t s) = lit 100000"
proof -
  define r where "r = (upd_state (\<lambda>st. st\<lparr> cb_current_position := signed 0 t, cb_position_opened := True,
      cb_entry_price := tr_price t \<rparr>) s)\<lparr> cs_trade_history := push_bounded MAX_TRADE_HISTORY t (cs_trade_history s) \<rparr>"
  note v = amount_laws [OF assms(2)] and p = amount_laws [OF assms(3)]
  have "cb_current_position (cs_state s) = 0" using assms(1) by (simp add: untouched_def)
  then have "cb_on_trade t s = update_pnl_tracking t r" using assms(4)
    by (auto simp: cb_on_trade_def r_def signed_def Let_def v)
  moreover have "cb_entry_price (cs_state r) = tr_price t" "cs_total_pnl r = 0" "cs_max_drawdown r = 0"
    "cs_peak_equity r = 0 \<or> cs_peak_equity r = lit 100000"
    using assms(1) by (simp_all add: r_def untouched_def)
  moreover have "0 < tr_price t" using assms(3) by (simp add: positive_amount_def)
  ultimately show ?thesis using peak_laws by (auto simp: update_pnl_tracking_def Let_def p v)
qed

lemma exit_untouched:
  assumes "signed (cb_current_position (cs_state s)) u = 0"
  shows "cs_total_pnl (cb_on_trade u s) = cs_total_pnl s" "cs_max_drawdown (cb_on_trade u s) = cs_max_drawdown s"
    "cs_peak_equity (cb_on_trade u s) = cs_peak_equity s"
  using assms by (cases "tr_side u"; simp add: cb_on_trade_def signed_def Let_def feq_fin update_pnl_tracking_def)+

lemma round_trip_untouched:
  assumes "untouched s" "round_trip (t, u)"
  shows "untouched (cb_on_trade u (cb_on_trade t s))"
proof -
  have a: "positive_amount (tr_volume t)" "positive_amount (tr_price t)" "tr_side t = Side_Buy \<or> tr_side t = Side_Sell"
    using assms(2) by (auto simp: round_trip_def)
  have z: "signed (signed 0 t) u = 0" using assms(2) amount_laws [OF a(1)] by (auto simp: round_trip_def signed_def)
  have p: "cb_current_position (cs_state s) = 0" using assms(1) by (simp add: untouched_def)
  show ?thesis using entry_untouched [OF assms(1) a] exit_untouched [of "cb_on_trade t s" u] z
    by (simp add: untouched_def on_trade_state p feq_fin)
qed

text \<open>The drawdown limit never acts. A position is entered at the price of its own trade and forgotten
  before the closing trade is accounted, so after any sequence of round trips, however large their
  losses, the strategy's profit and its drawdown are zero, and it goes on trading.\<close>

theorem cb_round_trips_unrecorded:
  assumes "list_all round_trip trips" "valid_config (cs_config s)"
  defines "s' \<equiv> fold cb_on_trade (concat (List.map (\<lambda>(t, u). [t, u]) trips)) (cb_pre_start s)"
  shows "cs_total_pnl s' = 0 \<and> cs_max_drawdown s' = 0 \<and> \<not> cb_position_opened (cs_state s') \<and>
    cs_max_drawdown s' \<le> cc_max_drawdown (cs_config s')"
proof -
  have "untouched (fold cb_on_trade (concat (List.map (\<lambda>(t, u). [t, u]) trips)) r) \<and>
      cs_config (fold cb_on_trade (concat (List.map (\<lambda>(t, u). [t, u]) trips)) r) = cs_config r"
    if "untouched r" for r
    using assms(1) that
  proof (induction trips arbitrary: r)
    case (Cons x trips)
    obtain t u where x: "x = (t, u)" by (cases x)
    have "untouched (cb_on_trade u (cb_on_trade t r))" using Cons.prems by (intro round_trip_untouched) (simp_all add: x)
    moreover have "cs_config (cb_on_trade u (cb_on_trade t r)) = cs_config r" by (simp add: cb_on_trade_def Let_def)
    ultimately show ?case using Cons by (simp add: x)
  qed simp
  from this [of "cb_pre_start s"] have "untouched s'" "cs_config s' = cs_config s"
    by (simp_all add: untouched_def cb_pre_start_def s'_def)
  moreover have "0 \<le> cc_max_drawdown (cs_config s)"
    using assms(2) double_less_imp_le by (simp add: valid_config_def in_rate_def)
  ultimately show ?thesis by (simp add: untouched_def)
qed


definition sample_fill :: "Side \<Rightarrow> int \<Rightarrow> Trade" where
  "sample_fill side price = Trade_zero\<lparr> tr_side := side, tr_price := of_i64 price, tr_volume := of_i64 5 \<rparr>"

lemma cb_round_trips_unrecorded_witness:
  "cs_total_pnl (fold cb_on_trade [sample_fill Side_Buy 100, sample_fill Side_Sell 1] (cb_pre_start sample_cb)) = 0"
proof -
  have "list_all round_trip [(sample_fill Side_Buy 100, sample_fill Side_Sell 1)]"
    by (simp add: round_trip_def sample_fill_def positive_amount_def less_fin)
  from cb_round_trips_unrecorded [OF this sample_cb_ok(2)] show ?thesis by simp
qed

text \<open>
  And what is recorded has the wrong sign: three units bought at 10, one of them sold at 12, count as a
  loss of 2. Had only two been bought, the entry price would be overwritten by the price of the sale.
\<close>

lemma partial_close_sign:
  "cs_total_pnl (fold cb_on_trade
     [Trade_zero\<lparr> tr_side := Side_Buy, tr_price := of_i64 10, tr_volume := of_i64 3 \<rparr>,
      Trade_zero\<lparr> tr_side := Side_Sell, tr_price := of_i64 12, tr_volume := of_i64 1 \<rparr>]
     (ConsecutiveBar_new 1)) = of_i64 (- 2)"
  by (simp add: cb_on_trade_def ConsecutiveBar_new_def CbState_init_def update_pnl_tracking_def Let_def of_i64_Fin
      f64_ops fsub_def feq_def flt_key lit_def mk_numeral)

end
