(* ===== verification/MyStrategy.thy ===== *)
theory MyStrategy
  imports Strategy
begin

text \<open>
  The example strategy (src/strategies/my_strategy.cpp): buy, hold for some bars, sell, wait for some
  bars, and again. A callback returns its calls on the executor and the strategy; the book it asks
  the executor for is an argument. An exception of the setup leaves it, and is \<open>None\<close>. Logging is
  left out.
\<close>

section \<open>State\<close>

datatype TradingState = INITIAL_BUY | HOLDING | WAITING | BUYING

record MyStrategy =
  ms_institution :: string
  ms_account :: string
  ms_price_sequence :: "Bar list"
  ms_quote_sequence :: "Quote list"
  ms_has_position :: bool
  ms_trading_volume :: double
  ms_hold_days :: int
  ms_wait_days :: int
  ms_current_state :: TradingState
  ms_days_counter :: int
  ms_last_action_day :: int

definition MyStrategy_new :: MyStrategy where
  "MyStrategy_new = \<lparr> ms_institution = ''default'', ms_account = ''default'', ms_price_sequence = [], ms_quote_sequence = [],
     ms_has_position = False, ms_trading_volume = lit 10, ms_hold_days = 5, ms_wait_days = 5,
     ms_current_state = INITIAL_BUY, ms_days_counter = 0, ms_last_action_day = 0 \<rparr>"

record MyJson =
  mj_trading_volume :: "double entry"
  mj_hold_days :: "int entry"
  mj_wait_days :: "int entry"
  mj_institution :: "string entry"
  mj_account :: "string entry"

definition my_setup :: "MyJson \<Rightarrow> MyStrategy \<Rightarrow> MyStrategy option" where
  "my_setup cfg s =
     (let r = (s, True);
          r = read_entry (mj_trading_volume cfg) (\<lambda>v s. s\<lparr> ms_trading_volume := v \<rparr>) r;
          r = read_entry (mj_hold_days cfg) (\<lambda>v s. s\<lparr> ms_hold_days := v \<rparr>) r;
          r = read_entry (mj_wait_days cfg) (\<lambda>v s. s\<lparr> ms_wait_days := v \<rparr>) r;
          r = read_entry (mj_institution cfg) (\<lambda>v s. s\<lparr> ms_institution := v \<rparr>) r;
          r = read_entry (mj_account cfg) (\<lambda>v s. s\<lparr> ms_account := v \<rparr>) r
      in if snd r then Some (fst r) else None)"

section \<open>Orders\<close>

definition place_buy_order :: "Bar \<Rightarrow> MyStrategy \<Rightarrow> ExecCall" where
  "place_buy_order bar s =
     Call_insert (ms_institution s) (ms_account s)
       (OrderInput_zero\<lparr> oi_instrument_id := arr_assign (oi_instrument_id OrderInput_zero) (bar_instrument_id bar),
          oi_exchange_id := arr_assign (oi_exchange_id OrderInput_zero) (bar_exchange_id bar),
          oi_instrument_type := bar_instrument_type bar, oi_limit_price := bar_close bar,
          oi_volume := ms_trading_volume s, oi_side := Side_Buy, oi_offset := Offset_Open, oi_price_type := Price_Limit,
          oi_volume_condition := VC_Any, oi_time_condition := TC_GFD, oi_hedge_flag := Hedge_Speculation \<rparr>)"

definition place_sell_order :: "Bar \<Rightarrow> MyStrategy \<Rightarrow> ExecCall" where
  "place_sell_order bar s =
     Call_insert (ms_institution s) (ms_account s)
       (OrderInput_zero\<lparr> oi_instrument_id := arr_assign (oi_instrument_id OrderInput_zero) (bar_instrument_id bar),
          oi_exchange_id := arr_assign (oi_exchange_id OrderInput_zero) (bar_exchange_id bar),
          oi_instrument_type := bar_instrument_type bar, oi_limit_price := bar_close bar,
          oi_volume := ms_trading_volume s, oi_side := Side_Sell, oi_offset := Offset_Close, oi_price_type := Price_Limit,
          oi_volume_condition := VC_Any, oi_time_condition := TC_GFD, oi_hedge_flag := Hedge_Speculation \<rparr>)"

section \<open>Callbacks\<close>

text \<open>The change of state that goes with an order.\<close>

definition acted :: "TradingState \<Rightarrow> Bar \<Rightarrow> MyStrategy \<Rightarrow> MyStrategy" where
  "acted st bar s = s\<lparr> ms_current_state := st, ms_days_counter := 0, ms_last_action_day := bar_end_time bar \<rparr>"

definition execute_trading_logic :: "Book \<Rightarrow> Bar \<Rightarrow> MyStrategy \<Rightarrow> ExecCall list \<times> MyStrategy" where
  "execute_trading_logic book bar s =
     (let s = s\<lparr> ms_has_position := has_positions (bk_positions book) \<rparr>
      in case ms_current_state s of
           INITIAL_BUY \<Rightarrow>
             if \<not> ms_has_position s then ([place_buy_order bar s], acted HOLDING bar s) else ([], s)
         | HOLDING \<Rightarrow>
             let s = s\<lparr> ms_days_counter := ms_days_counter s + 1 \<rparr>
             in if ms_days_counter s \<ge> ms_hold_days s
                then if ms_has_position s then ([place_sell_order bar s], acted WAITING bar s)
                     else ([], s\<lparr> ms_current_state := INITIAL_BUY, ms_days_counter := 0 \<rparr>)
                else ([], s)
         | WAITING \<Rightarrow>
             let s = s\<lparr> ms_days_counter := ms_days_counter s + 1 \<rparr>
             in if ms_days_counter s \<ge> ms_wait_days s
                then if \<not> ms_has_position s then ([place_buy_order bar s], acted HOLDING bar s)
                     else ([], s\<lparr> ms_current_state := HOLDING, ms_days_counter := 0 \<rparr>)
                else ([], s)
         | BUYING \<Rightarrow> ([], s))"

text \<open>A queue that keeps its last hundred elements.\<close>

definition push_hundred :: "'a \<Rightarrow> 'a list \<Rightarrow> 'a list" where
  "push_hundred x xs = (let xs = xs @ [x] in if 100 < length xs then tl xs else xs)"

definition my_on_quote :: "Quote \<Rightarrow> MyStrategy \<Rightarrow> MyStrategy" where
  "my_on_quote quote s = s\<lparr> ms_quote_sequence := push_hundred quote (ms_quote_sequence s) \<rparr>"

definition my_on_bar :: "Book \<Rightarrow> Bar \<Rightarrow> MyStrategy \<Rightarrow> ExecCall list \<times> MyStrategy" where
  "my_on_bar book bar s =
     execute_trading_logic book bar (s\<lparr> ms_price_sequence := push_hundred bar (ms_price_sequence s) \<rparr>)"

text \<open>In the engine; the other callbacks do nothing but log.\<close>

fun my_callback :: "Callback \<Rightarrow> Book \<Rightarrow> MyStrategy \<Rightarrow> ExecCall list \<times> MyStrategy" where
  "my_callback (Cb_event (Ev_Bar bar) source) book s = my_on_bar book bar s"
| "my_callback (Cb_event (Ev_Quote quote) source) book s = ([], my_on_quote quote s)"
| "my_callback _ book s = ([], s)"

definition my_strategy :: "u32 \<Rightarrow> MyStrategy strategy" where
  "my_strategy home cb book s =
     (let (calls, s) = my_callback cb book s in (s, List.map (call_request home) calls))"

section \<open>The automaton\<close>

text \<open>
  The phases as a relation: what a bar leads to, with the order it sends, given whether a position is
  held and the two periods.
\<close>

datatype Act = Nothing | Buys | Sells

inductive phase_step :: "int \<Rightarrow> int \<Rightarrow> bool \<Rightarrow> TradingState \<times> int \<Rightarrow> Act \<Rightarrow> TradingState \<times> int \<Rightarrow> bool"
  for hold wait where
  first_buy: "phase_step hold wait False (INITIAL_BUY, n) Buys (HOLDING, 0)"
| not_flat: "phase_step hold wait True (INITIAL_BUY, n) Nothing (INITIAL_BUY, n)"
| holding: "n + 1 < hold \<Longrightarrow> phase_step hold wait p (HOLDING, n) Nothing (HOLDING, n + 1)"
| sell: "hold \<le> n + 1 \<Longrightarrow> phase_step hold wait True (HOLDING, n) Sells (WAITING, 0)"
| never_filled: "hold \<le> n + 1 \<Longrightarrow> phase_step hold wait False (HOLDING, n) Nothing (INITIAL_BUY, 0)"
| pausing: "n + 1 < wait \<Longrightarrow> phase_step hold wait p (WAITING, n) Nothing (WAITING, n + 1)"
| buy_again: "wait \<le> n + 1 \<Longrightarrow> phase_step hold wait False (WAITING, n) Buys (HOLDING, 0)"
| never_sold: "wait \<le> n + 1 \<Longrightarrow> phase_step hold wait True (WAITING, n) Nothing (HOLDING, 0)"

inductive_cases phase_stepE: "phase_step hold wait p (st, n) a q"

definition phase :: "MyStrategy \<Rightarrow> TradingState \<times> int" where
  "phase s = (ms_current_state s, ms_days_counter s)"

fun act_calls :: "Act \<Rightarrow> Bar \<Rightarrow> MyStrategy \<Rightarrow> ExecCall list" where
  "act_calls Nothing bar s = []"
| "act_calls Buys bar s = [place_buy_order bar s]"
| "act_calls Sells bar s = [place_sell_order bar s]"

lemma phase_step_det: "\<lbrakk> phase_step h w p q a r; phase_step h w p q b t \<rbrakk> \<Longrightarrow> a = b \<and> r = t"
  by (induction rule: phase_step.induct; erule phase_stepE; simp)

lemma place_cong:
  "place_buy_order bar (s\<lparr> ms_price_sequence := xs \<rparr>) = place_buy_order bar s"
  "place_buy_order bar (s\<lparr> ms_has_position := p \<rparr>) = place_buy_order bar s"
  "place_buy_order bar (s\<lparr> ms_days_counter := n \<rparr>) = place_buy_order bar s"
  "place_sell_order bar (s\<lparr> ms_price_sequence := xs \<rparr>) = place_sell_order bar s"
  "place_sell_order bar (s\<lparr> ms_has_position := p \<rparr>) = place_sell_order bar s"
  "place_sell_order bar (s\<lparr> ms_days_counter := n \<rparr>) = place_sell_order bar s"
  by (simp_all add: place_buy_order_def place_sell_order_def)

text \<open>The strategy is the automaton: outside the state nothing uses, a bar makes exactly one step of it,
  determined by whether the book holds a position; the calls are those of the step, the periods and
  the account stay, and the state \<open>BUYING\<close> is never entered.\<close>

theorem my_on_bar_steps:
  assumes "ms_current_state s \<noteq> BUYING"
  shows "\<exists>a. phase_step (ms_hold_days s) (ms_wait_days s) (has_positions (bk_positions book)) (phase s) a
      (phase (snd (my_on_bar book bar s))) \<and>
    fst (my_on_bar book bar s) = act_calls a bar s \<and> ms_current_state (snd (my_on_bar book bar s)) \<noteq> BUYING \<and>
    (\<forall>a' q. phase_step (ms_hold_days s) (ms_wait_days s) (has_positions (bk_positions book)) (phase s) a' q \<longrightarrow>
       a' = a \<and> q = phase (snd (my_on_bar book bar s)))"
proof -
  define p where "p = has_positions (bk_positions book)"
  define q where "q = phase (snd (my_on_bar book bar s))"
  obtain a where a: "phase_step (ms_hold_days s) (ms_wait_days s) p (phase s) a q \<and>
      fst (my_on_bar book bar s) = act_calls a bar s \<and> ms_current_state (snd (my_on_bar book bar s)) \<noteq> BUYING"
  proof (cases "ms_current_state s")
    case INITIAL_BUY
    then show ?thesis using that [of Buys] that [of Nothing]
      by (cases p) (auto simp: my_on_bar_def execute_trading_logic_def Let_def acted_def phase_def place_cong q_def
          p_def [symmetric] intro: phase_step.intros)
  next
    case HOLDING
    then show ?thesis using that [of Nothing] that [of Sells]
      by (cases "ms_days_counter s + 1 < ms_hold_days s"; cases p)
         (auto simp: my_on_bar_def execute_trading_logic_def Let_def acted_def phase_def place_cong q_def p_def [symmetric] not_less
          intro: phase_step.intros)
  next
    case WAITING
    then show ?thesis using that [of Nothing] that [of Buys]
      by (cases "ms_days_counter s + 1 < ms_wait_days s"; cases p)
         (auto simp: my_on_bar_def execute_trading_logic_def Let_def acted_def phase_def place_cong q_def p_def [symmetric] not_less
          intro: phase_step.intros)
  qed (use assms in simp)
  with phase_step_det [OF conjunct1 [OF a]] show ?thesis unfolding p_def q_def by blast
qed

lemma my_on_bar_steps_witness:
  "\<exists>a. phase_step 5 5 False (INITIAL_BUY, 0) a (phase (snd (my_on_bar Book_empty Bar_zero MyStrategy_new))) \<and>
     fst (my_on_bar Book_empty Bar_zero MyStrategy_new) = act_calls a Bar_zero MyStrategy_new"
proof -
  have "\<not> has_positions (bk_positions Book_empty)"
    by (simp add: has_positions_def Book_empty_def PositionBook_empty_def)
  moreover have "ms_current_state MyStrategy_new \<noteq> BUYING" by (simp add: MyStrategy_new_def)
  ultimately show ?thesis using my_on_bar_steps [of MyStrategy_new Book_empty Bar_zero]
    by (auto simp: phase_def MyStrategy_new_def)
qed

section \<open>In the engine\<close>

definition my_order :: "MyStrategy \<Rightarrow> Request \<Rightarrow> bool" where
  "my_order s r \<longleftrightarrow> (\<exists>oi. r = Req_insert (jid_build (ms_institution s) (ms_account s)) oi \<and> oi_price_type oi = Price_Limit \<and>
     oi_volume oi = ms_trading_volume s \<and>
     (oi_side oi = Side_Buy \<and> oi_offset oi = Offset_Open \<or> oi_side oi = Side_Sell \<and> oi_offset oi = Offset_Close))"

definition my_runs :: "MyStrategy \<Rightarrow> MyStrategy \<Rightarrow> bool" where
  "my_runs s t \<longleftrightarrow> ms_institution t = ms_institution s \<and> ms_account t = ms_account s \<and>
     ms_trading_volume t = ms_trading_volume s \<and> ms_hold_days t = ms_hold_days s \<and> ms_wait_days t = ms_wait_days s \<and>
     ms_current_state t \<noteq> BUYING \<and> length (ms_price_sequence t) \<le> 100 \<and> length (ms_quote_sequence t) \<le> 100"

lemma length_push_hundred: "length xs \<le> 100 \<Longrightarrow> length (push_hundred x xs) \<le> 100"
  by (auto simp: push_hundred_def Let_def)

lemma my_bar_config:
  "ms_institution (snd (my_on_bar book bar s)) = ms_institution s" "ms_account (snd (my_on_bar book bar s)) = ms_account s"
  "ms_trading_volume (snd (my_on_bar book bar s)) = ms_trading_volume s"
  "ms_hold_days (snd (my_on_bar book bar s)) = ms_hold_days s" "ms_wait_days (snd (my_on_bar book bar s)) = ms_wait_days s"
  "ms_price_sequence (snd (my_on_bar book bar s)) = push_hundred bar (ms_price_sequence s)"
  "ms_quote_sequence (snd (my_on_bar book bar s)) = ms_quote_sequence s"
  by (cases "ms_current_state s"; simp add: my_on_bar_def execute_trading_logic_def acted_def Let_def)+

lemma my_bar_state: "ms_current_state s \<noteq> BUYING \<Longrightarrow> ms_current_state (snd (my_on_bar book bar s)) \<noteq> BUYING"
  by (cases "ms_current_state s") (simp_all add: my_on_bar_def execute_trading_logic_def acted_def Let_def)

lemma my_bar_calls:
  "c \<in> set (fst (my_on_bar book bar s)) \<Longrightarrow> my_order s (call_request home c)"
  by (cases "ms_current_state s")
     (auto simp: my_on_bar_def execute_trading_logic_def Let_def my_order_def place_buy_order_def place_sell_order_def split: if_splits)

lemma my_order_config:
  "\<lbrakk> ms_institution t = ms_institution s; ms_account t = ms_account s; ms_trading_volume t = ms_trading_volume s \<rbrakk> \<Longrightarrow>
     my_order t r = my_order s r"
  by (simp add: my_order_def)

interpretation my: strategy_contract "my_strategy home" "my_runs s0" "my_order s0" for home s0
proof
  fix s cb book r
  assume s: "my_runs s0 s"
  show "my_runs s0 (fst (my_strategy home cb book s))"
    using s by (cases "(cb, book, s)" rule: my_callback.cases)
      (auto simp: my_strategy_def my_runs_def my_bar_config my_bar_state length_push_hundred my_on_quote_def split_beta)
  assume "r \<in> set (snd (my_strategy home cb book s))"
  then have "my_order s r"
    by (cases "(cb, book, s)" rule: my_callback.cases) (auto simp: my_strategy_def split_beta my_bar_calls)
  then show "my_order s0 r" using s my_order_config by (auto simp: my_runs_def my_order_def)
qed

lemma my_react_bar:
  fixes cp :: "MyStrategy CPEngine" and bar :: Bar
  defines "book \<equiv> book_update_bar bar (cp_book cp)"
  shows "\<exists>cp'. cp_react [my_strategy home] (Ev_Bar bar) source mem cp =
      Some (List.map (request_event \<circ> call_request home) (fst (my_on_bar book bar (cp_strategy_state cp))), mem, cp') \<and>
    cp_strategy_state cp' = snd (my_on_bar book bar (cp_strategy_state cp)) \<and> cp_book cp' = book"
  by (simp add: keeping_def cp_on_bar_def my_strategy_def book_def cp_log_def Let_def split_beta)

lemma my_react_trade:
  "\<exists>cp'. cp_react [my_strategy home] (Ev_Trade t) source mem cp = Some ([], mem, cp') \<and>
    cp_strategy_state cp' = cp_strategy_state cp \<and> cp_book cp' = book_update_trade t (cp_book cp)"
  by (simp add: keeping_def cp_on_trade_def my_strategy_def cp_log_def Let_def split_beta)

text \<open>
  A day of a market that fills every order at once and whole: the bar, and for every order the
  engine sends the trade that goes with it.
\<close>

fun fills_of :: "u32 \<Rightarrow> outbox \<Rightarrow> (Event \<times> u32) list" where
  "fills_of source [] = []"
| "fills_of source ((ch, Ev_OrderInput oi) # out) = (Ev_Trade (trade_from_orderinput oi Trade_zero), source) # fills_of source out"
| "fills_of source (_ # out) = fills_of source out"

fun orders_of :: "outbox \<Rightarrow> Side list" where
  "orders_of [] = []"
| "orders_of ((ch, Ev_OrderInput oi) # out) = oi_side oi # orders_of out"
| "orders_of (_ # out) = orders_of out"

definition my_day ::
    "u32 \<Rightarrow> u32 \<Rightarrow> Bar \<Rightarrow> DepthMem \<Rightarrow> MyStrategy CPEngine \<Rightarrow> (Side list \<times> DepthMem \<times> MyStrategy CPEngine) option" where
  "my_day home source bar mem cp =
     (case cp_react [my_strategy home] (Ev_Bar bar) source mem cp of
        None \<Rightarrow> None
      | Some (out, mem, cp) \<Rightarrow>
          map_option (\<lambda>(more, mem, cp). (orders_of (out @ more), mem, cp))
            (cp_run [my_strategy home] (fills_of source out) mem cp))"

fun my_days ::
    "u32 \<Rightarrow> u32 \<Rightarrow> Bar list \<Rightarrow> DepthMem \<Rightarrow> MyStrategy CPEngine \<Rightarrow> (Side list list \<times> DepthMem \<times> MyStrategy CPEngine) option" where
  "my_days home source [] mem cp = Some ([], mem, cp)"
| "my_days home source (bar # bars) mem cp =
     (case my_day home source bar mem cp of
        None \<Rightarrow> None
      | Some (sides, mem, cp) \<Rightarrow> map_option (\<lambda>(rest, mem, cp). (sides # rest, mem, cp)) (my_days home source bars mem cp))"

text \<open>A book that is flat, and one that holds one long position.\<close>

definition flat_book :: "Book \<Rightarrow> bool" where
  "flat_book b \<longleftrightarrow> pb_long (bk_positions b) = [] \<and> pb_short (bk_positions b) = []"

definition holds :: "u32 \<Rightarrow> double \<Rightarrow> Book \<Rightarrow> bool" where
  "holds k v b \<longleftrightarrow> (\<exists>p. pb_long (bk_positions b) = [(k, p)] \<and> ps_volume p = v) \<and> pb_short (bk_positions b) = []"

lemma umap_single: "umap_find [(k, p)] k = Some p" "umap_set k q [(k, p)] = [(k, q)]" "umap_set k q [] = [(k, q)]"
  "umap_erase k [(k, p)] = []"
  by (simp_all add: umap_find_def umap_set_def umap_erase_def)

lemma positions_of_bar: "bk_positions (book_update_bar bar b) =
    (if bar_instrument_id bar ! 0 = NUL \<or> bar_exchange_id bar ! 0 = NUL then bk_positions b
     else update_direction_pnl bar Dir_Short (update_direction_pnl bar Dir_Long (bk_positions b)))"
  by (simp add: book_update_bar_def Let_def update_asset_from_positions_def)

lemma flat_bar: "flat_book b \<Longrightarrow> flat_book (book_update_bar bar b)"
  by (simp add: flat_book_def positions_of_bar update_direction_pnl_def positions_get_def get_positions_by_direction_def)

lemma holds_bar:
  assumes "holds k v b" "hash_instrument (bar_exchange_id bar) (bar_instrument_id bar) = k"
  shows "holds k v (book_update_bar bar b)"
proof -
  obtain p where p: "pb_long (bk_positions b) = [(k, p)]" "ps_volume p = v" "pb_short (bk_positions b) = []"
    using assms(1) by (auto simp: holds_def)
  have "ps_volume (update_position_pnl bar p) = v" by (simp add: update_position_pnl_def p Let_def)
  then show ?thesis using p assms(2)
    by (simp add: holds_def positions_of_bar update_direction_pnl_def positions_get_def get_positions_by_direction_def
        upd_positions_def umap_single)
qed

lemma buy_fill:
  assumes "flat_book b" "tr_side t = Side_Buy" "tr_offset t = Offset_Open"
  shows "holds (hash_instrument (tr_exchange_id t) (tr_instrument_id t)) (tr_volume t) (book_update_trade t b)"
  using assms
  by (simp add: holds_def flat_book_def book_update_trade_def positions_update_def trade_direction_def
      get_positions_by_direction_def upd_positions_def umap_assign_def umap_single Let_def Position_assign_def position_of_trade_def)

lemma sell_fill:
  assumes "holds (hash_instrument (tr_exchange_id t) (tr_instrument_id t)) (tr_volume t) b" "is_finite (tr_volume t)"
    "tr_side t = Side_Sell" "tr_offset t = Offset_Close"
  shows "flat_book (book_update_trade t b)"
proof -
  have "tr_volume t - tr_volume t \<le> 0" by (simp add: sub_self assms(2) le_fin)
  then show ?thesis using assms
    by (auto simp: holds_def flat_book_def book_update_trade_def positions_update_def trade_direction_def
        get_positions_by_direction_def upd_positions_def umap_single Let_def)
qed

text \<open>A bar of one instrument, whose names the arrays of an order hold.\<close>

definition bar_of :: "string \<Rightarrow> string \<Rightarrow> Bar \<Rightarrow> bool" where
  "bar_of i e bar \<longleftrightarrow> arr_wf INSTRUMENT_ID_LEN (bar_instrument_id bar) \<and> arr_wf EXCHANGE_ID_LEN (bar_exchange_id bar) \<and>
     arr_str (bar_instrument_id bar) = i \<and> arr_str (bar_exchange_id bar) = e"

definition cycle :: "int \<Rightarrow> int \<Rightarrow> nat \<Rightarrow> Side list" where
  "cycle hold wait n =
     (let r = int n mod (hold + wait) in if r = 0 then [Side_Buy] else if r = hold then [Side_Sell] else [])"

text \<open>Before day \<open>n\<close>: the day before was the day \<open>r\<close> of its round.\<close>

definition ready :: "int \<Rightarrow> int \<Rightarrow> double \<Rightarrow> u32 \<Rightarrow> nat \<Rightarrow> MyStrategy CPEngine \<Rightarrow> bool" where
  "ready hold wait v k n cp \<longleftrightarrow>
     (let s = cp_strategy_state cp; r = (int n - 1) mod (hold + wait)
      in ms_hold_days s = hold \<and> ms_wait_days s = wait \<and> ms_trading_volume s = v \<and>
         (if n = 0 then ms_current_state s = INITIAL_BUY \<and> flat_book (cp_book cp)
          else if r < hold then ms_current_state s = HOLDING \<and> ms_days_counter s = r \<and> holds k v (cp_book cp)
          else ms_current_state s = WAITING \<and> ms_days_counter s = r - hold \<and> flat_book (cp_book cp)))"

lemma has_positions_iff: "flat_book b \<Longrightarrow> \<not> has_positions (bk_positions b)" "holds k v b \<Longrightarrow> has_positions (bk_positions b)"
  by (auto simp: flat_book_def holds_def has_positions_def)

definition order_of_act :: "Act \<Rightarrow> Bar \<Rightarrow> MyStrategy \<Rightarrow> OrderInput list" where
  "order_of_act a bar s = List.map (\<lambda>c. case c of Call_insert i ac oi \<Rightarrow> oi) (act_calls a bar s)"

text \<open>A day on which the strategy sends \<open>a\<close>.\<close>

lemma my_day_act:
  assumes "fst (my_on_bar (book_update_bar bar (cp_book cp)) bar (cp_strategy_state cp)) = act_calls a bar (cp_strategy_state cp)"
  shows "\<exists>cp'. my_day home source bar mem cp = Some ((case a of Nothing \<Rightarrow> [] | Buys \<Rightarrow> [Side_Buy] | Sells \<Rightarrow> [Side_Sell]), mem, cp') \<and>
    cp_strategy_state cp' = snd (my_on_bar (book_update_bar bar (cp_book cp)) bar (cp_strategy_state cp)) \<and>
    cp_book cp' = fold (\<lambda>oi. book_update_trade (trade_from_orderinput oi Trade_zero))
      (order_of_act a bar (cp_strategy_state cp)) (book_update_bar bar (cp_book cp))"
proof -
  obtain cp1 where r: "cp_react [my_strategy home] (Ev_Bar bar) source mem cp =
      Some (List.map (request_event \<circ> call_request home) (act_calls a bar (cp_strategy_state cp)), mem, cp1)"
    "cp_strategy_state cp1 = snd (my_on_bar (book_update_bar bar (cp_book cp)) bar (cp_strategy_state cp))"
    "cp_book cp1 = book_update_bar bar (cp_book cp)"
    using my_react_bar [of home bar source mem cp] assms by auto
  have t: "\<exists>cp2. cp_run [my_strategy home] [(Ev_Trade t, source)] mem cp1 = Some ([], mem, cp2) \<and>
      cp_strategy_state cp2 = cp_strategy_state cp1 \<and> cp_book cp2 = book_update_trade t (cp_book cp1)" for t
    using my_react_trade [of home t source mem cp1] by (auto simp del: cp_react.simps)
  show ?thesis
  proof (cases a)
    case Nothing
    then show ?thesis using r by (simp add: my_day_def order_of_act_def del: cp_react.simps)
  next
    case Buys
    then show ?thesis using r t [of "trade_from_orderinput (hd (order_of_act Buys bar (cp_strategy_state cp))) Trade_zero"]
      by (auto simp: my_day_def order_of_act_def place_buy_order_def simp del: cp_react.simps cp_run.simps)
  next
    case Sells
    then show ?thesis using r t [of "trade_from_orderinput (hd (order_of_act Sells bar (cp_strategy_state cp))) Trade_zero"]
      by (auto simp: my_day_def order_of_act_def place_sell_order_def simp del: cp_react.simps cp_run.simps)
  qed
qed

lemma filled_key:
  assumes "bar_of i e bar"
  shows "hash_instrument (bar_exchange_id bar) (bar_instrument_id bar) = hash_instrument e i"
    "hash_instrument (arr_assign (arr_zero n) (arr_assign (arr_zero n') (bar_exchange_id bar)))
       (arr_assign (arr_zero m) (arr_assign (arr_zero m') (bar_instrument_id bar))) = hash_instrument e i"
  using assms by (auto simp: bar_of_def intro!: hash_instrument_cong)

lemma filled_book:
  assumes "bar_of i e bar" "is_finite (ms_trading_volume s)"
  defines "k \<equiv> hash_instrument e i"
  defines "fill \<equiv> \<lambda>a. fold (\<lambda>oi. book_update_trade (trade_from_orderinput oi Trade_zero)) (order_of_act a bar s)"
  shows "flat_book b \<Longrightarrow> holds k (ms_trading_volume s) (fill Buys b)"
    "holds k (ms_trading_volume s) b \<Longrightarrow> flat_book (fill Sells b)" "fill Nothing b = b"
proof -
  let ?t = "\<lambda>a. trade_from_orderinput (hd (order_of_act a bar s)) Trade_zero"
  have key: "hash_instrument (tr_exchange_id (?t a)) (tr_instrument_id (?t a)) = k" if "a \<noteq> Nothing" for a
    using that filled_key(2) [OF assms(1)]
    by (cases a) (simp_all add: order_of_act_def place_buy_order_def place_sell_order_def trade_from_orderinput_def
        Trade_zero_def OrderInput_zero_def k_def)
  have sel: "tr_volume (?t a) = ms_trading_volume s" if "a \<noteq> Nothing" for a
    using that by (cases a) (simp_all add: order_of_act_def place_buy_order_def place_sell_order_def trade_from_orderinput_def)
  show "holds k (ms_trading_volume s) (fill Buys b)" if "flat_book b"
    using buy_fill [OF that, of "?t Buys"] key [of Buys] sel [of Buys]
    by (simp add: fill_def order_of_act_def place_buy_order_def trade_from_orderinput_def)
  show "flat_book (fill Sells b)" if "holds k (ms_trading_volume s) b"
    using sell_fill [of "?t Sells" b] key [of Sells] sel [of Sells] that assms(2)
    by (simp add: fill_def order_of_act_def place_sell_order_def trade_from_orderinput_def)
  show "fill Nothing b = b" by (simp add: fill_def order_of_act_def)
qed


lemma day_of_round:
  fixes m :: int
  assumes "0 < m"
  shows "int n mod m = (if (int n - 1) mod m + 1 = m then 0 else (int n - 1) mod m + 1)"
proof -
  define r where "r = (int n - 1) mod m"
  have r: "0 \<le> r" "r < m" using assms by (simp_all add: r_def)
  have "int n mod m = (int n - 1 + 1) mod m" by simp
  also have "\<dots> = (r + 1) mod m" unfolding r_def by (rule mod_add_left_eq [symmetric])
  also have "\<dots> = (if r + 1 = m then 0 else r + 1)" using r by simp
  finally show ?thesis by (simp add: r_def)
qed

definition act_of :: "int \<Rightarrow> int \<Rightarrow> nat \<Rightarrow> Act" where
  "act_of hold wait n = (let r = int n mod (hold + wait) in if r = 0 then Buys else if r = hold then Sells else Nothing)"

lemma ready_act:
  assumes "ready hold wait v k n cp" "1 \<le> hold" "1 \<le> wait" "hash_instrument (bar_exchange_id bar) (bar_instrument_id bar) = k"
  defines "s \<equiv> cp_strategy_state cp" and "book \<equiv> book_update_bar bar (cp_book cp)" and "a \<equiv> act_of hold wait n"
  shows "fst (my_on_bar book bar s) = act_calls a bar s \<and> (a = Buys \<longrightarrow> flat_book book) \<and> (a = Sells \<longrightarrow> holds k v book) \<and>
    (\<forall>cp'. cp_strategy_state cp' = snd (my_on_bar book bar s) \<and>
       (case a of Buys \<Rightarrow> holds k v (cp_book cp') | Sells \<Rightarrow> flat_book (cp_book cp') | Nothing \<Rightarrow> cp_book cp' = book) \<longrightarrow>
       ready hold wait v k (Suc n) cp')"
proof -
  define r where "r = (int n - 1) mod (hold + wait)"
  define r' where "r' = int n mod (hold + wait)"
  have m: "0 < hold + wait" using assms(2,3) by simp
  have r: "0 \<le> r" "r < hold + wait" using m by (simp_all add: r_def)
  have r': "r' = (if r + 1 = hold + wait then 0 else r + 1)" unfolding r_def r'_def by (rule day_of_round [OF m])
  have a: "a = (if r' = 0 then Buys else if r' = hold then Sells else Nothing)" by (simp add: a_def act_of_def r'_def Let_def)
  have c: "ms_hold_days s = hold" "ms_wait_days s = wait" "ms_trading_volume s = v"
    using assms(1) by (simp_all add: ready_def s_def Let_def)
  have nxt: "ready hold wait v k (Suc n) cp' \<longleftrightarrow>
      (let t = cp_strategy_state cp' in ms_hold_days t = hold \<and> ms_wait_days t = wait \<and> ms_trading_volume t = v \<and>
         (if r' < hold then ms_current_state t = HOLDING \<and> ms_days_counter t = r' \<and> holds k v (cp_book cp')
          else ms_current_state t = WAITING \<and> ms_days_counter t = r' - hold \<and> flat_book (cp_book cp')))" for cp'
    by (simp add: ready_def r'_def Let_def)
  note run = my_on_bar_def execute_trading_logic_def Let_def acted_def place_cong
  consider (start) "n = 0" | (held) "n \<noteq> 0" "r < hold" | (out) "n \<noteq> 0" "\<not> r < hold" by blast
  then show ?thesis
  proof cases
    case start
    then have i: "ms_current_state s = INITIAL_BUY" "flat_book book" "r' = 0"
      using assms(1) flat_bar by (simp_all add: ready_def s_def book_def r'_def Let_def)
    then show ?thesis using has_positions_iff(1) [OF i(2)] assms(2) c by (simp add: a nxt run)
  next
    case held
    then have i: "ms_current_state s = HOLDING" "ms_days_counter s = r" "holds k v book"
      using assms(1) holds_bar [OF _ assms(4)] by (simp_all add: ready_def s_def book_def r_def Let_def)
    have h: "r' = r + 1" using held(2) assms(3) r' by simp
    show ?thesis using has_positions_iff(2) [OF i(3)] i c h held(2) r(1) assms(3)
      by (cases "r + 1 = hold") (simp_all add: a nxt run)
  next
    case out
    then have i: "ms_current_state s = WAITING" "ms_days_counter s = r - hold" "flat_book book"
      using assms(1) flat_bar by (simp_all add: ready_def s_def book_def r_def Let_def)
    show ?thesis using has_positions_iff(1) [OF i(3)] i c out(2) r r' assms(2)
      by (cases "r + 1 = hold + wait") (simp_all add: a nxt run)
  qed
qed

lemma ready_day:
  assumes "ready hold wait v (hash_instrument e i) n cp" "1 \<le> hold" "1 \<le> wait" "bar_of i e bar" "is_finite v"
  shows "\<exists>cp'. my_day home source bar mem cp = Some (cycle hold wait n, mem, cp') \<and>
    ready hold wait v (hash_instrument e i) (Suc n) cp'"
proof -
  let ?a = "act_of hold wait n" and ?s = "cp_strategy_state cp" and ?b = "book_update_bar bar (cp_book cp)"
  have v: "ms_trading_volume ?s = v" using assms(1) by (simp add: ready_def Let_def)
  note act = ready_act [OF assms(1,2,3) filled_key(1) [OF assms(4)]]
  obtain cp' where d: "my_day home source bar mem cp = Some ((case ?a of Nothing \<Rightarrow> [] | Buys \<Rightarrow> [Side_Buy] | Sells \<Rightarrow> [Side_Sell]), mem, cp')"
    "cp_strategy_state cp' = snd (my_on_bar ?b bar ?s)"
    "cp_book cp' = fold (\<lambda>oi. book_update_trade (trade_from_orderinput oi Trade_zero)) (order_of_act ?a bar ?s) ?b"
    using my_day_act [OF conjunct1 [OF act]] by blast
  have "is_finite (ms_trading_volume ?s)" using assms(5) v by simp
  note fill = filled_book [OF assms(4) this, unfolded v]
  have "case ?a of Buys \<Rightarrow> holds (hash_instrument e i) v (cp_book cp') | Sells \<Rightarrow> flat_book (cp_book cp') | Nothing \<Rightarrow> cp_book cp' = ?b"
    using act fill unfolding d(3) by (cases ?a) auto
  then have "ready hold wait v (hash_instrument e i) (Suc n) cp'" using act d(2) by blast
  moreover have "(case ?a of Nothing \<Rightarrow> [] | Buys \<Rightarrow> [Side_Buy] | Sells \<Rightarrow> [Side_Sell]) = cycle hold wait n"
    by (simp add: act_of_def cycle_def Let_def)
  ultimately show ?thesis using d(1) by simp
qed

text \<open>C23: in a market that fills every order, the engine, the book and the strategy together run in rounds for
  ever: with holding and waiting periods of at least a day, day \<open>n\<close> buys when \<open>n mod (hold + wait) = 0\<close>,
  sells when it is \<open>hold\<close>, and sends nothing otherwise. Each sale finds the position the purchase
  left in the book and empties it.\<close>

theorem my_strategy_cycle:
  assumes "flat_book (cp_book cp)" "cp_strategy_state cp = s" "ms_current_state s = INITIAL_BUY"
    "1 \<le> ms_hold_days s" "1 \<le> ms_wait_days s" "is_finite (ms_trading_volume s)" "list_all (bar_of i e) bars"
  shows "\<exists>cp'. my_days home source bars mem cp =
    Some (List.map (cycle (ms_hold_days s) (ms_wait_days s)) [0..<length bars], mem, cp')"
proof -
  define k where "k = hash_instrument e i"
  have "\<exists>cp'. my_days home source bs mem c = Some (List.map (cycle (ms_hold_days s) (ms_wait_days s)) [n..<n + length bs], mem, cp')"
    if "ready (ms_hold_days s) (ms_wait_days s) (ms_trading_volume s) k n c" "list_all (bar_of i e) bs" for n c bs
    using that
  proof (induction bs arbitrary: n c)
    case (Cons b bs)
    obtain c1 where d: "my_day home source b mem c = Some (cycle (ms_hold_days s) (ms_wait_days s) n, mem, c1)"
      "ready (ms_hold_days s) (ms_wait_days s) (ms_trading_volume s) k (Suc n) c1"
      using ready_day [OF Cons.prems(1) [unfolded k_def] assms(4,5) _ assms(6), of b home source mem] Cons.prems(2)
      by (auto simp: k_def)
    have "[n..<n + length (b # bs)] = n # [Suc n..<Suc n + length bs]" by (simp add: upt_rec)
    then show ?case using Cons.IH [OF d(2)] Cons.prems(2) d(1) by auto
  qed simp
  moreover have "ready (ms_hold_days s) (ms_wait_days s) (ms_trading_volume s) k 0 cp"
    using assms by (simp add: ready_def Let_def)
  ultimately show ?thesis using assms(7) by fastforce
qed

lemma my_strategy_cycle_witness:
  "\<forall>mem. \<exists>cp'. my_days 7 3 [Bar_zero, Bar_zero, Bar_zero, Bar_zero, Bar_zero] mem
     (sample_engine (MyStrategy_new\<lparr> ms_hold_days := 2, ms_wait_days := 1 \<rparr>)) =
     Some ([[Side_Buy], [], [Side_Sell], [Side_Buy], []], mem, cp')"
proof
  fix mem
  let ?s = "MyStrategy_new\<lparr> ms_hold_days := 2, ms_wait_days := 1 \<rparr>"
  have "flat_book (cp_book (sample_engine ?s))"
    by (simp add: flat_book_def sample_engine_def Book_empty_def PositionBook_empty_def)
  moreover have "bar_of [] [] Bar_zero"
    by (simp add: bar_of_def Bar_zero_def arr_wf_zero INSTRUMENT_ID_LEN_def EXCHANGE_ID_LEN_def)
  moreover have "cp_strategy_state (sample_engine ?s) = ?s" by (simp add: sample_engine_def)
  moreover have "ms_current_state ?s = INITIAL_BUY" "1 \<le> ms_hold_days ?s" "1 \<le> ms_wait_days ?s" "is_finite (ms_trading_volume ?s)"
    by (simp_all add: MyStrategy_new_def lit_def mk_numeral)
  ultimately have "\<exists>cp'. my_days 7 3 [Bar_zero, Bar_zero, Bar_zero, Bar_zero, Bar_zero] mem (sample_engine ?s) =
      Some (List.map (cycle (ms_hold_days ?s) (ms_wait_days ?s)) [0..<length [Bar_zero, Bar_zero, Bar_zero, Bar_zero, Bar_zero]], mem, cp')"
    by (intro my_strategy_cycle) simp_all
  moreover have "List.map (cycle (ms_hold_days ?s) (ms_wait_days ?s)) [0..<length [Bar_zero, Bar_zero, Bar_zero, Bar_zero, Bar_zero]] =
      [[Side_Buy], [], [Side_Sell], [Side_Buy], []]"
    by (simp add: cycle_def upt_rec)
  ultimately show "\<exists>cp'. my_days 7 3 [Bar_zero, Bar_zero, Bar_zero, Bar_zero, Bar_zero] mem (sample_engine ?s) =
     Some ([[Side_Buy], [], [Side_Sell], [Side_Buy], []], mem, cp')" by (simp only:)
qed


text \<open>Whatever events the engine feeds it, the strategy sends nothing but limit orders of its configured
  volume to its own account, buying to open and selling to close, and its queues never hold more
  than a hundred elements.\<close>

theorem my_in_engine:
  assumes "cp_run [my_strategy home] evs mem cp = Some (out, mem', cp')"
    "ms_current_state (cp_strategy_state cp) \<noteq> BUYING" "ms_price_sequence (cp_strategy_state cp) = []"
    "ms_quote_sequence (cp_strategy_state cp) = []"
  shows "(\<forall>m \<in> set out. engine_own m \<or> (\<exists>r. my_order (cp_strategy_state cp) r \<and> m = request_event r)) \<and>
    length (ms_price_sequence (cp_strategy_state cp')) \<le> 100 \<and> length (ms_quote_sequence (cp_strategy_state cp')) \<le> 100"
proof -
  have "my_runs (cp_strategy_state cp) (cp_strategy_state cp)" using assms by (simp add: my_runs_def)
  from my.good_run [OF assms(1) this] show ?thesis
    unfolding my.good_def my.allowed_def by (auto simp: my_runs_def)
qed

lemma my_in_engine_witness:
  "\<exists>out mem' cp'. cp_run [my_strategy 7] [(Ev_Bar Bar_zero, 3)] (fst (board_init 0 0 False)) (sample_engine MyStrategy_new) =
      Some (out, mem', cp') \<and> length (ms_price_sequence (cp_strategy_state cp')) \<le> 100"
proof -
  obtain out mem' cp' where r: "cp_run [my_strategy 7] [(Ev_Bar Bar_zero, 3)] (fst (board_init 0 0 False))
      (sample_engine MyStrategy_new) = Some (out, mem', cp')"
    by (auto simp: keeping_def simp del: invoke.simps)
  from my_in_engine [OF r] r show ?thesis by (simp add: sample_engine_def MyStrategy_new_def)
qed

end
