(* ===== verification/Codec.thy ===== *)
theory Codec
  imports Book Messages
begin

text \<open>
  The byte forms of the messages of variable length (src/core/types.cpp: Register, Deregister and
  MDSubscribe; src/core/book.cpp: PositionBook), as they travel in the frames of a journal. A field
  of fixed size is its memory on the machines the program is built for: little endian, two's
  complement, IEEE 754 binary64, members aligned to their size. Padding bytes are written as zero
  and ignored when read. Reading takes bytes from the front; a read behind the end of the buffer is
  undefined in the code and \<open>Outside\<close> here; an exception is \<open>Throws\<close>.

  The locale \<open>codec\<close> is the contract of a field: what is read where it was written, and the rest
  left alone. Its interpretations are the fields of the messages.
\<close>

section \<open>Reading and writing\<close>

type_synonym bytes = "u8 list"

datatype 'a outcome = Throws | Outside | Value 'a

fun le_bytes :: "nat \<Rightarrow> int \<Rightarrow> bytes" where
  "le_bytes 0 v = []"
| "le_bytes (Suc k) v = word_of_int v # le_bytes k (v div 256)"

fun le_value :: "bytes \<Rightarrow> int" where
  "le_value [] = 0"
| "le_value (b # bs) = uint b + 256 * le_value bs"

definition get_bytes :: "nat \<Rightarrow> bytes \<Rightarrow> (bytes \<times> bytes) option" where
  "get_bytes n bs = (if n \<le> length bs then Some (take n bs, drop n bs) else None)"

text \<open>A field read through a conversion of its bytes; None when they mean nothing.\<close>

definition get_as :: "nat \<Rightarrow> (bytes \<Rightarrow> 'a option) \<Rightarrow> bytes \<Rightarrow> ('a \<times> bytes) option" where
  "get_as n conv bs = Option.bind (get_bytes n bs) (\<lambda>(field, rest). map_option (\<lambda>v. (v, rest)) (conv field))"

fun get_many :: "(bytes \<Rightarrow> ('a \<times> bytes) option) \<Rightarrow> nat \<Rightarrow> bytes \<Rightarrow> ('a list \<times> bytes) option" where
  "get_many get 0 bs = Some ([], bs)"
| "get_many get (Suc n) bs =
     Option.bind (get bs) (\<lambda>(x, bs). map_option (\<lambda>(xs, bs). (x # xs, bs)) (get_many get n bs))"

section \<open>Fields\<close>

definition put_u32 :: "u32 \<Rightarrow> bytes" where "put_u32 w = le_bytes 4 (uint w)"
definition get_u32 :: "bytes \<Rightarrow> (u32 \<times> bytes) option" where
  "get_u32 = get_as 4 (\<lambda>bs. Some (word_of_int (le_value bs)))"

text \<open>Signed integers of \<open>k\<close> bytes.\<close>

definition put_int :: "nat \<Rightarrow> int \<Rightarrow> bytes" where "put_int k v = le_bytes k v"
definition get_int :: "nat \<Rightarrow> bytes \<Rightarrow> (int \<times> bytes) option" where
  "get_int k = get_as k (\<lambda>bs. let v = le_value bs in Some (if 2 * v < 256 ^ k then v else v - 256 ^ k))"

definition put_chars :: "carr \<Rightarrow> bytes" where "put_chars s = List.map (\<lambda>c. word_of_int (of_char c)) s"
definition get_chars :: "nat \<Rightarrow> bytes \<Rightarrow> (carr \<times> bytes) option" where
  "get_chars n = get_as n (\<lambda>bs. Some (List.map (\<lambda>b. char_of (uint b)) bs))"

text \<open>An enumeration of one byte, its enumerators counted from zero.\<close>

definition put_enum :: "'a list \<Rightarrow> 'a \<Rightarrow> bytes" where "put_enum all_values x = [of_nat (index_of x all_values)]"
definition get_enum :: "'a list \<Rightarrow> bytes \<Rightarrow> ('a \<times> bytes) option" where
  "get_enum all_values = get_as 1 (\<lambda>bs. let n = nat (le_value bs) in if n < length all_values then Some (all_values ! n) else None)"

definition get_padding :: "nat \<Rightarrow> bytes \<Rightarrow> (unit \<times> bytes) option" where
  "get_padding n = get_as n (\<lambda>bs. Some ())"

text \<open>
  binary64: sign, eleven bits of exponent, 52 of fraction. A NaN is written as the quiet one.
\<close>

fun double_bits :: "double \<Rightarrow> int" where
  "double_bits NaN = 2047 * 2 ^ 52 + 2 ^ 51"
| "double_bits (FInf s) = (if s then 2 ^ 63 else 0) + 2047 * 2 ^ 52"
| "double_bits NegZero = 2 ^ 63"
| "double_bits (Fin q) =
     (if q = 0 then 0
      else let e = ulp_exp \<bar>q\<bar>; m = rne (\<bar>q\<bar> / 2 powi e)
           in (if q < 0 then 2 ^ 63 else 0) + (if m < 2 ^ 52 then m else (e + 1075) * 2 ^ 52 + (m - 2 ^ 52)))"

definition bits_double :: "int \<Rightarrow> double" where
  "bits_double b =
     (let neg = 2 ^ 63 \<le> b; r = b mod 2 ^ 63; ex = r div 2 ^ 52; f = r mod 2 ^ 52;
          signed = (\<lambda>q. Fin (if neg then - q else q))
      in if ex = 2047 then (if f = 0 then FInf neg else NaN)
         else if ex = 0 then (if f = 0 then (if neg then NegZero else Fin 0) else signed (of_int f * 2 powi (- 1074)))
         else signed (of_int (f + 2 ^ 52) * 2 powi (ex - 1075)))"

definition put_double :: "double \<Rightarrow> bytes" where "put_double d = le_bytes 8 (double_bits d)"
definition get_double :: "bytes \<Rightarrow> (double \<times> bytes) option" where
  "get_double = get_as 8 (\<lambda>bs. Some (bits_double (le_value bs)))"

section \<open>Laws of the fields\<close>

lemma length_le_bytes [simp]: "length (le_bytes k v) = k"
  by (induction k arbitrary: v) auto

lemma le_value_bytes: "le_value (le_bytes k v) = v mod 256 ^ k"
proof (induction k arbitrary: v)
  case (Suc k)
  have "uint (word_of_int v :: u8) = v mod 256" by (simp add: unsigned_of_int take_bit_eq_mod)
  then show ?case using zmod_zmult2_eq [of "256 ^ k" v 256] by (simp add: Suc)
qed simp

lemma get_as_append: "\<lbrakk> length bs = n; conv bs = Some v \<rbrakk> \<Longrightarrow> get_as n conv (bs @ rest) = Some (v, rest)"
  by (simp add: get_as_def get_bytes_def)

locale codec =
  fixes put :: "'a \<Rightarrow> bytes" and get :: "bytes \<Rightarrow> ('a \<times> bytes) option" and ok :: "'a \<Rightarrow> bool"
  assumes get_put: "ok x \<Longrightarrow> get (put x @ rest) = Some (x, rest)"
begin

lemma get_put_end: "ok x \<Longrightarrow> get (put x) = Some (x, [])"
  using get_put [of x "[]"] by simp

lemma get_many_put: "list_all ok xs \<Longrightarrow> get_many get (length xs) (concat (List.map put xs) @ rest) = Some (xs, rest)"
  by (induction xs) (simp_all add: get_put)

lemma put_inj: "\<lbrakk> ok x; ok y; put x @ r = put y @ s \<rbrakk> \<Longrightarrow> x = y \<and> r = s"
  using get_put [of x r] get_put [of y s] by (metis option.inject prod.inject)

end

lemma word_of_uint_mod: "word_of_int (uint (w :: u32) mod 4294967296) = w"
proof -
  have "uint w < 2 ^ LENGTH(32)" by (rule uint_lt2p)
  then have "uint w mod 4294967296 = uint w" by (intro mod_pos_pos_trivial) simp_all
  then show ?thesis by (simp only: word_of_int_uint)
qed

interpretation u32: codec put_u32 get_u32 "\<lambda>_. True"
  by unfold_locales (simp add: put_u32_def get_u32_def get_as_append le_value_bytes word_of_uint_mod)

lemma two_complement:
  fixes v p :: int
  assumes "0 < p" "- p \<le> 2 * v" "2 * v < p"
  shows "(if 2 * (v mod p) < p then v mod p else v mod p - p) = v"
proof (cases "0 \<le> v")
  case True
  then have "v mod p = v" using assms by (intro mod_pos_pos_trivial) auto
  then show ?thesis using assms by simp
next
  case False
  have "v mod p = (v + p) mod p" by simp
  also have "\<dots> = v + p" using assms False by (intro mod_pos_pos_trivial) auto
  finally show ?thesis using assms by simp
qed

interpretation sint: codec "put_int k" "get_int k" "\<lambda>v. 0 < k \<and> - (256 ^ k) \<le> 2 * v \<and> 2 * v < 256 ^ k" for k
proof
  fix v :: int and rest
  assume "0 < k \<and> - (256 ^ k) \<le> 2 * v \<and> 2 * v < 256 ^ k"
  then show "get_int k (put_int k v @ rest) = Some (v, rest)"
    unfolding get_int_def put_int_def using two_complement [of "256 ^ k" v]
    by (intro get_as_append) (simp_all add: le_value_bytes Let_def)
qed

interpretation chars: codec put_chars "get_chars n" "\<lambda>s. length s = n" for n
proof
  fix s :: carr and rest
  assume "length s = n"
  moreover have "char_of (uint (word_of_int (of_char c) :: u8)) = c" for c
  proof -
    have "(0 :: int) \<le> of_char c" "of_char c < (256 :: int)" by (simp_all add: of_char_def horner_sum_bit_eq_take_bit)
    then show ?thesis by (simp add: unsigned_of_int take_bit_int_eq_self)
  qed
  ultimately show "get_chars n (put_chars s @ rest) = Some (s, rest)"
    unfolding get_chars_def by (intro get_as_append) (simp_all add: put_chars_def comp_def)
qed

interpretation enumerators: codec "put_enum xs" "get_enum xs" "\<lambda>x. x \<in> set xs \<and> length xs \<le> 128" for xs
proof
  fix x :: 'a and rest
  assume x: "x \<in> set xs \<and> length xs \<le> 128"
  note i = index_of_nth [OF conjunct1 [OF x]]
  have "nat (le_value (put_enum xs x)) = index_of x xs"
    using i x by (simp add: put_enum_def unsigned_of_nat take_bit_nat_eq_self)
  then show "get_enum xs (put_enum xs x @ rest) = Some (x, rest)"
    unfolding get_enum_def using i by (intro get_as_append) (simp_all add: put_enum_def Let_def)
qed


lemma mantissa_bounds:
  assumes "on_grid q" "0 < q"
  defines "e \<equiv> ulp_exp q" and "m \<equiv> rne (q / 2 powi ulp_exp q)"
  shows "q = of_int m * 2 powi e" "0 < m" "m < 2 ^ 53" "- 1074 \<le> e" "e \<le> 971" "m < 2 ^ 52 \<Longrightarrow> e = - 1074"
proof -
  show q: "q = of_int m * 2 powi e" using assms(1,2) by (simp add: on_grid_def fl_def flp_def Let_def e_def m_def)
  then have p: "0 < of_int m * (2 :: rat) powi e" using assms(2) by simp
  have "(0 :: rat) < 2 powi e" by simp
  with p have "(0 :: rat) < of_int m" by (rule zero_less_mult_pos2)
  then show "0 < m" by simp
  have d: "q / 2 powi e = of_int m" using q by simp
  have "of_int m < (2 :: rat) ^ 53" using ulp_exp_scaled(1) [OF assms(2)] d by (simp add: e_def)
  then have "(of_int m :: rat) < of_int (2 ^ 53)" by simp
  then show "m < 2 ^ 53" by (simp only: of_int_less_iff)
  show e: "- 1074 \<le> e" by (simp add: e_def ulp_exp_def)
  show "e = - 1074" if "m < 2 ^ 52"
  proof (rule ccontr)
    assume "e \<noteq> - 1074"
    then have "ulp_exp q = rlog2 q - 52" by (simp add: e_def ulp_exp_def max_def split: if_splits)
    from ulp_exp_scaled(2) [OF assms(2) this] have "(of_int (2 ^ 52) :: rat) \<le> of_int m" using d by (simp add: e_def)
    then show False using that by (simp only: of_int_le_iff)
  qed
  show "e \<le> 971"
  proof (rule ccontr)
    assume n: "\<not> e \<le> 971"
    then have "ulp_exp q = rlog2 q - 52" by (simp add: e_def ulp_exp_def max_def split: if_splits)
    then have "2 powi 1024 \<le> (2 :: rat) powi rlog2 q" using n by (simp only: powi_int_le_iff) (simp add: e_def)
    also have "\<dots> \<le> q" using rlog2_bounds [OF assms(2)] by simp
    also have "q < 2 ^ 1024" using assms(1,2) by (simp add: on_grid_def)
    finally show False using power_int_of_nat [of "2 :: rat" 1024] by simp
  qed
qed

lemma bits_parts:
  fixes f ex :: int
  assumes "0 \<le> f" "f < 2 ^ 52" "0 \<le> ex" "ex < 2048"
  shows "(ex * 2 ^ 52 + f) div 2 ^ 52 = ex" "(ex * 2 ^ 52 + f) mod 2 ^ 52 = f" "ex * 2 ^ 52 + f < 2 ^ 63" "0 \<le> ex * 2 ^ 52 + f"
proof -
  show "(ex * 2 ^ 52 + f) div 2 ^ 52 = ex" "(ex * 2 ^ 52 + f) mod 2 ^ 52 = f" using assms by simp_all
  have "ex * 2 ^ 52 + f < (ex + 1) * 2 ^ 52" using assms by (simp add: algebra_simps)
  also have "\<dots> \<le> 2048 * 2 ^ 52" using assms(4) by (intro mult_right_mono) simp_all
  finally show "ex * 2 ^ 52 + f < 2 ^ 63" by simp
  show "0 \<le> ex * 2 ^ 52 + f" using assms by simp
qed

lemma bits_signed:
  fixes f ex :: int
  assumes "0 \<le> f" "f < 2 ^ 52" "0 \<le> ex" "ex < 2047" "ex \<noteq> 0 \<or> f \<noteq> 0"
  shows "bits_double ((if neg then 2 ^ 63 else 0) + (ex * 2 ^ 52 + f)) =
    (let q = (if ex = 0 then of_int f * 2 powi (- 1074) else of_int (f + 2 ^ 52) * 2 powi (ex - 1075))
     in Fin (if neg then - q else q))"
proof -
  define r where "r = ex * 2 ^ 52 + f"
  have ex: "ex < 2048" using assms(4) by simp
  note b = bits_parts [OF assms(1,2,3) ex, folded r_def]
  have "((if neg then 2 ^ 63 else 0) + r) mod 2 ^ 63 = r" "(2 ^ 63 \<le> (if neg then 2 ^ 63 else 0) + r) = neg"
    using b by auto
  then show ?thesis using b assms unfolding bits_double_def r_def [symmetric] by (simp add: Let_def)
qed

lemma bits_double_bits: "wf_double d \<Longrightarrow> bits_double (double_bits d) = d"
proof (cases d)
  case (Fin q)
  assume "wf_double d"
  then have g: "on_grid q" by (simp add: Fin)
  show ?thesis
  proof (cases "q = 0")
    case False
    define p where "p = \<bar>q\<bar>"
    have p: "on_grid p" "0 < p" using g False on_grid_minus [of q] by (auto simp: p_def abs_if)
    define e where "e = ulp_exp p"
    define m where "m = rne (p / 2 powi e)"
    note b = mantissa_bounds [OF p, folded e_def, folded m_def]
    have bits: "double_bits (Fin q) = (if q < 0 then 2 ^ 63 else 0) +
        ((if m < 2 ^ 52 then 0 else e + 1075) * 2 ^ 52 + (if m < 2 ^ 52 then m else m - 2 ^ 52))"
      using False by (simp add: p_def [symmetric] e_def [symmetric] m_def [symmetric] Let_def)
    have "bits_double (double_bits (Fin q)) = Fin (if q < 0 then - p else p)"
    proof (cases "m < 2 ^ 52")
      case True
      then show ?thesis unfolding bits using b bits_signed [of m 0 "q < 0"] by (simp add: Let_def)
    next
      case False
      then show ?thesis unfolding bits using b bits_signed [of "m - 2 ^ 52" "e + 1075" "q < 0"] by (simp add: Let_def)
    qed
    then show ?thesis using Fin by (simp add: p_def)
  qed (simp add: Fin bits_double_def)
qed (simp_all add: bits_double_def Let_def)


interpretation doubles: codec put_double get_double wf_double
proof
  fix d :: double and rest
  assume d: "wf_double d"
  have "0 \<le> double_bits d \<and> double_bits d < 2 ^ 64"
  proof (cases d)
    case (Fin q)
    show ?thesis
    proof (cases "q = 0")
      case False
      define p where "p = \<bar>q\<bar>"
      have p: "on_grid p" "0 < p" using d Fin False on_grid_minus [of q] by (auto simp: p_def abs_if)
      define e where "e = ulp_exp p"
      define m where "m = rne (p / 2 powi e)"
      note b = mantissa_bounds [OF p, folded e_def, folded m_def]
      have "0 \<le> (if m < 2 ^ 52 then m else (e + 1075) * 2 ^ 52 + (m - 2 ^ 52)) \<and>
          (if m < 2 ^ 52 then m else (e + 1075) * 2 ^ 52 + (m - 2 ^ 52)) < 2 ^ 63"
        using bits_parts [of "m - 2 ^ 52" "e + 1075"] b by auto
      then show ?thesis using False by (auto simp: Fin p_def [symmetric] e_def [symmetric] m_def [symmetric] Let_def)
    qed (simp add: Fin)
  qed simp_all
  then have "le_value (put_double d) = double_bits d" by (simp add: put_double_def le_value_bytes)
  then show "get_double (put_double d @ rest) = Some (d, rest)"
    unfolding get_double_def using d by (intro get_as_append) (simp_all add: put_double_def bits_double_bits)
qed

section \<open>Messages\<close>

record Register =
  rg_location_uid :: u32
  rg_category :: Module
  rg_mode :: RunMode
  rg_group :: string
  rg_name :: string
  rg_pid :: int
  rg_last_active_time :: int
  rg_checkin_time :: int

record Deregister =
  dr_location_uid :: u32
  dr_category :: Module
  dr_mode :: RunMode
  dr_group :: string
  dr_name :: string

definition all_modules :: "Module list" where
  "all_modules = [Module_MD, Module_TD, Module_STRATEGY, Module_SYSTEM]"

definition all_modes :: "RunMode list" where
  "all_modes = [Mode_LIVE, Mode_DATA, Mode_REPLAY, Mode_BACKTEST, Mode_USER_APP]"

text \<open>A string: its length as \<open>uint32_t\<close>, then its characters.\<close>

definition put_text :: "string \<Rightarrow> bytes" where "put_text s = put_u32 (of_nat (length s)) @ put_chars s"
definition get_text :: "bytes \<Rightarrow> (string \<times> bytes) option" where
  "get_text bs = Option.bind (get_u32 bs) (\<lambda>(n, bs). get_chars (unat n) bs)"

text \<open>The fields the two messages begin with.\<close>

definition put_head :: "u32 \<Rightarrow> Module \<Rightarrow> RunMode \<Rightarrow> string \<Rightarrow> string \<Rightarrow> bytes" where
  "put_head uid category mode grp name =
     put_u32 uid @ put_enum all_modules category @ put_enum all_modes mode @ put_text grp @ put_text name"

definition get_head :: "bytes \<Rightarrow> ((u32 \<times> Module \<times> RunMode \<times> string \<times> string) \<times> bytes) option" where
  "get_head bs =
     Option.bind (get_u32 bs) (\<lambda>(uid, bs).
     Option.bind (get_enum all_modules bs) (\<lambda>(category, bs).
     Option.bind (get_enum all_modes bs) (\<lambda>(mode, bs).
     Option.bind (get_text bs) (\<lambda>(grp, bs).
     Option.bind (get_text bs) (\<lambda>(name, bs).
     Some ((uid, category, mode, grp, name), bs))))))"

definition Register_to_string :: "Register \<Rightarrow> bytes" where
  "Register_to_string r =
     put_head (rg_location_uid r) (rg_category r) (rg_mode r) (rg_group r) (rg_name r) @
     put_int 4 (rg_pid r) @ put_int 8 (rg_last_active_time r) @ put_int 8 (rg_checkin_time r)"

definition Register_of :: "bytes \<Rightarrow> Register outcome" where
  "Register_of bs =
     (case Option.bind (get_head bs) (\<lambda>((uid, category, mode, grp, name), bs).
           Option.bind (get_int 4 bs) (\<lambda>(pid, bs).
           Option.bind (get_int 8 bs) (\<lambda>(last_active_time, bs).
           Option.bind (get_int 8 bs) (\<lambda>(checkin_time, bs).
           Some \<lparr> rg_location_uid = uid, rg_category = category, rg_mode = mode, rg_group = grp, rg_name = name,
                  rg_pid = pid, rg_last_active_time = last_active_time, rg_checkin_time = checkin_time \<rparr>)))) of
        None \<Rightarrow> Outside
      | Some r \<Rightarrow> Value r)"

definition Deregister_to_string :: "Deregister \<Rightarrow> bytes" where
  "Deregister_to_string r = put_head (dr_location_uid r) (dr_category r) (dr_mode r) (dr_group r) (dr_name r)"

definition Deregister_of :: "bytes \<Rightarrow> Deregister outcome" where
  "Deregister_of bs =
     (case get_head bs of
        None \<Rightarrow> Outside
      | Some ((uid, category, mode, grp, name), bs) \<Rightarrow>
          Value \<lparr> dr_location_uid = uid, dr_category = category, dr_mode = mode, dr_group = grp, dr_name = name \<rparr>)"

text \<open>An \<open>InstrumentKey\<close> in memory: 53 bytes, and three of padding.\<close>

definition all_instrument_types :: "InstrumentType list" where
  "all_instrument_types = [IT_Unknown, IT_Stock, IT_Future, IT_Bond, IT_StockOption, IT_TechStock, IT_Fund, IT_Index,
     IT_Repo, IT_Warrant, IT_Iopt, IT_Crypto]"

definition sizeof_InstrumentKey :: nat where "sizeof_InstrumentKey = 56"

definition put_key :: "InstrumentKey \<Rightarrow> bytes" where
  "put_key k = put_u32 (ik_key k) @ put_chars (ik_instrument_id k) @ put_chars (ik_exchange_id k) @
     put_enum all_instrument_types (ik_instrument_type k) @ replicate 3 0"

definition get_key :: "bytes \<Rightarrow> (InstrumentKey \<times> bytes) option" where
  "get_key bs =
     Option.bind (get_u32 bs) (\<lambda>(key, bs).
     Option.bind (get_chars INSTRUMENT_ID_LEN bs) (\<lambda>(instrument_id, bs).
     Option.bind (get_chars EXCHANGE_ID_LEN bs) (\<lambda>(exchange_id, bs).
     Option.bind (get_enum all_instrument_types bs) (\<lambda>(instrument_type, bs).
     Option.bind (get_padding 3 bs) (\<lambda>(_, bs).
     Some (\<lparr> ik_key = key, ik_instrument_id = instrument_id, ik_exchange_id = exchange_id,
             ik_instrument_type = instrument_type \<rparr>, bs))))))"

definition MDSubscribe_to_string :: "MDSubscribe \<Rightarrow> bytes" where
  "MDSubscribe_to_string m = put_u32 (sub_id m) @ concat (List.map put_key (sub_instrument_keys m))"

text \<open>
  The number of keys comes from the length that is left, an unsigned number: for less than the four
  bytes of the id it wraps around.
\<close>

definition MDSubscribe_of :: "bytes \<Rightarrow> MDSubscribe outcome" where
  "MDSubscribe_of bs =
     (let len = (of_nat (length bs) - 4 :: u32)
      in case Option.bind (get_u32 bs) (\<lambda>(uid, bs).
           map_option (Pair uid) (get_many get_key (unat len div sizeof_InstrumentKey) bs)) of
           None \<Rightarrow> Outside
         | Some (uid, keys, bs) \<Rightarrow> Value \<lparr> sub_id = uid, sub_instrument_keys = keys \<rparr>)"

text \<open>A \<open>Position\<close> in memory: the members in their order, five bytes of padding before the numbers.\<close>

definition all_directions :: "Direction list" where "all_directions = [Dir_Long, Dir_Short, Dir_Unknown]"

definition sizeof_Position :: nat where "sizeof_Position = 96"

definition put_position :: "Position \<Rightarrow> bytes" where
  "put_position p = put_int 8 (ps_update_time p) @ put_chars (ps_trading_day p) @ put_chars (ps_instrument_id p) @
     put_enum all_instrument_types (ps_instrument_type p) @ put_chars (ps_exchange_id p) @
     put_enum all_directions (ps_direction p) @ replicate 5 0 @
     put_double (ps_volume p) @ put_double (ps_position_cost_price p) @ put_double (ps_unrealized_pnl p)"

definition get_position :: "bytes \<Rightarrow> (Position \<times> bytes) option" where
  "get_position bs =
     Option.bind (get_int 8 bs) (\<lambda>(update_time, bs).
     Option.bind (get_chars DATE_LEN bs) (\<lambda>(trading_day, bs).
     Option.bind (get_chars INSTRUMENT_ID_LEN bs) (\<lambda>(instrument_id, bs).
     Option.bind (get_enum all_instrument_types bs) (\<lambda>(instrument_type, bs).
     Option.bind (get_chars EXCHANGE_ID_LEN bs) (\<lambda>(exchange_id, bs).
     Option.bind (get_enum all_directions bs) (\<lambda>(direction, bs).
     Option.bind (get_padding 5 bs) (\<lambda>(_, bs).
     Option.bind (get_double bs) (\<lambda>(volume, bs).
     Option.bind (get_double bs) (\<lambda>(cost, bs).
     Option.bind (get_double bs) (\<lambda>(pnl, bs).
     Some (\<lparr> ps_update_time = update_time, ps_trading_day = trading_day, ps_instrument_id = instrument_id,
             ps_instrument_type = instrument_type, ps_exchange_id = exchange_id, ps_direction = direction,
             ps_volume = volume, ps_position_cost_price = cost, ps_unrealized_pnl = pnl \<rparr>, bs)))))))))))"

definition put_entry :: "u32 \<times> Position \<Rightarrow> bytes" where
  "put_entry = (\<lambda>(key, p). put_u32 key @ put_position (Position_assign Position_zero p))"

definition get_entry :: "bytes \<Rightarrow> ((u32 \<times> Position) \<times> bytes) option" where
  "get_entry bs = Option.bind (get_u32 bs) (\<lambda>(key, bs). map_option (\<lambda>(p, bs). ((key, p), bs)) (get_position bs))"

definition PositionBook_to_string :: "PositionBook \<Rightarrow> bytes" where
  "PositionBook_to_string b =
     put_u32 (of_nat (length (pb_long b))) @ put_u32 (of_nat (length (pb_short b))) @
     concat (List.map put_entry (pb_long b)) @ concat (List.map put_entry (pb_short b))"

text \<open>Every entry read is assigned to its place in the map.\<close>

definition load_entries :: "(u32 \<times> Position) list \<Rightarrow> (u32, Position) umap" where
  "load_entries entries = fold (\<lambda>(key, p). umap_assign Position_assign Position_zero key p) entries []"

text \<open>The size asked for is computed in 64 bits and cut to 32.\<close>

definition PositionBook_of :: "bytes \<Rightarrow> PositionBook outcome" where
  "PositionBook_of bs =
     (if length bs < 8 then Throws
      else case Option.bind (get_u32 bs) (\<lambda>(n, bs). map_option (\<lambda>(m, bs). (n, m, bs)) (get_u32 bs)) of
        None \<Rightarrow> Outside
      | Some (long_size, short_size, body) \<Rightarrow>
          let entry = 4 + int sizeof_Position;
              expected_size = (8 + uint long_size * entry + uint short_size * entry) mod 2 ^ 32
          in if int (length bs) < expected_size then Throws
             else case Option.bind (get_many get_entry (unat long_size) body) (\<lambda>(long, body).
                         map_option (\<lambda>(short, _). (long, short)) (get_many get_entry (unat short_size) body)) of
                    None \<Rightarrow> Outside
                  | Some (long, short) \<Rightarrow> Value \<lparr> pb_long = load_entries long, pb_short = load_entries short \<rparr>)"

section \<open>Round trips\<close>

lemmas field_laws = u32.get_put sint.get_put chars.get_put enumerators.get_put doubles.get_put

lemma get_padding_law: "get_padding n (replicate n 0 @ rest) = Some ((), rest)"
  by (simp add: get_padding_def get_as_append)

lemma all_enumerators: "m \<in> set all_modules" "r \<in> set all_modes" "t \<in> set all_instrument_types" "d \<in> set all_directions"
  "length all_modules \<le> 128" "length all_modes \<le> 128" "length all_instrument_types \<le> 128" "length all_directions \<le> 128"
proof -
  show "m \<in> set all_modules" by (cases m) (simp_all add: all_modules_def)
  show "r \<in> set all_modes" by (cases r) (simp_all add: all_modes_def)
  show "t \<in> set all_instrument_types" by (cases t) (simp_all add: all_instrument_types_def)
  show "d \<in> set all_directions" by (cases d) (simp_all add: all_directions_def)
qed (simp_all add: all_modules_def all_modes_def all_instrument_types_def all_directions_def)

text \<open>The codes are those of the enumerations.\<close>

lemma enum_bytes: "put_enum all_modules m = [module_code m]" "put_enum all_modes r = [mode_code r]"
  by (cases m; simp add: put_enum_def all_modules_def) (cases r; simp add: put_enum_def all_modes_def)

definition text_ok :: "string \<Rightarrow> bool" where "text_ok s \<longleftrightarrow> length s < 2 ^ 32"

lemma unat_of_length: "n < 2 ^ 32 \<Longrightarrow> unat (of_nat n :: u32) = n"
  by (simp add: unsigned_of_nat take_bit_nat_eq_self)

interpretation texts: codec put_text get_text text_ok
  by unfold_locales (simp add: put_text_def get_text_def text_ok_def field_laws unat_of_length)

lemma get_head_put:
  "\<lbrakk> text_ok g; text_ok n \<rbrakk> \<Longrightarrow> get_head (put_head uid c m g n @ rest) = Some ((uid, c, m, g, n), rest)"
  by (simp add: get_head_def put_head_def field_laws texts.get_put all_enumerators)

definition fits_int :: "nat \<Rightarrow> int \<Rightarrow> bool" where
  "fits_int k v \<longleftrightarrow> - (256 ^ k) \<le> 2 * v \<and> 2 * v < 256 ^ k"

definition register_ok :: "Register \<Rightarrow> bool" where
  "register_ok r \<longleftrightarrow> text_ok (rg_group r) \<and> text_ok (rg_name r) \<and> fits_int 4 (rg_pid r) \<and>
     fits_int 8 (rg_last_active_time r) \<and> fits_int 8 (rg_checkin_time r)"

definition key_ok :: "InstrumentKey \<Rightarrow> bool" where
  "key_ok k \<longleftrightarrow> length (ik_instrument_id k) = INSTRUMENT_ID_LEN \<and> length (ik_exchange_id k) = EXCHANGE_ID_LEN"

lemma int_law: "\<lbrakk> 0 < k; fits_int k v \<rbrakk> \<Longrightarrow> get_int k (put_int k v @ rest) = Some (v, rest)"
  by (rule sint.get_put) (simp add: fits_int_def)

interpretation keys: codec put_key get_key key_ok
  by unfold_locales (simp add: put_key_def get_key_def key_ok_def field_laws all_enumerators get_padding_law)

lemma length_put: "length (put_u32 w) = 4" "length (put_int k v) = k" "length (put_chars s) = length s"
  "length (put_enum xs x) = 1" "length (put_double d) = 8"
  by (simp_all add: put_u32_def put_int_def put_chars_def put_enum_def put_double_def)

lemma length_put_key: "key_ok k \<Longrightarrow> length (put_key k) = sizeof_InstrumentKey"
  by (simp add: put_key_def length_put key_ok_def sizeof_InstrumentKey_def INSTRUMENT_ID_LEN_def EXCHANGE_ID_LEN_def)

lemma length_concat_put: "list_all (\<lambda>x. length (put x) = n) xs \<Longrightarrow> length (concat (List.map put xs)) = n * length xs"
  by (induction xs) auto

text \<open>The registration messages and the subscription survive the journal: what a constructor reads from the
  bytes \<open>to_string\<close> wrote is the message itself, as long as its lengths can be written in 32 bits.\<close>

theorem message_roundtrips:
  assumes "register_ok r" "text_ok (dr_group d)" "text_ok (dr_name d)" "list_all key_ok (sub_instrument_keys m)"
    "4 + sizeof_InstrumentKey * length (sub_instrument_keys m) < 2 ^ 32"
  shows "Register_of (Register_to_string r) = Value r \<and> Deregister_of (Deregister_to_string d) = Value d \<and>
    MDSubscribe_of (MDSubscribe_to_string m) = Value m"
proof (intro conjI)
  show "Register_of (Register_to_string r) = Value r"
    using assms(1) int_law [of 8 _ "[]"]
    by (simp add: Register_of_def Register_to_string_def get_head_put register_ok_def int_law)
  show "Deregister_of (Deregister_to_string d) = Value d"
    using get_head_put [OF assms(2,3), of _ _ _ "[]"] by (simp add: Deregister_of_def Deregister_to_string_def)
  have k: "list_all (\<lambda>k. length (put_key k) = sizeof_InstrumentKey) (sub_instrument_keys m)"
    using assms(4) by (auto simp: list_all_iff length_put_key)
  have "length (MDSubscribe_to_string m) = 4 + sizeof_InstrumentKey * length (sub_instrument_keys m)"
    using length_concat_put [OF k] by (simp add: MDSubscribe_to_string_def length_put)
  then have "unat (of_nat (length (MDSubscribe_to_string m)) - 4 :: u32) = sizeof_InstrumentKey * length (sub_instrument_keys m)"
    using unat_of_length [of "sizeof_InstrumentKey * length (sub_instrument_keys m)"] assms(5) by simp
  then show "MDSubscribe_of (MDSubscribe_to_string m) = Value m"
    using keys.get_many_put [OF assms(4), of "[]"]
    by (simp add: MDSubscribe_of_def Let_def MDSubscribe_to_string_def field_laws sizeof_InstrumentKey_def)
qed

definition sample_key :: InstrumentKey where
  "sample_key = \<lparr> ik_key = 77, ik_instrument_id = arr_zero INSTRUMENT_ID_LEN, ik_exchange_id = arr_zero EXCHANGE_ID_LEN,
     ik_instrument_type = IT_Crypto \<rparr>"

lemma message_roundtrips_witness:
  "MDSubscribe_of (MDSubscribe_to_string \<lparr> sub_id = 5, sub_instrument_keys = [sample_key, sample_key] \<rparr>) =
     Value \<lparr> sub_id = 5, sub_instrument_keys = [sample_key, sample_key] \<rparr>"
  using message_roundtrips [of "\<lparr> rg_location_uid = 1, rg_category = Module_MD, rg_mode = Mode_LIVE, rg_group = ''g'', rg_name = ''n'',
      rg_pid = - 1, rg_last_active_time = 0, rg_checkin_time = 0 \<rparr>"
      "\<lparr> dr_location_uid = 1, dr_category = Module_TD, dr_mode = Mode_LIVE, dr_group = [], dr_name = [] \<rparr>"
      "\<lparr> sub_id = 5, sub_instrument_keys = [sample_key, sample_key] \<rparr>"]
  by (simp add: register_ok_def text_ok_def fits_int_def key_ok_def sample_key_def sizeof_InstrumentKey_def)

section \<open>The position book\<close>

definition position_ok :: "Position \<Rightarrow> bool" where
  "position_ok p \<longleftrightarrow> fits_int 8 (ps_update_time p) \<and> length (ps_trading_day p) = DATE_LEN \<and>
     length (ps_instrument_id p) = INSTRUMENT_ID_LEN \<and> length (ps_exchange_id p) = EXCHANGE_ID_LEN \<and>
     wf_double (ps_volume p) \<and> wf_double (ps_position_cost_price p) \<and> wf_double (ps_unrealized_pnl p)"

interpretation positions: codec put_position get_position position_ok
  by unfold_locales
     (simp add: put_position_def get_position_def position_ok_def field_laws int_law all_enumerators get_padding_law)

text \<open>Arrays with nothing behind their terminator are assigned as they are.\<close>

definition position_clean :: "Position \<Rightarrow> bool" where
  "position_clean p \<longleftrightarrow> Position_assign Position_zero p = p"

interpretation entries: codec put_entry get_entry "\<lambda>(key, p). position_ok p \<and> position_clean p"
  by unfold_locales (auto simp: put_entry_def get_entry_def field_laws positions.get_put position_clean_def)

lemma length_put_entry: "\<lbrakk> position_ok (snd e); position_clean (snd e) \<rbrakk> \<Longrightarrow> length (put_entry e) = 4 + sizeof_Position"
  by (cases e) (simp add: position_clean_def put_entry_def put_position_def length_put position_ok_def sizeof_Position_def DATE_LEN_def
      INSTRUMENT_ID_LEN_def EXCHANGE_ID_LEN_def)

lemma load_entries_same:
  assumes "distinct (List.map fst es)" "list_all (\<lambda>(k, p). position_clean p) es"
  shows "load_entries es = es"
proof -
  have "fold (\<lambda>(key, p). umap_assign Position_assign Position_zero key p) es acc = acc @ es"
    if "distinct (List.map fst (acc @ es))" for acc
    using assms(2) that
  proof (induction es arbitrary: acc)
    case (Cons e es)
    obtain k p where e: "e = (k, p)" by (cases e)
    have k: "k \<notin> set (List.map fst acc)" using Cons.prems(2) by (simp add: e)
    then have "umap_find acc k = None" by (simp add: umap_find_def map_of_eq_None_iff)
    moreover have "umap_set k p acc = acc @ [(k, p)]"
      using k unfolding umap_set_def by (induction acc) auto
    ultimately have "umap_assign Position_assign Position_zero k p acc = acc @ [(k, p)]"
      using Cons.prems(1) by (simp add: umap_assign_def e position_clean_def)
    then show ?case using Cons.IH [of "acc @ [(k, p)]"] Cons.prems by (simp add: e)
  qed simp
  from this [of "[]"] show ?thesis using assms(1) by (simp add: load_entries_def)
qed


lemma assign_clean:
  assumes "arr_clean n a"
  shows "arr_assign (arr_zero n) a = a"
proof -
  have "drop (length (arr_str a)) a = replicate (n - length (arr_str a)) NUL"
    using assms by (intro replicate_eqI) (auto simp: arr_clean_def list_all_iff)
  moreover have "arr_str a @ drop (length (arr_str a)) a = a"
    by (metis append_take_drop_id arr_str_def takeWhile_eq_take)
  ultimately show ?thesis by (simp add: arr_assign_def arr_zero_def drop_replicate)
qed

lemma clean_position:
  "\<lbrakk> arr_clean DATE_LEN (ps_trading_day p); arr_clean INSTRUMENT_ID_LEN (ps_instrument_id p);
     arr_clean EXCHANGE_ID_LEN (ps_exchange_id p) \<rbrakk> \<Longrightarrow> position_clean p"
  by (simp add: position_clean_def Position_assign_def Position_zero_def assign_clean)

definition side_ok :: "(u32, Position) umap \<Rightarrow> bool" where
  "side_ok m \<longleftrightarrow> umap_wf m \<and> length m < 2 ^ 32 \<and>
     list_all (\<lambda>(k, p). position_ok p \<and> arr_clean DATE_LEN (ps_trading_day p) \<and>
       arr_clean INSTRUMENT_ID_LEN (ps_instrument_id p) \<and> arr_clean EXCHANGE_ID_LEN (ps_exchange_id p)) m"

lemma side_laws:
  assumes "side_ok m"
  shows "list_all (\<lambda>(k, p). position_ok p \<and> position_clean p) m" "load_entries m = m" "unat (of_nat (length m) :: u32) = length m"
    "length (concat (List.map put_entry m)) = (4 + sizeof_Position) * length m"
proof -
  have *: "list_all (\<lambda>(k, p). position_ok p \<and> position_clean p) m" "list_all (\<lambda>(k, p). position_clean p) m"
    using assms clean_position by (auto simp: side_ok_def list_all_iff)
  show "list_all (\<lambda>(k, p). position_ok p \<and> position_clean p) m" by fact
  show "load_entries m = m" using load_entries_same [OF _ *(2)] assms by (simp add: side_ok_def umap_wf_def)
  show "unat (of_nat (length m) :: u32) = length m" using assms by (intro unat_of_length) (simp add: side_ok_def)
  have "list_all (\<lambda>e. length (put_entry e) = 4 + sizeof_Position) m"
    using *(1) length_put_entry by (auto simp: list_all_iff)
  then show "length (concat (List.map put_entry m)) = (4 + sizeof_Position) * length m" by (rule length_concat_put)
qed

lemma uint_of_count: "unat (w :: u32) = n \<Longrightarrow> uint w = int n"
  by (auto simp: uint_nat)

text \<open>C25: a position book survives the journal: read back from its own bytes it is the same book, entry by entry,
  for any number of positions that fits in 32 bits, although the length the constructor asks for is
  cut to 32 bits.\<close>

theorem position_book_roundtrip:
  assumes "side_ok (pb_long b)" "side_ok (pb_short b)"
  shows "PositionBook_of (PositionBook_to_string b) = Value b"
proof -
  let ?n = "of_nat (length (pb_long b)) :: u32" and ?m = "of_nat (length (pb_short b)) :: u32"
  let ?total = "8 + uint ?n * (4 + int sizeof_Position) + uint ?m * (4 + int sizeof_Position)"
  note l = side_laws [OF assms(1)] and s = side_laws [OF assms(2)]
  have len: "int (length (PositionBook_to_string b)) = ?total"
    using l(4) s(4) uint_of_count [OF l(3)] uint_of_count [OF s(3)]
    by (simp add: PositionBook_to_string_def length_put algebra_simps)
  have "?total mod 2 ^ 32 \<le> ?total" by (intro zmod_le_nonneg_dividend) simp
  then have le: "\<not> int (length (PositionBook_to_string b)) < ?total mod 2 ^ 32" using len by linarith
  have big: "\<not> length (PositionBook_to_string b) < 8" by (simp add: PositionBook_to_string_def length_put)
  have "get_many get_entry (unat ?n) (concat (List.map put_entry (pb_long b)) @ concat (List.map put_entry (pb_short b))) =
      Some (pb_long b, concat (List.map put_entry (pb_short b)))"
    unfolding l(3) by (rule entries.get_many_put [OF l(1)])
  moreover have "get_many get_entry (unat ?m) (concat (List.map put_entry (pb_short b))) = Some (pb_short b, [])"
    unfolding s(3) using entries.get_many_put [OF s(1), of "[]"] by simp
  ultimately show ?thesis using le big l(2) s(2)
    by (simp add: PositionBook_of_def Let_def) (simp add: PositionBook_to_string_def field_laws)
qed

definition sample_book :: PositionBook where
  "sample_book = \<lparr> pb_long = [(3, Position_zero\<lparr> ps_volume := of_i64 5 \<rparr>), (9, Position_zero)], pb_short = [] \<rparr>"

lemma position_book_roundtrip_witness: "PositionBook_of (PositionBook_to_string sample_book) = Value sample_book"
  by (rule position_book_roundtrip)
     (simp_all add: sample_book_def side_ok_def umap_wf_def position_ok_def fits_int_def Position_zero_def arr_clean_zero
       DATE_LEN_def INSTRUMENT_ID_LEN_def EXCHANGE_ID_LEN_def zero_double_def)

lemma get_many_outside: "\<lbrakk> get bs = None; n \<noteq> 0 \<rbrakk> \<Longrightarrow> get_many get n bs = None"
  by (cases n) simp_all

lemma get_u32_short: "length bs < 4 \<Longrightarrow> get_u32 bs = None"
  by (simp add: get_u32_def get_as_def get_bytes_def)

text \<open>Bytes that announce more positions than they hold are refused with an exception, but only as long as the
  announced length fits in 32 bits: 42949673 long positions make it 12 after the cut, so twelve
  bytes pass the check and are read far behind their end.\<close>

theorem position_book_length_check:
  fixes n m :: u32
  defines "needed \<equiv> 8 + (4 + sizeof_Position) * (unat n + unat m)"
  shows "(needed < 2 ^ 32 \<and> 8 + length body < needed \<longrightarrow> PositionBook_of (put_u32 n @ put_u32 m @ body) = Throws) \<and>
    PositionBook_of (put_u32 42949673 @ put_u32 0 @ replicate 4 0) = Outside"
proof
  show "needed < 2 ^ 32 \<and> 8 + length body < needed \<longrightarrow> PositionBook_of (put_u32 n @ put_u32 m @ body) = Throws"
  proof
    assume a: "needed < 2 ^ 32 \<and> 8 + length body < needed"
    have s: "8 + uint n * (4 + int sizeof_Position) + uint m * (4 + int sizeof_Position) = int needed"
      using uint_of_count [of n] uint_of_count [of m] by (simp add: needed_def algebra_simps)
    have "int needed mod 2 ^ 32 = int needed" using a by (intro mod_pos_pos_trivial) simp_all
    then show "PositionBook_of (put_u32 n @ put_u32 m @ body) = Throws"
      using a s by (simp add: PositionBook_of_def field_laws Let_def length_put)
  qed
  have "get_entry (replicate 4 0) = None"
    by (simp add: get_entry_def get_position_def get_int_def get_u32_def get_as_def get_bytes_def)
  then have "get_many get_entry (unat (42949673 :: u32)) (replicate 4 0) = None" by (intro get_many_outside) simp_all
  then show "PositionBook_of (put_u32 42949673 @ put_u32 0 @ replicate 4 0) = Outside"
    by (simp add: PositionBook_of_def field_laws Let_def length_put sizeof_Position_def)
qed

lemma position_book_length_check_witness:
  "PositionBook_of (put_u32 2 @ put_u32 0 @ replicate 100 0) = Throws"
  using position_book_length_check [of 2 0 "replicate 100 0"] by (simp add: sizeof_Position_def)

end
