(* ===== verification/Json.thy ===== *)
theory Json
  imports FileData
begin

text \<open>
  JSON values and the accesses the services make on them (the vendored
  src/thirdparty/include/nlohmann/json.hpp), and the conversions between numbers and text the
  exchange's protocol needs: \<open>std::stoull\<close>, \<open>std::to_string\<close> of signed and of floating numbers, and
  \<open>tolower\<close> over a string. Parsing a text into a value and dumping it are the library's and are not
  modelled: the services are given a parser as an argument, and what they send is a value.

  The lemmas say that a number survives being printed and read, and how far the six decimals of
  a printed \<open>double\<close> are from it.
\<close>

section \<open>Values\<close>

datatype json =
    J_null | J_bool bool | J_int int | J_float double | J_str string
  | J_arr "json list" | J_obj "(string \<times> json) list"

fun j_contains :: "json \<Rightarrow> string \<Rightarrow> bool" where
  "j_contains (J_obj es) k \<longleftrightarrow> map_of es k \<noteq> None"
| "j_contains _ k \<longleftrightarrow> False"

text \<open>
  \<open>operator[]\<close> on a constant value: a key that is not there fails the library's assertion, and is
  undefined where assertions are off; a value that is no object throws.
\<close>

fun j_at :: "json \<Rightarrow> string \<Rightarrow> json outcome" where
  "j_at (J_obj es) k = (case map_of es k of None \<Rightarrow> Undefined | Some v \<Rightarrow> Value v)"
| "j_at _ k = Raised"

fun j_string :: "json \<Rightarrow> string outcome" where
  "j_string (J_str s) = Value s"
| "j_string _ = Raised"

fun j_bool :: "json \<Rightarrow> bool outcome" where
  "j_bool (J_bool b) = Value b"
| "j_bool _ = Raised"

text \<open>\<open>get<int64_t>\<close> and \<open>get<int>\<close>: a number of any kind is cast, a truth value only to \<open>int\<close>.\<close>

definition wrap_signed :: "nat \<Rightarrow> int \<Rightarrow> int" where
  "wrap_signed w n = (n + 2 ^ (w - 1)) mod 2 ^ w - 2 ^ (w - 1)"

fun j_int64 :: "json \<Rightarrow> int outcome" where
  "j_int64 (J_int n) = Value (wrap_signed 64 n)"
| "j_int64 (J_float x) = Value (i64_of x)"
| "j_int64 _ = Raised"

fun j_int32 :: "json \<Rightarrow> int outcome" where
  "j_int32 (J_bool b) = Value (of_bool b)"
| "j_int32 v = then_do (j_int64 v) (\<lambda>n. Value (wrap_signed 32 n))"

text \<open>The elements a range-for visits.\<close>

fun j_items :: "json \<Rightarrow> json list" where
  "j_items J_null = []"
| "j_items (J_arr vs) = vs"
| "j_items (J_obj es) = List.map snd es"
| "j_items v = [v]"

text \<open>A value of \<open>std::map<std::string, std::string>\<close> as JSON: an object of strings.\<close>

definition j_of_params :: "(string \<times> string) list \<Rightarrow> json" where
  "j_of_params ps = J_obj (List.map (\<lambda>(k, v). (k, J_str v)) ps)"

lemma then_do_Value_iff: "then_do r f = Value v \<longleftrightarrow> (\<exists>u. r = Value u \<and> f u = Value v)"
  by (cases r) auto

lemma then_do_Undefined_iff: "then_do r f = Undefined \<longleftrightarrow> r = Undefined \<or> (\<exists>v. r = Value v \<and> f v = Undefined)"
  by (cases r) auto

lemma j_at_contains: "j_at j k = Value v \<Longrightarrow> j_contains j k"
  by (cases j) (auto split: option.splits)

lemma wrap_signed_id: "\<lbrakk> 0 < w; - (2 ^ (w - 1)) \<le> n; n < 2 ^ (w - 1) \<rbrakk> \<Longrightarrow> wrap_signed w n = n"
  by (cases w) (simp_all add: wrap_signed_def)

lemma wrap_signed_range: "0 < w \<Longrightarrow> - (2 ^ (w - 1)) \<le> wrap_signed w n \<and> wrap_signed w n < 2 ^ (w - 1)"
proof -
  assume "0 < w"
  then have "(2::int) ^ w = 2 * 2 ^ (w - 1)" by (cases w) simp_all
  moreover have "0 \<le> (n + 2 ^ (w - 1)) mod 2 ^ w" "(n + 2 ^ (w - 1)) mod 2 ^ w < 2 ^ w"
    by (rule pos_mod_sign; simp) (rule pos_mod_bound; simp)
  ultimately show ?thesis unfolding wrap_signed_def by linarith
qed

section \<open>Numbers and text\<close>

text \<open>\<open>std::stoull\<close>: a sign is read, and a negative number wraps; \<open>None\<close> is the exception.\<close>

definition stoull :: "string \<Rightarrow> u64 option" where
  "stoull s =
     (let (neg, s) = read_sign (skip_space s);
          (ds, _) = read_digits s
      in if ds = [] \<or> of_digits ds \<ge> 2 ^ 64 then None
         else Some (if neg then - of_nat (of_digits ds) else of_nat (of_digits ds)))"

definition string_of_int :: "int \<Rightarrow> string" where
  "string_of_int n = (if n < 0 then CHR ''-'' # to_string (nat (- n)) else to_string (nat n))"

text \<open>
  \<open>std::to_string(double)\<close>, which prints with \<open>%f\<close>: six decimals, the exact value rounded to the
  nearest, halves to even. The sign bit of a NaN is not modelled and none is printed.
\<close>

definition pad_digits :: "nat \<Rightarrow> nat \<Rightarrow> string" where
  "pad_digits w n = replicate (w - length (to_string n)) CHR ''0'' @ to_string n"

definition millionths :: "rat \<Rightarrow> nat" where
  "millionths q = nat (rne (\<bar>q\<bar> * 1000000))"

definition fixed6 :: "nat \<Rightarrow> string" where
  "fixed6 n = to_string (n div 1000000) @ CHR ''.'' # pad_digits 6 (n mod 1000000)"

fun string_of_double :: "double \<Rightarrow> string" where
  "string_of_double NaN = ''nan''"
| "string_of_double (FInf neg) = (if neg then ''-inf'' else ''inf'')"
| "string_of_double NegZero = CHR ''-'' # fixed6 0"
| "string_of_double (Fin q) = (if q < 0 then CHR ''-'' # fixed6 (millionths q) else fixed6 (millionths q))"

definition tolower :: "char \<Rightarrow> char" where
  "tolower c = (let n = of_char c :: nat in if 65 \<le> n \<and> n \<le> 90 then char_of (n + 32) else c)"

definition to_lower :: "string \<Rightarrow> string" where
  "to_lower s = List.map tolower s"

section \<open>Reading back what was printed\<close>

lemma takeWhile_upto: "x \<notin> set k \<Longrightarrow> takeWhile (\<lambda>c. c \<noteq> x) (k @ x # v) = k"
  and dropWhile_upto: "x \<notin> set k \<Longrightarrow> dropWhile (\<lambda>c. c \<noteq> x) (k @ x # v) = x # v"
  by (induction k) auto

lemma is_digit_digit [simp]: "n < 10 \<Longrightarrow> is_digit (digit n)"
  by (simp add: is_digit_def)

lemma to_string_all_digits: "list_all is_digit (to_string n)"
  unfolding list_all_iff using to_string_digits is_digit_digit by blast

lemma is_digit_not_space [simp]: "is_digit c \<Longrightarrow> \<not> is_space c"
  by (auto simp: is_digit_def is_space_def)

lemma is_digit_plain: "is_digit c \<Longrightarrow> c \<noteq> CHR ''-'' \<and> c \<noteq> CHR ''+'' \<and> c \<noteq> CHR ''.''"
  by (auto simp: is_digit_def)

text \<open>A text that begins with a digit is read from its start, without a sign.\<close>

lemma read_plain:
  assumes "s \<noteq> []" "list_all is_digit s"
  shows "read_sign (skip_space (s @ t)) = (False, s @ t)"
proof -
  obtain c cs where s: "s = c # cs" using assms(1) by (cases s) auto
  then have "is_digit c" using assms(2) by simp
  then show ?thesis using is_digit_plain [of c] by (simp add: s skip_space_def read_sign_def)
qed

lemma read_digits_append:
  "\<lbrakk> list_all is_digit s; t = [] \<or> \<not> is_digit (hd t) \<rbrakk> \<Longrightarrow> read_digits (s @ t) = (s, t)"
  by (induction s) (cases t; auto simp: read_digits_def)+

lemma stoull_to_string [simp]: "n < 2 ^ 64 \<Longrightarrow> stoull (to_string n) = Some (of_nat n)"
  using read_plain [of "to_string n" "[]"] read_digits_append [of "to_string n" "[]"]
  by (simp add: stoull_def to_string_all_digits)

lemma of_digits_append: "of_digits (s @ t) = of_digits s * 10 ^ length t + of_digits t"
proof (induction t rule: rev_induct)
  case (snoc c t)
  have one: "of_digits (u @ [c]) = 10 * of_digits u + (of_char c - 48)" for u
    by (simp add: of_digits_def)
  show ?case using snoc.IH by (simp only: one append_assoc [symmetric]) (simp add: algebra_simps)
qed (simp add: of_digits_def)

lemma of_digits_zeros [simp]: "of_digits (replicate k CHR ''0'') = 0"
  by (induction k) (simp_all add: of_digits_def)

lemma length_to_string_le: "n < 10 ^ Suc w \<Longrightarrow> length (to_string n) \<le> Suc w"
proof (induction w arbitrary: n)
  case 0
  then show ?case by (subst to_string.simps) simp
next
  case (Suc w)
  show ?case
  proof (cases "n < 10")
    case True
    then show ?thesis by (subst to_string.simps) simp
  next
    case False
    have "n div 10 < 10 ^ Suc w" using Suc.prems by simp
    with Suc.IH False show ?thesis by (subst to_string.simps) simp
  qed
qed

lemma pad_digits_facts:
  assumes "n < 10 ^ Suc w"
  shows "length (pad_digits (Suc w) n) = Suc w" "of_digits (pad_digits (Suc w) n) = n"
    "list_all is_digit (pad_digits (Suc w) n)"
  using length_to_string_le [OF assms] to_string_all_digits [of n] by (simp_all add: pad_digits_def of_digits_append list_all_iff ball_Un is_digit_def)

lemma stod_fixed6:
  "stod (fixed6 n) = (case mk False (of_nat n / 1000000) of FInf _ \<Rightarrow> None | d \<Rightarrow> Some d)"
proof -
  define whole frac where "whole = to_string (n div 1000000)" and "frac = pad_digits 6 (n mod 1000000)"
  have w: "whole \<noteq> []" "list_all is_digit whole" "of_digits whole = n div 1000000"
    by (simp_all add: whole_def to_string_all_digits)
  have f: "length frac = 6" "of_digits frac = n mod 1000000" "list_all is_digit frac"
    using pad_digits_facts [of "n mod 1000000" 5] by (simp_all add: frac_def)
  have m: "of_digits (whole @ frac) = n"
    using w(3) f(1,2) by (simp add: of_digits_append)
  have "stod (fixed6 n) = stod (whole @ CHR ''.'' # frac)"
    by (simp add: fixed6_def whole_def frac_def)
  also have "\<dots> = (case mk False (of_nat n / 1000000) of FInf _ \<Rightarrow> None | d \<Rightarrow> Some d)"
    using read_plain [OF w(1,2), of "CHR ''.'' # frac"] read_digits_append [OF w(2), of "CHR ''.'' # frac"]
      read_digits_append [OF f(3), of "[]"] m f(1) w(1)
    by (simp add: stod_def read_exponent_def is_digit_def Let_def split: double.splits)
  finally show ?thesis .
qed

text \<open>The printed decimals are those of the nearest millionth, at most half a millionth away.\<close>

lemma rne_nearest: "\<bar>x - of_int k\<bar> < 1 / 2 \<Longrightarrow> rne x = k"
proof -
  assume "\<bar>x - of_int k\<bar> < 1 / 2"
  with rne_error [of x] have "\<bar>of_int (rne x) - of_int k :: rat\<bar> < 1" unfolding abs_le_iff abs_less_iff by linarith
  then have "\<bar>of_int (rne x - k) :: rat\<bar> < of_int 1" by simp
  then have "\<bar>rne x - k\<bar> < 1" by (simp only: of_int_abs [symmetric] of_int_less_iff)
  then show "rne x = k" by simp
qed

lemma rne_nonneg: "0 \<le> x \<Longrightarrow> 0 \<le> rne x"
  using rne_ge_int [of 0 x] by simp

lemma millionths_close: "\<bar>of_nat (millionths q) / 1000000 - \<bar>q\<bar>\<bar> \<le> 1 / 2000000"
proof -
  have "of_nat (millionths q) = (of_int (rne (\<bar>q\<bar> * 1000000)) :: rat)"
    using rne_nonneg [of "\<bar>q\<bar> * 1000000"] by (simp add: millionths_def)
  with rne_error [of "\<bar>q\<bar> * 1000000"] show ?thesis by (simp add: abs_le_iff field_simps)
qed

lemma flp_error: "0 < q \<Longrightarrow> \<bar>flp q - q\<bar> \<le> 2 powi ulp_exp q / 2"
  using rne_error [of "q / 2 powi ulp_exp q"]
  by (simp add: flp_def Let_def abs_le_iff field_simps)

lemma millionths_of_decimal:
  assumes "k < 2 ^ 33 * 1000000"
  shows "millionths (fl (of_nat k / 1000000)) = k"
proof (cases "k = 0")
  case False
  define q where "q = (of_nat k / 1000000 :: rat)"
  have q: "0 < q" "q < 2 powi 33" using assms False 
    unfolding q_def using of_nat_less_iff [of k "2 ^ 33 * 1000000", where 'a = rat] by (simp_all add: field_simps)
  have "2 powi rlog2 q < (2::rat) powi 33" using rlog2_bounds [OF q(1)] q(2) by linarith
  then have "rlog2 q < 33" by (simp only: powi_int_less_iff)
  then have "ulp_exp q \<le> - 20" by (simp add: ulp_exp_def)
  then have "(2::rat) powi ulp_exp q \<le> 2 powi (- 20)" by (simp only: powi_int_le_iff)
  with flp_error [OF q(1)] have e: "\<bar>fl q - q\<bar> \<le> 2 powi (- 20) / 2" using q(1) by (simp add: fl_def)
  have "\<bar>fl q * 1000000 - of_int (int k)\<bar> = \<bar>fl q - q\<bar> * 1000000" unfolding q_def by (simp add: abs_if field_simps)
  also have "\<dots> \<le> 2 powi (- 20) / 2 * 1000000" using e by (rule mult_right_mono) simp
  also have "\<dots> < 1 / 2" by (simp add: power_int_minus)
  finally have "rne (fl q * 1000000) = int k" by (rule rne_nearest)
  moreover have "0 \<le> fl q" using q(1) fl_nonneg [of q] by simp
  ultimately show ?thesis by (simp add: millionths_def q_def)
qed (simp add: millionths_def rne_def)

text \<open>A number with at most six decimals is read back as it was.\<close>

lemma stod_printed:
  assumes "k < 2 ^ 33 * 1000000"
  shows "stod (string_of_double (lit (of_nat k / 1000000))) = Some (lit (of_nat k / 1000000))"
proof -
  define q where "q = (of_nat k / 1000000 :: rat)"
  have "fl q \<le> fl (of_int (2 ^ 33))"
    unfolding q_def using of_nat_less_iff [of k "2 ^ 33 * 1000000", where 'a = rat] assms
    by (intro fl_mono) (simp add: field_simps)
  moreover have "fl (of_int (2 ^ 33)) = (2 ^ 33 :: rat)" by (subst fl_of_int) simp_all
  moreover have "0 \<le> fl q" by (simp add: q_def fl_nonneg)
  ultimately have b: "\<bar>fl q\<bar> < 2 ^ 1024" "\<not> fl q < 0" by auto
  then have l: "mk False q = Fin (fl q)" by (simp add: mk_def Let_def)
  moreover have "string_of_double (Fin (fl q)) = fixed6 k"
    using b(2) millionths_of_decimal [OF assms] by (simp add: q_def)
  ultimately show ?thesis using stod_fixed6 [of k] by (simp add: lit_def q_def [symmetric])
qed

end
