(* ===== verification/BinanceBroker.thy ===== *)
theory BinanceBroker
  imports Json "HOL-Library.List_Lexorder" "HOL-Library.Char_ord"
begin

text \<open>
  The trade service of the Binance exchange (src/broker/binance/binance_broker.cpp) and the book of
  its pending requests (src/core/requestbook.cpp). A request is a set of named parameters, sorted by
  name; the service signs the query string of the parameters, adds the signature and sends the request
  as a JSON message over a web socket.

  The web socket and the cryptography are outside: the result of a write and of an opening, the moments
  at which the callbacks run, and the clock are arguments; \<open>load_key\<close> reads a key file (\<open>None\<close> is its
  exception) and \<open>sign\<close> is the signature as base64 text, empty when signing failed. Operations return
  the messages they sent. What the service writes to the log about a message from the exchange is a
  value; nothing else comes of it.
\<close>

section \<open>The request book\<close>

type_synonym RequestBook = "(u64, BrokerReqType \<times> int) omap"

definition add_request :: "int \<Rightarrow> u64 \<Rightarrow> BrokerReqType \<Rightarrow> RequestBook \<Rightarrow> RequestBook" where
  "add_request now req_id req_type b = omap_set req_id (req_type, now) b"

definition remove_request :: "u64 \<Rightarrow> RequestBook \<Rightarrow> RequestBook" where
  "remove_request req_id b = omap_erase req_id b"

definition has_request :: "RequestBook \<Rightarrow> u64 \<Rightarrow> bool" where
  "has_request b req_id \<longleftrightarrow> omap_find b req_id \<noteq> None"

definition get_request :: "RequestBook \<Rightarrow> u64 \<Rightarrow> BrokerReqType" where
  "get_request b req_id = (case omap_find b req_id of Some (t, _) \<Rightarrow> t | None \<Rightarrow> Req_Unknown)"

lemma has_request_add [simp]: "has_request (add_request now i t b) j \<longleftrightarrow> i = j \<or> has_request b j"
  by (simp add: has_request_def add_request_def)

lemma get_request_add [simp]: "get_request (add_request now i t b) j = (if i = j then t else get_request b j)"
  by (simp add: get_request_def add_request_def)

section \<open>State\<close>

record 'k BinanceBroker =
  bb_state :: BrokerState
  bb_public_key_str :: string
  bb_secret_key :: "'k option"
  bb_uri :: string
  bb_is_connected :: bool
  bb_should_reconnect :: bool
  bb_reconnect_attempts :: int
  bb_req_book :: RequestBook
  bb_handlers :: bool

definition BinanceBroker_new :: "'k BinanceBroker" where
  "BinanceBroker_new =
     \<lparr> bb_state = BS_DisConnected, bb_public_key_str = '''', bb_secret_key = None, bb_uri = '''',
       bb_is_connected = False, bb_should_reconnect = False, bb_reconnect_attempts = 0,
       bb_req_book = [], bb_handlers = False \<rparr>"

definition s_wss_endpoint :: string where
  "s_wss_endpoint = ''wss://ws-api.binance.com:443/ws-api/v3''"

definition connection_timeout_seconds :: nat where "connection_timeout_seconds = 10"

definition max_reconnect_attempts :: int where "max_reconnect_attempts = 5"

text \<open>The tables of the exchange's words; a missing entry is the exception of \<open>at\<close>.\<close>

definition s_time_conditions :: "TimeCondition \<Rightarrow> string option" where
  "s_time_conditions = map_of [(TC_GTC, ''GTC''), (TC_IOC, ''IOC''), (TC_FOK, ''FOK''), (TC_GFD, ''GFD'')]"

definition s_price_types :: "PriceType \<Rightarrow> string option" where
  "s_price_types = map_of [(Price_Limit, ''LIMIT''), (Price_Any, ''MARKET''), (Price_FakBest5, ''FAK_BEST5''),
     (Price_ForwardBest, ''FORWARD_BEST''), (Price_ReverseBest, ''REVERSE_BEST''), (Price_Fak, ''FAK''),
     (Price_Fok, ''FOK'')]"

definition s_sides :: "Side \<Rightarrow> string option" where
  "s_sides = map_of [(Side_Buy, ''BUY''), (Side_Sell, ''SELL'')]"

section \<open>Parameters, signature and message\<close>

type_synonym params = "(string, string) omap"

definition put_params :: "(string \<times> string) list \<Rightarrow> params \<Rightarrow> params" where
  "put_params kvs ps = fold (\<lambda>(k, v). omap_set k v) kvs ps"

definition build_order_params :: "OrderInput \<Rightarrow> 'k BinanceBroker \<Rightarrow> params option" where
  "build_order_params input s =
     (case (s_sides (oi_side input), s_price_types (oi_price_type input),
            s_time_conditions (oi_time_condition input)) of
        (Some side, Some price_type, Some time_condition) \<Rightarrow>
          Some (put_params
            ([(''symbol'', arr_str (oi_instrument_id input)),
              (''side'', side),
              (''type'', price_type),
              (''quantity'', string_of_double (oi_volume input)),
              (''timeInForce'', time_condition),
              (''timestamp'', string_of_int (oi_insert_time input)),
              (''apiKey'', bb_public_key_str s)]
             @ (if oi_price_type input = Price_Limit
                then [(''price'', string_of_double (oi_limit_price input))] else [])) [])
      | _ \<Rightarrow> None)"

definition build_cancel_params :: "OrderCancel \<Rightarrow> 'k BinanceBroker \<Rightarrow> params" where
  "build_cancel_params input s = put_params
     [(''symbol'', arr_str (oc_instrument_id input)),
      (''origClientOrderId'', to_string (unat (oc_target_order_id input))),
      (''timestamp'', string_of_int (oc_insert_time input)),
      (''apiKey'', bb_public_key_str s)] []"

definition build_account_params :: "AccountReq \<Rightarrow> 'k BinanceBroker \<Rightarrow> params" where
  "build_account_params req s = put_params
     [(''timestamp'', string_of_int (rq_insert_time req)), (''apiKey'', bb_public_key_str s)] []"

definition query_step :: "string \<Rightarrow> string \<times> string \<Rightarrow> string" where
  "query_step query = (\<lambda>(key, v). (if query \<noteq> [] then query @ ''&'' else query) @ key @ ''='' @ v)"

definition build_query_string :: "params \<Rightarrow> string" where
  "build_query_string ps = foldl query_step [] ps"

type_synonym 'k signer = "'k option \<Rightarrow> string \<Rightarrow> string"

definition format_websocket_message ::
    "'k signer \<Rightarrow> string \<Rightarrow> params \<Rightarrow> u64 \<Rightarrow> 'k BinanceBroker \<Rightarrow> json" where
  "format_websocket_message sign meth ps request_id s =
     (let ps = omap_set ''signature'' (sign (bb_secret_key s) (build_query_string ps)) ps
      in J_obj [(''id'', J_str (to_string (unat request_id))),
                (''method'', J_str meth),
                (''params'', j_of_params ps)])"

section \<open>Requests\<close>

text \<open>\<open>written\<close> is the result of the web socket's write, \<open>now\<close> the time of the request book's entry.\<close>

definition send_order_request ::
    "'k signer \<Rightarrow> int \<Rightarrow> int \<Rightarrow> string \<Rightarrow> params \<Rightarrow> u64 \<Rightarrow> BrokerReqType \<Rightarrow> 'k BinanceBroker \<Rightarrow>
     bool \<times> json list \<times> 'k BinanceBroker" where
  "send_order_request sign written now meth ps request_id req_type s =
     (let message = format_websocket_message sign meth ps request_id s
      in if written < 0 then (False, [], s)
         else (True, [message], s\<lparr> bb_req_book := add_request now request_id req_type (bb_req_book s) \<rparr>))"

definition bb_insert_order ::
    "'k signer \<Rightarrow> int \<Rightarrow> int \<Rightarrow> OrderInput \<Rightarrow> 'k BinanceBroker \<Rightarrow> bool \<times> json list \<times> 'k BinanceBroker" where
  "bb_insert_order sign written now input s =
     (if \<not> bb_is_connected s then (False, [], s)
      else case build_order_params input s of
             None \<Rightarrow> (False, [], s)
           | Some ps \<Rightarrow> send_order_request sign written now ''order.place'' ps (oi_order_id input) Req_OrderPlace s)"

definition bb_cancel_order ::
    "'k signer \<Rightarrow> int \<Rightarrow> int \<Rightarrow> OrderCancel \<Rightarrow> 'k BinanceBroker \<Rightarrow> bool \<times> json list \<times> 'k BinanceBroker" where
  "bb_cancel_order sign written now input s =
     (if \<not> bb_is_connected s then (False, [], s)
      else send_order_request sign written now ''order.cancel'' (build_cancel_params input s) (oc_order_id input)
             Req_OrderCancel s)"

definition bb_req_account_info ::
    "'k signer \<Rightarrow> int \<Rightarrow> int \<Rightarrow> AccountReq \<Rightarrow> 'k BinanceBroker \<Rightarrow> bool \<times> json list \<times> 'k BinanceBroker" where
  "bb_req_account_info sign written now req s =
     (if \<not> bb_is_connected s then (False, [], s)
      else case rq_type req of
             AR_Status \<Rightarrow>
               send_order_request sign written now ''account.status'' (build_account_params req s) (rq_id req)
                 Req_PositionBook s
           | AR_OrderBook \<Rightarrow>
               send_order_request sign written now ''openOrders.status'' (build_account_params req s) (rq_id req)
                 Req_OrderBook s
           | AR_Order \<Rightarrow>
               send_order_request sign written now ''order.status''
                 (put_params [(''symbol'', arr_str (rq_instrument_id req)),
                              (''orderId'', to_string (unat (rq_target_id req)))] (build_account_params req s))
                 (rq_id req) Req_OrderState s
           | AR_PositionBook \<Rightarrow> (True, [], s))"

section \<open>Messages from the exchange\<close>

datatype BrokerLog =
    Log_empty | Log_parse_error | Log_exception | Log_unknown_request u64 | Log_error_response | Log_no_id
  | Log_placed u64 | Log_cancelled u64 | Log_order_book u64 | Log_order_state u64 | Log_position_book u64
  | Log_unknown_type u64

fun handle_response :: "u64 \<Rightarrow> BrokerReqType \<Rightarrow> json \<Rightarrow> BrokerLog" where
  "handle_response req_id Req_OrderPlace response = Log_placed req_id"
| "handle_response req_id Req_OrderCancel response = Log_cancelled req_id"
| "handle_response req_id Req_OrderBook response = Log_order_book req_id"
| "handle_response req_id Req_OrderState response = Log_order_state req_id"
| "handle_response req_id Req_PositionBook response = Log_position_book req_id"
| "handle_response req_id Req_Unknown response = Log_unknown_type req_id"

definition bb_on_msg :: "(string \<Rightarrow> json option) \<Rightarrow> string \<Rightarrow> 'k BinanceBroker \<Rightarrow> BrokerLog" where
  "bb_on_msg parse msg s =
     (if msg = [] then Log_empty
      else case parse msg of
             None \<Rightarrow> Log_parse_error
           | Some j \<Rightarrow>
               if j_contains j ''id''
               then (case then_do (j_at j ''id'') j_string of
                       Value txt \<Rightarrow>
                         (case stoull txt of
                            None \<Rightarrow> Log_exception
                          | Some req_id \<Rightarrow>
                              if has_request (bb_req_book s) req_id
                              then handle_response req_id (get_request (bb_req_book s) req_id) j
                              else Log_unknown_request req_id)
                     | _ \<Rightarrow> Log_exception)
               else if j_contains j ''error'' then Log_error_response
               else Log_no_id)"

section \<open>Connection\<close>

definition bb_on_connect :: "'k BinanceBroker \<Rightarrow> 'k BinanceBroker" where
  "bb_on_connect s = s\<lparr> bb_is_connected := True, bb_should_reconnect := False, bb_reconnect_attempts := 0,
     bb_state := BS_Ready \<rparr>"

definition bb_on_disconnect :: "'k BinanceBroker \<Rightarrow> 'k BinanceBroker" where
  "bb_on_disconnect s = s\<lparr> bb_is_connected := False, bb_state := BS_DisConnected \<rparr>"

text \<open>Two handlers nothing calls: the web socket has no callback for errors, and no timer runs out.\<close>

definition bb_on_error :: "'k BinanceBroker \<Rightarrow> 'k BinanceBroker" where
  "bb_on_error s = s\<lparr> bb_is_connected := False, bb_state := BS_LoginFailed \<rparr>"

definition handle_connection_timeout :: "'k BinanceBroker \<Rightarrow> 'k BinanceBroker" where
  "handle_connection_timeout s = s\<lparr> bb_is_connected := False, bb_should_reconnect := True \<rparr>"

definition bb_stop :: "'k BinanceBroker \<Rightarrow> 'k BinanceBroker" where
  "bb_stop s = s\<lparr> bb_should_reconnect := False, bb_is_connected := False \<rparr>"

definition validate_config :: "json \<Rightarrow> bool" where
  "validate_config cfg \<longleftrightarrow> j_contains cfg ''account'' \<and> j_contains cfg ''password''"

definition load_api_credentials ::
    "(string \<Rightarrow> bool \<Rightarrow> 'k option) \<Rightarrow> json \<Rightarrow> 'k BinanceBroker \<Rightarrow> 'k BinanceBroker outcome" where
  "load_api_credentials load_key cfg s =
     then_do (then_do (j_at cfg ''account'') j_string) (\<lambda>account.
     then_do (if j_contains cfg ''public_key_file''
              then then_do (then_do (j_at cfg ''public_key_file'') j_string) (\<lambda>file.
                     case load_key file False of None \<Rightarrow> Raised | Some _ \<Rightarrow> Value ())
              else Value ()) (\<lambda>_.
     then_do (then_do (j_at cfg ''password'') j_string) (\<lambda>file.
       case load_key file True of
         None \<Rightarrow> Raised
       | Some pkey \<Rightarrow> Value (s\<lparr> bb_public_key_str := account, bb_secret_key := Some pkey \<rparr>))))"

text \<open>\<open>setup\<close> passes its exceptions on.\<close>

definition bb_setup ::
    "(string \<Rightarrow> bool \<Rightarrow> 'k option) \<Rightarrow> json \<Rightarrow> 'k BinanceBroker \<Rightarrow> 'k BinanceBroker outcome" where
  "bb_setup load_key cfg s =
     (if \<not> validate_config cfg then Raised
      else then_do (load_api_credentials load_key cfg s) (\<lambda>s.
             Value (s\<lparr> bb_uri := s_wss_endpoint, bb_handlers := True \<rparr>)))"

text \<open>
  The loop that waits for the connection, at most \<open>connection_timeout_seconds\<close> rounds of a second;
  \<open>arrives n\<close> says whether the callback of the connection runs during round \<open>n\<close>.
\<close>

function wait_connected :: "(nat \<Rightarrow> bool) \<Rightarrow> nat \<Rightarrow> 'k BinanceBroker \<Rightarrow> 'k BinanceBroker" where
  "wait_connected arrives try_count s =
     (if \<not> bb_is_connected s \<and> try_count < connection_timeout_seconds
      then wait_connected arrives (Suc try_count) (if arrives try_count then bb_on_connect s else s)
      else s)"
  by pat_completeness auto

termination
  by (relation "measure (\<lambda>(_, try_count, _). connection_timeout_seconds - try_count)") auto

declare wait_connected.simps [simp del]

definition establish_connection :: "int \<Rightarrow> (nat \<Rightarrow> bool) \<Rightarrow> 'k BinanceBroker \<Rightarrow> bool \<times> 'k BinanceBroker" where
  "establish_connection opened arrives s =
     (if opened \<noteq> 0 then (False, s)
      else let s = wait_connected arrives 0 s in (bb_is_connected s, s))"

definition bb_start :: "int \<Rightarrow> (nat \<Rightarrow> bool) \<Rightarrow> 'k BinanceBroker \<Rightarrow> 'k BinanceBroker outcome" where
  "bb_start opened arrives s =
     (let (ok, s) = establish_connection opened arrives s in if ok then Value s else Raised)"

definition bb_reconnect :: "int \<Rightarrow> (nat \<Rightarrow> bool) \<Rightarrow> 'k BinanceBroker \<Rightarrow> 'k BinanceBroker" where
  "bb_reconnect opened arrives s =
     (if bb_reconnect_attempts s \<ge> max_reconnect_attempts then s\<lparr> bb_should_reconnect := False \<rparr>
      else let (ok, s) = establish_connection opened arrives
                 (s\<lparr> bb_reconnect_attempts := bb_reconnect_attempts s + 1 \<rparr>)
           in if ok then s\<lparr> bb_should_reconnect := False, bb_reconnect_attempts := 0 \<rparr> else s)"

definition get_connection_status :: "'k BinanceBroker \<Rightarrow> string" where
  "get_connection_status s =
     (if bb_is_connected s then ''Connected''
      else if bb_should_reconnect s then ''Reconnecting'' else ''Disconnected'')"

section \<open>The query string determines its parameters\<close>

text \<open>What a server reads from a query string: the pieces between \<open>&\<close>, each split at its first \<open>=\<close>.\<close>

definition read_pair :: "string \<Rightarrow> string \<times> string" where
  "read_pair s = (takeWhile (\<lambda>c. c \<noteq> CHR ''='') s, drop 1 (dropWhile (\<lambda>c. c \<noteq> CHR ''='') s))"

fun read_query :: "string \<Rightarrow> string \<Rightarrow> (string \<times> string) list" where
  "read_query acc [] = [read_pair acc]"
| "read_query acc (c # cs) =
     (if c = CHR ''&'' then read_pair acc # read_query [] cs else read_query (acc @ [c]) cs)"

definition plain_pair :: "string \<times> string \<Rightarrow> bool" where
  "plain_pair = (\<lambda>(k, v). CHR ''&'' \<notin> set k \<and> CHR ''='' \<notin> set k \<and> CHR ''&'' \<notin> set v)"

lemma read_pair_plain: "plain_pair (k, v) \<Longrightarrow> read_pair (k @ ''='' @ v) = (k, v)"
  by (simp add: read_pair_def plain_pair_def takeWhile_upto dropWhile_upto)

lemma read_query_piece: "CHR ''&'' \<notin> set p \<Longrightarrow> read_query acc (p @ ''&'' @ rest) = read_pair (acc @ p) # read_query [] rest"
  and read_query_last: "CHR ''&'' \<notin> set p \<Longrightarrow> read_query acc p = [read_pair (acc @ p)]"
  by (induction p arbitrary: acc) auto

text \<open>The loop that builds the query string, from a query already begun.\<close>

lemma query_loop: "q \<noteq> [] \<Longrightarrow> foldl query_step q ps = q @ concat (List.map (\<lambda>(k, v). ''&'' @ k @ ''='' @ v) ps)"
  by (induction ps arbitrary: q) (auto simp: query_step_def)

lemma build_query_Cons:
  "build_query_string ((k, v) # ps) = k @ ''='' @ v @ concat (List.map (\<lambda>(k, v). ''&'' @ k @ ''='' @ v) ps)"
  by (simp add: build_query_string_def query_loop query_step_def)

lemma read_built_query:
  "\<lbrakk> list_all plain_pair (kv # ps) \<rbrakk> \<Longrightarrow> read_query [] (build_query_string (kv # ps)) = kv # ps"
proof (induction ps arbitrary: kv)
  case Nil
  then show ?case
    by (cases kv) (simp add: build_query_Cons plain_pair_def read_query_last read_pair_plain [unfolded plain_pair_def, simplified])
next
  case (Cons kv' ps)
  obtain k v k' v' where [simp]: "kv = (k, v)" "kv' = (k', v')" by (cases kv, cases kv')
  have "build_query_string (kv # kv' # ps) = (k @ ''='' @ v) @ ''&'' @ build_query_string (kv' # ps)"
    by (simp add: build_query_Cons)
  moreover have pl: "CHR ''&'' \<notin> set (k @ ''='' @ v)" "plain_pair (k, v)"
    using Cons.prems by (simp_all add: plain_pair_def)
  moreover have "read_query [] ((k @ ''='' @ v) @ ''&'' @ build_query_string (kv' # ps)) =
      (k, v) # read_query [] (build_query_string (kv' # ps))"
    using read_query_piece [OF pl(1), of "[]"] read_pair_plain [OF pl(2)] by (metis append_Nil)
  ultimately show ?case using Cons.IH [of kv'] Cons.prems by simp
qed

lemma build_query_nonempty: "build_query_string (kv # ps) \<noteq> []"
  by (cases kv) (simp add: build_query_Cons)

lemma query_string_injective:
  assumes "list_all plain_pair ps" "list_all plain_pair ps'" "build_query_string ps = build_query_string ps'"
  shows "ps = ps'"
proof (cases ps; cases ps')
  fix kv qs kv' qs' assume "ps = kv # qs" "ps' = kv' # qs'"
  then show ?thesis using assms read_built_query by metis
next
  fix kv qs assume "ps = []" "ps' = kv # qs"
  then show ?thesis using assms(3) build_query_nonempty [of kv qs] by (simp add: build_query_string_def)
next
  fix kv qs assume "ps = kv # qs" "ps' = []"
  then show ?thesis using assms(3) build_query_nonempty [of kv qs] by (simp add: build_query_string_def)
qed simp

section \<open>Runs of the service\<close>

text \<open>Everything that can change the state of the service once it is set up, with what it sends.\<close>

inductive bb_step :: "'k signer \<Rightarrow> 'k BinanceBroker \<Rightarrow> json list \<Rightarrow> 'k BinanceBroker \<Rightarrow> bool" for sign where
  insert: "bb_insert_order sign written now input s = (ok, out, s') \<Longrightarrow> bb_step sign s out s'"
| cancel: "bb_cancel_order sign written now action s = (ok, out, s') \<Longrightarrow> bb_step sign s out s'"
| account: "bb_req_account_info sign written now req s = (ok, out, s') \<Longrightarrow> bb_step sign s out s'"
| connect: "bb_step sign s [] (bb_on_connect s)"
| disconnect: "bb_step sign s [] (bb_on_disconnect s)"
| stop: "bb_step sign s [] (bb_stop s)"
| start: "bb_start opened arrives s = Value s' \<Longrightarrow> bb_step sign s [] s'"
| reconnect: "bb_step sign s [] (bb_reconnect opened arrives s)"

inductive bb_run :: "'k signer \<Rightarrow> 'k BinanceBroker \<Rightarrow> json list \<Rightarrow> 'k BinanceBroker \<Rightarrow> bool" for sign where
  refl: "bb_run sign s [] s"
| step: "\<lbrakk> bb_run sign s out s'; bb_step sign s' out' s'' \<rbrakk> \<Longrightarrow> bb_run sign s (out @ out') s''"

text \<open>A message signed with the key over its other parameters, for a request that is in the book.\<close>

definition request_message :: "string \<Rightarrow> u64 \<Rightarrow> params \<Rightarrow> json" where
  "request_message meth i ps =
     J_obj [(''id'', J_str (to_string (unat i))), (''method'', J_str meth), (''params'', j_of_params ps)]"

definition signed_request :: "'k signer \<Rightarrow> 'k option \<Rightarrow> RequestBook \<Rightarrow> json \<Rightarrow> bool" where
  "signed_request sign pkey book m \<longleftrightarrow>
     (\<exists>meth i ps. m = request_message meth i (omap_set ''signature'' (sign pkey (build_query_string ps)) ps) \<and>
        omap_wf ps \<and> omap_find ps ''signature'' = None \<and> omap_find ps ''newClientOrderId'' = None \<and>
        has_request book i)"

lemma put_params_wf: "omap_wf ps \<Longrightarrow> omap_wf (put_params kvs ps)"
  by (induction kvs arbitrary: ps) (auto simp: put_params_def)

lemma put_params_find: "omap_find (put_params kvs ps) k = (case map_of (rev kvs) k of None \<Rightarrow> omap_find ps k | v \<Rightarrow> v)"
proof (induction kvs arbitrary: ps)
  case (Cons kv kvs)
  obtain j v where [simp]: "kv = (j, v)" by (cases kv)
  have "put_params (kv # kvs) ps = put_params kvs (omap_set j v ps)" by (simp add: put_params_def)
  then show ?case by (simp add: Cons.IH map_add_def split: option.splits)
qed (simp add: put_params_def)

text \<open>The parameters the three builders make: well-formed, without signature and without an own order id.\<close>

definition plain_params :: "params \<Rightarrow> bool" where
  "plain_params ps \<longleftrightarrow> omap_wf ps \<and> omap_find ps ''signature'' = None \<and> omap_find ps ''newClientOrderId'' = None"

lemma plain_put: "\<lbrakk> plain_params ps; ''signature'' \<notin> fst ` set kvs; ''newClientOrderId'' \<notin> fst ` set kvs \<rbrakk> \<Longrightarrow> plain_params (put_params kvs ps)"
  by (auto simp: plain_params_def put_params_wf put_params_find map_of_eq_None_iff split: option.splits)

lemma plain_Nil: "plain_params []"
  by (simp add: plain_params_def)

lemma builders_plain:
  "build_order_params input s = Some ps \<Longrightarrow> plain_params ps"
  "plain_params (build_cancel_params action s)"
  "plain_params (build_account_params req s)"
  "plain_params (put_params [(''symbol'', x), (''orderId'', y)] (build_account_params req s))"
  by (auto simp: build_order_params_def build_cancel_params_def build_account_params_def
      intro!: plain_put plain_Nil split: option.splits)

lemma signed_requestI:
  "\<lbrakk> plain_params ps; has_request book i \<rbrakk> \<Longrightarrow> signed_request sign pkey book
     (request_message meth i (omap_set ''signature'' (sign pkey (build_query_string ps)) ps))"
  unfolding signed_request_def plain_params_def by blast

lemma format_is_request:
  "format_websocket_message sign meth ps i s =
     request_message meth i (omap_set ''signature'' (sign (bb_secret_key s) (build_query_string ps)) ps)"
  by (simp add: format_websocket_message_def request_message_def)

text \<open>What a step keeps: the key, the pending requests, and that a connected service is ready.\<close>

definition bb_ready :: "'k BinanceBroker \<Rightarrow> bool" where
  "bb_ready s \<longleftrightarrow> (bb_is_connected s \<longrightarrow> bb_state s = BS_Ready) \<and> \<not> bb_should_reconnect s"

definition bb_kept :: "'k signer \<Rightarrow> 'k BinanceBroker \<Rightarrow> json list \<Rightarrow> 'k BinanceBroker \<Rightarrow> bool" where
  "bb_kept sign s out s' \<longleftrightarrow>
     list_all (signed_request sign (bb_secret_key s) (bb_req_book s')) out \<and>
     (\<forall>i. has_request (bb_req_book s) i \<longrightarrow> has_request (bb_req_book s') i) \<and>
     bb_secret_key s' = bb_secret_key s \<and> (bb_ready s \<longrightarrow> bb_ready s')"

lemma bb_kept_quiet [simp]:
  "bb_kept sign s [] (s\<lparr> bb_is_connected := c, bb_should_reconnect := r, bb_reconnect_attempts := n, bb_state := st \<rparr>) \<longleftrightarrow>
     (bb_ready s \<longrightarrow> (c \<longrightarrow> st = BS_Ready) \<and> \<not> r)"
  by (auto simp: bb_kept_def bb_ready_def)

lemma bb_kept_refl [simp]: "bb_kept sign s [] s"
  by (simp add: bb_kept_def)

lemma signed_request_more:
  "\<lbrakk> \<forall>i. has_request b i \<longrightarrow> has_request b' i; signed_request sign pkey b m \<rbrakk> \<Longrightarrow> signed_request sign pkey b' m"
  unfolding signed_request_def by blast

lemma bb_kept_trans:
  "\<lbrakk> bb_kept sign s out s'; bb_kept sign s' out' s'' \<rbrakk> \<Longrightarrow> bb_kept sign s (out @ out') s''"
  using signed_request_more [of "bb_req_book s'" "bb_req_book s''" sign "bb_secret_key s"]
  by (auto simp: bb_kept_def list_all_iff)

lemma send_kept:
  assumes "send_order_request sign written now meth ps i ty s = (ok, out, s')" "plain_params ps"
  shows "bb_kept sign s out s'"
  using assms signed_requestI [OF assms(2), of "add_request now i ty (bb_req_book s)" i sign "bb_secret_key s" meth]
  by (auto simp: send_order_request_def format_is_request bb_kept_def bb_ready_def Let_def split: if_splits)

lemma insert_kept: "bb_insert_order sign written now input s = (ok, out, s') \<Longrightarrow> bb_kept sign s out s'"
  by (auto simp: bb_insert_order_def split: if_splits option.splits dest: send_kept intro: builders_plain(1))

lemma cancel_kept: "bb_cancel_order sign written now action s = (ok, out, s') \<Longrightarrow> bb_kept sign s out s'"
  by (auto simp: bb_cancel_order_def builders_plain split: if_splits dest!: send_kept)

lemma account_kept: "bb_req_account_info sign written now req s = (ok, out, s') \<Longrightarrow> bb_kept sign s out s'"
  by (auto simp: bb_req_account_info_def builders_plain split: if_splits AccountReqType.splits dest!: send_kept)

lemma connect_kept: "bb_kept sign s [] (bb_on_connect s)"
  and disconnect_kept: "bb_kept sign s [] (bb_on_disconnect s)"
  and stop_kept: "bb_kept sign s [] (bb_stop s)"
  by (simp_all add: bb_kept_def bb_ready_def bb_on_connect_def bb_on_disconnect_def bb_stop_def)

lemma wait_kept: "bb_kept sign s [] (wait_connected arrives n s)"
proof (induction arrives n s rule: wait_connected.induct)
  case (1 arrives n s)
  show ?case
    using "1.IH" bb_kept_trans [OF connect_kept [of sign s], of "[]"]
    by (subst wait_connected.simps) (auto split: if_splits)
qed

lemma establish_kept: "bb_kept sign s [] (snd (establish_connection opened arrives s))"
  by (simp add: establish_connection_def wait_kept Let_def)

text \<open>Waiting succeeds exactly when the connection comes within the ten rounds.\<close>

lemma wait_connected_iff:
  "bb_is_connected (wait_connected arrives n s) \<longleftrightarrow>
     bb_is_connected s \<or> (\<exists>k. n \<le> k \<and> k < connection_timeout_seconds \<and> arrives k)"
proof (induction arrives n s rule: wait_connected.induct)
  case (1 arrives n s)
  show ?case
  proof (cases "\<not> bb_is_connected s \<and> n < connection_timeout_seconds")
    case True
    have "(\<exists>k. n \<le> k \<and> k < connection_timeout_seconds \<and> arrives k) \<longleftrightarrow>
        arrives n \<or> (\<exists>k. Suc n \<le> k \<and> k < connection_timeout_seconds \<and> arrives k)"
      using True by (metis Suc_leD le_antisym not_less_eq_eq)
    with 1 [OF True] True show ?thesis by (subst wait_connected.simps) (simp add: bb_on_connect_def)
  next
    case False
    then show ?thesis by (subst wait_connected.simps) auto
  qed
qed

lemma start_kept: "bb_start opened arrives s = Value s' \<Longrightarrow> bb_kept sign s [] s'"
  using establish_kept [of sign s opened arrives]
  by (simp add: bb_start_def Let_def split: prod.splits if_splits)

lemma reconnect_kept: "bb_kept sign s [] (bb_reconnect opened arrives s)"
proof -
  have "bb_kept sign s [] (s\<lparr> bb_reconnect_attempts := bb_reconnect_attempts s + 1 \<rparr>)"
    by (simp add: bb_kept_def bb_ready_def)
  note bb_kept_trans [OF this establish_kept [of sign _ opened arrives]]
  then show ?thesis
    by (auto simp: bb_reconnect_def bb_kept_def bb_ready_def Let_def split: prod.splits)
qed

lemma bb_step_kept: "bb_step sign s out s' \<Longrightarrow> bb_kept sign s out s'"
  by (induction rule: bb_step.induct)
    (auto intro: insert_kept cancel_kept account_kept connect_kept disconnect_kept stop_kept start_kept reconnect_kept)

lemma bb_run_kept: "bb_run sign s out s' \<Longrightarrow> bb_kept sign s out s'"
  by (induction rule: bb_run.induct) (auto intro: bb_kept_trans bb_step_kept)

section \<open>Properties\<close>

definition sample_binance :: "unit BinanceBroker" where
  "sample_binance = bb_on_connect (BinanceBroker_new\<lparr> bb_public_key_str := ''pk'', bb_secret_key := Some () \<rparr>)"

definition sample_signer :: "unit signer" where
  "sample_signer pkey query = ''c2ln''"

definition sample_placement :: OrderInput where
  "sample_placement = OrderInput_zero\<lparr> oi_order_id := 77, oi_volume := lit (5 / 4), oi_limit_price := lit (1 / 100) \<rparr>"

text \<open>C36: Every message the Binance broker sends, in any run of requests, connections, losses of the
  connection, restarts and reconnections, is a request whose parameters carry the signature, by the
  broker's key, of the query string of all its other parameters; that string determines those
  parameters as long as no name or value contains the separators; the id of the request is in the
  request book at the end of the run; and no message names an order by \<open>newClientOrderId\<close>.\<close>

theorem binance_requests_signed:
  assumes "bb_run sign s out s'" "m \<in> set out"
  shows "\<exists>meth i ps. m = request_message meth i (omap_set ''signature'' (sign (bb_secret_key s) (build_query_string ps)) ps) \<and>
      omap_wf ps \<and> omap_find ps ''signature'' = None \<and> omap_find ps ''newClientOrderId'' = None \<and>
      has_request (bb_req_book s') i \<and>
      (\<forall>ps'. list_all plain_pair ps \<longrightarrow> list_all plain_pair ps' \<longrightarrow> build_query_string ps' = build_query_string ps \<longrightarrow> ps' = ps)"
proof -
  have "signed_request sign (bb_secret_key s) (bb_req_book s') m"
    using bb_run_kept [OF assms(1)] assms(2) by (simp add: bb_kept_def list_all_iff)
  then show ?thesis unfolding signed_request_def using query_string_injective by blast
qed

lemma sample_placed_run:
  "bb_run sample_signer sample_binance (fst (snd (bb_insert_order sample_signer 10 0 sample_placement sample_binance)))
     (snd (snd (bb_insert_order sample_signer 10 0 sample_placement sample_binance)))"
proof -
  obtain ok out s' where r: "bb_insert_order sample_signer 10 0 sample_placement sample_binance = (ok, out, s')"
    using prod_cases3 by blast
  show ?thesis using bb_run.step [OF bb_run.refl bb_step.insert [OF r]] by (simp add: r)
qed

lemma sample_placed:
  "bb_insert_order sample_signer 10 0 sample_placement sample_binance =
     (True, [request_message ''order.place'' 77 (omap_set ''signature'' ''c2ln''
        (the (build_order_params sample_placement sample_binance)))],
      sample_binance\<lparr> bb_req_book := add_request 0 77 Req_OrderPlace (bb_req_book sample_binance) \<rparr>)"
  by (simp add: bb_insert_order_def send_order_request_def format_is_request sample_binance_def bb_on_connect_def
      sample_placement_def OrderInput_zero_def build_order_params_def s_sides_def s_price_types_def s_time_conditions_def
      sample_signer_def)

lemma binance_requests_signed_witness:
  "\<exists>meth i ps. request_message ''order.place'' 77 (omap_set ''signature'' ''c2ln''
       (the (build_order_params sample_placement sample_binance))) =
     request_message meth i (omap_set ''signature'' ''c2ln'' ps) \<and> omap_find ps ''newClientOrderId'' = None"
  using binance_requests_signed [OF sample_placed_run] by (simp add: sample_placed sample_signer_def) metis

lemma time_condition_known: "s_time_conditions c \<noteq> None"
  by (cases c) (simp_all add: s_time_conditions_def)

lemma price_type_known: "s_price_types t = None \<longleftrightarrow> t = Price_Unknown"
  by (cases t) (simp_all add: s_price_types_def)

lemma side_known: "s_sides d = None \<longleftrightarrow> d \<noteq> Side_Buy \<and> d \<noteq> Side_Sell"
  by (cases d) (simp_all add: s_sides_def)

lemma build_order_params_None:
  "build_order_params input s = None \<longleftrightarrow>
     oi_side input \<noteq> Side_Buy \<and> oi_side input \<noteq> Side_Sell \<or> oi_price_type input = Price_Unknown"
  using time_condition_known [of "oi_time_condition input"]
  by (auto simp: build_order_params_def price_type_known [symmetric] side_known [symmetric] split: option.splits)

lemma order_param:
  assumes "build_order_params input s = Some ps"
  shows "omap_find ps ''price'' = (if oi_price_type input = Price_Limit then Some (string_of_double (oi_limit_price input)) else None)"
    "omap_find ps ''quantity'' = Some (string_of_double (oi_volume input))"
    "omap_find ps ''symbol'' = Some (arr_str (oi_instrument_id input))"
    "omap_find ps ''side'' = s_sides (oi_side input)"
    "omap_find ps ''newClientOrderId'' = None"
  using assms by (auto simp: build_order_params_def put_params_find split: option.splits)

text \<open>What happens to an order given to the Binance broker. It is refused, and nothing is sent or
  recorded, when the broker is not connected, when its side is neither buying nor selling, when its
  price type is unknown, or when the write fails. Otherwise one signed \<open>order.place\<close> message goes out,
  with the order's symbol, side and volume, and with a price exactly when it is a limit order, and the
  id of the order is recorded as a pending placement.\<close>

theorem binance_insert_order_spec:
  "(if bb_is_connected s \<and> (oi_side input = Side_Buy \<or> oi_side input = Side_Sell) \<and>
       oi_price_type input \<noteq> Price_Unknown \<and> 0 \<le> written
    then \<exists>ps. bb_insert_order sign written now input s =
           (True, [format_websocket_message sign ''order.place'' ps (oi_order_id input) s],
            s\<lparr> bb_req_book := add_request now (oi_order_id input) Req_OrderPlace (bb_req_book s) \<rparr>) \<and>
         omap_find ps ''symbol'' = Some (arr_str (oi_instrument_id input)) \<and>
         omap_find ps ''side'' = Some (if oi_side input = Side_Buy then ''BUY'' else ''SELL'') \<and>
         omap_find ps ''quantity'' = Some (string_of_double (oi_volume input)) \<and>
         omap_find ps ''price'' =
           (if oi_price_type input = Price_Limit then Some (string_of_double (oi_limit_price input)) else None)
    else bb_insert_order sign written now input s = (False, [], s))"
proof (cases "build_order_params input s")
  case None
  then show ?thesis using build_order_params_None [of input s] by (auto simp: bb_insert_order_def)
next
  case (Some ps)
  have d: "oi_side input = Side_Buy \<or> oi_side input = Side_Sell" "oi_price_type input \<noteq> Price_Unknown"
    using Some build_order_params_None [of input s] by auto
  then have "s_sides (oi_side input) = Some (if oi_side input = Side_Buy then ''BUY'' else ''SELL'')"
    by (auto simp: s_sides_def)
  with d Some order_param [OF Some] show ?thesis
    by (auto simp: bb_insert_order_def send_order_request_def Let_def)
qed

text \<open>The exchange's refusal of an order is taken for its acceptance. After the broker has sent an
  order, any message with the id of the order is logged as a placed order, whatever else it holds, an
  \<open>error\<close> entry included, and the request stays pending, so that every further message does the same.\<close>

theorem binance_refusal_logged_as_placed:
  assumes "bb_insert_order sign written now input s = (True, out, s')"
    "parse msg = Some (J_obj entries)" "map_of entries ''id'' = Some (J_str (to_string (unat (oi_order_id input))))" "msg \<noteq> []"
  shows "bb_on_msg parse msg s' = Log_placed (oi_order_id input)"
proof -
  have "has_request (bb_req_book s') (oi_order_id input)" "get_request (bb_req_book s') (oi_order_id input) = Req_OrderPlace"
    using assms(1) by (auto simp: bb_insert_order_def send_order_request_def Let_def split: if_splits option.splits)
  moreover have "unat (oi_order_id input) < 2 ^ 64" using unsigned_less [of "oi_order_id input"] by simp
  ultimately show ?thesis using assms(2-) by (simp add: bb_on_msg_def)
qed

lemma sample_placement_id: "to_string 77 = ''77''" "oi_order_id sample_placement = 77"
  by (code_simp, simp add: sample_placement_def)

lemma binance_refusal_logged_as_placed_witness:
  "bb_on_msg (\<lambda>_. Some (J_obj [(''id'', J_str ''77''), (''status'', J_int 400), (''error'', J_obj [])])) ''{..}''
     (snd (snd (bb_insert_order sample_signer 10 0 sample_placement sample_binance))) = Log_placed 77"
  using binance_refusal_logged_as_placed [OF sample_placed, of "\<lambda>_. Some (J_obj [(''id'', J_str ''77''), (''status'', J_int 400),
     (''error'', J_obj [])])" "''{..}''"]
  by (simp add: sample_placed sample_placement_id)

text \<open>A cancellation cannot name the order it is for. The parameters of an order do not depend on its
  id, so the exchange is never told it (two orders alike but for their ids make the same request), and
  none of them is \<open>newClientOrderId\<close>; the cancellation nevertheless asks for the order with that id as
  \<open>origClientOrderId\<close>.\<close>

theorem binance_cancel_names_no_order:
  "build_order_params (input\<lparr> oi_order_id := i \<rparr>) s = build_order_params (input\<lparr> oi_order_id := j \<rparr>) s \<and>
   map_option (\<lambda>ps. omap_find ps ''newClientOrderId'') (build_order_params input s) \<in> {None, Some None} \<and>
   omap_find (build_cancel_params action s) ''origClientOrderId'' = Some (to_string (unat (oc_target_order_id action)))"
proof -
  have "build_order_params (input\<lparr> oi_order_id := n \<rparr>) s = build_order_params input s" for n
    by (simp add: build_order_params_def split: option.split)
  moreover have "map_option (\<lambda>ps. omap_find ps ''newClientOrderId'') (build_order_params input s) \<in> {None, Some None}"
    by (cases "build_order_params input s") (simp_all add: order_param(5))
  ultimately show ?thesis by (simp add: build_cancel_params_def put_params_find)
qed

text \<open>What the exchange reads as an order's quantity. A volume with at most six decimals below
  \<open>2 ^ 33\<close> is read as the very same number. Of any other volume the nearest millionth is read, so that
  one of less than half a millionth is ordered as zero.\<close>

theorem binance_quantity_sent:
  assumes "build_order_params input s = Some ps"
  shows "(oi_volume input = lit (of_nat k / 1000000) \<longrightarrow> k < 2 ^ 33 * 1000000 \<longrightarrow>
      map_option stod (omap_find ps ''quantity'') = Some (Some (oi_volume input))) \<and>
    (oi_volume input = Fin q \<longrightarrow> 0 \<le> q \<longrightarrow>
      (\<exists>n. omap_find ps ''quantity'' = Some (fixed6 n) \<and> \<bar>of_nat n / 1000000 - q\<bar> \<le> 1 / 2000000 \<and>
        (q < 1 / 2000000 \<longrightarrow> n = 0)))"
proof (intro conjI impI)
  assume v: "oi_volume input = lit (of_nat k / 1000000)" and k: "k < 2 ^ 33 * 1000000"
  then show "map_option stod (omap_find ps ''quantity'') = Some (Some (oi_volume input))"
    using order_param(2) [OF assms] stod_printed [OF k] by simp
next
  assume v: "oi_volume input = Fin q" "0 \<le> q"
  have "q < 1 / 2000000 \<Longrightarrow> millionths q = 0"
    using v(2) rne_nearest [of "q * 1000000" 0] by (simp add: millionths_def)
  with v millionths_close [of q] order_param(2) [OF assms]
  show "\<exists>n. omap_find ps ''quantity'' = Some (fixed6 n) \<and> \<bar>of_nat n / 1000000 - q\<bar> \<le> 1 / 2000000 \<and>
        (q < 1 / 2000000 \<longrightarrow> n = 0)"
    by (intro exI [of _ "millionths q"]) simp
qed

lemma binance_quantity_sent_witness:
  "map_option stod (omap_find (the (build_order_params (sample_placement\<lparr> oi_volume := lit (of_nat 1250000 / 1000000) \<rparr>) sample_binance)) ''quantity'') =
     Some (Some (lit (5 / 4)))"
proof -
  obtain ps where ps: "build_order_params (sample_placement\<lparr> oi_volume := lit (of_nat 1250000 / 1000000) \<rparr>) sample_binance = Some ps"
    using build_order_params_None [of "sample_placement\<lparr> oi_volume := lit (of_nat 1250000 / 1000000) \<rparr>" sample_binance]
    by (auto simp: sample_placement_def OrderInput_zero_def)
  show ?thesis using binance_quantity_sent [OF ps, of 1250000] ps by simp
qed

end
