(* ===== verification/TradeService.thy ===== *)
theory TradeService
  imports Engines BinanceBroker
begin

text \<open>
  What \<open>insert_order\<close> means for a sequence of orders in the two C++ trade services of the repository, the
  simulated broker and the one of Binance: a law both keep, as a locale with two interpretations. It is no
  contract of the interface (src/broker/trade_service.h): the trading engine ignores the result of the call
  (src/engines/td/td_engine.cpp), and the service in Python accepts orders without recording them
  (src/broker/pyservice/pytrade_service.cpp). The environment of a call (the clock, the result of a write)
  is an argument.
\<close>

locale trade_service =
  fixes place :: "'e \<Rightarrow> OrderInput \<Rightarrow> 's \<Rightarrow> bool \<times> 's"
    and pending :: "'s \<Rightarrow> u64 \<Rightarrow> bool"
  assumes place_refused: "place e input s = (False, s') \<Longrightarrow> s' = s"
    and place_accepted: "place e input s = (True, s') \<Longrightarrow> pending s' i \<longleftrightarrow> i = oi_order_id input \<or> pending s i"
begin

text \<open>A sequence of orders, each with its environment: the ids of those accepted, and the service.\<close>

fun places :: "('e \<times> OrderInput) list \<Rightarrow> 's \<Rightarrow> u64 list \<times> 's" where
  "places [] s = ([], s)"
| "places ((e, input) # inputs) s =
     (let (ok, s) = place e input s; (ids, s) = places inputs s
      in (if ok then oi_order_id input # ids else ids, s))"

lemma places_pending: "places inputs s = (ids, s') \<Longrightarrow> pending s' i \<longleftrightarrow> i \<in> set ids \<or> pending s i"
proof (induction inputs s arbitrary: ids s' rule: places.induct)
  case (2 e input inputs s)
  obtain ok s1 where p: "place e input s = (ok, s1)" by (cases "place e input s")
  obtain ids1 s2 where r: "places inputs s1 = (ids1, s2)" by (cases "places inputs s1")
  show ?case
  proof (cases ok)
    case True
    with 2 p r place_accepted [of e input s s1 i] show ?thesis by auto
  next
    case False
    with 2 p r place_refused [of e input s s1] show ?thesis by auto
  qed
qed simp

lemma places_all_refused: "places inputs s = ([], s') \<Longrightarrow> s' = s"
proof (induction inputs s arbitrary: s' rule: places.induct)
  case (2 e input inputs s)
  then show ?case using place_refused [of e input s] by (auto simp: Let_def split: prod.splits if_splits)
qed simp

end

definition sim_place :: "unit \<Rightarrow> OrderInput \<Rightarrow> BrokerSim \<Rightarrow> bool \<times> BrokerSim" where
  "sim_place e input s = insert_order input s"

definition sim_pending :: "BrokerSim \<Rightarrow> u64 \<Rightarrow> bool" where
  "sim_pending s i \<longleftrightarrow> omap_find (sim_orders s) i \<noteq> None"

text \<open>The environment of a call on the Binance service: the signer, the result of the write, the time.\<close>

definition bb_place :: "'k signer \<times> int \<times> int \<Rightarrow> OrderInput \<Rightarrow> 'k BinanceBroker \<Rightarrow> bool \<times> 'k BinanceBroker" where
  "bb_place = (\<lambda>(sign, written, now) input s.
     let (ok, _, s) = bb_insert_order sign written now input s in (ok, s))"

definition bb_pending :: "'k BinanceBroker \<Rightarrow> u64 \<Rightarrow> bool" where
  "bb_pending s = has_request (bb_req_book s)"

interpretation sim: trade_service sim_place sim_pending
  by unfold_locales
    (auto simp: sim_place_def sim_pending_def insert_order_def add_order_def submitted_order_def order_from_input_def Let_def
      split: if_splits prod.splits)

interpretation bin: trade_service bb_place bb_pending
  by unfold_locales
    (auto simp: bb_place_def bb_pending_def bb_insert_order_def send_order_request_def Let_def
      split: if_splits option.splits prod.splits)

end
