(* ===== verification/BinanceData.thy ===== *)
theory BinanceData
  imports Json "HOL-Library.Multiset"
begin

text \<open>
  The market-data service of the Binance exchange (src/broker/binance/binance_data.cpp): its
  configuration, the streams it subscribes to and the URI that lists them, the connection, and the
  translation of the exchange's messages into bars and quotes.

  The results of opening and writing, the moments of the callbacks and the parser of JSON texts are
  arguments. An exception is caught where the code catches it; what remains undefined (an entry the
  code takes to be there, a name too long for its array) is \<open>Undefined\<close>.
\<close>

section \<open>State\<close>

record BinanceData =
  bd_uri :: string
  bd_default_symbol :: string
  bd_is_connected :: bool
  bd_should_reconnect :: bool
  bd_reconnect_interval_ms :: int
  bd_max_reconnect_attempts :: int
  bd_current_reconnect_attempts :: int
  bd_enable_kline :: bool
  bd_enable_depth :: bool
  bd_kline_interval :: string
  bd_depth_levels :: int
  bd_subscribed :: "InstrumentKey list"
  bd_subscription_id_counter :: u64
  bd_handlers :: bool
  bd_has_writer :: bool
  bd_timers :: nat \<comment> \<open>threads started by \<open>on_disconnect\<close> that have not run yet\<close>

definition BinanceData_new :: BinanceData where
  "BinanceData_new =
     \<lparr> bd_uri = '''', bd_default_symbol = ''btcusdt'', bd_is_connected = False, bd_should_reconnect = False,
       bd_reconnect_interval_ms = 5000, bd_max_reconnect_attempts = 10, bd_current_reconnect_attempts = 0,
       bd_enable_kline = True, bd_enable_depth = True, bd_kline_interval = ''1s'', bd_depth_levels = 20,
       bd_subscribed = [], bd_subscription_id_counter = 1000, bd_handlers = False, bd_has_writer = False,
       bd_timers = 0 \<rparr>"

definition bd_set_customer :: "BinanceData \<Rightarrow> BinanceData" where
  "bd_set_customer s = s\<lparr> bd_has_writer := True \<rparr>"

section \<open>Streams\<close>

definition s_ws_stream_prefix :: string where
  "s_ws_stream_prefix = ''wss://stream.binance.com:443''"

text \<open>The streams of one symbol, by the configuration.\<close>

definition symbol_streams :: "BinanceData \<Rightarrow> string \<Rightarrow> string list" where
  "symbol_streams s symbol =
     (if bd_enable_kline s then [symbol @ ''@kline_'' @ bd_kline_interval s] else []) @
     (if bd_enable_depth s then [symbol @ ''@depth'' @ string_of_int (bd_depth_levels s)] else [])"

fun join_streams :: "string list \<Rightarrow> string" where
  "join_streams [] = []"
| "join_streams [x] = x"
| "join_streams (x # xs) = x @ ''/'' @ join_streams xs"

definition streams_uri :: "string list \<Rightarrow> string" where
  "streams_uri streams = s_ws_stream_prefix @ ''/stream?streams='' @ join_streams streams"

definition update_streams_uri :: "string list \<Rightarrow> BinanceData \<Rightarrow> BinanceData" where
  "update_streams_uri symbols s =
     (let streams = concat (List.map (symbol_streams s) symbols)
      in if streams \<noteq> [] then s\<lparr> bd_uri := streams_uri streams \<rparr> else s)"

definition set_default_streams :: "BinanceData \<Rightarrow> BinanceData" where
  "set_default_streams s =
     (let streams = symbol_streams s (bd_default_symbol s)
      in if streams = [] then s\<lparr> bd_uri := s_ws_stream_prefix @ ''/stream?streams=btcusdt@kline_1s/btcusdt@depth20'' \<rparr>
         else s\<lparr> bd_uri := streams_uri streams \<rparr>)"

definition key_symbol :: "InstrumentKey \<Rightarrow> string" where
  "key_symbol k = to_lower (arr_str (ik_instrument_id k))"

definition get_subscribed_symbols :: "BinanceData \<Rightarrow> string list" where
  "get_subscribed_symbols s = List.map key_symbol (bd_subscribed s)"

definition update_streams_uri_from_subscribed :: "BinanceData \<Rightarrow> BinanceData" where
  "update_streams_uri_from_subscribed s = update_streams_uri (get_subscribed_symbols s) s"

definition is_subscribed :: "string \<Rightarrow> BinanceData \<Rightarrow> bool" where
  "is_subscribed symbol s \<longleftrightarrow> to_lower symbol \<in> set (get_subscribed_symbols s)"

definition generate_subscription_id :: "BinanceData \<Rightarrow> u64 \<times> BinanceData" where
  "generate_subscription_id s =
     (let n = bd_subscription_id_counter s + 1 in (n, s\<lparr> bd_subscription_id_counter := n \<rparr>))"

section \<open>Configuration\<close>

text \<open>
  One \<open>if (extra.contains(..))\<close>; the flag is false once an exception has been thrown, and the rest
  is then skipped.
\<close>

definition bd_read ::
    "json \<Rightarrow> string \<Rightarrow> (json \<Rightarrow> 'a outcome) \<Rightarrow> ('a \<Rightarrow> BinanceData \<Rightarrow> BinanceData) \<Rightarrow>
     bool \<times> BinanceData \<Rightarrow> bool \<times> BinanceData" where
  "bd_read extra k conv upd = (\<lambda>(ok, s).
     if \<not> ok \<or> \<not> j_contains extra k then (ok, s)
     else case then_do (j_at extra k) conv of Value v \<Rightarrow> (True, upd v s) | _ \<Rightarrow> (False, s))"

definition bd_read_extra :: "json \<Rightarrow> BinanceData \<Rightarrow> bool \<times> BinanceData" where
  "bd_read_extra extra s =
     (let r = (if j_contains extra ''stream_uri''
               then bd_read extra ''stream_uri'' j_string (\<lambda>v s. s\<lparr> bd_uri := v \<rparr>) (True, s)
               else (True, set_default_streams s));
          r = bd_read extra ''symbol'' j_string (\<lambda>v s. s\<lparr> bd_default_symbol := v \<rparr>) r;
          r = bd_read extra ''enable_kline'' j_bool (\<lambda>v s. s\<lparr> bd_enable_kline := v \<rparr>) r;
          r = bd_read extra ''enable_depth'' j_bool (\<lambda>v s. s\<lparr> bd_enable_depth := v \<rparr>) r;
          r = bd_read extra ''kline_interval'' j_string (\<lambda>v s. s\<lparr> bd_kline_interval := v \<rparr>) r;
          r = bd_read extra ''depth_levels'' j_int32 (\<lambda>v s. s\<lparr> bd_depth_levels := v \<rparr>) r;
          r = bd_read extra ''reconnect_interval_ms'' j_int32 (\<lambda>v s. s\<lparr> bd_reconnect_interval_ms := v \<rparr>) r
      in bd_read extra ''max_reconnect_attempts'' j_int32 (\<lambda>v s. s\<lparr> bd_max_reconnect_attempts := v \<rparr>) r)"

text \<open>\<open>setup\<close>: the handlers of the web socket are only installed when no exception was thrown.\<close>

definition bd_setup :: "json \<Rightarrow> BinanceData \<Rightarrow> BinanceData" where
  "bd_setup cfg s =
     (let (ok, s) = (if j_contains cfg ''extra''
                     then case j_at cfg ''extra'' of Value extra \<Rightarrow> bd_read_extra extra s | _ \<Rightarrow> (False, s)
                     else (True, set_default_streams s))
      in if ok then s\<lparr> bd_handlers := True \<rparr> else set_default_streams s)"

section \<open>Connection\<close>

definition bd_start :: "int \<Rightarrow> BinanceData \<Rightarrow> BinanceData" where
  "bd_start opened s =
     (if opened \<noteq> 0 then s\<lparr> bd_should_reconnect := True \<rparr>
      else s\<lparr> bd_is_connected := True, bd_should_reconnect := False, bd_current_reconnect_attempts := 0 \<rparr>)"

definition bd_stop :: "BinanceData \<Rightarrow> BinanceData" where
  "bd_stop s = s\<lparr> bd_should_reconnect := False, bd_is_connected := False \<rparr>"

definition bd_on_connect :: "BinanceData \<Rightarrow> BinanceData" where
  "bd_on_connect s = s\<lparr> bd_is_connected := True, bd_should_reconnect := False, bd_current_reconnect_attempts := 0 \<rparr>"

text \<open>A lost connection starts a thread that waits for the interval, if reconnecting is wanted.\<close>

definition bd_on_disconnect :: "BinanceData \<Rightarrow> BinanceData" where
  "bd_on_disconnect s =
     (let s = s\<lparr> bd_is_connected := False \<rparr>
      in if bd_should_reconnect s then s\<lparr> bd_timers := Suc (bd_timers s) \<rparr> else s)"

definition bd_on_error :: "BinanceData \<Rightarrow> BinanceData" where
  "bd_on_error s = s\<lparr> bd_is_connected := False \<rparr>"

definition bd_reconnect :: "int \<Rightarrow> BinanceData \<Rightarrow> bool \<times> BinanceData" where
  "bd_reconnect opened s =
     (if bd_current_reconnect_attempts s \<ge> bd_max_reconnect_attempts s
      then (False, s\<lparr> bd_should_reconnect := False \<rparr>)
      else let s = s\<lparr> bd_current_reconnect_attempts := bd_current_reconnect_attempts s + 1 \<rparr>
           in (opened = 0, s))"

text \<open>The end of a waiting thread.\<close>

definition bd_timer :: "int \<Rightarrow> BinanceData \<Rightarrow> BinanceData" where
  "bd_timer opened s =
     (let s = s\<lparr> bd_timers := bd_timers s - 1 \<rparr>
      in if bd_should_reconnect s then snd (bd_reconnect opened s) else s)"

section \<open>Subscriptions\<close>

text \<open>The loop over the instruments: each symbol once, in lower case, with its streams.\<close>

fun subscribe_loop :: "BinanceData \<Rightarrow> InstrumentKey list \<Rightarrow> string list \<Rightarrow> string list \<Rightarrow> string list \<times> string list" where
  "subscribe_loop s [] symbols streams = (symbols, streams)"
| "subscribe_loop s (k # ks) symbols streams =
     (let symbol = key_symbol k
      in if symbol \<in> set symbols then subscribe_loop s ks symbols streams
         else subscribe_loop s ks (symbols @ [symbol]) (streams @ symbol_streams s symbol))"

definition stream_message :: "string \<Rightarrow> string list \<Rightarrow> u64 \<Rightarrow> json" where
  "stream_message meth streams n =
     J_obj [(''id'', J_int (uint n)), (''method'', J_str meth), (''params'', J_arr (List.map J_str streams))]"

text \<open>\<open>written\<close> is the result of the write. The answer, the messages sent and the service.\<close>

definition bd_subscribe :: "int \<Rightarrow> InstrumentKey list \<Rightarrow> BinanceData \<Rightarrow> bool \<times> json list \<times> BinanceData" where
  "bd_subscribe written instrument_keys s =
     (if instrument_keys = [] \<or> \<not> bd_is_connected s then (False, [], s)
      else let (symbols, streams) = subscribe_loop s instrument_keys [] []
           in if streams = [] then (False, [], s)
              else let (n, s) = generate_subscription_id s
                   in if written < 0 then (False, [], s)
                      else let s = update_streams_uri symbols s
                           in (True, [stream_message ''SUBSCRIBE'' streams n],
                               s\<lparr> bd_subscribed := bd_subscribed s @ instrument_keys \<rparr>))"

text \<open>The first subscribed instrument with the same id is removed.\<close>

fun remove_subscribed :: "string \<Rightarrow> InstrumentKey list \<Rightarrow> InstrumentKey list" where
  "remove_subscribed key_id [] = []"
| "remove_subscribed key_id (k # ks) =
     (if arr_str (ik_instrument_id k) = key_id then ks else k # remove_subscribed key_id ks)"

definition remove_all_keys :: "InstrumentKey list \<Rightarrow> InstrumentKey list \<Rightarrow> InstrumentKey list" where
  "remove_all_keys keys subscribed = fold (\<lambda>k. remove_subscribed (arr_str (ik_instrument_id k))) keys subscribed"

definition bd_unsubscribe :: "int \<Rightarrow> InstrumentKey list \<Rightarrow> BinanceData \<Rightarrow> bool \<times> json list \<times> BinanceData" where
  "bd_unsubscribe written instrument_keys s =
     (if instrument_keys = [] \<or> \<not> bd_is_connected s then (False, [], s)
      else let streams = concat (List.map (\<lambda>k. symbol_streams s (key_symbol k)) instrument_keys)
           in if streams = [] then (False, [], s)
              else let (n, s) = generate_subscription_id s
                   in if written < 0 then (False, [], s)
                      else let s = s\<lparr> bd_subscribed := remove_all_keys instrument_keys (bd_subscribed s) \<rparr>;
                               s = (if bd_subscribed s \<noteq> [] then update_streams_uri_from_subscribed s
                                    else set_default_streams s)
                           in (True, [stream_message ''UNSUBSCRIBE'' streams n], s))"

definition clear_subscriptions :: "BinanceData \<Rightarrow> json list \<times> BinanceData" where
  "clear_subscriptions s =
     (if bd_subscribed s = [] then ([], s)
      else let streams = concat (List.map (symbol_streams s) (get_subscribed_symbols s));
               (out, s) = (if streams = [] then ([], s)
                           else let (n, s) = generate_subscription_id s
                                in ([stream_message ''UNSUBSCRIBE'' streams n], s))
           in (out, set_default_streams (s\<lparr> bd_subscribed := [] \<rparr>)))"

section \<open>Messages from the exchange\<close>

definition safe_string_to_double :: "string \<Rightarrow> double" where
  "safe_string_to_double s = (if s = [] then 0 else case stod s of None \<Rightarrow> 0 | Some d \<Rightarrow> d)"

definition j_price :: "json \<Rightarrow> double outcome" where
  "j_price v = then_do (j_string v) (\<lambda>s. Value (safe_string_to_double s))"

text \<open>\<open>array = text.c_str()\<close> on a new array.\<close>

definition name_array :: "nat \<Rightarrow> string \<Rightarrow> carr outcome" where
  "name_array n s = (case arr_assign_cstr (arr_zero n) (arr_str s) of None \<Rightarrow> Undefined | Some a \<Rightarrow> Value a)"

definition bar_of_kline :: "json \<Rightarrow> json \<Rightarrow> Bar outcome" where
  "bar_of_kline payload kline =
     then_do (then_do (then_do (j_at payload ''s'') j_string) (name_array INSTRUMENT_ID_LEN)) (\<lambda>instrument.
     then_do (name_array EXCHANGE_ID_LEN ''binance'') (\<lambda>exchange.
     then_do (then_do (j_at kline ''t'') j_int64) (\<lambda>t0.
     then_do (then_do (j_at kline ''T'') j_int64) (\<lambda>t1.
     then_do (then_do (j_at kline ''o'') j_price) (\<lambda>o'.
     then_do (then_do (j_at kline ''c'') j_price) (\<lambda>c.
     then_do (then_do (j_at kline ''h'') j_price) (\<lambda>h.
     then_do (then_do (j_at kline ''l'') j_price) (\<lambda>l.
     then_do (then_do (j_at kline ''v'') j_price) (\<lambda>v.
       Value (Bar_zero
         \<lparr> bar_instrument_id := instrument, bar_exchange_id := exchange, bar_start_time := t0, bar_end_time := t1,
           bar_open := o', bar_close := c, bar_high := h, bar_low := l, bar_volume := v \<rparr>))))))))))"

text \<open>
  \<open>process_kline_data\<close>: the events written. An exception is caught; the answer is not used.
\<close>

definition kline_closed :: "json \<Rightarrow> bool outcome" where
  "kline_closed kline = (if \<not> j_contains kline ''x'' then Value False else then_do (j_at kline ''x'') j_bool)"

definition process_kline_data :: "json \<Rightarrow> BinanceData \<Rightarrow> Event list outcome" where
  "process_kline_data j s =
     (let r = (if \<not> j_contains j ''data'' then Value []
               else then_do (j_at j ''data'') (\<lambda>payload.
                      if \<not> j_contains payload ''k'' then Value []
                      else then_do (j_at payload ''k'') (\<lambda>kline.
                             then_do (kline_closed kline) (\<lambda>closed.
                               if \<not> closed then Value []
                               else then_do (bar_of_kline payload kline) (\<lambda>bar.
                                      Value (if bd_has_writer s then [Ev_Bar bar] else []))))))
      in if r = Raised then Value [] else r)"

text \<open>One side of the book: the levels written so far, their number, prices and volumes.\<close>

definition level_of :: "json \<Rightarrow> (double \<times> double) option outcome" where
  "level_of item =
     (case item of
        J_arr (p # v # _) \<Rightarrow> then_do (j_price p) (\<lambda>p. then_do (j_price v) (\<lambda>v. Value (Some (p, v))))
      | _ \<Rightarrow> Value None)"

fun fill_side :: "json list \<Rightarrow> nat \<Rightarrow> double list \<Rightarrow> double list \<Rightarrow> (nat \<times> double list \<times> double list) outcome" where
  "fill_side [] i prices volumes = Value (i, prices, volumes)"
| "fill_side (item # items) i prices volumes =
     (if i \<ge> length prices then Value (i, prices, volumes)
      else then_do (level_of item) (\<lambda>l.
             case l of
               None \<Rightarrow> fill_side items i prices volumes
             | Some (p, v) \<Rightarrow> fill_side items (Suc i) (prices[i := p]) (volumes[i := v])))"

definition Quote_zero :: Quote where
  "Quote_zero =
     \<lparr> qt_trading_day = arr_zero DATE_LEN, qt_data_time = 0, qt_instrument_id = arr_zero INSTRUMENT_ID_LEN,
       qt_exchange_id = arr_zero EXCHANGE_ID_LEN, qt_instrument_type = IT_Unknown,
       qt_pre_close_price = 0, qt_pre_settlement_price = 0, qt_last_price = 0, qt_volume = 0, qt_turnover = 0,
       qt_pre_open_interest = 0, qt_open_interest = 0, qt_open_price = 0, qt_high_price = 0, qt_low_price = 0,
       qt_upper_limit_price = 0, qt_lower_limit_price = 0, qt_close_price = 0, qt_settlement_price = 0, qt_iopv = 0,
       qt_bid_price = replicate 20 0, qt_ask_price = replicate 20 0, qt_bid_volume = replicate 20 0,
       qt_ask_volume = replicate 20 0, qt_real_depth_size = 20, qt_trading_phase_code = arr_zero 8 \<rparr>"

definition quote_of_depth :: "json \<Rightarrow> json \<Rightarrow> Quote outcome" where
  "quote_of_depth j payload =
     then_do (then_do (j_at j ''stream'') j_string) (\<lambda>stream.
     then_do (name_array INSTRUMENT_ID_LEN (takeWhile (\<lambda>c. c \<noteq> CHR ''@'') stream)) (\<lambda>instrument.
     then_do (name_array EXCHANGE_ID_LEN ''binance'') (\<lambda>exchange.
     then_do (j_at payload ''bids'') (\<lambda>bids.
     then_do (fill_side (j_items bids) 0 (qt_bid_price Quote_zero) (qt_bid_volume Quote_zero)) (\<lambda>(nb, bp, bv).
     then_do (j_at payload ''asks'') (\<lambda>asks.
     then_do (fill_side (j_items asks) 0 (qt_ask_price Quote_zero) (qt_ask_volume Quote_zero)) (\<lambda>(na, ap, av).
       Value (Quote_zero
         \<lparr> qt_instrument_id := instrument, qt_exchange_id := exchange,
           qt_bid_price := bp, qt_bid_volume := bv, qt_real_depth_size := of_nat nb,
           qt_ask_price := ap, qt_ask_volume := av \<rparr>))))))))"

definition process_depth_data :: "json \<Rightarrow> BinanceData \<Rightarrow> Event list outcome" where
  "process_depth_data j s =
     (let r = (if \<not> j_contains j ''data'' then Value []
               else then_do (j_at j ''data'') (\<lambda>payload.
                      if \<not> j_contains payload ''bids'' \<or> \<not> j_contains payload ''asks'' then Value []
                      else then_do (quote_of_depth j payload) (\<lambda>q.
                             Value (if bd_has_writer s then [Ev_Quote q] else []))))
      in if r = Raised then Value [] else r)"

definition find_text :: "string \<Rightarrow> string \<Rightarrow> bool" where
  "find_text s pat \<longleftrightarrow> (\<exists>i \<in> set [0..<Suc (length s)]. take (length pat) (drop i s) = pat)"

definition get_mdtype :: "json \<Rightarrow> MDType" where
  "get_mdtype j =
     (if \<not> j_contains j ''stream'' then MD_Unknown
      else case then_do (j_at j ''stream'') j_string of
             Value stream \<Rightarrow> if find_text stream ''kline'' then MD_Kline
                             else if find_text stream ''depth'' then MD_Depth else MD_Unknown
           | _ \<Rightarrow> MD_Unknown)"

definition validate_json_data :: "json \<Rightarrow> bool" where
  "validate_json_data j \<longleftrightarrow> j_contains j ''stream'' \<and> j_contains j ''data''"

definition bd_on_msg :: "(string \<Rightarrow> json option) \<Rightarrow> string \<Rightarrow> BinanceData \<Rightarrow> Event list outcome" where
  "bd_on_msg parse msg s =
     (if msg = [] then Value []
      else case parse msg of
             None \<Rightarrow> Value []
           | Some j \<Rightarrow>
               if \<not> validate_json_data j then Value []
               else case get_mdtype j of
                      MD_Kline \<Rightarrow> if bd_enable_kline s then process_kline_data j s else Value []
                    | MD_Depth \<Rightarrow> if bd_enable_depth s then process_depth_data j s else Value []
                    | _ \<Rightarrow> Value [])"

section \<open>The levels of a quote\<close>

text \<open>The levels the items of one side stand for; an item that is no pair is passed over.\<close>

definition levels_of :: "json list \<Rightarrow> (double \<times> double) list" where
  "levels_of items = concat (List.map (\<lambda>item. case level_of item of Value (Some l) \<Rightarrow> [l] | _ \<Rightarrow> []) items)"

lemma levels_of_Cons: "levels_of (item # items) = (case level_of item of Value (Some l) \<Rightarrow> [l] | _ \<Rightarrow> []) @ levels_of items"
  by (simp add: levels_of_def)

text \<open>\<open>xs\<close> with the values \<open>ys\<close> written from index \<open>i\<close> on, as many as fit.\<close>

definition written_from :: "nat \<Rightarrow> 'a list \<Rightarrow> 'a list \<Rightarrow> 'a list" where
  "written_from i ys xs = take (length xs) (take i xs @ ys @ drop (i + length ys) xs)"

lemma written_from_Nil [simp]: "written_from i [] xs = xs"
  by (simp add: written_from_def)

lemma written_from_full: "length xs \<le> i \<Longrightarrow> written_from i ys xs = xs"
  by (simp add: written_from_def)

lemma length_written_from: "i \<le> length xs \<Longrightarrow> length (written_from i ys xs) = length xs"
  by (simp add: written_from_def)

lemma written_from_Cons:
  assumes "i < length xs"
  shows "written_from i (y # ys) xs = written_from (Suc i) ys (xs[i := y])"
proof -
  have "take i xs @ y # ys @ drop (i + Suc (length ys)) xs =
      take (Suc i) (xs[i := y]) @ ys @ drop (Suc i + length ys) (xs[i := y])"
    using assms take_Suc_conv_app_nth [of i "xs[i := y]"] by (simp del: take_update_swap)
  then show ?thesis by (simp only: written_from_def length_list_update list.size add_0_right add_Suc_right
      One_nat_def append_Cons append_Nil)
qed

lemma fill_side_levels:
  assumes "\<forall>item \<in> set items. level_of item \<noteq> Raised \<and> level_of item \<noteq> Undefined"
    "length prices = length volumes" "i \<le> length prices"
  shows "fill_side items i prices volumes =
     Value (min (length prices) (i + length (levels_of items)),
            written_from i (List.map fst (levels_of items)) prices,
            written_from i (List.map snd (levels_of items)) volumes)"
  using assms
proof (induction items arbitrary: i prices volumes)
  case Nil
  then show ?case by (simp add: levels_of_def)
next
  case (Cons item items)
  show ?case
  proof (cases "length prices \<le> i")
    case True
    then show ?thesis using Cons.prems by (simp add: written_from_full min_def)
  next
    case False
    obtain l where l: "level_of item = Value l" using Cons.prems(1) by (cases "level_of item") auto
    show ?thesis
    proof (cases l)
      case None
      then show ?thesis using Cons l False by (simp add: levels_of_Cons)
    next
      case (Some pv)
      with Cons.IH [of "prices[i := fst pv]" "volumes[i := snd pv]" "Suc i"] Cons.prems l False show ?thesis
        by (cases pv) (simp add: levels_of_Cons written_from_Cons)
    qed
  qed
qed

lemma level_of_total:
  "level_of item \<noteq> Undefined" and "level_of (J_arr [J_str p, J_str v]) = Value (Some (safe_string_to_double p, safe_string_to_double v))"
proof -
  have j: "j_price v \<noteq> Undefined" for v by (cases v) (simp_all add: j_price_def)
  show "level_of item \<noteq> Undefined"
    by (simp add: level_of_def then_do_Undefined_iff j split: json.splits list.splits)
qed (simp add: level_of_def j_price_def)

lemma name_array_fits:
  "\<lbrakk> NUL \<notin> set s; length s \<le> n \<rbrakk> \<Longrightarrow> \<exists>a. name_array n s = Value a \<and> arr_str a = s"
  by (simp add: name_array_def arr_assign_cstr_def arr_str_id arr_str_append arr_zero_def drop_replicate)
    (metis arr_str_zero arr_zero_def append_Nil2)

lemma written_from_0: "written_from 0 ys (replicate n x) = take n (ys @ replicate n x)"
proof -
  have "take n (replicate (n - length ys) x) = replicate (n - length ys) x" by simp
  then show ?thesis by (simp add: written_from_def)
qed

text \<open>C37: The quote made of a depth message, for a stream named by a symbol of at most 32 characters and
  sides whose levels are given as texts: it is filed under the stream's symbol, each side holds the
  levels of the message in order, up to twenty, and zeros behind them, and the depth it reports is the
  number of bids, whatever the number of asks. Items that are no pairs are passed over, and a text that
  is no number counts as zero.\<close>

theorem binance_quote_spec:
  assumes "j_at j ''stream'' = Value (J_str (symbol @ ''@'' @ rest))" "j_at j ''data'' = Value payload"
    "j_at payload ''bids'' = Value (J_arr bids)" "j_at payload ''asks'' = Value (J_arr asks)"
    "\<forall>item \<in> set bids \<union> set asks. level_of item \<noteq> Raised"
    "CHR ''@'' \<notin> set symbol" "NUL \<notin> set symbol" "length symbol \<le> 32" "bd_has_writer s"
  shows "\<exists>q. process_depth_data j s = Value [Ev_Quote q] \<and> arr_str (qt_instrument_id q) = symbol \<and>
      arr_str (qt_exchange_id q) = ''binance'' \<and>
      qt_bid_price q = take 20 (List.map fst (levels_of bids) @ replicate 20 0) \<and>
      qt_bid_volume q = take 20 (List.map snd (levels_of bids) @ replicate 20 0) \<and>
      qt_ask_price q = take 20 (List.map fst (levels_of asks) @ replicate 20 0) \<and>
      qt_ask_volume q = take 20 (List.map snd (levels_of asks) @ replicate 20 0) \<and>
      qt_real_depth_size q = of_nat (min 20 (length (levels_of bids)))"
proof -
  obtain ia where ia: "name_array INSTRUMENT_ID_LEN symbol = Value ia" "arr_str ia = symbol"
    using name_array_fits [of symbol INSTRUMENT_ID_LEN] assms(7,8) by (auto simp: INSTRUMENT_ID_LEN_def)
  obtain ea where ea: "name_array EXCHANGE_ID_LEN ''binance'' = Value ea" "arr_str ea = ''binance''"
    using name_array_fits [of "''binance''" EXCHANGE_ID_LEN] by (auto simp: EXCHANGE_ID_LEN_def)
  have symbol: "takeWhile (\<lambda>c. c \<noteq> CHR ''@'') (symbol @ CHR ''@'' # rest) = symbol"
    using assms(6) by (induction symbol) auto
  have side: "fill_side items 0 (replicate 20 0) (replicate 20 0) =
      Value (min 20 (length (levels_of items)), take 20 (List.map fst (levels_of items) @ replicate 20 0),
             take 20 (List.map snd (levels_of items) @ replicate 20 0))"
    if "\<forall>item \<in> set items. level_of item \<noteq> Raised" for items
    using fill_side_levels [of items "replicate 20 0" "replicate 20 0" 0] that level_of_total(1)
    by (simp add: written_from_0)
  from assms(1-5) j_at_contains [OF assms(1)] j_at_contains [OF assms(2)] j_at_contains [OF assms(3)]
    j_at_contains [OF assms(4)] side [of bids] side [of asks] ia ea symbol assms(9)
  show ?thesis by (simp add: process_depth_data_def quote_of_depth_def Quote_zero_def ball_Un)
qed

definition sample_depth_update :: json where
  "sample_depth_update = J_obj [(''stream'', J_str ''btcusdt@depth20''),
     (''data'', J_obj [(''bids'', J_arr [J_arr [J_str ''101.5'', J_str ''2''], J_null, J_arr [J_str ''101'', J_str ''x'']]),
                       (''asks'', J_arr [])])]"

lemma binance_quote_spec_witness:
  "\<exists>q. process_depth_data sample_depth_update (bd_set_customer BinanceData_new) = Value [Ev_Quote q] \<and>
     arr_str (qt_instrument_id q) = ''btcusdt'' \<and> qt_real_depth_size q = 2 \<and> qt_ask_price q = replicate 20 0"
proof -
  let ?bids = "[J_arr [J_str ''101.5'', J_str ''2''], J_null, J_arr [J_str ''101'', J_str ''x'']]"
  have "length (levels_of ?bids) = 2" by (simp add: levels_of_def level_of_def j_price_def)
  then show ?thesis
    using binance_quote_spec [of sample_depth_update "''btcusdt''" "''depth20''" "J_obj [(''bids'', J_arr ?bids), (''asks'', J_arr [])]"
        ?bids "[]" "bd_set_customer BinanceData_new"]
    by (simp add: sample_depth_update_def level_of_def j_price_def bd_set_customer_def levels_of_def [of "[]"]) blast
qed

text \<open>The same instrument has two names: a bar carries the exchange's, a quote the stream's.\<close>

lemma tolower_keeps: "tolower c = d \<Longrightarrow> of_char d < (65::nat) \<Longrightarrow> c = d"
proof (rule ccontr)
  assume t: "tolower c = d" and d: "of_char d < (65::nat)" and n: "c \<noteq> d"
  then have c: "65 \<le> (of_char c :: nat)" "(of_char c :: nat) \<le> 90" "d = char_of ((of_char c :: nat) + 32)"
    by (auto simp: tolower_def Let_def split: if_splits)
  then have "(of_char d :: nat) = of_char c + 32" by (simp add: of_char_of take_bit_eq_mod)
  with c d show False by simp
qed

lemma to_lower_free: "\<lbrakk> d \<notin> set s; of_char d < (65::nat) \<rbrakk> \<Longrightarrow> d \<notin> set (to_lower s)"
  unfolding to_lower_def using tolower_keeps by fastforce

lemma name_array_str: "\<lbrakk> name_array n s = Value a; NUL \<notin> set s \<rbrakk> \<Longrightarrow> arr_str a = s"
  using name_array_fits [of s n]
  by (auto simp: name_array_def arr_assign_cstr_def arr_str_id split: if_splits)

text \<open>A bar is only made of a candle the exchange marks as closed, and it is filed under the
  exchange's name of the instrument, whereas the quote of the same instrument is filed under the name in
  lower case, in which its stream was subscribed; so unless the exchange's name is in lower case, bars and
  quotes of one instrument have different ids.\<close>

theorem binance_bar_and_quote_names:
  assumes "process_kline_data jk s = Value [Ev_Bar bar]" "j_at jk ''data'' = Value payload"
    "j_at payload ''s'' = Value (J_str name)"
    "process_depth_data jd s = Value [Ev_Quote q]" "j_at jd ''stream'' = Value (J_str (to_lower name @ ''@'' @ rest))"
    "CHR ''@'' \<notin> set name" "NUL \<notin> set name"
  shows "arr_str (bar_instrument_id bar) = name \<and> arr_str (qt_instrument_id q) = to_lower name \<and>
    (\<exists>kline. j_at payload ''k'' = Value kline \<and> j_at kline ''x'' = Value (J_bool True))"
proof -
  have free: "CHR ''@'' \<notin> set (to_lower name)" "NUL \<notin> set (to_lower name)"
    using to_lower_free [OF assms(6)] to_lower_free [OF assms(7)] by simp_all
  obtain kline where k: "j_at payload ''k'' = Value kline" "kline_closed kline = Value True"
      "bar_of_kline payload kline = Value bar"
    using assms(1,2) by (auto simp: process_kline_data_def Let_def then_do_Value_iff split: if_splits)
  have "arr_str (bar_instrument_id bar) = name"
    using k(3) assms(3,7) by (auto simp: bar_of_kline_def then_do_Value_iff Bar_zero_def dest: name_array_str)
  moreover have "j_at kline ''x'' = Value (J_bool True)"
    using k(2) by (auto simp: kline_closed_def then_do_Value_iff split: if_splits elim!: j_bool.elims)
  moreover obtain payload' where q: "quote_of_depth jd payload' = Value q"
    using assms(4) by (auto simp: process_depth_data_def Let_def then_do_Value_iff split: if_splits)
  moreover have "takeWhile (\<lambda>c. c \<noteq> CHR ''@'') (to_lower name @ CHR ''@'' # rest) = to_lower name"
    using free(1) by (induction "to_lower name") (auto intro!: takeWhile_append_stop simp: list_all_iff)
  ultimately show ?thesis using q assms(5) free(2) k(1)
    by (auto simp: quote_of_depth_def then_do_Value_iff Quote_zero_def split: prod.splits dest: name_array_str)
qed

definition sample_kline :: json where
  "sample_kline = J_obj [(''stream'', J_str ''btcusdt@kline_1s''),
     (''data'', J_obj [(''s'', J_str ''BTCUSDT''), (''k'', J_obj [(''x'', J_bool True), (''t'', J_int 1000), (''T'', J_int 1999),
        (''o'', J_str ''100''), (''c'', J_str ''101''), (''h'', J_str ''102''), (''l'', J_str ''99''), (''v'', J_str ''5'')])])]"

lemma binance_bar_and_quote_names_witness:
  "\<exists>bar q. process_kline_data sample_kline (bd_set_customer BinanceData_new) = Value [Ev_Bar bar] \<and>
     process_depth_data sample_depth_update (bd_set_customer BinanceData_new) = Value [Ev_Quote q] \<and>
     arr_str (bar_instrument_id bar) = ''BTCUSDT'' \<and> arr_str (qt_instrument_id q) = ''btcusdt''"
proof -
  have low: "to_lower ''BTCUSDT'' = ''btcusdt''" by code_simp
  obtain bar where b: "process_kline_data sample_kline (bd_set_customer BinanceData_new) = Value [Ev_Bar bar]"
    by (simp add: process_kline_data_def sample_kline_def kline_closed_def bar_of_kline_def j_price_def
        name_array_def arr_assign_cstr_def arr_str_def arr_zero_def INSTRUMENT_ID_LEN_def EXCHANGE_ID_LEN_def
        bd_set_customer_def)
  obtain q where q: "process_depth_data sample_depth_update (bd_set_customer BinanceData_new) = Value [Ev_Quote q]"
    by (simp add: process_depth_data_def sample_depth_update_def quote_of_depth_def j_price_def level_of_def Quote_zero_def
        name_array_def arr_assign_cstr_def arr_str_def arr_zero_def INSTRUMENT_ID_LEN_def EXCHANGE_ID_LEN_def
        bd_set_customer_def)
  from binance_bar_and_quote_names [OF b _ _ q, of _ "''BTCUSDT''" "''depth20''"]
  have "arr_str (bar_instrument_id bar) = ''BTCUSDT'' \<and> arr_str (qt_instrument_id q) = ''btcusdt''"
    by (simp add: sample_kline_def sample_depth_update_def low)
  with b q show ?thesis by blast
qed

section \<open>Subscribing and unsubscribing\<close>

abbreviation key_id :: "InstrumentKey \<Rightarrow> string" where
  "key_id k \<equiv> arr_str (ik_instrument_id k)"

text \<open>The symbols the loop collects, each once in the order of its first appearance.\<close>

fun first_of_each :: "string list \<Rightarrow> string list \<Rightarrow> string list" where
  "first_of_each seen [] = seen"
| "first_of_each seen (x # xs) = (if x \<in> set seen then first_of_each seen xs else first_of_each (seen @ [x]) xs)"

lemma first_of_each_set: "set (first_of_each seen xs) = set seen \<union> set xs"
  by (induction xs arbitrary: seen) auto

lemma first_of_each_distinct: "distinct seen \<Longrightarrow> distinct (first_of_each seen xs)"
  by (induction xs arbitrary: seen) auto

lemma subscribe_loop_symbols:
  "subscribe_loop s ks seen (concat (List.map (symbol_streams s) seen)) =
     (first_of_each seen (List.map key_symbol ks),
      concat (List.map (symbol_streams s) (first_of_each seen (List.map key_symbol ks))))"
proof (induction ks arbitrary: seen)
  case (Cons k ks)
  then show ?case
    using Cons.IH [of "seen @ [key_symbol k]"] by (simp add: Let_def)
qed simp

lemma remove_subscribed_ids: "List.map key_id (remove_subscribed x ks) = remove1 x (List.map key_id ks)"
  by (induction ks) auto

lemma remove_subscribed_skip: "x \<notin> key_id ` set ks \<Longrightarrow> remove_subscribed x (ks @ ls) = ks @ remove_subscribed x ls"
  by (induction ks) auto

lemma remove_all_keys_mset:
  "mset (List.map key_id (remove_all_keys keys ks)) = mset (List.map key_id ks) - mset (List.map key_id keys)"
proof (induction keys arbitrary: ks)
  case (Cons k keys)
  have "mset (List.map key_id (remove_subscribed (key_id k) ks)) = mset (List.map key_id ks) - {# key_id k #}"
    by (simp only: remove_subscribed_ids mset_remove1)
  with Cons.IH [of "remove_subscribed (key_id k) ks"] show ?case by (simp add: remove_all_keys_def)
qed (simp add: remove_all_keys_def)

lemma remove_all_keys_fresh:
  "key_id ` set keys \<inter> key_id ` set ks = {} \<Longrightarrow> remove_all_keys keys (ks @ keys) = ks"
proof (induction keys)
  case (Cons k keys)
  have "remove_subscribed (key_id k) (ks @ k # keys) = ks @ keys"
    using Cons.prems by (simp add: remove_subscribed_skip image_iff)
  with Cons show ?case by (simp add: remove_all_keys_def disjoint_iff)
qed (simp add: remove_all_keys_def)

lemma symbol_streams_Nil: "symbol_streams s x = [] \<longleftrightarrow> \<not> bd_enable_kline s \<and> \<not> bd_enable_depth s"
  by (simp add: symbol_streams_def)

lemma symbol_streams_keeps [simp]:
  "symbol_streams (s\<lparr> bd_subscription_id_counter := n \<rparr>) = symbol_streams s"
  "symbol_streams (s\<lparr> bd_subscribed := ks \<rparr>) = symbol_streams s"
  "symbol_streams (s\<lparr> bd_uri := u \<rparr>) = symbol_streams s"
  by (simp_all add: symbol_streams_def fun_eq_iff)

lemma update_streams_uri_keeps [simp]:
  "bd_subscribed (update_streams_uri symbols s) = bd_subscribed s"
  "bd_is_connected (update_streams_uri symbols s) = bd_is_connected s"
  "symbol_streams (update_streams_uri symbols s) = symbol_streams s"
  by (simp_all add: update_streams_uri_def Let_def symbol_streams_def fun_eq_iff)

lemma set_default_streams_keeps [simp]:
  "bd_subscribed (set_default_streams s) = bd_subscribed s"
  by (simp add: set_default_streams_def Let_def)

text \<open>What a subscription that succeeds has done.\<close>

lemma bd_subscribe_True:
  assumes "bd_subscribe written keys s = (True, out, s1)"
  shows "bd_subscribed s1 = bd_subscribed s @ keys"
    "out = [stream_message ''SUBSCRIBE'' (concat (List.map (symbol_streams s) (first_of_each [] (List.map key_symbol keys))))
       (bd_subscription_id_counter s + 1)]"
    "bd_uri s1 = streams_uri (concat (List.map (symbol_streams s) (first_of_each [] (List.map key_symbol keys))))"
  using assms subscribe_loop_symbols [of s keys "[]"]
  by (auto simp: bd_subscribe_def generate_subscription_id_def Let_def update_streams_uri_def
      split: if_splits prod.splits)

lemma bd_unsubscribe_True:
  assumes "bd_unsubscribe written keys s = (True, out, s1)"
  shows "bd_subscribed s1 = remove_all_keys keys (bd_subscribed s)"
    "bd_subscribed s1 \<noteq> [] \<Longrightarrow> bd_uri s1 = streams_uri (concat (List.map (symbol_streams s) (get_subscribed_symbols s1)))"
  using assms
  by (auto simp: bd_unsubscribe_def generate_subscription_id_def Let_def update_streams_uri_from_subscribed_def
      update_streams_uri_def get_subscribed_symbols_def symbol_streams_Nil split: if_splits prod.splits)

text \<open>Unsubscribing undoes subscribing. After a subscription and an unsubscription of the same
  instruments have both succeeded, the ids of the subscribed instruments are, with their multiplicities,
  those from before, and the list itself is as before when none of them had been subscribed. In between,
  the URI lists the streams of the newly subscribed symbols only, each symbol once: the symbols subscribed
  earlier are no longer in it, until an unsubscription lists what is left.\<close>

theorem binance_unsubscribe_undoes:
  assumes "bd_subscribe written keys s = (True, out, s1)" "bd_unsubscribe written' keys s1 = (True, out', s2)"
  shows "mset (List.map key_id (bd_subscribed s2)) = mset (List.map key_id (bd_subscribed s)) \<and>
    (key_id ` set keys \<inter> key_id ` set (bd_subscribed s) = {} \<longrightarrow> bd_subscribed s2 = bd_subscribed s) \<and>
    bd_uri s1 = streams_uri (concat (List.map (symbol_streams s) (first_of_each [] (List.map key_symbol keys)))) \<and>
    (bd_subscribed s2 \<noteq> [] \<longrightarrow>
      bd_uri s2 = streams_uri (concat (List.map (symbol_streams s1) (get_subscribed_symbols s2))))"
  using bd_subscribe_True [OF assms(1)] bd_unsubscribe_True [OF assms(2)] remove_all_keys_fresh [of keys "bd_subscribed s"]
    remove_all_keys_mset [of keys "bd_subscribed s @ keys"]
  by simp

definition sample_instrument :: "string \<Rightarrow> InstrumentKey" where
  "sample_instrument name = \<lparr> ik_key = 0, ik_instrument_id = name @ [NUL], ik_exchange_id = [NUL], ik_instrument_type = IT_Crypto \<rparr>"

definition sample_data :: BinanceData where
  "sample_data = bd_start 0 (BinanceData_new\<lparr> bd_subscribed := [sample_instrument ''ETHUSDT''] \<rparr>)"

lemma bd_subscribe_works:
  assumes "keys \<noteq> []" "bd_is_connected s" "bd_enable_kline s"
  shows "\<exists>out s1. bd_subscribe 1 keys s = (True, out, s1) \<and> bd_is_connected s1 \<and> bd_enable_kline s1"
    "\<exists>out s1. bd_unsubscribe 1 keys s = (True, out, s1)"
  using assms subscribe_loop_symbols [of s keys "[]"] first_of_each_set [of "[]" "List.map key_symbol keys"]
  by (auto simp: bd_subscribe_def bd_unsubscribe_def generate_subscription_id_def Let_def symbol_streams_def
      update_streams_uri_def neq_Nil_conv split: prod.splits)

lemma binance_unsubscribe_undoes_witness:
  "\<exists>out s1 out' s2. bd_subscribe 1 [sample_instrument ''BTCUSDT''] sample_data = (True, out, s1) \<and>
     bd_unsubscribe 1 [sample_instrument ''BTCUSDT''] s1 = (True, out', s2) \<and>
     bd_subscribed s2 = [sample_instrument ''ETHUSDT'']"
proof -
  have s: "bd_is_connected sample_data" "bd_enable_kline sample_data"
    "bd_subscribed sample_data = [sample_instrument ''ETHUSDT'']"
    by (simp_all add: sample_data_def bd_start_def BinanceData_new_def)
  obtain out s1 where r: "bd_subscribe 1 [sample_instrument ''BTCUSDT''] sample_data = (True, out, s1)"
    and s1: "bd_is_connected s1" "bd_enable_kline s1"
    using bd_subscribe_works(1) [OF _ s(1,2), of "[sample_instrument ''BTCUSDT'']"] by auto
  obtain out' s2 where r': "bd_unsubscribe 1 [sample_instrument ''BTCUSDT''] s1 = (True, out', s2)"
    using bd_subscribe_works(2) [OF _ s1, of "[sample_instrument ''BTCUSDT'']"] by auto
  show ?thesis using binance_unsubscribe_undoes [OF r r'] r r' s(3)
    by (simp add: sample_instrument_def arr_str_def)
qed

section \<open>Losing the connection\<close>

text \<open>
  The steps of the connection: a start, whose opening may fail, the callbacks of the web socket, a
  waiting thread that wakes up, a stop, and requests. The label says that a start has failed.
\<close>

inductive bd_step :: "BinanceData \<Rightarrow> bool \<Rightarrow> BinanceData \<Rightarrow> bool" where
  start: "bd_step s (opened \<noteq> 0) (bd_start opened s)"
| connect: "bd_step s False (bd_on_connect s)"
| disconnect: "bd_step s False (bd_on_disconnect s)"
| timer: "0 < bd_timers s \<Longrightarrow> bd_step s False (bd_timer opened s)"
| stop: "bd_step s False (bd_stop s)"
| subscribe: "bd_subscribe written keys s = (ok, out, s') \<Longrightarrow> bd_step s False s'"
| unsubscribe: "bd_unsubscribe written keys s = (ok, out, s') \<Longrightarrow> bd_step s False s'"

inductive bd_run :: "BinanceData \<Rightarrow> bool \<Rightarrow> BinanceData \<Rightarrow> bool" where
  refl: "bd_run s False s"
| step: "\<lbrakk> bd_run s failed s'; bd_step s' failed' s'' \<rbrakk> \<Longrightarrow> bd_run s (failed \<or> failed') s''"

lemmas bd_connection_defs = bd_start_def bd_on_connect_def bd_on_disconnect_def bd_stop_def bd_timer_def
  bd_reconnect_def Let_def

lemma uri_updates_keep [simp]:
  "bd_should_reconnect (update_streams_uri symbols s) = bd_should_reconnect s"
  "bd_timers (update_streams_uri symbols s) = bd_timers s"
  "bd_current_reconnect_attempts (update_streams_uri symbols s) = bd_current_reconnect_attempts s"
  "bd_max_reconnect_attempts (update_streams_uri symbols s) = bd_max_reconnect_attempts s"
  "bd_should_reconnect (set_default_streams s) = bd_should_reconnect s"
  "bd_timers (set_default_streams s) = bd_timers s"
  "bd_handlers (set_default_streams s) = bd_handlers s"
  "bd_current_reconnect_attempts (set_default_streams s) = bd_current_reconnect_attempts s"
  "bd_max_reconnect_attempts (set_default_streams s) = bd_max_reconnect_attempts s"
  by (simp_all add: update_streams_uri_def set_default_streams_def Let_def)

lemma subscriptions_keep:
  assumes "bd_subscribe written keys s = (ok, out, s') \<or> bd_unsubscribe written keys s = (ok, out, s')"
  shows "bd_should_reconnect s' = bd_should_reconnect s \<and> bd_timers s' = bd_timers s \<and>
    bd_current_reconnect_attempts s' = bd_current_reconnect_attempts s \<and>
    bd_max_reconnect_attempts s' = bd_max_reconnect_attempts s"
  using assms
  by (auto simp: bd_subscribe_def bd_unsubscribe_def generate_subscription_id_def Let_def
      update_streams_uri_from_subscribed_def split: if_splits prod.splits)

lemma bd_step_quiet:
  "\<lbrakk> bd_step s failed s'; \<not> failed; \<not> bd_should_reconnect s; bd_timers s = 0 \<rbrakk> \<Longrightarrow>
     \<not> bd_should_reconnect s' \<and> bd_timers s' = 0"
  by (induction rule: bd_step.induct) (auto simp: bd_connection_defs dest: subscriptions_keep [OF disjI1] subscriptions_keep [OF disjI2])

lemma bd_step_attempts:
  "\<lbrakk> bd_step s failed s'; bd_current_reconnect_attempts s \<le> bd_max_reconnect_attempts s; 0 \<le> bd_max_reconnect_attempts s \<rbrakk> \<Longrightarrow>
     bd_current_reconnect_attempts s' \<le> bd_max_reconnect_attempts s' \<and>
     bd_max_reconnect_attempts s' = bd_max_reconnect_attempts s"
  by (induction rule: bd_step.induct) (auto simp: bd_connection_defs dest: subscriptions_keep [OF disjI1] subscriptions_keep [OF disjI2])

text \<open>A lost connection is never re-established. From a service that is not waiting to reconnect,
  in particular one that has just been connected, no run without a failing start schedules a
  reconnection, however often the connection is lost: the flag the callback of the loss tests is only
  set by a start that fails, and the next successful connection clears it. In every run the attempts
  counted stay within the configured maximum.\<close>

theorem binance_never_reconnects:
  assumes "bd_run s failed s'" "\<not> bd_should_reconnect s" "bd_timers s = 0"
    "bd_current_reconnect_attempts s \<le> bd_max_reconnect_attempts s" "0 \<le> bd_max_reconnect_attempts s"
  shows "(\<not> failed \<longrightarrow> bd_timers s' = 0 \<and> \<not> bd_should_reconnect s') \<and>
    bd_current_reconnect_attempts s' \<le> bd_max_reconnect_attempts s"
proof -
  have "(\<not> failed \<longrightarrow> bd_timers s' = 0 \<and> \<not> bd_should_reconnect s') \<and>
      bd_current_reconnect_attempts s' \<le> bd_max_reconnect_attempts s \<and>
      bd_max_reconnect_attempts s' = bd_max_reconnect_attempts s"
    using assms
  proof (induction rule: bd_run.induct)
    case (step s failed s' failed' s'')
    then show ?case using bd_step_quiet [OF step.hyps(2)] bd_step_attempts [OF step.hyps(2)] by auto
  qed simp
  then show ?thesis by blast
qed

lemma binance_never_reconnects_witness:
  "bd_timers (bd_on_disconnect (bd_start 0 BinanceData_new)) = 0"
proof -
  have "bd_run BinanceData_new (False \<or> (0::int) \<noteq> 0) (bd_start 0 BinanceData_new)"
    by (rule bd_run.step [OF bd_run.refl bd_step.start])
  from bd_run.step [OF this bd_step.disconnect]
  have "bd_run BinanceData_new False (bd_on_disconnect (bd_start 0 BinanceData_new))" by simp
  from binance_never_reconnects [OF this] show ?thesis by (simp add: BinanceData_new_def)
qed

section \<open>What the configuration does\<close>

lemma bd_read_uri:
  assumes "\<And>v s. bd_uri (upd v s) = bd_uri s" "bd_uri (snd r) = u \<or> \<not> fst r"
  shows "bd_uri (snd (bd_read extra k conv upd r)) = u \<or> \<not> fst (bd_read extra k conv upd r)"
  using assms by (auto simp: bd_read_def split: prod.splits outcome.splits)

lemma bd_read_handlers:
  "(\<And>v s. bd_handlers (upd v s) = bd_handlers s) \<Longrightarrow> bd_handlers (snd (bd_read extra k conv upd r)) = bd_handlers (snd r)"
  by (auto simp: bd_read_def split: prod.splits outcome.splits)

text \<open>The configured symbol, switches, interval and depth do not reach the URI. A set-up whose
  \<open>extra\<close> entry names no \<open>stream_uri\<close> and in which every entry has its type, so that the handlers are
  installed, leaves the URI of the default streams of \<open>btcusdt\<close>, because the URI is made before those
  entries are read.\<close>

theorem binance_setup_ignores_symbol:
  assumes "map_of entries ''extra'' = Some extra" "\<not> j_contains extra ''stream_uri''"
    "bd_handlers (bd_setup (J_obj entries) BinanceData_new)"
  shows "bd_uri (bd_setup (J_obj entries) BinanceData_new) =
    ''wss://stream.binance.com:443/stream?streams=btcusdt@kline_1s/btcusdt@depth20''"
proof -
  define u where "u = bd_uri (set_default_streams BinanceData_new)"
  have u: "u = ''wss://stream.binance.com:443/stream?streams=btcusdt@kline_1s/btcusdt@depth20''"
    unfolding u_def by code_simp
  have "bd_uri (snd (bd_read_extra extra BinanceData_new)) = u \<or> \<not> fst (bd_read_extra extra BinanceData_new)"
    using assms(2) unfolding bd_read_extra_def Let_def
    by (intro bd_read_uri) (simp_all add: u_def)
  moreover have "\<not> bd_handlers (snd (bd_read_extra extra BinanceData_new))"
    by (simp add: bd_read_extra_def Let_def bd_read_handlers BinanceData_new_def)
  ultimately show ?thesis using assms(1,3) u
    by (auto simp: bd_setup_def split: prod.splits if_splits)
qed

lemma binance_setup_ignores_symbol_witness:
  "bd_uri (bd_setup (J_obj [(''extra'', J_obj [(''symbol'', J_str ''ethusdt'')])]) BinanceData_new) =
    ''wss://stream.binance.com:443/stream?streams=btcusdt@kline_1s/btcusdt@depth20'' \<and>
   bd_default_symbol (bd_setup (J_obj [(''extra'', J_obj [(''symbol'', J_str ''ethusdt'')])]) BinanceData_new) = ''ethusdt''"
proof -
  have r: "bd_setup (J_obj [(''extra'', J_obj [(''symbol'', J_str ''ethusdt'')])]) BinanceData_new =
      (set_default_streams BinanceData_new)\<lparr> bd_default_symbol := ''ethusdt'', bd_handlers := True \<rparr>"
    by (simp add: bd_setup_def bd_read_extra_def bd_read_def Let_def)
  then show ?thesis
    using binance_setup_ignores_symbol [of "[(''extra'', J_obj [(''symbol'', J_str ''ethusdt'')])]"
        "J_obj [(''symbol'', J_str ''ethusdt'')]"] by simp
qed

end
