(* ===== verification/GuiData.thy ===== *)
theory GuiData
  imports FileData "HOL-Library.List_Lexorder" "HOL-Library.Char_ord"
begin

text \<open>
  The data of the chart viewer (src/tradeview): candles, order books and ticks, the database that
  keeps them by instrument (guidb/), and the data manager that fills it, from the bars of the running
  system and from simulated prices (control/datamanager.cpp).

  A \<open>QDateTime\<close> is its milliseconds since the epoch. The clock and the random numbers are arguments.
  \<open>notify_all\<close> is a flag of the result; what the models do on it is in GuiModels. The volumes of the
  viewer are \<open>qint64\<close>, kept as integers; a conversion from \<open>double\<close> truncates.
\<close>

section \<open>Moments\<close>

text \<open>
  GuiTime (guidb/guitime.h): timestamps to moments and back. A product beyond 64 bits is undefined
  behaviour (\<open>None\<close>).
\<close>

definition fromTimestampMs :: "int \<Rightarrow> int" where
  "fromTimestampMs t = t"

declare fromTimestampMs_def [simp]

definition fromTimestampUs :: "int \<Rightarrow> int" where
  "fromTimestampUs t = t sdiv 1000"

definition fromTimestampNs :: "int \<Rightarrow> int" where
  "fromTimestampNs t = t sdiv 1000000"

definition mul_i64 :: "int \<Rightarrow> int \<Rightarrow> int option" where
  "mul_i64 a b = (if - (2 ^ 63) \<le> a * b \<and> a * b < 2 ^ 63 then Some (a * b) else None)"

definition toTimestampUs :: "int \<Rightarrow> int option" where
  "toTimestampUs ms = mul_i64 ms 1000"

definition toTimestampNs :: "int \<Rightarrow> int option" where
  "toTimestampNs ms = mul_i64 ms 1000000"

lemma moment_roundtrip:
  "toTimestampUs ms = Some us \<Longrightarrow> fromTimestampUs us = ms"
  "toTimestampNs ms = Some ns \<Longrightarrow> fromTimestampNs ns = ms"
  by (auto simp: toTimestampUs_def toTimestampNs_def fromTimestampUs_def fromTimestampNs_def mul_i64_def
      signed_divide_int_def sgn_mult abs_mult sgn_mult_abs split: if_splits)

text \<open>Back from a moment, what the division cut off is lost: never more than the unit, towards zero.\<close>

lemma moment_truncates: "\<bar>t\<bar> < 2 ^ 62 \<Longrightarrow> \<exists>t'. toTimestampUs (fromTimestampUs t) = Some t' \<and> \<bar>t'\<bar> \<le> \<bar>t\<bar> \<and> \<bar>t - t'\<bar> < 1000"
  by (cases t rule: linorder_cases [of 0]; simp add: toTimestampUs_def fromTimestampUs_def mul_i64_def signed_divide_int_def; arith?)

section \<open>Candles\<close>

record KLine =
  kl_start_time :: int
  kl_end_time :: int
  kl_open :: double
  kl_high :: double
  kl_low :: double
  kl_close :: double
  kl_volume :: int
  kl_amount :: double

text \<open>C++ integer division truncates: \<open>(ms / 60000) * 60000\<close>.\<close>

definition minute_start :: "int \<Rightarrow> int" where
  "minute_start ms = ms sdiv 60000 * 60000"

text \<open>The constructor from a moment takes the minute the moment is in.\<close>

definition KLine_at :: "int \<Rightarrow> double \<Rightarrow> double \<Rightarrow> double \<Rightarrow> double \<Rightarrow> int \<Rightarrow> double \<Rightarrow> KLine" where
  "KLine_at ts o' h l c vol amt =
     \<lparr> kl_start_time = minute_start ts, kl_end_time = minute_start ts + 60000, kl_open = o', kl_high = h, kl_low = l,
       kl_close = c, kl_volume = vol, kl_amount = amt \<rparr>"

definition kl_contains :: "KLine \<Rightarrow> int \<Rightarrow> bool" where
  "kl_contains k ts \<longleftrightarrow> kl_start_time k \<le> ts \<and> ts < kl_end_time k"

record KLineSet =
  ks_klines :: "KLine list"
  ks_timeframe :: string
  ks_max_price :: double
  ks_min_price :: double
  ks_max_volume :: int

definition KLineSet_new :: KLineSet where
  "KLineSet_new = \<lparr> ks_klines = [], ks_timeframe = ''1m'', ks_max_price = 0, ks_min_price = 0, ks_max_volume = 0 \<rparr>"

definition ks_clear :: "KLineSet \<Rightarrow> KLineSet" where
  "ks_clear s = s\<lparr> ks_klines := [], ks_max_price := 0, ks_min_price := 0, ks_max_volume := 0 \<rparr>"

definition set_timeframe :: "string \<Rightarrow> KLineSet \<Rightarrow> bool \<times> KLineSet" where
  "set_timeframe t s = (if ks_timeframe s \<noteq> t then (True, s\<lparr> ks_timeframe := t \<rparr>) else (False, s))"

definition ks_push_back :: "KLine \<Rightarrow> KLineSet \<Rightarrow> KLineSet" where
  "ks_push_back k s = s\<lparr> ks_klines := ks_klines s @ [k] \<rparr>"

definition ks_pop_front :: "KLineSet \<Rightarrow> KLineSet" where
  "ks_pop_front s = s\<lparr> ks_klines := tl (ks_klines s) \<rparr>"

text \<open>\<open>back()\<close> as a reference that is written through.\<close>

definition ks_set_back :: "KLine \<Rightarrow> KLineSet \<Rightarrow> KLineSet" where
  "ks_set_back k s = s\<lparr> ks_klines := butlast (ks_klines s) @ [k] \<rparr>"

definition max_klines :: nat where "max_klines = 1000"

definition ks_bound :: "KLineSet \<Rightarrow> KLineSet" where
  "ks_bound s = (if max_klines < length (ks_klines s) then ks_pop_front s else s)"

section \<open>Order books\<close>

record OrderBookLevel =
  lv_price :: double
  lv_volume :: int
  lv_orderCount :: int
  lv_side :: string

record OrderBook =
  ob_bids :: "OrderBookLevel list"
  ob_asks :: "OrderBookLevel list"
  ob_bestBid :: double
  ob_bestAsk :: double
  ob_timeframe :: int

text \<open>The largest finite \<open>double\<close>.\<close>

definition DBL_MAX :: double where
  "DBL_MAX = Fin ((2 ^ 53 - 1) * 2 ^ 971)"

definition ob_update :: "OrderBookLevel list \<Rightarrow> OrderBookLevel list \<Rightarrow> int \<Rightarrow> OrderBook" where
  "ob_update bids asks timeframe =
     \<lparr> ob_bids = bids, ob_asks = asks,
       ob_bestBid = foldl (\<lambda>best l. fmax best (lv_price l)) 0 bids,
       ob_bestAsk = foldl (\<lambda>best l. fmin best (lv_price l)) DBL_MAX asks,
       ob_timeframe = timeframe \<rparr>"

type_synonym OrderBookSet = "OrderBook list"

definition obs_add :: "OrderBook \<Rightarrow> OrderBookSet \<Rightarrow> OrderBookSet" where
  "obs_add b bs = bs @ [b]"

definition obs_pop_front :: "OrderBookSet \<Rightarrow> OrderBookSet" where
  "obs_pop_front bs = tl bs"

section \<open>Ticks\<close>

record TickTradeData =
  tt_timestamp :: int
  tt_price :: double
  tt_volume :: int
  tt_direction :: string
  tt_tradeId :: string
  tt_symbol :: string

record TickTradeBook =
  tb_ticks :: "TickTradeData list"
  tb_maxCount :: int
  tb_latestPrice :: double
  tb_totalVolume :: int

definition TickTradeBook_new :: TickTradeBook where
  "TickTradeBook_new = \<lparr> tb_ticks = [], tb_maxCount = 1000, tb_latestPrice = 0, tb_totalVolume = 0 \<rparr>"

definition tb_add :: "TickTradeData \<Rightarrow> TickTradeBook \<Rightarrow> TickTradeBook" where
  "tb_add d b =
     (let ticks = tb_ticks b @ [d];
          ticks = (if tb_maxCount b < int (length ticks) then butlast ticks else ticks)
      in b\<lparr> tb_ticks := ticks, tb_latestPrice := tt_price d, tb_totalVolume := sum_list (List.map tt_volume ticks) \<rparr>)"

section \<open>The database\<close>

record Database =
  db_klinesets :: "(string, KLineSet) omap"
  db_orderbooksets :: "(string, OrderBookSet) omap"
  db_ticktradebooks :: "(string, TickTradeBook) omap"

definition Database_new :: Database where
  "Database_new = \<lparr> db_klinesets = [], db_orderbooksets = [], db_ticktradebooks = [] \<rparr>"

text \<open>A request creates an empty set for a new id. The sets are shared; a write to one is a write to the map.\<close>

definition reqKlineDB :: "string \<Rightarrow> Database \<Rightarrow> KLineSet \<times> Database" where
  "reqKlineDB k db =
     (case omap_find (db_klinesets db) k of
        Some s \<Rightarrow> (s, db)
      | None \<Rightarrow> (KLineSet_new, db\<lparr> db_klinesets := omap_set k KLineSet_new (db_klinesets db) \<rparr>))"

definition reqOrderBookSet :: "string \<Rightarrow> Database \<Rightarrow> OrderBookSet \<times> Database" where
  "reqOrderBookSet k db =
     (case omap_find (db_orderbooksets db) k of
        Some s \<Rightarrow> (s, db)
      | None \<Rightarrow> ([], db\<lparr> db_orderbooksets := omap_set k [] (db_orderbooksets db) \<rparr>))"

definition reqTickTradeBook :: "string \<Rightarrow> Database \<Rightarrow> TickTradeBook \<times> Database" where
  "reqTickTradeBook k db =
     (case omap_find (db_ticktradebooks db) k of
        Some s \<Rightarrow> (s, db)
      | None \<Rightarrow> (TickTradeBook_new, db\<lparr> db_ticktradebooks := omap_set k TickTradeBook_new (db_ticktradebooks db) \<rparr>))"

section \<open>Bars of the running system\<close>

text \<open>A \<open>qint64\<close> added to or made from a \<open>double\<close>.\<close>

definition add_volume :: "int \<Rightarrow> double \<Rightarrow> int" where
  "add_volume n v = i64_of (of_i64 n + v)"

text \<open>
  The set after a bar: the last candle takes the bar in when its minute contains the bar's start;
  otherwise a candle is begun for the minute of the bar's end.
\<close>

definition take_bar :: "Bar \<Rightarrow> KLineSet \<Rightarrow> KLineSet" where
  "take_bar bar s =
     (let start = fromTimestampMs (bar_start_time bar); end_ms = fromTimestampMs (bar_end_time bar);
          s = (if ks_klines s \<noteq> [] \<and> kl_contains (last (ks_klines s)) start
               then let k = last (ks_klines s)
                    in ks_set_back
                         (k\<lparr> kl_close := bar_close bar,
                             kl_high := fmax (kl_high k) (bar_high bar),
                             kl_low := fmax (kl_low k) (bar_low bar),
                             kl_volume := add_volume (kl_volume k) (bar_volume bar) \<rparr>) s
               else ks_push_back
                      (KLine_at end_ms (bar_open bar) (bar_high bar) (bar_low bar) (bar_close bar)
                         (i64_of (bar_volume bar)) 0) s)
      in ks_bound s)"

text \<open>
  \<open>on_incomming_bar\<close>. Unless the engine's time unit is the millisecond, both moments stay invalid
  \<open>QDateTime\<close>s, which is \<open>None\<close>.
\<close>

definition on_incomming_bar :: "TimeUnit \<Rightarrow> Bar \<Rightarrow> Database \<Rightarrow> Database option" where
  "on_incomming_bar unit bar db =
     (let name = arr_str (bar_instrument_id bar); (s, db) = reqKlineDB name db
      in if unit \<noteq> MILLI then None
         else Some (db\<lparr> db_klinesets := omap_set name (take_bar bar s) (db_klinesets db) \<rparr>))"

text \<open>\<open>on_incomming_message\<close> on the events that have arrived: only bars have a handler.\<close>

fun on_incomming_message :: "TimeUnit \<Rightarrow> Event list \<Rightarrow> Database \<Rightarrow> Database option" where
  "on_incomming_message unit [] db = Some db"
| "on_incomming_message unit (Ev_Bar bar # evs) db =
     (case on_incomming_bar unit bar db of None \<Rightarrow> None | Some db \<Rightarrow> on_incomming_message unit evs db)"
| "on_incomming_message unit (_ # evs) db = on_incomming_message unit evs db"

section \<open>The data manager\<close>

record DataManager =
  dm_isConnected :: bool
  dm_dataSource :: string
  dm_subscribedSymbols :: "string list"
  dm_simulationTimer :: bool \<comment> \<open>whether the timer runs\<close>
  dm_connectionTimer :: bool
  dm_lastPrices :: "(string, double) omap"
  dm_lastUpdateTime :: "(string, int) omap"
  dm_lastKlineStartTime :: "(string, int) omap"
  dm_database :: Database

definition DataManager_new :: "Database \<Rightarrow> DataManager" where
  "DataManager_new db =
     \<lparr> dm_isConnected = False, dm_dataSource = [], dm_subscribedSymbols = [], dm_simulationTimer = False,
       dm_connectionTimer = False, dm_lastPrices = [], dm_lastUpdateTime = [], dm_lastKlineStartTime = [],
       dm_database = db \<rparr>"

definition connectDataSource :: "string \<Rightarrow> DataManager \<Rightarrow> bool \<times> DataManager" where
  "connectDataSource source dm = (True, dm\<lparr> dm_dataSource := source, dm_connectionTimer := True \<rparr>)"

text \<open>The status, and whether the change is signalled.\<close>

definition updateConnectionStatus :: "bool \<Rightarrow> DataManager \<Rightarrow> bool \<times> DataManager" where
  "updateConnectionStatus conn dm =
     (if dm_isConnected dm \<noteq> conn then (True, dm\<lparr> dm_isConnected := conn \<rparr>) else (False, dm))"

definition disconnectDataSource :: "DataManager \<Rightarrow> DataManager" where
  "disconnectDataSource dm = (snd (updateConnectionStatus False dm))
     \<lparr> dm_simulationTimer := False, dm_connectionTimer := False \<rparr>"

text \<open>\<open>draw\<close> is the random number below 1000, \<open>now\<close> the present time.\<close>

definition subscribeSymbol :: "double \<Rightarrow> int \<Rightarrow> string \<Rightarrow> DataManager \<Rightarrow> bool \<times> DataManager" where
  "subscribeSymbol draw now symbol dm =
     (if symbol \<in> set (dm_subscribedSymbols dm) then (True, dm)
      else let dm = dm\<lparr> dm_subscribedSymbols := dm_subscribedSymbols dm @ [symbol],
                        dm_lastPrices := omap_set symbol (lit 50000 + draw) (dm_lastPrices dm),
                        dm_lastUpdateTime := omap_set symbol now (dm_lastUpdateTime dm) \<rparr>
           in (True, if dm_isConnected dm \<and> \<not> dm_simulationTimer dm then dm\<lparr> dm_simulationTimer := True \<rparr> else dm))"

definition unsubscribeSymbol :: "string \<Rightarrow> DataManager \<Rightarrow> DataManager" where
  "unsubscribeSymbol symbol dm =
     (let dm = dm\<lparr> dm_subscribedSymbols := remove1 symbol (dm_subscribedSymbols dm),
                   dm_lastPrices := omap_erase symbol (dm_lastPrices dm),
                   dm_lastUpdateTime := omap_erase symbol (dm_lastUpdateTime dm) \<rparr>
      in if dm_subscribedSymbols dm = [] then dm\<lparr> dm_simulationTimer := False \<rparr> else dm)"

text \<open>The single-shot timer of the connection.\<close>

definition onConnectionTimeout :: "DataManager \<Rightarrow> DataManager" where
  "onConnectionTimeout dm =
     (let dm = snd (updateConnectionStatus True (dm\<lparr> dm_connectionTimer := False \<rparr>))
      in if dm_subscribedSymbols dm \<noteq> [] then dm\<lparr> dm_simulationTimer := True \<rparr> else dm)"

text \<open>The default instruments, each with its two random prices and the two readings of the clock.\<close>

fun init_symbols :: "(string \<times> double \<times> double \<times> int \<times> int) list \<Rightarrow> DataManager \<Rightarrow> DataManager" where
  "init_symbols [] dm = dm"
| "init_symbols ((symbol, draw, draw', now, now') # rest) dm =
     (let dm = snd (subscribeSymbol draw now symbol dm)
      in init_symbols rest (dm\<lparr> dm_lastPrices := omap_set symbol (lit 50000 + draw') (dm_lastPrices dm),
                                dm_lastUpdateTime := omap_set symbol now' (dm_lastUpdateTime dm) \<rparr>))"

definition initializeSimulatedData ::
    "bool \<Rightarrow> (string \<times> double \<times> double \<times> int \<times> int) list \<Rightarrow> DataManager \<Rightarrow> DataManager" where
  "initializeSimulatedData simulation defaults dm =
     (if simulation then snd (connectDataSource ''simulation'' (init_symbols defaults dm)) else dm)"

section \<open>Simulated data\<close>

text \<open>The random numbers and clock readings of one update of one symbol.\<close>

record Draws =
  dr_change :: int \<comment> \<open>below 200\<close>
  dr_high :: double \<comment> \<open>below 50\<close>
  dr_low :: double
  dr_kline_volume :: int \<comment> \<open>below 1000\<close>
  dr_kline_now :: int
  dr_tick :: int \<comment> \<open>below 200\<close>
  dr_tick_volume :: int \<comment> \<open>below 100\<close>
  dr_is_buy :: bool
  dr_tick_now :: int
  dr_tick_id_now :: int
  dr_bids :: "(int \<times> int) list" \<comment> \<open>ten pairs, below 1000 and 50\<close>
  dr_asks :: "(int \<times> int) list"
  dr_book_now :: int
  dr_update_now :: int

definition qMin :: "double \<Rightarrow> double \<Rightarrow> double" where
  "qMin a b = (if a < b then a else b)"

text \<open>The base price of a symbol, reset when it is not positive.\<close>

definition base_price :: "string \<Rightarrow> DataManager \<Rightarrow> double" where
  "base_price symbol dm =
     (let p = omap_slot 0 (dm_lastPrices dm) symbol in if p \<le> 0 then lit 50000 else p)"

definition random_step :: "int \<Rightarrow> double" where
  "random_step draw = of_i64 (draw - 100) / lit 100"

definition next_price :: "double \<Rightarrow> int \<Rightarrow> double" where
  "next_price base draw =
     (let p = base * (1 + random_step draw) in if p \<le> 0 then base else p)"

definition kline_start :: "string \<Rightarrow> int \<Rightarrow> KLineSet \<Rightarrow> DataManager \<Rightarrow> int" where
  "kline_start symbol now s dm =
     (case omap_find (dm_lastKlineStartTime dm) symbol of
        Some t \<Rightarrow> t + 60000
      | None \<Rightarrow> if ks_klines s \<noteq> [] then kl_start_time (last (ks_klines s)) + 60000 else minute_start now)"

definition simulated_kline :: "string \<Rightarrow> Draws \<Rightarrow> KLineSet \<Rightarrow> DataManager \<Rightarrow> KLine" where
  "simulated_kline symbol d s dm =
     (let base = base_price symbol dm;
          c = next_price base (dr_change d);
          start = kline_start symbol (dr_kline_now d) s dm;
          o' = (if ks_klines s \<noteq> [] then kl_close (last (ks_klines s)) else base);
          volume = dr_kline_volume d + 100
      in \<lparr> kl_start_time = start, kl_end_time = start + 60000, kl_open = o',
           kl_high = fmax o' c + dr_high d, kl_low = qMin o' c - dr_low d, kl_close = c,
           kl_volume = volume, kl_amount = of_i64 volume * c \<rparr>)"

definition generateSimulatedCandlestickData :: "string \<Rightarrow> Draws \<Rightarrow> DataManager \<Rightarrow> DataManager" where
  "generateSimulatedCandlestickData symbol d dm =
     (let (s, db) = reqKlineDB symbol (dm_database dm);
          k = simulated_kline symbol d s dm
      in dm\<lparr> dm_lastPrices := omap_set symbol (kl_close k) (dm_lastPrices dm),
             dm_database := db\<lparr> db_klinesets := omap_set symbol (ks_bound (ks_push_back k s)) (db_klinesets db) \<rparr>,
             dm_lastKlineStartTime := omap_set symbol (kl_start_time k) (dm_lastKlineStartTime dm) \<rparr>)"

definition generateSimulatedTickTradeData :: "string \<Rightarrow> Draws \<Rightarrow> DataManager \<Rightarrow> DataManager" where
  "generateSimulatedTickTradeData symbol d dm =
     (let p = omap_slot 0 (dm_lastPrices dm) symbol + random_step (dr_tick d);
          price = (if p \<le> 0 then lit 50000 else p);
          (b, db) = reqTickTradeBook symbol (dm_database dm);
          tick = \<lparr> tt_timestamp = dr_tick_now d, tt_price = price, tt_volume = dr_tick_volume d + 1,
                   tt_direction = (if dr_is_buy d then ''buy'' else ''sell''),
                   tt_tradeId = CHR ''T'' # to_string (nat (dr_tick_id_now d)), tt_symbol = symbol \<rparr>
      in dm\<lparr> dm_lastPrices := omap_set symbol price (dm_lastPrices dm),
             dm_database := db\<lparr> db_ticktradebooks := omap_set symbol (tb_add tick b) (db_ticktradebooks db) \<rparr> \<rparr>)"

definition simulated_levels :: "string \<Rightarrow> (double \<Rightarrow> double \<Rightarrow> double) \<Rightarrow> double \<Rightarrow> (int \<times> int) list \<Rightarrow> OrderBookLevel list" where
  "simulated_levels side apart base draws =
     List.map (\<lambda>(i, v, n). \<lparr> lv_price = apart base (of_i64 (int i + 1) * lit 10), lv_volume = v + 100,
                              lv_orderCount = n + 1, lv_side = side \<rparr>)
       (List.enumerate 0 draws)"

definition generateSimulatedOrderBookData :: "string \<Rightarrow> Draws \<Rightarrow> DataManager \<Rightarrow> DataManager" where
  "generateSimulatedOrderBookData symbol d dm =
     (let base = base_price symbol dm;
          book = ob_update (simulated_levels ''bid'' (-) base (dr_bids d)) (simulated_levels ''ask'' (+) base (dr_asks d))
                   (dr_book_now d);
          (bs, db) = reqOrderBookSet symbol (dm_database dm);
          bs = obs_add book bs;
          bs = (if 1000 < length bs then obs_pop_front bs else bs)
      in dm\<lparr> dm_lastPrices := omap_set symbol (omap_slot 0 (dm_lastPrices dm) symbol) (dm_lastPrices dm),
             dm_database := db\<lparr> db_orderbooksets := omap_set symbol bs (db_orderbooksets db) \<rparr> \<rparr>)"

text \<open>\<open>onSimulateDataUpdate\<close>, with the draws of each symbol.\<close>

fun simulate_symbols :: "(string \<times> Draws) list \<Rightarrow> DataManager \<Rightarrow> DataManager" where
  "simulate_symbols [] dm = dm"
| "simulate_symbols ((symbol, d) # rest) dm =
     (let dm = generateSimulatedOrderBookData symbol d
                 (generateSimulatedTickTradeData symbol d (generateSimulatedCandlestickData symbol d dm))
      in simulate_symbols rest (dm\<lparr> dm_lastUpdateTime := omap_set symbol (dr_update_now d) (dm_lastUpdateTime dm) \<rparr>))"

definition onSimulateDataUpdate :: "(string \<Rightarrow> Draws) \<Rightarrow> DataManager \<Rightarrow> DataManager" where
  "onSimulateDataUpdate draws dm =
     simulate_symbols (List.map (\<lambda>symbol. (symbol, draws symbol)) (dm_subscribedSymbols dm)) dm"

section \<open>The tick book stops at its bound\<close>

lemma tb_add_keeps [simp]: "tb_maxCount (tb_add d b) = tb_maxCount b" "tb_latestPrice (tb_add d b) = tt_price d"
  by (simp_all add: tb_add_def Let_def)

lemma tb_add_ticks:
  "int (length (tb_ticks b)) \<le> tb_maxCount b \<Longrightarrow> tb_ticks (tb_add d b) = take (nat (tb_maxCount b)) (tb_ticks b @ [d])"
  by (auto simp: tb_add_def Let_def)

lemma tb_add_total: "tb_totalVolume (tb_add d b) = sum_list (List.map tt_volume (tb_ticks (tb_add d b)))"
  by (simp add: tb_add_def Let_def)

text \<open>The tick book keeps the first ticks, not the latest. Whatever ticks are added to a book that
  holds at most its maximum, the book then holds the longest prefix of all of them that fits, and its
  volume is that of this prefix, while its latest price is the price of the tick added last; so from the
  moment the book is full the list and the volume never change, and the price still does.\<close>

theorem tick_book_keeps_first:
  assumes "int (length (tb_ticks b)) \<le> tb_maxCount b" "ticks \<noteq> []"
  shows "tb_ticks (fold tb_add ticks b) = take (nat (tb_maxCount b)) (tb_ticks b @ ticks) \<and>
    tb_totalVolume (fold tb_add ticks b) = sum_list (List.map tt_volume (take (nat (tb_maxCount b)) (tb_ticks b @ ticks))) \<and>
    tb_latestPrice (fold tb_add ticks b) = tt_price (last ticks)"
proof -
  have keep: "tb_maxCount (fold tb_add ts b) = tb_maxCount b" for ts by (induction ts arbitrary: b) simp_all
  have ticks: "tb_ticks (fold tb_add ts b) = take (nat (tb_maxCount b)) (tb_ticks b @ ts)" for ts
  proof (induction ts rule: rev_induct)
    case Nil
    then show ?case using assms(1) by simp
  next
    case (snoc d ts)
    have "int (length (tb_ticks (fold tb_add ts b))) \<le> tb_maxCount (fold tb_add ts b)"
      using snoc.IH assms(1) keep [of ts] by simp
    with tb_add_ticks [OF this, of d] snoc.IH keep [of ts] show ?case
      by (cases "length (tb_ticks b @ ts) \<le> nat (tb_maxCount b)") (simp_all add: min_def)
  qed
  obtain ts d where d: "ticks = ts @ [d]" using assms(2) by (metis rev_exhaust)
  then have "tb_totalVolume (fold tb_add ticks b) = sum_list (List.map tt_volume (tb_ticks (fold tb_add ticks b)))"
    by (simp add: tb_add_total)
  with ticks [of ticks] d show ?thesis by simp
qed

definition sample_tick :: "rat \<Rightarrow> TickTradeData" where
  "sample_tick p = \<lparr> tt_timestamp = 0, tt_price = lit p, tt_volume = 3, tt_direction = ''buy'', tt_tradeId = ''T1'',
     tt_symbol = ''BTCUSDT'' \<rparr>"

lemma tick_book_keeps_first_witness:
  "tb_ticks (fold tb_add [sample_tick 1, sample_tick 2, sample_tick 3] (TickTradeBook_new\<lparr> tb_maxCount := 2 \<rparr>)) =
     [sample_tick 1, sample_tick 2] \<and>
   tb_latestPrice (fold tb_add [sample_tick 1, sample_tick 2, sample_tick 3] (TickTradeBook_new\<lparr> tb_maxCount := 2 \<rparr>)) = lit 3"
  using tick_book_keeps_first [of "TickTradeBook_new\<lparr> tb_maxCount := 2 \<rparr>" "[sample_tick 1, sample_tick 2, sample_tick 3]"]
  by (simp add: TickTradeBook_new_def sample_tick_def)

section \<open>The candles of a sequence of bars\<close>

text \<open>A bar inside one minute, as the candles of less than a minute are that end before the minute does.\<close>

definition bar_minute :: "Bar \<Rightarrow> int" where
  "bar_minute b = minute_start (bar_start_time b)"

definition within_minute :: "Bar \<Rightarrow> bool" where
  "within_minute b \<longleftrightarrow> 0 \<le> bar_start_time b \<and> 0 \<le> bar_end_time b \<and> minute_start (bar_end_time b) = bar_minute b"

text \<open>Consecutive bars of one minute, grouped.\<close>

definition add_to_groups :: "Bar list list \<Rightarrow> Bar \<Rightarrow> Bar list list" where
  "add_to_groups gs b =
     (if gs \<noteq> [] \<and> bar_minute (hd (last gs)) = bar_minute b then butlast gs @ [last gs @ [b]] else gs @ [[b]])"

definition minute_groups :: "Bar list \<Rightarrow> Bar list list" where
  "minute_groups bars = foldl add_to_groups [] bars"

text \<open>The candle of a group; its low is the \<^emph>\<open>greatest\<close> of the lows.\<close>

definition candle_of :: "Bar list \<Rightarrow> KLine" where
  "candle_of g =
     \<lparr> kl_start_time = bar_minute (hd g), kl_end_time = bar_minute (hd g) + 60000, kl_open = bar_open (hd g),
       kl_high = foldl fmax (bar_high (hd g)) (List.map bar_high (tl g)),
       kl_low = foldl fmax (bar_low (hd g)) (List.map bar_low (tl g)),
       kl_close = bar_close (last g),
       kl_volume = foldl add_volume (i64_of (bar_volume (hd g))) (List.map bar_volume (tl g)),
       kl_amount = 0 \<rparr>"

lemma minute_groups_snoc: "minute_groups (bars @ [b]) = add_to_groups (minute_groups bars) b"
  by (simp add: minute_groups_def)

definition same_minute :: "Bar list \<Rightarrow> bool" where
  "same_minute g \<longleftrightarrow> g \<noteq> [] \<and> list_all (\<lambda>b. bar_minute b = bar_minute (hd g)) g"

lemma minute_groups_facts: "concat (minute_groups bars) = bars \<and> list_all same_minute (minute_groups bars)"
proof (induction bars rule: rev_induct)
  case (snoc b bars)
  show ?case
  proof (cases "minute_groups bars \<noteq> [] \<and> bar_minute (hd (last (minute_groups bars))) = bar_minute b")
    case True
    then obtain gs g where g: "minute_groups bars = gs @ [g]" by (metis append_butlast_last_id)
    with True have e: "minute_groups (bars @ [b]) = gs @ [g @ [b]]" and m: "bar_minute b = bar_minute (hd g)"
      by (simp_all add: minute_groups_snoc add_to_groups_def)
    have "same_minute g" "list_all same_minute gs" "concat (gs @ [g]) = bars" using snoc.IH g by simp_all
    moreover from this m have "same_minute (g @ [b])" by (simp add: same_minute_def)
    ultimately show ?thesis unfolding e by simp
  next
    case False
    then have "minute_groups (bars @ [b]) = minute_groups bars @ [[b]]"
      unfolding minute_groups_snoc add_to_groups_def by (rule if_not_P)
    with snoc.IH show ?thesis by (simp add: same_minute_def)
  qed
qed (simp add: minute_groups_def)

lemma minute_start_nonneg: "0 \<le> ms \<Longrightarrow> minute_start ms = ms div 60000 * 60000"
  by (simp add: minute_start_def sdiv_pos)

lemma minute_contains: "0 \<le> ms \<Longrightarrow> 0 \<le> ts \<Longrightarrow>
  minute_start ms \<le> ts \<and> ts < minute_start ms + 60000 \<longleftrightarrow> minute_start ts = minute_start ms"
  by (auto simp: minute_start_nonneg)

text \<open>One more bar: the last candle grows, or a new one begins.\<close>

lemma candle_of_snoc:
  "g \<noteq> [] \<Longrightarrow> candle_of (g @ [b]) = (candle_of g)
     \<lparr> kl_close := bar_close b, kl_high := fmax (kl_high (candle_of g)) (bar_high b),
       kl_low := fmax (kl_low (candle_of g)) (bar_low b), kl_volume := add_volume (kl_volume (candle_of g)) (bar_volume b) \<rparr>"
  by (simp add: candle_of_def)

lemma drop_snoc_bounded:
  "(let ys = drop (length xs - m) xs @ [x] in if m < length ys then tl ys else ys) = drop (Suc (length xs) - m) (xs @ [x])"
  if "0 < m"
proof (cases "m \<le> length xs")
  case True
  then have "drop (length xs - m) xs \<noteq> []" "Suc (length xs) - m = Suc (length xs - m)" using that by simp_all
  then show ?thesis using True by (simp add: Let_def tl_append2 drop_Suc drop_tl)
next
  case False
  then show ?thesis by simp
qed

lemma ks_klines_bound: "ks_klines (ks_bound s) = (if max_klines < length (ks_klines s) then tl (ks_klines s) else ks_klines s)"
  by (simp add: ks_bound_def ks_pop_front_def)

text \<open>C39: The candles the viewer shows of a sequence of bars whose times are in milliseconds (in
  the two other units the code leaves both moments of a bar invalid), each bar inside one minute of the clock: the consecutive bars of one minute make one candle of exactly that minute, with the open of the first,
  the close of the last, the greatest of the highs and the accumulated volume, and the candles are the
  last thousand of these groups, whose bars are all the bars in their order. The low of a candle is the
  greatest of its bars' lows, not the least.\<close>

theorem candles_group_by_minute:
  assumes "list_all within_minute bars"
  shows "ks_klines (fold take_bar bars KLineSet_new) =
      drop (length (minute_groups bars) - 1000) (List.map candle_of (minute_groups bars)) \<and>
    concat (minute_groups bars) = bars \<and> list_all same_minute (minute_groups bars)"
proof -
  have "ks_klines (fold take_bar bars KLineSet_new) =
      drop (length (minute_groups bars) - 1000) (List.map candle_of (minute_groups bars))"
    using assms
  proof (induction bars rule: rev_induct)
    case Nil
    then show ?case by (simp add: minute_groups_def KLineSet_new_def)
  next
    case (snoc b bars)
    define s where "s = fold take_bar bars KLineSet_new"
    define ks where "ks = List.map candle_of (minute_groups bars)"
    have s: "ks_klines s = drop (length ks - 1000) ks" and b: "within_minute b"
      using snoc by (simp_all add: s_def ks_def)
    show ?case
    proof (cases "minute_groups bars = []")
      case True
      then have "ks_klines s = []" using s by (simp add: ks_def)
      then have "ks_klines (take_bar b s) = [candle_of [b]]"
        using b by (simp add: take_bar_def Let_def ks_klines_bound ks_push_back_def max_klines_def KLine_at_def candle_of_def
            within_minute_def)
      with True show ?thesis by (simp add: s_def minute_groups_snoc add_to_groups_def)
    next
      case False
      then obtain gs g where g: "minute_groups bars = gs @ [g]" by (metis append_butlast_last_id)
      have f: "concat (gs @ [g]) = bars" "same_minute g"
        using minute_groups_facts [of bars] unfolding g by simp_all
      then have "hd g \<in> set bars" unfolding f(1) [symmetric] by (simp add: same_minute_def)
      with f(2) snoc.prems have sg: "same_minute g" "within_minute (hd g)" by (simp_all add: list_all_iff)
      have len: "length (ks_klines s) \<le> 1000" using s by simp
      have last: "last (ks_klines s) = candle_of g" "ks_klines s \<noteq> []" using s g by (simp_all add: ks_def)
      have c: "kl_contains (candle_of g) (bar_start_time b) \<longleftrightarrow> bar_minute (hd g) = bar_minute b"
        using sg(2) b minute_contains [of "bar_start_time (hd g)" "bar_start_time b"]
        by (auto simp: kl_contains_def candle_of_def bar_minute_def within_minute_def)
      show ?thesis
      proof (cases "bar_minute (hd g) = bar_minute b")
        case True
        have "ks_klines (take_bar b s) = butlast (ks_klines s) @ [candle_of (g @ [b])]"
          using True c last sg(1) len
          by (simp add: take_bar_def Let_def ks_klines_bound ks_set_back_def max_klines_def candle_of_snoc same_minute_def)
        with True g s show ?thesis
          by (simp add: s_def [symmetric] minute_groups_snoc add_to_groups_def ks_def)
      next
        case False
        have "KLine_at (bar_end_time b) (bar_open b) (bar_high b) (bar_low b) (bar_close b) (i64_of (bar_volume b)) 0 = candle_of [b]"
          using b by (simp add: KLine_at_def candle_of_def within_minute_def)
        then have "ks_klines (take_bar b s) = (let ys = drop (length ks - 1000) ks @ [candle_of [b]] in if 1000 < length ys then tl ys else ys)"
          using False c last s by (simp add: take_bar_def Let_def ks_klines_bound ks_push_back_def max_klines_def)
        also have "\<dots> = drop (Suc (length ks) - 1000) (ks @ [candle_of [b]])"
          by (rule drop_snoc_bounded) simp
        finally show ?thesis
          using False g by (simp add: s_def [symmetric] minute_groups_snoc add_to_groups_def ks_def)
      qed
    qed
  qed
  with minute_groups_facts [of bars] show ?thesis by blast
qed

definition sample_minute_bar :: "int \<Rightarrow> int \<Rightarrow> rat \<Rightarrow> Bar" where
  "sample_minute_bar t0 t1 p = Bar_zero\<lparr> bar_start_time := t0, bar_end_time := t1, bar_open := lit p, bar_close := lit (p + 1),
     bar_high := lit (p + 2), bar_low := lit (p - 1), bar_volume := lit 5 \<rparr>"

lemma candles_group_by_minute_witness:
  "List.map (\<lambda>k. (kl_start_time k, kl_low k))
     (ks_klines (fold take_bar [sample_minute_bar 60000 60999 7, sample_minute_bar 61000 61999 9, sample_minute_bar 120000 120999 3] KLineSet_new)) =
   [(60000, lit 8), (120000, lit 2)]"
proof -
  let ?bars = "[sample_minute_bar 60000 60999 7, sample_minute_bar 61000 61999 9, sample_minute_bar 120000 120999 3]"
  have w: "list_all within_minute ?bars"
    by (simp add: within_minute_def bar_minute_def minute_start_nonneg sample_minute_bar_def)
  have g: "minute_groups ?bars = [[sample_minute_bar 60000 60999 7, sample_minute_bar 61000 61999 9], [sample_minute_bar 120000 120999 3]]"
    by (simp add: minute_groups_def add_to_groups_def bar_minute_def minute_start_nonneg sample_minute_bar_def)
  have "List.map (\<lambda>k. (kl_start_time k, kl_low k)) (List.map candle_of (minute_groups ?bars)) = [(60000, lit 8), (120000, lit 2)]"
    unfolding g
    by (simp add: candle_of_def bar_minute_def minute_start_nonneg sample_minute_bar_def lit_def fmax_def flt_def)
  moreover have "length (minute_groups ?bars) = 2" unfolding g by simp
  ultimately show ?thesis using candles_group_by_minute [OF w] by simp
qed

text \<open>Two bars, the first of which begins a candle that takes the second in.\<close>

definition begun_candle :: "Bar \<Rightarrow> KLine" where
  "begun_candle b = KLine_at (bar_end_time b) (bar_open b) (bar_high b) (bar_low b) (bar_close b) (i64_of (bar_volume b)) 0"

definition pair_candle :: "Bar \<Rightarrow> Bar \<Rightarrow> KLine" where
  "pair_candle b b' = (begun_candle b)
     \<lparr> kl_close := bar_close b', kl_high := fmax (bar_high b) (bar_high b'), kl_low := fmax (bar_low b) (bar_low b'),
       kl_volume := add_volume (i64_of (bar_volume b)) (bar_volume b') \<rparr>"

lemma take_bar_begins:
  assumes "ks_klines s = [] \<or> \<not> kl_contains (last (ks_klines s)) (bar_start_time b)" "length (ks_klines s) < 1000"
  shows "ks_klines (take_bar b s) = ks_klines s @ [begun_candle b]"
proof -
  have "\<not> (ks_klines s \<noteq> [] \<and> kl_contains (last (ks_klines s)) (bar_start_time b))" using assms(1) by blast
  then have "ks_klines (take_bar b s) = ks_klines (ks_bound (ks_push_back (begun_candle b) s))"
    unfolding take_bar_def Let_def begun_candle_def fromTimestampMs_def by (simp only: if_False)
  then show ?thesis using assms(2) by (simp add: ks_klines_bound ks_push_back_def max_klines_def)
qed

lemma take_bar_joins:
  assumes "ks_klines s = ks @ [begun_candle b]" "kl_contains (begun_candle b) (bar_start_time b')" "length ks < 1000"
  shows "ks_klines (take_bar b' s) = ks @ [pair_candle b b']"
  using assms by (simp add: take_bar_def Let_def ks_klines_bound ks_set_back_def max_klines_def pair_candle_def
      begun_candle_def KLine_at_def)

text \<open>Bars of a whole minute that end when the next begins lose every second candle. Of \<open>2 * n\<close> such bars,
  one after the other from a minute on, the viewer shows \<open>n\<close> candles only: each is labelled with the minute
  after its first bar, has that bar's open and the following bar's close, and has swallowed both, because
  a candle is begun for the minute of the bar's \<^emph>\<open>end\<close> while the next bar is looked up by its \<^emph>\<open>start\<close>.\<close>

theorem minute_bars_merge_in_pairs:
  assumes "\<forall>i < 2 * n. bar_start_time (f i) = 60000 * (m + int i) \<and> bar_end_time (f i) = 60000 * (m + int i + 1)"
    "0 \<le> m" "n \<le> 1000"
  shows "ks_klines (fold take_bar (List.map f [0..<2 * n]) KLineSet_new) =
      List.map (\<lambda>j. pair_candle (f (2 * j)) (f (2 * j + 1))) [0..<n] \<and>
    List.map (\<lambda>j. (kl_start_time (pair_candle (f (2 * j)) (f (2 * j + 1))), kl_open (pair_candle (f (2 * j)) (f (2 * j + 1))),
        kl_close (pair_candle (f (2 * j)) (f (2 * j + 1))))) [0..<n] =
    List.map (\<lambda>j. (60000 * (m + 2 * int j + 1), bar_open (f (2 * j)), bar_close (f (2 * j + 1)))) [0..<n]"
proof
  have start: "kl_start_time (begun_candle (f i)) = 60000 * (m + int i + 1) \<and>
      kl_end_time (begun_candle (f i)) = 60000 * (m + int i + 2)" if "i < 2 * n" for i
    using assms(1,2) that by (simp add: begun_candle_def KLine_at_def minute_start_nonneg)
  have begun: "kl_start_time (pair_candle b b') = kl_start_time (begun_candle b) \<and> kl_end_time (pair_candle b b') = kl_end_time (begun_candle b) \<and>
      kl_open (pair_candle b b') = bar_open b \<and> kl_close (pair_candle b b') = bar_close b'" for b b'
    by (simp add: pair_candle_def begun_candle_def KLine_at_def)
  show "List.map (\<lambda>j. (kl_start_time (pair_candle (f (2 * j)) (f (2 * j + 1))), kl_open (pair_candle (f (2 * j)) (f (2 * j + 1))),
        kl_close (pair_candle (f (2 * j)) (f (2 * j + 1))))) [0..<n] =
    List.map (\<lambda>j. (60000 * (m + 2 * int j + 1), bar_open (f (2 * j)), bar_close (f (2 * j + 1)))) [0..<n]"
    using begun start by simp
  have "ks_klines (fold take_bar (List.map f [0..<2 * k]) KLineSet_new) =
      List.map (\<lambda>j. pair_candle (f (2 * j)) (f (2 * j + 1))) [0..<k]" if "k \<le> n" for k
    using that
  proof (induction k)
    case 0
    then show ?case by (simp add: KLineSet_new_def)
  next
    case (Suc k)
    define s where "s = fold take_bar (List.map f [0..<2 * k]) KLineSet_new"
    have ks: "ks_klines s = List.map (\<lambda>j. pair_candle (f (2 * j)) (f (2 * j + 1))) [0..<k]"
      using Suc by (simp add: s_def)
    have t: "bar_start_time (f (2 * k)) = 60000 * (m + 2 * int k)" "bar_start_time (f (2 * k + 1)) = 60000 * (m + 2 * int k + 1)"
      using assms(1) Suc.prems by simp_all
    have "ks_klines s = [] \<or> \<not> kl_contains (last (ks_klines s)) (bar_start_time (f (2 * k)))"
    proof (cases k)
      case (Suc j)
      then have "last (ks_klines s) = pair_candle (f (2 * j)) (f (2 * j + 1))" by (simp add: ks)
      then show ?thesis using begun start [of "2 * j"] Suc Suc.prems t(1) \<open>Suc k \<le> n\<close> by (simp add: kl_contains_def)
    qed (simp add: ks)
    then have one: "ks_klines (take_bar (f (2 * k)) s) = ks_klines s @ [begun_candle (f (2 * k))]"
      using ks Suc.prems assms(3) by (intro take_bar_begins) simp_all
    have "kl_contains (begun_candle (f (2 * k))) (bar_start_time (f (2 * k + 1)))"
      using start [of "2 * k"] Suc.prems t(2) by (simp add: kl_contains_def)
    from take_bar_joins [OF one this] have "ks_klines (take_bar (f (2 * k + 1)) (take_bar (f (2 * k)) s)) =
        ks_klines s @ [pair_candle (f (2 * k)) (f (2 * k + 1))]"
      using ks Suc.prems assms(3) by simp
    then show ?case using ks by (simp add: s_def)
  qed
  then show "ks_klines (fold take_bar (List.map f [0..<2 * n]) KLineSet_new) =
      List.map (\<lambda>j. pair_candle (f (2 * j)) (f (2 * j + 1))) [0..<n]" by simp
qed

lemma minute_bars_merge_in_pairs_witness:
  "List.map kl_start_time (ks_klines (fold take_bar (List.map (\<lambda>i. sample_minute_bar (60000 * int i) (60000 * (int i + 1)) 7) [0..<2 * 2]) KLineSet_new)) =
     [60000, 180000]"
proof -
  from minute_bars_merge_in_pairs [of 2 "\<lambda>i. sample_minute_bar (60000 * int i) (60000 * (int i + 1)) 7" 0]
  have "ks_klines (fold take_bar (List.map (\<lambda>i. sample_minute_bar (60000 * int i) (60000 * (int i + 1)) 7) [0..<2 * 2]) KLineSet_new) =
      List.map (\<lambda>j. pair_candle (sample_minute_bar (60000 * int (2 * j)) (60000 * (int (2 * j) + 1)) 7)
        (sample_minute_bar (60000 * int (2 * j + 1)) (60000 * (int (2 * j + 1) + 1)) 7)) [0..<2]"
    by (simp only: sample_minute_bar_def) (simp add: upt_rec)
  then show ?thesis
    by (simp add: upt_rec pair_candle_def begun_candle_def KLine_at_def minute_start_nonneg sample_minute_bar_def)
qed

section \<open>Simulated candles\<close>

text \<open>Consecutive candles: each begins where the one before it ends, at its close, and lasts a minute.\<close>

definition candle_chain :: "KLine list \<Rightarrow> bool" where
  "candle_chain ks \<longleftrightarrow> successively (\<lambda>a b. kl_start_time b = kl_end_time a \<and> kl_open b = kl_close a) ks \<and>
     list_all (\<lambda>k. kl_end_time k = kl_start_time k + 60000) ks"

text \<open>The candles of a symbol and the manager's note of the last one's start.\<close>

definition symbol_klines :: "string \<Rightarrow> DataManager \<Rightarrow> KLine list" where
  "symbol_klines symbol dm =
     (case omap_find (db_klinesets (dm_database dm)) symbol of Some s \<Rightarrow> ks_klines s | None \<Rightarrow> [])"

definition simulated_ok :: "string \<Rightarrow> DataManager \<Rightarrow> bool" where
  "simulated_ok symbol dm \<longleftrightarrow> candle_chain (symbol_klines symbol dm) \<and> length (symbol_klines symbol dm) \<le> 1000 \<and>
     (symbol_klines symbol dm \<noteq> [] \<longrightarrow>
        omap_find (dm_lastKlineStartTime dm) symbol \<in> {None, Some (kl_start_time (last (symbol_klines symbol dm)))})"

lemma candle_chain_snoc:
  "\<lbrakk> candle_chain ks; kl_end_time k = kl_start_time k + 60000;
     ks \<noteq> [] \<Longrightarrow> kl_start_time k = kl_start_time (last ks) + 60000 \<and> kl_open k = kl_close (last ks) \<rbrakk> \<Longrightarrow> candle_chain (ks @ [k])"
  by (cases "ks = []") (auto simp: candle_chain_def successively_append_iff list_all_iff)

lemma candle_chain_tl: "candle_chain ks \<Longrightarrow> candle_chain (tl ks)"
  by (cases ks) (auto simp: candle_chain_def successively_Cons)

lemma generate_candle_ok:
  assumes "simulated_ok symbol dm"
  shows "simulated_ok symbol (generateSimulatedCandlestickData symbol d dm)"
proof -
  obtain s db where r: "reqKlineDB symbol (dm_database dm) = (s, db)" by (cases "reqKlineDB symbol (dm_database dm)")
  then have s: "ks_klines s = symbol_klines symbol dm"
    by (auto simp: reqKlineDB_def symbol_klines_def KLineSet_new_def split: option.splits)
  define k where "k = simulated_kline symbol d s dm"
  have k: "kl_end_time k = kl_start_time k + 60000"
    "ks_klines s \<noteq> [] \<Longrightarrow> kl_start_time k = kl_start_time (last (ks_klines s)) + 60000 \<and> kl_open k = kl_close (last (ks_klines s))"
    using assms by (auto simp: k_def simulated_kline_def Let_def kline_start_def simulated_ok_def s split: option.splits)
  have "candle_chain (ks_klines s @ [k])" using assms k by (intro candle_chain_snoc) (simp_all add: simulated_ok_def s)
  then have c: "candle_chain (ks_klines (ks_bound (ks_push_back k s)))"
    using candle_chain_tl by (simp add: ks_klines_bound ks_push_back_def)
  moreover have "length (ks_klines (ks_bound (ks_push_back k s))) \<le> 1000" "last (ks_klines (ks_bound (ks_push_back k s))) = k"
    using assms by (auto simp: simulated_ok_def s ks_klines_bound ks_push_back_def max_klines_def tl_append split: list.split)
  moreover have "symbol_klines symbol (generateSimulatedCandlestickData symbol d dm) = ks_klines (ks_bound (ks_push_back k s))"
    by (simp add: generateSimulatedCandlestickData_def Let_def r k_def symbol_klines_def)
  ultimately show ?thesis
    by (simp add: simulated_ok_def) (simp add: generateSimulatedCandlestickData_def Let_def r k_def)
qed

lemma generate_candle_other:
  "symbol \<noteq> symbol' \<Longrightarrow> simulated_ok symbol (generateSimulatedCandlestickData symbol' d dm) \<longleftrightarrow> simulated_ok symbol dm"
  by (simp add: simulated_ok_def symbol_klines_def generateSimulatedCandlestickData_def Let_def reqKlineDB_def
      split: option.splits)

lemma simulated_ok_cong:
  "\<lbrakk> db_klinesets (dm_database dm') = db_klinesets (dm_database dm);
     dm_lastKlineStartTime dm' = dm_lastKlineStartTime dm \<rbrakk> \<Longrightarrow> simulated_ok symbol dm' \<longleftrightarrow> simulated_ok symbol dm"
  by (simp add: simulated_ok_def symbol_klines_def)

lemma generate_tick_ok: "simulated_ok symbol (generateSimulatedTickTradeData symbol' d dm) \<longleftrightarrow> simulated_ok symbol dm"
  by (rule simulated_ok_cong) (simp_all add: generateSimulatedTickTradeData_def Let_def reqTickTradeBook_def split: option.splits)

lemma generate_book_ok: "simulated_ok symbol (generateSimulatedOrderBookData symbol' d dm) \<longleftrightarrow> simulated_ok symbol dm"
  by (rule simulated_ok_cong) (simp_all add: generateSimulatedOrderBookData_def Let_def reqOrderBookSet_def split: option.splits)

lemma simulate_symbols_ok: "simulated_ok symbol dm \<Longrightarrow> simulated_ok symbol (simulate_symbols sds dm)"
proof (induction sds dm rule: simulate_symbols.induct)
  case (2 symbol' d rest dm)
  have "simulated_ok symbol (generateSimulatedCandlestickData symbol' d dm)"
    using 2(2) generate_candle_ok generate_candle_other by (cases "symbol = symbol'") simp_all
  then have "simulated_ok symbol (generateSimulatedOrderBookData symbol' d
      (generateSimulatedTickTradeData symbol' d (generateSimulatedCandlestickData symbol' d dm)))"
    by (simp add: generate_tick_ok generate_book_ok)
  moreover have "simulated_ok symbol (dm'\<lparr> dm_lastUpdateTime := u \<rparr>) \<longleftrightarrow> simulated_ok symbol dm'" for dm' u
    by (rule simulated_ok_cong) simp_all
  ultimately show ?case using 2(1) by (simp add: Let_def)
qed simp

lemma init_symbols_klines:
  "db_klinesets (dm_database (init_symbols defaults dm)) = db_klinesets (dm_database dm)"
proof (induction defaults dm rule: init_symbols.induct)
  case (2 symbol draw draw' now now' rest dm)
  have "db_klinesets (dm_database (snd (subscribeSymbol draw now symbol dm))) = db_klinesets (dm_database dm)"
    by (simp add: subscribeSymbol_def Let_def)
  with 2 show ?case by (simp add: Let_def)
qed simp

text \<open>The simulated candles of every symbol form an unbroken chain: after any number of simulated
  updates, with any random numbers and clock readings, of a manager that started with an empty
  database and any default instruments, each candle lasts one minute, begins when the one before it ends
  and opens at that one's close, and at most a thousand are kept.\<close>

theorem simulated_candles_chain:
  "candle_chain (symbol_klines symbol (fold onSimulateDataUpdate updates (init_symbols defaults (DataManager_new Database_new)))) \<and>
   length (symbol_klines symbol (fold onSimulateDataUpdate updates (init_symbols defaults (DataManager_new Database_new)))) \<le> 1000"
proof -
  have "simulated_ok symbol (fold onSimulateDataUpdate updates dm)" if "simulated_ok symbol dm" for dm
    using that by (induction updates arbitrary: dm) (simp_all add: onSimulateDataUpdate_def simulate_symbols_ok)
  moreover have "simulated_ok symbol (init_symbols defaults (DataManager_new Database_new))"
    by (simp add: simulated_ok_def symbol_klines_def init_symbols_klines DataManager_new_def Database_new_def candle_chain_def)
  ultimately show ?thesis unfolding simulated_ok_def by blast
qed

text \<open>The step of a simulated price is between a loss of the whole price and nearly a doubling.\<close>

lemma random_step_extremes: "random_step 0 = - 1" "random_step 200 = 1"
  by (simp_all add: random_step_def of_i64_Fin lit_def f64_ops)

end
