(* ===== verification/GuiModels.thy ===== *)
theory GuiModels
  imports GuiData
begin

text \<open>
  The models through which the viewer's windows read the data (src/tradeview/model): candles, the
  combined order book with its depth, and ticks. A row index comes from the view and is a natural
  number; an index from a script is an integer. The Qt classes around the models, their signals and the
  names of their roles are not modelled.
\<close>

section \<open>Candles\<close>

datatype variant = V_none | V_time int | V_num double | V_int int | V_bool bool | V_text string

datatype CandleRole =
  kStartTimeRole | kEndTimeRole | kOpenRole | kHighRole | kLowRole | kCloseRole | kVolumeRole | kAmountRole
| kIsUpRole | kIsDownRole | kBodyHeightRole | kUpperShadowRole | kLowerShadowRole

definition cm_rowCount :: "bool \<Rightarrow> KLineSet option \<Rightarrow> nat" where
  "cm_rowCount parent_valid ds =
     (case ds of None \<Rightarrow> 0 | Some s \<Rightarrow> if parent_valid then 0 else length (ks_klines s))"

fun candle_data :: "KLine \<Rightarrow> CandleRole \<Rightarrow> variant" where
  "candle_data k kStartTimeRole = V_time (kl_start_time k)"
| "candle_data k kEndTimeRole = V_time (kl_end_time k)"
| "candle_data k kOpenRole = V_num (kl_open k)"
| "candle_data k kHighRole = V_num (kl_high k)"
| "candle_data k kLowRole = V_num (kl_low k)"
| "candle_data k kCloseRole = V_num (kl_close k)"
| "candle_data k kVolumeRole = V_int (kl_volume k)"
| "candle_data k kAmountRole = V_num (kl_amount k)"
| "candle_data k kIsUpRole = V_bool (kl_open k \<le> kl_close k)"
| "candle_data k kIsDownRole = V_bool (kl_close k < kl_open k)"
| "candle_data k kBodyHeightRole = V_num \<bar>kl_close k - kl_open k\<bar>"
| "candle_data k kUpperShadowRole = V_num (kl_high k - fmax (kl_open k) (kl_close k))"
| "candle_data k kLowerShadowRole = V_num (qMin (kl_open k) (kl_close k) - kl_low k)"

definition cm_data :: "KLineSet option \<Rightarrow> nat \<Rightarrow> CandleRole \<Rightarrow> variant" where
  "cm_data ds row role =
     (case ds of None \<Rightarrow> V_none
      | Some s \<Rightarrow> if length (ks_klines s) \<le> row then V_none else candle_data (ks_klines s ! row) role)"

type_synonym candle_map = "int \<times> double \<times> double \<times> double \<times> double \<times> int"

definition candle_map :: "KLine \<Rightarrow> candle_map" where
  "candle_map k = (kl_start_time k, kl_open k, kl_high k, kl_low k, kl_close k, kl_volume k)"

text \<open>\<open>at\<close> of the deque, whose exception for an index out of range nobody catches (\<open>None\<close>).\<close>

definition ks_at :: "KLineSet \<Rightarrow> int \<Rightarrow> KLine option" where
  "ks_at s i = (if 0 \<le> i \<and> i < int (length (ks_klines s)) then Some (ks_klines s ! nat i) else None)"

function candle_loop :: "KLineSet \<Rightarrow> int \<Rightarrow> int \<Rightarrow> candle_map list option" where
  "candle_loop s i last_index =
     (if i < last_index
      then case ks_at s i of
             None \<Rightarrow> None
           | Some k \<Rightarrow> map_option ((#) (candle_map k)) (candle_loop s (i + 1) last_index)
      else Some [])"
  by pat_completeness auto

termination
  by (relation "measure (\<lambda>(_, i, n). nat (n - i))") auto

declare candle_loop.simps [simp del]

definition get_candlesticks :: "KLineSet option \<Rightarrow> int \<Rightarrow> int \<Rightarrow> candle_map list option" where
  "get_candlesticks ds start count =
     (case ds of None \<Rightarrow> Some [] | Some s \<Rightarrow> candle_loop s start (min (start + count) (int (length (ks_klines s)))))"

definition cm_get :: "KLineSet option \<Rightarrow> int \<Rightarrow> candle_map option" where
  "cm_get ds index =
     (case ds of None \<Rightarrow> None
      | Some s \<Rightarrow> if 0 \<le> index \<and> index < int (length (ks_klines s)) then Some (candle_map (ks_klines s ! nat index)) else None)"

section \<open>The order book\<close>

record OrderBookModel =
  om_maxLevels :: int
  om_combined :: "OrderBookLevel list"

text \<open>The levels shown: the first asks, then the first bids, of the last order book.\<close>

definition shown :: "int \<Rightarrow> OrderBookLevel list \<Rightarrow> OrderBookLevel list" where
  "shown max_levels ls = (if 0 < max_levels then take (nat (min (int (length ls)) max_levels)) ls else ls)"

definition updateCombinedOrderBook :: "OrderBookSet \<Rightarrow> OrderBookModel \<Rightarrow> OrderBookModel" where
  "updateCombinedOrderBook bs m =
     (if bs = [] then m\<lparr> om_combined := [] \<rparr>
      else m\<lparr> om_combined := shown (om_maxLevels m) (ob_asks (last bs)) @ shown (om_maxLevels m) (ob_bids (last bs)) \<rparr>)"

definition OrderBookModel_new :: "OrderBookSet \<Rightarrow> OrderBookModel" where
  "OrderBookModel_new bs =
     (let m = \<lparr> om_maxLevels = 20, om_combined = [] \<rparr> in if bs \<noteq> [] then updateCombinedOrderBook bs m else m)"

definition setMaxLevels :: "int \<Rightarrow> OrderBookSet \<Rightarrow> OrderBookModel \<Rightarrow> OrderBookModel" where
  "setMaxLevels levels bs m =
     (if om_maxLevels m \<noteq> levels then updateCombinedOrderBook bs (m\<lparr> om_maxLevels := levels \<rparr>) else m)"

definition om_rowCount :: "bool \<Rightarrow> OrderBookModel \<Rightarrow> nat" where
  "om_rowCount parent_valid m = (if parent_valid then 0 else length (om_combined m))"

definition getBestBid :: "OrderBookSet \<Rightarrow> double" where
  "getBestBid bs = (if bs \<noteq> [] then ob_bestBid (last bs) else 0)"

definition getBestAsk :: "OrderBookSet \<Rightarrow> double" where
  "getBestAsk bs = (if bs \<noteq> [] then ob_bestAsk (last bs) else 0)"

definition getSpread :: "OrderBookSet \<Rightarrow> double" where
  "getSpread bs =
     (if getBestBid bs > 0 \<and> getBestAsk bs > 0 then getBestAsk bs - getBestBid bs else 0)"

definition getMidPrice :: "OrderBookSet \<Rightarrow> double" where
  "getMidPrice bs =
     (if getBestBid bs > 0 \<and> getBestAsk bs > 0 then (getBestBid bs + getBestAsk bs) / lit 2 else 0)"

definition getBids :: "OrderBookSet \<Rightarrow> OrderBookLevel list" where
  "getBids bs = (if bs \<noteq> [] then ob_bids (last bs) else [])"

definition getAsks :: "OrderBookSet \<Rightarrow> OrderBookLevel list" where
  "getAsks bs = (if bs \<noteq> [] then ob_asks (last bs) else [])"

text \<open>The volume of the levels from the front that are on a side.\<close>

definition sum_side :: "string \<Rightarrow> OrderBookLevel list \<Rightarrow> int" where
  "sum_side side ls = sum_list (List.map lv_volume (takeWhile (\<lambda>l. lv_side l = side) ls))"

definition calculateCumulativeVolume :: "nat \<Rightarrow> OrderBookModel \<Rightarrow> int" where
  "calculateCumulativeVolume index m =
     (if length (om_combined m) \<le> index then 0
      else let side = lv_side (om_combined m ! index); upto_index = take (Suc index) (om_combined m)
           in if side = ''ask'' then sum_side ''ask'' upto_index
              else if side = ''bid'' then sum_side ''bid'' (dropWhile (\<lambda>l. lv_side l \<noteq> ''bid'') upto_index)
              else 0)"

definition calculateDepthPercentage :: "nat \<Rightarrow> OrderBookModel \<Rightarrow> double" where
  "calculateDepthPercentage index m =
     (if length (om_combined m) \<le> index then 0
      else let side = lv_side (om_combined m ! index);
               totalVolume = sum_list (List.map lv_volume (filter (\<lambda>l. lv_side l = side) (om_combined m)))
           in if totalVolume = 0 then 0
              else of_i64 (calculateCumulativeVolume index m) / of_i64 totalVolume * lit 100)"

datatype LevelRole =
  PriceRole | VolumeRole | OrderCountRole | SideRole | IsBidRole | IsAskRole | CumulativeVolumeRole | DepthPercentageRole

definition om_data :: "OrderBookModel \<Rightarrow> nat \<Rightarrow> LevelRole \<Rightarrow> variant" where
  "om_data m row role =
     (if length (om_combined m) \<le> row then V_none
      else let level = om_combined m ! row
           in case role of
                PriceRole \<Rightarrow> V_num (lv_price level)
              | VolumeRole \<Rightarrow> V_int (lv_volume level)
              | OrderCountRole \<Rightarrow> V_int (lv_orderCount level)
              | SideRole \<Rightarrow> V_text (lv_side level)
              | IsBidRole \<Rightarrow> V_bool (lv_side level = ''bid'')
              | IsAskRole \<Rightarrow> V_bool (lv_side level = ''ask'')
              | CumulativeVolumeRole \<Rightarrow> V_int (calculateCumulativeVolume row m)
              | DepthPercentageRole \<Rightarrow> V_num (calculateDepthPercentage row m))"

section \<open>Ticks\<close>

record TickTradeModel =
  tm_max_count :: int

definition tm_rowCount :: "bool \<Rightarrow> TickTradeBook option \<Rightarrow> TickTradeModel \<Rightarrow> int" where
  "tm_rowCount parent_valid b m =
     (if parent_valid then 0 else case b of None \<Rightarrow> 0 | Some b \<Rightarrow> min (tm_max_count m) (int (length (tb_ticks b))))"

definition tm_setMaxCount :: "int \<Rightarrow> TickTradeModel \<Rightarrow> TickTradeModel" where
  "tm_setMaxCount count m = (if tm_max_count m \<noteq> count then m\<lparr> tm_max_count := count \<rparr> else m)"

datatype TickRole =
  TimestampRole | TickPriceRole | TickVolumeRole | DirectionRole | TradeIdRole | SymbolRole | IsBuyRole | IsSellRole | AmountRole

fun tick_data :: "TickTradeData \<Rightarrow> TickRole \<Rightarrow> variant" where
  "tick_data d TimestampRole = V_time (tt_timestamp d)"
| "tick_data d TickPriceRole = V_num (tt_price d)"
| "tick_data d TickVolumeRole = V_int (tt_volume d)"
| "tick_data d DirectionRole = V_text (tt_direction d)"
| "tick_data d TradeIdRole = V_text (tt_tradeId d)"
| "tick_data d SymbolRole = V_text (tt_symbol d)"
| "tick_data d IsBuyRole = V_bool (tt_direction d = ''buy'')"
| "tick_data d IsSellRole = V_bool (tt_direction d = ''sell'')"
| "tick_data d AmountRole = V_num (tt_price d * of_i64 (tt_volume d))"

definition tm_data :: "TickTradeBook option \<Rightarrow> nat \<Rightarrow> TickRole \<Rightarrow> variant" where
  "tm_data b row role =
     (case b of None \<Rightarrow> V_none
      | Some b \<Rightarrow> if length (tb_ticks b) \<le> row then V_none else tick_data (tb_ticks b ! row) role)"

section \<open>The depth shown\<close>

definition side_is :: "string \<Rightarrow> OrderBookLevel list \<Rightarrow> bool" where
  "side_is side ls \<longleftrightarrow> list_all (\<lambda>l. lv_side l = side) ls"

lemma side_is_take: "side_is side ls \<Longrightarrow> side_is side (take n ls)" and side_is_shown: "side_is side ls \<Longrightarrow> side_is side (shown n ls)"
  by (auto simp: side_is_def shown_def list_all_iff dest: in_set_takeD)

lemma shown_take: "0 < n \<Longrightarrow> shown n ls = take (nat n) ls"
  by (simp add: shown_def min_def)

lemma sum_side_all: "side_is side ls \<Longrightarrow> sum_side side ls = sum_list (List.map lv_volume ls)"
  by (simp add: side_is_def sum_side_def takeWhile_eq_self)

lemma filter_side: "side_is side ls \<Longrightarrow> filter (\<lambda>l. lv_side l = side) ls = ls"
  and filter_other: "\<lbrakk> side_is side' ls; side \<noteq> side' \<rbrakk> \<Longrightarrow> filter (\<lambda>l. lv_side l = side) ls = []"
  by (induction ls) (auto simp: side_is_def)

lemma side_nth: "\<lbrakk> side_is side ls; i < length ls \<rbrakk> \<Longrightarrow> lv_side (ls ! i) = side"
  by (simp add: side_is_def list_all_length)

lemma cumulative_ask:
  assumes "om_combined m = asks @ bids" "side_is ''ask'' asks" "i < length asks"
  shows "calculateCumulativeVolume i m = sum_list (List.map lv_volume (take (Suc i) asks))"
  using assms sum_side_all [OF side_is_take [OF assms(2)]]
  by (simp add: calculateCumulativeVolume_def Let_def nth_append side_nth)

lemma cumulative_bid:
  assumes "om_combined m = asks @ bids" "side_is ''ask'' asks" "side_is ''bid'' bids" "i < length bids"
  shows "calculateCumulativeVolume (length asks + i) m = sum_list (List.map lv_volume (take (Suc i) bids))"
proof -
  have "dropWhile (\<lambda>l. lv_side l \<noteq> ''bid'') (asks @ take (Suc i) bids) = take (Suc i) bids"
    using assms(2-4) by (cases bids) (auto simp: side_is_def list_all_iff dropWhile_append2)
  with assms sum_side_all [OF side_is_take [OF assms(3)]] show ?thesis
    by (simp add: calculateCumulativeVolume_def Let_def nth_append side_nth)
qed

lemma full_percentage: "\<lbrakk> n \<noteq> 0; \<bar>n\<bar> \<le> 2 ^ 53 \<rbrakk> \<Longrightarrow> of_i64 n / of_i64 n * lit 100 = Fin 100"
  by (simp add: of_i64_Fin f64_ops lit_def)

lemma percentage_ask:
  assumes "om_combined m = asks @ bids" "side_is ''ask'' asks" "side_is ''bid'' bids" "i < length asks"
    "sum_list (List.map lv_volume asks) = n" "n \<noteq> 0"
  shows "calculateDepthPercentage i m = of_i64 (calculateCumulativeVolume i m) / of_i64 n * lit 100"
  using assms by (simp add: calculateDepthPercentage_def Let_def nth_append side_nth filter_side filter_other)

lemma percentage_bid:
  assumes "om_combined m = asks @ bids" "side_is ''ask'' asks" "side_is ''bid'' bids" "i < length bids"
    "sum_list (List.map lv_volume bids) = n" "n \<noteq> 0"
  shows "calculateDepthPercentage (length asks + i) m = of_i64 (calculateCumulativeVolume (length asks + i) m) / of_i64 n * lit 100"
  using assms by (simp add: calculateDepthPercentage_def Let_def nth_append side_nth filter_side filter_other)

text \<open>What the viewer's order book shows. With asks and bids labelled as such, the rows are the
  first asks of the last book followed by its first bids; the cumulative volume of a row is the sum of the
  volumes of its own side from the best price to that row; and the last row of a side whose volumes
  do not sum to zero shows exactly 100 per cent.\<close>

theorem order_book_depth:
  assumes "side_is ''ask'' (ob_asks b)" "side_is ''bid'' (ob_bids b)" "0 < om_maxLevels m"
    "asks = take (nat (om_maxLevels m)) (ob_asks b)" "bids = take (nat (om_maxLevels m)) (ob_bids b)"
    "m' = updateCombinedOrderBook (bs @ [b]) m"
  shows "om_combined m' = asks @ bids \<and>
    (\<forall>i < length asks. calculateCumulativeVolume i m' = sum_list (List.map lv_volume (take (Suc i) asks))) \<and>
    (\<forall>i < length bids. calculateCumulativeVolume (length asks + i) m' = sum_list (List.map lv_volume (take (Suc i) bids))) \<and>
    (let n = sum_list (List.map lv_volume asks) in n \<noteq> 0 \<longrightarrow> \<bar>n\<bar> \<le> 2 ^ 53 \<longrightarrow>
        calculateDepthPercentage (length asks - 1) m' = Fin 100) \<and>
    (let n = sum_list (List.map lv_volume bids) in n \<noteq> 0 \<longrightarrow> \<bar>n\<bar> \<le> 2 ^ 53 \<longrightarrow>
        calculateDepthPercentage (length asks + length bids - 1) m' = Fin 100)"
proof -
  have c: "om_combined m' = asks @ bids" using assms(3-6) by (simp add: updateCombinedOrderBook_def shown_take)
  have s: "side_is ''ask'' asks" "side_is ''bid'' bids" using assms(1,2,4,5) by (simp_all add: side_is_take)
  note ask = cumulative_ask [OF c s(1)] and bid = cumulative_bid [OF c s]
  have "calculateDepthPercentage (length asks - 1) m' = Fin 100"
    if "sum_list (List.map lv_volume asks) \<noteq> 0" "\<bar>sum_list (List.map lv_volume asks)\<bar> \<le> 2 ^ 53"
  proof -
    have "asks \<noteq> []" using that(1) by auto
    then have i: "length asks - 1 < length asks" "Suc (length asks - 1) = length asks" by (cases asks; simp)+
    from percentage_ask [OF c s i(1) refl that(1)] ask [OF i(1)] full_percentage [OF that] i(2) show ?thesis by simp
  qed
  moreover have "calculateDepthPercentage (length asks + length bids - 1) m' = Fin 100"
    if "sum_list (List.map lv_volume bids) \<noteq> 0" "\<bar>sum_list (List.map lv_volume bids)\<bar> \<le> 2 ^ 53"
  proof -
    have "bids \<noteq> []" using that(1) by auto
    then obtain j where j: "length bids = Suc j" by (cases bids) auto
    then have i: "j < length bids" "length asks + length bids - 1 = length asks + j" by simp_all
    from percentage_bid [OF c s i(1) refl that(1)] bid [OF i(1)] full_percentage [OF that] j show ?thesis
      unfolding i(2) by simp
  qed
  ultimately show ?thesis using c ask bid by (simp add: Let_def)
qed

definition sample_level :: "string \<Rightarrow> int \<Rightarrow> OrderBookLevel" where
  "sample_level side v = \<lparr> lv_price = lit 10, lv_volume = v, lv_orderCount = 1, lv_side = side \<rparr>"

lemma order_book_depth_witness:
  "let m' = updateCombinedOrderBook [ob_update [sample_level ''bid'' 5, sample_level ''bid'' 7] [sample_level ''ask'' 2] 0] (OrderBookModel_new [])
   in calculateCumulativeVolume 2 m' = 12 \<and> calculateDepthPercentage 2 m' = Fin 100"
proof -
  let ?b = "ob_update [sample_level ''bid'' 5, sample_level ''bid'' 7] [sample_level ''ask'' 2] 0"
  let ?m = "updateCombinedOrderBook ([] @ [?b]) (OrderBookModel_new [])"
  have "side_is ''ask'' (ob_asks ?b)" "side_is ''bid'' (ob_bids ?b)" "0 < om_maxLevels (OrderBookModel_new [])"
    "[sample_level ''ask'' 2] = take (nat (om_maxLevels (OrderBookModel_new []))) (ob_asks ?b)"
    "[sample_level ''bid'' 5, sample_level ''bid'' 7] = take (nat (om_maxLevels (OrderBookModel_new []))) (ob_bids ?b)"
    by (simp_all add: ob_update_def side_is_def sample_level_def OrderBookModel_new_def)
  note d = order_book_depth [OF this refl, of "[]"]
  have "\<forall>i < 2. calculateCumulativeVolume (1 + i) ?m = sum_list (List.map lv_volume (take (Suc i) [sample_level ''bid'' 5, sample_level ''bid'' 7]))"
    and "calculateDepthPercentage 2 ?m = Fin 100"
    using d by (simp_all add: Let_def sample_level_def numeral_2_eq_2)
  then show ?thesis by (simp add: Let_def sample_level_def numeral_2_eq_2) 
qed

section \<open>The best prices\<close>

lemma fmax_facts:
  "\<lbrakk> a \<noteq> NaN; b \<noteq> NaN \<rbrakk> \<Longrightarrow> a \<le> fmax a b \<and> b \<le> fmax a b \<and> (fmax a b = a \<or> fmax a b = b) \<and> fmax a b \<noteq> NaN"
  using double_not_less [of a b] double_less_imp_le [of a b] by (auto simp: fmax_def simp flip: less_double_def)

lemma fmin_facts:
  "\<lbrakk> a \<noteq> NaN; b \<noteq> NaN \<rbrakk> \<Longrightarrow> fmin a b \<le> a \<and> fmin a b \<le> b \<and> (fmin a b = a \<or> fmin a b = b) \<and> fmin a b \<noteq> NaN"
  using double_not_less [of b a] double_less_imp_le [of b a] by (auto simp: fmin_def simp flip: less_double_def)

lemma greatest_price:
  assumes "list_all (\<lambda>l. lv_price l \<noteq> NaN) ls" "a \<noteq> NaN" "m = foldl (\<lambda>best l. fmax best (lv_price l)) a ls"
  shows "m \<noteq> NaN \<and> a \<le> m \<and> (\<forall>l \<in> set ls. lv_price l \<le> m) \<and> (m = a \<or> m \<in> lv_price ` set ls)"
  using assms
proof (induction ls arbitrary: a)
  case (Cons l ls)
  then have f: "a \<le> fmax a (lv_price l)" "lv_price l \<le> fmax a (lv_price l)" "fmax a (lv_price l) \<noteq> NaN"
    "fmax a (lv_price l) = a \<or> fmax a (lv_price l) = lv_price l"
    using fmax_facts [of a "lv_price l"] by simp_all
  with Cons.IH [of "fmax a (lv_price l)"] Cons.prems show ?case by (auto intro: double_le_trans)
qed simp

lemma least_price:
  assumes "list_all (\<lambda>l. lv_price l \<noteq> NaN) ls" "a \<noteq> NaN" "m = foldl (\<lambda>best l. fmin best (lv_price l)) a ls"
  shows "m \<noteq> NaN \<and> m \<le> a \<and> (\<forall>l \<in> set ls. m \<le> lv_price l) \<and> (m = a \<or> m \<in> lv_price ` set ls)"
  using assms
proof (induction ls arbitrary: a)
  case (Cons l ls)
  then have f: "fmin a (lv_price l) \<le> a" "fmin a (lv_price l) \<le> lv_price l" "fmin a (lv_price l) \<noteq> NaN"
    "fmin a (lv_price l) = a \<or> fmin a (lv_price l) = lv_price l"
    using fmin_facts [of a "lv_price l"] by simp_all
  with Cons.IH [of "fmin a (lv_price l)"] Cons.prems show ?case by (auto intro: double_le_trans)
qed simp

text \<open>The best prices the viewer reports. For a book whose prices are numbers, no bid is above the best bid,
  which is one of the bids or zero, and no ask is below the best ask, which is one of the asks or the
  largest \<open>double\<close>; and the spread is their difference when both are positive. Without asks, therefore, the
  best ask is not zero but the largest \<open>double\<close>, and any positive bid gives a spread of that size.\<close>

theorem best_prices:
  assumes "list_all (\<lambda>l. lv_price l \<noteq> NaN) (bids @ asks)" "b = ob_update bids asks t"
  shows "(\<forall>l \<in> set bids. lv_price l \<le> getBestBid (bs @ [b])) \<and> getBestBid (bs @ [b]) \<in> insert 0 (lv_price ` set bids) \<and>
    (\<forall>l \<in> set asks. getBestAsk (bs @ [b]) \<le> lv_price l) \<and> getBestAsk (bs @ [b]) \<in> insert DBL_MAX (lv_price ` set asks) \<and>
    (0 < getBestBid (bs @ [b]) \<and> 0 < getBestAsk (bs @ [b]) \<longrightarrow>
       getSpread (bs @ [b]) = getBestAsk (bs @ [b]) - getBestBid (bs @ [b])) \<and>
    (asks = [] \<longrightarrow> getBestAsk (bs @ [b]) = DBL_MAX \<and>
       (0 < getBestBid (bs @ [b]) \<longrightarrow> getSpread (bs @ [b]) = DBL_MAX - getBestBid (bs @ [b])))"
proof -
  have "(0::double) \<noteq> NaN" "DBL_MAX \<noteq> NaN" by (simp_all add: zero_double_def DBL_MAX_def)
  moreover have "0 < DBL_MAX" by (simp add: DBL_MAX_def less_fin)
  ultimately show ?thesis
    using greatest_price [of bids 0, OF _ _ refl] least_price [of asks DBL_MAX, OF _ _ refl] assms
    by (auto simp: getBestBid_def getBestAsk_def getSpread_def ob_update_def)
qed

lemma best_prices_witness:
  "getSpread [ob_update [sample_level ''bid'' 5] [] 0] = DBL_MAX - lit 10"
proof -
  have "list_all (\<lambda>l. lv_price l \<noteq> NaN) ([sample_level ''bid'' 5] @ [])" by (simp add: sample_level_def lit_def)
  moreover have "getBestBid [ob_update [sample_level ''bid'' 5] [] 0] = lit 10"
    by (simp add: getBestBid_def ob_update_def sample_level_def lit_def fmax_def flt_def f64_ops)
  moreover have "(0::double) < lit 10" by (simp add: lit_def less_fin)
  ultimately show ?thesis using best_prices [of "[sample_level ''bid'' 5]" "[]" _ 0 "[]", OF _ refl] by simp
qed

end
