(* ===== verification/ViewModels.thy ===== *)
theory ViewModels
  imports GuiModels
begin

text \<open>
  The models of the viewer as it runs (src/tradeview/model/modelmgr.cpp): a model per symbol, made when
  a window first asks for it and kept; the names under which the views find the roles of a model; and
  the notices that bring the order books shown up to date (src/tradeview/guidb/resource.h). The models of
  candles and ticks hold no data of their own, they read the shared set each time.
\<close>

section \<open>Names of the roles\<close>

fun candle_role_name :: "CandleRole \<Rightarrow> string" where
  "candle_role_name kStartTimeRole = ''start_time''"
| "candle_role_name kEndTimeRole = ''end_time''"
| "candle_role_name kOpenRole = ''open''"
| "candle_role_name kHighRole = ''high''"
| "candle_role_name kLowRole = ''low''"
| "candle_role_name kCloseRole = ''close''"
| "candle_role_name kVolumeRole = ''volume''"
| "candle_role_name kAmountRole = ''amount''"
| "candle_role_name kIsUpRole = ''isUp''"
| "candle_role_name kIsDownRole = ''isDown''"
| "candle_role_name kBodyHeightRole = ''bodyHeight''"
| "candle_role_name kUpperShadowRole = ''upperShadow''"
| "candle_role_name kLowerShadowRole = ''lowerShadow''"

fun level_role_name :: "LevelRole \<Rightarrow> string" where
  "level_role_name PriceRole = ''price''"
| "level_role_name VolumeRole = ''volume''"
| "level_role_name OrderCountRole = ''orderCount''"
| "level_role_name SideRole = ''side''"
| "level_role_name IsBidRole = ''isBid''"
| "level_role_name IsAskRole = ''isAsk''"
| "level_role_name CumulativeVolumeRole = ''cumulativeVolume''"
| "level_role_name DepthPercentageRole = ''depthPercentage''"

fun tick_role_name :: "TickRole \<Rightarrow> string" where
  "tick_role_name TimestampRole = ''timestamp''"
| "tick_role_name TickPriceRole = ''price''"
| "tick_role_name TickVolumeRole = ''volume''"
| "tick_role_name DirectionRole = ''direction''"
| "tick_role_name TradeIdRole = ''tradeId''"
| "tick_role_name SymbolRole = ''symbol''"
| "tick_role_name IsBuyRole = ''isBuy''"
| "tick_role_name IsSellRole = ''isSell''"
| "tick_role_name AmountRole = ''amount''"

text \<open>A view that binds a name reads one role.\<close>

lemma role_names_distinct:
  "inj candle_role_name" "inj level_role_name" "inj tick_role_name"
proof -
  have "candle_role_name a = candle_role_name b \<Longrightarrow> a = b" for a b by (cases a; cases b) simp_all
  moreover have "level_role_name a = level_role_name b \<Longrightarrow> a = b" for a b by (cases a; cases b) simp_all
  moreover have "tick_role_name a = tick_role_name b \<Longrightarrow> a = b" for a b by (cases a; cases b) simp_all
  ultimately show "inj candle_role_name" "inj level_role_name" "inj tick_role_name" by (auto intro: injI)
qed

section \<open>The getters of the models\<close>

definition cm_timeframe :: "KLineSet option \<Rightarrow> string" where
  "cm_timeframe ds = (case ds of None \<Rightarrow> [] | Some s \<Rightarrow> ks_timeframe s)"

definition cm_count :: "KLineSet option \<Rightarrow> nat" where
  "cm_count ds = (case ds of None \<Rightarrow> 0 | Some s \<Rightarrow> length (ks_klines s))"

definition getOrderBook :: "OrderBookModel \<Rightarrow> OrderBookLevel list" where
  "getOrderBook m = om_combined m"

definition tm_count :: "TickTradeBook option \<Rightarrow> TickTradeModel \<Rightarrow> int" where
  "tm_count b m = (case b of None \<Rightarrow> 0 | Some b \<Rightarrow> min (tm_max_count m) (int (length (tb_ticks b))))"

definition tm_latestPrice :: "TickTradeBook option \<Rightarrow> double" where
  "tm_latestPrice b = (case b of None \<Rightarrow> 0 | Some b \<Rightarrow> tb_latestPrice b)"

definition tm_totalVolume :: "TickTradeBook option \<Rightarrow> int" where
  "tm_totalVolume b = (case b of None \<Rightarrow> 0 | Some b \<Rightarrow> tb_totalVolume b)"

section \<open>The models by symbol\<close>

record Viewer =
  vw_data :: DataManager
  vw_candlestick_models :: "string list" \<comment> \<open>the symbols that have one\<close>
  vw_orderbook_models :: "(string, OrderBookModel) omap"
  vw_ticktrade_models :: "(string, TickTradeModel) omap"

definition Viewer_new :: "Database \<Rightarrow> Viewer" where
  "Viewer_new db = \<lparr> vw_data = DataManager_new db, vw_candlestick_models = [], vw_orderbook_models = [],
     vw_ticktrade_models = [] \<rparr>"

definition with_database :: "Database \<Rightarrow> Viewer \<Rightarrow> Viewer" where
  "with_database db v = v\<lparr> vw_data := (vw_data v)\<lparr> dm_database := db \<rparr> \<rparr>"

text \<open>No model for an empty symbol; the answer is the symbol of the model.\<close>

definition reqCandlestickModel :: "string \<Rightarrow> Viewer \<Rightarrow> string option \<times> Viewer" where
  "reqCandlestickModel symbol v =
     (if symbol = [] then (None, v)
      else if symbol \<in> set (vw_candlestick_models v) then (Some symbol, v)
      else (Some symbol, (with_database (snd (reqKlineDB symbol (dm_database (vw_data v)))) v)
              \<lparr> vw_candlestick_models := symbol # vw_candlestick_models v \<rparr>))"

definition reqOrderBookModel :: "string \<Rightarrow> Viewer \<Rightarrow> string option \<times> Viewer" where
  "reqOrderBookModel symbol v =
     (if symbol = [] then (None, v)
      else if omap_find (vw_orderbook_models v) symbol \<noteq> None then (Some symbol, v)
      else let (bs, db) = reqOrderBookSet symbol (dm_database (vw_data v))
           in (Some symbol, (with_database db v)
                \<lparr> vw_orderbook_models := omap_set symbol (OrderBookModel_new bs) (vw_orderbook_models v) \<rparr>))"

definition reqTickTradeModel :: "string \<Rightarrow> Viewer \<Rightarrow> string option \<times> Viewer" where
  "reqTickTradeModel symbol v =
     (if symbol = [] then (None, v)
      else if omap_find (vw_ticktrade_models v) symbol \<noteq> None then (Some symbol, v)
      else (Some symbol, (with_database (snd (reqTickTradeBook symbol (dm_database (vw_data v)))) v)
              \<lparr> vw_ticktrade_models := omap_set symbol \<lparr> tm_max_count = 1000 \<rparr> (vw_ticktrade_models v) \<rparr>))"

section \<open>Notices\<close>

definition books_of :: "string \<Rightarrow> DataManager \<Rightarrow> OrderBookSet" where
  "books_of symbol dm = omap_slot [] (db_orderbooksets (dm_database dm)) symbol"

text \<open>\<open>notify_all\<close> of a set of order books: its model, if there is one, combines the last book anew.\<close>

definition notify_books :: "string \<Rightarrow> Viewer \<Rightarrow> Viewer" where
  "notify_books symbol v = v\<lparr> vw_orderbook_models :=
     omap_adjust symbol (updateCombinedOrderBook (books_of symbol (vw_data v))) (vw_orderbook_models v) \<rparr>"

definition set_model_levels :: "string \<Rightarrow> int \<Rightarrow> Viewer \<Rightarrow> Viewer" where
  "set_model_levels symbol levels v = v\<lparr> vw_orderbook_models :=
     omap_adjust symbol (setMaxLevels levels (books_of symbol (vw_data v))) (vw_orderbook_models v) \<rparr>"

text \<open>One round of the simulation, symbol by symbol, with the notice each new book sends.\<close>

fun simulate_shown :: "(string \<times> Draws) list \<Rightarrow> Viewer \<Rightarrow> Viewer" where
  "simulate_shown [] v = v"
| "simulate_shown ((symbol, d) # rest) v =
     (let dm = generateSimulatedOrderBookData symbol d
                 (generateSimulatedTickTradeData symbol d (generateSimulatedCandlestickData symbol d (vw_data v)));
          v = notify_books symbol (v\<lparr> vw_data := dm \<rparr>);
          dm = (vw_data v)\<lparr> dm_lastUpdateTime := omap_set symbol (dr_update_now d) (dm_lastUpdateTime (vw_data v)) \<rparr>
      in simulate_shown rest (v\<lparr> vw_data := dm \<rparr>))"

inductive vw_step :: "Viewer \<Rightarrow> Viewer \<Rightarrow> bool" where
  candles: "vw_step v (snd (reqCandlestickModel symbol v))"
| books: "vw_step v (snd (reqOrderBookModel symbol v))"
| ticks: "vw_step v (snd (reqTickTradeModel symbol v))"
| levels: "vw_step v (set_model_levels symbol n v)"
| bars: "on_incomming_message unit evs (dm_database (vw_data v)) = Some db \<Longrightarrow> vw_step v (with_database db v)"
| simulate: "vw_step v (simulate_shown (List.map (\<lambda>symbol. (symbol, draws symbol)) (dm_subscribedSymbols (vw_data v))) v)"
| subscribe: "vw_step v (v\<lparr> vw_data := snd (subscribeSymbol draw now symbol (vw_data v)) \<rparr>)"
| unsubscribe: "vw_step v (v\<lparr> vw_data := unsubscribeSymbol symbol (vw_data v) \<rparr>)"
| connect: "vw_step v (v\<lparr> vw_data := snd (connectDataSource source (vw_data v)) \<rparr>)"
| disconnect: "vw_step v (v\<lparr> vw_data := disconnectDataSource (vw_data v) \<rparr>)"
| timeout: "vw_step v (v\<lparr> vw_data := onConnectionTimeout (vw_data v) \<rparr>)"

inductive vw_run :: "Viewer \<Rightarrow> Viewer \<Rightarrow> bool" where
  start: "vw_run v v"
| more: "vw_run v v' \<Longrightarrow> vw_step v' v'' \<Longrightarrow> vw_run v v''"

section \<open>The order books shown are the last ones\<close>

text \<open>The sets of order books are only changed where they are made and where books are simulated.\<close>

lemma books_req [simp]:
  "db_orderbooksets (snd (reqKlineDB k db)) = db_orderbooksets db"
  "db_orderbooksets (snd (reqTickTradeBook k db)) = db_orderbooksets db"
  by (simp_all add: reqKlineDB_def reqTickTradeBook_def split: option.splits)

lemma books_of_req: "omap_slot [] (db_orderbooksets (snd (reqOrderBookSet k db))) k' = omap_slot [] (db_orderbooksets db) k'"
  and books_req_fst: "fst (reqOrderBookSet k db) = omap_slot [] (db_orderbooksets db) k"
  by (simp_all add: reqOrderBookSet_def omap_slot_def split: option.splits)

lemma books_of_bars: "on_incomming_message unit evs db = Some db' \<Longrightarrow> db_orderbooksets db' = db_orderbooksets db"
proof (induction unit evs db rule: on_incomming_message.induct)
  case (2 unit bar evs db)
  then show ?case
    by (auto simp: on_incomming_bar_def Let_def split: prod.splits option.splits if_splits)
       (metis books_req(1) snd_conv)
qed auto

lemma books_of_simulated [simp]:
  "books_of k (generateSimulatedCandlestickData symbol d dm) = books_of k dm"
  "books_of k (generateSimulatedTickTradeData symbol d dm) = books_of k dm"
  by (simp_all add: books_of_def generateSimulatedCandlestickData_def generateSimulatedTickTradeData_def Let_def
      split_beta)

lemma books_of_other: "k \<noteq> symbol \<Longrightarrow> books_of k (generateSimulatedOrderBookData symbol d dm) = books_of k dm"
  by (simp add: books_of_def generateSimulatedOrderBookData_def Let_def split_beta omap_slot_def)
     (metis books_of_req omap_slot_def)

lemma books_of_operations [simp]:
  "books_of k (snd (subscribeSymbol draw now symbol dm)) = books_of k dm"
  "books_of k (unsubscribeSymbol symbol dm) = books_of k dm"
  "books_of k (snd (connectDataSource source dm)) = books_of k dm"
  "books_of k (disconnectDataSource dm) = books_of k dm"
  "books_of k (onConnectionTimeout dm) = books_of k dm"
  "books_of k (dm\<lparr> dm_lastUpdateTime := u \<rparr>) = books_of k dm"
  by (simp_all add: books_of_def subscribeSymbol_def unsubscribeSymbol_def connectDataSource_def
      disconnectDataSource_def onConnectionTimeout_def updateConnectionStatus_def Let_def)

definition up_to_date :: "OrderBookSet \<Rightarrow> OrderBookModel \<Rightarrow> bool" where
  "up_to_date bs m \<longleftrightarrow> om_combined m = om_combined (updateCombinedOrderBook bs m)"

lemma update_up_to_date [simp]: "up_to_date bs (updateCombinedOrderBook bs m)"
  by (simp add: up_to_date_def updateCombinedOrderBook_def)

lemma new_up_to_date [simp]: "up_to_date bs (OrderBookModel_new bs)"
  by (simp add: up_to_date_def OrderBookModel_new_def Let_def updateCombinedOrderBook_def)

lemma setMaxLevels_up_to_date: "up_to_date bs m \<Longrightarrow> up_to_date bs (setMaxLevels n bs m)"
  by (simp add: setMaxLevels_def)

definition views_fresh :: "Viewer \<Rightarrow> bool" where
  "views_fresh v \<longleftrightarrow>
     (\<forall>symbol m. omap_find (vw_orderbook_models v) symbol = Some m \<longrightarrow> up_to_date (books_of symbol (vw_data v)) m)"

lemma views_fresh_data:
  "views_fresh v \<Longrightarrow> (\<And>k. books_of k dm = books_of k (vw_data v)) \<Longrightarrow> views_fresh (v\<lparr> vw_data := dm \<rparr>)"
  by (simp add: views_fresh_def)

lemma views_fresh_notify:
  assumes "views_fresh v" "\<And>k. k \<noteq> symbol \<Longrightarrow> books_of k dm = books_of k (vw_data v)"
  shows "views_fresh (notify_books symbol (v\<lparr> vw_data := dm \<rparr>))"
  using assms by (auto simp: views_fresh_def notify_books_def)

lemma views_fresh_simulate: "views_fresh v \<Longrightarrow> views_fresh (simulate_shown ds v)"
proof (induction ds v rule: simulate_shown.induct)
  case (2 symbol d rest v)
  then show ?case
    by (simp add: Let_def) (intro 2(1) views_fresh_data views_fresh_notify refl; simp add: books_of_other)
qed simp

lemma views_fresh_step: "vw_step v v' \<Longrightarrow> views_fresh v \<Longrightarrow> views_fresh v'"
proof (induction rule: vw_step.induct)
  case (candles v symbol)
  then show ?case
    by (auto simp: reqCandlestickModel_def views_fresh_def with_database_def books_of_def)
next
  case (books v symbol)
  then show ?case
    by (auto simp: reqOrderBookModel_def views_fresh_def with_database_def books_of_def split_beta Let_def
        books_of_req books_req_fst)
next
  case (ticks v symbol)
  then show ?case
    by (auto simp: reqTickTradeModel_def views_fresh_def with_database_def books_of_def)
next
  case (levels v symbol n)
  then show ?case
    by (auto simp: views_fresh_def set_model_levels_def setMaxLevels_up_to_date)
next
  case (bars unit evs v db)
  then show ?case
    by (simp add: views_fresh_def with_database_def books_of_def books_of_bars)
qed (simp_all add: views_fresh_simulate views_fresh_data)

lemma views_fresh_run: "vw_run v v' \<Longrightarrow> views_fresh v \<Longrightarrow> views_fresh v'"
  by (induction rule: vw_run.induct) (auto intro: views_fresh_step)

lemma views_fresh_new: "views_fresh (Viewer_new db)"
  by (simp add: views_fresh_def Viewer_new_def)

text \<open>C40: Whatever happened in the viewer since it started (models were asked for, the number of levels
  was changed, bars came in, symbols were subscribed and dropped, prices were simulated), the model of a
  symbol shows the levels of the last order book of its set, the asks before the bids and each side in the
  order the book has it, not sorted by price. Each side is cut to the model's number of levels when that is
  positive, so up to twice as many are shown; when it is not positive, nothing is cut. Nothing is shown
  when there is no book.\<close>

theorem views_show_last_book:
  assumes "vw_run (Viewer_new db) v" "omap_find (vw_orderbook_models v) symbol = Some m"
  shows "getOrderBook m =
     (case rev (books_of symbol (vw_data v)) of
        [] \<Rightarrow> []
      | b # _ \<Rightarrow> shown (om_maxLevels m) (ob_asks b) @ shown (om_maxLevels m) (ob_bids b))"
proof -
  have "up_to_date (books_of symbol (vw_data v)) m"
    using views_fresh_run [OF assms(1) views_fresh_new] assms(2) by (simp add: views_fresh_def)
  then show ?thesis
    by (auto simp: getOrderBook_def up_to_date_def updateCombinedOrderBook_def last_rev hd_rev split: list.splits)
qed

definition sample_draws :: Draws where
  "sample_draws =
     \<lparr> dr_change = 101, dr_high = 1, dr_low = 1, dr_kline_volume = 5, dr_kline_now = 0, dr_tick = 100, dr_tick_volume = 3,
       dr_is_buy = True, dr_tick_now = 0, dr_tick_id_now = 0, dr_bids = [(1, 1), (2, 2)], dr_asks = [(3, 3)],
       dr_book_now = 0, dr_update_now = 0 \<rparr>"

definition sample_prepared :: Viewer where
  "sample_prepared =
     (let v = snd (reqOrderBookModel ''X'' (Viewer_new Database_new))
      in set_model_levels ''X'' 1 (v\<lparr> vw_data := snd (subscribeSymbol 0 0 ''X'' (vw_data v)) \<rparr>))"

definition sample_viewer :: Viewer where
  "sample_viewer = simulate_shown [(''X'', sample_draws)] sample_prepared"

lemmas sample_prepared_simps = sample_prepared_def Let_def set_model_levels_def reqOrderBookModel_def split_beta
  reqOrderBookSet_def with_database_def setMaxLevels_def OrderBookModel_new_def updateCombinedOrderBook_def
  Viewer_new_def books_of_def subscribeSymbol_def DataManager_new_def Database_new_def omap_slot_def omap_adjust_def

lemma sample_prepared_model:
  "omap_find (vw_orderbook_models sample_prepared) ''X'' = Some \<lparr> om_maxLevels = 1, om_combined = [] \<rparr>"
  by (simp add: sample_prepared_simps)

lemma sample_run: "vw_run (Viewer_new Database_new) sample_viewer"
proof -
  have "vw_run (Viewer_new Database_new) sample_prepared"
    unfolding sample_prepared_def Let_def
    by (intro vw_run.more [OF _ vw_step.levels] vw_run.more [OF _ vw_step.subscribe] vw_run.more [OF _ vw_step.books]
        vw_run.start)
  moreover have "dm_subscribedSymbols (vw_data sample_prepared) = [''X'']"
    by (simp add: sample_prepared_simps)
  then have "vw_step sample_prepared sample_viewer"
    using vw_step.simulate [of sample_prepared "\<lambda>_. sample_draws"] by (simp only: sample_viewer_def list.map)
  ultimately show ?thesis by (rule vw_run.more)
qed

lemma simulated_book_last:
  "\<exists>bs. books_of symbol (generateSimulatedOrderBookData symbol d dm) =
     bs @ [ob_update (simulated_levels ''bid'' (-) (base_price symbol dm) (dr_bids d))
             (simulated_levels ''ask'' (+) (base_price symbol dm) (dr_asks d)) (dr_book_now d)]"
  by (simp add: books_of_def generateSimulatedOrderBookData_def Let_def split_beta omap_slot_def obs_add_def
      obs_pop_front_def tl_append split: list.splits)

lemma simulated_model:
  assumes "omap_find (vw_orderbook_models v) symbol = Some m"
  shows "\<exists>m' b bs. omap_find (vw_orderbook_models (simulate_shown [(symbol, d)] v)) symbol = Some m' \<and>
     om_maxLevels m' = om_maxLevels m \<and> rev (books_of symbol (vw_data (simulate_shown [(symbol, d)] v))) = b # bs \<and>
     length (ob_bids b) = length (dr_bids d) \<and> length (ob_asks b) = length (dr_asks d)"
  using assms simulated_book_last
    [of symbol d "generateSimulatedTickTradeData symbol d (generateSimulatedCandlestickData symbol d (vw_data v))"]
  by (auto simp: notify_books_def Let_def updateCombinedOrderBook_def ob_update_def simulated_levels_def)
     (metis rev_rev_ident)

theorem views_show_last_book_witness:
  "\<exists>m. omap_find (vw_orderbook_models sample_viewer) ''X'' = Some m \<and> length (getOrderBook m) = 2"
proof -
  obtain m b bs where m: "omap_find (vw_orderbook_models sample_viewer) ''X'' = Some m" "om_maxLevels m = 1"
      "rev (books_of ''X'' (vw_data sample_viewer)) = b # bs" "length (ob_bids b) = 2" "length (ob_asks b) = 1"
    using simulated_model [OF sample_prepared_model, of sample_draws] unfolding sample_viewer_def [symmetric]
    by (auto simp: sample_draws_def)
  then show ?thesis
    using views_show_last_book [OF sample_run m(1)] by (simp add: shown_def)
qed

end
