(* ===== verification/Config.thy ===== *)
theory Config
  imports Json Executor Book "HOL-Library.Multiset" "HOL-Library.List_Lexorder" "HOL-Library.Char_ord"
begin

text \<open>
  The configuration of a system and the journals it makes (src/core/main_cfg.cpp, the ids of
  src/core/journal/jid.h and jlocation.h, extension/globalparams.h), and the event file descriptors by which
  processes wake each other: the master names them in a text (main/mentor_run.cpp), each process reads
  the text back (core/fds_map.cpp, fds_map_fixing.cpp) and observes those of the journals it reads
  (core/observe_helper.cpp).

  \<open>absolute\<close> is \<open>std::filesystem::absolute\<close>. A missing entry of an object that is not constant is made a
  null, from which nothing can be read, so that the exceptions of a configuration are \<open>Raised\<close>.
\<close>

section \<open>Reading a configuration\<close>

text \<open>\<open>operator[]\<close> on a value that may be changed: a missing entry, like one of a null, is a null.\<close>

fun j_get :: "json \<Rightarrow> string \<Rightarrow> json outcome" where
  "j_get (J_obj es) k = (case map_of es k of None \<Rightarrow> Value J_null | Some v \<Rightarrow> Value v)"
| "j_get J_null k = Value J_null"
| "j_get _ k = Raised"

fun j_double :: "json \<Rightarrow> double outcome" where
  "j_double (J_float x) = Value x"
| "j_double (J_int n) = Value (of_i64 n)"
| "j_double _ = Raised"

fun j_uint32 :: "json \<Rightarrow> u32 outcome" where
  "j_uint32 (J_bool b) = Value (of_bool b)"
| "j_uint32 (J_int n) = Value (of_int n)"
| "j_uint32 (J_float x) = Value (of_int (i64_of x))"
| "j_uint32 _ = Raised"

datatype StatsMode = Stats_None | Stats_All

definition str2mode :: "string \<Rightarrow> StatsMode" where
  "str2mode s = (if s = ''all'' then Stats_All else Stats_None)"

definition stats_active :: "StatsMode \<Rightarrow> bool" where
  "stats_active m \<longleftrightarrow> m \<noteq> Stats_None"

record GlobalParams =
  gp_root_dir :: string
  gp_stats_mode :: StatsMode
  gp_is_simulation :: bool
  gp_is_backtest :: bool

definition GlobalParams_new :: GlobalParams where
  "GlobalParams_new = \<lparr> gp_root_dir = [], gp_stats_mode = Stats_None, gp_is_simulation = False, gp_is_backtest = False \<rparr>"

record MainCfg =
  mc_run_mode :: RunMode
  mc_root :: string
  mc_md_dests :: "u32 list"
  mc_md_institutions :: "string list"
  mc_td_dests :: "u32 list"
  mc_td_institutions :: "string list"
  mc_initial_book :: Book
  mc_fds_file :: string
  mc_page_rollback_size :: u32
  mc_time_unit :: TimeUnit

text \<open>The loop over the accounts: the destination and the institution of each.\<close>

fun read_accounts :: "json list \<Rightarrow> (u32 \<times> string) list outcome" where
  "read_accounts [] = Value []"
| "read_accounts (elm # rest) =
     then_do (then_do (j_get elm ''institution'') j_string) (\<lambda>institution.
     then_do (then_do (j_get elm ''account'') j_string) (\<lambda>account.
     then_do (read_accounts rest) (\<lambda>accounts.
       Value ((jid_build institution account, institution) # accounts))))"

text \<open>An entry of \<open>system\<close> that need not be there.\<close>

definition j_optional :: "json \<Rightarrow> string \<Rightarrow> (json \<Rightarrow> 'a outcome) \<Rightarrow> 'a \<Rightarrow> 'a outcome" where
  "j_optional system k conv dflt = (if j_contains system k then then_do (j_get system k) conv else Value dflt)"

definition time_unit_of :: "string \<Rightarrow> TimeUnit" where
  "time_unit_of unitstr = (if unitstr = ''sec'' then SEC else if unitstr = ''nano'' then NANO else MILLI)"

definition read_fds_file :: "(string \<Rightarrow> string) \<Rightarrow> RunMode \<Rightarrow> json \<Rightarrow> string outcome" where
  "read_fds_file absolute mode cfg =
     (if mode = Mode_USER_APP
      then then_do (then_do (then_do (j_get cfg ''user-app'') (\<lambda>j. j_get j ''fds_file'')) j_string) (\<lambda>file.
             Value (absolute file))
      else Value [])"

text \<open>What the process keeps besides, for all its parts.\<close>

definition read_globals :: "string \<Rightarrow> json \<Rightarrow> GlobalParams \<Rightarrow> GlobalParams outcome" where
  "read_globals root_path system gp =
     then_do (j_optional system ''statistics'' (\<lambda>j. then_do (then_do (j_get j ''mode'') j_string) (\<lambda>s. Value (str2mode s)))
        (gp_stats_mode gp)) (\<lambda>stats.
     then_do (j_optional system ''simulation'' j_bool (gp_is_simulation gp)) (\<lambda>simulation.
     then_do (j_optional system ''backtest'' j_bool (gp_is_backtest gp)) (\<lambda>backtest.
       Value (gp\<lparr> gp_root_dir := root_path, gp_stats_mode := stats, gp_is_simulation := simulation, gp_is_backtest := backtest \<rparr>))))"

definition MainCfg_of :: "(string \<Rightarrow> string) \<Rightarrow> json \<Rightarrow> GlobalParams \<Rightarrow> (MainCfg \<times> GlobalParams) outcome" where
  "MainCfg_of absolute cfg gp =
     then_do (j_get cfg ''system'') (\<lambda>system.
     then_do (then_do (j_get system ''mode'') j_string) (\<lambda>mode_name.
     then_do (then_do (j_get system ''output_root_path'') j_string) (\<lambda>root_path.
     then_do (then_do (j_get cfg ''md'') (\<lambda>j. read_accounts (j_items j))) (\<lambda>md.
     then_do (then_do (j_get cfg ''td'') (\<lambda>j. read_accounts (j_items j))) (\<lambda>td.
     then_do (j_optional system ''initial_book'' (\<lambda>j. then_do (j_get j ''asset'') j_double) (as_avail Asset_zero)) (\<lambda>avail.
     then_do (read_fds_file absolute (get_mode_by_name mode_name) cfg) (\<lambda>fds_file.
     then_do (then_do (j_get system ''page_rollback_size'') j_uint32) (\<lambda>page_rollback_size.
     then_do (j_optional system ''time_unit'' (\<lambda>j. then_do (j_string j) (\<lambda>s. Value (time_unit_of s))) MILLI) (\<lambda>unit.
     then_do (read_globals (absolute root_path) system gp) (\<lambda>gp.
       Value (\<lparr> mc_run_mode = get_mode_by_name mode_name, mc_root = absolute root_path,
                mc_md_dests = List.map fst md, mc_md_institutions = List.map snd md,
                mc_td_dests = List.map fst td, mc_td_institutions = List.map snd td,
                mc_initial_book = Book_empty\<lparr> bk_asset := Asset_zero\<lparr> as_avail := avail \<rparr> \<rparr>,
                mc_fds_file = fds_file, mc_page_rollback_size = page_rollback_size, mc_time_unit = unit \<rparr>, gp)))))))))))"

section \<open>The journals of a system\<close>

datatype JFlag = MD_REQ | MD_RESPONSE | TD_REQ | TD_RESPONSE

fun flag_code :: "JFlag \<Rightarrow> u8" where
  "flag_code MD_REQ = 0" | "flag_code MD_RESPONSE = 1" | "flag_code TD_REQ = 2" | "flag_code TD_RESPONSE = 3"

definition jid_flag :: "JFlag \<Rightarrow> u32" where
  "jid_flag f = hash_32 [flag_code f] HASH_SEED"

definition location_uname :: "RunMode \<Rightarrow> Module \<Rightarrow> string \<Rightarrow> string \<Rightarrow> string" where
  "location_uname m c g n = get_module_name c @ ''/'' @ g @ ''/'' @ n @ ''/'' @ get_mode_name m"

definition location_uid :: "RunMode \<Rightarrow> Module \<Rightarrow> string \<Rightarrow> string \<Rightarrow> u32" where
  "location_uid m c g n = hash_str_32 (location_uname m c g n)"

definition md_location_uid :: "MainCfg \<Rightarrow> u32" where
  "md_location_uid cfg = location_uid (mc_run_mode cfg) Module_MD [] []"

definition td_location_uid :: "MainCfg \<Rightarrow> u32" where
  "td_location_uid cfg = location_uid (mc_run_mode cfg) Module_TD [] []"

text \<open>\<open>md_req_location\<close> and \<open>td_reponse_location\<close> are the same location.\<close>

definition strategy_location_uid :: "MainCfg \<Rightarrow> u32" where
  "strategy_location_uid cfg = location_uid (mc_run_mode cfg) Module_STRATEGY [] []"

type_synonym journal_id = "u32 \<times> u32" \<comment> \<open>location and destination\<close>

definition journal_name :: "journal_id \<Rightarrow> string" where
  "journal_name = (\<lambda>(uid, dest). to_string (unat uid) @ ''_'' @ to_string (unat dest))"

definition get_journals :: "MainCfg \<Rightarrow> journal_id list" where
  "get_journals cfg =
     List.map (Pair (md_location_uid cfg)) (mc_md_dests cfg) @
     [(strategy_location_uid cfg, jid_flag MD_REQ), (strategy_location_uid cfg, jid_flag MD_RESPONSE)] @
     List.map (Pair (td_location_uid cfg)) (mc_td_dests cfg) @
     [(strategy_location_uid cfg, jid_flag TD_RESPONSE), (strategy_location_uid cfg, jid_flag TD_REQ)]"

definition get_journal_names :: "MainCfg \<Rightarrow> string list" where
  "get_journal_names cfg = List.map journal_name (get_journals cfg)"

section \<open>Who reads and who writes which\<close>

record Wiring =
  wr_reads :: "journal_id list"
  wr_writes :: "journal_id list"

text \<open>The journals joined and the writers made by \<open>on_setup\<close> of the engines.\<close>

definition md_wiring :: "MainCfg \<Rightarrow> Wiring" where
  "md_wiring cfg =
     \<lparr> wr_reads = [(strategy_location_uid cfg, jid_flag MD_REQ)],
       wr_writes = (strategy_location_uid cfg, jid_flag MD_RESPONSE) # List.map (Pair (md_location_uid cfg)) (mc_md_dests cfg) \<rparr>"

definition td_wiring :: "MainCfg \<Rightarrow> Wiring" where
  "td_wiring cfg =
     \<lparr> wr_reads = (strategy_location_uid cfg, jid_flag TD_REQ) # List.map (Pair (td_location_uid cfg)) (mc_td_dests cfg),
       wr_writes = [(strategy_location_uid cfg, jid_flag TD_RESPONSE)] \<rparr>"

definition cp_wiring :: "MainCfg \<Rightarrow> Wiring" where
  "cp_wiring cfg =
     \<lparr> wr_reads = List.map (Pair (md_location_uid cfg)) (mc_md_dests cfg) @
         [(strategy_location_uid cfg, jid_flag TD_RESPONSE), (strategy_location_uid cfg, jid_flag MD_RESPONSE)],
       wr_writes = List.map (Pair (td_location_uid cfg)) (mc_td_dests cfg) @
         [(strategy_location_uid cfg, jid_flag MD_REQ), (strategy_location_uid cfg, jid_flag TD_REQ)] \<rparr>"

text \<open>The process of a user, which joins in through \<open>JourCommData::init\<close>.\<close>

definition user_wiring :: "MainCfg \<Rightarrow> Wiring" where
  "user_wiring cfg =
     \<lparr> wr_reads = List.map (Pair (md_location_uid cfg)) (mc_md_dests cfg) @
         [(strategy_location_uid cfg, jid_flag TD_RESPONSE)],
       wr_writes = List.map (Pair (td_location_uid cfg)) (mc_td_dests cfg) @
         [(strategy_location_uid cfg, jid_flag MD_REQ)] \<rparr>"

section \<open>The event file descriptors\<close>

text \<open>The text the master makes of the names and descriptors, each followed by a colon but the last.\<close>

fun fds_text :: "(string \<times> int) list \<Rightarrow> string" where
  "fds_text [] = []"
| "fds_text [(n, fd)] = n @ '':'' @ string_of_int fd"
| "fds_text ((n, fd) # rest) = n @ '':'' @ string_of_int fd @ '':'' @ fds_text rest"

text \<open>\<open>split\<close>: the piece after the last separator only when it is not empty.\<close>

function split_at_char :: "char \<Rightarrow> string \<Rightarrow> string list" where
  "split_at_char deli s =
     (if deli \<in> set s
      then takeWhile (\<lambda>c. c \<noteq> deli) s # split_at_char deli (tl (dropWhile (\<lambda>c. c \<noteq> deli) s))
      else if s = [] then [] else [s])"
  by pat_completeness auto

termination
proof (relation "measure (\<lambda>(_, s). length s)")
  fix deli :: char and s assume "deli \<in> set s"
  then have "dropWhile (\<lambda>c. c \<noteq> deli) s \<noteq> []" by (auto simp: dropWhile_eq_Nil_conv)
  moreover have "length (dropWhile (\<lambda>c. c \<noteq> deli) s) \<le> length s" by (rule length_dropWhile_le)
  ultimately show "((deli, tl (dropWhile (\<lambda>c. c \<noteq> deli) s)), deli, s) \<in> measure (\<lambda>(_, s). length s)"
    by (cases "dropWhile (\<lambda>c. c \<noteq> deli) s") auto
qed simp

declare split_at_char.simps [simp del]

definition stoi :: "string \<Rightarrow> int option" where
  "stoi s = (case stol s of Some n \<Rightarrow> if - (2 ^ 31) \<le> n \<and> n < 2 ^ 31 then Some n else None | None \<Rightarrow> None)"

type_synonym FdsMap = "(string, int) omap"

text \<open>
  The loop over the pieces, two at a time while \<open>i < size - 1\<close>. Without any piece the bound wraps around
  and the first access is outside the vector.
\<close>

fun fds_pairs :: "string list \<Rightarrow> FdsMap \<Rightarrow> FdsMap outcome" where
  "fds_pairs (n # v # rest) m = (case stoi v of None \<Rightarrow> Raised | Some fd \<Rightarrow> fds_pairs rest (omap_set n fd m))"
| "fds_pairs _ m = Value m"

definition fds_of_pieces :: "string list \<Rightarrow> FdsMap outcome" where
  "fds_of_pieces pieces = (if pieces = [] then Undefined else fds_pairs pieces [])"

definition fds_of_env :: "string \<Rightarrow> FdsMap outcome" where
  "fds_of_env fds_data = fds_of_pieces (split_at_char CHR '':'' fds_data)"

text \<open>\<open>fix_fds\<close>: the descriptors of another process are replaced by those received, in their order; \<open>-1\<close> is
  a failure.\<close>

fun fix_fds :: "string list \<Rightarrow> int list \<Rightarrow> string list outcome" where
  "fix_fds (n # v # rest) (fd # received) =
     (if fd = -1 then Raised
      else then_do (fix_fds rest received) (\<lambda>rest. Value (n # string_of_int fd # rest)))"
| "fix_fds (n # v # rest) [] = Raised"
| "fix_fds pieces _ = Value pieces"

definition fds_of_file :: "string \<Rightarrow> int list \<Rightarrow> FdsMap outcome" where
  "fds_of_file fds_data received =
     then_do (fix_fds (split_at_char CHR '':'' fds_data) received) fds_of_pieces"

text \<open>\<open>add_customer\<close>: the descriptors a process waits on; a writer posts on that of its journal.\<close>

definition observed :: "FdsMap \<Rightarrow> journal_id list \<Rightarrow> int list" where
  "observed m js = List.map_filter (\<lambda>j. omap_find m (journal_name j)) js"

definition posted :: "FdsMap \<Rightarrow> journal_id \<Rightarrow> int option" where
  "posted m j = omap_find m (journal_name j)"


section \<open>Names and descriptors survive the text\<close>

lemma string_of_int_nonneg: "0 \<le> n \<Longrightarrow> string_of_int n = to_string (nat n)"
  by (simp add: string_of_int_def)

lemma digits_not_in: "\<not> is_digit c \<Longrightarrow> c \<notin> set (to_string n)"
  using to_string_all_digits [of n] by (auto simp: list_all_iff)

lemma not_digits [simp]: "\<not> is_digit CHR '':''" "\<not> is_digit CHR ''_''"
  by (simp_all add: is_digit_def)

lemma stoi_printed: "\<lbrakk> 0 \<le> n; n < 2 ^ 31 \<rbrakk> \<Longrightarrow> stoi (string_of_int n) = Some n"
  using read_plain [of "to_string (nat n)" "[]"] read_digits_append [of "to_string (nat n)" "[]"]
  by (simp add: stoi_def stol_def string_of_int_nonneg to_string_all_digits)

lemma split_at_first: "deli \<notin> set p \<Longrightarrow> split_at_char deli (p @ deli # rest) = p # split_at_char deli rest"
  by (subst split_at_char.simps) (simp add: takeWhile_upto dropWhile_upto)

lemma split_at_last: "\<lbrakk> deli \<notin> set p; p \<noteq> [] \<rbrakk> \<Longrightarrow> split_at_char deli p = [p]"
  by (subst split_at_char.simps) simp

lemma journal_name_inj: "journal_name j = journal_name j' \<longleftrightarrow> j = j'"
proof
  assume eq: "journal_name j = journal_name j'"
  obtain u d u' d' where [simp]: "j = (u, d)" "j' = (u', d')" by (cases j, cases j')
  have tw: "takeWhile (\<lambda>c. c \<noteq> CHR ''_'') (to_string n @ CHR ''_'' # r) = to_string n" for n r
    by (simp add: takeWhile_upto digits_not_in)
  have dw: "dropWhile (\<lambda>c. c \<noteq> CHR ''_'') (to_string n @ CHR ''_'' # r) = CHR ''_'' # r" for n r
    by (simp add: dropWhile_upto digits_not_in)
  have "to_string (unat u) = to_string (unat u')" "to_string (unat d) = to_string (unat d')"
    using eq tw [of "unat u"] tw [of "unat u'"] dw [of "unat u"] dw [of "unat u'"]
    by (simp_all add: journal_name_def) (metis list.inject)+
  then show "j = j'" using to_string_inj by (simp add: word_unat_eq_iff)
qed simp

lemma journal_name_no_colon: "CHR '':'' \<notin> set (journal_name j)"
  by (cases j) (auto simp: journal_name_def digits_not_in)

text \<open>What the text is split into again.\<close>

definition fd_ok :: "int \<Rightarrow> bool" where
  "fd_ok fd \<longleftrightarrow> 0 \<le> fd \<and> fd < 2 ^ 31"

lemma string_of_int_facts: "0 \<le> n \<Longrightarrow> CHR '':'' \<notin> set (string_of_int n) \<and> string_of_int n \<noteq> []"
  by (simp add: string_of_int_nonneg digits_not_in)

lemma split_fds_text:
  "\<lbrakk> list_all (\<lambda>(n, fd). CHR '':'' \<notin> set n \<and> fd_ok fd) pairs \<rbrakk>
   \<Longrightarrow> split_at_char CHR '':'' (fds_text pairs) = concat (List.map (\<lambda>(n, fd). [n, string_of_int fd]) pairs)"
proof (induction pairs rule: fds_text.induct)
  case (2 n fd)
  then show ?case using string_of_int_facts [of fd] by (simp add: split_at_first split_at_last fd_ok_def)
next
  case (3 n fd p rest)
  then show ?case using string_of_int_facts [of fd] by (simp add: split_at_first fd_ok_def)
qed (simp add: split_at_char.simps)

lemma fds_pairs_printed:
  "list_all (\<lambda>(n, fd). fd_ok fd) pairs \<Longrightarrow>
   fds_pairs (concat (List.map (\<lambda>(n, fd). [n, string_of_int fd]) pairs)) m =
     Value (fold (\<lambda>(n, fd). omap_set n fd) pairs m)"
  by (induction pairs arbitrary: m) (auto simp: fd_ok_def stoi_printed)

lemma fix_printed:
  "\<lbrakk> length received = length pairs; list_all fd_ok received \<rbrakk> \<Longrightarrow>
   fix_fds (concat (List.map (\<lambda>(n, fd). [n, string_of_int fd]) pairs)) received =
     Value (concat (List.map (\<lambda>(n, fd). [n, string_of_int fd]) (zip (List.map fst pairs) received)))"
proof (induction pairs arbitrary: received)
  case (Cons p pairs)
  then show ?case by (cases received; cases p) (auto simp: fd_ok_def)
qed simp

lemma find_fold_set: "omap_find (fold (\<lambda>(n, fd). omap_set n fd) pairs m) k =
    (case map_of (rev pairs) k of None \<Rightarrow> omap_find m k | Some fd \<Rightarrow> Some fd)"
  by (induction pairs arbitrary: m) (auto simp: map_add_def split: option.splits)

lemma posted_nth:
  assumes "distinct js" "length fds = length js" "i < length js"
    "m = fold (\<lambda>(n, fd). omap_set n fd) (zip (List.map journal_name js) fds) []"
  shows "posted m (js ! i) = Some (fds ! i)"
proof -
  have d: "distinct (List.map journal_name js)"
    using assms(1) by (simp add: distinct_map inj_on_def journal_name_inj)
  then have "distinct (List.map fst (zip (List.map journal_name js) fds))" using assms(2) by simp
  then have "map_of (rev (zip (List.map journal_name js) fds)) = map_of (zip (List.map journal_name js) fds)"
    by (intro map_of_inject_set [THEN iffD2]) (simp_all add: rev_map [symmetric])
  moreover have "map_of (zip (List.map journal_name js) fds) (List.map journal_name js ! i) = Some (fds ! i)"
    using d assms(2,3) by (intro map_of_zip_nth) simp_all
  ultimately show ?thesis using assms(3,4) by (simp add: posted_def find_fold_set)
qed


section \<open>One writer and one reader\<close>

definition engines :: "MainCfg \<Rightarrow> Wiring list" where
  "engines cfg = [md_wiring cfg, td_wiring cfg, cp_wiring cfg]"

lemma engines_writes: "mset (concat (List.map wr_writes (engines cfg))) = mset (get_journals cfg)"
  and engines_reads: "mset (concat (List.map wr_reads (engines cfg))) = mset (get_journals cfg)"
  by (simp_all add: engines_def md_wiring_def td_wiring_def cp_wiring_def get_journals_def)

text \<open>Two accounts can have the same destination: the id does not see their order, and is zero when
  the institution and the account are the same text.\<close>

lemma jid_build_collisions: "jid_build a b = jid_build b a" "jid_build a a = 0"
  by (simp_all add: jid_build_def xor.commute)

text \<open>C11: The journals of a system connect its engines one to one. When the ids of the accounts do not
  collide, every journal of the configuration is written by exactly one engine and read by exactly one,
  an engine never reads what it writes itself, and no engine reads or writes any other journal. A process of
  a user breaks this: every journal it writes is written by the strategies' engine as well.\<close>

theorem journals_connect_engines:
  assumes "distinct (get_journals cfg)"
  shows "distinct (concat (List.map wr_writes (engines cfg))) \<and>
    distinct (concat (List.map wr_reads (engines cfg))) \<and>
    set (concat (List.map wr_writes (engines cfg))) = set (get_journals cfg) \<and>
    set (concat (List.map wr_reads (engines cfg))) = set (get_journals cfg) \<and>
    (\<forall>w \<in> set (engines cfg). set (wr_reads w) \<inter> set (wr_writes w) = {}) \<and>
    set (wr_writes (user_wiring cfg)) \<subseteq> set (wr_writes (cp_wiring cfg))"
proof -
  note w = engines_writes [of cfg] and r = engines_reads [of cfg]
  have "set (wr_reads w) \<inter> set (wr_writes w) = {}" if "w \<in> set (engines cfg)" for w
    using that assms by (auto simp: engines_def md_wiring_def td_wiring_def cp_wiring_def get_journals_def) blast
  moreover have "set (wr_writes (user_wiring cfg)) \<subseteq> set (wr_writes (cp_wiring cfg))"
    by (auto simp: user_wiring_def cp_wiring_def)
  ultimately show ?thesis
    using assms w r mset_eq_imp_distinct_iff [OF w] mset_eq_imp_distinct_iff [OF r] mset_eq_setD [OF w] mset_eq_setD [OF r]
    by blast
qed

text \<open>The configuration of the program's template for a backtest, with a shorter account.\<close>

definition sample_json :: json where
  "sample_json = J_obj
     [(''system'', J_obj
        [(''mode'', J_str ''live''), (''output_root_path'', J_str ''./output''), (''time_unit'', J_str ''milli''),
         (''page_rollback_size'', J_int 10), (''initial_book'', J_obj [(''asset'', J_int 10000000)]),
         (''statistics'', J_obj [(''mode'', J_str ''all'')]), (''simulation'', J_bool True), (''backtest'', J_bool True)]),
      (''md'', J_arr [J_obj [(''institution'', J_str ''csv''), (''account'', J_str ''day.txt'')]]),
      (''td'', J_arr [J_obj [(''institution'', J_str ''simulation''), (''account'', J_str ''a1'')]])]"

definition sample_cfg :: MainCfg where
  "sample_cfg =
     \<lparr> mc_run_mode = Mode_LIVE, mc_root = ''/srv/output'', mc_md_dests = [jid_build ''csv'' ''day.txt''],
       mc_md_institutions = [''csv''], mc_td_dests = [jid_build ''simulation'' ''a1''],
       mc_td_institutions = [''simulation''],
       mc_initial_book = Book_empty\<lparr> bk_asset := Asset_zero\<lparr> as_avail := of_i64 10000000 \<rparr> \<rparr>,
       mc_fds_file = [], mc_page_rollback_size = 10, mc_time_unit = MILLI \<rparr>"

lemma sample_cfg_read:
  "MainCfg_of (\<lambda>p. ''/srv/output'') sample_json GlobalParams_new =
     Value (sample_cfg, \<lparr> gp_root_dir = ''/srv/output'', gp_stats_mode = Stats_All, gp_is_simulation = True,
       gp_is_backtest = True \<rparr>)"
  by (simp add: MainCfg_of_def sample_json_def sample_cfg_def j_optional_def read_fds_file_def read_globals_def
      get_mode_by_name_def time_unit_of_def str2mode_def GlobalParams_new_def)

lemmas evaluate_hash = hash_32_def MurmurHash3_x86_32_def murmur_k_def fmix32_def rotl32_def getblock32_def HASH_SEED_def

lemma flag_ids:
  "jid_flag MD_REQ = 3712240066"
  "jid_flag MD_RESPONSE = 1522706598"
  "jid_flag TD_REQ = 2606697813"
  "jid_flag TD_RESPONSE = 1783389462"
  by (simp_all add: jid_flag_def evaluate_hash)

lemma live_locations:
  "location_uid Mode_LIVE Module_MD [] [] = 334582676"
  "location_uid Mode_LIVE Module_TD [] [] = 3925099393"
  "location_uid Mode_LIVE Module_STRATEGY [] [] = 103111896"
  by (simp_all add: location_uid_def location_uname_def hash_str_32_def bytes_of_def evaluate_hash)

lemma sample_journals_distinct: "distinct (get_journals sample_cfg)"
  by (simp add: get_journals_def sample_cfg_def md_location_uid_def td_location_uid_def strategy_location_uid_def
      flag_ids live_locations)

theorem journals_connect_engines_witness:
  "set (concat (List.map wr_reads (engines sample_cfg))) = set (get_journals sample_cfg) \<and> length (get_journals sample_cfg) = 6"
  using journals_connect_engines [OF sample_journals_distinct]
  by (simp add: get_journals_def sample_cfg_def)


section \<open>Who is woken\<close>

lemma printed_ok: "list_all fd_ok fds \<Longrightarrow>
    list_all (\<lambda>(n, fd). CHR '':'' \<notin> set n \<and> fd_ok fd) (zip (List.map journal_name js) fds)"
  by (auto simp: list_all_iff set_zip journal_name_no_colon)

lemma fds_map_printed:
  assumes "length fds = length js" "list_all fd_ok fds" "js \<noteq> []"
  shows "fds_of_env (fds_text (zip (List.map journal_name js) fds)) =
    Value (fold (\<lambda>(n, fd). omap_set n fd) (zip (List.map journal_name js) fds) [])"
proof -
  let ?ps = "zip (List.map journal_name js) fds"
  have ok: "list_all (\<lambda>(n, fd). CHR '':'' \<notin> set n \<and> fd_ok fd) ?ps"
    using assms(2) by (rule printed_ok)
  then have "list_all (\<lambda>(n, fd). fd_ok fd) ?ps" by (auto simp: list_all_iff)
  moreover have "concat (List.map (\<lambda>(n, fd). [n, string_of_int fd]) ?ps) \<noteq> []"
    using assms(1,3) by (cases js; cases fds) auto
  ultimately show ?thesis
    by (simp add: fds_of_env_def fds_of_pieces_def split_fds_text [OF ok] fds_pairs_printed)
qed

lemma fds_map_received:
  assumes "length fds = length js" "list_all fd_ok fds" "length received = length js" "list_all fd_ok received" "js \<noteq> []"
  shows "fds_of_file (fds_text (zip (List.map journal_name js) fds)) received =
    Value (fold (\<lambda>(n, fd). omap_set n fd) (zip (List.map journal_name js) received) [])"
proof -
  let ?ps = "zip (List.map journal_name js) fds"
  have ok: "list_all (\<lambda>(n, fd). CHR '':'' \<notin> set n \<and> fd_ok fd) ?ps"
    using assms(2) by (rule printed_ok)
  have "list_all (\<lambda>(n, fd). fd_ok fd) (zip (List.map journal_name js) received)"
    using assms(4) by (auto simp: list_all_iff dest: set_zip_rightD)
  moreover have "concat (List.map (\<lambda>(n, fd). [n, string_of_int fd]) (zip (List.map journal_name js) received)) \<noteq> []"
    using assms(3,5) by (cases js; cases received) auto
  ultimately show ?thesis
    using assms(1,3,4)
    by (simp add: fds_of_file_def fds_of_pieces_def split_fds_text [OF ok] fix_printed fds_pairs_printed)
qed

lemma get_journals_nonempty: "get_journals cfg \<noteq> []"
  by (simp add: get_journals_def)

text \<open>What an engine waits on, when the map knows the journals of the system.\<close>

definition knows :: "FdsMap \<Rightarrow> journal_id list \<Rightarrow> int list \<Rightarrow> bool" where
  "knows m js fds \<longleftrightarrow> (\<forall>i < length js. posted m (js ! i) = Some (fds ! i))"

lemma knows_fold:
  "\<lbrakk> distinct js; length fds = length js; m = fold (\<lambda>(n, fd). omap_set n fd) (zip (List.map journal_name js) fds) [] \<rbrakk>
   \<Longrightarrow> knows m js fds"
  using posted_nth by (auto simp: knows_def)

lemma knows_posted: "knows m js fds \<Longrightarrow> j \<in> set js \<Longrightarrow> posted m j \<noteq> None"
  unfolding knows_def in_set_conv_nth by auto

lemma observed_known: "\<forall>j \<in> set rs. posted m j \<noteq> None \<Longrightarrow> observed m rs = List.map (\<lambda>j. the (posted m j)) rs"
  by (induction rs) (auto simp: observed_def posted_def List.map_filter_def)

lemma posted_inj:
  assumes "knows m js fds" "distinct fds" "length fds = length js"
  shows "inj_on (\<lambda>j. the (posted m j)) (set js)"
proof (rule inj_onI)
  fix a b assume "a \<in> set js" "b \<in> set js" "the (posted m a) = the (posted m b)"
  then obtain i k where "i < length js" "a = js ! i" "k < length js" "b = js ! k" "fds ! i = fds ! k"
    using assms(1) unfolding in_set_conv_nth knows_def by (metis option.sel)
  then show "a = b" using assms(2,3) by (simp add: nth_eq_iff_index_eq)
qed

lemma observed_iff:
  assumes "knows m js fds" "distinct fds" "length fds = length js" "set rs \<subseteq> set js" "j \<in> set js"
  shows "the (posted m j) \<in> set (observed m rs) \<longleftrightarrow> j \<in> set rs"
proof -
  have "observed m rs = List.map (\<lambda>j. the (posted m j)) rs"
    using assms(4) knows_posted [OF assms(1)] by (intro observed_known) blast
  then show ?thesis using inj_on_image_mem_iff [OF posted_inj [OF assms(1,2,3)] assms(5,4)] by simp
qed

text \<open>C14: A post wakes the reader of its journal and nobody else. The master names the journals of the
  configuration and their event file descriptors in a text; each process reads a map back from it, in which
  every journal has its own descriptor. The descriptor a writer posts on for a journal is among those an
  engine waits on exactly when that engine reads the journal; and a process of a user, which replaces the
  descriptors by those it received over the socket, has the received one for every journal.\<close>

theorem posts_wake_readers:
  assumes "distinct (get_journals cfg)"
    "length fds = length (get_journals cfg)" "list_all fd_ok fds" "distinct fds"
    "length received = length (get_journals cfg)" "list_all fd_ok received"
  shows "\<exists>m m'. fds_of_env (fds_text (zip (get_journal_names cfg) fds)) = Value m \<and>
    fds_of_file (fds_text (zip (get_journal_names cfg) fds)) received = Value m' \<and>
    knows m (get_journals cfg) fds \<and> knows m' (get_journals cfg) received \<and>
    (\<forall>w \<in> set (engines cfg). \<forall>j \<in> set (get_journals cfg).
       the (posted m j) \<in> set (observed m (wr_reads w)) \<longleftrightarrow> j \<in> set (wr_reads w))"
proof -
  let ?js = "get_journals cfg"
  define m where "m = fold (\<lambda>(n, fd). omap_set n fd) (zip (List.map journal_name ?js) fds) []"
  define m' where "m' = fold (\<lambda>(n, fd). omap_set n fd) (zip (List.map journal_name ?js) received) []"
  have k: "knows m ?js fds" "knows m' ?js received"
    using knows_fold assms(1,2,5) by (auto simp: m_def m'_def)
  have "the (posted m j) \<in> set (observed m (wr_reads w)) \<longleftrightarrow> j \<in> set (wr_reads w)"
    if "w \<in> set (engines cfg)" "j \<in> set ?js" for w j
    using that mset_eq_setD [OF engines_reads [of cfg]] by (intro observed_iff [OF k(1) assms(4,2)]) auto
  then show ?thesis
    using fds_map_printed [OF assms(2,3) get_journals_nonempty] fds_map_received [OF assms(2,3,5,6) get_journals_nonempty] k
    unfolding get_journal_names_def m_def m'_def by blast
qed

theorem posts_wake_readers_witness:
  "\<exists>m. fds_of_env (fds_text (zip (get_journal_names sample_cfg) [5, 6, 7, 8, 9, 10])) = Value m \<and>
     knows m (get_journals sample_cfg) [5, 6, 7, 8, 9, 10]"
proof -
  have "length (get_journals sample_cfg) = 6" by (simp add: get_journals_def sample_cfg_def)
  then show ?thesis
    using posts_wake_readers [OF sample_journals_distinct, of "[5, 6, 7, 8, 9, 10]" "[15, 16, 17, 18, 19, 20]"]
    by (fastforce simp: fd_ok_def)
qed

section \<open>What the engines can rely on\<close>

lemma read_accounts_facts:
  "read_accounts elms = Value accounts \<Longrightarrow> length accounts = length elms \<and>
   (\<forall>i < length elms. \<exists>account. then_do (j_get (elms ! i) ''institution'') j_string = Value (snd (accounts ! i)) \<and>
      then_do (j_get (elms ! i) ''account'') j_string = Value account \<and>
      fst (accounts ! i) = jid_build (snd (accounts ! i)) account)"
proof (induction elms arbitrary: accounts)
  case (Cons elm rest)
  then obtain institution account more where
    *: "then_do (j_get elm ''institution'') j_string = Value institution"
       "then_do (j_get elm ''account'') j_string = Value account" "read_accounts rest = Value more"
       "accounts = (jid_build institution account, institution) # more"
    by (auto simp: then_do_Value_iff)
  show ?case using Cons.IH [OF *(3)] * by (auto simp: nth_Cons split: nat.splits)
qed simp


text \<open>One account as an engine takes it from the configuration: its institution and its destination.\<close>

definition account_at :: "json \<Rightarrow> nat \<Rightarrow> u32 \<Rightarrow> string \<Rightarrow> bool" where
  "account_at accounts i dest institution \<longleftrightarrow>
     (\<exists>account. then_do (j_get (j_items accounts ! i) ''institution'') j_string = Value institution \<and>
        then_do (j_get (j_items accounts ! i) ''account'') j_string = Value account \<and>
        dest = jid_build institution account)"

text \<open>C29: A configuration that is accepted has, for each of its market-data and trading accounts in order, the
  institution's name and the id made of institution and account, so that the engines, which walk the three
  lists with one index, stay within them and pair each account with its own entry; the root directory
  the process keeps is the configuration's; and outside the mode of a user's process there is no file of
  descriptors.\<close>

theorem main_cfg_accounts:
  assumes "MainCfg_of absolute cfg gp = Value (mc, gp')" "j_get cfg ''md'' = Value md" "j_get cfg ''td'' = Value td"
  shows "length (mc_md_dests mc) = length (j_items md) \<and> length (mc_md_institutions mc) = length (j_items md) \<and>
    (\<forall>i < length (j_items md). account_at md i (mc_md_dests mc ! i) (mc_md_institutions mc ! i)) \<and>
    length (mc_td_dests mc) = length (j_items td) \<and> length (mc_td_institutions mc) = length (j_items td) \<and>
    (\<forall>i < length (j_items td). account_at td i (mc_td_dests mc ! i) (mc_td_institutions mc ! i)) \<and>
    gp_root_dir gp' = mc_root mc \<and> (if mc_run_mode mc = Mode_USER_APP then True else mc_fds_file mc = [])"
proof -
  obtain ma ta where r: "read_accounts (j_items md) = Value ma" "read_accounts (j_items td) = Value ta"
    and mc: "mc_md_dests mc = List.map fst ma" "mc_md_institutions mc = List.map snd ma"
      "mc_td_dests mc = List.map fst ta" "mc_td_institutions mc = List.map snd ta"
      "gp_root_dir gp' = mc_root mc" "if mc_run_mode mc = Mode_USER_APP then True else mc_fds_file mc = []"
    using assms by (auto simp: MainCfg_of_def then_do_Value_iff read_globals_def read_fds_file_def split: if_splits)
  show ?thesis
    using read_accounts_facts [OF r(1)] read_accounts_facts [OF r(2)] mc by (auto simp: account_at_def)
qed

theorem main_cfg_accounts_witness:
  "account_at (J_arr [J_obj [(''institution'', J_str ''csv''), (''account'', J_str ''day.txt'')]]) 0
     (jid_build ''csv'' ''day.txt'') ''csv''"
proof -
  have "j_get sample_json ''md'' = Value (J_arr [J_obj [(''institution'', J_str ''csv''), (''account'', J_str ''day.txt'')]])"
    "j_get sample_json ''td'' = Value (J_arr [J_obj [(''institution'', J_str ''simulation''), (''account'', J_str ''a1'')]])"
    by (simp_all add: sample_json_def)
  from main_cfg_accounts [OF sample_cfg_read this] show ?thesis by (simp add: sample_cfg_def)
qed

text \<open>Any text but the names of two units means milliseconds.\<close>

lemma unknown_time_unit: "s \<notin> {''sec'', ''nano''} \<Longrightarrow> time_unit_of s = MILLI"
  by (simp add: time_unit_of_def)

end
