(* ===== verification/Wakeup.thy ===== *)
theory Wakeup
  imports Config
begin

text \<open>
  How a process is woken (src/core/journal/journal.cpp: \<open>JourIndicator\<close>, \<open>JourObserver\<close>; src/core/observe_helper.cpp,
  eventengine.cpp, corecomm.cpp). A writer closes its frame, gives up its lock and then posts on the event
  file descriptor of the journal. A reader sleeps in \<open>epoll_wait\<close>, edge-triggered, until a descriptor it
  observes is posted on; then it reads until nothing is due and sleeps again. It never reads the counters.

  The operating system's part is what its manual says: the counter of a descriptor takes values up to
  \<open>2 ^ 64 - 2\<close>, a write that would pass it fails, every write makes the descriptor ready in the lists that
  observe it, adding a descriptor with a counter above zero makes it ready at once, and a wait takes up to
  ten ready descriptors off the list or sleeps when there is none.
\<close>

section \<open>Indicators and observers\<close>

definition EFD_MAX :: nat where
  "EFD_MAX = 2 ^ 64 - 2"

definition MAX_EVENTS :: nat where
  "MAX_EVENTS = 10"

record JourObserver =
  jo_targets :: "int list"
  jo_ready :: "int list"
  jo_events :: "int list"
  jo_received :: nat

definition JourObserver_new :: JourObserver where
  "JourObserver_new = \<lparr> jo_targets = [], jo_ready = [], jo_events = [], jo_received = 0 \<rparr>"

definition jo_signal :: "int \<Rightarrow> JourObserver \<Rightarrow> JourObserver" where
  "jo_signal fd ob =
     (if fd \<in> set (jo_targets ob) \<and> fd \<notin> set (jo_ready ob) then ob\<lparr> jo_ready := jo_ready ob @ [fd] \<rparr> else ob)"

text \<open>A descriptor that is observed already, or none at all, is refused.\<close>

definition jo_add_target :: "(int \<Rightarrow> nat) \<Rightarrow> int \<Rightarrow> JourObserver \<Rightarrow> int \<times> JourObserver" where
  "jo_add_target counts efd ob =
     (if efd < 0 \<or> efd \<in> set (jo_targets ob) then (- 1, ob)
      else let ob = ob\<lparr> jo_targets := jo_targets ob @ [efd] \<rparr>
           in (0, if counts efd > 0 then jo_signal efd ob else ob))"

text \<open>A post is seen by the observer given; observers of other processes have lists of their own.\<close>

definition ji_post :: "int \<Rightarrow> (int \<Rightarrow> nat) \<times> JourObserver \<Rightarrow> int \<times> (int \<Rightarrow> nat) \<times> JourObserver" where
  "ji_post efd = (\<lambda>(counts, ob).
     if efd < 0 then (- 1, counts, ob)
     else if counts efd \<ge> EFD_MAX then (- 1, counts, ob)
     else (0, counts(efd := counts efd + 1), jo_signal efd ob))"

text \<open>\<open>None\<close>: the process sleeps.\<close>

definition jo_wait :: "JourObserver \<Rightarrow> (int \<times> JourObserver) option" where
  "jo_wait ob =
     (if jo_ready ob = [] then None
      else Some (int (min MAX_EVENTS (length (jo_ready ob))),
                 ob\<lparr> jo_events := take MAX_EVENTS (jo_ready ob), jo_ready := drop MAX_EVENTS (jo_ready ob) \<rparr>))"

text \<open>\<open>handle\<close>, which nothing in the program calls: a counter is read and thereby set to zero.\<close>

definition jo_handle :: "(int \<Rightarrow> nat) \<times> JourObserver \<Rightarrow> (int \<Rightarrow> nat) \<times> JourObserver" where
  "jo_handle = (\<lambda>(counts, ob).
     fold (\<lambda>fd (counts, ob). if counts fd > 0 then (counts(fd := 0), ob\<lparr> jo_received := jo_received ob + 1 \<rparr>)
                             else (counts, ob)) (jo_events ob) (counts, ob))"

text \<open>\<open>ObserveHelper::add_customer\<close> for a reader that has joined the journals given.\<close>

definition add_customer :: "(int \<Rightarrow> nat) \<Rightarrow> FdsMap \<Rightarrow> journal_id list \<Rightarrow> JourObserver \<Rightarrow> JourObserver" where
  "add_customer counts m js ob = fold (\<lambda>fd ob. snd (jo_add_target counts fd ob)) (observed m js) ob"

section \<open>Writers and a reader\<close>

text \<open>
  The state: the counters, the observer of the reader, for every journal the times of the frames the reader
  has not read on the page it is on, whether the writer has ended that page, the number of frames it has
  written on later pages, and the number of frames closed whose post is still to come; what the reader does,
  whether it has been told to stop (\<open>live_\<close>, \<open>status_\<close>), the calls of \<open>terminate\<close> whose post is still to come,
  the clock.

  A reader does not get past the end of a page: \<open>has_data\<close> (frame.h) is false of the frame \<open>PageEnd\<close>, so the
  event loop never passes on to the next page (\<open>reader_stuck_at_page_end\<close> of the theory \<open>Journal\<close>). What a
  writer closes after it has ended the page lies beyond the reader; it is posted like any other frame.
\<close>

datatype ReaderMode = Starting | Waiting | Draining | Stopped

record WakeState =
  wk_counts :: "int \<Rightarrow> nat"
  wk_obs :: JourObserver
  wk_frames :: "journal_id \<Rightarrow> int list"
  wk_ended :: "journal_id \<Rightarrow> bool"
  wk_beyond :: "journal_id \<Rightarrow> nat"
  wk_unposted :: "journal_id \<Rightarrow> nat"
  wk_mode :: ReaderMode
  wk_quit :: bool
  wk_intr :: nat
  wk_now :: int

definition WakeState_new :: "int \<Rightarrow> WakeState" where
  "WakeState_new now =
     \<lparr> wk_counts = (\<lambda>_. 0), wk_obs = JourObserver_new, wk_frames = (\<lambda>_. []), wk_ended = (\<lambda>_. False),
       wk_beyond = (\<lambda>_. 0), wk_unposted = (\<lambda>_. 0), wk_mode = Starting, wk_quit = False, wk_intr = 0, wk_now = now \<rparr>"

definition fd_of :: "FdsMap \<Rightarrow> journal_id \<Rightarrow> int" where
  "fd_of m j = (case posted m j of Some fd \<Rightarrow> fd | None \<Rightarrow> - 1)"

definition wk_post :: "int \<Rightarrow> WakeState \<Rightarrow> WakeState" where
  "wk_post fd s =
     (let (_, counts, ob) = ji_post fd (wk_counts s, wk_obs s) in s\<lparr> wk_counts := counts, wk_obs := ob \<rparr>)"

text \<open>A frame is due when the reader's clock, which may be behind the writers', has reached its time.\<close>

definition wk_due :: "int \<Rightarrow> WakeState \<Rightarrow> journal_id \<Rightarrow> bool" where
  "wk_due behind s j \<longleftrightarrow> (case wk_frames s j of [] \<Rightarrow> False | t # _ \<Rightarrow> t \<le> wk_now s - behind)"

text \<open>A frame closed is on the reader's page until that page is ended, and beyond it from then on.\<close>

definition wk_close :: "int \<Rightarrow> journal_id \<Rightarrow> WakeState \<Rightarrow> WakeState" where
  "wk_close t j s =
     (if wk_ended s j then s\<lparr> wk_beyond := (wk_beyond s)(j := wk_beyond s j + 1) \<rparr>
      else s\<lparr> wk_frames := (wk_frames s)(j := wk_frames s j @ [t]) \<rparr>)"

text \<open>
  One step of the system, by the reader or by the others, for a reader with the map \<open>m\<close>, the journals \<open>js\<close> and
  perhaps a descriptor for interrupts. Which of the journals due is read next is left open, and so are
  whether a handler stops the reader and when a page is full (\<open>full\<close>).
\<close>

datatype Actor = By_reader | By_others

inductive wake_step ::
    "FdsMap \<Rightarrow> journal_id list \<Rightarrow> int option \<Rightarrow> int \<Rightarrow> Actor \<Rightarrow> WakeState \<Rightarrow> WakeState \<Rightarrow> bool"
  for m js intr behind where
  begin_waiting: "wk_mode s = Starting \<Longrightarrow>
    wake_step m js intr behind By_reader s
      (s\<lparr> wk_obs := add_customer (wk_counts s) m js
                     (case intr of None \<Rightarrow> wk_obs s | Some fd \<Rightarrow> snd (jo_add_target (wk_counts s) fd (wk_obs s))),
          wk_mode := Waiting \<rparr>)"
| wake: "\<lbrakk> wk_mode s = Waiting; jo_wait (wk_obs s) = Some (n, ob) \<rbrakk> \<Longrightarrow>
    wake_step m js intr behind By_reader s (s\<lparr> wk_obs := ob, wk_mode := Draining \<rparr>)"
| read: "\<lbrakk> wk_mode s = Draining; \<not> wk_quit s; j \<in> set js; wk_due behind s j \<rbrakk> \<Longrightarrow>
    wake_step m js intr behind By_reader s
      (s\<lparr> wk_frames := (wk_frames s)(j := tl (wk_frames s j)), wk_quit := stop \<rparr>)"
| idle: "\<lbrakk> wk_mode s = Draining; wk_quit s \<or> \<not> list_ex (wk_due behind s) js \<rbrakk> \<Longrightarrow>
    wake_step m js intr behind By_reader s (s\<lparr> wk_mode := if wk_quit s then Stopped else Waiting \<rparr>)"
| pass: "0 \<le> d \<Longrightarrow> wake_step m js intr behind By_others s (s\<lparr> wk_now := wk_now s + d \<rparr>)"
| close: "t \<le> wk_now s \<Longrightarrow>
    wake_step m js intr behind By_others s
      (wk_close t j s\<lparr> wk_unposted := (wk_unposted s)(j := wk_unposted s j + 1) \<rparr>)"
| full: "wake_step m js intr behind By_others s (s\<lparr> wk_ended := (wk_ended s)(j := True) \<rparr>)"
| post: "wk_unposted s j = Suc n \<Longrightarrow>
    wake_step m js intr behind By_others s
      (wk_post (fd_of m j) (s\<lparr> wk_unposted := (wk_unposted s)(j := n) \<rparr>))"
| terminate: "intr = Some fd \<Longrightarrow>
    wake_step m js intr behind By_others s (s\<lparr> wk_quit := True, wk_intr := wk_intr s + 1 \<rparr>)"
| interrupt: "\<lbrakk> intr = Some fd; wk_intr s = Suc n \<rbrakk> \<Longrightarrow>
    wake_step m js intr behind By_others s (wk_post fd (s\<lparr> wk_intr := n \<rparr>))"

inductive_cases wake_stepE: "wake_step m js intr behind who s s'"

inductive wake_reach :: "FdsMap \<Rightarrow> journal_id list \<Rightarrow> int option \<Rightarrow> int \<Rightarrow> WakeState \<Rightarrow> bool"
  for m js intr behind where
  reach_new: "wake_reach m js intr behind (WakeState_new now)"
| reach_step: "\<lbrakk> wake_reach m js intr behind s; wake_step m js intr behind who s s' \<rbrakk> \<Longrightarrow> wake_reach m js intr behind s'"

section \<open>Signals arrive\<close>

lemma jo_signal_facts [simp]:
  "jo_targets (jo_signal fd ob) = jo_targets ob"
  "set (jo_ready (jo_signal fd ob)) = set (jo_ready ob) \<union> (if fd \<in> set (jo_targets ob) then {fd} else {})"
  by (auto simp: jo_signal_def)

lemma jo_wait_None [simp]: "jo_wait ob = None \<longleftrightarrow> jo_ready ob = []"
  by (simp add: jo_wait_def)

lemma jo_add_target_facts:
  assumes "0 \<le> fd"
  shows "set (jo_targets (snd (jo_add_target counts fd ob))) = insert fd (set (jo_targets ob))"
    "set (jo_ready ob) \<subseteq> set (jo_ready (snd (jo_add_target counts fd ob)))"
    "\<lbrakk> counts fd > 0; fd \<notin> set (jo_targets ob) \<rbrakk> \<Longrightarrow> fd \<in> set (jo_ready (snd (jo_add_target counts fd ob)))"
  using assms by (auto simp: jo_add_target_def Let_def)

text \<open>An observer misses nothing that was posted before the descriptor was added.\<close>

definition caught_up :: "(int \<Rightarrow> nat) \<Rightarrow> JourObserver \<Rightarrow> bool" where
  "caught_up counts ob \<longleftrightarrow> (\<forall>fd \<in> set (jo_targets ob). counts fd > 0 \<longrightarrow> fd \<in> set (jo_ready ob))"

lemma add_target_caught_up: "caught_up counts ob \<Longrightarrow> caught_up counts (snd (jo_add_target counts fd ob))"
  by (auto simp: caught_up_def jo_add_target_def Let_def)

lemma add_targets:
  "list_all (\<lambda>fd. 0 \<le> fd) fds \<Longrightarrow>
   set (jo_targets (fold (\<lambda>fd ob. snd (jo_add_target counts fd ob)) fds ob)) = set fds \<union> set (jo_targets ob)"
  "caught_up counts ob \<Longrightarrow> caught_up counts (fold (\<lambda>fd ob. snd (jo_add_target counts fd ob)) fds ob)"
  by (induction fds arbitrary: ob) (auto simp: jo_add_target_facts add_target_caught_up)


section \<open>No wake-up is lost\<close>

text \<open>Quantified journals are left as they are, not split into location and destination.\<close>

declare split_paired_All [simp del] split_paired_Ex [simp del]

definition wired :: "FdsMap \<Rightarrow> journal_id list \<Rightarrow> int option \<Rightarrow> bool" where
  "wired m js intr \<longleftrightarrow> list_all (\<lambda>j. 0 \<le> fd_of m j) js \<and> (case intr of None \<Rightarrow> True | Some fd \<Rightarrow> 0 \<le> fd)"

definition unsaturated :: "WakeState \<Rightarrow> bool" where
  "unsaturated s \<longleftrightarrow> (\<forall>fd. wk_counts s fd < EFD_MAX)"

text \<open>The reader has been, or will be, made aware of a descriptor.\<close>

definition signalled :: "WakeState \<Rightarrow> int \<Rightarrow> bool" where
  "signalled s fd \<longleftrightarrow>
     (if wk_mode s = Starting then wk_counts s fd > 0 else fd \<in> set (jo_ready (wk_obs s)))"

definition asleep :: "WakeState \<Rightarrow> bool" where
  "asleep s \<longleftrightarrow> wk_mode s = Starting \<or> wk_mode s = Waiting"

definition observing :: "FdsMap \<Rightarrow> journal_id list \<Rightarrow> int option \<Rightarrow> WakeState \<Rightarrow> bool" where
  "observing m js intr s \<longleftrightarrow>
     (if wk_mode s = Starting then wk_obs s = JourObserver_new
      else fd_of m ` set js \<union> set_option intr \<subseteq> set (jo_targets (wk_obs s)))"

definition timed :: "WakeState \<Rightarrow> bool" where
  "timed s \<longleftrightarrow> (\<forall>j. \<forall>t \<in> set (wk_frames s j). t \<le> wk_now s)"

definition heard :: "FdsMap \<Rightarrow> journal_id list \<Rightarrow> WakeState \<Rightarrow> bool" where
  "heard m js s \<longleftrightarrow> (\<forall>j \<in> set js. wk_frames s j \<noteq> [] \<and> wk_unposted s j = 0 \<longrightarrow> signalled s (fd_of m j))"

text \<open>Frames lie beyond the reader's page only when that page is ended.\<close>

definition on_page :: "WakeState \<Rightarrow> bool" where
  "on_page s \<longleftrightarrow> (\<forall>j. \<not> wk_ended s j \<longrightarrow> wk_beyond s j = 0)"

definition told :: "int option \<Rightarrow> WakeState \<Rightarrow> bool" where
  "told intr s \<longleftrightarrow> (wk_quit s \<longrightarrow> (\<exists>fd. intr = Some fd \<and> (wk_intr s = 0 \<longrightarrow> signalled s fd)))"

definition kept_awake :: "FdsMap \<Rightarrow> journal_id list \<Rightarrow> int option \<Rightarrow> WakeState \<Rightarrow> bool" where
  "kept_awake m js intr s \<longleftrightarrow> observing m js intr s \<and> timed s \<and> on_page s \<and> (asleep s \<longrightarrow> heard m js s \<and> told intr s)"

lemma observed_wired: "list_all (\<lambda>j. 0 \<le> fd_of m j) js \<Longrightarrow> observed m js = List.map (fd_of m) js"
  by (induction js) (auto simp: observed_def fd_of_def posted_def List.map_filter_def split: option.splits)

text \<open>What a successful post does: it only adds to the counters and the lists.\<close>

lemma wk_post_fields [simp]:
  "wk_frames (wk_post fd s) = wk_frames s" "wk_unposted (wk_post fd s) = wk_unposted s" "wk_mode (wk_post fd s) = wk_mode s"
  "wk_quit (wk_post fd s) = wk_quit s" "wk_intr (wk_post fd s) = wk_intr s" "wk_now (wk_post fd s) = wk_now s"
  "wk_ended (wk_post fd s) = wk_ended s" "wk_beyond (wk_post fd s) = wk_beyond s"
  "jo_targets (wk_obs (wk_post fd s)) = jo_targets (wk_obs s)"
  by (simp_all add: wk_post_def ji_post_def)

lemma wk_close_fields [simp]:
  "wk_counts (wk_close t j s) = wk_counts s" "wk_obs (wk_close t j s) = wk_obs s" "wk_mode (wk_close t j s) = wk_mode s"
  "wk_quit (wk_close t j s) = wk_quit s" "wk_intr (wk_close t j s) = wk_intr s" "wk_now (wk_close t j s) = wk_now s"
  "wk_ended (wk_close t j s) = wk_ended s" "wk_unposted (wk_close t j s) = wk_unposted s"
  by (simp_all add: wk_close_def)

lemma wk_post_counts: "wk_counts s fd' \<le> wk_counts (wk_post fd s) fd'"
  by (simp add: wk_post_def ji_post_def)

lemma wk_post_new: "wk_obs s = JourObserver_new \<Longrightarrow> wk_obs (wk_post fd s) = JourObserver_new"
  by (simp add: wk_post_def ji_post_def jo_signal_def JourObserver_new_def)

lemma wk_post_mono: "signalled s fd' \<Longrightarrow> signalled (wk_post fd s) fd'"
  by (auto simp: signalled_def wk_post_def ji_post_def)

lemma wk_post_update:
  "wk_post fd (s\<lparr> wk_unposted := u \<rparr>) = (wk_post fd s)\<lparr> wk_unposted := u \<rparr>"
  "wk_post fd (s\<lparr> wk_intr := n \<rparr>) = (wk_post fd s)\<lparr> wk_intr := n \<rparr>"
  by (simp_all add: wk_post_def split_beta)

lemma wk_post_signals:
  assumes "0 \<le> fd" "wk_counts s fd < EFD_MAX" "wk_mode s = Starting \<or> fd \<in> set (jo_targets (wk_obs s))"
  shows "signalled (wk_post fd s) fd"
  using assms by (auto simp: signalled_def wk_post_def ji_post_def)

lemma step_counts: "wake_step m js intr behind who s s' \<Longrightarrow> wk_counts s fd \<le> wk_counts s' fd"
  using wk_post_counts [of "s\<lparr> wk_unposted := _ \<rparr>"] wk_post_counts [of "s\<lparr> wk_intr := _ \<rparr>"]
  by (auto elim!: wake_stepE)

lemma step_unsaturated: "\<lbrakk> wake_step m js intr behind who s s'; unsaturated s' \<rbrakk> \<Longrightarrow> unsaturated s"
  using step_counts by (fastforce simp: unsaturated_def intro: le_less_trans)

lemma begin_observes:
  assumes "wired m js intr" "wk_obs s = JourObserver_new"
  defines "ob \<equiv> add_customer (wk_counts s) m js
      (case intr of None \<Rightarrow> wk_obs s | Some fd \<Rightarrow> snd (jo_add_target (wk_counts s) fd (wk_obs s)))"
  shows "fd_of m ` set js \<union> set_option intr \<subseteq> set (jo_targets ob)"
    "\<lbrakk> wk_counts s fd > 0; fd \<in> fd_of m ` set js \<union> set_option intr \<rbrakk> \<Longrightarrow> fd \<in> set (jo_ready ob)"
proof -
  define ob0 where "ob0 = (case intr of None \<Rightarrow> wk_obs s | Some fd \<Rightarrow> snd (jo_add_target (wk_counts s) fd (wk_obs s)))"
  have "caught_up (wk_counts s) JourObserver_new" by (simp add: caught_up_def JourObserver_new_def)
  then have c0: "caught_up (wk_counts s) ob0"
    using assms(2) by (auto simp: ob0_def intro: add_target_caught_up split: option.splits)
  have t0: "set_option intr \<subseteq> set (jo_targets ob0)"
    using assms(1) by (auto simp: ob0_def wired_def jo_add_target_facts split: option.splits)
  have o: "observed m js = List.map (fd_of m) js" "list_all (\<lambda>fd. 0 \<le> fd) (List.map (fd_of m) js)"
    using assms(1) observed_wired by (auto simp: wired_def list_all_iff)
  have ob: "ob = fold (\<lambda>fd ob. snd (jo_add_target (wk_counts s) fd ob)) (List.map (fd_of m) js) ob0"
    by (simp add: ob_def add_customer_def o(1) ob0_def)
  show t: "fd_of m ` set js \<union> set_option intr \<subseteq> set (jo_targets ob)"
    using t0 add_targets(1) [OF o(2), of "wk_counts s" ob0] unfolding ob by auto
  show "\<lbrakk> wk_counts s fd > 0; fd \<in> fd_of m ` set js \<union> set_option intr \<rbrakk> \<Longrightarrow> fd \<in> set (jo_ready ob)"
    using t add_targets(2) [OF c0, of "List.map (fd_of m) js"] unfolding ob [symmetric] caught_up_def by blast
qed

lemma signalled_update [simp]:
  "signalled (s\<lparr> wk_unposted := u \<rparr>) fd = signalled s fd" "signalled (s\<lparr> wk_intr := n \<rparr>) fd = signalled s fd"
  "signalled (s\<lparr> wk_frames := f \<rparr>) fd = signalled s fd" "signalled (s\<lparr> wk_quit := q \<rparr>) fd = signalled s fd"
  "signalled (s\<lparr> wk_now := t \<rparr>) fd = signalled s fd"
  by (simp_all add: signalled_def)

lemma observing_update [simp]:
  "observing m js intr (s\<lparr> wk_unposted := u \<rparr>) = observing m js intr s" "observing m js intr (s\<lparr> wk_intr := n \<rparr>) = observing m js intr s"
  "observing m js intr (s\<lparr> wk_frames := f \<rparr>) = observing m js intr s" "observing m js intr (s\<lparr> wk_quit := q \<rparr>) = observing m js intr s"
  "observing m js intr (s\<lparr> wk_now := t \<rparr>) = observing m js intr s"
  "observing m js intr s \<Longrightarrow> observing m js intr (wk_post fd s)"
  by (simp_all add: observing_def wk_post_new split: if_splits)

lemma timed_update [simp]:
  "timed (s\<lparr> wk_unposted := u \<rparr>) = timed s" "timed (s\<lparr> wk_intr := n \<rparr>) = timed s" "timed (s\<lparr> wk_mode := md \<rparr>) = timed s"
  "timed (s\<lparr> wk_quit := q \<rparr>) = timed s" "timed (s\<lparr> wk_obs := ob \<rparr>) = timed s" "timed (wk_post fd s) = timed s"
  by (simp_all add: timed_def)

lemma on_page_update [simp]:
  "on_page (s\<lparr> wk_unposted := u \<rparr>) = on_page s" "on_page (s\<lparr> wk_intr := n \<rparr>) = on_page s" "on_page (s\<lparr> wk_mode := md \<rparr>) = on_page s"
  "on_page (s\<lparr> wk_quit := q \<rparr>) = on_page s" "on_page (s\<lparr> wk_obs := ob \<rparr>) = on_page s" "on_page (wk_post fd s) = on_page s"
  "on_page (s\<lparr> wk_frames := f \<rparr>) = on_page s" "on_page (s\<lparr> wk_now := t \<rparr>) = on_page s"
  by (simp_all add: on_page_def)

lemma close_keeps:
  "signalled (wk_close t j s) fd = signalled s fd" "observing m js intr (wk_close t j s) = observing m js intr s"
  "asleep (wk_close t j s) = asleep s" "told intr (wk_close t j s) = told intr s"
  "on_page s \<Longrightarrow> on_page (wk_close t j s)" "\<lbrakk> timed s; t \<le> wk_now s \<rbrakk> \<Longrightarrow> timed (wk_close t j s)"
  "heard m js s \<Longrightarrow> heard m js (wk_close t j s\<lparr> wk_unposted := (wk_unposted s)(j := Suc n) \<rparr>)"
  by (simp_all add: signalled_def observing_def asleep_def told_def on_page_def timed_def heard_def)
    (auto simp: wk_close_def split: if_splits)

lemma due_when_written:
  assumes "timed s" "behind \<le> 0" "\<not> list_ex (wk_due behind s) js" "j \<in> set js"
  shows "wk_frames s j = []"
proof (cases "wk_frames s j")
  case (Cons t ts)
  then have "t \<le> wk_now s" using assms(1) unfolding timed_def by (metis list.set_intros(1))
  then have "wk_due behind s j" using Cons assms(2) by (simp add: wk_due_def)
  then show ?thesis using assms(3,4) by (auto simp: list_ex_iff)
qed

lemma post_keeps: "heard m js s \<Longrightarrow> heard m js (wk_post fd s)" "told intr s \<Longrightarrow> told intr (wk_post fd s)"
  using wk_post_mono [of s _ fd] by (fastforce simp: heard_def told_def)+

lemma post_signals:
  assumes "observing m js intr s" "unsaturated s" "0 \<le> fd" "fd \<in> fd_of m ` set js \<union> set_option intr"
  shows "signalled (wk_post fd s) fd"
proof -
  have "wk_mode s = Starting \<or> fd \<in> set (jo_targets (wk_obs s))" using assms(1,4) by (auto simp: observing_def split: if_splits)
  then show ?thesis using assms(2,3) by (intro wk_post_signals) (simp_all add: unsaturated_def)
qed

lemma begin_heard:
  assumes "wired m js intr" "observing m js intr s" "heard m js s" "told intr s" "wk_mode s = Starting"
  defines "s' \<equiv> s\<lparr> wk_obs := add_customer (wk_counts s) m js
      (case intr of None \<Rightarrow> wk_obs s | Some fd \<Rightarrow> snd (jo_add_target (wk_counts s) fd (wk_obs s))), wk_mode := Waiting \<rparr>"
  shows "observing m js intr s' \<and> heard m js s' \<and> told intr s'"
proof -
  have new: "wk_obs s = JourObserver_new" using assms(2,5) by (simp add: observing_def)
  have sig: "signalled s' fd" if "signalled s fd" "fd \<in> fd_of m ` set js \<union> set_option intr" for fd
    using that assms(5) begin_observes(2) [OF assms(1) new, of fd] by (simp add: signalled_def s'_def)
  have "observing m js intr s'" using begin_observes(1) [OF assms(1) new] by (simp add: observing_def s'_def)
  moreover have "heard m js s'" using assms(3) sig by (simp add: heard_def) (simp add: s'_def)
  moreover have "told intr s'" using assms(4) sig by (auto simp: told_def) (auto simp: s'_def)
  ultimately show ?thesis by blast
qed

lemma set_tlD: "x \<in> set (tl xs) \<Longrightarrow> x \<in> set xs"
  by (cases xs) simp_all

lemma kept_awake_step:
  assumes "wake_step m js intr behind who s s'" "kept_awake m js intr s" "wired m js intr" "behind \<le> 0" "unsaturated s"
  shows "kept_awake m js intr s'"
proof -
  have s: "observing m js intr s" "timed s" "asleep s \<Longrightarrow> heard m js s" "asleep s \<Longrightarrow> told intr s" and p: "on_page s"
    using assms(2) by (auto simp: kept_awake_def)
  show ?thesis
    using assms(1)
  proof (cases rule: wake_step.cases)
    case begin_waiting
    then show ?thesis using s p begin_heard [OF assms(3) s(1)] by (simp add: kept_awake_def asleep_def)
  next
    case idle
    then show ?thesis
      using s(1,2) p due_when_written [OF s(2) assms(4)]
      by (auto simp: kept_awake_def asleep_def observing_def heard_def told_def)
  next
    case (post j n)
    have "heard m js s'" if "asleep s"
    proof -
      have "signalled (wk_post (fd_of m j) s) (fd_of m j)" if "j \<in> set js"
        using that assms(3) by (intro post_signals [OF s(1) assms(5)]) (auto simp: wired_def list_all_iff)
      then show ?thesis using post_keeps(1) [OF s(3) [OF that]] post by (auto simp: heard_def wk_post_update)
    qed
    moreover have "told intr s'" if "asleep s"
      using post_keeps(2) [OF s(4) [OF that]] post by (simp add: told_def wk_post_update)
    ultimately show ?thesis using post s(1,2) p by (simp add: kept_awake_def asleep_def)
  next
    case (interrupt fd n)
    have "told intr s'"
      using interrupt assms(3) post_signals [OF s(1) assms(5), of fd] by (simp add: told_def wk_post_update wired_def)
    moreover have "heard m js s'" if "asleep s"
      using post_keeps(1) [OF s(3) [OF that]] interrupt by (simp add: heard_def wk_post_update)
    ultimately show ?thesis using interrupt s(1,2) p by (simp add: kept_awake_def asleep_def)
  next
    case (close t j)
    then show ?thesis
      using s p close_keeps by (simp add: kept_awake_def) (simp add: asleep_def told_def)
  next
    case (full j)
    then have "signalled s' = signalled s" "observing m js intr s' = observing m js intr s"
      by (simp_all add: fun_eq_iff signalled_def observing_def)
    then show ?thesis using full s p by (simp add: kept_awake_def asleep_def timed_def heard_def told_def on_page_def)
  next
    case (pass d)
    then show ?thesis using s p by (fastforce simp: kept_awake_def asleep_def timed_def heard_def told_def)
  next
    case (read j stop)
    then show ?thesis using s(1,2) p by (auto simp: kept_awake_def asleep_def timed_def dest: set_tlD)
  next
    case (wake n ob)
    then show ?thesis using s(1,2) p by (auto simp: kept_awake_def asleep_def observing_def jo_wait_def split: if_splits)
  next
    case (terminate fd)
    then show ?thesis using s p by (simp add: kept_awake_def asleep_def heard_def told_def)
  qed
qed

lemma kept_awake_reach:
  assumes "wake_reach m js intr behind s" "wired m js intr" "behind \<le> 0" "unsaturated s"
  shows "kept_awake m js intr s"
  using assms(1,4)
proof induction
  case (reach_new now)
  show ?case
    by (simp add: WakeState_new_def kept_awake_def asleep_def observing_def timed_def on_page_def heard_def told_def)
next
  case (reach_step s who s')
  then have u: "unsaturated s" using step_unsaturated by blast
  show ?case by (rule kept_awake_step [OF reach_step.hyps(2) reach_step.IH [OF u] assms(2,3) u])
qed

text \<open>The engines of a configuration are wired by the text the master hands to them.\<close>

lemma fd_of_known:
  assumes "knows m js fds" "list_all fd_ok fds" "length fds = length js" "j \<in> set js"
  shows "0 \<le> fd_of m j"
proof -
  obtain i where "i < length js" "j = js ! i" using assms(4) unfolding in_set_conv_nth by blast
  then show ?thesis using assms(1,2,3) by (auto simp: knows_def fd_of_def list_all_length fd_ok_def)
qed

lemma engine_wired:
  assumes "distinct (get_journals cfg)" "length fds = length (get_journals cfg)" "list_all fd_ok fds"
    "fds_of_env (fds_text (zip (get_journal_names cfg) fds)) = Value m" "w \<in> set (engines cfg)"
  shows "wired m (wr_reads w) None"
proof -
  have "m = fold (\<lambda>(n, fd). omap_set n fd) (zip (List.map journal_name (get_journals cfg)) fds) []"
    using fds_map_printed [OF assms(2,3) get_journals_nonempty] assms(4) by (simp add: get_journal_names_def)
  then have k: "knows m (get_journals cfg) fds" by (rule knows_fold [OF assms(1,2)])
  have "set (wr_reads w) \<subseteq> set (get_journals cfg)"
    using mset_eq_setD [OF engines_reads [of cfg]] assms(5) by auto
  then show ?thesis using fd_of_known [OF k assms(3,2)] by (auto simp: wired_def list_all_iff)
qed

text \<open>C12: No wake-up is lost. Take any engine of a configuration, with the descriptors it reads from the text
  the master hands it, and let writers close frames and post, in any interleaving and in any number up to the
  limit of the counters, and end pages, while the engine starts, sleeps, reads and sleeps again. Whenever the
  engine would sleep although the page it is on of one of its journals holds a frame it has not read, the writer
  of that journal still has to post: once every post is made, a sleeping engine has read every frame of those
  pages, which are all the frames of a journal as long as its writer has not come to a page end. (What is
  written after a page end is never read, as \<open>reader_stuck_at_page_end\<close> of \<open>Journal\<close> shows: it is counted
  here and excepted.) The reader's clock must not be behind the writers'.\<close>

theorem no_wakeup_lost:
  assumes "distinct (get_journals cfg)" "length fds = length (get_journals cfg)" "list_all fd_ok fds"
    "fds_of_env (fds_text (zip (get_journal_names cfg) fds)) = Value m" "w \<in> set (engines cfg)"
    "wake_reach m (wr_reads w) None behind s" "behind \<le> 0" "unsaturated s"
    "wk_mode s = Waiting" "jo_wait (wk_obs s) = None"
  shows "(\<forall>j \<in> set (wr_reads w). (wk_frames s j \<noteq> [] \<longrightarrow> wk_unposted s j > 0) \<and>
             (wk_beyond s j > 0 \<longrightarrow> wk_ended s j)) \<and> \<not> wk_quit s"
proof -
  have "kept_awake m (wr_reads w) None s"
    by (rule kept_awake_reach [OF assms(6) engine_wired [OF assms(1-5)] assms(7,8)])
  then have "heard m (wr_reads w) s" "told None s" "on_page s" using assms(9) by (simp_all add: kept_awake_def asleep_def)
  then show ?thesis using assms(9,10) by (auto simp: heard_def told_def signalled_def on_page_def)
qed

section \<open>The reader catches up\<close>

definition unread :: "journal_id list \<Rightarrow> WakeState \<Rightarrow> nat" where
  "unread js s = (\<Sum>j \<in> set js. length (wk_frames s j))"

lemma unread_read:
  assumes "j \<in> set js" "wk_frames s j \<noteq> []"
  shows "unread js (s\<lparr> wk_frames := (wk_frames s)(j := tl (wk_frames s j)), wk_quit := q \<rparr>) < unread js s"
  unfolding unread_def using assms by (intro sum_strict_mono_ex1) auto

lemma unread_other [simp]:
  "unread js (s\<lparr> wk_mode := md \<rparr>) = unread js s" "unread js (s\<lparr> wk_obs := ob \<rparr>) = unread js s"
  by (simp_all add: unread_def)

definition reader_work :: "journal_id list \<Rightarrow> (WakeState \<times> WakeState) set" where
  "reader_work js = measures
     [unread js, \<lambda>s. of_bool (wk_mode s = Starting), \<lambda>s. length (jo_ready (wk_obs s)), \<lambda>s. of_bool (wk_mode s = Draining)]"

lemma reader_steps_end:
  assumes "wake_step m js intr behind By_reader s s'"
  shows "(s', s) \<in> reader_work js"
  using assms
proof (cases rule: wake_step.cases)
  case (read j stop)
  then have "wk_frames s j \<noteq> []" by (auto simp: wk_due_def split: list.splits)
  then show ?thesis using read unread_read [of j js s stop] by (simp add: reader_work_def)
next
  case (wake n ob)
  then show ?thesis by (auto simp: reader_work_def jo_wait_def MAX_EVENTS_def split: if_splits)
qed (simp_all add: reader_work_def)

text \<open>Where the reader's own steps end.\<close>

lemma reader_stuck:
  assumes "kept_awake m js intr s" "behind \<le> 0" "\<And>s'. \<not> wake_step m js intr behind By_reader s s'"
    "\<forall>j \<in> set js. wk_unposted s j = 0" "wk_intr s = 0"
  shows "wk_mode s = Stopped \<or> wk_mode s = Waiting \<and> (\<forall>j \<in> set js. wk_frames s j = []) \<and> \<not> wk_quit s"
proof (cases "wk_mode s")
  case Starting
  then show ?thesis using assms(3) wake_step.begin_waiting by blast
next
  case Draining
  then have "\<not> wk_quit s \<and> list_ex (wk_due behind s) js" using assms(3) wake_step.idle [OF Draining] by blast
  then obtain j where "j \<in> set js" "wk_due behind s j" by (auto simp: list_ex_iff)
  then show ?thesis using assms(3) wake_step.read [OF Draining] \<open>\<not> wk_quit s \<and> _\<close> by blast
next
  case Waiting
  then have "jo_wait (wk_obs s) = None" using assms(3) wake_step.wake [OF Waiting] by (metis option.exhaust surj_pair)
  then show ?thesis
    using Waiting assms(1,4,5) by (fastforce simp: kept_awake_def asleep_def heard_def told_def signalled_def)
qed simp

lemma reader_only:
  assumes "(wake_step m js intr behind By_reader)\<^sup>*\<^sup>* s s'" "kept_awake m js intr s" "wired m js intr" "behind \<le> 0" "unsaturated s"
  shows "kept_awake m js intr s' \<and> unsaturated s' \<and> wk_unposted s' = wk_unposted s \<and> wk_intr s' = wk_intr s \<and>
    wk_ended s' = wk_ended s \<and> wk_beyond s' = wk_beyond s"
  using assms(1)
proof induction
  case (step t t')
  then have t: "kept_awake m js intr t" "unsaturated t" by auto
  have "wk_unposted t' = wk_unposted t \<and> wk_intr t' = wk_intr t \<and> wk_counts t' = wk_counts t \<and>
      wk_ended t' = wk_ended t \<and> wk_beyond t' = wk_beyond t"
    using step.hyps(2) by (cases rule: wake_step.cases) simp_all
  then show ?case
    using step.IH t kept_awake_step [OF step.hyps(2) t(1) assms(3,4) t(2)] by (simp add: unsaturated_def)
qed (use assms in auto)

lemma reader_halts: "\<exists>s'. (wake_step m js intr behind By_reader)\<^sup>*\<^sup>* s s' \<and> (\<nexists>s''. wake_step m js intr behind By_reader s' s'')"
proof -
  have "wf (reader_work js)" by (simp add: reader_work_def)
  then show ?thesis
  proof (induction s rule: wf_induct_rule)
    case (less s)
    then show ?case
      using reader_steps_end converse_rtranclp_into_rtranclp by (metis rtranclp.rtrancl_refl)
  qed
qed

lemma reader_no_run: "\<not> (\<exists>f. \<forall>i. wake_step m js intr behind By_reader (f i) (f (Suc i)))"
proof -
  have "wf (reader_work js)" by (simp add: reader_work_def)
  then show ?thesis using reader_steps_end unfolding wf_iff_no_infinite_down_chain by blast
qed

text \<open>C13: A reader left to itself catches up. Whatever the writers have done, once their posts are made and no
  call of \<open>terminate\<close> is half way, the reader's own steps cannot go on for ever, and when it can take none it
  either has stopped or sleeps with every frame read of the pages it is on, and no request to stop unheard. The
  exception is what writers have written after a page end: none of it is read on the way, and there is such a
  frame only in a journal whose page has been ended, so that a reader none of whose pages has been ended has
  read everything. This covers a process of a user, which \<open>terminate\<close> interrupts through a descriptor of its
  own.\<close>

theorem reader_catches_up:
  assumes "wake_reach m js intr behind s" "wired m js intr" "behind \<le> 0" "unsaturated s"
    "list_all (\<lambda>j. wk_unposted s j = 0) js" "wk_intr s = 0"
  shows "\<not> (\<exists>f. f 0 = s \<and> (\<forall>i. wake_step m js intr behind By_reader (f i) (f (Suc i)))) \<and>
    (\<exists>s'. (wake_step m js intr behind By_reader)\<^sup>*\<^sup>* s s' \<and> (\<nexists>s''. wake_step m js intr behind By_reader s' s'')) \<and>
    (\<forall>s'. (wake_step m js intr behind By_reader)\<^sup>*\<^sup>* s s' \<and> (\<nexists>s''. wake_step m js intr behind By_reader s' s'') \<longrightarrow>
       (wk_mode s' = Stopped \<or> wk_mode s' = Waiting \<and> (\<forall>j \<in> set js. wk_frames s' j = []) \<and> \<not> wk_quit s') \<and>
       wk_beyond s' = wk_beyond s \<and> (\<forall>j. wk_beyond s j > 0 \<longrightarrow> wk_ended s j))"
proof (rule conjI [OF _ conjI])
  show "\<not> (\<exists>f. f 0 = s \<and> (\<forall>i. wake_step m js intr behind By_reader (f i) (f (Suc i))))"
    using reader_no_run by blast
  show "\<exists>s'. (wake_step m js intr behind By_reader)\<^sup>*\<^sup>* s s' \<and> (\<nexists>s''. wake_step m js intr behind By_reader s' s'')"
    by (rule reader_halts)
  have k: "kept_awake m js intr s" by (rule kept_awake_reach [OF assms(1-4)])
  show "\<forall>s'. (wake_step m js intr behind By_reader)\<^sup>*\<^sup>* s s' \<and> (\<nexists>s''. wake_step m js intr behind By_reader s' s'') \<longrightarrow>
       (wk_mode s' = Stopped \<or> wk_mode s' = Waiting \<and> (\<forall>j \<in> set js. wk_frames s' j = []) \<and> \<not> wk_quit s') \<and>
       wk_beyond s' = wk_beyond s \<and> (\<forall>j. wk_beyond s j > 0 \<longrightarrow> wk_ended s j)"
  proof (rule allI, rule impI)
    fix s' assume s': "(wake_step m js intr behind By_reader)\<^sup>*\<^sup>* s s' \<and> (\<nexists>s''. wake_step m js intr behind By_reader s' s'')"
    note r = reader_only [OF conjunct1 [OF s'] k assms(2-4)]
    then have "wk_mode s' = Stopped \<or> wk_mode s' = Waiting \<and> (\<forall>j \<in> set js. wk_frames s' j = []) \<and> \<not> wk_quit s'"
      using s' assms(5,6) by (intro reader_stuck [OF _ assms(3)]) (auto simp: list_all_iff)
    then show "(wk_mode s' = Stopped \<or> wk_mode s' = Waiting \<and> (\<forall>j \<in> set js. wk_frames s' j = []) \<and> \<not> wk_quit s') \<and>
       wk_beyond s' = wk_beyond s \<and> (\<forall>j. wk_beyond s j > 0 \<longrightarrow> wk_ended s j)"
      using r k by (auto simp: kept_awake_def on_page_def)
  qed
qed

text \<open>
  The two clocks matter. A reader whose clock is behind the writer's by one unit finds the frame it was woken
  for not yet due, goes back to sleep, and no post is left to wake it.
\<close>

definition one_journal :: FdsMap where
  "one_journal = [(journal_name (1, 2), 5)]"

definition after_post :: WakeState where
  "after_post =
     \<lparr> wk_counts = (\<lambda>_. 0)(5 := 1), wk_obs = \<lparr> jo_targets = [5], jo_ready = [], jo_events = [5], jo_received = 0 \<rparr>,
       wk_frames = (\<lambda>_. [])((1, 2) := [7]), wk_ended = (\<lambda>_. False), wk_beyond = (\<lambda>_. 0),
       wk_unposted = (\<lambda>_. 0), wk_mode = Waiting, wk_quit = False, wk_intr = 0, wk_now = 7 \<rparr>"


lemma posted_one [simp]: "posted one_journal (1, 2) = Some 5"
  by (simp add: posted_def one_journal_def)

definition before_post :: WakeState where
  "before_post = after_post
     \<lparr> wk_counts := (\<lambda>_. 0), wk_obs := \<lparr> jo_targets = [5], jo_ready = [], jo_events = [], jo_received = 0 \<rparr>,
       wk_unposted := (\<lambda>_. 0)((1, 2) := 1) \<rparr>"

lemma before_post_reached: "wake_reach one_journal [(1, 2)] None behind before_post"
proof -
  let ?R = "wake_reach one_journal [(1, 2)] None behind"
  let ?s1 = "(WakeState_new 7)\<lparr> wk_obs := \<lparr> jo_targets = [5], jo_ready = [], jo_events = [], jo_received = 0 \<rparr>, wk_mode := Waiting \<rparr>"
  have "observed one_journal [(1, 2)] = [5]" by (simp add: observed_def one_journal_def List.map_filter_def)
  then have "wake_step one_journal [(1, 2)] None behind By_reader (WakeState_new 7) ?s1"
    using wake_step.begin_waiting [of "WakeState_new 7" one_journal "[(1, 2)]" None behind]
    by (simp add: WakeState_new_def JourObserver_new_def add_customer_def jo_add_target_def)
  then have r1: "?R ?s1" by (rule reach_step [OF reach_new])
  have "wake_step one_journal [(1, 2)] None behind By_others ?s1 before_post"
    using wake_step.close [of 7 ?s1 one_journal "[(1, 2)]" None behind "(1, 2)"]
    by (simp add: WakeState_new_def before_post_def after_post_def wk_close_def)
  then show ?thesis by (rule reach_step [OF r1])
qed

definition just_posted :: WakeState where
  "just_posted = after_post\<lparr> wk_obs := \<lparr> jo_targets = [5], jo_ready = [5], jo_events = [], jo_received = 0 \<rparr> \<rparr>"

lemma just_posted_reached: "wake_reach one_journal [(1, 2)] None behind just_posted"
proof -
  have "wake_step one_journal [(1, 2)] None behind By_others before_post just_posted"
    using wake_step.post [of before_post "(1, 2)" 0 one_journal "[(1, 2)]" None behind]
    by (simp add: before_post_def just_posted_def after_post_def wk_post_def ji_post_def fd_of_def jo_signal_def EFD_MAX_def
        fun_upd_idem)
  then show ?thesis by (rule reach_step [OF before_post_reached])
qed

lemma clock_behind_loses_wakeup:
  "wake_reach one_journal [(1, 2)] None 1 after_post \<and> wired one_journal [(1, 2)] None \<and> unsaturated after_post \<and>
   wk_mode after_post = Waiting \<and> jo_wait (wk_obs after_post) = None \<and>
   wk_frames after_post (1, 2) \<noteq> [] \<and> wk_unposted after_post = (\<lambda>_. 0)"
proof -
  let ?R = "wake_reach one_journal [(1, 2)] None 1" and ?s = "after_post\<lparr> wk_mode := Draining \<rparr>"
  have "wake_step one_journal [(1, 2)] None 1 By_reader just_posted ?s"
    using wake_step.wake [of just_posted 1 "wk_obs after_post" one_journal "[(1, 2)]" None 1]
    by (simp add: just_posted_def after_post_def jo_wait_def MAX_EVENTS_def)
  then have r: "?R ?s" by (rule reach_step [OF just_posted_reached])
  have "wake_step one_journal [(1, 2)] None 1 By_reader ?s after_post"
    using wake_step.idle [of ?s 1 "[(1, 2)]" one_journal None] by (simp add: after_post_def wk_due_def)
  then have "?R after_post" by (rule reach_step [OF r])
  then show ?thesis
    by (simp add: after_post_def wired_def fd_of_def unsaturated_def EFD_MAX_def)
qed

lemma reader_catches_up_witness:
  "\<exists>s'. (wake_step one_journal [(1, 2)] None 0 By_reader)\<^sup>*\<^sup>* just_posted s' \<and>
     (wk_mode s' = Stopped \<or> wk_mode s' = Waiting \<and> wk_frames s' (1, 2) = [])"
proof -
  have "wired one_journal [(1, 2)] None" "unsaturated just_posted" "list_all (\<lambda>j. wk_unposted just_posted j = 0) [(1, 2)]"
    "wk_intr just_posted = 0"
    by (simp_all add: wired_def fd_of_def unsaturated_def just_posted_def after_post_def EFD_MAX_def)
  from reader_catches_up [OF just_posted_reached this(1) _ this(2,3,4)] show ?thesis by fastforce
qed

lemma sample_map:
  "fds_of_env (fds_text (zip (get_journal_names sample_cfg) [5, 6, 7, 8, 9, 10])) =
   Value (fold (\<lambda>(n, fd). omap_set n fd) (zip (get_journal_names sample_cfg) [5, 6, 7, 8, 9, 10]) [])"
  unfolding get_journal_names_def
  by (rule fds_map_printed) (simp_all add: get_journals_def sample_cfg_def fd_ok_def)

lemma add_quiet: "jo_ready (fold (\<lambda>fd ob. snd (jo_add_target (\<lambda>_. 0) fd ob)) fds ob) = jo_ready ob"
  by (induction fds arbitrary: ob) (simp_all add: jo_add_target_def Let_def)

lemma no_wakeup_lost_witness:
  "\<exists>m s. wk_mode s = Waiting \<and> jo_wait (wk_obs s) = None \<and> wk_frames s (103111896, jid_flag MD_REQ) = [3] \<and>
     wake_reach m (wr_reads (md_wiring sample_cfg)) None 0 s \<and> wk_unposted s (103111896, jid_flag MD_REQ) > 0"
proof -
  define m :: FdsMap where
    "m = fold (\<lambda>(n, fd). omap_set n fd) (zip (get_journal_names sample_cfg) [5, 6, 7, 8, 9, 10]) []"
  define ob where "ob = add_customer (\<lambda>_. 0) m (wr_reads (md_wiring sample_cfg)) JourObserver_new"
  define j where "j = (103111896 :: u32, jid_flag MD_REQ)"
  let ?R = "wake_reach m (wr_reads (md_wiring sample_cfg)) None 0"
  let ?s1 = "(WakeState_new 3)\<lparr> wk_obs := ob, wk_mode := Waiting \<rparr>"
  let ?s = "?s1\<lparr> wk_frames := (\<lambda>_. [])(j := [3]), wk_unposted := (\<lambda>_. 0)(j := 1) \<rparr>"
  have "wake_step m (wr_reads (md_wiring sample_cfg)) None 0 By_reader (WakeState_new 3) ?s1"
    using wake_step.begin_waiting [of "WakeState_new 3" m "wr_reads (md_wiring sample_cfg)" None 0]
    by (simp add: WakeState_new_def ob_def)
  then have r1: "?R ?s1" by (rule reach_step [OF reach_new])
  have "wake_step m (wr_reads (md_wiring sample_cfg)) None 0 By_others ?s1 ?s"
    using wake_step.close [of 3 ?s1 m "wr_reads (md_wiring sample_cfg)" None 0 j] by (simp add: WakeState_new_def wk_close_def)
  then have r: "?R ?s" by (rule reach_step [OF r1])
  have q: "jo_wait (wk_obs ?s) = None" by (simp add: ob_def add_customer_def add_quiet JourObserver_new_def)
  have j: "j \<in> set (wr_reads (md_wiring sample_cfg))"
    by (simp add: j_def md_wiring_def strategy_location_uid_def sample_cfg_def live_locations)
  have "wk_unposted ?s j > 0"
    using no_wakeup_lost [OF sample_journals_distinct _ _ sample_map [folded m_def] _ r _ _ _ q] j
    by (simp add: get_journals_def sample_cfg_def fd_ok_def engines_def unsaturated_def WakeState_new_def EFD_MAX_def)
  then show ?thesis using r q unfolding j_def by (intro exI [of _ m] exI [of _ ?s]) (simp add: j_def)
qed

declare split_paired_All [simp] split_paired_Ex [simp]

end
