(* ===== verification/Startup.thy ===== *)
theory Startup
  imports Config Engines BinanceBroker BinanceData
begin

text \<open>
  How a system starts: the command line (src/main/option_parser.cpp), the preparation a process makes for its role
  (src/main/mentor.cpp), the processes the master launches (src/main/mentor_run.cpp), and the \<open>on_setup\<close> of
  the three engines (src/engines), which builds their state from the configuration.

  \<open>absolute\<close> is \<open>std::filesystem::absolute\<close> and \<open>files\<close> gives the contents of the files that can be
  opened. Strategies come from libraries of the user and are arguments. A service is made by the name of its
  institution, one that reads a file, simulates a broker or talks to Binance; another name is \<open>Raised\<close>. The
  engines of the theory \<open>Engines\<close> are those whose services are all of this machine: \<open>file_engine\<close> and
  \<open>simulated_engine\<close> give them when a configuration has no other.
\<close>

section \<open>The command line\<close>

record cmd_option =
  co_chr :: "char option"
  co_str :: string
  co_arg :: bool

text \<open>A character of a C string, which ends with a NUL.\<close>

definition at_or_NUL :: "string \<Rightarrow> nat \<Rightarrow> char" where
  "at_or_NUL s i = (if i < length s then s ! i else CHR 0x00)"

definition chr_match :: "string \<Rightarrow> cmd_option \<Rightarrow> bool" where
  "chr_match opt o' \<longleftrightarrow> at_or_NUL opt 1 \<noteq> CHR ''-'' \<and> co_chr o' = Some (at_or_NUL opt 1)"

definition str_match :: "string \<Rightarrow> cmd_option \<Rightarrow> bool" where
  "str_match opt o' \<longleftrightarrow>
     at_or_NUL opt 1 = CHR ''-'' \<and> co_str o' \<noteq> [] \<and> take (length (co_str o')) (drop 2 opt) = co_str o' \<and>
     (at_or_NUL opt (2 + length (co_str o')) = CHR ''='' \<or> at_or_NUL opt (2 + length (co_str o')) = CHR 0x00)"

text \<open>The argument of a matching option and what remains of the command line; \<open>None\<close> is the null pointer.\<close>

definition option_arg :: "string \<Rightarrow> cmd_option \<Rightarrow> string list \<Rightarrow> string option \<times> string list" where
  "option_arg opt o' rest =
     (if chr_match opt o' then (if 2 < length opt then Some (drop 2 opt) else None, rest)
      else if 2 + length (co_str o') < length opt then (Some (drop (3 + length (co_str o')) opt), rest)
      else if co_arg o' then (case rest of [] \<Rightarrow> (None, []) | a # rest \<Rightarrow> (Some a, rest))
      else (None, rest))"

text \<open>\<open>parse\<close>: the options found with their arguments, and what is left; \<open>None\<close> is \<open>exit(1)\<close> after a message.\<close>

function parse_options ::
    "cmd_option list \<Rightarrow> string list \<Rightarrow> ((string \<times> string option) list \<times> string list) option" where
  "parse_options opts [] = Some ([], [])"
| "parse_options opts (opt # rest) =
     (if at_or_NUL opt 0 \<noteq> CHR ''-'' then Some ([], opt # rest)
      else case List.find (\<lambda>o'. chr_match opt o' \<or> str_match opt o') opts of
             None \<Rightarrow> None
           | Some o' \<Rightarrow>
               (if (fst (option_arg opt o' rest) \<noteq> None) \<noteq> co_arg o' then None
                else map_option (\<lambda>(found, left). ((co_str o', fst (option_arg opt o' rest)) # found, left))
                       (parse_options opts (snd (option_arg opt o' rest)))))"
  by pat_completeness auto

termination
  by (relation "measure (\<lambda>(_, argv). length argv)") (auto simp: option_arg_def split: list.splits)

declare parse_options.simps(2) [simp del]

definition mentor_options :: "cmd_option list" where
  "mentor_options = [\<lparr> co_chr = None, co_str = ''role'', co_arg = True \<rparr>, \<lparr> co_chr = None, co_str = ''cfg'', co_arg = True \<rparr>]"

text \<open>The last value of an option, empty when it was not given.\<close>

definition last_value :: "string \<Rightarrow> (string \<times> string option) list \<Rightarrow> string" where
  "last_value name found = foldl (\<lambda>v (n, a). if n = name then (case a of Some x \<Rightarrow> x | None \<Rightarrow> v) else v) [] found"

datatype 'a exit = Exits | Throws | Goes 'a

definition mentor_args :: "string list \<Rightarrow> (string \<times> string) exit" where
  "mentor_args argv =
     (if length argv \<le> 1 then Throws
      else case parse_options mentor_options (tl argv) of
             None \<Rightarrow> Exits
           | Some (found, _) \<Rightarrow> Goes (last_value ''role'' found, last_value ''cfg'' found))"

section \<open>The preparation of a process\<close>

datatype Role = Role_master | Role_cp | Role_md | Role_td

definition role_of :: "string \<Rightarrow> Role option" where
  "role_of s = map_of [(''master'', Role_master), (''cp'', Role_cp), (''md'', Role_md), (''td'', Role_td)] s"

datatype LogLevel = Level_debug | Level_info | Level_warn | Level_err | Level_critical

definition level_of_name :: "string \<Rightarrow> LogLevel option" where
  "level_of_name s = map_of [(''debug'', Level_debug), (''info'', Level_info), (''warn'', Level_warn),
     (''error'', Level_err), (''critical'', Level_critical)] s"

datatype LogSink = Sink_stdout | Sink_basic string | Sink_rotating string nat nat

definition MB :: nat where "MB = 1024 * 1024"

text \<open>\<open>get<size_t>\<close>: a number is cast; the product of the size wraps.\<close>

fun j_size :: "json \<Rightarrow> nat outcome" where
  "j_size (J_bool b) = Value (of_bool b)"
| "j_size (J_int n) = Value (nat (n mod 2 ^ 64))"
| "j_size (J_float x) = Value (nat (i64_of x mod 2 ^ 64))"
| "j_size _ = Raised"

definition mentor_sink :: "string \<Rightarrow> json \<Rightarrow> LogSink outcome" where
  "mentor_sink log_file lg =
     then_do (then_do (j_get lg ''logger'') j_string) (\<lambda>logger.
       if logger = ''basic'' then Value (Sink_basic log_file)
       else if logger = ''rotating''
       then then_do (then_do (j_get lg ''max_size'') j_size) (\<lambda>max_size.
            then_do (then_do (j_get lg ''max_files'') j_size) (\<lambda>max_files.
              Value (Sink_rotating log_file (max_size * MB mod 2 ^ 64) max_files)))
       else Raised)"

text \<open>The log of a process: its level and where it goes. \<open>back()\<close> of an empty path is undefined.\<close>

definition mentor_log :: "string \<Rightarrow> json \<Rightarrow> (LogLevel \<times> LogSink) outcome" where
  "mentor_log role lg =
     then_do (then_do (j_get lg ''level'') j_string) (\<lambda>level_str.
     then_do (then_do (j_get lg ''path'') j_string) (\<lambda>path.
       if path = [] then Undefined
       else case level_of_name level_str of
              None \<Rightarrow> Raised
            | Some level \<Rightarrow>
                then_do (then_do (j_get lg ''mode'') j_string) (\<lambda>mode.
                  if mode \<noteq> ''stdout''
                  then then_do (mentor_sink ((if last path \<noteq> CHR ''/'' then path @ ''/'' else path) @ role @ ''.log'') lg)
                         (\<lambda>sink. Value (level, sink))
                  else Value (level, Sink_stdout))))"

definition mentor_time_unit :: "string \<Rightarrow> TimeUnit outcome" where
  "mentor_time_unit s =
     (if s = ''nano'' then Value NANO else if s = ''milli'' then Value MILLI else if s = ''sec'' then Value SEC else Raised)"

text \<open>
  \<open>setup\<close>: the output directory the master removes, the unit of time, and the log unless the
  process has one already.
\<close>

definition mentor_setup ::
    "(string \<Rightarrow> string) \<Rightarrow> string \<Rightarrow> bool \<Rightarrow> json \<Rightarrow>
     (string option \<times> TimeUnit \<times> (LogLevel \<times> LogSink) option) outcome" where
  "mentor_setup absolute role logger_setup cfg =
     then_do (j_get cfg ''system'') (\<lambda>system.
     then_do (if role = ''master''
              then then_do (then_do (j_get system ''output_root_path'') j_string) (\<lambda>dir. Value (Some (absolute dir)))
              else Value None) (\<lambda>removed.
     then_do (then_do (then_do (j_get system ''time_unit'') j_string) mentor_time_unit) (\<lambda>unit.
     then_do (if logger_setup then Value None
              else then_do (then_do (j_get system ''log'') (mentor_log role)) (\<lambda>l. Value (Some l))) (\<lambda>lg.
       Value (removed, unit, lg)))))"

text \<open>\<open>_init\<close>: the engine of the role, none for the master.\<close>

definition mentor_engine :: "string \<Rightarrow> Role outcome" where
  "mentor_engine role = (case role_of role of None \<Rightarrow> Raised | Some r \<Rightarrow> Value r)"

section \<open>The processes the master launches\<close>

record Launch =
  ln_argv :: "string list"
  ln_env :: "string list"

definition fds_data :: "MainCfg \<Rightarrow> int list \<Rightarrow> string" where
  "fds_data cfg fds = ''FDS='' @ fds_text (zip (get_journal_names cfg) fds)"

definition launch :: "string \<Rightarrow> string \<Rightarrow> string \<Rightarrow> string \<Rightarrow> Launch" where
  "launch binary role cfg_file env =
     \<lparr> ln_argv = [binary, ''--role='' @ role, ''--cfg='' @ cfg_file], ln_env = [env] \<rparr>"

definition launches :: "string \<Rightarrow> string \<Rightarrow> MainCfg \<Rightarrow> int list \<Rightarrow> Launch list" where
  "launches binary cfg_file cfg fds =
     List.map (\<lambda>role. launch binary role cfg_file (fds_data cfg fds)) [''md'', ''cp'', ''td'']"

text \<open>\<open>getenv\<close>: the value behind the name in the first entry that has it.\<close>

definition getenv :: "string list \<Rightarrow> string \<Rightarrow> string option" where
  "getenv env name =
     map_option (drop (Suc (length name))) (List.find (\<lambda>e. take (Suc (length name)) e = name @ ''='') env)"

section \<open>Setting up the engines\<close>

datatype MarketService = From_file FileDataService | From_Binance BinanceData

definition create_data_service :: "(string \<Rightarrow> string option) \<Rightarrow> string \<Rightarrow> json \<Rightarrow> MarketService outcome" where
  "create_data_service files institution elm =
     (if institution = ''binance'' then Value (From_Binance (bd_set_customer (bd_setup elm BinanceData_new)))
      else if institution = ''csv''
      then then_do (then_do (j_at elm ''account'') j_string) (\<lambda>file.
             case fds_setup (files file) FileDataService_new of
               None \<Rightarrow> Raised | Some s \<Rightarrow> Value (From_file (fds_set_customer s)))
      else Raised)"

text \<open>\<open>value(key, default)\<close>, of an object only.\<close>

definition j_value :: "json \<Rightarrow> string \<Rightarrow> (json \<Rightarrow> 'a outcome) \<Rightarrow> 'a option outcome" where
  "j_value j k conv =
     (case j of
        J_obj es \<Rightarrow> (case map_of es k of None \<Rightarrow> Value None | Some v \<Rightarrow> then_do (conv v) (\<lambda>x. Value (Some x)))
      | _ \<Rightarrow> Raised)"

definition sim_config_of :: "json \<Rightarrow> SimConfig outcome" where
  "sim_config_of elm =
     then_do (j_at elm ''extra'') (\<lambda>extra.
     then_do (j_value extra ''commission_rate'' j_double) (\<lambda>commission_rate.
     then_do (j_value extra ''slippage_rate'' j_double) (\<lambda>slippage_rate.
     then_do (j_value extra ''enable_slippage'' j_bool) (\<lambda>enable_slippage.
     then_do (j_value extra ''enable_commission'' j_bool) (\<lambda>enable_commission.
     then_do (j_value extra ''initial_capital'' j_double) (\<lambda>initial_capital.
       Value \<lparr> cfg_commission_rate = commission_rate, cfg_slippage_rate = slippage_rate,
               cfg_enable_slippage = enable_slippage, cfg_enable_commission = enable_commission,
               cfg_initial_capital = initial_capital \<rparr>))))))"

text \<open>
  A new service, set up, with the engine's writers; \<open>load_key\<close> reads the key files of a Binance account. The
  shared board is cleared when a simulated broker is set up.
\<close>

datatype 'k AccountService = Simulated BrokerSim | On_Binance "'k BinanceBroker"

definition create_trade_service ::
    "BrokerSim \<Rightarrow> (string \<Rightarrow> bool \<Rightarrow> 'k option) \<Rightarrow> bool \<Rightarrow> string \<Rightarrow> json \<Rightarrow> 'k AccountService outcome" where
  "create_trade_service fresh load_key is_backtest institution elm =
     (if institution = ''binance'' then then_do (bb_setup load_key elm BinanceBroker_new) (\<lambda>s. Value (On_Binance s))
      else if institution = ''simulation''
      then then_do (sim_config_of elm) (\<lambda>c.
             Value (Simulated ((snd (sim_setup c is_backtest fresh))\<lparr> sim_writers := HasChannel \<rparr>)))
      else Raised)"

text \<open>The loop over the accounts: the service of a destination is replaced when it comes up again.\<close>

fun setup_services ::
    "(string \<Rightarrow> json \<Rightarrow> 'svc outcome) \<Rightarrow> (u32 \<times> string) list \<Rightarrow> json list \<Rightarrow> (u32, 'svc) umap \<Rightarrow>
     (u32, 'svc) umap outcome" where
  "setup_services create ((dest, institution) # accounts) (elm # elms) services =
     then_do (create institution elm) (\<lambda>s. setup_services create accounts elms (umap_set dest s services))"
| "setup_services create _ _ services = Value services"

text \<open>\<open>cfg_["md"][i]\<close> takes an array; without accounts it is not reached.\<close>

definition account_entries :: "json \<Rightarrow> json list outcome" where
  "account_entries j = (case j of J_arr es \<Rightarrow> Value es | _ \<Rightarrow> if j_items j = [] then Value [] else Raised)"

definition md_on_setup :: "(string \<Rightarrow> string option) \<Rightarrow> MainCfg \<Rightarrow> json \<Rightarrow> (u32, MarketService) umap outcome" where
  "md_on_setup files mc cfg =
     then_do (then_do (j_get cfg ''md'') account_entries) (\<lambda>elms.
       setup_services (create_data_service files) (zip (mc_md_dests mc) (mc_md_institutions mc)) elms [])"

definition td_on_setup ::
    "BrokerSim \<Rightarrow> (string \<Rightarrow> bool \<Rightarrow> 'k option) \<Rightarrow> MainCfg \<Rightarrow> GlobalParams \<Rightarrow> json \<Rightarrow> (u32, 'k AccountService) umap outcome" where
  "td_on_setup fresh load_key mc gp cfg =
     then_do (then_do (j_get cfg ''td'') account_entries) (\<lambda>elms.
       setup_services (create_trade_service fresh load_key (gp_is_backtest gp)) (zip (mc_td_dests mc) (mc_td_institutions mc)) elms [])"

text \<open>The engines of the theory \<open>Engines\<close>, when all the services are of this machine.\<close>

fun all_local :: "('svc \<Rightarrow> 'a option) \<Rightarrow> (u32, 'svc) umap \<Rightarrow> (u32, 'a) umap option" where
  "all_local f [] = Some []"
| "all_local f ((k, s) # m) =
     (case f s of None \<Rightarrow> None | Some x \<Rightarrow> map_option (Cons (k, x)) (all_local f m))"

fun file_service :: "MarketService \<Rightarrow> FileDataService option" where
  "file_service (From_file s) = Some s"
| "file_service (From_Binance s) = None"

fun simulated_broker :: "'k AccountService \<Rightarrow> BrokerSim option" where
  "simulated_broker (Simulated s) = Some s"
| "simulated_broker (On_Binance s) = None"

definition file_engine :: "int \<Rightarrow> (u32, MarketService) umap \<Rightarrow> MDEngine option" where
  "file_engine begun services =
     map_option (\<lambda>m. \<lparr> md_live = True, md_begin_time = begun, md_services = m \<rparr>) (all_local file_service services)"

definition simulated_engine :: "int \<Rightarrow> MainCfg \<Rightarrow> (u32, 'k AccountService) umap \<Rightarrow> TDEngine option" where
  "simulated_engine begun mc services =
     map_option (\<lambda>m. \<lparr> td_live = True, td_begin_time = begun, td_services = m, td_started = False,
                       td_uid = td_location_uid mc \<rparr>) (all_local simulated_broker services)"

text \<open>\<open>strategies\<close> is the state the loaded strategies are in after their own set-up.\<close>

definition cp_on_setup :: "'s \<Rightarrow> int \<Rightarrow> MainCfg \<Rightarrow> GlobalParams \<Rightarrow> 's CPEngine" where
  "cp_on_setup strategies begun mc gp =
     \<lparr> cp_live = True, cp_begin_time = begun, cp_pre_start = False, cp_trading_msg_count = 0,
       cp_md_account_count = of_nat (length (mc_md_dests mc)), cp_book = mc_initial_book mc, cp_td_dests = mc_td_dests mc,
       cp_is_backtest = gp_is_backtest gp, cp_is_simulation = gp_is_simulation gp,
       cp_stats_all = (gp_stats_mode gp = Stats_All), cp_stats = [],
       cp_board = \<lparr> db_is_writing = gp_is_simulation gp, db_positions = [] \<rparr>, cp_strategy_state = strategies \<rparr>"

text \<open>The engine's writers by destination; the two for requests come last.\<close>

definition cp_writers :: "MainCfg \<Rightarrow> (u32, journal_id) umap" where
  "cp_writers mc =
     umap_set (jid_flag TD_REQ) (strategy_location_uid mc, jid_flag TD_REQ)
       (umap_set (jid_flag MD_REQ) (strategy_location_uid mc, jid_flag MD_REQ)
         (fold (\<lambda>d. umap_set d (td_location_uid mc, d)) (mc_td_dests mc) []))"


section \<open>The launched processes\<close>

lemma at_or_NUL_simps [simp]:
  "at_or_NUL (c # s) 0 = c" "at_or_NUL (c # s) (Suc n) = at_or_NUL s n"
  by (simp_all add: at_or_NUL_def)

text \<open>An option written \<open>--name=value\<close>.\<close>

lemma parse_named:
  assumes "List.find (\<lambda>o'. chr_match (''--'' @ n @ ''='' @ v) o' \<or> str_match (''--'' @ n @ ''='' @ v) o') opts =
      Some \<lparr> co_chr = None, co_str = n, co_arg = True \<rparr>"
  shows "parse_options opts ((''--'' @ n @ ''='' @ v) # rest) =
    map_option (\<lambda>(found, left). ((n, Some v) # found, left)) (parse_options opts rest)"
proof -
  let ?o = "\<lparr> co_chr = None, co_str = n, co_arg = True \<rparr>"
  have "option_arg (''--'' @ n @ ''='' @ v) ?o rest = (Some v, rest)"
    by (simp add: option_arg_def chr_match_def numeral_3_eq_3)
  then show ?thesis using assms by (subst parse_options.simps) simp
qed

lemma mentor_args_launched:
  assumes "role \<in> {''md'', ''cp'', ''td''}"
  shows "mentor_args (ln_argv (launch binary role cfg_file env)) = Goes (role, cfg_file)"
proof -
  let ?r = "''--'' @ ''role'' @ ''='' @ role" and ?c = "''--'' @ ''cfg'' @ ''='' @ cfg_file"
  have "List.find (\<lambda>o'. chr_match ?r o' \<or> str_match ?r o') mentor_options = Some \<lparr> co_chr = None, co_str = ''role'', co_arg = True \<rparr>"
    "List.find (\<lambda>o'. chr_match ?c o' \<or> str_match ?c o') mentor_options = Some \<lparr> co_chr = None, co_str = ''cfg'', co_arg = True \<rparr>"
    by (simp_all add: mentor_options_def chr_match_def str_match_def at_or_NUL_def)
  from parse_named [OF this(1), of "[?c]"] parse_named [OF this(2), of "[]"]
  have "parse_options mentor_options [?r, ?c] = Some ([(''role'', Some role), (''cfg'', Some cfg_file)], [])" by simp
  then show ?thesis by (simp add: mentor_args_def launch_def last_value_def)
qed

text \<open>The processes the master launches start as they are meant to: each finds its own role and the
  configuration file in its command line, whatever the file is called, and in its environment the text of
  the descriptors, from which it reads the master's descriptor of every journal.\<close>

theorem launched_processes:
  assumes "distinct (get_journals cfg)" "length fds = length (get_journals cfg)" "list_all fd_ok fds"
  shows "List.map (\<lambda>l. mentor_args (ln_argv l)) (launches binary cfg_file cfg fds) =
      List.map (\<lambda>role. Goes (role, cfg_file)) [''md'', ''cp'', ''td''] \<and>
    (\<forall>l \<in> set (launches binary cfg_file cfg fds). \<exists>txt m. getenv (ln_env l) ''FDS'' = Some txt \<and>
       fds_of_env txt = Value m \<and> knows m (get_journals cfg) fds)"
proof -
  let ?txt = "fds_text (zip (get_journal_names cfg) fds)"
  have "getenv [fds_data cfg fds] ''FDS'' = Some ?txt" by (simp add: getenv_def fds_data_def)
  moreover obtain m where "fds_of_env ?txt = Value m" "knows m (get_journals cfg) fds"
    using fds_map_printed [OF assms(2,3) get_journals_nonempty] knows_fold [OF assms(1,2) HOL.refl]
    by (auto simp: get_journal_names_def)
  ultimately show ?thesis by (auto simp: launches_def mentor_args_launched) (auto simp: launch_def)
qed

theorem launched_processes_witness:
  "List.map (\<lambda>l. mentor_args (ln_argv l)) (launches ''btra'' ''a=b.json'' sample_cfg [5, 6, 7, 8, 9, 10]) =
     [Goes (''md'', ''a=b.json''), Goes (''cp'', ''a=b.json''), Goes (''td'', ''a=b.json'')]"
proof -
  have "length (get_journals sample_cfg) = 6" by (simp add: get_journals_def sample_cfg_def)
  then show ?thesis
    using launched_processes [OF sample_journals_distinct, of "[5, 6, 7, 8, 9, 10]" "''btra''" "''a=b.json''"]
    by (simp add: fd_ok_def)
qed

text \<open>The two readings of the unit of time agree where the first accepts the text; where it refuses it, the
  second would take milliseconds.\<close>

lemma time_units_agree:
  "mentor_time_unit s = Value u \<Longrightarrow> time_unit_of s = u" "mentor_time_unit s = Raised \<Longrightarrow> time_unit_of s = MILLI"
  by (auto simp: mentor_time_unit_def time_unit_of_def split: if_splits)

section \<open>The accounts once trading has started\<close>

lemma setup_services_found:
  assumes "setup_services create accounts elms services = Value services'" "length accounts \<le> length elms"
    "\<And>institution elm s. create institution elm = Value s \<Longrightarrow> P institution s"
  shows "(\<forall>(k, s) \<in> set services'. (k, s) \<in> set services \<or> (\<exists>institution. (k, institution) \<in> set accounts \<and> P institution s)) \<and>
    (\<forall>d \<in> fst ` set accounts. umap_find services' d \<noteq> None) \<and>
    (\<forall>k. umap_find services k \<noteq> None \<longrightarrow> umap_find services' k \<noteq> None)"
  using assms
proof (induction create accounts elms services rule: setup_services.induct)
  case (1 create dest institution accounts elm elms services)
  then obtain s where s: "create institution elm = Value s"
      "setup_services create accounts elms (umap_set dest s services) = Value services'"
    by (auto simp: then_do_Value_iff)
  have p: "P institution s" by (rule 1(4) [OF s(1)])
  have ih: "(\<forall>(k, t) \<in> set services'. (k, t) \<in> set (umap_set dest s services) \<or> (\<exists>i. (k, i) \<in> set accounts \<and> P i t)) \<and>
      (\<forall>d \<in> fst ` set accounts. umap_find services' d \<noteq> None) \<and>
      (\<forall>k. umap_find (umap_set dest s services) k \<noteq> None \<longrightarrow> umap_find services' k \<noteq> None)"
    using 1(1) [OF s(2) _ 1(4)] 1(3) by simp
  have "(k, t) \<in> set services \<or> (\<exists>i. (k, i) \<in> set ((dest, institution) # accounts) \<and> P i t)" if "(k, t) \<in> set services'" for k t
    using ih that set_umap_set_subset [of dest s services] p by fastforce
  then show ?case using ih by (auto split: if_splits)
qed auto

lemma all_local_found: "all_local f m = Some m' \<Longrightarrow> umap_find m' k = Option.bind (umap_find m k) f"
  by (induction f m arbitrary: m' rule: all_local.induct) (auto simp: umap_find_def split: option.splits)

lemma all_local_all: "\<forall>(k, s) \<in> set m. f s \<noteq> None \<Longrightarrow> \<exists>m'. all_local f m = Some m'"
  by (induction m) auto

lemma umap_find_mapped: "umap_find (List.map (\<lambda>(k, s). (k, f s)) m) d = map_option f (umap_find m d)"
  by (induction m) (auto simp: umap_find_def)


text \<open>What the set-up of a service leaves.\<close>

definition set_up_broker :: "bool \<Rightarrow> BrokerSim \<Rightarrow> bool" where
  "set_up_broker is_backtest s \<longleftrightarrow> \<not> sim_running s \<and> sim_writers s = HasChannel \<and> sim_is_backtest s = is_backtest"

fun set_up_as :: "bool \<Rightarrow> string \<Rightarrow> 'k AccountService \<Rightarrow> bool" where
  "set_up_as is_backtest institution (Simulated s) \<longleftrightarrow> institution = ''simulation'' \<and> set_up_broker is_backtest s"
| "set_up_as is_backtest institution (On_Binance s) \<longleftrightarrow> institution = ''binance'' \<and> bb_secret_key s \<noteq> None \<and>
     bb_handlers s \<and> bb_uri s = s_wss_endpoint \<and> \<not> bb_is_connected s"

lemma created_service:
  "create_trade_service (BrokerSim_new clock rand) load_key is_backtest institution elm = Value s \<Longrightarrow> set_up_as is_backtest institution s"
  by (auto simp: create_trade_service_def set_up_broker_def sim_setup_def BrokerSim_new_def then_do_Value_iff board_init_def
      bb_setup_def load_api_credentials_def BinanceBroker_new_def split: if_splits option.splits)

lemma account_entries_items: "account_entries j = Value es \<Longrightarrow> es = j_items j"
  by (cases j) (auto simp: account_entries_def split: if_splits)

lemma cp_writers_account:
  "\<lbrakk> d \<in> set (mc_td_dests mc); d \<notin> {jid_flag MD_REQ, jid_flag TD_REQ} \<rbrakk> \<Longrightarrow>
   umap_find (cp_writers mc) d = Some (td_location_uid mc, d)"
proof -
  have "umap_find (fold (\<lambda>d. umap_set d (u, d)) ds m) d = (if d \<in> set ds then Some (u, d) else umap_find m d)"
    for u and ds :: "u32 list" and m :: "(u32, u32 \<times> u32) umap"
    by (induction ds arbitrary: m) auto
  then show "\<lbrakk> d \<in> set (mc_td_dests mc); d \<notin> {jid_flag MD_REQ, jid_flag TD_REQ} \<rbrakk> \<Longrightarrow> ?thesis"
    by (auto simp: cp_writers_def)
qed

text \<open>C26: Every trading account of a configuration has its service once the trading engine has been set up from
  it: one of an institution the configuration gives for the account's destination, set up (a simulated broker
  in the configured mode and with the engine's writers; one of Binance with its key, its address and its
  handlers, not connected yet). The strategies' engine, set up from the same configuration, has its writer for
  the destination, that writer's journal is one the trading engine reads, and its ids lead back to the
  account. If the accounts are all simulated, the trading engine that is told to start has a broker ready under
  each destination. The destination must not be the id of one of the two journals for requests, whose writers
  would take its place; accounts with one destination have one service.\<close>

theorem configured_accounts_trade:
  assumes "MainCfg_of absolute cfg gp0 = Value (mc, gp)"
    "td_on_setup (BrokerSim_new clock rand) load_key mc gp cfg = Value services"
    "d \<in> set (mc_td_dests mc)" "d \<notin> {jid_flag MD_REQ, jid_flag TD_REQ}"
  shows "(\<exists>institution s. (d, institution) \<in> set (zip (mc_td_dests mc) (mc_td_institutions mc)) \<and>
      umap_find services d = Some s \<and> set_up_as (gp_is_backtest gp) institution s) \<and>
    d \<in> set (cp_td_dests (cp_on_setup strategies begun mc gp)) \<and>
    umap_find (cp_writers mc) d = Some (td_location_uid mc, d) \<and> (td_location_uid mc, d) \<in> set (wr_reads (td_wiring mc)) \<and>
    (\<forall>start j. jn_uid j = td_location_uid mc \<and> jn_dest j = d \<longrightarrow>
       to_account_uid (current_frame_uid start j) (td_location_uid mc) = d) \<and>
    (set (mc_td_institutions mc) \<subseteq> {''simulation''} \<longrightarrow>
       (\<exists>td td' s. simulated_engine begun mc services = Some td \<and> td_react mem (Ev_TradingStart t) td = Some ([], td') \<and>
          umap_find (td_services td') d = Some s \<and> sim_state s = BS_Ready \<and> sim_writers s = HasChannel \<and>
          sim_is_backtest s = gp_is_backtest gp \<and> td_uid td' = td_location_uid mc))"
proof -
  obtain elms where e: "then_do (j_get cfg ''td'') account_entries = Value elms"
    "setup_services (create_trade_service (BrokerSim_new clock rand) load_key (gp_is_backtest gp))
       (zip (mc_td_dests mc) (mc_td_institutions mc)) elms [] = Value services"
    using assms(2) by (auto simp: td_on_setup_def then_do_Value_iff)
  obtain ta where ta: "read_accounts elms = Value ta" "mc_td_dests mc = List.map fst ta" "mc_td_institutions mc = List.map snd ta"
    using assms(1) e(1) account_entries_items by (auto simp: MainCfg_of_def then_do_Value_iff read_globals_def)
  have z: "zip (mc_td_dests mc) (mc_td_institutions mc) = ta" by (simp add: ta zip_map_fst_snd)
  have f: "(\<forall>(k, s) \<in> set services. \<exists>institution. (k, institution) \<in> set ta \<and> set_up_as (gp_is_backtest gp) institution s) \<and>
      (\<forall>d \<in> fst ` set ta. umap_find services d \<noteq> None)"
    using setup_services_found [OF e(2), of "set_up_as (gp_is_backtest gp)", unfolded z] created_service
      read_accounts_facts [OF ta(1)] by force
  then obtain s where s: "umap_find services d = Some s" using assms(3) ta(2) by force
  then have "(d, s) \<in> set services" by (simp add: umap_find_def map_of_SomeD)
  with f obtain i where i: "(d, i) \<in> set ta" "set_up_as (gp_is_backtest gp) i s" by fastforce
  have sim: "\<exists>td td' s. simulated_engine begun mc services = Some td \<and> td_react mem (Ev_TradingStart t) td = Some ([], td') \<and>
          umap_find (td_services td') d = Some s \<and> sim_state s = BS_Ready \<and> sim_writers s = HasChannel \<and>
          sim_is_backtest s = gp_is_backtest gp \<and> td_uid td' = td_location_uid mc"
    if all: "set (mc_td_institutions mc) \<subseteq> {''simulation''}"
  proof -
    have one: "\<exists>b. t = Simulated b" if "(k, t) \<in> set services" for k t
    proof -
      obtain j where "(k, j) \<in> set ta" "set_up_as (gp_is_backtest gp) j t" using f \<open>(k, t) \<in> set services\<close> by fastforce
      moreover from this(1) all have "j = ''simulation''" by (force simp: ta(3))
      ultimately show ?thesis by (cases t) auto
    qed
    then have "\<forall>(k, t) \<in> set services. simulated_broker t \<noteq> None" by fastforce
    from all_local_all [OF this] obtain m where m: "all_local simulated_broker services = Some m" by blast
    obtain b where b: "s = Simulated b" using one [OF \<open>(d, s) \<in> set services\<close>] by blast
    then have "umap_find m d = Some b" "set_up_broker (gp_is_backtest gp) b"
      using all_local_found [OF m, of d] s i(2) by simp_all
    then show ?thesis
      by (auto simp: simulated_engine_def m td_on_trading_start_def umap_find_mapped set_up_broker_def sim_start_def)
  qed
  have "to_account_uid (current_frame_uid start j) (td_location_uid mc) = d"
    if "jn_uid j = td_location_uid mc" "jn_dest j = d" for start j
    using frame_uid_account [of start j] that by simp
  then show ?thesis
    using s i z assms(3) cp_writers_account [OF assms(3,4)] sim
    by (auto simp: cp_on_setup_def td_wiring_def)
qed


definition sample_td_json :: json where
  "sample_td_json = J_obj
     [(''system'', J_obj
        [(''mode'', J_str ''live''), (''output_root_path'', J_str ''./output''), (''page_rollback_size'', J_int 10),
         (''backtest'', J_bool True)]),
      (''td'', J_arr [J_obj [(''institution'', J_str ''simulation''), (''account'', J_str ''a1''),
         (''extra'', J_obj [(''enable_slippage'', J_bool False)])]])]"

theorem configured_accounts_trade_witness:
  "\<exists>mc gp services td td' s. MainCfg_of id sample_td_json GlobalParams_new = Value (mc, gp) \<and>
     td_on_setup (BrokerSim_new (\<lambda>_. 0) (\<lambda>_. 0)) (\<lambda>_ _. None :: unit option) mc gp sample_td_json = Value services \<and>
     simulated_engine 0 mc services = Some td \<and>
     td_react (fst (board_init 0 0 False)) (Ev_TradingStart 1) td = Some ([], td') \<and>
     umap_find (td_services td') (jid_build ''simulation'' ''a1'') = Some s \<and> sim_state s = BS_Ready"
proof -
  let ?d = "jid_build ''simulation'' ''a1''"
  obtain mc gp where mc: "MainCfg_of id sample_td_json GlobalParams_new = Value (mc, gp)" "mc_td_dests mc = [?d]"
      "mc_td_institutions mc = [''simulation'']"
    by (simp add: MainCfg_of_def sample_td_json_def j_optional_def read_fds_file_def read_globals_def
        get_mode_by_name_def GlobalParams_new_def)
  obtain services where td: "td_on_setup (BrokerSim_new (\<lambda>_. 0) (\<lambda>_. 0)) (\<lambda>_ _. None :: unit option) mc gp sample_td_json = Value services"
    by (simp add: td_on_setup_def mc sample_td_json_def account_entries_def create_trade_service_def sim_config_of_def j_value_def)
  have "?d \<notin> {jid_flag MD_REQ, jid_flag TD_REQ}"
    by (simp add: flag_ids jid_build_def hash_str_32_def bytes_of_def evaluate_hash)
  from configured_accounts_trade [OF mc(1) td _ this, of "()" 0 "fst (board_init 0 0 False)" 1] mc td show ?thesis by auto
qed

end
