(* ===== verification/ViewConfig.thy ===== *)
theory ViewConfig
  imports Config
begin

text \<open>
  The settings of the viewer (src/tradeview/control/configmanager.cpp): the file of the viewer, the file of
  its instruments, and the configuration of the engines it follows. Files, directories and the parsers
  of JSON texts are arguments; the JSON classes of Qt read a value of another kind as absent, and a number
  that is no whole \<open>int\<close> as zero.
\<close>

section \<open>JSON as Qt reads it\<close>

fun q_object :: "json \<Rightarrow> (string \<times> json) list option" where
  "q_object (J_obj es) = Some es"
| "q_object _ = None"

fun q_array :: "json \<Rightarrow> json list option" where
  "q_array (J_arr vs) = Some vs"
| "q_array _ = None"

fun q_string :: "json \<Rightarrow> string option" where
  "q_string (J_str s) = Some s"
| "q_string _ = None"

fun q_bool :: "json \<Rightarrow> bool option" where
  "q_bool (J_bool b) = Some b"
| "q_bool _ = None"

definition int_range :: "int \<Rightarrow> bool" where
  "int_range n \<longleftrightarrow> - (2 ^ 31) \<le> n \<and> n < 2 ^ 31"

text \<open>\<open>isDouble\<close> and \<open>toInt\<close>, \<open>toDouble\<close>.\<close>

fun q_int :: "json \<Rightarrow> int option" where
  "q_int (J_int n) = Some (if int_range n then n else 0)"
| "q_int (J_float x) = Some (if int_range (i64_of x) \<and> of_i64 (i64_of x) = x then i64_of x else 0)"
| "q_int _ = None"

fun q_double :: "json \<Rightarrow> double option" where
  "q_double (J_int n) = Some (of_i64 n)"
| "q_double (J_float x) = Some x"
| "q_double _ = None"

text \<open>One \<open>if (object.contains(k) && object[k].isX())\<close>: the value read, or the one there was.\<close>

definition q_get :: "(string \<times> json) list \<Rightarrow> string \<Rightarrow> (json \<Rightarrow> 'a option) \<Rightarrow> 'a option" where
  "q_get es k conv = Option.bind (map_of es k) conv"

definition q_or :: "(string \<times> json) list \<Rightarrow> string \<Rightarrow> (json \<Rightarrow> 'a option) \<Rightarrow> 'a \<Rightarrow> 'a" where
  "q_or es k conv old = (case q_get es k conv of Some v \<Rightarrow> v | None \<Rightarrow> old)"

definition q_section :: "(string \<times> json) list \<Rightarrow> string \<Rightarrow> (string \<times> json) list" where
  "q_section es k = (case q_get es k q_object of Some s \<Rightarrow> s | None \<Rightarrow> [])"

definition q_strings :: "json \<Rightarrow> string list option" where
  "q_strings j = map_option (List.map_filter q_string) (q_array j)"

section \<open>State\<close>

record InstrumentConfig =
  ic_symbol :: string
  ic_name :: string
  ic_type :: string
  ic_exchange :: string
  ic_enabled :: bool

record ConfigManager =
  cm_configPath :: string
  cm_instrumentsPath :: string
  cm_core_config_file :: string
  cm_core_engine_cfg :: "MainCfg option"
  cm_simulation :: bool
  cm_instruments :: "InstrumentConfig list"
  cm_defaultInstruments :: "string list"
  cm_updateInterval :: int
  cm_maxInstruments :: int
  cm_configLoaded :: bool
  cm_theme :: string
  cm_language :: string
  cm_autoRefresh :: bool
  cm_refreshInterval :: int
  cm_defaultTimeframe :: string
  cm_maxCandlesticks :: int
  cm_defaultZoomFactor :: double
  cm_defaultSymbols :: "string list"
  cm_dataSource :: string

definition ConfigManager_new :: ConfigManager where
  "ConfigManager_new =
     \<lparr> cm_configPath = [], cm_instrumentsPath = [], cm_core_config_file = [], cm_core_engine_cfg = None,
       cm_simulation = False, cm_instruments = [], cm_defaultInstruments = [], cm_updateInterval = 1000,
       cm_maxInstruments = 20, cm_configLoaded = False, cm_theme = ''dark'', cm_language = ''zh_CN'',
       cm_autoRefresh = True, cm_refreshInterval = 5000, cm_defaultTimeframe = ''1m'', cm_maxCandlesticks = 1000,
       cm_defaultZoomFactor = 1, cm_defaultSymbols = [], cm_dataSource = ''simulation'' \<rparr>"

section \<open>The file of the viewer\<close>

definition read_config_section :: "(string \<times> json) list \<Rightarrow> ConfigManager \<Rightarrow> ConfigManager" where
  "read_config_section es c = c
     \<lparr> cm_core_config_file := q_or es ''core_engine_config'' q_string (cm_core_config_file c),
       cm_instrumentsPath := q_or es ''instruments_file'' q_string (cm_instrumentsPath c),
       cm_simulation := q_or es ''simulation'' q_bool (cm_simulation c),
       cm_theme := q_or es ''theme'' q_string (cm_theme c),
       cm_language := q_or es ''language'' q_string (cm_language c),
       cm_autoRefresh := q_or es ''auto_refresh'' q_bool (cm_autoRefresh c),
       cm_refreshInterval := q_or es ''refresh_interval'' q_int (cm_refreshInterval c) \<rparr>"

definition read_chart_section :: "(string \<times> json) list \<Rightarrow> ConfigManager \<Rightarrow> ConfigManager" where
  "read_chart_section es c = c
     \<lparr> cm_defaultTimeframe := q_or es ''default_timeframe'' q_string (cm_defaultTimeframe c),
       cm_maxCandlesticks := q_or es ''max_candlesticks'' q_int (cm_maxCandlesticks c),
       cm_defaultZoomFactor := q_or es ''zoom_factor'' q_double (cm_defaultZoomFactor c) \<rparr>"

definition read_data_section :: "(string \<times> json) list \<Rightarrow> ConfigManager \<Rightarrow> ConfigManager" where
  "read_data_section es c = c
     \<lparr> cm_defaultSymbols := q_or es ''default_symbols'' q_strings (cm_defaultSymbols c),
       cm_dataSource := q_or es ''data_source'' q_string (cm_dataSource c),
       cm_updateInterval := q_or es ''update_interval'' q_int (cm_updateInterval c) \<rparr>"

definition parseGuiConfig :: "json \<Rightarrow> ConfigManager \<Rightarrow> ConfigManager option" where
  "parseGuiConfig doc c =
     (case q_object doc of
        None \<Rightarrow> None
      | Some es \<Rightarrow>
          Some (read_data_section (q_section es ''data'')
            (read_chart_section (q_section (q_section es ''ui'') ''chart'')
              (read_config_section (q_section es ''config'') c))))"

section \<open>The file of the instruments\<close>

text \<open>An entry that is no object or lacks a required text is passed over.\<close>

definition read_instrument :: "json \<Rightarrow> InstrumentConfig option" where
  "read_instrument v =
     Option.bind (q_object v) (\<lambda>es.
     Option.bind (q_get es ''symbol'' q_string) (\<lambda>symbol.
     Option.bind (q_get es ''name'' q_string) (\<lambda>name.
     Option.bind (q_get es ''type'' q_string) (\<lambda>kind.
     Option.bind (q_get es ''exchange'' q_string) (\<lambda>exchange.
       Some \<lparr> ic_symbol = symbol, ic_name = name, ic_type = kind, ic_exchange = exchange,
              ic_enabled = q_or es ''enabled'' q_bool True \<rparr>)))))"

definition getEnabledInstruments :: "ConfigManager \<Rightarrow> string list" where
  "getEnabledInstruments c = List.map ic_symbol (filter ic_enabled (cm_instruments c))"

definition parseInstrumentsConfig :: "json \<Rightarrow> ConfigManager \<Rightarrow> bool \<times> ConfigManager" where
  "parseInstrumentsConfig doc c =
     (case q_object doc of
        None \<Rightarrow> (False, c)
      | Some es \<Rightarrow>
          (case q_get es ''instruments'' q_array of
             None \<Rightarrow> (False, c)
           | Some vs \<Rightarrow>
               let c = c\<lparr> cm_instruments := List.map_filter read_instrument vs \<rparr>;
                   c = c\<lparr> cm_defaultInstruments :=
                            (case q_get es ''default_instruments'' q_strings of
                               Some symbols \<Rightarrow> symbols
                             | None \<Rightarrow> take 4 (getEnabledInstruments c)) \<rparr>
               in (True, c\<lparr> cm_updateInterval := q_or es ''update_interval'' q_int (cm_updateInterval c),
                            cm_maxInstruments := q_or es ''max_instruments'' q_int (cm_maxInstruments c) \<rparr>)))"

definition validateInstrumentsConfig :: "ConfigManager \<Rightarrow> bool" where
  "validateInstrumentsConfig c \<longleftrightarrow>
     cm_instruments c \<noteq> [] \<and>
     list_all (\<lambda>symbol. list_ex (\<lambda>i. ic_symbol i = symbol) (cm_instruments c)) (cm_defaultInstruments c) \<and>
     distinct (List.map ic_symbol (cm_instruments c))"

section \<open>Loading\<close>

record Files =
  fi_absolute :: "string \<Rightarrow> bool"
  fi_app_dir :: string
  fi_work_dir :: string
  fi_content :: "string \<Rightarrow> string option"
  fi_qjson :: "string \<Rightarrow> json option"
  fi_json :: "string \<Rightarrow> json option"
  fi_abs :: "string \<Rightarrow> string"

text \<open>A relative path is looked for beside the application, then in the working directory.\<close>

definition full_path :: "Files \<Rightarrow> string \<Rightarrow> string" where
  "full_path fi path =
     (if fi_absolute fi path then path
      else let p = fi_app_dir fi @ ''/'' @ path
           in if fi_content fi p \<noteq> None then p else fi_work_dir fi @ ''/'' @ path)"

definition read_document :: "Files \<Rightarrow> string \<Rightarrow> json option" where
  "read_document fi path = Option.bind (fi_content fi (full_path fi path)) (fi_qjson fi)"

definition loadInstrumentsConfig :: "Files \<Rightarrow> string \<Rightarrow> ConfigManager \<Rightarrow> bool \<times> ConfigManager" where
  "loadInstrumentsConfig fi path c =
     (let c = c\<lparr> cm_instrumentsPath := path \<rparr>
      in case read_document fi path of
           None \<Rightarrow> (False, c)
         | Some doc \<Rightarrow>
             let (ok, c) = parseInstrumentsConfig doc c
             in (ok \<and> validateInstrumentsConfig c, c))"

text \<open>The constructor of the engines' configuration from a file; a file that cannot be read fails to parse.\<close>

definition load_core :: "Files \<Rightarrow> string \<Rightarrow> GlobalParams \<Rightarrow> (MainCfg \<times> GlobalParams) outcome" where
  "load_core fi path gp =
     (case Option.bind (fi_content fi path) (fi_json fi) of
        None \<Rightarrow> Raised
      | Some j \<Rightarrow> MainCfg_of (fi_abs fi) j gp)"

definition loadConfig ::
    "Files \<Rightarrow> string \<Rightarrow> ConfigManager \<times> GlobalParams \<Rightarrow> (bool \<times> ConfigManager \<times> GlobalParams) outcome" where
  "loadConfig fi path = (\<lambda>(c, gp).
     let c = c\<lparr> cm_configPath := path \<rparr>
     in case Option.bind (read_document fi path) (\<lambda>doc. parseGuiConfig doc c) of
          None \<Rightarrow> Value (False, c, gp)
        | Some c \<Rightarrow>
            then_do (if cm_core_config_file c \<noteq> []
                     then then_do (load_core fi (cm_core_config_file c) gp) (\<lambda>(mc, gp).
                            Value (c\<lparr> cm_core_engine_cfg := Some mc \<rparr>, gp))
                     else Value (c, gp)) (\<lambda>(c, gp).
              let c = (if cm_instrumentsPath c \<noteq> [] then snd (loadInstrumentsConfig fi (cm_instrumentsPath c) c) else c)
              in Value (True, c\<lparr> cm_configLoaded := True \<rparr>, gp)))"

definition reloadConfig ::
    "Files \<Rightarrow> ConfigManager \<times> GlobalParams \<Rightarrow> (bool \<times> ConfigManager \<times> GlobalParams) outcome" where
  "reloadConfig fi s = loadConfig fi (cm_configPath (fst s)) s"

section \<open>Questions\<close>

definition getInstrumentConfig :: "string \<Rightarrow> ConfigManager \<Rightarrow> InstrumentConfig option" where
  "getInstrumentConfig symbol c = List.find (\<lambda>i. ic_symbol i = symbol) (cm_instruments c)"

definition isInstrumentEnabled :: "string \<Rightarrow> ConfigManager \<Rightarrow> bool" where
  "isInstrumentEnabled symbol c = (case getInstrumentConfig symbol c of Some i \<Rightarrow> ic_enabled i | None \<Rightarrow> False)"


section \<open>The instruments loaded\<close>

lemma find_distinct:
  "distinct (List.map ic_symbol is) \<Longrightarrow>
   List.find (\<lambda>i. ic_symbol i = symbol) is = Some i \<longleftrightarrow> i \<in> set is \<and> ic_symbol i = symbol"
  by (induction "is") (auto simp: image_iff)

lemma enabled_iff:
  assumes "distinct (List.map ic_symbol (cm_instruments c))"
  shows "isInstrumentEnabled symbol c \<longleftrightarrow> symbol \<in> set (getEnabledInstruments c)"
proof (cases "List.find (\<lambda>i. ic_symbol i = symbol) (cm_instruments c)")
  case None
  then have "\<not> isInstrumentEnabled symbol c" by (simp add: isInstrumentEnabled_def getInstrumentConfig_def)
  moreover have "symbol \<notin> set (getEnabledInstruments c)"
    using None by (auto simp: getEnabledInstruments_def find_None_iff)
  ultimately show ?thesis by simp
next
  case (Some i)
  then have "i \<in> set (cm_instruments c)" "ic_symbol i = symbol" using find_distinct [OF assms] by auto
  moreover have "inj_on ic_symbol (set (cm_instruments c))" using assms by (simp add: distinct_map)
  ultimately show ?thesis using Some
    by (auto simp: isInstrumentEnabled_def getInstrumentConfig_def getEnabledInstruments_def dest: inj_onD)
qed

text \<open>Loading the file of the instruments takes over what the file lists, the entries without a required
  text left out, whether or not the list is then accepted. An accepted list is not empty, names no symbol
  twice and knows every default symbol, so that asking for one symbol and listing the enabled ones agree;
  without defaults of its own a list is accepted exactly when it is not empty and names no symbol twice.
  A list that is refused stays in place all the same, although the message says that the defaults are used.\<close>

theorem load_instruments_spec:
  assumes "read_document fi path = Some doc" "q_object doc = Some es" "q_get es ''instruments'' q_array = Some vs"
  shows "\<exists>c'. loadInstrumentsConfig fi path c = (validateInstrumentsConfig c', c') \<and>
    cm_instruments c' = List.map_filter read_instrument vs \<and>
    (if validateInstrumentsConfig c'
     then cm_instruments c' \<noteq> [] \<and> distinct (List.map ic_symbol (cm_instruments c')) \<and>
       set (cm_defaultInstruments c') \<subseteq> ic_symbol ` set (cm_instruments c') \<and>
       (\<forall>symbol. isInstrumentEnabled symbol c' \<longleftrightarrow> symbol \<in> set (getEnabledInstruments c'))
     else True) \<and>
    (if q_get es ''default_instruments'' q_strings = None
     then validateInstrumentsConfig c' \<longleftrightarrow> cm_instruments c' \<noteq> [] \<and> distinct (List.map ic_symbol (cm_instruments c'))
     else True)"
proof -
  obtain ok c' where c': "loadInstrumentsConfig fi path c = (validateInstrumentsConfig c', c')"
      "cm_instruments c' = List.map_filter read_instrument vs"
      "q_get es ''default_instruments'' q_strings = None \<Longrightarrow> cm_defaultInstruments c' = take 4 (getEnabledInstruments c')"
    using assms
    by (auto simp: loadInstrumentsConfig_def parseInstrumentsConfig_def Let_def getEnabledInstruments_def split: option.splits)
  have "set (take 4 (getEnabledInstruments c')) \<subseteq> ic_symbol ` set (cm_instruments c')"
    by (auto simp: getEnabledInstruments_def dest!: in_set_takeD)
  then have "q_get es ''default_instruments'' q_strings = None \<Longrightarrow>
      list_all (\<lambda>symbol. list_ex (\<lambda>i. ic_symbol i = symbol) (cm_instruments c')) (cm_defaultInstruments c')"
    using c'(3) by (force simp: list_all_iff list_ex_iff)
  then show ?thesis
    using c'(1,2) enabled_iff [of c']
    by (intro exI [of _ c']) (auto simp: validateInstrumentsConfig_def list_all_iff list_ex_iff)
qed

definition sample_instrument_json :: "string \<Rightarrow> json" where
  "sample_instrument_json symbol = J_obj [(''symbol'', J_str symbol), (''name'', J_str ''n''), (''type'', J_str ''t''), (''exchange'', J_str ''x'')]"

definition sample_files :: Files where
  "sample_files = \<lparr> fi_absolute = (\<lambda>_. True), fi_app_dir = [], fi_work_dir = [], fi_content = Some,
     fi_qjson = (\<lambda>_. Some (J_obj [(''instruments'', J_arr [sample_instrument_json ''A'', sample_instrument_json ''A''])])),
     fi_json = (\<lambda>_. None), fi_abs = id \<rparr>"

theorem load_instruments_spec_witness:
  "\<exists>c'. loadInstrumentsConfig sample_files [] ConfigManager_new = (False, c') \<and> length (cm_instruments c') = 2"
proof -
  have "read_document sample_files [] = Some (J_obj [(''instruments'', J_arr [sample_instrument_json ''A'', sample_instrument_json ''A''])])"
    by (simp add: read_document_def full_path_def sample_files_def)
  from load_instruments_spec [OF this, of _ _ ConfigManager_new] show ?thesis
    by (fastforce simp: q_get_def q_strings_def List.map_filter_def read_instrument_def sample_instrument_json_def q_or_def)
qed

section \<open>Loading again\<close>

lemma q_or_again [simp]: "q_or es k conv (q_or es k conv x) = q_or es k conv x"
  by (simp add: q_or_def split: option.splits)

text \<open>The sections touch fields of their own.\<close>

lemma sections_keep [simp]:
  "cm_configPath (read_config_section es c) = cm_configPath c" "cm_configPath (read_chart_section es c) = cm_configPath c"
  "cm_configPath (read_data_section es c) = cm_configPath c"
  by (simp_all add: read_config_section_def read_chart_section_def read_data_section_def)

text \<open>The fields a reading of the viewer's file sets, as a function that can be applied twice.\<close>

lemma parse_gui_again:
  assumes "parseGuiConfig doc c = Some c1"
    "cm_core_config_file c2 = cm_core_config_file c1" "cm_instrumentsPath c2 = cm_instrumentsPath c1" "cm_simulation c2 = cm_simulation c1"
    "cm_theme c2 = cm_theme c1" "cm_language c2 = cm_language c1" "cm_autoRefresh c2 = cm_autoRefresh c1"
    "cm_refreshInterval c2 = cm_refreshInterval c1" "cm_defaultTimeframe c2 = cm_defaultTimeframe c1"
    "cm_maxCandlesticks c2 = cm_maxCandlesticks c1" "cm_defaultZoomFactor c2 = cm_defaultZoomFactor c1"
    "cm_defaultSymbols c2 = cm_defaultSymbols c1" "cm_dataSource c2 = cm_dataSource c1"
  shows "\<exists>es. q_object doc = Some es \<and>
    parseGuiConfig doc c2 = Some (c2\<lparr> cm_updateInterval := q_or (q_section es ''data'') ''update_interval'' q_int (cm_updateInterval c2) \<rparr>)"
proof -
  obtain es where es: "q_object doc = Some es" using assms(1) by (auto simp: parseGuiConfig_def split: option.splits)
  then have c1: "c1 = read_data_section (q_section es ''data'')
            (read_chart_section (q_section (q_section es ''ui'') ''chart'')
              (read_config_section (q_section es ''config'') c))" using assms(1) by (simp add: parseGuiConfig_def)
  show ?thesis
    using assms(2-) by (simp add: es parseGuiConfig_def c1 read_data_section_def read_chart_section_def read_config_section_def)
qed

end
