(* ===== verification/StatisticsDump.thy ===== *)
theory StatisticsDump
  imports Json Strategy Csv
begin

text \<open>
  The files of statistics the strategies' engine writes (src/engines/cp/statistics_dump.cpp): one line for
  every bar, every value of the assets and every trade. A stream is the text it has taken, and none before it
  is opened; every record is flushed, and a write does not fail. The C library's \<open>localtime\<close> is an argument.
\<close>

section \<open>The dump\<close>

record StatisticsDump =
  sd_kline :: "string option"
  sd_asset :: "string option"
  sd_trade :: "string option"

definition StatisticsDump_new :: StatisticsDump where
  "StatisticsDump_new = \<lparr> sd_kline = None, sd_asset = None, sd_trade = None \<rparr>"

definition kline_headers :: "string list" where
  "kline_headers =
     [''start_time'', ''end_time'', ''open'', ''high'', ''low'', ''close'', ''volume'', ''start_volume'', ''tick_count'']"

definition asset_headers :: "string list" where
  "asset_headers = [''timestamp'', ''asset_value'']"

definition trade_headers :: "string list" where
  "trade_headers =
     [''timestamp'', ''instrument_id'', ''exchange_id'', ''side'', ''offset'', ''price'', ''volume'', ''commission'', ''tax'']"

text \<open>What goes through \<open>operator<<\<close> with commas between and a line break at the end, onto an open stream.\<close>

definition sd_put :: "string list \<Rightarrow> string option \<Rightarrow> string option" where
  "sd_put fs = map_option (\<lambda>txt. txt @ csv_line CHR '','' fs)"

definition write_csv_headers :: "StatisticsDump \<Rightarrow> StatisticsDump" where
  "write_csv_headers sd = sd
     \<lparr> sd_kline := sd_put kline_headers (sd_kline sd), sd_asset := sd_put asset_headers (sd_asset sd),
       sd_trade := sd_put trade_headers (sd_trade sd) \<rparr>"

text \<open>\<open>init\<close>: which directory can be made and which files can be opened is given; a failure throws.\<close>

definition sd_init :: "(string \<Rightarrow> bool) \<Rightarrow> (string \<Rightarrow> bool) \<Rightarrow> string \<Rightarrow> StatisticsDump \<Rightarrow> StatisticsDump outcome" where
  "sd_init makes opens outdir sd =
     (if \<not> makes outdir then Raised
      else if \<not> opens (outdir @ ''/kline_data.csv'') then Raised
      else if \<not> opens (outdir @ ''/asset_data.csv'') then Raised
      else if \<not> opens (outdir @ ''/trade_data.csv'') then Raised
      else Value (write_csv_headers (sd\<lparr> sd_kline := Some [], sd_asset := Some [], sd_trade := Some [] \<rparr>)))"

section \<open>Fields\<close>

record Tm =
  tm_year :: int
  tm_mon :: int
  tm_mday :: int
  tm_hour :: int
  tm_min :: int
  tm_sec :: int

text \<open>\<open>setfill('0')\<close> and \<open>setw\<close>: zeros in front, of a minus sign too.\<close>

definition setw0 :: "nat \<Rightarrow> int \<Rightarrow> string" where
  "setw0 w n = replicate (w - length (string_of_int n)) CHR ''0'' @ string_of_int n"

definition format_timestamp :: "(int \<Rightarrow> Tm option) \<Rightarrow> int \<Rightarrow> string" where
  "format_timestamp localtime timestamp =
     (if timestamp \<le> 0 then ''1970-01-01 00:00:00''
      else case localtime (timestamp div 1000) of
             None \<Rightarrow> ''Invalid_Time''
           | Some t \<Rightarrow>
               setw0 4 (tm_year t + 1900) @ ''-'' @ setw0 2 (tm_mon t + 1) @ ''-'' @ setw0 2 (tm_mday t) @ '' '' @
               setw0 2 (tm_hour t) @ '':'' @ setw0 2 (tm_min t) @ '':'' @ setw0 2 (tm_sec t))"

fun offset_str :: "Offset \<Rightarrow> string" where
  "offset_str Offset_Open = ''OPEN''"
| "offset_str Offset_Close = ''CLOSE''"
| "offset_str Offset_CloseToday = ''CLOSE_TODAY''"
| "offset_str Offset_CloseYesterday = ''CLOSE_YESTERDAY''"

definition side_str :: "Side \<Rightarrow> string" where
  "side_str side = (if side = Side_Buy then ''BUY'' else ''SELL'')"

definition kline_fields :: "(int \<Rightarrow> Tm option) \<Rightarrow> Bar \<Rightarrow> string list" where
  "kline_fields localtime bar =
     [format_timestamp localtime (bar_start_time bar), format_timestamp localtime (bar_end_time bar),
      string_of_double (bar_open bar), string_of_double (bar_high bar), string_of_double (bar_low bar),
      string_of_double (bar_close bar), string_of_double (bar_volume bar), string_of_double (bar_start_volume bar),
      string_of_int (bar_tick_count bar)]"

definition asset_fields :: "(int \<Rightarrow> Tm option) \<Rightarrow> int \<Rightarrow> double \<Rightarrow> string list" where
  "asset_fields localtime time asset = [format_timestamp localtime time, string_of_double asset]"

definition trade_fields :: "(int \<Rightarrow> Tm option) \<Rightarrow> Trade \<Rightarrow> string list" where
  "trade_fields localtime trade =
     [format_timestamp localtime (tr_trade_time trade), arr_str (tr_instrument_id trade), arr_str (tr_exchange_id trade),
      side_str (tr_side trade), offset_str (tr_offset trade), string_of_double (tr_price trade),
      string_of_double (tr_volume trade), string_of_double (tr_commission trade), string_of_double (tr_tax trade)]"

section \<open>Records\<close>

definition log_asset :: "(int \<Rightarrow> Tm option) \<Rightarrow> int \<Rightarrow> double \<Rightarrow> StatisticsDump \<Rightarrow> StatisticsDump" where
  "log_asset localtime time asset sd = sd\<lparr> sd_asset := sd_put (asset_fields localtime time asset) (sd_asset sd) \<rparr>"

definition log_kline :: "(int \<Rightarrow> Tm option) \<Rightarrow> Bar \<Rightarrow> StatisticsDump \<Rightarrow> StatisticsDump" where
  "log_kline localtime bar sd = sd\<lparr> sd_kline := sd_put (kline_fields localtime bar) (sd_kline sd) \<rparr>"

definition log_trade :: "(int \<Rightarrow> Tm option) \<Rightarrow> Trade \<Rightarrow> StatisticsDump \<Rightarrow> StatisticsDump" where
  "log_trade localtime trade sd = sd\<lparr> sd_trade := sd_put (trade_fields localtime trade) (sd_trade sd) \<rparr>"

text \<open>The calls the engine of the strategies makes, one for each of the records it keeps.\<close>

fun log_record :: "(int \<Rightarrow> Tm option) \<Rightarrow> StatRecord \<Rightarrow> StatisticsDump \<Rightarrow> StatisticsDump" where
  "log_record localtime (Stat_asset t a) = log_asset localtime t a"
| "log_record localtime (Stat_kline bar) = log_kline localtime bar"
| "log_record localtime (Stat_trade trade) = log_trade localtime trade"


section \<open>What the fields are made of\<close>

definition time_char :: "char \<Rightarrow> bool" where
  "time_char c \<longleftrightarrow> is_digit c \<or> c \<in> set ''-+.: _'' \<or> c \<in> set ''naif'' \<or> c \<in> set ''Invalid_Time''"

definition field_text :: "string \<Rightarrow> bool" where
  "field_text s \<longleftrightarrow> s \<noteq> [] \<and> list_all time_char s"

lemma field_text_plain:
  assumes "field_text s"
  shows "s \<noteq> []" "plain CHR '','' CHR 0x22 s" "single_line s"
proof -
  have "\<not> time_char CHR '',''" "\<not> time_char CHR 0x22" "\<not> time_char CHR 0x0A"
    by (simp_all add: time_char_def is_digit_def)
  then show "s \<noteq> []" "plain CHR '','' CHR 0x22 s" "single_line s"
    using assms unfolding field_text_def plain_def single_line_def list_all_iff by auto
qed

lemma digits_time: "list_all is_digit s \<Longrightarrow> list_all time_char s"
  by (auto simp: list_all_iff time_char_def)

lemma time_chars [simp]: "time_char CHR ''-''" "time_char CHR ''.''" "time_char CHR '':''" "time_char CHR '' ''"
  by (simp_all add: time_char_def)

lemma string_of_int_text [simp]: "field_text (string_of_int n)"
  using digits_time [OF to_string_all_digits] by (simp add: field_text_def string_of_int_def)

lemma replicate_zero_text [simp]: "list_all time_char (replicate k CHR ''0'')"
  by (simp add: list_all_iff time_char_def is_digit_def)

lemma setw0_text [simp]: "field_text (setw0 w n)"
  using string_of_int_text [of n] by (simp add: setw0_def field_text_def)

lemma fixed6_text: "field_text (fixed6 n)"
  using digits_time [OF to_string_all_digits] digits_time [OF pad_digits_facts(3) [of "n mod 1000000" 5]]
  by (simp add: fixed6_def field_text_def)

lemma string_of_double_text [simp]: "field_text (string_of_double x)"
  using fixed6_text by (cases x) (auto simp: field_text_def time_char_def)

lemma format_timestamp_text [simp]: "field_text (format_timestamp localtime t)"
proof -
  have "field_text ''1970-01-01 00:00:00''" "field_text ''Invalid_Time''"
    by (simp_all add: field_text_def time_char_def is_digit_def)
  moreover have "list_all time_char (setw0 w n)" for w n using setw0_text [of w n] by (simp add: field_text_def)
  ultimately show ?thesis by (auto simp: format_timestamp_def field_text_def split: option.splits)
qed

text \<open>Names that a comma-separated line can carry as they are.\<close>

definition plain_name :: "string \<Rightarrow> bool" where
  "plain_name s \<longleftrightarrow> plain CHR '','' CHR 0x22 s \<and> single_line s"

definition file_row :: "string list \<Rightarrow> bool" where
  "file_row row \<longleftrightarrow> \<not> blank_row row \<and> plain_row CHR '','' CHR 0x22 row"

lemma file_row_iff: "file_row row \<longleftrightarrow> \<not> blank_row row \<and> list_all plain_name row"
  by (auto simp: file_row_def plain_row_def plain_name_def list_all_iff)

lemma field_text_name [simp]: "field_text s \<Longrightarrow> plain_name s"
  using field_text_plain by (simp add: plain_name_def)

lemma names_of_sides [simp]: "plain_name (side_str s)" "plain_name (offset_str off)"
  by (cases off; simp add: side_str_def plain_name_def plain_def single_line_def)+

lemma file_rows [simp]:
  "file_row (kline_fields localtime bar)" "file_row (asset_fields localtime t a)"
  "\<lbrakk> plain_name (arr_str (tr_instrument_id trade)); plain_name (arr_str (tr_exchange_id trade)) \<rbrakk> \<Longrightarrow>
    file_row (trade_fields localtime trade)"
  by (simp_all add: file_row_iff kline_fields_def asset_fields_def trade_fields_def blank_row_def)

lemma header_rows [simp]: "file_row kline_headers" "file_row asset_headers" "file_row trade_headers"
  by (simp_all add: file_row_def kline_headers_def asset_headers_def trade_headers_def blank_row_def
      plain_row_def plain_def single_line_def)

section \<open>Reading the files back\<close>

text \<open>A file as the reader of comma-separated files takes it: its header and its rows.\<close>

definition csv_read :: "string \<Rightarrow> string list \<times> string list list" where
  "csv_read content =
     (let (hs, r) = read_header (CSVReader_new CHR '','' CHR 0x22 content) in (hs, fst (read_all_rows r)))"

definition csv_text :: "string list list \<Rightarrow> string" where
  "csv_text rows = concat (List.map (csv_line CHR '','') rows)"

lemma csv_text_simps [simp]: "csv_text [] = []" "csv_text (row # rows) = csv_line CHR '','' row @ csv_text rows"
  "csv_text (rows @ rows') = csv_text rows @ csv_text rows'"
  by (simp_all add: csv_text_def)

lemma csv_read_text:
  assumes "file_row headers" "list_all file_row rows"
  shows "csv_read (csv_text (headers # rows)) = (headers, rows)"
  using read_file_text [of "CHR '',''" "CHR 0x22" headers rows] assms
  by (simp add: csv_read_def csv_text_def file_row_def list_all_iff split_beta takeWhile_eq_all_conv)

text \<open>The rows the calls leave in each file.\<close>

definition klines_of :: "StatRecord list \<Rightarrow> Bar list" where
  "klines_of rs = List.map_filter (\<lambda>r. case r of Stat_kline bar \<Rightarrow> Some bar | _ \<Rightarrow> None) rs"

definition assets_of :: "StatRecord list \<Rightarrow> (int \<times> double) list" where
  "assets_of rs = List.map_filter (\<lambda>r. case r of Stat_asset t a \<Rightarrow> Some (t, a) | _ \<Rightarrow> None) rs"

definition trades_of :: "StatRecord list \<Rightarrow> Trade list" where
  "trades_of rs = List.map_filter (\<lambda>r. case r of Stat_trade trade \<Rightarrow> Some trade | _ \<Rightarrow> None) rs"

lemma fold_log:
  assumes "sd_kline sd = Some k" "sd_asset sd = Some a" "sd_trade sd = Some t"
  shows "sd_kline (fold (log_record lt) rs sd) = Some (k @ csv_text (List.map (kline_fields lt) (klines_of rs)))"
    "sd_asset (fold (log_record lt) rs sd) = Some (a @ csv_text (List.map (\<lambda>(t, x). asset_fields lt t x) (assets_of rs)))"
    "sd_trade (fold (log_record lt) rs sd) = Some (t @ csv_text (List.map (trade_fields lt) (trades_of rs)))"
  using assms
proof (induction rs arbitrary: sd k a t)
  case (Cons r rs)
  note defs = log_kline_def log_asset_def log_trade_def sd_put_def klines_of_def assets_of_def trades_of_def
    List.map_filter_simps
  { case 1 then show ?case using Cons.IH(1) by (cases r) (simp_all add: defs) }
  { case 2 then show ?case using Cons.IH(2) by (cases r) (simp_all add: defs) }
  { case 3 then show ?case using Cons.IH(3) by (cases r) (simp_all add: defs) }
qed (simp_all add: klines_of_def assets_of_def trades_of_def List.map_filter_simps)


section \<open>The files of a run\<close>

definition bars_of :: "(Event \<times> u32) list \<Rightarrow> Bar list" where
  "bars_of evs = List.map_filter (\<lambda>(ev, source). case ev of Ev_Bar bar \<Rightarrow> Some bar | _ \<Rightarrow> None) evs"

definition fills_in :: "(Event \<times> u32) list \<Rightarrow> Trade list" where
  "fills_in evs = List.map_filter (\<lambda>(ev, source). case ev of Ev_Trade trade \<Rightarrow> Some trade | _ \<Rightarrow> None) evs"

lemma invoke_stats [simp]:
  "cp_stats_all (snd (invoke strats cb cp)) = cp_stats_all cp" "cp_stats (snd (invoke strats cb cp)) = cp_stats cp"
  by (induction strats arbitrary: cp) (simp_all add: split_beta Let_def)

text \<open>What handling one event adds to the records.\<close>

fun event_records :: "Event \<Rightarrow> Book \<Rightarrow> StatRecord list" where
  "event_records (Ev_Bar bar) book = [Stat_asset (bar_end_time bar) (asset_price book), Stat_kline bar]"
| "event_records (Ev_Trade trade) book = [Stat_trade trade]"
| "event_records _ book = []"

lemma cp_react_stats:
  assumes "cp_react strats ev source mem cp = Some (out, mem', cp')"
  shows "cp_stats_all cp' = cp_stats_all cp \<and>
    (\<exists>book. cp_stats cp' = cp_stats cp @ (if cp_stats_all cp then event_records ev book else []))"
  using assms
  by (cases ev)
    (auto simp: keeping_def cp_on_termination_def cp_on_trading_day_def Let_def cp_on_bar_def cp_log_def
      cp_on_quote_def cp_on_trade_def cp_on_asset_sync_reset_def cp_on_asset_margin_sync_reset_def split_beta
      split: if_splits option.splits bind_splits)

lemma records_of_append:
  "klines_of (rs @ rs') = klines_of rs @ klines_of rs'" "assets_of (rs @ rs') = assets_of rs @ assets_of rs'"
  "trades_of (rs @ rs') = trades_of rs @ trades_of rs'"
  by (simp_all add: klines_of_def assets_of_def trades_of_def map_filter_def)

lemma event_records_of:
  "klines_of (event_records ev book) = bars_of [(ev, source)]" "trades_of (event_records ev book) = fills_in [(ev, source)]"
  "List.map fst (assets_of (event_records ev book)) = List.map bar_end_time (bars_of [(ev, source)])"
  by (cases ev; simp add: klines_of_def assets_of_def trades_of_def bars_of_def fills_in_def map_filter_def)+

lemma bars_of_Cons: "bars_of (e # evs) = bars_of [e] @ bars_of evs" "fills_in (e # evs) = fills_in [e] @ fills_in evs"
  by (simp_all add: bars_of_def fills_in_def map_filter_def)

lemma cp_run_stats:
  assumes "cp_run strats evs mem cp = Some (out, mem', cp')" "cp_stats_all cp"
  shows "\<exists>rs. cp_stats cp' = cp_stats cp @ rs \<and> klines_of rs = bars_of evs \<and> trades_of rs = fills_in evs \<and>
    List.map fst (assets_of rs) = List.map bar_end_time (bars_of evs)"
  using assms
proof (induction strats evs mem cp arbitrary: out rule: cp_run.induct)
  case (1 strats mem cp)
  then show ?case by (simp add: klines_of_def trades_of_def assets_of_def bars_of_def fills_in_def map_filter_def)
next
  case (2 strats ev source evs mem cp)
  then obtain out1 mem1 cp1 out2 where r: "cp_react strats ev source mem cp = Some (out1, mem1, cp1)"
      "cp_run strats evs mem1 cp1 = Some (out2, mem', cp')"
    by (auto split: option.splits)
  obtain book where s: "cp_stats_all cp1" "cp_stats cp1 = cp_stats cp @ event_records ev book"
    using cp_react_stats [OF r(1)] 2(3) by auto
  from 2(1) [OF r(1) refl refl r(2) s(1)] s(2) show ?case
    by (auto simp: records_of_append event_records_of [of ev book source] bars_of_Cons [of "(ev, source)" evs])
qed

text \<open>C27: The files of statistics tell the run. When a backtest that asks for all statistics has handled its
  events, whatever the strategies did, the three files read as comma-separated values give the headers and
  then one line for each bar handled and each trade received, in their order, with the fields of the bar and
  of the trade, and one line of the assets for each bar, stamped with its end. The names of the instruments
  traded must not contain a comma, a quote or a line break.\<close>

theorem statistics_tell_the_run:
  assumes "sd_init makes opens outdir sd = Value sd0" "cp_stats_all cp" "cp_stats cp = []"
    "cp_run strats evs mem cp = Some (out, mem', cp')"
    "list_all (\<lambda>trade. plain_name (arr_str (tr_instrument_id trade)) \<and> plain_name (arr_str (tr_exchange_id trade))) (fills_in evs)"
  shows "\<exists>k a t assets. sd_kline (fold (log_record localtime) (cp_stats cp') sd0) = Some k \<and>
      sd_asset (fold (log_record localtime) (cp_stats cp') sd0) = Some a \<and>
      sd_trade (fold (log_record localtime) (cp_stats cp') sd0) = Some t \<and>
      csv_read k = (kline_headers, List.map (kline_fields localtime) (bars_of evs)) \<and>
      csv_read t = (trade_headers, List.map (trade_fields localtime) (fills_in evs)) \<and>
      csv_read a = (asset_headers, List.map (\<lambda>(t, x). asset_fields localtime t x) assets) \<and>
      List.map fst assets = List.map bar_end_time (bars_of evs)"
proof -
  obtain rs where rs: "cp_stats cp' = rs" "klines_of rs = bars_of evs" "trades_of rs = fills_in evs"
      "List.map fst (assets_of rs) = List.map bar_end_time (bars_of evs)"
    using cp_run_stats [OF assms(4,2)] assms(3) by auto
  have sd0: "sd_kline sd0 = Some (csv_text [kline_headers])" "sd_asset sd0 = Some (csv_text [asset_headers])"
      "sd_trade sd0 = Some (csv_text [trade_headers])"
    using assms(1) by (auto simp: sd_init_def write_csv_headers_def sd_put_def split: if_splits)
  have "csv_read (csv_text (trade_headers # List.map (trade_fields localtime) (fills_in evs))) =
      (trade_headers, List.map (trade_fields localtime) (fills_in evs))"
    using assms(5) by (intro csv_read_text) (simp_all add: list_all_iff)
  moreover have "csv_read (csv_text (kline_headers # List.map (kline_fields localtime) (bars_of evs))) =
      (kline_headers, List.map (kline_fields localtime) (bars_of evs))"
    by (intro csv_read_text) (simp_all add: list_all_iff)
  moreover have "csv_read (csv_text (asset_headers # List.map (\<lambda>(t, x). asset_fields localtime t x) (assets_of rs))) =
      (asset_headers, List.map (\<lambda>(t, x). asset_fields localtime t x) (assets_of rs))"
    by (intro csv_read_text) (auto simp: list_all_iff)
  ultimately show ?thesis
    using rs(4) fold_log [OF sd0, of localtime rs] unfolding rs(1)
    by (simp add: rs(2,3)) (rule exI [of _ "assets_of rs"], simp)
qed

lemma statistics_tell_the_run_witness:
  "\<exists>k. sd_kline (fold (log_record (\<lambda>_. None)) (cp_stats (snd (cp_on_bar [] Bar_zero 0
      ((sample_engine ())\<lparr> cp_stats_all := True \<rparr>)))) (write_csv_headers (StatisticsDump_new
        \<lparr> sd_kline := Some [], sd_asset := Some [], sd_trade := Some [] \<rparr>))) = Some k \<and>
    csv_read k = (kline_headers, [kline_fields (\<lambda>_. None) Bar_zero])"
proof -
  have "sd_init (\<lambda>_. True) (\<lambda>_. True) [] StatisticsDump_new = Value (write_csv_headers (StatisticsDump_new
        \<lparr> sd_kline := Some [], sd_asset := Some [], sd_trade := Some [] \<rparr>))" by (simp add: sd_init_def)
  from statistics_tell_the_run [OF this, of "(sample_engine ())\<lparr> cp_stats_all := True \<rparr>" "[]" "[(Ev_Bar Bar_zero, 0)]"]
  show ?thesis
    by (auto simp: sample_engine_def keeping_def bars_of_def fills_in_def map_filter_def split_beta)
qed

text \<open>The numbers of a line read back as they were when they have at most six decimals.\<close>

definition six_decimals :: "double \<Rightarrow> bool" where
  "six_decimals x \<longleftrightarrow> (\<exists>k < 2 ^ 33 * 1000000. x = lit (of_nat k / 1000000))"

lemma kline_numbers:
  assumes "list_all six_decimals [bar_open bar, bar_high bar, bar_low bar, bar_close bar, bar_volume bar, bar_start_volume bar]"
  shows "List.map stod (take 6 (drop 2 (kline_fields localtime bar))) =
    List.map Some [bar_open bar, bar_high bar, bar_low bar, bar_close bar, bar_volume bar, bar_start_volume bar]"
  using assms stod_printed by (auto simp: kline_fields_def six_decimals_def)

end
