(* ===== verification/JournalFiles.thy ===== *)
theory JournalFiles
  imports Journal Json "HOL-Library.Multiset"
begin

text \<open>
  The files of the journals (src/core/journal/jlocation.cpp, page.cpp): the directory of a location, the name of
  the file a page is kept in, and what is read back from the names of the files in a directory. Paths are
  their texts, composed as \<open>std::filesystem\<close> does for names without backslashes; a directory is the list of
  the names of its regular files, in the order they are visited.
\<close>

section \<open>Paths\<close>

definition path_join :: "string \<Rightarrow> string \<Rightarrow> string" where
  "path_join p q =
     (if q \<noteq> [] \<and> hd q = CHR ''/'' then q
      else if p = [] \<or> last p = CHR ''/'' then p @ q
      else p @ ''/'' @ q)"

text \<open>What follows the last dot, and what precedes it; a dot in front makes no extension.\<close>

definition path_stem :: "string \<Rightarrow> string" where
  "path_stem f =
     (let s = rev (tl (dropWhile (\<lambda>c. c \<noteq> CHR ''.'') (rev f)))
      in if f = ''.'' \<or> f = ''..'' \<or> CHR ''.'' \<notin> set f \<or> s = [] then f else s)"

definition path_extension :: "string \<Rightarrow> string" where
  "path_extension f = drop (length (path_stem f)) f"

section \<open>Where a location keeps its files\<close>

fun mode_dir :: "RunMode \<Rightarrow> string" where
  "mode_dir Mode_LIVE = ''runtime''"
| "mode_dir Mode_BACKTEST = ''backtest''"
| "mode_dir Mode_DATA = ''dataset''"
| "mode_dir Mode_REPLAY = ''replay''"
| "mode_dir Mode_USER_APP = ''runtime''"

definition get_root_dir :: "string \<Rightarrow> RunMode \<Rightarrow> string list \<Rightarrow> string" where
  "get_root_dir root_path m tags = path_join (path_join root_path (mode_dir m)) (foldl path_join [] tags)"

record Locator =
  lc_root :: string
  lc_mode :: RunMode

definition JLocator_new :: "string \<Rightarrow> RunMode \<Rightarrow> string list \<Rightarrow> Locator" where
  "JLocator_new root_path m tags = \<lparr> lc_root = get_root_dir root_path m tags, lc_mode = m \<rparr>"

record Location =
  ln_category :: Module
  ln_mode :: RunMode
  ln_group :: string
  ln_name :: string

definition layout_dir :: "Locator \<Rightarrow> Location \<Rightarrow> layout \<Rightarrow> string" where
  "layout_dir locator location lay =
     path_join (path_join (path_join (path_join (path_join (lc_root locator) (get_module_name (ln_category location)))
       (ln_group location)) (ln_name location)) (get_layout_name lay)) (get_mode_name (ln_mode location))"

definition layout_file :: "Locator \<Rightarrow> Location \<Rightarrow> layout \<Rightarrow> string \<Rightarrow> string" where
  "layout_file locator location lay nm =
     path_join (layout_dir locator location lay) (nm @ ''.'' @ get_layout_name lay)"

section \<open>The file of a page\<close>

definition hex_digit :: "nat \<Rightarrow> char" where
  "hex_digit n = (if n < 10 then digit n else char_of (87 + n))"

fun to_hex :: "nat \<Rightarrow> string" where
  "to_hex n = (if n < 16 then [hex_digit n] else to_hex (n div 16) @ [hex_digit (n mod 16)])"

declare to_hex.simps [simp del]

definition hex8 :: "u32 \<Rightarrow> string" where
  "hex8 d = replicate (8 - length (to_hex (unat d))) CHR ''0'' @ to_hex (unat d)"

definition page_name :: "u32 \<Rightarrow> nat \<Rightarrow> string" where
  "page_name dest page = hex8 dest @ ''.'' @ to_string page"

definition page_file :: "u32 \<Rightarrow> nat \<Rightarrow> string" where
  "page_file dest page = page_name dest page @ ''.journal''"

definition get_page_path :: "Locator \<Rightarrow> Location \<Rightarrow> u32 \<Rightarrow> nat \<Rightarrow> string" where
  "get_page_path locator location dest page = layout_file locator location Layout_JOURNAL (page_name dest page)"

section \<open>What a directory holds\<close>

text \<open>\<open>std::atoi\<close>; a number that no \<open>int\<close> holds is undefined.\<close>

definition atoi :: "string \<Rightarrow> int outcome" where
  "atoi s =
     (let (neg, s) = read_sign (skip_space s); (ds, _) = read_digits s;
          n = (if neg then - int (of_digits ds) else int (of_digits ds))
      in if - (2 ^ 31) \<le> n \<and> n < 2 ^ 31 then Value n else Undefined)"

text \<open>The pages of one destination. The extension is read from its second character on, so there must be one.\<close>

fun page_ids :: "u32 \<Rightarrow> string list \<Rightarrow> nat list outcome" where
  "page_ids dest [] = Value []"
| "page_ids dest (f # fs) =
     (if path_extension f = ''.journal'' \<and> path_stem (path_stem f) = hex8 dest
      then if path_extension (path_stem f) = [] then Undefined
           else then_do (atoi (tl (path_extension (path_stem f)))) (\<lambda>n.
                then_do (page_ids dest fs) (\<lambda>ids. Value (nat (n mod 2 ^ 32) # ids)))
      else page_ids dest fs)"

definition list_page_files :: "string list \<Rightarrow> u32 \<Rightarrow> nat list outcome" where
  "list_page_files files dest = then_do (page_ids dest files) (\<lambda>ids. Value (sort ids))"

definition hex_value :: "char \<Rightarrow> nat option" where
  "hex_value c =
     (let n = of_char c :: nat
      in if 48 \<le> n \<and> n \<le> 57 then Some (n - 48)
         else if 97 \<le> n \<and> n \<le> 102 then Some (n - 87)
         else if 65 \<le> n \<and> n \<le> 70 then Some (n - 55)
         else None)"

definition of_hex :: "string \<Rightarrow> nat" where
  "of_hex ds = foldl (\<lambda>acc c. 16 * acc + (case hex_value c of Some v \<Rightarrow> v | None \<Rightarrow> 0)) 0 ds"

text \<open>\<open>std::stoul\<close> in base 16, cut to 32 bits.\<close>

definition stoul16 :: "string \<Rightarrow> u32 outcome" where
  "stoul16 s =
     (let (neg, s) = read_sign (skip_space s);
          s = (case s of
                 c # x # h # _ \<Rightarrow>
                   if c = CHR ''0'' \<and> (x = CHR ''x'' \<or> x = CHR ''X'') \<and> hex_value h \<noteq> None then drop 2 s else s
               | _ \<Rightarrow> s);
          ds = takeWhile (\<lambda>c. hex_value c \<noteq> None) s
      in if ds = [] \<or> of_hex ds \<ge> 2 ^ 64 then Raised
         else Value (if neg then - of_nat (of_hex ds) else of_nat (of_hex ds)))"

fun location_dests :: "string list \<Rightarrow> u32 list outcome" where
  "location_dests [] = Value []"
| "location_dests (f # fs) =
     (if path_extension f = ''.journal''
      then then_do (stoul16 (path_stem (path_stem f))) (\<lambda>d.
           then_do (location_dests fs) (\<lambda>ds. Value (d # ds)))
      else location_dests fs)"

definition list_location_dest :: "string list \<Rightarrow> u32 list outcome" where
  "list_location_dest files = then_do (location_dests files) (\<lambda>ds. Value (remdups ds))"

section \<open>Names are read back\<close>

lemma path_split:
  assumes "s \<noteq> []" "e \<noteq> []" "CHR ''.'' \<notin> set e"
  shows "path_stem (s @ CHR ''.'' # e) = s" "path_extension (s @ CHR ''.'' # e) = CHR ''.'' # e"
proof -
  have d: "dropWhile (\<lambda>c. c \<noteq> CHR ''.'') (rev (s @ CHR ''.'' # e)) = CHR ''.'' # rev s"
    using dropWhile_upto [of "CHR ''.''" "rev e" "rev s"] assms(3) by simp
  have "s @ CHR ''.'' # e \<noteq> ''.''" "s @ CHR ''.'' # e \<noteq> ''..''"
    using assms by (auto simp: append_eq_Cons_conv)
  then show s: "path_stem (s @ CHR ''.'' # e) = s" using assms(1) d by (simp add: path_stem_def)
  show "path_extension (s @ CHR ''.'' # e) = CHR ''.'' # e" by (simp add: path_extension_def s)
qed

lemma hex_value_digit: "n < 16 \<Longrightarrow> hex_value (hex_digit n) = Some n"
  by (auto simp: hex_value_def hex_digit_def)

lemma to_hex_chars: "c \<in> set (to_hex n) \<Longrightarrow> hex_value c \<noteq> None"
proof (induction n rule: to_hex.induct)
  case (1 n)
  then show ?case by (subst (asm) (2) to_hex.simps) (auto simp: hex_value_digit split: if_splits)
qed

lemma of_hex_snoc: "of_hex (ds @ [c]) = 16 * of_hex ds + (case hex_value c of Some v \<Rightarrow> v | None \<Rightarrow> 0)"
  by (simp add: of_hex_def)

lemma of_hex_to_hex [simp]: "of_hex (to_hex n) = n"
proof (induction n rule: to_hex.induct)
  case (1 n)
  show ?case
  proof (cases "n < 16")
    case True
    then show ?thesis by (subst to_hex.simps) (simp add: of_hex_def hex_value_digit)
  next
    case False
    then show ?thesis using "1.IH" by (subst to_hex.simps) (simp add: of_hex_snoc hex_value_digit)
  qed
qed

lemma of_hex_zeros: "of_hex (replicate k CHR ''0'' @ s) = of_hex s"
proof -
  have "foldl (\<lambda>acc c. 16 * acc + (case hex_value c of Some v \<Rightarrow> v | None \<Rightarrow> 0)) 0 (replicate k CHR ''0'') = 0"
    by (induction k) (simp_all add: hex_value_def)
  then show ?thesis by (simp add: of_hex_def)
qed

lemma hex8_facts: "hex8 d \<noteq> []" "list_all (\<lambda>c. hex_value c \<noteq> None) (hex8 d)" "of_hex (hex8 d) = unat d"
proof -
  have "to_hex n \<noteq> []" for n by (subst to_hex.simps) simp
  then show "hex8 d \<noteq> []" by (simp add: hex8_def)
  show "list_all (\<lambda>c. hex_value c \<noteq> None) (hex8 d)"
    using to_hex_chars by (auto simp: hex8_def list_all_iff hex_value_def)
  show "of_hex (hex8 d) = unat d" by (simp add: hex8_def of_hex_zeros)
qed

lemma hex8_inj: "hex8 d = hex8 d' \<longleftrightarrow> d = d'"
  by (metis hex8_facts(3) unsigned_word_eqI)


lemma hex_chars_plain: "hex_value c \<noteq> None \<Longrightarrow> c \<noteq> CHR ''.'' \<and> c \<noteq> CHR ''/'' \<and> c \<noteq> CHR ''x'' \<and> c \<noteq> CHR ''X'' \<and>
    c \<noteq> CHR ''-'' \<and> c \<noteq> CHR ''+'' \<and> \<not> is_space c"
  by (auto simp: hex_value_def is_space_def)

lemma page_name_parts:
  "path_stem (page_file d p) = page_name d p" "path_extension (page_file d p) = ''.journal''"
  "path_stem (page_name d p) = hex8 d" "path_extension (page_name d p) = CHR ''.'' # to_string p"
proof -
  have n: "page_name d p \<noteq> []" by (simp add: page_name_def)
  show "path_stem (page_file d p) = page_name d p" "path_extension (page_file d p) = ''.journal''"
    using path_split [OF n, of "''journal''"] by (simp_all add: page_file_def)
  have "CHR ''.'' \<notin> set (to_string p)"
    using to_string_all_digits [of p] is_digit_plain by (auto simp: list_all_iff)
  then show "path_stem (page_name d p) = hex8 d" "path_extension (page_name d p) = CHR ''.'' # to_string p"
    using path_split [of "hex8 d" "to_string p"] hex8_facts(1) by (simp_all add: page_name_def)
qed

lemma atoi_printed: "n < 2 ^ 31 \<Longrightarrow> atoi (to_string n) = Value (int n)"
  using read_plain [of "to_string n" "[]"] read_digits_append [of "to_string n" "[]"]
  by (simp add: atoi_def to_string_all_digits)

lemma stoul16_hex8: "stoul16 (hex8 d) = Value d"
proof -
  obtain c cs where h: "hex8 d = c # cs" using hex8_facts(1) by (cases "hex8 d") auto
  have all: "list_all (\<lambda>c. hex_value c \<noteq> None) (c # cs)" using hex8_facts(2) [of d] by (simp only: h)
  then have c: "read_sign (skip_space (c # cs)) = (False, c # cs)"
    using hex_chars_plain [of c] by (auto simp: skip_space_def read_sign_def)
  have x: "(case c # cs of c # x # h # _ \<Rightarrow>
        if c = CHR ''0'' \<and> (x = CHR ''x'' \<or> x = CHR ''X'') \<and> hex_value h \<noteq> None then drop 2 (c # cs) else c # cs
      | _ \<Rightarrow> c # cs) = c # cs"
    using all hex_chars_plain by (cases cs; cases "tl cs") auto
  have t: "takeWhile (\<lambda>c. hex_value c \<noteq> None) (c # cs) = c # cs"
    using all by (auto simp: list_all_iff takeWhile_eq_all_conv)
  have "unat d < 2 ^ LENGTH(32)" by (rule unsigned_less)
  then have "unat d < 2 ^ 64" by simp
  then show ?thesis using c x t hex8_facts(3) [of d] by (simp add: stoul16_def h Let_def)
qed

section \<open>The directory stands for the pages\<close>

text \<open>The files of the journals of one location: for every destination the pages of its store.\<close>

definition store_files :: "u32 \<times> store \<Rightarrow> string list" where
  "store_files = (\<lambda>(d, st). List.map (\<lambda>(p, page). page_file d p) st)"

definition small_ids :: "store \<Rightarrow> bool" where
  "small_ids st \<longleftrightarrow> list_all (\<lambda>(p, page). p < 2 ^ 31) st"

lemma page_ids_files:
  "list_all (\<lambda>(d, p). p < 2 ^ 31) ps \<Longrightarrow>
   page_ids d (List.map (\<lambda>(d, p). page_file d p) ps) = Value (List.map snd (filter (\<lambda>(d', p). d' = d) ps))"
  by (induction ps) (auto simp: page_name_parts hex8_inj atoi_printed)

lemma location_dests_files:
  "location_dests (List.map (\<lambda>(d, p). page_file d p) ps) = Value (List.map fst ps)"
  by (induction ps) (auto simp: page_name_parts stoul16_hex8)

lemma page_file_inj: "page_file d p = page_file d' p' \<longleftrightarrow> d = d' \<and> p = p'"
  by (metis hex8_inj list.inject page_name_parts to_string_inj)

lemma files_are_pairs:
  assumes "mset files = mset (List.map (\<lambda>(d, p). page_file d p) ps)"
  obtains qs where "mset qs = mset ps" "files = List.map (\<lambda>(d, p). page_file d p) qs"
proof
  let ?f = "\<lambda>(d, p). page_file d p"
  have f: "inv ?f (?f x) = x" for x by (rule inv_f_f) (auto intro!: injI simp: page_file_inj)
  have "mset (List.map (inv ?f) files) = image_mset (inv ?f) (mset files)" by simp
  also have "\<dots> = image_mset (\<lambda>x. inv ?f (?f x)) (mset ps)" by (simp add: assms image_mset.compositionality o_def)
  finally show "mset (List.map (inv ?f) files) = mset ps" by (simp add: f)
  have "set files \<subseteq> range ?f" using mset_eq_setD [OF assms] by auto
  then show "files = List.map ?f (List.map (inv ?f) files)" by (auto intro!: map_idI [symmetric] simp: f_inv_into_f subset_iff)
qed

lemma filter_store:
  fixes d :: u32 and stores :: "(u32 \<times> store) list"
  shows "distinct (List.map fst stores) \<Longrightarrow> (d, st) \<in> set stores \<Longrightarrow>
   filter (\<lambda>(d', p). d' = d) (concat (List.map (\<lambda>(d, st). List.map (\<lambda>(p, page). (d, p)) st) stores)) =
   List.map (\<lambda>(p, page). (d, p)) st"
proof (induction stores)
  case (Cons x stores)
  have other: "filter (\<lambda>(d', p). d' = d) (List.map (\<lambda>(p, page). (e, p)) st') = (if e = d then List.map (\<lambda>(p, page). (d, p)) st' else [])"
    for e st' by (auto simp: filter_map o_def case_prod_unfold)
  have none: "d \<notin> fst ` set xs \<Longrightarrow>
      filter (\<lambda>(d', p). d' = d) (concat (List.map (\<lambda>(d, st). List.map (\<lambda>(p, page). (d, p)) st) xs)) = []" for xs :: "(u32 \<times> store) list"
    by (induction xs) (auto simp: other)
  show ?case using Cons by (cases x) (auto simp: other none image_iff)
qed simp

lemma keys_of_one: "List.map fst (List.map (\<lambda>(p, page). (e, p)) st) = replicate (length st) e"
  by (induction st) auto

lemma store_dests:
  "set (List.map fst (concat (List.map (\<lambda>(d, st). List.map (\<lambda>(p, page). (d, p)) st) stores))) =
   {d. \<exists>st. (d, st) \<in> set stores \<and> st \<noteq> []}"
proof -
  have "List.map fst (concat (List.map (\<lambda>(d, st). List.map (\<lambda>(p, page). (d, p)) st) stores)) =
      concat (List.map (\<lambda>(d, st). replicate (length st) d) stores)"
    by (induction stores) (auto simp: keys_of_one simp del: map_map)
  then show ?thesis by (auto simp: set_replicate_conv_if split: if_splits)
qed

text \<open>C28: The directory of a location stands for the pages kept in it. Written in any order, by any number of
  journals, the files of the pages are listed for each destination as the ids of its pages in rising order, so
  that the search for a page works on the store, and the destinations read back from the names are those that
  have a page. Two pages of one location share a file only if they are the same page of the same journal.\<close>

theorem directory_is_store:
  assumes "distinct (List.map fst stores)" "list_all (\<lambda>(d, st). omap_wf st \<and> small_ids st) stores"
    "mset files = mset (concat (List.map store_files stores))"
  shows "list_all (\<lambda>(d, st). list_page_files files d = Value (list_page_id st)) stores \<and>
    (\<exists>ds. list_location_dest files = Value ds \<and> distinct ds \<and> set ds = {d. \<exists>st. (d, st) \<in> set stores \<and> st \<noteq> []}) \<and>
    (\<forall>d p d' p'. page_file d p = page_file d' p' \<longleftrightarrow> d = d' \<and> p = p')"
proof -
  define ps where "ps = concat (List.map (\<lambda>(d, st). List.map (\<lambda>(p, page). (d, p)) st) stores)"
  have "concat (List.map store_files stores) = List.map (\<lambda>(d, p). page_file d p) ps"
    by (auto simp: ps_def store_files_def map_concat o_def intro!: arg_cong [where f = concat])
  with assms(3) obtain qs where qs: "mset qs = mset ps" "files = List.map (\<lambda>(d, p). page_file d p) qs"
    using files_are_pairs by metis
  have small: "list_all (\<lambda>(d, p). p < 2 ^ 31) qs"
    using assms(2) mset_eq_setD [OF qs(1)] by (fastforce simp: list_all_iff ps_def small_ids_def)
  have listed: "list_page_files files d = Value (list_page_id st)" if "(d, st) \<in> set stores" for d st
  proof -
    let ?q = "\<lambda>(d', p :: nat). d' = d"
    have "mset (List.map snd (filter ?q qs)) = mset (List.map snd (filter ?q ps))" by (simp add: qs(1))
    also have "\<dots> = mset (List.map fst st)"
      using filter_store [OF assms(1) that] by (simp add: ps_def case_prod_unfold o_def)
    finally have "sort (List.map snd (filter ?q qs)) = sort (List.map fst st)" 
      by (intro properties_for_sort) simp_all
    moreover have "sorted (List.map fst st)"
      using assms(2) that by (auto simp: list_all_iff omap_wf_def strict_sorted_iff)
    ultimately show ?thesis
      using page_ids_files [OF small] by (simp add: list_page_files_def qs(2) sorted_sort_id list_page_id_def)
  qed
  have "set (List.map fst ps) = {d. \<exists>st. (d, st) \<in> set stores \<and> st \<noteq> []}"
    unfolding ps_def by (rule store_dests)
  moreover have "set (List.map fst qs) = set (List.map fst ps)" using mset_eq_setD [OF qs(1)] by simp
  ultimately have "set (remdups (List.map fst qs)) = {d. \<exists>st. (d, st) \<in> set stores \<and> st \<noteq> []}"
    unfolding set_remdups by (rule trans [rotated])
  moreover have "list_location_dest files = Value (remdups (List.map fst qs))"
    unfolding list_location_dest_def qs(2) location_dests_files by simp
  ultimately have "\<exists>ds. list_location_dest files = Value ds \<and> distinct ds \<and> set ds = {d. \<exists>st. (d, st) \<in> set stores \<and> st \<noteq> []}"
    by (intro exI [of _ "remdups (List.map fst qs)"] conjI distinct_remdups)
  moreover have "list_all (\<lambda>(d, st). list_page_files files d = Value (list_page_id st)) stores"
    using listed by (auto simp: list_all_iff)
  ultimately show ?thesis using page_file_inj by blast
qed


lemma directory_is_store_witness:
  "list_page_files [''0000000a.2.journal'', ''000000ff.1.journal'', ''0000000a.10.journal'', ''0000000a.1.journal''] 10 = Value [1, 2, 10]"
proof -
  define stores :: "(u32 \<times> store) list" where
    "stores = [(10, [(1, Page_zero), (2, Page_zero), (10, Page_zero)]), (255, [(1, Page_zero)])]"
  have "page_file 10 1 = ''0000000a.1.journal''" "page_file 10 2 = ''0000000a.2.journal''"
    "page_file 10 10 = ''0000000a.10.journal''" "page_file 255 1 = ''000000ff.1.journal''"
    by code_simp+
  then have "mset [''0000000a.2.journal'', ''000000ff.1.journal'', ''0000000a.10.journal'', ''0000000a.1.journal''] =
      mset (concat (List.map store_files stores))"
    by (simp add: stores_def store_files_def)
  then have "list_all (\<lambda>(d, st). list_page_files [''0000000a.2.journal'', ''000000ff.1.journal'', ''0000000a.10.journal'',
      ''0000000a.1.journal''] d = Value (list_page_id st)) stores"
    using directory_is_store [of stores] by (simp add: stores_def small_ids_def)
  then show ?thesis by (simp add: stores_def list_page_id_def)
qed

text \<open>The engines' journals lie in directories of their own, one for each module and mode.\<close>

definition engine_location :: "RunMode \<Rightarrow> Module \<Rightarrow> Location" where
  "engine_location m c = \<lparr> ln_category = c, ln_mode = m, ln_group = [], ln_name = [] \<rparr>"

lemma path_join_plain: "\<lbrakk> q \<noteq> []; hd q \<noteq> CHR ''/''; p \<noteq> []; last p \<noteq> CHR ''/'' \<rbrakk> \<Longrightarrow> path_join p q = p @ ''/'' @ q"
  and path_join_slash: "\<lbrakk> q = [] \<or> hd q \<noteq> CHR ''/''; p \<noteq> []; last p = CHR ''/'' \<rbrakk> \<Longrightarrow> path_join p q = p @ q"
  and path_join_empty: "\<lbrakk> p \<noteq> []; last p \<noteq> CHR ''/'' \<rbrakk> \<Longrightarrow> path_join p [] = p @ ''/''"
  by (simp_all add: path_join_def)

lemma dir_names: "mode_dir m \<noteq> []" "hd (mode_dir m) \<noteq> CHR ''/''" "last (mode_dir m) \<noteq> CHR ''/''"
  "get_module_name c \<noteq> []" "hd (get_module_name c) \<noteq> CHR ''/''" "last (get_module_name c) \<noteq> CHR ''/''"
  "get_mode_name m \<noteq> []" "hd (get_mode_name m) \<noteq> CHR ''/''"
  by (cases m; cases c; simp)+

lemma engine_dir:
  "layout_dir (JLocator_new root_path m []) (engine_location m c) Layout_JOURNAL =
   path_join root_path (mode_dir m) @ ''/'' @ get_module_name c @ ''/journal/'' @ get_mode_name m"
proof -
  define r where "r = path_join root_path (mode_dir m)"
  have r: "r \<noteq> []" "last r \<noteq> CHR ''/''" using dir_names(1-3) [of m] by (simp_all add: r_def path_join_def)
  show ?thesis
    using r dir_names(1-3,7,8) [of m] dir_names(4-6) [of c]
    by (simp add: layout_dir_def JLocator_new_def get_root_dir_def engine_location_def r_def [symmetric]
        path_join_plain path_join_slash path_join_empty)
qed

lemma engine_dirs_differ:
  "layout_dir (JLocator_new root_path m []) (engine_location m c) Layout_JOURNAL =
   layout_dir (JLocator_new root_path m []) (engine_location m c') Layout_JOURNAL \<longleftrightarrow> c = c'"
  by (cases c; cases c'; simp add: engine_dir)

end
