(* ===== verification/Backtest.thy ===== *)
theory Backtest
  imports Lockstep StatisticsDump MyStrategy
begin

text \<open>
  A whole backtest: the step relation of the three engines, started as their set-up leaves them with
  one data account that replays a file. What the strategies' engine records is the file, bar by bar;
  and the run ends, with every engine stopped.
\<close>

section \<open>The rows of a file\<close>

definition rows_left :: "CSVReader \<Rightarrow> string list list" where
  "rows_left r = fst (read_all_rows r)"

definition opened :: "string \<Rightarrow> CSVReader" where
  "opened content = CSVReader_new CHR '','' CHR 0x22 content"

definition data_rows :: "string \<Rightarrow> string list list" where
  "data_rows content = rows_left (snd (read_header (opened content)))"

lemma rows_left_loop: "rows_left r = fst (read_rows_loop r)"
  by (auto simp: rows_left_def read_all_rows_def read_rows_loop.simps [of r] read_row_into_def)

text \<open>One row more is one row less to come.\<close>

lemma read_row_left:
  assumes "read_row_into buf r = (ok, row, r')"
  shows "rows_left r = (if ok then row # rows_left r' else [])"
proof -
  have "fst (read_row_into [] r) = ok" "snd (snd (read_row_into [] r)) = r'" "ok \<Longrightarrow> fst (snd (read_row_into [] r)) = row"
    using assms by (auto simp: read_row_into_def Let_def split: if_splits option.splits prod.splits)
  then show ?thesis by (cases ok) (simp_all add: rows_left_loop read_rows_loop.simps [of r] split_beta)
qed

lemma read_row_shrinks:
  assumes "read_row_into buf r = (ok, row, r')"
  shows "length (cr_rest r') \<le> length (cr_rest r)" "ok \<Longrightarrow> length (cr_rest r') < length (cr_rest r)"
proof -
  have "length (cr_rest r') \<le> length (cr_rest r)" if "getline r = (l, r')" for l
    using that getline_shorter [of r] by (cases l) (fastforce simp: getline_def Let_def split: if_splits)+
  then show "length (cr_rest r') \<le> length (cr_rest r)"
    using assms by (auto simp: read_row_into_def Let_def split: option.splits prod.splits if_splits)
  show "ok \<Longrightarrow> length (cr_rest r') < length (cr_rest r)" using assms read_row_into_shorter [of buf r row r'] by simp
qed

text \<open>The bars a service makes of rows. The present time of each reading is open.\<close>

inductive replays :: "(string \<Rightarrow> int) \<Rightarrow> TimeUnit \<Rightarrow> string list list \<Rightarrow> Bar list \<Rightarrow> bool"
  for parse_day :: "string \<Rightarrow> int" and unit :: TimeUnit where
  nothing: "replays parse_day unit [] []"
| a_bar:
    "\<lbrakk> replays parse_day unit rows bars; row_bar parse_day unit now row = Value (Some bar) \<rbrakk>
     \<Longrightarrow> replays parse_day unit (rows @ [row]) (bars @ [bar])"
| no_bar:
    "\<lbrakk> replays parse_day unit rows bars; row_bar parse_day unit now row = Raised \<or> row_bar parse_day unit now row = Value None \<rbrakk>
     \<Longrightarrow> replays parse_day unit (rows @ [row]) bars"


section \<open>What the engines write\<close>

definition to_chan :: "Channel \<Rightarrow> outbox \<Rightarrow> Event list" where
  "to_chan c out = List.map snd (filter (\<lambda>x. fst x = c) out)"

lemma to_chan_simps [simp]:
  "to_chan c [] = []" "to_chan c ((d, ev) # out) = (if d = c then ev # to_chan c out else to_chan c out)"
  "to_chan c (xs @ ys) = to_chan c xs @ to_chan c ys"
  by (simp_all add: to_chan_def)

lemma deliver_chan: "deliver out ch c = ch c @ to_chan c out"
  by (simp add: deliver_def to_chan_def)

lemma to_chan_Pair [simp]: "to_chan c (List.map (Pair d) evs) = (if c = d then evs else [])"
  by (induction evs) auto

text \<open>The requests of strategies go to the journals of the accounts and stop nothing.\<close>

definition for_accounts :: "outbox \<Rightarrow> bool" where
  "for_accounts out \<longleftrightarrow> (\<forall>(c, ev) \<in> set out. c \<in> range Ch_Td \<and> ev \<noteq> Ev_Termination)"

lemma for_accounts_simps [simp]:
  "for_accounts []" "for_accounts (xs @ ys) \<longleftrightarrow> for_accounts xs \<and> for_accounts ys"
  by (auto simp: for_accounts_def)

lemma for_accounts_elsewhere: "\<lbrakk> for_accounts out; c \<notin> range Ch_Td \<rbrakk> \<Longrightarrow> to_chan c out = []"
  by (auto simp: for_accounts_def to_chan_def filter_empty_conv)

lemma for_accounts_goes_on: "for_accounts out \<Longrightarrow> Ev_Termination \<notin> set (to_chan c out)"
  by (auto simp: for_accounts_def to_chan_def)

lemma request_for_account: "for_accounts (List.map request_event reqs)"
proof -
  have "fst (request_event q) \<in> range Ch_Td \<and> snd (request_event q) \<noteq> Ev_Termination" for q by (cases q) simp_all
  then show ?thesis by (auto simp: for_accounts_def split_beta)
qed

lemma invoke_for_accounts [simp]: "for_accounts (fst (invoke strats cb cp))"
  by (induction strats arbitrary: cp) (simp_all add: Let_def split_beta request_for_account)

lemma invoke_elsewhere: "c \<notin> range Ch_Td \<Longrightarrow> to_chan c (fst (invoke strats cb cp)) = []"
  by (rule for_accounts_elsewhere) simp_all

lemma invoke_kept [simp]:
  "cp_live (snd (invoke strats cb cp)) = cp_live cp" "cp_stats_all (snd (invoke strats cb cp)) = cp_stats_all cp"
  "cp_stats (snd (invoke strats cb cp)) = cp_stats cp"
  using invoke_state [of strats cb cp] by auto

lemma to_chan_writers:
  "to_chan Ch_MdReq (to_all_writers ev cp) = [ev]" "to_chan Ch_TdReq (to_all_writers ev cp) = [ev]"
  "c \<notin> range Ch_Td \<Longrightarrow> c \<noteq> Ch_MdReq \<Longrightarrow> c \<noteq> Ch_TdReq \<Longrightarrow> to_chan c (to_all_writers ev cp) = []"
  "set (to_chan c (to_all_writers ev cp)) \<subseteq> {ev}"
  by (auto simp: to_all_writers_def to_chan_def filter_empty_conv)

text \<open>What the trading engine answers.\<close>

fun answer :: "Event \<Rightarrow> bool" where
  "answer (Ev_Trade t) = True"
| "answer (Ev_OrderActionResp r) = True"
| "answer (Ev_Sync f) = True"
| "answer _ = False"

definition answers :: "outbox \<Rightarrow> bool" where
  "answers out \<longleftrightarrow> (\<forall>(c, ev) \<in> set out. c = Ch_TdResp \<and> answer ev)"

lemma answers_simps [simp]:
  "answers []" "answers ((c, ev) # out) \<longleftrightarrow> c = Ch_TdResp \<and> answer ev \<and> answers out"
  "answers (xs @ ys) \<longleftrightarrow> answers xs \<and> answers ys"
  by (auto simp: answers_def)

lemma answers_elsewhere: "\<lbrakk> answers out; c \<noteq> Ch_TdResp \<rbrakk> \<Longrightarrow> to_chan c out = []"
  by (auto simp: answers_def to_chan_def filter_empty_conv)

lemma answers_given: "\<lbrakk> answers out; ev \<in> set (to_chan c out) \<rbrakk> \<Longrightarrow> answer ev"
  by (auto simp: answers_def to_chan_def)

lemma sent_answers [simp]: "answers (sent_since s s')"
proof -
  have "fst (sim_event x) = Ch_TdResp \<and> answer (snd (sim_event x))" for x
    by (cases x) (simp add: sim_event_def split: SimMsg.splits)
  then show ?thesis by (auto simp: answers_def sent_since_def split_beta)
qed

lemma td_loop_answers: "td_sync_loop mem services = Some (ok, out, services') \<Longrightarrow> answers out"
  by (induction services arbitrary: ok out services') (auto split: option.splits prod.splits)

lemma with_service_answers:
  "with_service rid act td = Some (out, td') \<Longrightarrow> answers out \<and> td_live td' = td_live td"
  by (auto simp: with_service_def Let_def split: option.splits if_splits)

lemma td_react_answers:
  assumes "td_react mem ev td = Some (out, td')"
  shows "answers out \<and> td_live td' = (td_live td \<and> ev \<noteq> Ev_Termination)"
  using assms
  by (cases ev)
    (auto simp: td_on_backtest_sync_signal_def td_insert_order_def td_cancel_order_def td_on_account_req_def
      td_on_trading_start_def dest: td_loop_answers with_service_answers split: if_splits)


text \<open>The file service: a row read is at most one bar, and the end of the file is the word to stop.\<close>

definition serves_file :: "u32 \<Rightarrow> CSVReader \<Rightarrow> MDEngine \<Rightarrow> bool" where
  "serves_file k r md \<longleftrightarrow> (\<exists>svc. md_services md = [(k, svc)] \<and> fds_reader svc = Some r \<and> fds_has_writer svc)"

lemma serves_one: "serves_file k r md \<Longrightarrow> serves_file k r' md \<longleftrightarrow> r' = r"
  by (auto simp: serves_file_def)

lemma md_start_serves:
  assumes "serves_file k r md" "cr_is_open r"
  shows "md_react parse_day unit now (Ev_TradingStart t) md = Some ([], md_on_trading_start t md)"
    "serves_file k (snd (read_header r)) (md_on_trading_start t md)"
    "md_live (md_on_trading_start t md) = md_live md"
  using assms by (auto simp: serves_file_def md_on_trading_start_def fds_start_def)

lemma fds_sync_cases:
  assumes "fds_sync parse_day unit now flag svc = Some (ok, evs, svc')" "fds_reader svc = Some r" "fds_has_writer svc"
  obtains row r' where "read_row_into (fds_row_buffer svc) r = (ok, row, r')" "fds_reader svc' = Some r'" "fds_has_writer svc'"
    "(\<not> ok \<and> evs = [Ev_Termination]) \<or>
     (ok \<and> evs = [] \<and> (row_bar parse_day unit now row = Raised \<or> row_bar parse_day unit now row = Value None)) \<or>
     (\<exists>bar. ok \<and> evs = [Ev_Bar bar] \<and> row_bar parse_day unit now row = Value (Some bar))"
proof -
  obtain b row r' where rd: "read_row_into (fds_row_buffer svc) r = (b, row, r')" by (cases "read_row_into (fds_row_buffer svc) r")
  show thesis
    using assms rd
    by (intro that [of row r'])
      (auto simp: fds_sync_def Let_def split: if_splits outcome.splits option.splits)
qed

lemma md_sync_cases:
  assumes "md_react parse_day unit now (Ev_Sync flag) md = Some (out, md')" "serves_file k r md"
  obtains ok row r' where "rows_left r = (if ok then row # rows_left r' else [])" "serves_file k r' md'"
    "md_live md' = md_live md" "length (cr_rest r') \<le> length (cr_rest r)"
    "ok \<longrightarrow> length (cr_rest r') < length (cr_rest r)"
    "(\<not> ok \<and> out = [(Ch_Md k, Ev_Termination)]) \<or>
     (ok \<and> out = [(Ch_MdResp, Ev_Sync flag)] \<and> (row_bar parse_day unit now row = Raised \<or> row_bar parse_day unit now row = Value None)) \<or>
     (\<exists>bar. ok \<and> out = [(Ch_Md k, Ev_Bar bar), (Ch_MdResp, Ev_Sync flag)] \<and> row_bar parse_day unit now row = Value (Some bar))"
proof -
  obtain svc where svc: "md_services md = [(k, svc)]" "fds_reader svc = Some r" "fds_has_writer svc"
    using assms(2) by (auto simp: serves_file_def)
  obtain ok evs svc' where sy: "fds_sync parse_day unit now flag svc = Some (ok, evs, svc')"
    "out = List.map (Pair (Ch_Md k)) evs @ (if ok then [(Ch_MdResp, Ev_Sync flag)] else [])"
    "md' = md\<lparr> md_services := [(k, svc')] \<rparr>"
    using assms(1) svc(1) by (auto simp: md_on_backtest_sync_signal_def split: option.splits prod.splits)
  from fds_sync_cases [OF sy(1) svc(2,3)] obtain row r' where
    r: "read_row_into (fds_row_buffer svc) r = (ok, row, r')" "fds_reader svc' = Some r'" "fds_has_writer svc'"
    "(\<not> ok \<and> evs = [Ev_Termination]) \<or>
     (ok \<and> evs = [] \<and> (row_bar parse_day unit now row = Raised \<or> row_bar parse_day unit now row = Value None)) \<or>
     (\<exists>bar. ok \<and> evs = [Ev_Bar bar] \<and> row_bar parse_day unit now row = Value (Some bar))" .
  show thesis
  proof (rule that [of ok row r'])
    show "serves_file k r' md'" using r(2,3) by (simp add: serves_file_def sy(3))
  qed (use read_row_left [OF r(1)] read_row_shrinks [OF r(1)] r(4) in \<open>auto simp: sy(2,3)\<close>)
qed

text \<open>The engine of the strategies, on what can reach it in a backtest.\<close>

lemma cp_answer:
  assumes "cp_react strats ev source mem cp = Some (out, mem', cp')" "answer ev" "sync_flag ev = None"
  shows "for_accounts out \<and> cp_live cp' = cp_live cp \<and> cp_stats_all cp' = cp_stats_all cp \<and>
    klines_of (cp_stats cp') = klines_of (cp_stats cp)"
  using assms
  by (cases ev) (auto simp: keeping_def cp_on_trade_def cp_log_def klines_of_def map_filter_def split: if_splits)

lemma cp_bar:
  assumes "cp_react strats (Ev_Bar bar) source mem cp = Some (out, mem', cp')"
  shows "for_accounts out \<and> cp_live cp' = cp_live cp \<and> cp_stats_all cp' = cp_stats_all cp \<and>
    (cp_stats_all cp \<longrightarrow> klines_of (cp_stats cp') = klines_of (cp_stats cp) @ [bar])"
  using assms
  by (auto simp: keeping_def cp_on_bar_def cp_log_def klines_of_def map_filter_def split_beta split: if_splits)

lemma cp_start:
  assumes "cp_on_active strats cp = (out, cp')" "\<not> cp_pre_start cp" "cp_is_backtest cp"
  shows "to_chan Ch_MdReq out = [Ev_TradingStart (cp_begin_time cp), Ev_Sync Sync_MarketData]"
    "c \<noteq> Ch_MdReq \<Longrightarrow> c \<noteq> Ch_TdReq \<Longrightarrow> c \<notin> range Ch_Td \<Longrightarrow> to_chan c out = []"
    "Ev_Termination \<notin> set (to_chan c out)"
    "cp_pre_start cp'" "cp_live cp' = cp_live cp" "cp_stats_all cp' = cp_stats_all cp" "cp_stats cp' = cp_stats cp"
proof -
  let ?t = "cp_begin_time cp"
  have out: "out = to_all_writers (Ev_TradingStart ?t) cp @ fst (invoke strats Cb_pre_start cp) @ [(Ch_MdReq, Ev_Sync Sync_MarketData)]"
    and cp': "cp' = (snd (invoke strats Cb_pre_start cp))\<lparr> cp_pre_start := True \<rparr>"
    using assms by (auto simp: cp_on_active_def cp_do_pre_start_def split_beta)
  show "to_chan Ch_MdReq out = [Ev_TradingStart ?t, Ev_Sync Sync_MarketData]"
    by (simp add: out to_chan_writers invoke_elsewhere image_iff)
  show "c \<noteq> Ch_MdReq \<Longrightarrow> c \<noteq> Ch_TdReq \<Longrightarrow> c \<notin> range Ch_Td \<Longrightarrow> to_chan c out = []"
    by (simp add: out to_chan_writers invoke_elsewhere)
  show "Ev_Termination \<notin> set (to_chan c out)"
    using to_chan_writers(4) [of c "Ev_TradingStart ?t" cp] for_accounts_goes_on [of "fst (invoke strats Cb_pre_start cp)" c]
    by (auto simp: out)
  show "cp_pre_start cp'" "cp_live cp' = cp_live cp" "cp_stats_all cp' = cp_stats_all cp" "cp_stats cp' = cp_stats cp"
    by (simp_all add: cp')
qed


section \<open>The invariant of a run\<close>

definition recorded :: "'s System \<Rightarrow> Bar list" where
  "recorded s = klines_of (cp_stats (sy_cp s))"

text \<open>
  The stages: not started; started, but the market data engine has not heard of it; serving, with the
  signal on its way and the bars not recorded yet in the journal of the account; the file at its
  end, with the word to stop behind the last bar; stopped.
\<close>

definition st_idle :: "string \<Rightarrow> u32 \<Rightarrow> CSVReader \<Rightarrow> 's System \<Rightarrow> bool" where
  "st_idle content k r s \<longleftrightarrow> \<not> cp_pre_start (sy_cp s) \<and> cp_live (sy_cp s) \<and> md_live (sy_md s) \<and>
     (\<forall>c. sy_chan s c = []) \<and> r = opened content \<and> recorded s = [] \<and> sy_served s = 0"

definition st_asked :: "string \<Rightarrow> u32 \<Rightarrow> CSVReader \<Rightarrow> 's System \<Rightarrow> bool" where
  "st_asked content k r s \<longleftrightarrow> cp_pre_start (sy_cp s) \<and> cp_live (sy_cp s) \<and> md_live (sy_md s) \<and>
     (\<exists>t. sy_chan s Ch_MdReq = [Ev_TradingStart t, Ev_Sync Sync_MarketData]) \<and> signals (sy_chan s) = 1 \<and>
     sy_chan s (Ch_Md k) = [] \<and> r = opened content \<and> recorded s = [] \<and> sy_served s = 0"

definition st_serving ::
    "(string \<Rightarrow> int) \<Rightarrow> TimeUnit \<Rightarrow> string \<Rightarrow> u32 \<Rightarrow> CSVReader \<Rightarrow> 's System \<Rightarrow> bool" where
  "st_serving parse_day unit content k r s \<longleftrightarrow> cp_pre_start (sy_cp s) \<and> cp_live (sy_cp s) \<and> md_live (sy_md s) \<and>
     sy_chan s Ch_MdReq \<in> {[], [Ev_Sync Sync_MarketData]} \<and> signals (sy_chan s) = 1 \<and>
     (\<exists>served bars. sy_chan s (Ch_Md k) = List.map Ev_Bar bars \<and> data_rows content = served @ rows_left r \<and>
        replays parse_day unit served (recorded s @ bars) \<and> sy_served s = length served)"

definition st_ending ::
    "(string \<Rightarrow> int) \<Rightarrow> TimeUnit \<Rightarrow> string \<Rightarrow> u32 \<Rightarrow> 's System \<Rightarrow> bool" where
  "st_ending parse_day unit content k s \<longleftrightarrow> cp_pre_start (sy_cp s) \<and> cp_live (sy_cp s) \<and> md_live (sy_md s) \<and>
     sy_chan s Ch_MdReq = [] \<and> signals (sy_chan s) = 0 \<and> sy_served s = length (data_rows content) \<and>
     (\<exists>bars. sy_chan s (Ch_Md k) = List.map Ev_Bar bars @ [Ev_Termination] \<and>
        replays parse_day unit (data_rows content) (recorded s @ bars))"

definition st_stopped ::
    "(string \<Rightarrow> int) \<Rightarrow> TimeUnit \<Rightarrow> string \<Rightarrow> u32 \<Rightarrow> 's System \<Rightarrow> bool" where
  "st_stopped parse_day unit content k s \<longleftrightarrow> cp_pre_start (sy_cp s) \<and> \<not> cp_live (sy_cp s) \<and>
     sy_chan s Ch_MdReq = (if md_live (sy_md s) then [Ev_Termination] else []) \<and> signals (sy_chan s) = 0 \<and>
     sy_chan s (Ch_Md k) = [] \<and> sy_served s = length (data_rows content) \<and>
     replays parse_day unit (data_rows content) (recorded s)"

lemmas stages = st_idle_def st_asked_def st_serving_def st_ending_def st_stopped_def

text \<open>What holds throughout: who writes where, and the word to stop for the trading engine.\<close>

definition run_common :: "u32 \<Rightarrow> 's System \<Rightarrow> bool" where
  "run_common k s \<longleftrightarrow> lock_inv s \<and> cp_stats_all (sy_cp s) \<and>
     (\<forall>j. j \<noteq> k \<longrightarrow> sy_chan s (Ch_Md j) = []) \<and>
     (\<forall>ev \<in> set (sy_chan s Ch_MdResp). sync_flag ev \<noteq> None) \<and> (\<forall>ev \<in> set (sy_chan s Ch_TdResp). answer ev) \<and>
     (if cp_live (sy_cp s)
      then td_live (sy_td s) \<and> Ev_Termination \<notin> set (sy_chan s Ch_TdReq) \<and> (\<forall>d. Ev_Termination \<notin> set (sy_chan s (Ch_Td d)))
      else td_live (sy_td s) \<longrightarrow> Ev_Termination \<in> set (sy_chan s Ch_TdReq))"

definition run_inv :: "(string \<Rightarrow> int) \<Rightarrow> TimeUnit \<Rightarrow> string \<Rightarrow> u32 \<Rightarrow> 's System \<Rightarrow> bool" where
  "run_inv parse_day unit content k s \<longleftrightarrow> run_common k s \<and>
     (\<exists>r. serves_file k r (sy_md s) \<and>
        (st_idle content k r s \<and> cp_is_backtest (sy_cp s) \<or> st_asked content k r s \<or> st_serving parse_day unit content k r s \<or>
         st_ending parse_day unit content k s \<or> st_stopped parse_day unit content k s))"

text \<open>A step of the trading engine.\<close>

lemma td_signals:
  assumes "lock_inv s" "c = Ch_TdReq \<or> c \<in> range Ch_Td" "sy_chan s c = ev # rest"
    "td_react (sy_mem s) ev (sy_td s) = Some (out, td)"
  shows "signals (deliver out ((sy_chan s)(c := rest))) = signals (sy_chan s)"
proof (cases "sync_flag ev")
  case None
  then have "quiet out" using td_react_syncs [OF assms(4)] by simp
  then show ?thesis using syncs_quiet_step [of "sy_chan s" c, OF assms(3) None] by (simp add: signals_def in_flight_def)
next
  case (Some f)
  have "flags_ok (sy_chan s)" using assms(1) by (simp add: lock_inv_def)
  then have c: "c = Ch_TdReq" using no_sync_elsewhere [of "sy_chan s" c ev rest] assms(2,3) Some by auto
  obtain q where "quiet q" "out = q @ [(Ch_TdResp, Ev_Sync f)]" using td_react_syncs [OF assms(4)] Some by auto
  then show ?thesis using assms(3) Some unfolding c by (auto simp: signals_def in_flight_def syncs_after)
qed

text \<open>The channels after a step that took the head of one.\<close>

definition moved :: "Channel \<Rightarrow> Event list \<Rightarrow> outbox \<Rightarrow> 's System \<Rightarrow> 's System \<Rightarrow> bool" where
  "moved c rest out s s' \<longleftrightarrow> (\<forall>d. sy_chan s' d = (if d = c then rest else sy_chan s d) @ to_chan d out)"

lemma moved_chan: "moved c rest out s s' \<Longrightarrow> sy_chan s' d = (if d = c then rest else sy_chan s d) @ to_chan d out"
  by (simp add: moved_def)

lemma run_inv_td:
  assumes "run_inv parse_day unit content k s" "c = Ch_TdReq \<or> c \<in> range Ch_Td" "sy_chan s c = ev # rest"
    "td_react (sy_mem s) ev (sy_td s) = Some (out, sy_td s')" "moved c rest out s s'"
    "lock_inv s'" "signals (sy_chan s') = signals (sy_chan s)" "sy_cp s' = sy_cp s" "sy_md s' = sy_md s"
    "sy_served s' = sy_served s"
  shows "run_inv parse_day unit content k s'"
proof -
  note a = td_react_answers [OF assms(4)] and ch = moved_chan [OF assms(5)] and sel = assms(7-10)
  have "\<forall>e \<in> set (sy_chan s Ch_TdResp). answer e" using assms(1) by (simp add: run_inv_def run_common_def)
  then have resp: "\<forall>e \<in> set (sy_chan s' Ch_TdResp). answer e"
    using a answers_given [of out _ Ch_TdResp] assms(2) by (auto simp: ch)
  have sp: "sy_chan s' (Ch_Md j) = sy_chan s (Ch_Md j)" "sy_chan s' Ch_MdReq = sy_chan s Ch_MdReq"
    "sy_chan s' Ch_MdResp = sy_chan s Ch_MdResp" for j
    using assms(2) a answers_elsewhere [of out] by (auto simp: ch)
  have rq: "sy_chan s' d = (if d = c then rest else sy_chan s d)" if "d = Ch_TdReq \<or> d \<in> range Ch_Td" for d
    using that a answers_elsewhere [of out d] by (auto simp: ch)
  have cm: "run_common k s'"
  proof (cases "cp_live (sy_cp s)")
    case True
    then have t: "Ev_Termination \<notin> set (sy_chan s d)" if "d = Ch_TdReq \<or> d \<in> range Ch_Td" for d
      using assms(1) that by (auto simp: run_inv_def run_common_def)
    then have "ev \<noteq> Ev_Termination" using t [OF assms(2)] assms(3) by auto
    moreover have "Ev_Termination \<notin> set (sy_chan s' d)" if "d = Ch_TdReq \<or> d \<in> range Ch_Td" for d
      using rq [OF that] t [OF that] assms(3) by (auto split: if_splits)
    ultimately show ?thesis
      using assms(1,6) a True resp unfolding run_inv_def run_common_def sp sel by auto
  next
    case False
    then have "td_live (sy_td s') \<Longrightarrow> Ev_Termination \<in> set (sy_chan s' Ch_TdReq)"
      using assms(1-3) a rq [of Ch_TdReq] by (auto simp: run_inv_def run_common_def)
    then show ?thesis
      using assms(1,6) False resp unfolding run_inv_def run_common_def sp sel by auto
  qed
  obtain r where r: "serves_file k r (sy_md s)"
    "st_idle content k r s \<and> cp_is_backtest (sy_cp s) \<or> st_asked content k r s \<or> st_serving parse_day unit content k r s \<or>
     st_ending parse_day unit content k s \<or> st_stopped parse_day unit content k s"
    using assms(1) by (auto simp: run_inv_def)
  have "\<not> st_idle content k r s" using assms(3) unfolding st_idle_def by (metis list.distinct(1))
  then show ?thesis
    using r cm unfolding run_inv_def st_asked_def st_serving_def st_ending_def st_stopped_def sp sel recorded_def by auto
qed


text \<open>A step of the market data engine.\<close>

lemma md_keeps_common:
  assumes "run_common k s" "moved Ch_MdReq rest out s s'" "lock_inv s'" "sy_cp s' = sy_cp s" "sy_td s' = sy_td s"
    "\<forall>(c, ev) \<in> set out. c = Ch_Md k \<or> c = Ch_MdResp \<and> sync_flag ev \<noteq> None"
  shows "run_common k s'"
proof -
  have e: "to_chan c out = []" if "c \<noteq> Ch_Md k" "c \<noteq> Ch_MdResp" for c
    using that assms(6) by (auto simp: to_chan_def filter_empty_conv)
  have r: "\<forall>ev \<in> set (to_chan Ch_MdResp out). sync_flag ev \<noteq> None"
    using assms(6) by (auto simp: to_chan_def)
  show ?thesis
    using assms(1,3) r unfolding run_common_def assms(4,5) moved_chan [OF assms(2)] by (auto simp: e)
qed

lemma signals_moved:
  assumes "moved c rest out s s'" "sy_chan s c = ev # rest" "c \<in> {Ch_MdReq, Ch_MdResp, Ch_TdReq, Ch_TdResp}"
  shows "signals (sy_chan s') + length (syncs [ev]) = signals (sy_chan s) +
    length (syncs_to Ch_MdReq out) + length (syncs_to Ch_MdResp out) + length (syncs_to Ch_TdReq out) + length (syncs_to Ch_TdResp out)"
proof -
  have "syncs (sy_chan s' d) = (if d = c then syncs rest else syncs (sy_chan s d)) @ syncs_to d out" for d
    by (simp add: moved_chan [OF assms(1)] syncs_to_def to_chan_def)
  then show ?thesis using assms(2,3) by (auto simp: signals_def in_flight_def split: option.splits)
qed

lemma run_inv_md:
  assumes "run_inv parse_day unit content k s" "sy_chan s Ch_MdReq = ev # rest"
    "md_react parse_day unit now ev (sy_md s) = Some (out, sy_md s')" "moved Ch_MdReq rest out s s'"
    "lock_inv s'" "sy_cp s' = sy_cp s" "sy_td s' = sy_td s"
    "sy_served s' = sy_served s + (if answered Ch_MdResp out then 1 else 0)"
  shows "run_inv parse_day unit content k s'"
proof -
  note ch = moved_chan [OF assms(4)] and sg = signals_moved [OF assms(4,2)]
  have rec: "recorded s' = recorded s" by (simp add: recorded_def assms(6))
  note rec = rec assms(8) answered_def
  have cm: "run_common k s" using assms(1) by (simp add: run_inv_def)
  obtain r where r: "serves_file k r (sy_md s)"
    "st_asked content k r s \<or> st_serving parse_day unit content k r s \<or> st_stopped parse_day unit content k s"
    using assms(1,2) by (auto simp: run_inv_def st_idle_def st_ending_def)
  from r(2) show ?thesis
  proof (elim disjE)
    assume st: "st_asked content k r s"
    then obtain t where ev: "ev = Ev_TradingStart t" "rest = [Ev_Sync Sync_MarketData]" using assms(2) by (auto simp: st_asked_def)
    have op: "r = opened content" "cr_is_open r" using st by (simp_all add: st_asked_def opened_def CSVReader_new_def cr_is_open_def)
    have o: "out = []" "sy_md s' = md_on_trading_start t (sy_md s)"
      using assms(3) md_start_serves(1) [OF r(1) op(2)] by (simp_all add: ev)
    have "st_serving parse_day unit content k (snd (read_header r)) s'"
      using st sg replays.nothing
      by (auto simp: st_serving_def st_asked_def ch o ev assms(6) rec md_start_serves(3) [OF r(1) op(2)] op(1) data_rows_def)
    moreover have "run_common k s'" using md_keeps_common [OF cm assms(4-7)] by (simp add: o)
    ultimately show ?thesis using md_start_serves(2) [OF r(1) op(2)] unfolding run_inv_def o by blast
  next
    assume st: "st_serving parse_day unit content k r s"
    then have ev: "ev = Ev_Sync Sync_MarketData" "rest = []" using assms(2) by (auto simp: st_serving_def)
    from st obtain served bars where sb: "sy_chan s (Ch_Md k) = List.map Ev_Bar bars"
      "data_rows content = served @ rows_left r" "replays parse_day unit served (recorded s @ bars)" "sy_served s = length served"
      by (auto simp: st_serving_def)
    from md_sync_cases [OF assms(3) [unfolded ev(1)] r(1)] obtain ok row r' where
      row: "rows_left r = (if ok then row # rows_left r' else [])" "serves_file k r' (sy_md s')" "md_live (sy_md s') = md_live (sy_md s)"
      "(\<not> ok \<and> out = [(Ch_Md k, Ev_Termination)]) \<or>
       (ok \<and> out = [(Ch_MdResp, Ev_Sync Sync_MarketData)] \<and> (row_bar parse_day unit now row = Raised \<or> row_bar parse_day unit now row = Value None)) \<or>
       (\<exists>bar. ok \<and> out = [(Ch_Md k, Ev_Bar bar), (Ch_MdResp, Ev_Sync Sync_MarketData)] \<and> row_bar parse_day unit now row = Value (Some bar))" .
    have c: "run_common k s'" using md_keeps_common [OF cm assms(4-7)] row(4) by auto
    from row(4) have "st_serving parse_day unit content k r' s' \<or> st_ending parse_day unit content k s'"
    proof (elim disjE exE conjE)
      assume o: "\<not> ok" "out = [(Ch_Md k, Ev_Termination)]"
      then show ?thesis using st sg sb row(1,3) by (auto simp: st_serving_def st_ending_def ch ev assms(6) rec)
    next
      assume o: "ok" "out = [(Ch_MdResp, Ev_Sync Sync_MarketData)]" "row_bar parse_day unit now row = Raised"
      then show ?thesis
        using st sg sb row(1,3) replays.no_bar [OF sb(3), of now row] by (auto simp: st_serving_def ch ev assms(6) rec)
    next
      assume o: "ok" "out = [(Ch_MdResp, Ev_Sync Sync_MarketData)]" "row_bar parse_day unit now row = Value None"
      then show ?thesis
        using st sg sb row(1,3) replays.no_bar [OF sb(3), of now row] by (auto simp: st_serving_def ch ev assms(6) rec)
    next
      fix bar assume o: "ok" "out = [(Ch_Md k, Ev_Bar bar), (Ch_MdResp, Ev_Sync Sync_MarketData)]" "row_bar parse_day unit now row = Value (Some bar)"
      have "sy_chan s' (Ch_Md k) = List.map Ev_Bar (bars @ [bar])" "data_rows content = (served @ [row]) @ rows_left r'"
        "replays parse_day unit (served @ [row]) (recorded s' @ bars @ [bar])" "sy_served s' = length (served @ [row])"
        using sb row(1) o replays.a_bar [OF sb(3) o(3)] by (simp_all add: ch rec)
      moreover have "cp_pre_start (sy_cp s')" "cp_live (sy_cp s')" "md_live (sy_md s')" "sy_chan s' Ch_MdReq = []"
        "signals (sy_chan s') = 1"
        using st sg o by (auto simp: st_serving_def ch ev assms(6) row(3))
      ultimately show ?thesis unfolding st_serving_def by blast
    qed
    then show ?thesis using c row(2) unfolding run_inv_def by blast
  next
    assume st: "st_stopped parse_day unit content k s"
    then have ev: "ev = Ev_Termination" "rest = []" using assms(2) by (auto simp: st_stopped_def split: if_splits)
    have o: "out = []" "sy_md s' = (sy_md s)\<lparr> md_live := False \<rparr>" using assms(3) by (simp_all add: ev)
    have "st_stopped parse_day unit content k s'" using st sg by (auto simp: st_stopped_def ch ev o assms(6) rec)
    moreover have "run_common k s'" using md_keeps_common [OF cm assms(4-7)] by (simp add: o)
    moreover have "serves_file k r (sy_md s')" using r(1) by (simp add: o serves_file_def)
    ultimately show ?thesis unfolding run_inv_def by blast
  qed
qed


text \<open>A step of the strategies' engine: an answer, a signal, a bar, the word to stop.\<close>

lemma cp_keeps_common:
  assumes "run_common k s" "c = Ch_MdResp \<or> c = Ch_TdResp \<or> c = Ch_Md k" "sy_chan s c = ev # rest" "moved c rest out s s'"
    "lock_inv s'" "sy_td s' = sy_td s" "cp_live (sy_cp s)" "cp_live (sy_cp s')" "cp_stats_all (sy_cp s')"
    "\<forall>(c, ev) \<in> set out. (c = Ch_MdReq \<or> c = Ch_TdReq \<or> c \<in> range Ch_Td) \<and> ev \<noteq> Ev_Termination"
  shows "run_common k s'"
proof -
  have e: "to_chan d out = []" if "d \<noteq> Ch_MdReq" "d \<noteq> Ch_TdReq" "d \<notin> range Ch_Td" for d
    using that assms(10) by (auto simp: to_chan_def filter_empty_conv)
  have t: "Ev_Termination \<notin> set (to_chan d out)" for d
    using assms(10) by (auto simp: to_chan_def)
  have n: "to_chan Ch_MdResp out = []" "to_chan Ch_TdResp out = []" "to_chan (Ch_Md j) out = []" for j
    by (rule e; auto)+
  have "set (sy_chan s' Ch_MdResp) \<subseteq> set (sy_chan s Ch_MdResp)" "set (sy_chan s' Ch_TdResp) \<subseteq> set (sy_chan s Ch_TdResp)"
    "j \<noteq> k \<Longrightarrow> sy_chan s' (Ch_Md j) = sy_chan s (Ch_Md j)" for j
    using assms(2,3) n unfolding moved_chan [OF assms(4)] by auto
  then show ?thesis
    using assms(1,2,5,7-9) t unfolding run_common_def assms(6) by (auto simp: moved_chan [OF assms(4)])
qed

lemma signals_quiet:
  assumes "moved c rest out s s'" "sy_chan s c = ev # rest" "sync_flag ev = None" "quiet out"
  shows "signals (sy_chan s') = signals (sy_chan s)" "syncs (sy_chan s' d) = syncs (sy_chan s d)"
proof -
  have q: "syncs (to_chan d out) = []" for d
    using quiet_syncs [OF assms(4), of d] by (simp add: syncs_to_def to_chan_def)
  have "syncs (sy_chan s' d) = syncs (sy_chan s d)" for d
    using assms(2,3) q [of d] by (simp add: moved_chan [OF assms(1)])
  then show "signals (sy_chan s') = signals (sy_chan s)" "syncs (sy_chan s' d) = syncs (sy_chan s d)"
    by (simp_all add: signals_def in_flight_def)
qed

lemma for_accounts_quiet_common:
  "for_accounts out \<Longrightarrow> \<forall>(c, ev) \<in> set out. (c = Ch_MdReq \<or> c = Ch_TdReq \<or> c \<in> range Ch_Td) \<and> ev \<noteq> Ev_Termination"
  by (auto simp: for_accounts_def)

lemma stage_moves:
  assumes "st_asked content k r s \<or> st_serving parse_day unit content k r s \<or> st_ending parse_day unit content k s"
    "cp_pre_start (sy_cp s') = cp_pre_start (sy_cp s)" "cp_live (sy_cp s') = cp_live (sy_cp s)" "sy_md s' = sy_md s"
    "signals (sy_chan s') = signals (sy_chan s)"
    "sy_chan s' Ch_MdReq = sy_chan s Ch_MdReq" "recorded s' = recorded s" "sy_chan s' (Ch_Md k) = sy_chan s (Ch_Md k)" "sy_served s' = sy_served s"
  shows "st_asked content k r s' \<or> st_serving parse_day unit content k r s' \<or> st_ending parse_day unit content k s'"
  using assms(1) unfolding st_asked_def st_serving_def st_ending_def assms(2-9) .


lemma run_inv_cp:
  assumes "run_inv parse_day unit content k s" "cp_live (sy_cp s)" "c = Ch_MdResp \<or> c = Ch_TdResp \<or> c \<in> range Ch_Md"
    "sy_chan s c = ev # rest" "cp_react strats ev source (sy_mem s) (sy_cp s) = Some (out, mem, sy_cp s')"
    "moved c rest out s s'" "lock_inv s'" "sy_md s' = sy_md s" "sy_td s' = sy_td s" "sy_served s' = sy_served s"
  shows "run_inv parse_day unit content k s'"
proof -
  note ch = moved_chan [OF assms(6)]
  have pre: "cp_pre_start (sy_cp s') = cp_pre_start (sy_cp s)" using cp_react_pre_start [OF assms(5)] .
  have cm: "run_common k s" "lock_inv s" "cp_stats_all (sy_cp s)" using assms(1) by (simp_all add: run_inv_def run_common_def)
  have c: "c = Ch_MdResp \<or> c = Ch_TdResp \<or> c = Ch_Md k"
    using assms(3,4) cm(1) by (auto simp: run_common_def)
  obtain r where r: "serves_file k r (sy_md s)"
    and st: "st_asked content k r s \<or> st_serving parse_day unit content k r s \<or> st_ending parse_day unit content k s"
    using assms(1,2,4) by (auto simp: run_inv_def st_idle_def st_stopped_def)
  have fin: ?thesis
    if "run_common k s'" "st_asked content k r s' \<or> st_serving parse_day unit content k r s' \<or> st_ending parse_day unit content k s' \<or>
      st_stopped parse_day unit content k s'"
    using that r unfolding run_inv_def assms(8) by blast
  consider (resp) "answer ev" "sync_flag ev = None" "c \<noteq> Ch_Md k" | (sig) f where "ev = Ev_Sync f" "c \<noteq> Ch_Md k" | (md) "c = Ch_Md k"
  proof (cases "c = Ch_Md k")
    case False
    then have "sync_flag ev \<noteq> None \<or> answer ev" using c assms(4) cm(1) by (auto simp: run_common_def)
    then show thesis using that(1,2) False by (cases ev) auto
  qed (use that(3) in blast)
  then show ?thesis
  proof cases
    case resp
    note a = cp_answer [OF assms(5) resp(1,2)]
    then have o: "to_chan Ch_MdReq out = []" "to_chan (Ch_Md k) out = []" by (auto intro: for_accounts_elsewhere)
    have q: "quiet out" using cp_react_syncs [OF assms(5)] resp(2) by simp
    have "run_common k s'"
      using cp_keeps_common [OF cm(1) c assms(4,6,7,9,2) _ _ for_accounts_quiet_common] a assms(2) cm(3) by simp
    moreover have "st_asked content k r s' \<or> st_serving parse_day unit content k r s' \<or> st_ending parse_day unit content k s'"
      using st pre _ assms(8) signals_quiet(1) [OF assms(6,4) resp(2) q]
      by (rule stage_moves) (use a c resp(3) assms(10) in \<open>auto simp: ch o recorded_def\<close>)
    ultimately show ?thesis using fin by blast
  next
    case sig
    have o: "out = cp_on_backtest_sync_signal f" "sy_cp s' = sy_cp s"
      using assms(5) by (simp_all add: sig keeping_def)
    have "flags_ok (sy_chan s)" "signals (sy_chan s) \<le> 1" using cm(2) by (simp_all add: lock_inv_def)
    then have f: "c = Ch_MdResp \<and> f = Sync_MarketData \<or> c = Ch_TdResp \<and> f = Sync_MatchOrder" "in_flight Ch_MdReq (sy_chan s) = 0"
      "signals (sy_chan s) = 1"
      using c sig assms(4) by (auto simp: flags_ok_def signals_def in_flight_def)
    have sv: "st_serving parse_day unit content k r s"
      using st f(2,3) by (auto simp: st_asked_def st_ending_def in_flight_def)
    then have "sy_chan s Ch_MdReq = []" using f(2) by (auto simp: st_serving_def in_flight_def)
    then have mq: "sy_chan s' Ch_MdReq \<in> {[], [Ev_Sync Sync_MarketData]}" "sy_chan s' (Ch_Md k) = sy_chan s (Ch_Md k)"
      using f(1) by (auto simp: ch o(1) cp_on_backtest_sync_signal_def)
    have "signals (sy_chan s') = signals (sy_chan s)"
      using signals_moved [OF assms(6,4)] f(1) by (auto simp: o(1) sig cp_on_backtest_sync_signal_def)
    then have "st_serving parse_day unit content k r s'"
      using sv mq by (simp add: st_serving_def o(2) assms(8,10) recorded_def)
    moreover have "run_common k s'"
      using cp_keeps_common [OF cm(1) c assms(4,6,7,9,2)] assms(2) cm(3) f(1)
      by (auto simp: o cp_on_backtest_sync_signal_def)
    ultimately show ?thesis using fin by blast
  next
    case md
    have nq: "ev = Ev_Termination \<or> (\<exists>bar. ev = Ev_Bar bar)"
      using st assms(4) md by (auto simp: st_asked_def st_serving_def st_ending_def Cons_eq_append_conv Cons_eq_map_conv map_eq_Cons_conv)
    show ?thesis
    proof (cases "ev = Ev_Termination")
      case True
      then have e: "st_ending parse_day unit content k s"
        using st assms(4) md by (auto simp: st_asked_def st_serving_def)
      then have rest: "rest = []" "replays parse_day unit (data_rows content) (recorded s)"
        using assms(4) md True by (auto simp: st_ending_def Cons_eq_append_conv)
      have o: "out = to_all_writers Ev_Termination (sy_cp s)" "sy_cp s' = (sy_cp s)\<lparr> cp_live := False \<rparr>"
        using assms(5) by (auto simp: True keeping_def cp_on_termination_def)
      have nt: "to_chan (Ch_Md j) out = []" "to_chan Ch_MdResp out = []" "to_chan Ch_TdResp out = []" for j
        unfolding o by (rule to_chan_writers(3); auto)+
      have "signals (sy_chan s') = signals (sy_chan s)"
        using signals_quiet(1) [OF assms(6,4)] quiet_all_writers [of Ev_Termination "sy_cp s"] by (simp add: True o)
      then have "st_stopped parse_day unit content k s'"
        using e rest by (auto simp: st_stopped_def st_ending_def o(2) assms(8,10) ch nt [unfolded o(1)] md recorded_def to_chan_writers o(1))
      moreover have "run_common k s'"
        using cm(1) assms(7) md nt unfolding run_common_def o(2) by (auto simp: ch o(1) to_chan_writers)
      ultimately show ?thesis using fin by blast
    next
      case False
      then obtain bar where ev: "ev = Ev_Bar bar" using nq by blast
      note a = cp_bar [OF assms(5) [unfolded ev]]
      then have o: "to_chan Ch_MdReq out = []" "to_chan (Ch_Md k) out = []" by (auto intro: for_accounts_elsewhere)
      have q: "quiet out" using cp_react_syncs [OF assms(5)] by (simp add: ev)
      have rc: "recorded s' = recorded s @ [bar]" using a cm(3) by (simp add: recorded_def)
      have "run_common k s'"
        using cp_keeps_common [OF cm(1) c assms(4,6,7,9,2) _ _ for_accounts_quiet_common] a assms(2) cm(3) by simp
      moreover have "signals (sy_chan s') = signals (sy_chan s)"
        using signals_quiet(1) [OF assms(6,4) _ q] by (simp add: ev)
      then have "st_serving parse_day unit content k r s' \<or> st_ending parse_day unit content k s'"
        using st assms(4) a pre
        by (auto simp: st_asked_def st_serving_def st_ending_def ch o md ev rc assms(8,10) Cons_eq_append_conv Cons_eq_map_conv map_eq_Cons_conv)
      ultimately show ?thesis using fin by blast
    qed
  qed
qed


text \<open>The start, and any step.\<close>

definition backtest_start :: "string \<Rightarrow> u32 \<Rightarrow> 's System \<Rightarrow> bool" where
  "backtest_start content k s \<longleftrightarrow>
     md_services (sy_md s) = [(k, fds_set_customer (the (fds_setup (Some content) FileDataService_new)))] \<and>
     md_live (sy_md s) \<and> td_live (sy_td s) \<and> cp_live (sy_cp s) \<and> \<not> cp_pre_start (sy_cp s) \<and>
     cp_is_backtest (sy_cp s) \<and> cp_stats_all (sy_cp s) \<and> cp_stats (sy_cp s) = [] \<and>
     (\<forall>c. sy_chan s c = []) \<and> sy_served s = 0 \<and> sy_matched s = 0"

lemma run_inv_start: "backtest_start content k s \<Longrightarrow> run_inv parse_day unit content k s"
  by (auto simp: backtest_start_def run_inv_def run_common_def st_idle_def recorded_def klines_of_def map_filter_def lock_inv_start
    serves_file_def fds_setup_def fds_set_customer_def FileDataService_new_def opened_def)

lemma run_inv_active:
  assumes "run_inv parse_day unit content k s" "cp_on_active strats (sy_cp s) = (out, sy_cp s')"
    "sy_chan s' = deliver out (sy_chan s)" "lock_inv s'" "sy_md s' = sy_md s" "sy_td s' = sy_td s" "sy_served s' = sy_served s"
  shows "run_inv parse_day unit content k s'"
proof (cases "cp_pre_start (sy_cp s)")
  case True
  then have "sy_cp s' = sy_cp s" "sy_chan s' = sy_chan s"
    using assms(2,3) by (simp_all add: cp_on_active_def deliver_def)
  then show ?thesis using assms(1,4) unfolding run_inv_def run_common_def stages recorded_def assms(5-7) by simp
next
  case False
  then obtain r where i: "serves_file k r (sy_md s)" "st_idle content k r s" "cp_is_backtest (sy_cp s)"
    using assms(1) unfolding run_inv_def st_asked_def st_serving_def st_ending_def st_stopped_def by blast
  have cm: "run_common k s" using assms(1) by (simp add: run_inv_def)
  note a = cp_start [OF assms(2) False i(3)]
  have ch: "sy_chan s' c = to_chan c out" for c using i(2) by (simp add: assms(3) deliver_chan st_idle_def)
  have n: "to_chan (Ch_Md j) out = []" "to_chan Ch_MdResp out = []" "to_chan Ch_TdResp out = []" for j
    by (rule a(2); auto)+
  have "in_flight Ch_MdReq (sy_chan s') = 1" by (simp add: in_flight_def ch a(1))
  then have "signals (sy_chan s') = 1" using assms(4) by (simp add: lock_inv_def signals_def)
  then have "st_asked content k r s'"
    using i(2) by (simp add: st_asked_def st_idle_def a(1,4,5,7) ch n assms(5,7) recorded_def)
  moreover have "run_common k s'"
    using cm i(2) assms(4) a(3) by (simp add: run_common_def st_idle_def ch n a(5,6) assms(6))
  ultimately show ?thesis using i(1) unfolding run_inv_def assms(5) by blast
qed

lemma run_inv_step:
  assumes "step parse_day unit strats s s'" "run_inv parse_day unit content k s"
  shows "run_inv parse_day unit content k s'"
proof -
  have l: "lock_inv s" using assms(2) by (simp add: run_inv_def run_common_def)
  then have l': "lock_inv s'" using lock_inv_step [OF assms(1)] by simp
  from assms(1) show ?thesis
  proof (cases rule: step_cases [consumes 1, case_names active md td cp])
    case (active out cp)
    then show ?thesis using run_inv_active [OF assms(2) _ _ l', of strats out] by simp
  next
    case (md ev rest now out md)
    then show ?thesis using run_inv_md [OF assms(2) md(3), of now out s'] l' by (simp add: moved_def deliver_chan)
  next
    case (td c ev rest out td)
    have "signals (sy_chan s') = signals (sy_chan s)" using td_signals [OF l td(3,4,5)] by (simp add: td(1))
    then show ?thesis using run_inv_td [OF assms(2) td(3,4), of out s'] td l' by (simp add: moved_def deliver_chan)
  next
    case (cp c ev rest source out mem cp)
    then show ?thesis using run_inv_cp [OF assms(2) cp(2-4), of strats source out mem s'] l' by (simp add: moved_def deliver_chan)
  qed
qed

lemma run_inv_run:
  assumes "(step parse_day unit strats)\<^sup>*\<^sup>* s0 s" "backtest_start content k s0"
  shows "run_inv parse_day unit content k s"
  using assms(1) by induction (auto intro: run_inv_start [OF assms(2)] run_inv_step)


section \<open>The end of a run\<close>

text \<open>
  A strategy that sends nothing when it hears of a trade or of the answer to a request. The
  measure of a run: what can still stop or start; the text not read; the way of the signal; the bars
  under way; the requests under way; the other messages.
\<close>

definition patient :: "'s strategy \<Rightarrow> bool" where
  "patient f \<longleftrightarrow> (\<forall>ev source book st. answer ev \<longrightarrow> snd (f (Cb_event ev source) book st) = [])"

definition unread_text :: "'s System \<Rightarrow> nat" where
  "unread_text s = (case md_services (sy_md s) of
     (k, svc) # _ \<Rightarrow> (case fds_reader svc of Some r \<Rightarrow> length (cr_rest r) | None \<Rightarrow> 0) | [] \<Rightarrow> 0)"

definition left_to_stop :: "'s System \<Rightarrow> nat" where
  "left_to_stop s = of_bool (\<not> cp_pre_start (sy_cp s)) + of_bool (cp_live (sy_cp s)) + of_bool (md_live (sy_md s)) +
     of_bool (td_live (sy_td s))"

definition signal_way :: "'s System \<Rightarrow> nat" where
  "signal_way s = 4 * in_flight Ch_MdResp (sy_chan s) + 3 * in_flight Ch_TdReq (sy_chan s) +
     2 * in_flight Ch_TdResp (sy_chan s) + in_flight Ch_MdReq (sy_chan s)"

definition bars_under_way :: "u32 \<Rightarrow> 's System \<Rightarrow> nat" where
  "bars_under_way k s = length (sy_chan s (Ch_Md k))"

definition requests_under_way :: "'s System \<Rightarrow> nat" where
  "requests_under_way s = length (sy_chan s Ch_TdReq) + (\<Sum>d\<in>UNIV. length (sy_chan s (Ch_Td d)))"

definition others_under_way :: "'s System \<Rightarrow> nat" where
  "others_under_way s = length (sy_chan s Ch_TdResp) + length (sy_chan s Ch_MdResp) + length (sy_chan s Ch_MdReq)"

definition run_order :: "u32 \<Rightarrow> ('s System \<times> 's System) set" where
  "run_order k = measures [left_to_stop, unread_text, signal_way, bars_under_way k, requests_under_way, others_under_way]"

lemma wf_run_order: "wf (run_order k)"
  by (simp add: run_order_def)

lemma unread_serves: "serves_file k r (sy_md s) \<Longrightarrow> unread_text s = length (cr_rest r)"
  by (auto simp: serves_file_def unread_text_def)

lemma patient_quiet:
  assumes "\<forall>f \<in> set strats. patient f" "answer ev"
  shows "fst (invoke strats (Cb_event ev source) cp) = []"
  using assms(1)
proof (induction strats arbitrary: cp)
  case (Cons f fs)
  have "snd (f (Cb_event ev source) (cp_book cp) (cp_strategy_state cp)) = []"
    using Cons.prems assms(2) by (simp add: patient_def)
  then show ?case using Cons by (simp add: Let_def split_beta)
qed simp

lemma patient_answer:
  assumes "\<forall>f \<in> set strats. patient f" "answer ev" "sync_flag ev = None"
    "cp_react strats ev source mem cp = Some (out, mem', cp')"
  shows "out = []"
  using assms(2-4) patient_quiet [OF assms(1)]
  by (cases ev) (auto simp: keeping_def cp_on_trade_def)

lemma left_to_stop_less:
  assumes "sy_md s' = sy_md s" "cp_pre_start (sy_cp s') = cp_pre_start (sy_cp s)" "sy_td s' = sy_td s"
    "cp_live (sy_cp s') = cp_live (sy_cp s)"
  shows "left_to_stop s' = left_to_stop s"
  using assms by (simp add: left_to_stop_def)

text \<open>The trading engine takes a request, or passes the signal on.\<close>

lemma signal_way_quiet:
  "\<forall>d. syncs (sy_chan s' d) = syncs (sy_chan s d) \<Longrightarrow> signal_way s' = signal_way s"
  by (simp add: signal_way_def in_flight_def)

lemma requests_taken:
  assumes "c = Ch_TdReq \<or> c \<in> range Ch_Td" "sy_chan s c = ev # rest"
    "\<And>d. d = Ch_TdReq \<or> d \<in> range Ch_Td \<Longrightarrow> sy_chan s' d = (if d = c then rest else sy_chan s d)"
  shows "requests_under_way s' < requests_under_way s"
proof (cases "c = Ch_TdReq")
  case True
  then show ?thesis using assms(2) assms(3) [of Ch_TdReq] assms(3) [of "Ch_Td _"] by (simp add: requests_under_way_def)
next
  case False
  then obtain a where c: "c = Ch_Td a" using assms(1) by auto
  have "(\<Sum>d\<in>UNIV. length (sy_chan s' (Ch_Td d))) < (\<Sum>d\<in>UNIV. length (sy_chan s (Ch_Td d)))"
  proof (rule sum_strict_mono_ex1)
    show "\<forall>d\<in>UNIV. length (sy_chan s' (Ch_Td d)) \<le> length (sy_chan s (Ch_Td d))"
      using assms(2) assms(3) [of "Ch_Td _"] by (auto simp: c)
    show "\<exists>d\<in>UNIV. length (sy_chan s' (Ch_Td d)) < length (sy_chan s (Ch_Td d))"
      using assms(2) assms(3) [of "Ch_Td a"] by (intro bexI [of _ a]) (auto simp: c)
  qed simp
  then show ?thesis using assms(3) [of Ch_TdReq] by (simp add: requests_under_way_def c)
qed


lemma syncs_moved:
  "moved c rest out s s' \<Longrightarrow> syncs (sy_chan s' d) = (if d = c then syncs rest else syncs (sy_chan s d)) @ syncs_to d out"
  by (simp add: moved_chan syncs_to_def to_chan_def)

lemma td_decreases:
  assumes "run_inv parse_day unit content k s" "td_live (sy_td s)" "c = Ch_TdReq \<or> c \<in> range Ch_Td" "sy_chan s c = ev # rest"
    "td_react (sy_mem s) ev (sy_td s) = Some (out, sy_td s')" "moved c rest out s s'" "sy_cp s' = sy_cp s" "sy_md s' = sy_md s"
  shows "(s', s) \<in> run_order k"
proof -
  note a = td_react_answers [OF assms(5)] and ch = moved_chan [OF assms(6)]
  have u: "unread_text s' = unread_text s" by (simp add: unread_text_def assms(8))
  have l: "left_to_stop s' \<le> left_to_stop s" using a by (simp add: left_to_stop_def assms(7,8))
  show ?thesis
  proof (cases "sync_flag ev")
    case None
    then have "quiet out" using td_react_syncs [OF assms(5)] by simp
    then have w: "signal_way s' = signal_way s"
      using signals_quiet(2) [OF assms(6,4) None] by (intro signal_way_quiet) simp
    have b: "bars_under_way k s' = bars_under_way k s"
      using a assms(3) answers_elsewhere [of out "Ch_Md k"] by (auto simp: bars_under_way_def ch)
    have "requests_under_way s' < requests_under_way s"
      using assms(3,4) by (rule requests_taken) (use a answers_elsewhere [of out] in \<open>auto simp: ch\<close>)
    then show ?thesis using l u w b by (auto simp: run_order_def)
  next
    case (Some f)
    have "flags_ok (sy_chan s)" using assms(1) by (simp add: run_inv_def run_common_def lock_inv_def)
    then have c: "c = Ch_TdReq" using no_sync_elsewhere [of "sy_chan s" c ev rest] assms(3,4) Some by auto
    obtain q where "quiet q" "out = q @ [(Ch_TdResp, Ev_Sync f)]" using td_react_syncs [OF assms(5)] Some by auto
    then have "signal_way s' < signal_way s"
      using assms(4) Some by (simp add: signal_way_def in_flight_def syncs_moved [OF assms(6)] c)
    then show ?thesis using l u by (auto simp: run_order_def)
  qed
qed

lemma md_decreases:
  assumes "run_inv parse_day unit content k s" "md_live (sy_md s)" "sy_chan s Ch_MdReq = ev # rest"
    "md_react parse_day unit now ev (sy_md s) = Some (out, sy_md s')" "moved Ch_MdReq rest out s s'" "sy_cp s' = sy_cp s" "sy_td s' = sy_td s"
  shows "(s', s) \<in> run_order k"
proof -
  note ch = moved_chan [OF assms(5)]
  obtain r where r: "serves_file k r (sy_md s)" and
    st: "st_asked content k r s \<or> st_serving parse_day unit content k r s \<or> st_stopped parse_day unit content k s"
    using assms(1,3) by (auto simp: run_inv_def st_idle_def st_ending_def)
  consider (start) t where "ev = Ev_TradingStart t" "r = opened content" | (sync) f where "ev = Ev_Sync f" | (stop) "ev = Ev_Termination"
    using st assms(3) by (auto simp: st_asked_def st_serving_def st_stopped_def split: if_splits)
  then show ?thesis
  proof cases
    case start
    have op: "cr_is_open r" by (simp add: start(2) opened_def CSVReader_new_def cr_is_open_def)
    have o: "out = []" "sy_md s' = md_on_trading_start t (sy_md s)"
      using assms(4) md_start_serves(1) [OF r op] by (simp_all add: start(1))
    have "length (cr_rest (snd (read_header r))) \<le> length (cr_rest r)"
      using getline_shorter [of r] by (auto simp: read_header_def getline_def Let_def split: option.splits)
    then have "unread_text s' \<le> unread_text s"
      using unread_serves [OF r] unread_serves [of k "snd (read_header r)" s'] md_start_serves(2) [OF r op] by (simp add: o)
    moreover have "left_to_stop s' = left_to_stop s"
      using md_start_serves(3) [OF r op] by (simp add: left_to_stop_def assms(6,7) o)
    moreover have "signal_way s' = signal_way s"
      using assms(3) start(1) by (intro signal_way_quiet) (simp add: ch o)
    moreover have "bars_under_way k s' = bars_under_way k s" "requests_under_way s' = requests_under_way s"
      "others_under_way s' < others_under_way s"
      using assms(3) by (simp_all add: bars_under_way_def requests_under_way_def others_under_way_def ch o)
    ultimately show ?thesis by (auto simp: run_order_def)
  next
    case sync
    from md_sync_cases [OF assms(4) [unfolded sync] r] obtain ok row r' where
      "rows_left r = (if ok then row # rows_left r' else [])" and row: "serves_file k r' (sy_md s')" "md_live (sy_md s') = md_live (sy_md s)" "length (cr_rest r') \<le> length (cr_rest r)"
      "ok \<longrightarrow> length (cr_rest r') < length (cr_rest r)" and
      six: "(\<not> ok \<and> out = [(Ch_Md k, Ev_Termination)]) \<or>
       (ok \<and> out = [(Ch_MdResp, Ev_Sync f)] \<and> (row_bar parse_day unit now row = Raised \<or> row_bar parse_day unit now row = Value None)) \<or>
       (\<exists>bar. ok \<and> out = [(Ch_Md k, Ev_Bar bar), (Ch_MdResp, Ev_Sync f)] \<and> row_bar parse_day unit now row = Value (Some bar))" .
    then have end_of_file: "ok \<or> out = [(Ch_Md k, Ev_Termination)]" by auto
    have l: "left_to_stop s' = left_to_stop s" by (simp add: left_to_stop_def assms(6,7) row(2))
    have u: "unread_text s' = length (cr_rest r')" "unread_text s = length (cr_rest r)"
      using unread_serves [OF r] unread_serves [OF row(1)] by simp_all
    show ?thesis
    proof (cases ok)
      case False
      then have "signal_way s' < signal_way s"
        using end_of_file assms(3) sync by (simp add: signal_way_def in_flight_def syncs_moved [OF assms(5)])
      then show ?thesis using l u row(3) by (auto simp: run_order_def)
    qed (use l u row(4) in \<open>simp add: run_order_def\<close>)
  next
    case stop
    then have "sy_md s' = (sy_md s)\<lparr> md_live := False \<rparr>" using assms(4) by simp
    then have "left_to_stop s' < left_to_stop s" using assms(2) by (simp add: left_to_stop_def assms(6,7))
    then show ?thesis by (simp add: run_order_def)
  qed
qed

lemma cp_decreases:
  assumes "run_inv parse_day unit content k s" "\<forall>f \<in> set strats. patient f" "cp_live (sy_cp s)"
    "c = Ch_MdResp \<or> c = Ch_TdResp \<or> c \<in> range Ch_Md"
    "sy_chan s c = ev # rest" "cp_react strats ev source (sy_mem s) (sy_cp s) = Some (out, mem, sy_cp s')"
    "moved c rest out s s'" "sy_md s' = sy_md s" "sy_td s' = sy_td s"
  shows "(s', s) \<in> run_order k"
proof -
  note ch = moved_chan [OF assms(7)]
  have pre: "cp_pre_start (sy_cp s') = cp_pre_start (sy_cp s)" using cp_react_pre_start [OF assms(6)] .
  have cm: "run_common k s" "flags_ok (sy_chan s)" "cp_stats_all (sy_cp s)"
    using assms(1) by (simp_all add: run_inv_def run_common_def lock_inv_def)
  have u: "unread_text s' = unread_text s" by (simp add: unread_text_def assms(8))
  have c: "c = Ch_MdResp \<or> c = Ch_TdResp \<or> c = Ch_Md k"
    using assms(4,5) cm(1) by (auto simp: run_common_def)
  obtain r where st: "st_asked content k r s \<or> st_serving parse_day unit content k r s \<or> st_ending parse_day unit content k s"
    using assms(1,3,5) by (auto simp: run_inv_def st_idle_def st_stopped_def)
  consider (resp) "answer ev" "sync_flag ev = None" "c = Ch_TdResp" | (sig) f where "ev = Ev_Sync f" "c \<noteq> Ch_Md k" |
    (bar) bar where "ev = Ev_Bar bar" "c = Ch_Md k" | (stop) "ev = Ev_Termination"
  proof (cases "c = Ch_Md k")
    case False
    then have "sync_flag ev \<noteq> None \<or> answer ev \<and> c = Ch_TdResp" using c assms(5) cm(1) by (auto simp: run_common_def)
    then show thesis using that(1,2) False by (cases ev) auto
  next
    case True
    then have "ev = Ev_Termination \<or> (\<exists>bar. ev = Ev_Bar bar)"
      using st assms(5) by (auto simp: st_asked_def st_serving_def st_ending_def Cons_eq_append_conv Cons_eq_map_conv map_eq_Cons_conv)
    then show thesis using that(3,4) True by blast
  qed
  then show ?thesis
  proof cases
    case resp
    have o: "out = []" by (rule patient_answer [OF assms(2) resp(1,2) assms(6)])
    have "left_to_stop s' = left_to_stop s"
      using cp_answer [OF assms(6) resp(1,2)] by (simp add: left_to_stop_def pre assms(8,9))
    moreover have "signal_way s' = signal_way s"
      using signals_quiet(2) [OF assms(7,5) resp(2)] by (intro signal_way_quiet) (simp add: o)
    moreover have "bars_under_way k s' = bars_under_way k s" "requests_under_way s' = requests_under_way s"
      "others_under_way s' < others_under_way s"
      using assms(5) resp(3) by (simp_all add: bars_under_way_def requests_under_way_def others_under_way_def ch o)
    ultimately show ?thesis using u by (simp add: run_order_def)
  next
    case sig
    have o: "out = cp_on_backtest_sync_signal f" "sy_cp s' = sy_cp s"
      using assms(6) by (simp_all add: sig keeping_def)
    have "c = Ch_MdResp \<and> f = Sync_MarketData \<or> c = Ch_TdResp \<and> f = Sync_MatchOrder"
      using c sig assms(5) cm(2) by (auto simp: flags_ok_def)
    then have "signal_way s' < signal_way s"
      using assms(5) by (auto simp: signal_way_def in_flight_def syncs_moved [OF assms(7)] o(1) sig cp_on_backtest_sync_signal_def)
    then show ?thesis using u by (simp add: run_order_def left_to_stop_def o(2) assms(8,9))
  next
    case bar
    note a = cp_bar [OF assms(6) [unfolded bar(1)]]
    have "quiet out" using cp_react_syncs [OF assms(6)] by (simp add: bar(1))
    then have "signal_way s' = signal_way s"
      using signals_quiet(2) [OF assms(7,5)] by (intro signal_way_quiet) (simp add: bar(1))
    moreover have "to_chan (Ch_Md k) out = []" using a by (auto intro: for_accounts_elsewhere)
    then have "bars_under_way k s' < bars_under_way k s"
      using assms(5) bar(2) by (simp add: bars_under_way_def ch)
    ultimately show ?thesis using u a by (simp add: run_order_def left_to_stop_def pre assms(8,9))
  next
    case stop
    have "sy_cp s' = (sy_cp s)\<lparr> cp_live := False \<rparr>" using assms(6) by (auto simp: stop keeping_def cp_on_termination_def)
    then have "left_to_stop s' < left_to_stop s" using assms(3) by (simp add: left_to_stop_def assms(8,9))
    then show ?thesis by (simp add: run_order_def)
  qed
qed


text \<open>
  The engines on real pages. A journal is written frame by frame on a page; a frame that would not end
  before the border is put on the next page, with all later ones, and \<open>PageEnd\<close> in its place
  (writer.cpp, \<open>open_frame\<close>). \<open>has_data\<close> (frame.h) is false of \<open>PageEnd\<close>, so the event loop of the reader never gets
  past it (\<open>reader_stuck_at_page_end\<close> of the theory \<open>Journal\<close>). \<open>bytes\<close> is what an event takes on a page, header
  included, \<open>room\<close> the place on the page of each journal at the start; with the system goes what has been
  read of each journal. The steps are those of \<open>step\<close> as far as the pages allow them.
\<close>

definition on_page :: "(Channel \<Rightarrow> nat) \<Rightarrow> (Event \<Rightarrow> nat) \<Rightarrow> (Channel \<Rightarrow> nat) \<Rightarrow> Channel \<Rightarrow> Event \<Rightarrow> bool" where
  "on_page room bytes u c ev \<longleftrightarrow> u c + bytes ev < room c"

inductive paged_step ::
    "(Channel \<Rightarrow> nat) \<Rightarrow> (Event \<Rightarrow> nat) \<Rightarrow> (string \<Rightarrow> int) \<Rightarrow> TimeUnit \<Rightarrow> 's strategy list \<Rightarrow>
     's System \<times> (Channel \<Rightarrow> nat) \<Rightarrow> 's System \<times> (Channel \<Rightarrow> nat) \<Rightarrow> bool"
  for room :: "Channel \<Rightarrow> nat" and bytes :: "Event \<Rightarrow> nat" and parse_day :: "string \<Rightarrow> int" and unit :: TimeUnit
    and strats :: "'s strategy list" where
  paged_active:
    "\<lbrakk> cp_live (sy_cp s); cp_on_active strats (sy_cp s) = (out, cp) \<rbrakk>
     \<Longrightarrow> paged_step room bytes parse_day unit strats (s, u) (s\<lparr> sy_cp := cp, sy_chan := deliver out (sy_chan s) \<rparr>, u)"
| paged_md:
    "\<lbrakk> md_live (sy_md s); sy_chan s Ch_MdReq = ev # rest; on_page room bytes u Ch_MdReq ev;
       md_react parse_day unit now ev (sy_md s) = Some (out, md) \<rbrakk>
     \<Longrightarrow> paged_step room bytes parse_day unit strats (s, u)
          (s\<lparr> sy_md := md, sy_chan := deliver out ((sy_chan s)(Ch_MdReq := rest)),
              sy_served := sy_served s + (if answered Ch_MdResp out then 1 else 0) \<rparr>, u(Ch_MdReq := u Ch_MdReq + bytes ev))"
| paged_td:
    "\<lbrakk> td_live (sy_td s); c = Ch_TdReq \<or> c \<in> range Ch_Td; sy_chan s c = ev # rest; on_page room bytes u c ev;
       td_react (sy_mem s) ev (sy_td s) = Some (out, td) \<rbrakk>
     \<Longrightarrow> paged_step room bytes parse_day unit strats (s, u)
          (s\<lparr> sy_td := td, sy_chan := deliver out ((sy_chan s)(c := rest)),
              sy_matched := sy_matched s + (if answered Ch_TdResp out then 1 else 0) \<rparr>, u(c := u c + bytes ev))"
| paged_cp:
    "\<lbrakk> cp_live (sy_cp s); c = Ch_MdResp \<or> c = Ch_TdResp \<or> c \<in> range Ch_Md; sy_chan s c = ev # rest; on_page room bytes u c ev;
       cp_react strats ev source (sy_mem s) (sy_cp s) = Some (out, mem, cp) \<rbrakk>
     \<Longrightarrow> paged_step room bytes parse_day unit strats (s, u)
          (s\<lparr> sy_cp := cp, sy_mem := mem, sy_chan := deliver out ((sy_chan s)(c := rest)) \<rparr>, u(c := u c + bytes ev))"

inductive_cases paged_cases: "paged_step room bytes parse_day unit strats p p'"

text \<open>Pages only take runs away, so that what holds of every run of \<open>step\<close> holds of these.\<close>

lemma paged_is_step: "paged_step room bytes parse_day unit strats p p' \<Longrightarrow> step parse_day unit strats (fst p) (fst p')"
proof (induction rule: paged_step.induct)
  case (paged_active s out cp u)
  then show ?case unfolding fst_conv by (rule step.active)
next
  case (paged_md s ev rest u now out md)
  then show ?case unfolding fst_conv by (intro step.md)
next
  case (paged_td s c ev rest u out td)
  then show ?case unfolding fst_conv by (intro step.td)
next
  case (paged_cp s c ev rest u source out mem cp)
  then show ?case unfolding fst_conv by (intro step.cp)
qed

lemma paged_run_is_run:
  "(paged_step room bytes parse_day unit strats)\<^sup>*\<^sup>* p p' \<Longrightarrow> (step parse_day unit strats)\<^sup>*\<^sup>* (fst p) (fst p')"
  by (induction rule: rtranclp_induct) (auto intro: rtranclp.rtrancl_into_rtrancl paged_is_step)

lemma run_decreases:
  assumes "paged_step room bytes parse_day unit strats p p'" "p' \<noteq> p" "run_inv parse_day unit content k (fst p)"
    "\<forall>f \<in> set strats. patient f"
  shows "(fst p', fst p) \<in> run_order k"
  using assms(1)
proof (cases rule: paged_cases [consumes 1, case_names active md td cp])
  case (active s out cp u)
  have "\<not> cp_pre_start (sy_cp s)"
    using active assms(2) by (auto simp: cp_on_active_def deliver_def)
  then have "left_to_stop (fst p') < left_to_stop (fst p)"
    using active by (auto simp: left_to_stop_def cp_on_active_def cp_do_pre_start_def split_beta)
  then show ?thesis by (simp add: run_order_def)
next
  case (md s ev rest u now out md)
  have i: "run_inv parse_day unit content k s" using assms(3) by (simp add: md(1))
  show ?thesis
    unfolding md(1,2) fst_conv by (rule md_decreases [OF i md(3,4), of now out]) (simp_all add: md(6) moved_def deliver_chan)
next
  case (td s c ev rest u out td)
  have i: "run_inv parse_day unit content k s" using assms(3) by (simp add: td(1))
  show ?thesis
    unfolding td(1,2) fst_conv by (rule td_decreases [OF i td(3-5), of out]) (simp_all add: td(7) moved_def deliver_chan)
next
  case (cp s c ev rest u source out mem cp)
  have i: "run_inv parse_day unit content k s" using assms(3) by (simp add: cp(1))
  show ?thesis
    unfolding cp(1,2) fst_conv by (rule cp_decreases [OF i assms(4) cp(3-5), of source out mem]) (simp_all add: cp(7) moved_def deliver_chan)
qed

text \<open>Where no engine can move.\<close>

definition all_stopped :: "'s System \<Rightarrow> bool" where
  "all_stopped s \<longleftrightarrow> \<not> md_live (sy_md s) \<and> \<not> td_live (sy_td s) \<and> \<not> cp_live (sy_cp s)"

definition crashed :: "(string \<Rightarrow> int) \<Rightarrow> TimeUnit \<Rightarrow> 's System \<Rightarrow> bool" where
  "crashed parse_day unit s \<longleftrightarrow>
     (md_live (sy_md s) \<and> (\<exists>now ev rest. sy_chan s Ch_MdReq = ev # rest \<and> md_react parse_day unit now ev (sy_md s) = None)) \<or>
     (td_live (sy_td s) \<and> (\<exists>c ev rest. (c = Ch_TdReq \<or> c \<in> range Ch_Td) \<and> sy_chan s c = ev # rest \<and>
        td_react (sy_mem s) ev (sy_td s) = None))"

text \<open>A reader that is stuck: the next frame of one of its journals does not lie on the page it is on.\<close>

definition reader_live :: "'s System \<Rightarrow> Channel \<Rightarrow> bool" where
  "reader_live s c \<longleftrightarrow> (case c of Ch_MdReq \<Rightarrow> md_live (sy_md s) | Ch_TdReq \<Rightarrow> td_live (sy_td s) | Ch_Td _ \<Rightarrow> td_live (sy_td s)
     | _ \<Rightarrow> cp_live (sy_cp s))"

definition page_full :: "(Channel \<Rightarrow> nat) \<Rightarrow> (Event \<Rightarrow> nat) \<Rightarrow> 's System \<times> (Channel \<Rightarrow> nat) \<Rightarrow> bool" where
  "page_full room bytes p \<longleftrightarrow>
     (\<exists>c ev rest. reader_live (fst p) c \<and> sy_chan (fst p) c = ev # rest \<and> \<not> on_page room bytes (snd p) c ev)"

lemma cp_defined:
  assumes "answer ev \<or> ev = Ev_Termination \<or> (\<exists>bar. ev = Ev_Bar bar)"
  shows "cp_react strats ev source mem cp \<noteq> None"
  using assms by (cases ev) (auto simp: keeping_def)

lemma stuck_reads_nothing:
  assumes "run_inv parse_day unit content k s" "\<forall>f \<in> set strats. patient f" "\<not> crashed parse_day unit s"
    "\<not> page_full room bytes (s, u)"
    "\<forall>p'. paged_step room bytes parse_day unit strats (s, u) p' \<longrightarrow> p' = (s, u)"
  shows "md_live (sy_md s) \<longrightarrow> sy_chan s Ch_MdReq = []"
    "td_live (sy_td s) \<and> (c = Ch_TdReq \<or> c \<in> range Ch_Td) \<longrightarrow> sy_chan s c = []"
    "cp_live (sy_cp s) \<and> (c = Ch_MdResp \<or> c = Ch_TdResp \<or> c \<in> range Ch_Md) \<and>
       (\<forall>ev \<in> set (sy_chan s c). answer ev \<or> ev = Ev_Termination \<or> (\<exists>bar. ev = Ev_Bar bar)) \<longrightarrow> sy_chan s c = []"
    "cp_live (sy_cp s) \<longrightarrow> cp_pre_start (sy_cp s)"
proof -
  have no: "(s, s) \<notin> run_order k" by (rule wf_not_refl [OF wf_run_order])
  have pg: "on_page room bytes u c ev" if "reader_live s c" "sy_chan s c = ev # rest" for c ev rest
    using assms(4) that unfolding page_full_def fst_conv snd_conv by blast
  show "md_live (sy_md s) \<longrightarrow> sy_chan s Ch_MdReq = []"
  proof (rule ccontr)
    assume "\<not> (md_live (sy_md s) \<longrightarrow> sy_chan s Ch_MdReq = [])"
    then obtain ev rest where e: "md_live (sy_md s)" "sy_chan s Ch_MdReq = ev # rest" by (auto simp: neq_Nil_conv)
    then obtain out md where o: "md_react parse_day unit 0 ev (sy_md s) = Some (out, md)"
      using assms(3) unfolding crashed_def by (metis option.exhaust surj_pair)
    let ?s' = "s\<lparr> sy_md := md, sy_chan := deliver out ((sy_chan s)(Ch_MdReq := rest)),
                  sy_served := sy_served s + (if answered Ch_MdResp out then 1 else 0) \<rparr>"
    have "(?s', s) \<in> run_order k"
      by (rule md_decreases [OF assms(1) e, of 0 out]) (simp_all add: o moved_def deliver_chan)
    moreover have "on_page room bytes u Ch_MdReq ev" using pg [OF _ e(2)] e(1) by (simp add: reader_live_def)
    then have "(?s', u(Ch_MdReq := u Ch_MdReq + bytes ev)) = (s, u)" using assms(5) paged_md [OF e _ o] by blast
    then have "?s' = s" by (rule Pair_inject)
    ultimately show False using no by simp
  qed
  show "td_live (sy_td s) \<and> (c = Ch_TdReq \<or> c \<in> range Ch_Td) \<longrightarrow> sy_chan s c = []"
  proof (rule ccontr)
    assume "\<not> (td_live (sy_td s) \<and> (c = Ch_TdReq \<or> c \<in> range Ch_Td) \<longrightarrow> sy_chan s c = [])"
    then obtain ev rest where e: "td_live (sy_td s)" "c = Ch_TdReq \<or> c \<in> range Ch_Td" "sy_chan s c = ev # rest"
      by (auto simp: neq_Nil_conv)
    then obtain out td where o: "td_react (sy_mem s) ev (sy_td s) = Some (out, td)"
      using assms(3) unfolding crashed_def by (metis option.exhaust surj_pair)
    let ?s' = "s\<lparr> sy_td := td, sy_chan := deliver out ((sy_chan s)(c := rest)),
                  sy_matched := sy_matched s + (if answered Ch_TdResp out then 1 else 0) \<rparr>"
    have "(?s', s) \<in> run_order k"
      by (rule td_decreases [OF assms(1) e, of out]) (simp_all add: o moved_def deliver_chan)
    moreover have "on_page room bytes u c ev" using pg [OF _ e(3)] e(1,2) by (auto simp: reader_live_def)
    then have "(?s', u(c := u c + bytes ev)) = (s, u)" using assms(5) paged_td [OF e _ o] by blast
    then have "?s' = s" by (rule Pair_inject)
    ultimately show False using no by simp
  qed
  show "cp_live (sy_cp s) \<and> (c = Ch_MdResp \<or> c = Ch_TdResp \<or> c \<in> range Ch_Md) \<and>
       (\<forall>ev \<in> set (sy_chan s c). answer ev \<or> ev = Ev_Termination \<or> (\<exists>bar. ev = Ev_Bar bar)) \<longrightarrow> sy_chan s c = []"
  proof (rule ccontr)
    assume "\<not> (cp_live (sy_cp s) \<and> (c = Ch_MdResp \<or> c = Ch_TdResp \<or> c \<in> range Ch_Md) \<and>
       (\<forall>ev \<in> set (sy_chan s c). answer ev \<or> ev = Ev_Termination \<or> (\<exists>bar. ev = Ev_Bar bar)) \<longrightarrow> sy_chan s c = [])"
    then have e0: "sy_chan s c \<noteq> []" "cp_live (sy_cp s)" "c = Ch_MdResp \<or> c = Ch_TdResp \<or> c \<in> range Ch_Md"
      "\<forall>ev \<in> set (sy_chan s c). answer ev \<or> ev = Ev_Termination \<or> (\<exists>bar. ev = Ev_Bar bar)"
      by blast+
    then obtain ev rest where e: "sy_chan s c = ev # rest" by (auto simp: neq_Nil_conv)
    then have "cp_react strats ev 0 (sy_mem s) (sy_cp s) \<noteq> None" using e0(4) by (intro cp_defined) simp
    then obtain out mem cp where o: "cp_react strats ev 0 (sy_mem s) (sy_cp s) = Some (out, mem, cp)"
      by (metis option.exhaust surj_pair)
    let ?s' = "s\<lparr> sy_cp := cp, sy_mem := mem, sy_chan := deliver out ((sy_chan s)(c := rest)) \<rparr>"
    have "(?s', s) \<in> run_order k"
      by (rule cp_decreases [OF assms(1,2) e0(2,3) e, of 0 out mem]) (simp_all add: o moved_def deliver_chan)
    moreover have "on_page room bytes u c ev" using pg [OF _ e] e0(2,3) by (auto simp: reader_live_def)
    then have "(?s', u(c := u c + bytes ev)) = (s, u)" using assms(5) paged_cp [OF e0(2,3) e _ o] by blast
    then have "?s' = s" by (rule Pair_inject)
    ultimately show False using no by simp
  qed
  show "cp_live (sy_cp s) \<longrightarrow> cp_pre_start (sy_cp s)"
  proof
    assume l: "cp_live (sy_cp s)"
    obtain out cp where o: "cp_on_active strats (sy_cp s) = (out, cp)" by fastforce
    have "(s\<lparr> sy_cp := cp, sy_chan := deliver out (sy_chan s) \<rparr>, u) = (s, u)" using assms(5) paged_active [OF l o] by blast
    then have "s\<lparr> sy_cp := cp, sy_chan := deliver out (sy_chan s) \<rparr> = s" by (rule Pair_inject)
    then have "sy_cp (s\<lparr> sy_cp := cp, sy_chan := deliver out (sy_chan s) \<rparr>) = sy_cp s" by simp
    then show "cp_pre_start (sy_cp s)" using on_active_cases [OF o] by simp
  qed
qed


lemma sync_answer: "sync_flag ev \<noteq> None \<Longrightarrow> answer ev"
  by (cases ev) simp_all

lemma stuck_stopped:
  assumes "run_inv parse_day unit content k s" "\<forall>f \<in> set strats. patient f" "\<not> crashed parse_day unit s"
    "\<not> page_full room bytes (s, u)"
    "\<forall>p'. paged_step room bytes parse_day unit strats (s, u) p' \<longrightarrow> p' = (s, u)"
  shows "all_stopped s \<and> st_stopped parse_day unit content k s"
proof -
  note q = stuck_reads_nothing [OF assms]
  have cm: "run_common k s" using assms(1) by (simp add: run_inv_def)
  obtain r where st: "st_idle content k r s \<or> st_asked content k r s \<or> st_serving parse_day unit content k r s \<or>
      st_ending parse_day unit content k s \<or> st_stopped parse_day unit content k s"
    using assms(1) by (auto simp: run_inv_def)
  have "\<not> cp_live (sy_cp s)"
  proof
    assume l: "cp_live (sy_cp s)"
    then have td: "td_live (sy_td s)" and md: "md_live (sy_md s)"
      using cm st by (auto simp: run_common_def stages)
    have "\<forall>ev \<in> set (sy_chan s Ch_MdResp). answer ev"
      using cm sync_answer unfolding run_common_def by blast
    then have "sy_chan s Ch_MdResp = []" using q(3) [of Ch_MdResp] l by blast
    moreover have "sy_chan s Ch_TdResp = []" using q(3) [of Ch_TdResp] l cm by (auto simp: run_common_def)
    moreover have "sy_chan s Ch_MdReq = []" "sy_chan s Ch_TdReq = []" using q(1) q(2) [of Ch_TdReq] md td by blast+
    ultimately have "signals (sy_chan s) = 0" by (simp add: signals_def in_flight_def)
    then have e: "st_ending parse_day unit content k s"
      using st l q(4) by (auto simp: stages)
    then have "sy_chan s (Ch_Md k) = []" using q(3) [of "Ch_Md k"] l by (auto simp: st_ending_def)
    then show False using e by (auto simp: st_ending_def)
  qed
  then have e: "st_stopped parse_day unit content k s" using st by (auto simp: stages)
  then have "\<not> md_live (sy_md s)" using q(1) by (auto simp: st_stopped_def)
  moreover have "\<not> td_live (sy_td s)"
    using cm q(2) [of Ch_TdReq] e by (auto simp: run_common_def st_stopped_def)
  ultimately show ?thesis using e by (simp add: all_stopped_def st_stopped_def)
qed

section \<open>A sample\<close>

definition sample_content :: string where
  "sample_content = ''Date,Close,High,Low,Open,Volume'' @ [CHR 0x0A] @ ''2024-01-02,1,2,1,2,5'' @ [CHR 0x0A]"

definition sample_day :: "string \<Rightarrow> int" where
  "sample_day = (\<lambda>_. 1704153600000)"

definition sample_row :: "string list" where
  "sample_row = [''2024-01-02'', ''1'', ''2'', ''1'', ''2'', ''5'']"

definition sample_service :: FileDataService where
  "sample_service = fds_set_customer (the (fds_setup (Some sample_content) FileDataService_new))"

definition sample_replay :: "'s \<Rightarrow> 's System" where
  "sample_replay st = \<lparr> sy_md = (sample_md 0)\<lparr> md_services := [(3, sample_service)] \<rparr>, sy_td = sample_td,
     sy_cp = \<lparr> cp_live = True, cp_begin_time = 5, cp_pre_start = False, cp_trading_msg_count = 0,
       cp_md_account_count = 1, cp_book = Book_empty, cp_td_dests = [], cp_is_backtest = True,
       cp_is_simulation = False, cp_stats_all = True, cp_stats = [], cp_board = idle_board, cp_strategy_state = st \<rparr>,
     sy_mem = fst (board_init 0 0 False), sy_chan = (\<lambda>_. []), sy_served = 0, sy_matched = 0 \<rparr>"

lemma sample_replay_start: "backtest_start sample_content 3 (sample_replay st)"
  by (simp add: backtest_start_def sample_replay_def sample_md_def sample_td_def sample_service_def)

lemma sample_row_bar: "\<exists>bar. row_bar sample_day MILLI 0 sample_row = Value (Some bar)"
proof -
  have "stod ''2'' \<noteq> None" "stod ''1'' \<noteq> None"
    by (simp_all add: stod_def skip_space_def is_space_def read_sign_def read_digits_def is_digit_def read_exponent_def of_digits_def Let_def)
  moreover have "stol ''5'' \<noteq> None" "0 < fst (time_range MILLI 0 1704153600000)" "0 < snd (time_range MILLI 0 1704153600000)"
    by code_simp+
  ultimately show ?thesis
    by (auto simp: row_bar_def row_prices_def column_def split_beta Let_def sample_row_def sample_day_def)
qed

lemma sample_first_row:
  "fst (read_row_into [] (snd (read_header (opened sample_content))))"
  "fst (snd (read_row_into [] (snd (read_header (opened sample_content))))) = sample_row"
  by code_simp+

text \<open>The first round of the signal, with the strategy that comes with the program.\<close>

lemma my_strategy_patient: "patient (my_strategy home)"
proof -
  have "fst (my_callback (Cb_event ev source) book st) = []" if "answer ev" for ev source book st
    using that by (cases ev) simp_all
  then show ?thesis by (simp add: patient_def my_strategy_def split_beta)
qed

lemma sample_first_round:
  "\<exists>s bar. (step sample_day MILLI strats)\<^sup>*\<^sup>* (sample_replay st) s \<and> sy_served s = 1 \<and> sy_chan s (Ch_Md 3) = [Ev_Bar bar]"
proof -
  let ?s0 = "sample_replay st"
  obtain out cp where a: "cp_on_active strats (sy_cp ?s0) = (out, cp)" by fastforce
  define s1 where "s1 = ?s0\<lparr> sy_cp := cp, sy_chan := deliver out (sy_chan ?s0) \<rparr>"
  have a1: "step sample_day MILLI strats ?s0 s1"
    unfolding s1_def by (rule step.active [OF _ a]) (simp add: sample_replay_def)
  note c = cp_start [OF a]
  have q1: "sy_chan s1 Ch_MdReq = [Ev_TradingStart 5, Ev_Sync Sync_MarketData]" "sy_chan s1 (Ch_Md 3) = []" "sy_md s1 = sy_md ?s0" "sy_served s1 = 0"
    using c(1) c(2) [of "Ch_Md 3"] by (auto simp: s1_def deliver_chan sample_replay_def)
  have sv: "serves_file 3 (opened sample_content) (sy_md s1)"
    by (simp add: q1(3) sample_replay_def serves_file_def sample_service_def fds_setup_def fds_set_customer_def opened_def)
  have op: "cr_is_open (opened sample_content)" by (simp add: opened_def CSVReader_new_def cr_is_open_def)
  obtain bar where bar: "row_bar sample_day MILLI 0 sample_row = Value (Some bar)" using sample_row_bar by blast
  let ?md2 = "md_on_trading_start 5 (sy_md s1)"
  define s2 where "s2 = s1\<lparr> sy_md := ?md2, sy_chan := deliver [] ((sy_chan s1)(Ch_MdReq := [Ev_Sync Sync_MarketData])),
      sy_served := sy_served s1 + (if answered Ch_MdResp [] then 1 else 0) \<rparr>"
  have l1: "md_live (sy_md s1)" by (simp add: q1(3) sample_replay_def sample_md_def)
  have a2: "step sample_day MILLI strats s1 s2"
    unfolding s2_def by (rule step.md [OF l1 q1(1) md_start_serves(1) [OF sv op]])
  have q2: "sy_chan s2 Ch_MdReq = [Ev_Sync Sync_MarketData]" "sy_chan s2 (Ch_Md 3) = []" "sy_served s2 = 0"
    by (simp_all add: s2_def deliver_chan q1 answered_def)
  have l2: "md_live (sy_md s2)" by (simp add: s2_def md_start_serves(3) [OF sv op] l1)
  have "\<exists>md. md_react sample_day MILLI 0 (Ev_Sync Sync_MarketData) (sy_md s2) = Some ([(Ch_Md 3, Ev_Bar bar), (Ch_MdResp, Ev_Sync Sync_MarketData)], md)"
    using sample_first_row bar
    by (simp add: s2_def q1(3) sample_replay_def sample_service_def fds_setup_def fds_set_customer_def FileDataService_new_def
        md_on_trading_start_def fds_start_def opened_def [symmetric] op md_on_backtest_sync_signal_def fds_sync_def Let_def split_beta)
  then obtain md where m: "md_react sample_day MILLI 0 (Ev_Sync Sync_MarketData) (sy_md s2) =
      Some ([(Ch_Md 3, Ev_Bar bar), (Ch_MdResp, Ev_Sync Sync_MarketData)], md)" ..
  have "step sample_day MILLI strats s2 (s2\<lparr> sy_md := md,
      sy_chan := deliver [(Ch_Md 3, Ev_Bar bar), (Ch_MdResp, Ev_Sync Sync_MarketData)] ((sy_chan s2)(Ch_MdReq := [])),
      sy_served := sy_served s2 + (if answered Ch_MdResp [(Ch_Md 3, Ev_Bar bar), (Ch_MdResp, Ev_Sync Sync_MarketData)] then 1 else 0) \<rparr>)"
    (is "step _ _ _ _ ?s3") by (rule step.md [OF l2 q2(1) m])
  then have "(step sample_day MILLI strats)\<^sup>*\<^sup>* ?s0 ?s3" using a1 a2 by (meson rtranclp.rtrancl_into_rtrancl rtranclp.rtrancl_refl)
  moreover have "sy_served ?s3 = 1" "sy_chan ?s3 (Ch_Md 3) = [Ev_Bar bar]"
    by (simp_all add: q2 deliver_chan answered_def)
  ultimately show ?thesis by blast
qed

section \<open>Properties\<close>

definition bars_among :: "Event list \<Rightarrow> Bar list" where
  "bars_among evs = List.map_filter (\<lambda>ev. case ev of Ev_Bar bar \<Rightarrow> Some bar | _ \<Rightarrow> None) evs"

lemma bars_among_simps [simp]:
  "bars_among [] = []" "bars_among (List.map Ev_Bar bars) = bars" "bars_among (List.map Ev_Bar bars @ [Ev_Termination]) = bars"
proof -
  have "bars_among (List.map Ev_Bar bars @ evs) = bars @ bars_among evs" for evs
    by (induction bars) (simp_all add: bars_among_def map_filter_def)
  from this [of "[]"] this [of "[Ev_Termination]"]
  show "bars_among [] = []" "bars_among (List.map Ev_Bar bars) = bars" "bars_among (List.map Ev_Bar bars @ [Ev_Termination]) = bars"
    by (simp_all add: bars_among_def map_filter_def)
qed

text \<open>C2: a backtest replays its file. However the steps of the three processes interleave, the bars the engine
  of the strategies has recorded, followed by the ones on their way to it, are the bars of the rows
  read so far, in the order of the file, one row for each round of the signal; and when the engine
  of the strategies has stopped, it has recorded the bars of the whole file, and every round has had its
  matching pass.\<close>

theorem backtest_replays_file:
  assumes "backtest_start content k s0" "(step parse_day unit strats)\<^sup>*\<^sup>* s0 s"
  shows "\<exists>served left. data_rows content = served @ left \<and> sy_served s = length served \<and>
    replays parse_day unit served (recorded s @ bars_among (sy_chan s (Ch_Md k))) \<and>
    (cp_live (sy_cp s) \<or> left = [] \<and> sy_chan s (Ch_Md k) = [] \<and> sy_matched s = length served)"
proof -
  have i: "run_inv parse_day unit content k s" by (rule run_inv_run [OF assms(2,1)])
  then obtain r where st: "st_idle content k r s \<or> st_asked content k r s \<or> st_serving parse_day unit content k r s \<or>
      st_ending parse_day unit content k s \<or> st_stopped parse_day unit content k s"
    by (auto simp: run_inv_def)
  have l: "lock_inv s" using i by (simp add: run_inv_def run_common_def)
  from st show ?thesis
  proof (elim disjE)
    assume "st_serving parse_day unit content k r s"
    then obtain served bars where "sy_chan s (Ch_Md k) = List.map Ev_Bar bars" "data_rows content = served @ rows_left r"
      "replays parse_day unit served (recorded s @ bars)" "sy_served s = length served" "cp_live (sy_cp s)"
      by (auto simp: st_serving_def)
    then show ?thesis by (intro exI [of _ served] exI [of _ "rows_left r"]) simp
  next
    assume "st_ending parse_day unit content k s"
    then show ?thesis by (intro exI [of _ "data_rows content"] exI [of _ "[]"]) (auto simp: st_ending_def)
  next
    assume "st_stopped parse_day unit content k s"
    then show ?thesis
      using l by (intro exI [of _ "data_rows content"] exI [of _ "[]"]) (auto simp: st_stopped_def lock_inv_def signals_def)
  qed (use replays.nothing in \<open>intro exI [of _ "[]"] exI [of _ "data_rows content"]; simp add: st_idle_def st_asked_def\<close>)+
qed

lemma backtest_replays_file_witness:
  "\<exists>s served bar. (step sample_day MILLI [my_strategy 9])\<^sup>*\<^sup>* (sample_replay MyStrategy_new) s \<and>
     served \<noteq> [] \<and> replays sample_day MILLI served (recorded s @ [bar])"
proof -
  obtain s bar where s: "(step sample_day MILLI [my_strategy 9])\<^sup>*\<^sup>* (sample_replay MyStrategy_new) s" "sy_served s = 1"
    "sy_chan s (Ch_Md 3) = [Ev_Bar bar]"
    using sample_first_round [of "[my_strategy 9]" MyStrategy_new] by (elim exE conjE) (rule that)
  have "bars_among [Ev_Bar bar] = [bar]" using bars_among_simps(2) [of "[bar]"] by simp
  moreover obtain served where v: "sy_served s = length served"
    "replays sample_day MILLI served (recorded s @ bars_among (sy_chan s (Ch_Md 3)))"
    by (rule exE [OF backtest_replays_file [OF sample_replay_start s(1)]]) (elim exE conjE, rule that)
  ultimately have "served \<noteq> []" "replays sample_day MILLI served (recorded s @ [bar])" using s by auto
  with s(1) show ?thesis by (intro exI conjI)
qed

text \<open>C3: a backtest ends, unless a page does. Take the three engines on journals with pages, the room on the page
  of each journal and the bytes of each message as they may be, and strategies that send nothing on hearing of
  a trade or of the answer to a request. No run goes on for ever; and where no engine can move, either a handler
  has no result (a row of the file with columns missing, a request for an account that is not there), or the
  next message of a journal lies behind the end of the page its reader is on, which the reader never gets past,
  or all three engines have stopped, and the recorded bars are those of the whole file.\<close>

theorem backtest_ends:
  assumes "backtest_start content k s0" "\<forall>f \<in> set strats. patient f"
  shows "(\<nexists>run. run 0 = (s0, \<lambda>_. 0) \<and>
       (\<forall>n :: nat. paged_step room bytes parse_day unit strats (run n) (run (Suc n)) \<and> run (Suc n) \<noteq> run n)) \<and>
    (\<forall>s u. (paged_step room bytes parse_day unit strats)\<^sup>*\<^sup>* (s0, \<lambda>_. 0) (s, u) \<and>
         (\<forall>p'. paged_step room bytes parse_day unit strats (s, u) p' \<longrightarrow> p' = (s, u)) \<longrightarrow>
       crashed parse_day unit s \<or> page_full room bytes (s, u) \<or>
       all_stopped s \<and> replays parse_day unit (data_rows content) (recorded s))"
proof (intro conjI allI impI)
  show "\<nexists>run. run 0 = (s0, \<lambda>_. 0) \<and>
      (\<forall>n :: nat. paged_step room bytes parse_day unit strats (run n) (run (Suc n)) \<and> run (Suc n) \<noteq> run n)"
  proof
    assume "\<exists>run. run 0 = (s0, \<lambda>_. 0) \<and>
      (\<forall>n :: nat. paged_step room bytes parse_day unit strats (run n) (run (Suc n)) \<and> run (Suc n) \<noteq> run n)"
    then obtain run where run: "run 0 = (s0, \<lambda>_. 0)"
      "\<And>n :: nat. paged_step room bytes parse_day unit strats (run n) (run (Suc n)) \<and> run (Suc n) \<noteq> run n"
      by blast
    have "run_inv parse_day unit content k (fst (run n))" for n
    proof (induction n)
      case (Suc n)
      then show ?case using run(2) [of n] run_inv_step paged_is_step by blast
    qed (simp add: run(1) run_inv_start [OF assms(1)])
    then have "(fst (run (Suc n)), fst (run n)) \<in> run_order k" for n
      using run(2) [of n] by (intro run_decreases [OF _ _ _ assms(2)]) auto
    moreover define sys where "sys n = fst (run n)" for n
    ultimately have "\<forall>n. (sys (Suc n), sys n) \<in> run_order k" by simp
    then show False using wf_run_order [of k] unfolding wf_iff_no_infinite_down_chain by blast
  qed
next
  fix s u
  assume r: "(paged_step room bytes parse_day unit strats)\<^sup>*\<^sup>* (s0, \<lambda>_. 0) (s, u) \<and>
    (\<forall>p'. paged_step room bytes parse_day unit strats (s, u) p' \<longrightarrow> p' = (s, u))"
  then have i: "run_inv parse_day unit content k s"
    using run_inv_run [OF _ assms(1)] paged_run_is_run [of room bytes parse_day unit strats "(s0, \<lambda>_. 0)" "(s, u)"] by fastforce
  show "crashed parse_day unit s \<or> page_full room bytes (s, u) \<or>
      all_stopped s \<and> replays parse_day unit (data_rows content) (recorded s)"
    using stuck_stopped [OF i assms(2)] r unfolding st_stopped_def by blast
qed


lemma backtest_ends_witness:
  "\<nexists>run. run 0 = (sample_replay MyStrategy_new, \<lambda>_. 0) \<and>
     (\<forall>n :: nat. paged_step (\<lambda>_. 1000) (\<lambda>_. 100) sample_day MILLI [my_strategy 9] (run n) (run (Suc n)) \<and> run (Suc n) \<noteq> run n)"
  using backtest_ends [OF sample_replay_start, of "[my_strategy 9]" MyStrategy_new "\<lambda>_. 1000" "\<lambda>_. 100" sample_day MILLI] my_strategy_patient by simp

end
