(* ===== verification/Writers.thy ===== *)
theory Writers
  imports Journal
begin

text \<open>
  The writer of a journal as an object (src/core/journal/writer.h, writer.cpp): its lock, the size it was
  opened for, the ways to write a message, and threads that share one writer.

  The mutex is taken when a frame is opened and given back when it is closed. \<open>open_frame\<close> tries for
  thirty seconds to take it; what comes out of that is the argument of who holds the lock, and a writer
  found locked to the end is the exception, \<open>None\<close>, as are a failed assertion, the unlocking of a
  mutex that is not held and a read behind the end of a vector. Data is its bytes: those of a struct of
  fixed size, or those \<open>to_string\<close> gives. \<open>now\<close> is the time of a page end, \<open>gen_time\<close> that of the frame.
\<close>

section \<open>The writer\<close>

record Writer =
  wr_journal :: Journal
  wr_size_to_write :: nat
  wr_locked :: bool
  wr_posts :: nat

definition wr_open ::
    "nat \<Rightarrow> int \<Rightarrow> int \<Rightarrow> nat \<Rightarrow> nat \<Rightarrow> store \<Rightarrow> Writer \<Rightarrow> (store \<times> Writer) option" where
  "wr_open rb now trigger_time msg_type len st w =
     (if wr_locked w then None
      else map_option (\<lambda>(st, j). (st, w\<lparr> wr_journal := j, wr_size_to_write := len, wr_locked := True \<rparr>))
             (open_frame rb now trigger_time msg_type len st (wr_journal w)))"

definition wr_close :: "nat \<Rightarrow> int \<Rightarrow> nat \<Rightarrow> store \<Rightarrow> Writer \<Rightarrow> (store \<times> Writer) option" where
  "wr_close rb gen_time len st w =
     (if \<not> len \<le> wr_size_to_write w \<or> \<not> wr_locked w then None
      else map_option (\<lambda>(st, j). (st, w\<lparr> wr_journal := j, wr_size_to_write := 0, wr_locked := False, wr_posts := Suc (wr_posts w) \<rparr>))
             (close_frame rb gen_time len st (wr_journal w)))"

text \<open>What is done with the frame between the two: its data, its addresses.\<close>

definition in_frame :: "(Frame \<Rightarrow> Frame) \<Rightarrow> store \<times> Writer \<Rightarrow> store \<times> Writer" where
  "in_frame f = (\<lambda>(st, w). (upd_frame (jn_page (wr_journal w)) (jn_pos (wr_journal w)) f st, w))"

definition copy_data :: "u8 list \<Rightarrow> Frame \<Rightarrow> Frame" where
  "copy_data data f = f\<lparr> fr_data := data \<rparr>"

text \<open>\<open>open_data\<close> and \<open>close_data\<close>: the caller fills the struct in the frame itself.\<close>

definition open_data ::
    "nat \<Rightarrow> int \<Rightarrow> int \<Rightarrow> nat \<Rightarrow> nat \<Rightarrow> store \<Rightarrow> Writer \<Rightarrow> (store \<times> Writer) option" where
  "open_data rb now trigger_time tag struct_size = wr_open rb now trigger_time tag struct_size"

definition close_data :: "nat \<Rightarrow> int \<Rightarrow> store \<Rightarrow> Writer \<Rightarrow> (store \<times> Writer) option" where
  "close_data rb gen_time st w = wr_close rb gen_time (wr_size_to_write w) st w"

text \<open>\<open>write\<close>, for data of fixed size and for data with a byte form; \<open>write_at\<close> is given the time.\<close>

definition wr_write ::
    "nat \<Rightarrow> int \<Rightarrow> int \<Rightarrow> int \<Rightarrow> nat \<Rightarrow> u8 list \<Rightarrow> store \<Rightarrow> Writer \<Rightarrow> (store \<times> Writer) option" where
  "wr_write rb now gen_time trigger_time msg_type data st w =
     (case wr_open rb now trigger_time msg_type (length data) st w of
        None \<Rightarrow> None
      | Some sw \<Rightarrow> let (st, w) = in_frame (copy_data data) sw in wr_close rb gen_time (length data) st w)"

definition wr_write_at ::
    "nat \<Rightarrow> int \<Rightarrow> int \<Rightarrow> int \<Rightarrow> nat \<Rightarrow> u8 list \<Rightarrow> store \<Rightarrow> Writer \<Rightarrow> (store \<times> Writer) option" where
  "wr_write_at rb now gen_time trigger_time tag data = wr_write rb now gen_time trigger_time tag data"

definition wr_write_as ::
    "nat \<Rightarrow> int \<Rightarrow> int \<Rightarrow> int \<Rightarrow> nat \<Rightarrow> u8 list \<Rightarrow> u32 \<Rightarrow> u32 \<Rightarrow> store \<Rightarrow> Writer \<Rightarrow> (store \<times> Writer) option" where
  "wr_write_as rb now gen_time trigger_time tag data source dest st w =
     (case wr_open rb now trigger_time tag (length data) st w of
        None \<Rightarrow> None
      | Some sw \<Rightarrow>
          let (st, w) = in_frame (\<lambda>f. (copy_data data f)\<lparr> fr_source := source, fr_dest := dest \<rparr>) sw
          in wr_close rb gen_time (length data) st w)"

text \<open>\<open>write_raw\<close> takes bytes from an address, \<open>write_bytes\<close> from a vector that must hold them.\<close>

definition write_raw ::
    "nat \<Rightarrow> int \<Rightarrow> int \<Rightarrow> int \<Rightarrow> nat \<Rightarrow> u8 list \<Rightarrow> nat \<Rightarrow> store \<Rightarrow> Writer \<Rightarrow> (store \<times> Writer) option" where
  "write_raw rb now gen_time trigger_time msg_type mem len st w =
     (if length mem < len then None else wr_write rb now gen_time trigger_time msg_type (take len mem) st w)"

definition write_bytes ::
    "nat \<Rightarrow> int \<Rightarrow> int \<Rightarrow> int \<Rightarrow> nat \<Rightarrow> u8 list \<Rightarrow> nat \<Rightarrow> store \<Rightarrow> Writer \<Rightarrow> (store \<times> Writer) option" where
  "write_bytes rb now gen_time trigger_time msg_type data len st w =
     (if length data < len then None else wr_write rb now gen_time trigger_time msg_type (take len data) st w)"

definition wr_mark ::
    "nat \<Rightarrow> int \<Rightarrow> int \<Rightarrow> int \<Rightarrow> nat \<Rightarrow> store \<Rightarrow> Writer \<Rightarrow> (store \<times> Writer) option" where
  "wr_mark rb now gen_time trigger_time msg_type st w =
     (case wr_open rb now trigger_time msg_type 0 st w of
        None \<Rightarrow> None
      | Some (st, w) \<Rightarrow> wr_close rb gen_time 0 st w)"

text \<open>\<open>copy_frame\<close> looks at no lock and wakes nobody.\<close>

definition wr_copy_frame :: "nat \<Rightarrow> int \<Rightarrow> Frame \<Rightarrow> store \<Rightarrow> Writer \<Rightarrow> (store \<times> Writer) option" where
  "wr_copy_frame rb now source st w =
     map_option (\<lambda>(st, j). (st, w\<lparr> wr_journal := j \<rparr>)) (copy_frame rb now now source st (wr_journal w))"


section \<open>One write\<close>

lemma copy_data_alt: "copy_data data = fr_data_update (\<lambda>_. data)"
  by (simp add: fun_eq_iff copy_data_def)

lemma wr_write_free:
  "\<not> wr_locked w \<Longrightarrow> wr_write rb now gen_time trigger_time msg_type data st w =
     map_option (\<lambda>(st, j). (st, w\<lparr> wr_journal := j, wr_size_to_write := 0, wr_posts := Suc (wr_posts w) \<rparr>))
       (writer_write rb now gen_time trigger_time msg_type data st (wr_journal w))"
  by (cases w)
    (auto simp: wr_write_def wr_open_def wr_close_def in_frame_def copy_data_alt writer_write_def split: option.splits prod.splits)

lemma wr_write_locked: "wr_locked w \<Longrightarrow> wr_write rb now gen_time trigger_time msg_type data st w = None"
  by (simp add: wr_write_def wr_open_def)

text \<open>Opening for a struct, filling it and closing is the same write.\<close>

lemma open_fill_close:
  "Option.bind (open_data rb now trigger_time tag (length data) st w)
     (\<lambda>sw. let (st, w) = in_frame (copy_data data) sw in close_data rb gen_time st w) =
   wr_write rb now gen_time trigger_time tag data st w"
  by (auto simp: open_data_def close_data_def wr_write_def wr_open_def in_frame_def split: option.splits prod.splits)

lemma wr_mark_free:
  assumes "\<not> wr_locked w" "current_frame st (wr_journal w) = Frame_zero" "fits st (wr_journal w) 0"
  shows "wr_mark rb now gen_time trigger_time msg_type st w = wr_write rb now gen_time trigger_time msg_type [] st w"
  using assms
  by (auto simp: wr_mark_def wr_write_def wr_open_def in_frame_def copy_data_def open_frame_def fits_def current_frame_def
      current_page_def upd_frame_def upd_page_def Frame_zero_def split: option.splits)

text \<open>The frame each way of writing leaves on a page with room.\<close>

definition appends :: "store \<Rightarrow> Writer \<Rightarrow> Frame list \<Rightarrow> Frame \<Rightarrow> (store \<times> Writer) option \<Rightarrow> bool" where
  "appends st w fs f r \<longleftrightarrow>
     (\<exists>st' w'. r = Some (st', w') \<and> writer_at st' (wr_journal w') (fs @ [f]) \<and> \<not> wr_locked w' \<and>
        wr_size_to_write w' = 0 \<and> wr_posts w' = Suc (wr_posts w))"

lemma write_appends:
  assumes "writer_at st (wr_journal w) fs" "\<not> wr_locked w" "fits st (wr_journal w) (length data)" "0 < msg_type"
  shows "appends st w fs (written (wr_journal w) gen_time trigger_time msg_type data)
    (wr_write rb now gen_time trigger_time msg_type data st w)"
proof -
  have v: "page_valid (jn_size (wr_journal w)) (current_page st (wr_journal w))" using assms(1) by (simp add: writer_at_def)
  obtain st' j' where wr: "writer_write rb now gen_time trigger_time msg_type data st (wr_journal w) = Some (st', j')"
    using write_fits [OF assms(3,4) v] by blast
  then show ?thesis
    using writer_at_write(1) [OF assms(1,3,4) wr] assms(2) by (simp add: appends_def wr_write_free)
qed


text \<open>The addresses of \<open>write_as\<close> are those given, not those of the journal.\<close>

definition readdressed :: "u32 \<Rightarrow> u32 \<Rightarrow> Frame \<Rightarrow> Frame" where
  "readdressed source dest f = f\<lparr> fr_source := source, fr_dest := dest \<rparr>"

lemma wr_write_as_free:
  "\<not> wr_locked w \<Longrightarrow> wr_write_as rb now gen_time trigger_time tag data source dest st w =
     map_option (\<lambda>(st, j). (st, w\<lparr> wr_journal := j, wr_size_to_write := 0, wr_posts := Suc (wr_posts w) \<rparr>))
       (write_as rb now gen_time trigger_time tag data source dest st (wr_journal w))"
  by (cases w)
    (auto simp: wr_write_as_def wr_open_def wr_close_def in_frame_def copy_data_def write_as_def split: option.splits prod.splits)

lemma write_as_fits:
  assumes "fits st j (length data)" "0 < msg_type"
  shows "write_as rb now gen_time trigger_time msg_type data source dest st j =
    Some (put_frame j (readdressed source dest (written j gen_time trigger_time msg_type data)) st,
          j\<lparr> jn_pos := jn_pos j + (FRAME_HEADER + length data), jn_frame_nb := jn_frame_nb j + 1 \<rparr>)"
proof -
  define p where "p = page_at st (jn_page j)"
  have b: "jn_pos j + FRAME_HEADER + length data < pg_size p - FRAME_HEADER"
    using assms(1) by (simp add: fits_def current_page_def address_border_def p_def)
  then show ?thesis
    using assms(2)
    by (cases "pg_mem p (jn_pos j)")
      (simp add: write_as_def open_frame_def close_frame_def current_page_def current_frame_def p_def [symmetric]
        address_border_def journal_next_def put_frame_def written_def readdressed_def upd_frame_def upd_page_def Let_def
        fun_upd_twist journal_consts add.assoc)
qed

lemma put_frame_at:
  assumes "writer_at st j fs" "fits st j len" "0 < fr_msg_type f" "fr_header_length f = FRAME_HEADER"
    "fr_length f = FRAME_HEADER + len" "length (fr_data f) = len"
  shows "writer_at (put_frame j f st) (j\<lparr> jn_pos := jn_pos j + (FRAME_HEADER + len), jn_frame_nb := n \<rparr>) (fs @ [f])"
proof -
  let ?m = "pg_mem (current_page st j)"
  let ?m' = "?m(jn_pos j + fr_length f := Frame_zero, jn_pos j := f)"
  let ?j = "j\<lparr> jn_pos := jn_pos j + (FRAME_HEADER + len), jn_frame_nb := n \<rparr>"
  have cur: "current_page (put_frame j f st) ?j = (current_page st j)\<lparr> pg_mem := ?m', pg_last := jn_pos j \<rparr>"
    by (simp add: put_frame_def current_page_def)
  have "frames ?m PAGE_HEADER fs (jn_pos j)" using assms(1) by (simp add: writer_at_def)
  then have "frames ?m' PAGE_HEADER fs (jn_pos j)" by (intro frames_upd) simp_all
  moreover have "frames ?m' (jn_pos j) [f] (jn_pos j + (FRAME_HEADER + len))" using assms(3-6) by simp
  ultimately have "frames ?m' PAGE_HEADER (fs @ [f]) (jn_pos j + (FRAME_HEADER + len))" using frames_append by blast
  moreover have "PAGE_HEADER \<le> jn_pos j" using assms(1) frames_le by (auto simp: writer_at_def)
  moreover have "page_valid (jn_size j) (current_page st j)" using assms(1) by (simp add: writer_at_def)
  ultimately show ?thesis
    using assms(2,5) unfolding writer_at_def current_frame_def cur
    by (simp add: Frame_zero_def journal_consts fits_def page_valid_def)
qed

lemma write_as_appends:
  assumes "writer_at st (wr_journal w) fs" "\<not> wr_locked w" "fits st (wr_journal w) (length data)" "0 < msg_type"
  shows "appends st w fs (readdressed source dest (written (wr_journal w) gen_time trigger_time msg_type data))
    (wr_write_as rb now gen_time trigger_time msg_type data source dest st w)"
  using put_frame_at [OF assms(1,3)] assms(2,4)
  by (simp add: appends_def wr_write_as_free write_as_fits [OF assms(3,4)] readdressed_def written_def)

section \<open>Threads that share a writer\<close>

text \<open>
  A thread has messages to write, each in three steps: it opens the frame, if it gets the lock, fills
  it and closes it. One that does not get the lock in time leaves with an exception. \<open>ws_log\<close> lists
  what has been written, and by whom.
\<close>

datatype Phase = Waiting "Msg list" | Opened Msg "Msg list" | Filled Msg "Msg list" | Gave_up "Msg list"

record Shared =
  ws_store :: store
  ws_writer :: Writer
  ws_threads :: "nat \<Rightarrow> Phase"
  ws_log :: "(nat \<times> Msg) list"

inductive thread_step :: "nat \<Rightarrow> Shared \<Rightarrow> Shared \<Rightarrow> bool" for rb :: nat where
  opens:
    "\<lbrakk> ws_threads s i = Waiting (m # ms);
       wr_open rb now (msg_trigger m) (msg_tag m) (length (msg_bytes m)) (ws_store s) (ws_writer s) = Some (st, w) \<rbrakk>
     \<Longrightarrow> thread_step rb s (s\<lparr> ws_store := st, ws_writer := w, ws_threads := (ws_threads s)(i := Opened m ms) \<rparr>)"
| gives_up:
    "\<lbrakk> ws_threads s i = Waiting (m # ms); wr_locked (ws_writer s) \<rbrakk>
     \<Longrightarrow> thread_step rb s (s\<lparr> ws_threads := (ws_threads s)(i := Gave_up (m # ms)) \<rparr>)"
| fills:
    "\<lbrakk> ws_threads s i = Opened m ms; in_frame (copy_data (msg_bytes m)) (ws_store s, ws_writer s) = (st, w) \<rbrakk>
     \<Longrightarrow> thread_step rb s (s\<lparr> ws_store := st, ws_writer := w, ws_threads := (ws_threads s)(i := Filled m ms) \<rparr>)"
| closes:
    "\<lbrakk> ws_threads s i = Filled m ms;
       wr_close rb (msg_gen m) (length (msg_bytes m)) (ws_store s) (ws_writer s) = Some (st, w) \<rbrakk>
     \<Longrightarrow> thread_step rb s (s\<lparr> ws_store := st, ws_writer := w, ws_threads := (ws_threads s)(i := Waiting ms),
                            ws_log := ws_log s @ [(i, m)] \<rparr>)"

inductive_cases thread_stepE: "thread_step rb s s'"

definition threads_start :: "store \<Rightarrow> Writer \<Rightarrow> (nat \<Rightarrow> Msg list) \<Rightarrow> Shared" where
  "threads_start st w todo = \<lparr> ws_store = st, ws_writer = w, ws_threads = (\<lambda>i. Waiting (todo i)), ws_log = [] \<rparr>"

text \<open>Writes one after the other, each with its own clock reading.\<close>

inductive wrote :: "nat \<Rightarrow> Msg list \<Rightarrow> store \<times> Journal \<Rightarrow> store \<times> Journal \<Rightarrow> bool" for rb :: nat where
  none: "wrote rb [] sj sj"
| one_more:
    "\<lbrakk> wrote rb ms sj (st, j);
       writer_write rb now (msg_gen m) (msg_trigger m) (msg_tag m) (msg_bytes m) st j = Some sj' \<rbrakk>
     \<Longrightarrow> wrote rb (ms @ [m]) sj sj'"

text \<open>
  The invariant: an unlocked writer stands behind the messages of the log, written one after the
  other; a locked one is in the middle of the next write, of the one thread that is inside.
\<close>

fun inside :: "Phase \<Rightarrow> bool" where
  "inside (Opened m ms) = True" | "inside (Filled m ms) = True" | "inside _ = False"

fun still_to_write :: "Phase \<Rightarrow> Msg list" where
  "still_to_write (Waiting ms) = ms" | "still_to_write (Opened m ms) = m # ms"
| "still_to_write (Filled m ms) = m # ms" | "still_to_write (Gave_up ms) = ms"

definition sole :: "Shared \<Rightarrow> nat \<Rightarrow> bool" where
  "sole s i \<longleftrightarrow> inside (ws_threads s i) \<and> (\<forall>k. inside (ws_threads s k) \<longrightarrow> k = i)"

lemma sole_same: "\<lbrakk> sole s i; inside (ws_threads s k) \<rbrakk> \<Longrightarrow> i = k"
  by (simp add: sole_def)

lemma sole_upd:
  "ws_threads s' = (ws_threads s)(i := ph) \<Longrightarrow> inside ph \<Longrightarrow> (\<And>k. k \<noteq> i \<Longrightarrow> \<not> inside (ws_threads s k)) \<Longrightarrow> sole s' i"
  unfolding sole_def by (metis fun_upd_apply)

lemma sole_outside:
  "\<lbrakk> ws_threads s' = (ws_threads s)(i := ph); \<not> inside ph; \<not> inside (ws_threads s i); sole s k \<rbrakk> \<Longrightarrow> sole s' k"
  unfolding sole_def by (metis fun_upd_apply)

definition mid_write :: "nat \<Rightarrow> store \<times> Journal \<Rightarrow> Phase \<Rightarrow> Shared \<Rightarrow> bool" where
  "mid_write rb sj0 ph s \<longleftrightarrow>
     (\<exists>m ms now st j st1. wrote rb (List.map snd (ws_log s)) sj0 (st, j) \<and>
        open_frame rb now (msg_trigger m) (msg_tag m) (length (msg_bytes m)) st j = Some (st1, wr_journal (ws_writer s)) \<and>
        wr_size_to_write (ws_writer s) = length (msg_bytes m) \<and>
        (ph = Opened m ms \<and> ws_store s = st1 \<or>
         ph = Filled m ms \<and> ws_store s = upd_frame (jn_page (wr_journal (ws_writer s))) (jn_pos (wr_journal (ws_writer s)))
           (copy_data (msg_bytes m)) st1))"

definition threads_inv :: "nat \<Rightarrow> store \<times> Journal \<Rightarrow> (nat \<Rightarrow> Msg list) \<Rightarrow> Shared \<Rightarrow> bool" where
  "threads_inv rb sj0 todo s \<longleftrightarrow>
     (\<forall>i. List.map snd (filter (\<lambda>x. fst x = i) (ws_log s)) @ still_to_write (ws_threads s i) = todo i) \<and>
     (if wr_locked (ws_writer s)
      then \<exists>i. sole s i \<and> mid_write rb sj0 (ws_threads s i) s
      else (\<forall>i. \<not> inside (ws_threads s i)) \<and> wrote rb (List.map snd (ws_log s)) sj0 (ws_store s, wr_journal (ws_writer s)))"

lemma threads_inv_start:
  "\<not> wr_locked w \<Longrightarrow> threads_inv rb (st, wr_journal w) todo (threads_start st w todo)"
  by (simp add: threads_inv_def threads_start_def wrote.none)

definition log_order :: "(nat \<Rightarrow> Msg list) \<Rightarrow> Shared \<Rightarrow> bool" where
  "log_order todo s \<longleftrightarrow> (\<forall>i. List.map snd (filter (\<lambda>x. fst x = i) (ws_log s)) @ still_to_write (ws_threads s i) = todo i)"

lemma threads_inv_alt:
  "threads_inv rb sj0 todo s \<longleftrightarrow> log_order todo s \<and>
     (if wr_locked (ws_writer s) then \<exists>i. sole s i \<and> mid_write rb sj0 (ws_threads s i) s
      else (\<forall>i. \<not> inside (ws_threads s i)) \<and> wrote rb (List.map snd (ws_log s)) sj0 (ws_store s, wr_journal (ws_writer s)))"
  by (simp add: threads_inv_def log_order_def)

lemma log_order_phase:
  assumes "log_order todo s" "ws_threads s' = (ws_threads s)(i := ph)" "ws_log s' = ws_log s"
    "still_to_write ph = still_to_write (ws_threads s i)"
  shows "log_order todo s'"
  using assms by (simp add: log_order_def)

lemma inside_only:
  assumes "threads_inv rb sj0 todo s" "inside (ws_threads s i)"
  shows "wr_locked (ws_writer s)" "sole s i" "mid_write rb sj0 (ws_threads s i) s"
proof -
  show l: "wr_locked (ws_writer s)"
  proof (rule ccontr)
    assume "\<not> wr_locked (ws_writer s)"
    then have "\<forall>i. \<not> inside (ws_threads s i)" using assms(1) by (simp add: threads_inv_alt)
    then show False using assms(2) by blast
  qed
  then obtain k where k: "sole s k" "mid_write rb sj0 (ws_threads s k) s"
    using assms(1) by (auto simp: threads_inv_alt)
  have "k = i" by (rule sole_same [OF k(1) assms(2)])
  then show "sole s i" "mid_write rb sj0 (ws_threads s i) s" using k by simp_all
qed

lemma threads_inv_step:
  assumes "thread_step rb s s'" "threads_inv rb sj0 todo s"
  shows "threads_inv rb sj0 todo s'"
  using assms(1)
proof (cases rule: thread_stepE [consumes 1, case_names opens gives_up fills closes])
  case (opens i m ms now st w)
  then have u: "\<not> wr_locked (ws_writer s)" by (auto simp: wr_open_def split: if_splits)
  obtain j where o: "open_frame rb now (msg_trigger m) (msg_tag m) (length (msg_bytes m)) (ws_store s) (wr_journal (ws_writer s)) = Some (st, j)"
    "w = (ws_writer s)\<lparr> wr_journal := j, wr_size_to_write := length (msg_bytes m), wr_locked := True \<rparr>"
    using opens(3) u by (auto simp: wr_open_def)
  have n: "\<not> inside (ws_threads s k)" and wr: "wrote rb (List.map snd (ws_log s)) sj0 (ws_store s, wr_journal (ws_writer s))" for k
    using assms(2) u by (simp_all add: threads_inv_alt)
  have "mid_write rb sj0 (Opened m ms) s'" using o wr unfolding mid_write_def opens(1) by auto
  moreover have "sole s' i" using n by (intro sole_upd [of s' s i "Opened m ms"]) (simp_all add: opens(1))
  moreover have "log_order todo s'"
    using assms(2) opens(2) by (intro log_order_phase [of todo s s' i "Opened m ms"]) (simp_all add: opens(1) threads_inv_alt)
  ultimately show ?thesis unfolding threads_inv_alt by (auto simp: opens(1) o(2))
next
  case (gives_up i m ms)
  then obtain k where k: "sole s k" "mid_write rb sj0 (ws_threads s k) s"
    using assms(2) by (auto simp: threads_inv_alt)
  then have ki: "k \<noteq> i" using gives_up(2) by (auto simp: mid_write_def)
  have "sole s' k" using k(1) gives_up(2) by (intro sole_outside [of s' s i "Gave_up (m # ms)" k]) (simp_all add: gives_up(1))
  moreover have "mid_write rb sj0 (ws_threads s k) s'" using k(2) unfolding mid_write_def gives_up(1) by simp
  moreover have "log_order todo s'"
    using assms(2) gives_up(2) by (intro log_order_phase [of todo s s' i "Gave_up (m # ms)"]) (simp_all add: gives_up(1) threads_inv_alt)
  ultimately show ?thesis
    using ki gives_up(3) unfolding threads_inv_alt by (auto simp: gives_up(1) intro!: exI [of _ k])
next
  case (fills i m ms st w)
  have l: "wr_locked (ws_writer s)" "sole s i" "mid_write rb sj0 (Opened m ms) s"
    using inside_only [OF assms(2), of i] fills(2) by simp_all
  have w: "w = ws_writer s" "st = upd_frame (jn_page (wr_journal w)) (jn_pos (wr_journal w)) (copy_data (msg_bytes m)) (ws_store s)"
    using fills(3) by (auto simp: in_frame_def)
  have "mid_write rb sj0 (Filled m ms) s'" using l(3) w unfolding mid_write_def fills(1) by clarsimp blast
  moreover have "sole s' i"
    using sole_same [OF l(2)] by (intro sole_upd [of s' s i "Filled m ms"]) (auto simp: fills(1))
  moreover have "log_order todo s'"
    using assms(2) fills(2) by (intro log_order_phase [of todo s s' i "Filled m ms"]) (simp_all add: fills(1) threads_inv_alt)
  ultimately show ?thesis using l(1) unfolding threads_inv_alt by (auto simp: fills(1) w(1))
next
  case (closes i m ms st w)
  have i: "sole s i" "mid_write rb sj0 (Filled m ms) s"
    using inside_only [OF assms(2), of i] closes(2) by simp_all
  obtain j where c: "close_frame rb (msg_gen m) (length (msg_bytes m)) (ws_store s) (wr_journal (ws_writer s)) = Some (st, j)"
    "w = (ws_writer s)\<lparr> wr_journal := j, wr_size_to_write := 0, wr_locked := False, wr_posts := Suc (wr_posts (ws_writer s)) \<rparr>"
    using closes(3) by (auto simp: wr_close_def split: if_splits)
  from i(2) obtain now st0 j0 st1 where m: "wrote rb (List.map snd (ws_log s)) sj0 (st0, j0)"
    "open_frame rb now (msg_trigger m) (msg_tag m) (length (msg_bytes m)) st0 j0 = Some (st1, wr_journal (ws_writer s))"
    "ws_store s = upd_frame (jn_page (wr_journal (ws_writer s))) (jn_pos (wr_journal (ws_writer s))) (copy_data (msg_bytes m)) st1"
    by (auto simp: mid_write_def)
  then have "writer_write rb now (msg_gen m) (msg_trigger m) (msg_tag m) (msg_bytes m) st0 j0 = Some (st, j)"
    using c(1) by (simp add: writer_write_def copy_data_alt)
  then have "wrote rb (List.map snd (ws_log s')) sj0 (ws_store s', wr_journal (ws_writer s'))"
    using wrote.one_more [OF m(1)] by (simp add: closes(1) c(2))
  moreover have "log_order todo s'"
    using assms(2) closes(2) unfolding threads_inv_alt log_order_def closes(1) by (auto dest: spec [of _ i])
  moreover have "\<not> inside (ws_threads s' k)" for k
    using sole_same [OF i(1), of k] by (auto simp: closes(1))
  ultimately show ?thesis unfolding threads_inv_alt by (simp add: closes(1) c(2))
qed

lemma threads_inv_run:
  assumes "(thread_step rb)\<^sup>*\<^sup>* (threads_start st w todo) s" "\<not> wr_locked w"
  shows "threads_inv rb (st, wr_journal w) todo s"
  using assms(1) by induction (auto intro: threads_inv_start [OF assms(2)] threads_inv_step)


text \<open>
  What a reader finds of the messages written: those before the first that does not fit the page. That
  one and all later ones are put on later pages (pages are not used again, \<open>s_page_rollback_size\<close> being 0),
  and the reader does not get past the end of its page.
\<close>

fun that_fit :: "nat \<Rightarrow> Msg list \<Rightarrow> Msg list" where
  "that_fit room [] = []"
| "that_fit room (m # ms) =
     (if FRAME_HEADER + length (msg_bytes m) < room then m # that_fit (room - (FRAME_HEADER + length (msg_bytes m))) ms else [])"

lemma that_fit_all: "that_fit room ms = ms \<longleftrightarrow> ms = [] \<or> msgs_size ms < room"
  by (induction ms arbitrary: room) (auto simp: msgs_size_def less_diff_conv add.commute)

lemma that_fit_snoc:
  "that_fit room (ms @ [m]) = that_fit room ms @ (if that_fit room ms = ms \<and> msgs_size (ms @ [m]) < room then [m] else [])"
  by (induction ms arbitrary: room) (auto simp: msgs_size_def less_diff_conv add_ac)

lemma msgs_size_snoc: "msgs_size (ms @ [m]) = msgs_size ms + (FRAME_HEADER + length (msg_bytes m))"
  by (simp add: msgs_size_def)

text \<open>A write that does not fit ends the page, which later writes leave as it is.\<close>

lemma page_ended:
  assumes "writer_at st j fs" "\<not> fits st j (length data)" "omap_find st (jn_page j + 1) = None" "jn_in_rollback j \<noteq> jn_page j"
    "writer_write 0 now gen_time trigger_time msg_type data st j = Some (st', j')"
  shows "jn_page j < jn_page j'" "frames (pg_mem (page_at st' (jn_page j))) PAGE_HEADER fs (jn_pos j)"
    "\<not> has_data (pg_mem (page_at st' (jn_page j)) (jn_pos j))"
proof -
  obtain st1 j1 e where c: "close_page 0 now trigger_time st j = Some (st1, j1)" "jn_page j1 = jn_page j + 1"
    "page_at st1 (jn_page j) = (current_page st j)\<lparr> pg_mem := (pg_mem (current_page st j))(jn_pos j := e), pg_last := jn_pos j \<rparr>"
    "fr_msg_type e = 0"
    using close_page_new [OF assms(1,3,4)] by blast
  obtain st2 where o: "open_frame 0 now trigger_time msg_type (length data) st j = Some (st2, j1)"
    "page_at st2 (jn_page j) = page_at st1 (jn_page j)"
    "close_frame 0 gen_time (length data) (upd_frame (jn_page j1) (jn_pos j1) (\<lambda>f. f\<lparr> fr_data := data \<rparr>) st2) j1 = Some (st', j')"
    using assms(2,5) c(1,2) by (auto simp: writer_write_def open_frame_def fits_def not_less split: if_splits)
  from close_frame_pages [OF o(3)] c(2)
  have p: "jn_page j < jn_page j'" "page_at st' (jn_page j) = page_at st1 (jn_page j)" by (simp_all add: o(2))
  then show "jn_page j < jn_page j'" by simp
  show "frames (pg_mem (page_at st' (jn_page j))) PAGE_HEADER fs (jn_pos j)"
    using assms(1) by (simp add: p(2) c(3) writer_at_def frames_upd)
  show "\<not> has_data (pg_mem (page_at st' (jn_page j)) (jn_pos j))" by (simp add: p(2) c(3,4) has_data_def)
qed

text \<open>The page of the reader, and where the writer is, after a number of writes.\<close>

definition page_holds :: "store \<times> Journal \<Rightarrow> Frame list \<Rightarrow> Msg list \<Rightarrow> store \<times> Journal \<Rightarrow> bool" where
  "page_holds sj0 fs ms sj \<longleftrightarrow>
     (let (st0, j0) = sj0; (st, j) = sj; room = address_border (current_page st0 j0) - jn_pos j0; got = that_fit room ms
      in (\<exists>b. frames (pg_mem (page_at st (jn_page j0))) PAGE_HEADER (fs @ List.map (frame_of j0) got) b \<and>
              \<not> has_data (pg_mem (page_at st (jn_page j0)) b)) \<and>
         (if got = ms
          then writer_at st j (fs @ List.map (frame_of j0) ms) \<and> jn_page j = jn_page j0 \<and> jn_pos j = jn_pos j0 + msgs_size ms \<and>
            address_border (current_page st j) = address_border (current_page st0 j0) \<and>
            omap_find st (jn_page j + 1) = None \<and> jn_in_rollback j = jn_in_rollback j0 \<and> frame_of j = frame_of j0
          else jn_page j0 < jn_page j))"

lemma writer_at_end: "writer_at st j fs \<Longrightarrow>
    frames (pg_mem (page_at st (jn_page j))) PAGE_HEADER fs (jn_pos j) \<and> \<not> has_data (pg_mem (page_at st (jn_page j)) (jn_pos j))"
  by (simp add: writer_at_def current_frame_def current_page_def has_data_def)

lemma put_frame_find: "pid \<noteq> jn_page j \<Longrightarrow> omap_find (put_frame j f st) pid = omap_find st pid"
  by (simp add: put_frame_def upd_page_def)

lemma wrote_on_page:
  assumes "wrote 0 ms sj0 sj" "writer_at (fst sj0) (snd sj0) fs" "omap_find (fst sj0) (jn_page (snd sj0) + 1) = None"
    "jn_in_rollback (snd sj0) \<noteq> jn_page (snd sj0)" "\<forall>x \<in> set ms. 0 < msg_tag x"
  shows "page_holds sj0 fs ms sj"
  using assms
proof (induction rule: wrote.induct)
  case (none sj)
  then show ?case using writer_at_end [OF none(1)] by (auto simp: page_holds_def msgs_size_def)
next
  case (one_more ms sj st j now m sj')
  obtain st0 j0 st' j' where sj: "sj = (st0, j0)" "sj' = (st', j')" by fastforce
  let ?room = "address_border (current_page st0 j0) - jn_pos j0"
  have w: "writer_write 0 now (msg_gen m) (msg_trigger m) (msg_tag m) (msg_bytes m) st j = Some (st', j')"
    using one_more.hyps(2) by (simp add: sj)
  have ih: "page_holds (st0, j0) fs ms (st, j)" using one_more.IH one_more.prems by (simp add: sj)
  have b: "jn_pos j0 < address_border (current_page st0 j0)" using one_more.prems(1) by (simp add: sj writer_at_def)
  show ?case
  proof (cases "that_fit ?room ms = ms")
    case False
    then have l: "jn_page j0 < jn_page j" and g: "that_fit ?room (ms @ [m]) = that_fit ?room ms" "that_fit ?room ms \<noteq> ms @ [m]"
      using ih that_fit_snoc [of ?room ms m] that_fit_all [of ?room "ms @ [m]"] that_fit_all [of ?room ms]
      by (auto simp: page_holds_def Let_def msgs_size_snoc)
    from writer_write_pages [OF w] l ih show ?thesis by (simp add: sj page_holds_def Let_def g False)
  next
    case True
    with ih have at: "writer_at st j (fs @ List.map (frame_of j0) ms)" "jn_page j = jn_page j0" "jn_pos j = jn_pos j0 + msgs_size ms"
      "address_border (current_page st j) = address_border (current_page st0 j0)"
      "omap_find st (jn_page j + 1) = None" "jn_in_rollback j = jn_in_rollback j0" "frame_of j = frame_of j0"
      by (auto simp: page_holds_def Let_def)
    have room: "fits st j (length (msg_bytes m)) \<longleftrightarrow> msgs_size (ms @ [m]) < ?room"
      using b by (simp add: fits_def at(3,4) msgs_size_snoc) linarith
    have tag: "0 < msg_tag m" using one_more.prems(4) by simp
    show ?thesis
    proof (cases "fits st j (length (msg_bytes m))")
      case f: True
      then have g: "that_fit ?room (ms @ [m]) = ms @ [m]" using that_fit_snoc [of ?room ms m] True room by simp
      note e = writer_at_write [OF at(1) f tag w]
      have "page_valid (jn_size j) (current_page st j)" using at(1) by (simp add: writer_at_def)
      then have "st' = put_frame j (written j (msg_gen m) (msg_trigger m) (msg_tag m) (msg_bytes m)) st" "jn_in_rollback j' = jn_in_rollback j"
        using write_fits [OF f tag, of 0 now "msg_gen m" "msg_trigger m"] w by auto
      then have "omap_find st' (jn_page j + 1) = None" "jn_in_rollback j' = jn_in_rollback j" "frame_of j' = frame_of j0"
        using at(5,7) e(4,5) by (simp_all add: put_frame_find fun_eq_iff frame_of_def written_def)
      moreover have "writer_at st' j' (fs @ List.map (frame_of j0) (ms @ [m]))"
        using e(1) by (simp add: frame_of_def [symmetric] at(7))
      ultimately show ?thesis
        using e at(2-4,6) writer_at_end [of st' j'] unfolding sj page_holds_def Let_def case_prod_conv g
        by (auto simp: msgs_size_snoc)
    next
      case f: False
      then have g: "that_fit ?room (ms @ [m]) = ms" using that_fit_snoc [of ?room ms m] True room by simp
      have rb: "jn_in_rollback j \<noteq> jn_page j" using one_more.prems(3) by (simp add: sj at(2,6))
      from page_ended [OF at(1) f at(5) rb w] show ?thesis
        unfolding sj page_holds_def Let_def case_prod_conv g at(2) by auto
    qed
  qed
qed

lemma that_fit_length: "length (that_fit room ms) \<le> length ms"
  by (induction ms arbitrary: room) auto

lemma page_holds_read:
  assumes "page_holds (st0, j0) fs ms (st, j)" "writer_at st0 j0 fs" "jn_page r = jn_page j0" "jn_pos r = jn_pos j0" "length ms \<le> n"
  shows "let room = address_border (current_page st0 j0) - jn_pos j0
     in \<exists>r'. read_frames 0 n st r = Some (List.map (frame_of j0) (that_fit room ms), st, r') \<and>
          (if msgs_size ms < room then that_fit room ms = ms \<and> jn_page j = jn_page r' \<and> jn_pos j = jn_pos r'
           else jn_page r' < jn_page j)"
proof -
  let ?room = "address_border (current_page st0 j0) - jn_pos j0" and ?m = "pg_mem (page_at st (jn_page j0))"
  obtain b where b: "frames ?m PAGE_HEADER (fs @ List.map (frame_of j0) (that_fit ?room ms)) b" "\<not> has_data (?m b)"
    using assms(1) by (auto simp: page_holds_def Let_def)
  have "frames (pg_mem (current_page st0 j0)) PAGE_HEADER fs (jn_pos j0)" using assms(2) by (simp add: writer_at_def)
  with b(1) have "frames ?m (jn_pos r) (List.map (frame_of j0) (that_fit ?room ms)) b" using frames_tail assms(4) by simp
  moreover have "length (that_fit ?room ms) \<le> n" using that_fit_length [of ?room ms] assms(5) by linarith
  ultimately have rd: "read_frames 0 n st r = Some (List.map (frame_of j0) (that_fit ?room ms), st,
      r\<lparr> jn_pos := b, jn_frame_nb := jn_frame_nb r + length (that_fit ?room ms) \<rparr>)"
    using read_frames_exact [of st r "List.map (frame_of j0) (that_fit ?room ms)" b n] b(2) assms(3) by (simp add: current_page_def)
  have r: "0 < ?room" using assms(2) by (simp add: writer_at_def)
  have same: "that_fit ?room ms = ms \<longleftrightarrow> msgs_size ms < ?room"
    using that_fit_all [of ?room ms] r by (auto simp: msgs_size_def)
  show ?thesis
  proof (cases "msgs_size ms < ?room")
    case True
    with same have t: "that_fit ?room ms = ms" by simp
    with assms(1) have at: "writer_at st j (fs @ List.map (frame_of j0) ms)" "jn_page j = jn_page j0"
      by (simp_all add: page_holds_def Let_def)
    then have "b = jn_pos j" using b(1) writer_at_end [OF at(1)] frames_end t by (metis at(2))
    then show ?thesis using rd True t at(2) assms(3) by (simp add: Let_def)
  next
    case False
    with same have "jn_page j0 < jn_page j" using assms(1) by (simp add: page_holds_def Let_def)
    then show ?thesis using rd False assms(3) by (simp add: Let_def)
  qed
qed

section \<open>Properties\<close>

text \<open>C9: threads that share the writer of a journal write whole messages, one after the other. However their
  steps interleave, at most one of them is between opening and closing a frame; the messages of a thread are
  written in its order; and whenever nobody holds the lock, a reader that stood where the writer began finds,
  in the order the frames were closed, exactly the messages up to the first that did not fit the page, and
  then waits: all of them as long as they fit, and nothing behind the end of the page, which it does not get
  past. (The writer begins on its last page, which it may not come to again, and tags are above 0.)\<close>

theorem threads_share_writer:
  assumes "(thread_step 0)\<^sup>*\<^sup>* (threads_start st w todo) s" "\<not> wr_locked w" "writer_at st (wr_journal w) fs"
    "\<forall>i. \<forall>m \<in> set (todo i). 0 < msg_tag m"
    "omap_find st (jn_page (wr_journal w) + 1) = None" "jn_in_rollback (wr_journal w) \<noteq> jn_page (wr_journal w)"
    "jn_page r = jn_page (wr_journal w)" "jn_pos r = jn_pos (wr_journal w)" "length (ws_log s) \<le> n"
  shows "(\<forall>i k. inside (ws_threads s i) \<and> inside (ws_threads s k) \<longrightarrow> i = k) \<and>
    (\<forall>i. List.map snd (filter (\<lambda>x. fst x = i) (ws_log s)) @ still_to_write (ws_threads s i) = todo i) \<and>
    (\<not> wr_locked (ws_writer s) \<longrightarrow>
       (let log = List.map snd (ws_log s);
            room = address_border (current_page st (wr_journal w)) - jn_pos (wr_journal w)
        in (\<exists>r'. read_frames 0 n (ws_store s) r = Some (List.map (frame_of (wr_journal w)) (that_fit room log), ws_store s, r') \<and>
             (if msgs_size log < room
              then that_fit room log = log \<and> jn_page (wr_journal (ws_writer s)) = jn_page r' \<and> jn_pos (wr_journal (ws_writer s)) = jn_pos r'
              else jn_page r' < jn_page (wr_journal (ws_writer s))))))"
proof (intro conjI impI)
  have i: "threads_inv 0 (st, wr_journal w) todo s" by (rule threads_inv_run [OF assms(1,2)])
  show "\<forall>i k. inside (ws_threads s i) \<and> inside (ws_threads s k) \<longrightarrow> i = k"
    using sole_same [OF inside_only(2) [OF i]] by blast
  show o: "\<forall>i. List.map snd (filter (\<lambda>x. fst x = i) (ws_log s)) @ still_to_write (ws_threads s i) = todo i"
    using i by (simp add: threads_inv_def)
  have t: "\<forall>x \<in> set (List.map snd (ws_log s)). 0 < msg_tag x"
  proof
    fix x assume "x \<in> set (List.map snd (ws_log s))"
    then obtain i where "(i, x) \<in> set (ws_log s)" by auto
    then have x: "x \<in> set (List.map snd (filter (\<lambda>x. fst x = i) (ws_log s)))" by force
    have "set (List.map snd (filter (\<lambda>x. fst x = i) (ws_log s))) \<subseteq> set (todo i)"
      unfolding o [rule_format, of i, symmetric] by (simp only: set_append Un_upper1)
    then have "x \<in> set (todo i)" using x by blast
    then show "0 < msg_tag x" using assms(4) by blast
  qed
  assume "\<not> wr_locked (ws_writer s)"
  then have "wrote 0 (List.map snd (ws_log s)) (st, wr_journal w) (ws_store s, wr_journal (ws_writer s))"
    using i by (simp add: threads_inv_def)
  from wrote_on_page [OF this, of fs] assms(3,5,6) t
  have "page_holds (st, wr_journal w) fs (List.map snd (ws_log s)) (ws_store s, wr_journal (ws_writer s))" by simp
  then show "let log = List.map snd (ws_log s);
            room = address_border (current_page st (wr_journal w)) - jn_pos (wr_journal w)
        in (\<exists>r'. read_frames 0 n (ws_store s) r = Some (List.map (frame_of (wr_journal w)) (that_fit room log), ws_store s, r') \<and>
             (if msgs_size log < room
              then that_fit room log = log \<and> jn_page (wr_journal (ws_writer s)) = jn_page r' \<and> jn_pos (wr_journal (ws_writer s)) = jn_pos r'
              else jn_page r' < jn_page (wr_journal (ws_writer s))))"
    using page_holds_read [OF _ assms(3,7,8), of "List.map snd (ws_log s)"] assms(9) by (simp add: Let_def)
qed


text \<open>A thread that finds the writer free can go through its three steps.\<close>

lemma whole_write:
  assumes "ws_threads s i = Waiting (m # ms)"
    "wr_write rb now (msg_gen m) (msg_trigger m) (msg_tag m) (msg_bytes m) (ws_store s) (ws_writer s) = Some (st, w)"
  shows "(thread_step rb)\<^sup>*\<^sup>* s (s\<lparr> ws_store := st, ws_writer := w, ws_threads := (ws_threads s)(i := Waiting ms),
    ws_log := ws_log s @ [(i, m)] \<rparr>)"
proof -
  let ?c = "s\<lparr> ws_store := st, ws_writer := w, ws_threads := (ws_threads s)(i := Waiting ms), ws_log := ws_log s @ [(i, m)] \<rparr>"
  obtain st1 w1 where o: "wr_open rb now (msg_trigger m) (msg_tag m) (length (msg_bytes m)) (ws_store s) (ws_writer s) = Some (st1, w1)"
    using assms(2) by (auto simp: wr_write_def split: option.splits)
  obtain st2 w2 where f: "in_frame (copy_data (msg_bytes m)) (st1, w1) = (st2, w2)" by fastforce
  have c: "wr_close rb (msg_gen m) (length (msg_bytes m)) st2 w2 = Some (st, w)"
    using assms(2) o f by (simp add: wr_write_def)
  let ?a = "s\<lparr> ws_store := st1, ws_writer := w1, ws_threads := (ws_threads s)(i := Opened m ms) \<rparr>"
  let ?b = "?a\<lparr> ws_store := st2, ws_writer := w2, ws_threads := (ws_threads ?a)(i := Filled m ms) \<rparr>"
  have "thread_step rb s ?a" by (rule thread_step.opens [OF assms(1) o])
  moreover have "thread_step rb ?a ?b" by (rule thread_step.fills) (simp_all add: f)
  moreover have "thread_step rb ?b (?b\<lparr> ws_store := st, ws_writer := w, ws_threads := (ws_threads ?b)(i := Waiting ms),
      ws_log := ws_log ?b @ [(i, m)] \<rparr>)" by (rule thread_step.closes) (simp_all add: c)
  then have "thread_step rb ?b ?c" by simp
  ultimately show ?thesis by (meson converse_rtranclp_into_rtranclp r_into_rtranclp)
qed

definition sample_writer :: Writer where
  "sample_writer = \<lparr> wr_journal = sample_journal, wr_size_to_write = 0, wr_locked = False, wr_posts = 0 \<rparr>"

lemma sample_fits: "fits sample_store (wr_journal sample_writer) (length (msg_bytes sample_msg))" "0 < msg_tag sample_msg"
  by (simp_all add: fits_def sample_writer_def current_page_def sample_store_def sample_journal_def page_at_def init_new_page
      sample_msg_def journal_consts tag_num_Bar)

lemma sample_write:
  "appends sample_store sample_writer [] (frame_of sample_journal sample_msg)
     (wr_write 0 9 (msg_gen sample_msg) (msg_trigger sample_msg) (msg_tag sample_msg) (msg_bytes sample_msg) sample_store sample_writer)"
  using write_appends [of sample_store sample_writer "[]" "msg_bytes sample_msg"] sample_writer_at sample_fits
  by (simp add: sample_writer_def frame_of_def)

lemma threads_share_writer_witness:
  "\<exists>s. (thread_step 0)\<^sup>*\<^sup>* (threads_start sample_store sample_writer (\<lambda>i. if i < 2 then [sample_msg] else [])) s \<and>
     ws_log s = [(1, sample_msg)] \<and> (\<exists>r'. read_frames 0 5 (ws_store s) sample_journal = Some ([frame_of sample_journal sample_msg], ws_store s, r'))"
proof -
  let ?start = "threads_start sample_store sample_writer (\<lambda>i. if i < 2 then [sample_msg] else [])"
  obtain st w where w: "wr_write 0 9 (msg_gen sample_msg) (msg_trigger sample_msg) (msg_tag sample_msg) (msg_bytes sample_msg)
      sample_store sample_writer = Some (st, w)" "\<not> wr_locked w"
    using sample_write by (auto simp: appends_def)
  let ?s = "?start\<lparr> ws_store := st, ws_writer := w, ws_threads := (ws_threads ?start)(1 := Waiting []), ws_log := ws_log ?start @ [(1, sample_msg)] \<rparr>"
  have r: "(thread_step 0)\<^sup>*\<^sup>* ?start ?s"
    using whole_write [of ?start 1 sample_msg "[]" 0 9 st w] w(1) by (simp add: threads_start_def)
  have p: "\<not> wr_locked sample_writer" "writer_at sample_store (wr_journal sample_writer) []"
    "\<forall>i. \<forall>m \<in> set (if i < (2 :: nat) then [sample_msg] else []). 0 < msg_tag m"
    "omap_find sample_store (jn_page (wr_journal sample_writer) + 1) = None"
    "jn_in_rollback (wr_journal sample_writer) \<noteq> jn_page (wr_journal sample_writer)"
    "jn_page sample_journal = jn_page (wr_journal sample_writer)" "jn_pos sample_journal = jn_pos (wr_journal sample_writer)"
    "length (ws_log ?s) \<le> 5" "\<not> wr_locked (ws_writer ?s)"
    using sample_fits sample_writer_at w(2)
    by (simp_all add: threads_start_def sample_writer_def sample_journal_def sample_store_def journal_new_def)
  from threads_share_writer [OF r p(1-8), THEN conjunct2, THEN conjunct2, rule_format, OF p(9)]
  have "\<exists>r'. read_frames 0 5 (ws_store ?s) sample_journal = Some ([frame_of sample_journal sample_msg], ws_store ?s, r')"
    using sample_fits by (auto simp: Let_def threads_start_def sample_writer_def fits_def less_diff_conv add.commute)
  with r show ?thesis by (intro exI [of _ ?s]) (simp add: threads_start_def)
qed

text \<open>All the ways to write are one. On a page with room each of them appends one frame with the
  times, the tag and the bytes it was given, releases the lock and posts once: a struct filled in
  place, a struct or byte form that is copied, bytes from an address or a vector, a mark without data;
  only \<open>write_as\<close> puts other addresses on the frame. A vector that is shorter than the length
  asked for is read behind its end.\<close>

theorem writer_variants:
  assumes "writer_at st (wr_journal w) fs" "\<not> wr_locked w" "fits st (wr_journal w) (length data)" "0 < tag"
    "current_frame st (wr_journal w) = Frame_zero" "len \<le> length data"
  shows "let f = written (wr_journal w) gen_time trigger_time tag in
    appends st w fs (f data) (wr_write rb now gen_time trigger_time tag data st w) \<and>
    appends st w fs (f data) (wr_write_at rb now gen_time trigger_time tag data st w) \<and>
    appends st w fs (f data) (Option.bind (open_data rb now trigger_time tag (length data) st w)
      (\<lambda>sw. let (st, w) = in_frame (copy_data data) sw in close_data rb gen_time st w)) \<and>
    appends st w fs (f (take len data)) (write_raw rb now gen_time trigger_time tag data len st w) \<and>
    appends st w fs (f (take len data)) (write_bytes rb now gen_time trigger_time tag data len st w) \<and>
    write_bytes rb now gen_time trigger_time tag data (Suc (length data)) st w = None \<and>
    appends st w fs (f []) (wr_mark rb now gen_time trigger_time tag st w) \<and>
    appends st w fs (readdressed source dest (f data)) (wr_write_as rb now gen_time trigger_time tag data source dest st w)"
proof -
  have part: "fits st (wr_journal w) n" if "n \<le> length data" for n using assms(3) that by (simp add: fits_def)
  have wr: "appends st w fs (written (wr_journal w) gen_time trigger_time tag d) (wr_write rb now gen_time trigger_time tag d st w)" if "length d \<le> length data" for d
    using that by (intro write_appends [OF assms(1,2) _ assms(4)] part)
  have "wr_mark rb now gen_time trigger_time tag st w = wr_write rb now gen_time trigger_time tag [] st w"
    using wr_mark_free [OF assms(2,5) part [of 0]] by simp
  then show ?thesis
    unfolding Let_def [of "written (wr_journal w) gen_time trigger_time tag"] open_fill_close
    using wr [of data] wr [of "take len data"] wr [of "[]"] assms(6) write_as_appends [OF assms(1-4)]
    by (simp add: wr_write_at_def write_raw_def write_bytes_def)
qed

lemma writer_variants_witness:
  "appends sample_store sample_writer [] (written sample_journal 5 4 2 [1]) (write_bytes 0 9 5 4 2 [1, 2, 3] 1 sample_store sample_writer)"
proof -
  have z: "current_frame sample_store (wr_journal sample_writer) = Frame_zero"
    by (simp add: current_frame_def current_page_def sample_store_def sample_writer_def sample_journal_def page_at_def
        init_page_def Page_zero_def)
  have f: "fits sample_store (wr_journal sample_writer) (length [1, 2, 3 :: u8])" using sample_fits(1) by (simp add: sample_msg_def)
  from writer_variants [OF _ _ f _ z, where fs = "[]" and tag = 2 and len = 1 and gen_time = 5 and trigger_time = 4 and rb = 0 and now = 9]
  show ?thesis using sample_writer_at by (simp add: sample_writer_def Let_def)
qed

end
