(* ===== verification/Comm.thy ===== *)
theory Comm
  imports Reader Writers Config
begin

text \<open>
  The communication of a user's process with the engines (src/core/corecomm.h, corecomm.cpp,
  journal_comm_data.cpp), and the agent of the viewer that runs it in a thread
  (src/tradeview/control/coreagent.cpp): a reader of what the engines answer and a writer for each journal
  of requests.

  The configuration is the JSON value its file holds, if there is one; the encoding of a message is an
  argument. A wait on the event descriptors is one reading of \<open>jour_observer_.wait() > 0\<close>. A writer that is not in the
  map is a null pointer behind \<open>operator[]\<close>, \<open>None\<close> as everything that throws.
\<close>

section \<open>The object\<close>

record 's CoreComm =
  co_inited :: bool
  co_status :: int
  co_reader :: Reader
  co_writers :: "(u32, Writer) umap"
  co_md_account_count :: u32
  co_interrupts :: nat
  co_handlers :: "(nat, 's handler) umap"

definition CoreComm_new :: "'s CoreComm" where
  "CoreComm_new = \<lparr> co_inited = False, co_status = 0, co_reader = Reader_new, co_writers = [], co_md_account_count = 0,
     co_interrupts = 0, co_handlers = [] \<rparr>"

text \<open>A writer is opened at the present time, on the pages of its journal.\<close>

definition writer_new :: "nat \<Rightarrow> int \<Rightarrow> Module \<Rightarrow> u32 \<Rightarrow> u32 \<Rightarrow> world \<Rightarrow> (world \<times> Writer) option" where
  "writer_new rb now category uid dest w =
     map_option (\<lambda>(st, j). (w(journal_key uid dest := st),
         \<lparr> wr_journal = j, wr_size_to_write = 0, wr_locked = False, wr_posts = 0 \<rparr>))
       (seek_to_time rb now (w (journal_key uid dest)) (journal_new uid dest (find_page_size category) True))"

fun join_all :: "nat \<Rightarrow> int \<Rightarrow> Module \<Rightarrow> u32 \<Rightarrow> u32 list \<Rightarrow> world \<Rightarrow> Reader \<Rightarrow> (world \<times> Reader) option" where
  "join_all rb now category uid [] w r = Some (w, r)"
| "join_all rb now category uid (dest # dests) w r =
     Option.bind (reader_join rb now category uid dest now w r) (\<lambda>(w, r). join_all rb now category uid dests w r)"

fun writers_for :: "nat \<Rightarrow> int \<Rightarrow> Module \<Rightarrow> u32 \<Rightarrow> u32 list \<Rightarrow> world \<Rightarrow> (u32, Writer) umap \<Rightarrow> (world \<times> (u32, Writer) umap) option" where
  "writers_for rb now category uid [] w ws = Some (w, ws)"
| "writers_for rb now category uid (dest # dests) w ws =
     Option.bind (writer_new rb now category uid dest w) (\<lambda>(w, x). writers_for rb now category uid dests w (umap_set dest x ws))"

text \<open>\<open>JourCommData::init\<close>, of a configuration that has been read.\<close>

definition comm_data_init :: "nat \<Rightarrow> int \<Rightarrow> MainCfg \<Rightarrow> world \<Rightarrow> 's CoreComm \<Rightarrow> (world \<times> 's CoreComm) option" where
  "comm_data_init rb now cfg w c =
     Option.bind (join_all rb now Module_MD (md_location_uid cfg) (mc_md_dests cfg) w Reader_new) (\<lambda>(w, r).
     Option.bind (reader_join rb now Module_STRATEGY (strategy_location_uid cfg) (jid_flag TD_RESPONSE) now w r) (\<lambda>(w, r).
     Option.bind (writers_for rb now Module_TD (td_location_uid cfg) (mc_td_dests cfg) w (co_writers c)) (\<lambda>(w, ws).
     Option.bind (writer_new rb now Module_STRATEGY (strategy_location_uid cfg) (jid_flag MD_REQ) w) (\<lambda>(w, x).
       Some (w, c\<lparr> co_reader := r, co_writers := umap_set (jid_flag MD_REQ) x ws,
                   co_md_account_count := of_nat (length (mc_md_dests cfg)) \<rparr>)))))"

definition comm_init ::
    "(string \<Rightarrow> string) \<Rightarrow> GlobalParams \<Rightarrow> nat \<Rightarrow> int \<Rightarrow> json option \<Rightarrow> world \<Rightarrow> 's CoreComm \<Rightarrow> (world \<times> 's CoreComm) option" where
  "comm_init absolute gp rb now file w c =
     (case file of
        None \<Rightarrow> Some (w, c)
      | Some j \<Rightarrow>
          (case MainCfg_of absolute j gp of
             Value (cfg, _) \<Rightarrow> map_option (\<lambda>(w, c). (w, c\<lparr> co_inited := True \<rparr>)) (comm_data_init rb now cfg w c)
           | _ \<Rightarrow> None))"

text \<open>
  One message to the writer of a destination: \<open>now\<close> is the time it is triggered, \<open>gen\<close> the reading of the
  clock when the frame of a destination is closed.
\<close>

definition write_to ::
    "nat \<Rightarrow> int \<Rightarrow> (u32 \<Rightarrow> int) \<Rightarrow> nat \<Rightarrow> u8 list \<Rightarrow> u32 \<Rightarrow> world \<Rightarrow> 's CoreComm \<Rightarrow> (world \<times> 's CoreComm) option" where
  "write_to rb now gen tag data dest w c =
     (case umap_find (co_writers c) dest of
        None \<Rightarrow> None
      | Some x \<Rightarrow>
          let k = journal_key (jn_uid (wr_journal x)) (jn_dest (wr_journal x))
          in map_option (\<lambda>(st, x). (w(k := st), c\<lparr> co_writers := umap_set dest x (co_writers c) \<rparr>))
               (wr_write rb (gen dest) (gen dest) now tag data (w k) x))"

fun write_each :: "nat \<Rightarrow> int \<Rightarrow> (u32 \<Rightarrow> int) \<Rightarrow> nat \<Rightarrow> u8 list \<Rightarrow> u32 list \<Rightarrow> world \<Rightarrow> 's CoreComm \<Rightarrow> (world \<times> 's CoreComm) option" where
  "write_each rb now gen tag data [] w c = Some (w, c)"
| "write_each rb now gen tag data (dest # dests) w c =
     Option.bind (write_to rb now gen tag data dest w c) (\<lambda>(w, c). write_each rb now gen tag data dests w c)"

text \<open>\<open>start\<close>: the market data engine is told first, then the others.\<close>

definition comm_start :: "(Event \<Rightarrow> u8 list) \<Rightarrow> nat \<Rightarrow> int \<Rightarrow> (u32 \<Rightarrow> int) \<Rightarrow> world \<Rightarrow> 's CoreComm \<Rightarrow> (world \<times> 's CoreComm) option" where
  "comm_start encode rb now gen w c =
     (if \<not> co_inited c then Some (w, c)
      else
        let req_md_dest = jid_flag MD_REQ;
            tag = tag_num Tag_TradingStart;
            data = encode (Ev_TradingStart now)
        in Option.bind (write_to rb now gen tag data req_md_dest w c) (\<lambda>(w, c).
             write_each rb now gen tag data (filter (\<lambda>key. key \<noteq> req_md_dest) (umap_keys (co_writers c))) w c))"

definition comm_write :: "nat \<Rightarrow> int \<Rightarrow> (u32 \<Rightarrow> int) \<Rightarrow> nat \<Rightarrow> u8 list \<Rightarrow> u32 \<Rightarrow> world \<Rightarrow> 's CoreComm \<Rightarrow> (world \<times> 's CoreComm) option" where
  "comm_write rb now gen tag data dest w c =
     (if \<not> umap_contains (co_writers c) dest then Some (w, c) else write_to rb now gen tag data dest w c)"

definition register_handler :: "nat \<Rightarrow> 's handler \<Rightarrow> 's CoreComm \<Rightarrow> 's CoreComm" where
  "register_handler tag h c = c\<lparr> co_handlers := umap_set tag h (co_handlers c) \<rparr>"

definition comm_terminate :: "'s CoreComm \<Rightarrow> 's CoreComm" where
  "comm_terminate c = c\<lparr> co_status := -1, co_interrupts := Suc (co_interrupts c) \<rparr>"

text \<open>
  The inner loop of \<open>listening\<close>, with the handler of the tag if there is one, and \<open>read_msg\<close>, with one
  handler for everything: the same loop, with another way to hand over a frame.
\<close>

definition dispatch :: "(nat, 's handler) umap \<Rightarrow> 's handler" where
  "dispatch handlers f w live s =
     (case umap_find handlers (fr_msg_type f) of None \<Rightarrow> (w, live, s) | Some h \<Rightarrow> h f w live s)"

fun read_loop ::
    "nat \<Rightarrow> 's handler \<Rightarrow> int list \<Rightarrow> bool \<Rightarrow> Reader \<Rightarrow> world \<Rightarrow> 's \<Rightarrow> (bool \<times> Reader \<times> world \<times> 's) option" where
  "read_loop rb h (now1 # now2 # clock) live r w s =
     (let (avail, r) = data_available now1 w r
      in case (avail, reader_frame w r) of
           (True, Some f) \<Rightarrow>
             if \<not> live then Some (live, r, w, s)
             else
               let (w, live, s) = h f w live s
               in (case reader_next rb now2 w r of
                     None \<Rightarrow> None
                   | Some (w, r) \<Rightarrow> read_loop rb h clock live r w s)
         | _ \<Rightarrow> Some (live, r, w, s))"
| "read_loop rb h _ live r w s = None"

definition comm_read_msg ::
    "nat \<Rightarrow> 's handler \<Rightarrow> int list \<Rightarrow> world \<times> 's \<times> 's CoreComm \<Rightarrow> (world \<times> 's \<times> 's CoreComm) option" where
  "comm_read_msg rb h clock = (\<lambda>(w, s, c).
     map_option (\<lambda>(live, r, w, s). (w, s, c\<lparr> co_reader := r, co_status := (if live then co_status c else -1) \<rparr>))
       (read_loop rb h clock (0 \<le> co_status c) (co_reader c) w s))"

text \<open>
  \<open>listening\<close>: a turn of the outer loop for every wait, with the clock readings of its inner loop;
  it ends with the status, with a wait that gave nothing, or with the list of waits.
\<close>

fun listening_loop ::
    "nat \<Rightarrow> (bool \<times> int \<times> int list) list \<Rightarrow> world \<times> 's \<times> 's CoreComm \<Rightarrow> (world \<times> 's \<times> 's CoreComm) option" where
  "listening_loop rb [] x = Some x"
| "listening_loop rb ((woken, now, clock) # waits) (w, s, c) =
     (if \<not> woken then Some (w, s, c)
      else
        case comm_read_msg rb (dispatch (co_handlers c)) clock (w, s, c\<lparr> co_reader := reader_sort now w (co_reader c) \<rparr>) of
          None \<Rightarrow> None
        | Some (w, s, c) \<Rightarrow> if co_status c < 0 then Some (w, s, c) else listening_loop rb waits (w, s, c))"

definition comm_listening ::
    "nat \<Rightarrow> (bool \<times> int \<times> int list) list \<Rightarrow> world \<times> 's \<times> 's CoreComm \<Rightarrow> (world \<times> 's \<times> 's CoreComm) option" where
  "comm_listening rb waits = (\<lambda>(w, s, c). if \<not> co_inited c then Some (w, s, c) else listening_loop rb waits (w, s, c))"

text \<open>
  The agent of the viewer. Its thread waits and gives notice for as long as the status allows; the list
  says before which of its turns another thread stops the agent.
\<close>

record 's CoreAgent =
  ca_comm :: "'s CoreComm"
  ca_thread :: bool

definition StartListening ::
    "(Event \<Rightarrow> u8 list) \<Rightarrow> nat \<Rightarrow> int \<Rightarrow> (u32 \<Rightarrow> int) \<Rightarrow> world \<Rightarrow> 's CoreAgent \<Rightarrow> (world \<times> 's CoreAgent) option" where
  "StartListening encode rb now gen w a =
     map_option (\<lambda>(w, c). (w, a\<lparr> ca_comm := c, ca_thread := True \<rparr>)) (comm_start encode rb now gen w (ca_comm a))"

definition StopListening :: "'s CoreAgent \<Rightarrow> 's CoreAgent" where
  "StopListening a = (if ca_thread a then a\<lparr> ca_comm := comm_terminate (ca_comm a) \<rparr> else a)"

fun notices :: "bool list \<Rightarrow> 's CoreAgent \<Rightarrow> nat" where
  "notices [] a = 0"
| "notices (stop # stops) a =
     (let a = (if stop then StopListening a else a)
      in if co_status (ca_comm a) < 0 then 0 else Suc (notices stops a))"

section \<open>Listening\<close>

text \<open>Where the loop of an engine ends because nothing is left, this one has done the same.\<close>

lemma read_loop_drain:
  assumes "engine_drain rb (read_handler g) clock e w s = Some d" "dr_result d" "eng_live e"
  shows "\<exists>r. read_loop rb (read_handler g) clock True (eng_reader e) w s = Some (True, r, dr_world d, dr_state d)"
  using assms
proof (induction clock arbitrary: e w s d rule: induct_list012)
  case (3 now1 now2 clock e w s d)
  note run = 3(3) and ended = 3(4) and live = 3(5)
  obtain avail r where dv: "data_available now1 w (eng_reader e) = (avail, r)" by fastforce
  show ?case
  proof (cases avail)
    case False
    then show ?thesis using run live by (auto simp: dv)
  next
    case True
    then obtain f where f: "reader_frame w r = Some f" using dv by (auto simp: data_available_def Let_def split: option.splits)
    then obtain k where k: "rd_current r = Some k" by (auto simp: reader_frame_def split: bind_splits)
    have et: "fr_gen_time f \<le> eng_end_time e" using run ended live True f k by (auto simp: dv Let_def split: if_splits)
    define e' where "e' = e\<lparr> eng_reader := r, eng_now_event_time := max (eng_now_event_time e) (fr_gen_time f) \<rparr>"
    obtain w' r' where n: "reader_next rb now2 w r = Some (w', r')"
      using run live True f k et by (auto simp: dv Let_def read_handler_def split: option.splits)
    obtain d' where d': "engine_drain rb (read_handler g) clock (e'\<lparr> eng_reader := r' \<rparr>) w' (g f s) = Some d'"
      "dr_result d' = dr_result d" "dr_world d' = dr_world d" "dr_state d' = dr_state d"
      using run live True f k et n by (auto simp: dv Let_def read_handler_def e'_def)
    have "\<exists>r''. read_loop rb (read_handler g) clock True r' w' (g f s) = Some (True, r'', dr_world d', dr_state d')"
      using "3.IH"(1) [OF d'(1)] d'(2) ended live by (simp add: e'_def)
    then show ?thesis using True f n d' by (auto simp: dv read_handler_def)
  qed
qed simp_all


text \<open>Handlers that only read: a function for each tag that has one.\<close>

definition handled :: "(nat, Frame \<Rightarrow> 's \<Rightarrow> 's) umap \<Rightarrow> Frame \<Rightarrow> 's \<Rightarrow> 's" where
  "handled gs f s = (case umap_find gs (fr_msg_type f) of None \<Rightarrow> s | Some g \<Rightarrow> g f s)"

lemma dispatch_handled:
  "dispatch (List.map (\<lambda>(t, g). (t, read_handler g)) gs) = read_handler (handled gs)"
proof (intro ext)
  fix f w live s
  have "umap_find (List.map (\<lambda>(t, g). (t, read_handler g)) gs) k = map_option read_handler (umap_find gs k)" for k
    by (induction gs) (auto simp: umap_find_def)
  then show "dispatch (List.map (\<lambda>(t, g). (t, read_handler g)) gs) f w live s = read_handler (handled gs) f w live s"
    by (simp add: dispatch_def handled_def read_handler_def split: option.splits)
qed

lemma sorted_reader: "joined (reader_sort now w r) = joined r" "rd_journals (reader_sort now w r) = rd_journals r"
  by (simp_all add: reader_sort_def joined_def)

lemma read_loop_merges:
  assumes "umap_wf (rd_journals r)" "pending w r q" "timely latest clock r q" "2 * backlog r q + 2 \<le> length clock"
  shows "\<exists>r' es. read_loop rb (read_handler g) clock True r w s = Some (True, r', w, fold g (List.map snd es) s) \<and> merge_of r q es"
proof -
  define e where "e = \<lparr> eng_live = True, eng_end_time = latest, eng_now_event_time = 0, eng_reader = r \<rparr>"
  have e: "eng_reader e = r" "eng_live e" "eng_end_time e = latest" by (simp_all add: e_def)
  obtain d where d: "engine_drain rb (read_handler g) clock e w s = Some d" "dr_result d" "dr_world d = w"
    "merge_of r q (dr_trace d)" "dr_state d = fold g (List.map snd (dr_trace d)) s"
    using engine_drain_merge [of e w q clock rb g s] assms e by auto
  then show ?thesis using read_loop_drain [OF d(1,2) e(2)] e(1) by auto
qed

section \<open>Writing\<close>

text \<open>
  The writers of a communication, each idle behind the frames \<open>F\<close> of its destination. The keys of the
  journals of two destinations differ.
\<close>

definition key_of :: "Writer \<Rightarrow> u64" where
  "key_of x = journal_key (jn_uid (wr_journal x)) (jn_dest (wr_journal x))"

definition stands :: "world \<Rightarrow> 's CoreComm \<Rightarrow> (u32 \<Rightarrow> Frame list) \<Rightarrow> bool" where
  "stands w c F \<longleftrightarrow> umap_wf (co_writers c) \<and>
     (\<forall>d x. umap_find (co_writers c) d = Some x \<longrightarrow>
        jn_dest (wr_journal x) = d \<and> \<not> wr_locked x \<and> writer_at (w (key_of x)) (wr_journal x) (F d))"

definition has_room :: "world \<Rightarrow> 's CoreComm \<Rightarrow> nat \<Rightarrow> u32 \<Rightarrow> bool" where
  "has_room w c len d \<longleftrightarrow> (\<exists>x. umap_find (co_writers c) d = Some x \<and> fits (w (key_of x)) (wr_journal x) len)"

lemma journal_key_dest: "journal_key u d = journal_key u' d' \<Longrightarrow> d = d'"
proof -
  have "ucast (journal_key a b) = b" for a b :: u32
    unfolding journal_key_def by (rule bit_word_eqI) (auto simp: bit_simps)
  then show "journal_key u d = journal_key u' d' \<Longrightarrow> d = d'" by metis
qed

text \<open>Writing moves a writer along its page, in its journal.\<close>

definition same_place :: "'s CoreComm \<Rightarrow> 's CoreComm \<Rightarrow> bool" where
  "same_place c c' \<longleftrightarrow>
     (\<forall>d x. umap_find (co_writers c) d = Some x \<longrightarrow>
        (\<exists>x'. umap_find (co_writers c') d = Some x' \<and> key_of x' = key_of x \<and> jn_page (wr_journal x') = jn_page (wr_journal x)))"

lemma same_place_refl: "same_place c c"
  by (simp add: same_place_def)

lemma same_place_trans: "same_place c c' \<Longrightarrow> same_place c' c'' \<Longrightarrow> same_place c c''"
  unfolding same_place_def by metis

text \<open>Journals the process has no writer for stay as they are.\<close>

definition no_writer :: "'s CoreComm \<Rightarrow> u64 \<Rightarrow> bool" where
  "no_writer c k \<longleftrightarrow> (\<forall>d x. umap_find (co_writers c) d = Some x \<longrightarrow> key_of x \<noteq> k)"

lemma no_writer_same:
  assumes "same_place c c'" "umap_keys (co_writers c') = umap_keys (co_writers c)" "no_writer c k"
  shows "no_writer c' k"
  unfolding no_writer_def
proof (intro allI impI)
  fix d x' assume x': "umap_find (co_writers c') d = Some x'"
  then have "d \<in> set (umap_keys (co_writers c'))" by (simp add: umap_keys_dom umap_contains_def)
  then obtain x where "umap_find (co_writers c) d = Some x" unfolding assms(2) by (auto simp: umap_keys_dom umap_contains_def)
  with assms(1,3) x' show "key_of x' \<noteq> k" unfolding same_place_def no_writer_def by fastforce
qed

lemma write_to_other:
  "\<lbrakk> write_to rb now gen tag data d w c = Some (w', c'); no_writer c k \<rbrakk> \<Longrightarrow> w' k = w k"
  by (auto simp: write_to_def no_writer_def key_of_def Let_def split: option.splits) blast

lemma write_to_stands:
  assumes "stands w c F" "umap_find (co_writers c) d = Some x" "fits (w (key_of x)) (wr_journal x) (length data)" "0 < tag"
  shows "\<exists>w' c'. write_to rb now gen tag data d w c = Some (w', c') \<and>
    stands w' c' (F(d := F d @ [written (wr_journal x) (gen d) now tag data])) \<and>
    umap_keys (co_writers c') = umap_keys (co_writers c) \<and> co_status c' = co_status c \<and>
    (\<forall>d'. d' \<noteq> d \<longrightarrow> umap_find (co_writers c') d' = umap_find (co_writers c) d') \<and>
    (\<forall>d'. d' \<noteq> d \<longrightarrow> has_room w c len d' \<longrightarrow> has_room w' c' len d') \<and> same_place c c'"
proof -
  have x: "jn_dest (wr_journal x) = d" "\<not> wr_locked x" "writer_at (w (key_of x)) (wr_journal x) (F d)"
    and wf: "umap_wf (co_writers c)"
    using assms(1,2) by (auto simp: stands_def)
  have v: "page_valid (jn_size (wr_journal x)) (current_page (w (key_of x)) (wr_journal x))" using x(3) by (simp add: writer_at_def)
  obtain st j where wr: "writer_write rb (gen d) (gen d) now tag data (w (key_of x)) (wr_journal x) = Some (st, j)"
    using write_fits [OF assms(3,4) v] by blast
  note e = writer_at_write [OF x(3) assms(3,4) wr]
  define y where "y = x\<lparr> wr_journal := j, wr_size_to_write := 0, wr_posts := Suc (wr_posts x) \<rparr>"
  have k: "key_of y = key_of x" using e by (simp add: key_of_def y_def)
  define w' where "w' = w(key_of x := st)"
  define c' where "c' = c\<lparr> co_writers := umap_set d y (co_writers c) \<rparr>"
  have r: "write_to rb now gen tag data d w c = Some (w', c')"
    using assms(2) x(2) wr by (simp add: write_to_def Let_def key_of_def wr_write_free w'_def c'_def y_def)
  have other: "w' (key_of z) = w (key_of z)" if "umap_find (co_writers c) d' = Some z" "d' \<noteq> d" for d' z
  proof -
    have "jn_dest (wr_journal z) = d'" using assms(1) that(1) by (simp add: stands_def)
    then show ?thesis using that(2) x(1) journal_key_dest by (auto simp: w'_def key_of_def)
  qed
  have "stands w' c' (F(d := F d @ [written (wr_journal x) (gen d) now tag data]))"
    unfolding stands_def
  proof (intro conjI allI impI)
    show "umap_wf (co_writers c')" using wf by (simp add: c'_def umap_wf_set)
  next
    fix d' z assume z: "umap_find (co_writers c') d' = Some z"
    have "jn_dest (wr_journal z) = d' \<and> \<not> wr_locked z \<and>
      writer_at (w' (key_of z)) (wr_journal z) ((F(d := F d @ [written (wr_journal x) (gen d) now tag data])) d')"
    proof (cases "d' = d")
      case True
      then have "z = y" using z wf by (simp add: c'_def umap_find_set)
      then show ?thesis using True e x k by (simp add: y_def w'_def)
    next
      case False
      then have "umap_find (co_writers c) d' = Some z" using z wf by (simp add: c'_def umap_find_set)
      then show ?thesis using False other [of d' z] assms(1) by (simp add: stands_def)
    qed
    then show "jn_dest (wr_journal z) = d'" "\<not> wr_locked z"
      "writer_at (w' (key_of z)) (wr_journal z) ((F(d := F d @ [written (wr_journal x) (gen d) now tag data])) d')"
      by blast+
  qed
  moreover have "has_room w' c' len d'" if "d' \<noteq> d" "has_room w c len d'" for d'
    using that other by (auto simp: has_room_def c'_def umap_find_set wf)
  moreover have "umap_keys (co_writers c') = umap_keys (co_writers c)"
    using assms(2) by (simp add: c'_def umap_keys_set)
  moreover have "same_place c c'"
    using assms(2) e(2) k by (auto simp: same_place_def c'_def y_def umap_find_set wf)
  ultimately show ?thesis using r by (auto simp: c'_def umap_find_set wf)
qed

text \<open>What a destination gets when it is told something, and telling several of them, each with room.\<close>

definition told :: "int \<Rightarrow> (u32 \<Rightarrow> int) \<Rightarrow> nat \<Rightarrow> u8 list \<Rightarrow> 's CoreComm \<Rightarrow> u32 \<Rightarrow> Frame list" where
  "told now gen tag data c d =
     (case umap_find (co_writers c) d of None \<Rightarrow> [] | Some x \<Rightarrow> [written (wr_journal x) (gen d) now tag data])"

lemma write_each_stands:
  assumes "stands w c F" "distinct ds" "\<forall>d \<in> set ds. has_room w c (length data) d" "0 < tag"
  shows "\<exists>w' c'. write_each rb now gen tag data ds w c = Some (w', c') \<and>
    stands w' c' (\<lambda>d. F d @ (if d \<in> set ds then told now gen tag data c d else [])) \<and>
    umap_keys (co_writers c') = umap_keys (co_writers c) \<and> co_status c' = co_status c \<and> same_place c c' \<and>
    (\<forall>k. no_writer c k \<longrightarrow> w' k = w k)"
  using assms
proof (induction ds arbitrary: w c F)
  case (Cons d ds)
  obtain x where x: "umap_find (co_writers c) d = Some x" "fits (w (key_of x)) (wr_journal x) (length data)"
    using Cons.prems(3) by (auto simp: has_room_def)
  obtain w1 c1 where s: "write_to rb now gen tag data d w c = Some (w1, c1)"
    "stands w1 c1 (F(d := F d @ [written (wr_journal x) (gen d) now tag data]))"
    "umap_keys (co_writers c1) = umap_keys (co_writers c)" "co_status c1 = co_status c"
    "\<forall>d'. d' \<noteq> d \<longrightarrow> umap_find (co_writers c1) d' = umap_find (co_writers c) d'"
    "\<forall>d'. d' \<noteq> d \<longrightarrow> has_room w c (length data) d' \<longrightarrow> has_room w1 c1 (length data) d'" "same_place c c1"
    using write_to_stands [OF Cons.prems(1) x Cons.prems(4)] by blast
  have nd: "d \<notin> set ds" "distinct ds" using Cons.prems(2) by simp_all
  have room: "\<forall>d \<in> set ds. has_room w1 c1 (length data) d"
    using Cons.prems(3) s(6) nd(1) by (metis list.set_intros(2))
  obtain w2 c2 where r: "write_each rb now gen tag data ds w1 c1 = Some (w2, c2)"
    "stands w2 c2 (\<lambda>e. (F(d := F d @ [written (wr_journal x) (gen d) now tag data])) e @
       (if e \<in> set ds then told now gen tag data c1 e else []))"
    "umap_keys (co_writers c2) = umap_keys (co_writers c1)" "co_status c2 = co_status c1" "same_place c1 c2"
    "\<forall>k. no_writer c1 k \<longrightarrow> w2 k = w1 k"
    using Cons.IH [OF s(2) nd(2) room Cons.prems(4)] by blast
  have "(\<lambda>e. (F(d := F d @ [written (wr_journal x) (gen d) now tag data])) e @
       (if e \<in> set ds then told now gen tag data c1 e else [])) =
     (\<lambda>e. F e @ (if e \<in> set (d # ds) then told now gen tag data c e else []))"
    using nd(1) s(5) x(1) by (auto simp: fun_eq_iff told_def)
  moreover have "\<forall>k. no_writer c k \<longrightarrow> w2 k = w k"
    using r(6) no_writer_same [OF s(7,3)] write_to_other [OF s(1)] by simp
  ultimately show ?case using r s same_place_trans [OF s(7) r(5)] by auto
qed (simp add: same_place_refl)

lemma stands_cong:
  assumes "stands w c F" "\<forall>d \<in> set (umap_keys (co_writers c)). F d = F' d"
  shows "stands w c F'"
  using assms by (auto simp: stands_def umap_keys_dom umap_contains_def)

text \<open>A start reaches every engine. The user's process writes one frame of trading start to the
  journal of every destination it has a writer for, triggered now, behind what the journal holds; the
  market data engine is told once like the others, and all writers stay open for requests.\<close>

theorem start_tells_all:
  assumes "co_inited c" "stands w c F" "umap_contains (co_writers c) (jid_flag MD_REQ)"
    "\<forall>d \<in> set (umap_keys (co_writers c)). has_room w c (length (encode (Ev_TradingStart now))) d"
  shows "\<exists>w' c'. comm_start encode rb now gen w c = Some (w', c') \<and>
    stands w' c' (\<lambda>d. F d @ told now gen (tag_num Tag_TradingStart) (encode (Ev_TradingStart now)) c d) \<and>
    umap_keys (co_writers c') = umap_keys (co_writers c) \<and> co_status c' = co_status c \<and> same_place c c' \<and>
    (\<forall>k. no_writer c k \<longrightarrow> w' k = w k)"
proof -
  let ?m = "jid_flag MD_REQ" and ?t = "tag_num Tag_TradingStart" and ?b = "encode (Ev_TradingStart now)"
  let ?ds = "?m # filter (\<lambda>key. key \<noteq> ?m) (umap_keys (co_writers c))"
  have m: "?m \<in> set (umap_keys (co_writers c))" using assms(3) by (simp add: umap_keys_dom)
  have "umap_wf (co_writers c)" using assms(2) by (simp add: stands_def)
  then have d: "distinct ?ds" by (simp add: umap_wf_def umap_keys_def)
  have t: "0 < ?t" by (rule gr0I) simp
  have ds: "set ?ds = set (umap_keys (co_writers c))" using m by auto
  obtain w' c' where e: "write_each rb now gen ?t ?b ?ds w c = Some (w', c')"
    "stands w' c' (\<lambda>d. F d @ (if d \<in> set ?ds then told now gen ?t ?b c d else []))"
    "umap_keys (co_writers c') = umap_keys (co_writers c)" "co_status c' = co_status c" "same_place c c'"
    "\<forall>k. no_writer c k \<longrightarrow> w' k = w k"
    using write_each_stands [OF assms(2) d _ t, of ?b rb now gen] assms(4) unfolding ds by blast
  have k: "umap_keys (co_writers c1) = umap_keys (co_writers c)" if "write_to rb now gen ?t ?b ?m w c = Some (w1, c1)" for w1 c1
  proof -
    obtain x where x: "umap_find (co_writers c) ?m = Some x" "fits (w (key_of x)) (wr_journal x) (length ?b)"
      using assms(4) m by (auto simp: has_room_def)
    then show ?thesis using write_to_stands [OF assms(2) x t, of rb now gen] unfolding that by auto
  qed
  have "comm_start encode rb now gen w c = write_each rb now gen ?t ?b ?ds w c"
    using assms(1) k by (cases "write_to rb now gen ?t ?b ?m w c") (auto simp: comm_start_def Let_def)
  moreover have "stands w' c' (\<lambda>d. F d @ told now gen ?t ?b c d)"
    by (rule stands_cong [OF e(2)]) (use ds e(3) in simp)
  ultimately show ?thesis using e by auto
qed


definition sample_req_writer :: Writer where
  "sample_req_writer = sample_writer\<lparr> wr_journal := sample_journal\<lparr> jn_dest := jid_flag MD_REQ \<rparr> \<rparr>"

definition sample_comm :: "Frame list CoreComm" where
  "sample_comm = CoreComm_new\<lparr> co_inited := True, co_writers := [(jid_flag MD_REQ, sample_req_writer)],
     co_reader := eng_reader sample_engine,
     co_handlers := [(2, read_handler (\<lambda>f s. s @ [f]))] \<rparr>"

lemma sample_comm_stands:
  "stands (\<lambda>k. sample_store) sample_comm (\<lambda>d. [])"
  "\<forall>d \<in> set (umap_keys (co_writers sample_comm)). has_room (\<lambda>k. sample_store) sample_comm (Suc 0) d"
proof -
  have x: "\<not> wr_locked sample_req_writer" "jn_dest (wr_journal sample_req_writer) = jid_flag MD_REQ"
    "writer_at sample_store (wr_journal sample_req_writer) []" "fits sample_store (wr_journal sample_req_writer) (Suc 0)"
    using sample_writer_at sample_fits(1)
    by (simp_all add: sample_req_writer_def sample_writer_def writer_at_def fits_def current_page_def current_frame_def
        sample_msg_def) (simp add: sample_journal_def)
  show "stands (\<lambda>k. sample_store) sample_comm (\<lambda>d. [])"
    using x by (auto simp: stands_def sample_comm_def umap_wf_def umap_find_def split: if_splits)
  show "\<forall>d \<in> set (umap_keys (co_writers sample_comm)). has_room (\<lambda>k. sample_store) sample_comm (Suc 0) d"
    using x by (simp add: sample_comm_def umap_keys_def has_room_def umap_find_def)
qed

section \<open>The start of an engine\<close>

text \<open>A reader at the place of a writer finds what the writer writes next, and nothing behind it.\<close>

lemma reader_behind_writer:
  assumes "writer_at st j fs" "writer_at st' j' (fs @ gs)" "jn_page j' = jn_page j" "jn_page r = jn_page j" "jn_pos r = jn_pos j"
    "frames (pg_mem (current_page st' j)) PAGE_HEADER fs (jn_pos j)"
  shows "\<exists>b. frames (pg_mem (current_page st' r)) (jn_pos r) gs b \<and> \<not> has_data (pg_mem (current_page st' r) b)"
proof -
  have c: "current_page st' j' = current_page st' j" "current_page st' r = current_page st' j"
    using assms(3,4) by (simp_all add: current_page_def)
  have "frames (pg_mem (current_page st' j)) PAGE_HEADER (fs @ gs) (jn_pos j')" "fr_length (current_frame st' j') = 0"
    using assms(2) c by (simp_all add: writer_at_def)
  then show ?thesis using frames_tail [OF _ assms(6)] assms(5) c by (auto simp: has_data_def current_frame_def)
qed

lemma frames_same_end: "frames m a fs b \<Longrightarrow> frames m' a (fs @ gs) c \<Longrightarrow> frames m' a fs b"
  unfolding frames_append using frames_end by blast

text \<open>
  The journals of an engine that waits for the start: each is that of a destination of the process, read
  up to where the writer stands, or one the process does not write, with nothing in it to read. (The
  trading engine reads the journals of the accounts, and one that only the strategies' engine writes.)
\<close>

definition waits_for :: "'s CoreComm \<Rightarrow> world \<Rightarrow> u64 \<Rightarrow> Journal \<Rightarrow> bool" where
  "waits_for c w k r \<longleftrightarrow>
     (\<exists>d x. umap_find (co_writers c) d = Some x \<and> key_of x = k \<and> jn_page r = jn_page (wr_journal x) \<and> jn_pos r = jn_pos (wr_journal x)) \<or>
     no_writer c k \<and> \<not> has_data (current_frame (w k) r)"

text \<open>The frames the start puts into a journal, known by its key.\<close>

definition start_frames :: "(Event \<Rightarrow> u8 list) \<Rightarrow> int \<Rightarrow> (u32 \<Rightarrow> int) \<Rightarrow> 's CoreComm \<Rightarrow> u64 \<Rightarrow> Frame list" where
  "start_frames encode now gen c k =
     (if no_writer c k then [] else told now gen (tag_num Tag_TradingStart) (encode (Ev_TradingStart now)) c (ucast k))"

lemma start_frames_of:
  assumes "stands w c F" "umap_find (co_writers c) d = Some x"
  shows "start_frames encode now gen c (key_of x) =
    [written (wr_journal x) (gen d) now (tag_num Tag_TradingStart) (encode (Ev_TradingStart now))]"
proof -
  have "ucast (journal_key a b) = b" for a b :: u32
    unfolding journal_key_def by (rule bit_word_eqI) (auto simp: bit_simps)
  then have "ucast (key_of x) = d" using assms by (auto simp: key_of_def stands_def)
  moreover have "\<not> no_writer c (key_of x)" using assms(2) by (auto simp: no_writer_def)
  ultimately show ?thesis using assms(2) by (simp add: start_frames_def told_def)
qed

lemma start_pending:
  assumes "stands w c F" "stands w' c' (\<lambda>d. F d @ told now gen (tag_num Tag_TradingStart) (encode (Ev_TradingStart now)) c d)"
    "same_place c c'" "\<forall>k. no_writer c k \<longrightarrow> w' k = w k" "waits_for c w k r"
  shows "\<exists>b. frames (pg_mem (current_page (w' k) r)) (jn_pos r) (start_frames encode now gen c k) b \<and>
    \<not> has_data (pg_mem (current_page (w' k) r) b)"
  using assms(5) unfolding waits_for_def
proof (elim disjE exE conjE)
  fix d and x :: Writer
  let ?f = "written (wr_journal x) (gen d) now (tag_num Tag_TradingStart) (encode (Ev_TradingStart now))"
  assume x: "umap_find (co_writers c) d = Some x" "key_of x = k" "jn_page r = jn_page (wr_journal x)" "jn_pos r = jn_pos (wr_journal x)"
  obtain x' where x': "umap_find (co_writers c') d = Some x'" "key_of x' = key_of x" "jn_page (wr_journal x') = jn_page (wr_journal x)"
    using assms(3) x(1) unfolding same_place_def by blast
  have old: "writer_at (w (key_of x)) (wr_journal x) (F d)" using assms(1) x(1) by (simp add: stands_def)
  have "writer_at (w' (key_of x')) (wr_journal x') (F d @ told now gen (tag_num Tag_TradingStart) (encode (Ev_TradingStart now)) c d)"
    using assms(2) x'(1) by (simp add: stands_def)
  then have new: "writer_at (w' (key_of x)) (wr_journal x') (F d @ [?f])" using x'(2) x(1) by (simp add: told_def)
  have pg: "current_page (w' (key_of x)) (wr_journal x') = current_page (w' (key_of x)) (wr_journal x)"
    using x'(3) by (simp add: current_page_def)
  have f1: "frames (pg_mem (current_page (w (key_of x)) (wr_journal x))) PAGE_HEADER (F d) (jn_pos (wr_journal x))"
    using old by (simp add: writer_at_def)
  have f2: "frames (pg_mem (current_page (w' (key_of x)) (wr_journal x))) PAGE_HEADER (F d @ [?f]) (jn_pos (wr_journal x'))"
    using new unfolding writer_at_def pg by blast
  show ?thesis
    using reader_behind_writer [OF old new x'(3) x(3,4) frames_same_end [OF f1 f2]] start_frames_of [OF assms(1) x(1), of encode now gen] x(2)
    by (simp del: frames.simps)
next
  assume "no_writer c k" "\<not> has_data (current_frame (w k) r)"
  then show ?thesis using assms(4) by (simp add: start_frames_def current_frame_def current_page_def)
qed

text \<open>C16: the start of a user's process starts the engines. Let an engine wait on any number of journals, each
  that of a destination of the process, read to its end, or one the process does not write and that holds
  nothing to read; and let every destination have room on its page for one more frame. After the process has
  started, the event loop of the engine, with a handler that only reads, is handed exactly one frame of each
  destination among its journals, the trading start with the time of the process, and nothing else, in the
  order of the times the frames were closed at.\<close>

theorem start_reaches_engines:
  assumes "co_inited c" "stands w c F" "umap_contains (co_writers c) (jid_flag MD_REQ)"
    "\<forall>d \<in> set (umap_keys (co_writers c)). has_room w c (length (encode (Ev_TradingStart now))) d"
    "umap_wf (rd_journals (eng_reader e))" "\<forall>k r. umap_find (rd_journals (eng_reader e)) k = Some r \<longrightarrow> waits_for c w k r"
    "eng_live e" "\<forall>d. gen d \<le> eng_end_time e \<and> (\<forall>t \<in> set clock. gen d \<le> t)"
    "2 * length (rd_journals (eng_reader e)) + 2 \<le> length clock"
  shows "\<exists>w' c' dr. comm_start encode rb now gen w c = Some (w', c') \<and>
    engine_drain rb' (read_handler g) clock e w' s = Some dr \<and> dr_result dr \<and> dr_world dr = w' \<and>
    dr_state dr = fold g (List.map snd (dr_trace dr)) s \<and>
    sorted (List.map (\<lambda>y. fr_gen_time (snd y)) (dr_trace dr)) \<and>
    (\<forall>d x. umap_find (co_writers c) d = Some x \<and> key_of x \<in> joined (eng_reader e) \<longrightarrow>
       List.map snd (filter (\<lambda>y. fst y = key_of x) (dr_trace dr)) =
         [written (wr_journal x) (gen d) now (tag_num Tag_TradingStart) (encode (Ev_TradingStart now))]) \<and>
    (\<forall>(k, f) \<in> set (dr_trace dr). k \<in> joined (eng_reader e) \<and> \<not> no_writer c k)"
proof -
  let ?q = "start_frames encode now gen c"
  obtain w' c' where st: "comm_start encode rb now gen w c = Some (w', c')"
    "stands w' c' (\<lambda>d. F d @ told now gen (tag_num Tag_TradingStart) (encode (Ev_TradingStart now)) c d)"
    "same_place c c'" "\<forall>k. no_writer c k \<longrightarrow> w' k = w k"
    using start_tells_all [where encode = encode and now = now and rb = rb and gen = gen, OF assms(1-4)] by blast
  have q1: "length (?q k) \<le> 1 \<and> (\<forall>f \<in> set (?q k). \<exists>d. fr_gen_time f = gen d)" for k
    by (auto simp: start_frames_def told_def written_def split: option.splits)
  have "pending w' (eng_reader e) ?q"
    using start_pending [of w c F w' c' now gen encode, OF assms(2) st(2) st(3) st(4)] assms(6) unfolding pending_def by blast
  moreover have "sorted (List.map fr_gen_time (?q k))" for k
    using q1 [of k] by (cases "?q k") auto
  then have "timely (eng_end_time e) clock (eng_reader e) ?q"
    using assms(8) q1 unfolding timely_def by fastforce
  moreover have "backlog (eng_reader e) ?q \<le> length (rd_journals (eng_reader e))"
  proof -
    have "backlog (eng_reader e) ?q \<le> card (joined (eng_reader e))"
      unfolding backlog_def using sum_bounded_above [of "joined (eng_reader e)" "\<lambda>k. length (?q k)" 1] q1 by simp
    also have "\<dots> \<le> length (rd_journals (eng_reader e))"
      unfolding joined_def umap_keys_def using card_length [of "List.map fst (rd_journals (eng_reader e))"] by simp
    finally show ?thesis .
  qed
  then have "2 * backlog (eng_reader e) ?q + 2 \<le> length clock" using assms(9) by linarith
  ultimately obtain dr where dr: "engine_drain rb' (read_handler g) clock e w' s = Some dr" "dr_result dr" "dr_world dr = w'"
    "merge_of (eng_reader e) ?q (dr_trace dr)" "dr_state dr = fold g (List.map snd (dr_trace dr)) s"
    using engine_drain_merge [of e w' ?q clock rb' g s] assms(5,7) by blast
  have "k \<in> joined (eng_reader e) \<and> \<not> no_writer c k" if "(k, f) \<in> set (dr_trace dr)" for k f
    using merge_of_mem [OF dr(4) that] by (auto simp: start_frames_def split: if_splits)
  moreover have "List.map snd (filter (\<lambda>y. fst y = key_of x) (dr_trace dr)) =
      [written (wr_journal x) (gen d) now (tag_num Tag_TradingStart) (encode (Ev_TradingStart now))]"
    if "umap_find (co_writers c) d = Some x" "key_of x \<in> joined (eng_reader e)" for d x
    using dr(4) that(2) start_frames_of [OF assms(2) that(1), of encode now gen] unfolding merge_of_def by simp
  moreover have "sorted (List.map (\<lambda>y. fr_gen_time (snd y)) (dr_trace dr))" using dr(4) by (simp add: merge_of_def)
  ultimately show ?thesis using st(1) dr(1-3,5) by blast
qed

text \<open>A process with two accounts, and a trading engine that reads their journals and one more.\<close>

definition writer_to :: "u32 \<Rightarrow> Writer" where
  "writer_to d = sample_writer\<lparr> wr_journal := sample_journal\<lparr> jn_dest := d \<rparr> \<rparr>"

definition two_accounts :: "Frame list CoreComm" where
  "two_accounts = CoreComm_new\<lparr> co_inited := True,
     co_writers := [(5, writer_to 5), (6, writer_to 6), (jid_flag MD_REQ, writer_to (jid_flag MD_REQ))] \<rparr>"

definition three_journals :: Engine where
  "three_journals = \<lparr> eng_live = True, eng_end_time = 100, eng_now_event_time = 0,
     eng_reader = Reader_new\<lparr> rd_journals := [(0, sample_journal), (key_of (writer_to 5), sample_journal), (key_of (writer_to 6), sample_journal)] \<rparr> \<rparr>"

lemma jid_flag_neq: "jid_flag MD_REQ \<noteq> 5" "jid_flag MD_REQ \<noteq> 6"
  by code_simp+

lemma writer_to_keys: "key_of (writer_to 5) = 0x100000005" "key_of (writer_to 6) = 0x100000006" "key_of (writer_to (jid_flag MD_REQ)) \<noteq> 0"
proof -
  have "4294967296 OR a \<noteq> 0" for a :: u64
  proof
    assume "4294967296 OR a = 0"
    then have "bit (4294967296 OR a) 32 = False" by simp
    then show False by (simp add: bit_or_iff)
  qed
  then show "key_of (writer_to 5) = 0x100000005" "key_of (writer_to 6) = 0x100000006" "key_of (writer_to (jid_flag MD_REQ)) \<noteq> 0"
    by (simp_all add: key_of_def writer_to_def sample_writer_def sample_journal_def journal_new_def journal_key_def)
qed

lemma start_reaches_engines_witness:
  "\<exists>w' c' dr. comm_start (\<lambda>e. [7]) 0 9 (\<lambda>d. 10) (\<lambda>k. sample_store) two_accounts = Some (w', c') \<and>
     engine_drain 0 (read_handler (\<lambda>f s. s @ [fr_data f])) (replicate 8 11) three_journals w' [] = Some dr \<and>
     List.map snd (filter (\<lambda>y. fst y = key_of (writer_to 6)) (dr_trace dr)) =
       [written (wr_journal (writer_to 6)) 10 9 (tag_num Tag_TradingStart) [7]]"
proof -
  have x: "\<not> wr_locked (writer_to d)" "jn_dest (wr_journal (writer_to d)) = d"
    "writer_at sample_store (wr_journal (writer_to d)) []" "fits sample_store (wr_journal (writer_to d)) (Suc 0)" for d
    using sample_writer_at sample_fits(1)
    by (simp_all add: writer_to_def sample_writer_def writer_at_def fits_def current_page_def current_frame_def
        sample_msg_def) (simp add: sample_journal_def)
  have wf: "umap_wf (co_writers two_accounts)" "co_inited two_accounts" "umap_contains (co_writers two_accounts) (jid_flag MD_REQ)"
    "umap_wf (rd_journals (eng_reader three_journals))"
    by (simp_all add: two_accounts_def three_journals_def Reader_new_def umap_wf_def umap_contains_def umap_find_def writer_to_keys
        jid_flag_neq)
  have st: "stands (\<lambda>k. sample_store) two_accounts (\<lambda>d. [])"
    using wf(1) x by (auto simp: stands_def two_accounts_def umap_find_def split: if_splits)
  have room: "\<forall>d \<in> set (umap_keys (co_writers two_accounts)). has_room (\<lambda>k. sample_store) two_accounts (length [7 :: u8]) d"
    using x by (simp add: two_accounts_def umap_keys_def has_room_def umap_find_def jid_flag_neq)
  have "no_writer two_accounts 0"
    by (auto simp: no_writer_def two_accounts_def umap_find_def writer_to_keys split: if_splits)
  moreover have "\<not> has_data (current_frame sample_store sample_journal)"
    using sample_writer_at by (simp add: writer_at_def has_data_def)
  ultimately have "waits_for two_accounts (\<lambda>k. sample_store) 0 sample_journal" by (simp add: waits_for_def)
  moreover have "waits_for two_accounts (\<lambda>k. sample_store) (key_of (writer_to d)) sample_journal" if "d = 5 \<or> d = 6" for d
  proof -
    have "umap_find (co_writers two_accounts) d = Some (writer_to d)" using that by (auto simp: two_accounts_def umap_find_def)
    moreover have "jn_page sample_journal = jn_page (wr_journal (writer_to d))" "jn_pos sample_journal = jn_pos (wr_journal (writer_to d))"
      by (simp_all add: writer_to_def)
    ultimately show ?thesis unfolding waits_for_def by blast
  qed
  ultimately have wait: "\<forall>k r. umap_find (rd_journals (eng_reader three_journals)) k = Some r \<longrightarrow> waits_for two_accounts (\<lambda>k. sample_store) k r"
    by (simp add: three_journals_def umap_find_def)
  have live: "eng_live three_journals" "\<forall>d :: u32. (10 :: int) \<le> eng_end_time three_journals \<and> (\<forall>t \<in> set (replicate 8 (11 :: int)). 10 \<le> t)"
    "2 * length (rd_journals (eng_reader three_journals)) + 2 \<le> length (replicate 8 (11 :: int))"
    "key_of (writer_to 6) \<in> joined (eng_reader three_journals)" "umap_find (co_writers two_accounts) 6 = Some (writer_to 6)"
    by (simp_all add: three_journals_def Reader_new_def joined_def umap_keys_def two_accounts_def umap_find_def)
  from start_reaches_engines [where encode = "\<lambda>e. [7]" and now = 9 and gen = "\<lambda>d. 10" and rb = 0 and rb' = 0 and
      g = "\<lambda>f s. s @ [fr_data f]" and s = "[]", OF wf(2) st wf(3) room wf(4) wait live(1-3)] live(4,5)
  show ?thesis by blast
qed

section \<open>What is handed over\<close>

text \<open>C17: listening hands over everything once. A wait that is woken lets the process take every frame that
  waits in any of the journals it has joined, merged in the order of their generation times and in
  order within a journal, to the handler registered for its tag; a frame without handler is passed over.\<close>

theorem listening_dispatches:
  assumes "co_inited c" "0 \<le> co_status c" "co_handlers c = List.map (\<lambda>(t, g). (t, read_handler g)) gs"
    "umap_wf (rd_journals (co_reader c))" "pending w (co_reader c) q" "timely latest clock (co_reader c) q"
    "2 * backlog (co_reader c) q + 2 \<le> length clock"
  shows "\<exists>c' es. comm_listening rb [(True, now, clock)] (w, s, c) = Some (w, fold (handled gs) (List.map snd es) s, c') \<and>
    fst ` set es \<subseteq> joined (co_reader c) \<and>
    (\<forall>k \<in> joined (co_reader c). List.map snd (filter (\<lambda>x. fst x = k) es) = q k) \<and>
    sorted (List.map (\<lambda>x. fr_gen_time (snd x)) es) \<and>
    co_status c' = co_status c \<and> co_handlers c' = co_handlers c \<and> co_writers c' = co_writers c"
proof -
  let ?r = "reader_sort now w (co_reader c)"
  have r: "umap_wf (rd_journals ?r)" "pending w ?r q" "timely latest clock ?r q" "2 * backlog ?r q + 2 \<le> length clock"
    using assms(4-7) by (simp_all add: sorted_reader pending_def timely_def backlog_def)
  obtain r' es where l: "read_loop rb (read_handler (handled gs)) clock True ?r w s =
      Some (True, r', w, fold (handled gs) (List.map snd es) s)" "merge_of ?r q es"
    using read_loop_merges [OF r, of rb "handled gs" s] by blast
  have "comm_listening rb [(True, now, clock)] (w, s, c) =
    Some (w, fold (handled gs) (List.map snd es) s, c\<lparr> co_reader := r' \<rparr>)"
    using l(1) assms(1,2) by (simp add: comm_listening_def comm_read_msg_def assms(3) dispatch_handled)
  then show ?thesis
    using l(2) by (intro exI [of _ "c\<lparr> co_reader := r' \<rparr>"] exI [of _ es] conjI) (auto simp: merge_of_def sorted_reader)
qed

lemma listening_dispatches_witness:
  "\<exists>c' s'. comm_listening 0 [(True, 9, [9, 9, 9, 9, 9, 9])] (sample_world, [], sample_comm) = Some (sample_world, s', c')"
proof -
  define q where "q = (\<lambda>k :: u64. [sample_frame (if k = 1 then 5 else 3)])"
  have rd: "co_reader sample_comm = eng_reader sample_engine" by (simp add: sample_comm_def)
  have j: "joined (eng_reader sample_engine) = {1, 2}"
    by (simp add: joined_def sample_engine_def Reader_new_def umap_keys_def)
  have fr: "frames (pg_mem (current_page (sample_world k) sample_journal)) PAGE_HEADER (q k) (PAGE_HEADER + FRAME_HEADER) \<and>
    \<not> has_data (pg_mem (current_page (sample_world k) sample_journal) (PAGE_HEADER + FRAME_HEADER))" for k
    by (simp add: q_def current_page_def page_at_def sample_world_def sample_journal_def sample_frame_def
        Frame_zero_def has_data_def journal_consts)
  have "umap_wf (rd_journals (eng_reader sample_engine))"
    by (simp_all add: sample_engine_def Reader_new_def umap_wf_def)
  moreover have "pending sample_world (eng_reader sample_engine) q"
    using fr by (auto simp: pending_def sample_engine_def Reader_new_def umap_find_def sample_journal_def
        split: if_splits)
  moreover have "timely 100 [9, 9, 9, 9, 9, 9] (eng_reader sample_engine) q"
    unfolding timely_def j by (simp add: q_def sample_frame_def)
  moreover have "2 * backlog (eng_reader sample_engine) q + 2 \<le> length [9, 9, 9, 9, 9, 9 :: int]"
    unfolding backlog_def j by (simp add: q_def)
  ultimately show ?thesis
    using listening_dispatches [of sample_comm "[(2, \<lambda>f s. s @ [f])]" sample_world q 100 "[9, 9, 9, 9, 9, 9]" 0 9 "[]"]
    unfolding rd by (auto simp: sample_comm_def CoreComm_new_def)
qed

section \<open>The agent\<close>

lemma write_to_status: "write_to rb now gen tag data d w c = Some (w', c') \<Longrightarrow> co_status c' = co_status c"
  by (auto simp: write_to_def Let_def split: option.splits)

lemma write_each_status: "write_each rb now gen tag data ds w c = Some (w', c') \<Longrightarrow> co_status c' = co_status c"
  by (induction ds arbitrary: w c) (auto simp: bind_eq_Some_conv dest: write_to_status)

lemma comm_start_status: "comm_start encode rb now gen w c = Some (w', c') \<Longrightarrow> co_status c' = co_status c"
  by (auto simp: comm_start_def Let_def bind_eq_Some_conv split: if_splits) (metis write_to_status write_each_status)

text \<open>
  The agent gives notice at every turn until it is stopped. Stopping is for good: nothing sets the status
  back, so an agent that is started again gives no notice at all.
\<close>

lemma notices_run: "0 \<le> co_status (ca_comm a) \<Longrightarrow> notices (replicate n False) a = n"
  by (induction n) auto

lemma notices_stop: "ca_thread a \<Longrightarrow> 0 \<le> co_status (ca_comm a) \<Longrightarrow> notices (replicate n False @ True # stops) a = n"
  by (induction n) (auto simp: StopListening_def comm_terminate_def)

lemma stopped_for_good:
  assumes "ca_thread a" "StartListening encode rb now gen w (StopListening a) = Some (w', a')"
  shows "notices stops a' = 0"
proof -
  have "co_status (ca_comm a') = -1"
    using assms by (auto simp: StartListening_def StopListening_def comm_terminate_def dest: comm_start_status)
  then show ?thesis by (cases stops) (auto simp: Let_def StopListening_def comm_terminate_def)
qed

end
