(* ===== verification/Descriptors.thy ===== *)
theory Descriptors
  imports Config
begin

text \<open>
  The passing of event descriptors from the master to the processes of users over a local socket
  (src/main/mentor_send_eventfd.cpp, src/core/fds_map_fixing.cpp), as a step relation of the serving
  thread and any number of clients.

  The socket and the ancillary messages are modelled by their documented behaviour: a descriptor that
  is sent is a reference to the object it denotes; who receives it gets the least number that is free in
  his own table for that object, or none when the table is full; one message carries one of them, messages stay in
  order, and a message can still be received after the sender has closed. A connection waits until it is accepted.
  Which of the processes acts next, when sending fails and when \<open>accept\<close> fails is left open.
\<close>

section \<open>Descriptors\<close>

datatype Kobject = Ko_eventfd nat | Ko_socket nat

type_synonym fd_table = "(int \<times> Kobject) list"

definition free_fd :: "fd_table \<Rightarrow> int" where
  "free_fd tab = (case filter (\<lambda>n. int n \<notin> fst ` set tab) [0..<Suc (length tab)] of n # _ \<Rightarrow> int n | [] \<Rightarrow> -1)"

definition install_fd :: "Kobject \<Rightarrow> fd_table \<Rightarrow> int \<times> fd_table" where
  "install_fd ob tab = (let fd = free_fd tab in (fd, (fd, ob) # tab))"

definition close_fd :: "int \<Rightarrow> fd_table \<Rightarrow> fd_table" where
  "close_fd fd tab = filter (\<lambda>e. fst e \<noteq> fd) tab"

text \<open>\<open>send_fd\<close> puts a message behind those in flight, and fails for a number that denotes nothing.\<close>

definition send_fd :: "fd_table \<Rightarrow> int \<Rightarrow> Kobject list \<Rightarrow> Kobject list option" where
  "send_fd tab fd_to_send flight = map_option (\<lambda>ob. flight @ [ob]) (map_of tab fd_to_send)"

text \<open>\<open>recv_fd\<close>, when it does not wait: without a message the other end has closed, and the result is -1.\<close>

definition recv_fd :: "int \<Rightarrow> fd_table \<Rightarrow> Kobject list \<Rightarrow> int \<times> fd_table \<times> Kobject list" where
  "recv_fd max_fds tab flight =
     (case flight of
        [] \<Rightarrow> (-1, tab, flight)
      | ob # flight \<Rightarrow>
          if free_fd tab < max_fds then let (fd, tab) = install_fd ob tab in (fd, tab, flight)
          else (-1, tab, flight))"

section \<open>The processes\<close>

text \<open>The serving thread of the master: accepting, sending the rest of the list to a client, or stopped.\<close>

datatype Server = Accepting | Serving nat "int list" | Server_stopped

text \<open>
  A client with the pieces of the text it has read: not yet connected, inside the loop of \<open>fix_fds\<close>, through
  with it, or left by an exception. \<open>cl_received\<close> are the numbers of the loop's turns so far.
\<close>

datatype Progress = Unconnected | Fixing | Fixed | Fix_failed

record Client =
  cl_table :: fd_table
  cl_pieces :: nat
  cl_sock :: int
  cl_received :: "int list"
  cl_progress :: Progress

record Passing =
  ps_table :: fd_table
  ps_list :: "int list"
  ps_server :: Server
  ps_pending :: "nat list"
  ps_flight :: "nat \<Rightarrow> Kobject list"
  ps_closed :: "nat \<Rightarrow> bool"
  ps_clients :: "nat \<Rightarrow> Client"

text \<open>The connection of a client: its socket takes a number in its table.\<close>

definition fix_begin :: "nat \<Rightarrow> Client \<Rightarrow> Client" where
  "fix_begin i c =
     (let (client_sock, tab) = install_fd (Ko_socket i) (cl_table c)
      in c\<lparr> cl_table := tab, cl_sock := client_sock, cl_received := [], cl_progress := Fixing \<rparr>)"

text \<open>Without a socket, or without a server at the path, the loop is not reached.\<close>

definition fix_refused :: "bool \<Rightarrow> nat \<Rightarrow> Client \<Rightarrow> Client" where
  "fix_refused created i c =
     (if created then (fix_begin i c)\<lparr> cl_progress := Fix_failed \<rparr> else c\<lparr> cl_progress := Fix_failed \<rparr>)"

text \<open>A turn of the loop; the exception leaves the socket open.\<close>

definition fix_turn :: "int \<Rightarrow> Client \<Rightarrow> Kobject list \<Rightarrow> Client \<times> Kobject list" where
  "fix_turn max_fds c flight =
     (let (received_eventfd, tab, flight) = recv_fd max_fds (cl_table c) flight
      in if received_eventfd = -1 then (c\<lparr> cl_table := tab, cl_progress := Fix_failed \<rparr>, flight)
         else (c\<lparr> cl_table := tab, cl_received := cl_received c @ [received_eventfd] \<rparr>, flight))"

definition fix_end :: "Client \<Rightarrow> Client" where
  "fix_end c = c\<lparr> cl_table := close_fd (cl_sock c) (cl_table c), cl_progress := Fixed \<rparr>"

inductive pass_step :: "int \<Rightarrow> Passing \<Rightarrow> Passing \<Rightarrow> bool" for max_fds where
  connects: "cl_progress (ps_clients s i) = Unconnected \<Longrightarrow>
    pass_step max_fds s (s\<lparr> ps_clients := (ps_clients s)(i := fix_begin i (ps_clients s i)), ps_pending := ps_pending s @ [i] \<rparr>)"
| refused: "cl_progress (ps_clients s i) = Unconnected \<Longrightarrow>
    pass_step max_fds s (s\<lparr> ps_clients := (ps_clients s)(i := fix_refused created i (ps_clients s i)) \<rparr>)"
| accepts: "\<lbrakk> ps_server s = Accepting; ps_pending s = i # rest \<rbrakk> \<Longrightarrow>
    pass_step max_fds s (s\<lparr> ps_server := Serving i (ps_list s), ps_pending := rest \<rparr>)"
| stops: "ps_server s = Accepting \<Longrightarrow> pass_step max_fds s (s\<lparr> ps_server := Server_stopped \<rparr>)"
| sends: "\<lbrakk> ps_server s = Serving i (fd # fds); send_fd (ps_table s) fd (ps_flight s i) = Some flight \<rbrakk> \<Longrightarrow>
    pass_step max_fds s (s\<lparr> ps_flight := (ps_flight s)(i := flight), ps_server := Serving i fds \<rparr>)"
| send_fails: "ps_server s = Serving i (fd # fds) \<Longrightarrow>
    pass_step max_fds s (s\<lparr> ps_closed := (ps_closed s)(i := True), ps_server := Accepting \<rparr>)"
| served: "ps_server s = Serving i [] \<Longrightarrow>
    pass_step max_fds s (s\<lparr> ps_closed := (ps_closed s)(i := True), ps_server := Accepting \<rparr>)"
| receives: "\<lbrakk> cl_progress (ps_clients s i) = Fixing; length (cl_received (ps_clients s i)) < cl_pieces (ps_clients s i) div 2;
      ps_flight s i \<noteq> [] \<or> ps_closed s i; fix_turn max_fds (ps_clients s i) (ps_flight s i) = (c, flight) \<rbrakk> \<Longrightarrow>
    pass_step max_fds s (s\<lparr> ps_clients := (ps_clients s)(i := c), ps_flight := (ps_flight s)(i := flight) \<rparr>)"
| finishes: "\<lbrakk> cl_progress (ps_clients s i) = Fixing; \<not> length (cl_received (ps_clients s i)) < cl_pieces (ps_clients s i) div 2 \<rbrakk> \<Longrightarrow>
    pass_step max_fds s (s\<lparr> ps_clients := (ps_clients s)(i := fix_end (ps_clients s i)) \<rparr>)"

inductive_cases pass_stepE: "pass_step max_fds s s'"

text \<open>The master has made its descriptors and listens; the clients have read the text and have not connected.\<close>

definition pass_start :: "fd_table \<Rightarrow> int list \<Rightarrow> (nat \<Rightarrow> fd_table) \<Rightarrow> nat \<Rightarrow> Passing" where
  "pass_start tab eventfd_list tables pieces =
     \<lparr> ps_table = tab, ps_list = eventfd_list, ps_server = Accepting, ps_pending = [], ps_flight = (\<lambda>i. []),
       ps_closed = (\<lambda>i. False),
       ps_clients = (\<lambda>i. \<lparr> cl_table = tables i, cl_pieces = pieces, cl_sock = 0, cl_received = [], cl_progress = Unconnected \<rparr>) \<rparr>"


section \<open>Tables\<close>

lemma free_fd_facts: "0 \<le> free_fd tab" "free_fd tab \<le> int (length tab)" "free_fd tab \<notin> fst ` set tab"
proof -
  let ?ns = "filter (\<lambda>n. int n \<notin> fst ` set tab) [0..<Suc (length tab)]"
  have "\<not> int ` {0..<Suc (length tab)} \<subseteq> fst ` set tab"
  proof
    assume "int ` {0..<Suc (length tab)} \<subseteq> fst ` set tab"
    then have "card (int ` {0..<Suc (length tab)}) \<le> card (fst ` set tab)" by (intro card_mono) auto
    moreover have "card (fst ` set tab) \<le> length tab" by (rule le_trans [OF card_image_le]) (simp_all add: card_length)
    moreover have "card (int ` {0..<Suc (length tab)}) = Suc (length tab)" by (subst card_image) (auto intro: inj_onI)
    ultimately show False by simp
  qed
  then obtain i where "i < Suc (length tab)" "int i \<notin> fst ` set tab"
    by (metis (no_types, lifting) atLeastLessThan_iff image_subset_iff)
  then have "i \<in> set ?ns" by (simp del: upt_Suc)
  then have "?ns \<noteq> []" by (metis empty_iff list.set(1))
  then obtain n ns where ns: "?ns = n # ns" by (cases ?ns) auto
  then have "n \<in> set ?ns" by simp
  then have "n < Suc (length tab) \<and> int n \<notin> fst ` set tab" by (auto simp del: upt_Suc)
  moreover have "free_fd tab = int n" unfolding free_fd_def ns by simp
  ultimately show "0 \<le> free_fd tab" "free_fd tab \<le> int (length tab)" "free_fd tab \<notin> fst ` set tab" by simp_all
qed

lemma map_of_close: "fd \<noteq> fd' \<Longrightarrow> map_of (close_fd fd tab) fd' = map_of tab fd'"
  by (induction tab) (auto simp: close_fd_def)

lemma keys_close: "fst ` set (close_fd fd tab) = fst ` set tab - {fd}"
  by (auto simp: close_fd_def)

text \<open>The numbers received denote what the numbers sent denoted, and nothing taken later changes that.\<close>

definition denotes :: "fd_table \<Rightarrow> int list \<Rightarrow> Kobject option list" where
  "denotes tab fds = List.map (map_of tab) fds"

definition usable :: "int \<Rightarrow> fd_table \<Rightarrow> int list \<Rightarrow> bool" where
  "usable max_fds tab fds \<longleftrightarrow> (\<forall>fd \<in> set fds. 0 \<le> fd \<and> fd < max_fds \<and> fd \<in> fst ` set tab)"

lemma denotes_install:
  "usable max_fds tab fds \<Longrightarrow> denotes ((free_fd tab, ob) # tab) fds = denotes tab fds"
  using free_fd_facts(3) [of tab] by (auto simp: denotes_def usable_def)

lemma usable_install: "usable max_fds tab fds \<Longrightarrow> usable max_fds ((free_fd tab, ob) # tab) fds"
  by (auto simp: usable_def)

lemma denotes_close: "fd \<notin> set fds \<Longrightarrow> denotes (close_fd fd tab) fds = denotes tab fds"
  unfolding denotes_def by (rule map_cong) (auto intro!: map_of_close)

lemma usable_close: "fd \<notin> set fds \<Longrightarrow> usable max_fds (close_fd fd tab) fds = usable max_fds tab fds"
  by (auto simp: usable_def keys_close)

section \<open>What is passed\<close>

text \<open>One client, with the part of the list that has been sent to it.\<close>

definition client_ok ::
    "int \<Rightarrow> fd_table \<Rightarrow> int list \<Rightarrow> nat list \<Rightarrow> Server \<Rightarrow> nat \<Rightarrow> nat \<Rightarrow> Client \<Rightarrow> Kobject list \<Rightarrow> int list \<Rightarrow> bool" where
  "client_ok max_fds tab fds pend server pieces i c flight sent \<longleftrightarrow>
     cl_pieces c = pieces \<and>
     (if cl_progress c = Unconnected
      then cl_received c = [] \<and> flight = [] \<and> sent = [] \<and> i \<notin> set pend \<and> (\<forall>rest. server \<noteq> Serving i rest)
      else (i \<in> set pend \<longrightarrow> sent = []) \<and> (\<exists>rest. fds = sent @ rest) \<and> (\<forall>rest. server = Serving i rest \<longrightarrow> fds = sent @ rest) \<and>
        (cl_progress c \<noteq> Fix_failed \<longrightarrow>
           denotes (cl_table c) (cl_received c) @ List.map Some flight = denotes tab sent \<and> usable max_fds (cl_table c) (cl_received c)) \<and>
        (cl_progress c = Fixing \<longrightarrow> length (cl_received c) \<le> pieces div 2 \<and> cl_sock c \<in> fst ` set (cl_table c) \<and> cl_sock c \<notin> set (cl_received c)) \<and>
        (cl_progress c = Fixed \<longrightarrow> length (cl_received c) = pieces div 2))"

definition pass_inv :: "int \<Rightarrow> fd_table \<Rightarrow> int list \<Rightarrow> nat \<Rightarrow> Passing \<Rightarrow> (nat \<Rightarrow> int list) \<Rightarrow> bool" where
  "pass_inv max_fds tab fds pieces s sent \<longleftrightarrow>
     ps_table s = tab \<and> ps_list s = fds \<and> distinct (ps_pending s) \<and>
     (\<forall>i rest. ps_server s = Serving i rest \<longrightarrow> i \<notin> set (ps_pending s)) \<and>
     (\<forall>i. client_ok max_fds tab fds (ps_pending s) (ps_server s) pieces i (ps_clients s i) (ps_flight s i) (sent i))"

lemma fix_begin_ok:
  assumes "client_ok max_fds tab fds pend server pieces i c flight sent" "cl_progress c = Unconnected"
  shows "client_ok max_fds tab fds (pend @ [i]) server pieces i (fix_begin i c) flight sent"
  using assms by (auto simp: client_ok_def fix_begin_def install_fd_def Let_def denotes_def usable_def)

lemma fix_refused_ok:
  assumes "client_ok max_fds tab fds pend server pieces i c flight sent" "cl_progress c = Unconnected"
  shows "client_ok max_fds tab fds pend server pieces i (fix_refused created i c) flight sent"
  using assms by (auto simp: client_ok_def fix_refused_def fix_begin_def install_fd_def Let_def)

lemma fix_turn_ok:
  assumes "client_ok max_fds tab fds pend server pieces i c flight sent" "cl_progress c = Fixing"
    "length (cl_received c) < pieces div 2" "fix_turn max_fds c flight = (c', flight')"
  shows "client_ok max_fds tab fds pend server pieces i c' flight' sent"
proof (cases flight)
  case Nil
  then show ?thesis using assms by (auto simp: client_ok_def fix_turn_def recv_fd_def)
next
  case (Cons ob obs)
  show ?thesis
  proof (cases "free_fd (cl_table c) < max_fds")
    case False
    then show ?thesis using assms Cons by (auto simp: client_ok_def fix_turn_def recv_fd_def)
  next
    case True
    let ?fd = "free_fd (cl_table c)" and ?tab = "(free_fd (cl_table c), ob) # cl_table c"
    have c': "c' = c\<lparr> cl_table := ?tab, cl_received := cl_received c @ [?fd] \<rparr>" "flight' = obs"
      using assms(4) Cons True free_fd_facts(1) [of "cl_table c"] by (auto simp: fix_turn_def recv_fd_def install_fd_def Let_def)
    have o: "denotes (cl_table c) (cl_received c) @ List.map Some flight = denotes tab sent" "usable max_fds (cl_table c) (cl_received c)"
      using assms(1,2) by (simp_all add: client_ok_def)
    have "denotes ?tab (cl_received c @ [?fd]) = denotes (cl_table c) (cl_received c) @ [Some ob]"
      using denotes_install [OF o(2)] by (simp add: denotes_def)
    then have "denotes ?tab (cl_received c @ [?fd]) @ List.map Some obs = denotes tab sent" using o(1) Cons by simp
    moreover have "usable max_fds ?tab (cl_received c @ [?fd])"
      using usable_install [OF o(2)] True free_fd_facts(1) [of "cl_table c"] by (auto simp: usable_def)
    moreover have "cl_sock c \<in> fst ` set (cl_table c)" using assms(1,2) by (simp add: client_ok_def)
    then have "cl_sock c \<noteq> ?fd" using free_fd_facts(3) [of "cl_table c"] by metis
    ultimately show ?thesis using assms(1,2,3) by (simp add: client_ok_def c')
  qed
qed

lemma fix_end_ok:
  assumes "client_ok max_fds tab fds pend server pieces i c flight sent" "cl_progress c = Fixing"
    "\<not> length (cl_received c) < pieces div 2"
  shows "client_ok max_fds tab fds pend server pieces i (fix_end c) flight sent"
  using assms by (simp add: client_ok_def fix_end_def denotes_close usable_close)

lemma client_ok_pend: "k \<noteq> i \<Longrightarrow> client_ok max_fds tab fds (pend @ [i]) server pieces k = client_ok max_fds tab fds pend server pieces k"
  by (simp add: fun_eq_iff client_ok_def)

lemma pass_inv_step:
  assumes "pass_inv max_fds tab fds pieces s sent" "pass_step max_fds s s'"
  shows "\<exists>sent'. pass_inv max_fds tab fds pieces s' sent'"
  using assms(2)
proof cases
  case (connects i)
  have "client_ok max_fds tab fds (ps_pending s @ [i]) (ps_server s) pieces k (ps_clients s' k) (ps_flight s k) (sent k)" for k
    using assms(1) connects fix_begin_ok [of max_fds tab fds "ps_pending s" "ps_server s" pieces i]
    by (cases "k = i") (simp_all add: pass_inv_def client_ok_pend)
  moreover have "i \<notin> set (ps_pending s)" "\<forall>rest. ps_server s \<noteq> Serving i rest"
    using assms(1) connects(2) by (auto simp: pass_inv_def client_ok_def dest: spec [of _ i] split: if_splits)
  ultimately show ?thesis using assms(1) connects by (intro exI [of _ sent]) (auto simp: pass_inv_def)
next
  case (refused i created)
  have "client_ok max_fds tab fds (ps_pending s) (ps_server s) pieces k (ps_clients s' k) (ps_flight s k) (sent k)" for k
    using assms(1) refused fix_refused_ok [of max_fds tab fds "ps_pending s" "ps_server s" pieces i]
    by (cases "k = i") (simp_all add: pass_inv_def)
  then show ?thesis using assms(1) refused by (intro exI [of _ sent]) (auto simp: pass_inv_def)
next
  case (accepts i rest)
  have "client_ok max_fds tab fds rest (Serving i fds) pieces k (ps_clients s k) (ps_flight s k) (sent k)" for k
    using assms(1) accepts by (auto simp: pass_inv_def client_ok_def dest!: spec [of _ k] split: if_splits)
  then show ?thesis using assms(1) accepts by (intro exI [of _ sent]) (auto simp: pass_inv_def)
next
  case stops
  have "client_ok max_fds tab fds (ps_pending s) Server_stopped pieces k (ps_clients s k) (ps_flight s k) (sent k)" for k
    using assms(1) stops by (auto simp: pass_inv_def client_ok_def dest!: spec [of _ k] split: if_splits)
  then show ?thesis using assms(1) stops by (intro exI [of _ sent]) (auto simp: pass_inv_def)
next
  case (sends i fd rest flight)
  obtain ob where ob: "map_of tab fd = Some ob" "flight = ps_flight s i @ [ob]"
    using sends(3) assms(1) by (auto simp: send_fd_def pass_inv_def)
  have "client_ok max_fds tab fds (ps_pending s) (Serving i rest) pieces k (ps_clients s k) (ps_flight s' k)
      ((sent(i := sent i @ [fd])) k)" for k
    using assms(1) sends(1,2) ob
    by (cases "k = i") (auto simp: pass_inv_def client_ok_def denotes_def dest!: spec [of _ k] split: if_splits)
  then show ?thesis using assms(1) sends by (intro exI [of _ "sent(i := sent i @ [fd])"]) (auto simp: pass_inv_def)
next
  case (send_fails i fd rest)
  have "client_ok max_fds tab fds (ps_pending s) Accepting pieces k (ps_clients s k) (ps_flight s k) (sent k)" for k
    using assms(1) by (auto simp: pass_inv_def client_ok_def dest!: spec [of _ k] split: if_splits)
  then show ?thesis using assms(1) send_fails by (intro exI [of _ sent]) (auto simp: pass_inv_def)
next
  case (served i)
  have "client_ok max_fds tab fds (ps_pending s) Accepting pieces k (ps_clients s k) (ps_flight s k) (sent k)" for k
    using assms(1) by (auto simp: pass_inv_def client_ok_def dest!: spec [of _ k] split: if_splits)
  then show ?thesis using assms(1) served by (intro exI [of _ sent]) (auto simp: pass_inv_def)
next
  case (receives i c flight)
  have p: "cl_pieces (ps_clients s i) = pieces" using assms(1) by (simp add: pass_inv_def client_ok_def)
  have "client_ok max_fds tab fds (ps_pending s) (ps_server s) pieces i c flight (sent i)"
    by (rule fix_turn_ok [OF _ receives(2) _ receives(5)]) (use assms(1) receives(3) p in \<open>simp_all add: pass_inv_def\<close>)
  then have "client_ok max_fds tab fds (ps_pending s) (ps_server s) pieces k (ps_clients s' k) (ps_flight s' k) (sent k)" for k
    using assms(1) receives(1) by (cases "k = i") (simp_all add: pass_inv_def)
  then show ?thesis using assms(1) receives by (intro exI [of _ sent]) (auto simp: pass_inv_def)
next
  case (finishes i)
  have p: "cl_pieces (ps_clients s i) = pieces" using assms(1) by (simp add: pass_inv_def client_ok_def)
  have "client_ok max_fds tab fds (ps_pending s) (ps_server s) pieces k (ps_clients s' k) (ps_flight s k) (sent k)" for k
    using assms(1) finishes p fix_end_ok [of max_fds tab fds "ps_pending s" "ps_server s" pieces i]
    by (cases "k = i") (auto simp: pass_inv_def)
  then show ?thesis using assms(1) finishes by (intro exI [of _ sent]) (auto simp: pass_inv_def)
qed

lemma pass_inv_start: "pass_inv max_fds tab fds pieces (pass_start tab fds tables pieces) (\<lambda>i. [])"
  by (simp add: pass_inv_def pass_start_def client_ok_def)

lemma pass_inv_reachable:
  "(pass_step max_fds)\<^sup>*\<^sup>* (pass_start tab fds tables pieces) s \<Longrightarrow> \<exists>sent. pass_inv max_fds tab fds pieces s sent"
  by (induction rule: rtranclp_induct) (use pass_inv_start pass_inv_step in \<open>blast+\<close>)


text \<open>A client that is through has the objects of the first half of its pieces.\<close>

lemma fixed_denotes:
  assumes "pass_inv max_fds tab fds pieces s sent" "cl_progress (ps_clients s i) = Fixed" "pieces = 2 * length fds"
  shows "length (cl_received (ps_clients s i)) = length fds"
    "denotes (cl_table (ps_clients s i)) (cl_received (ps_clients s i)) = denotes tab fds"
    "usable max_fds (cl_table (ps_clients s i)) (cl_received (ps_clients s i))"
proof -
  let ?c = "ps_clients s i"
  have ok: "client_ok max_fds tab fds (ps_pending s) (ps_server s) pieces i ?c (ps_flight s i) (sent i)"
    using assms(1) by (simp add: pass_inv_def)
  then have d: "denotes (cl_table ?c) (cl_received ?c) @ List.map Some (ps_flight s i) = denotes tab (sent i)"
    and l: "length (cl_received ?c) = length fds"
    using assms(2,3) by (simp_all add: client_ok_def)
  obtain rest where rest: "fds = sent i @ rest" using ok assms(2) by (auto simp: client_ok_def)
  have "length (cl_received ?c) + length (ps_flight s i) = length (sent i)"
    using arg_cong [OF d, of length] by (simp add: denotes_def)
  then have "rest = []" "ps_flight s i = []" using l rest by auto
  then show "denotes (cl_table ?c) (cl_received ?c) = denotes tab fds" using d rest by simp
  show "length (cl_received ?c) = length fds" by (rule l)
  show "usable max_fds (cl_table ?c) (cl_received ?c)" using ok assms(2) by (simp add: client_ok_def)
qed

text \<open>C15: a process of a user posts on the descriptors of the engines. However many clients connect, however
  serving and receiving interleave, and whichever transmissions fail: a client that comes through
  \<open>fix_fds\<close> without an exception has a map in which the number for every journal denotes, in its own table,
  the very event object the master made for that journal.\<close>

theorem descriptors_passed:
  assumes "(pass_step max_fds)\<^sup>*\<^sup>* (pass_start tab fds tables (length (split_at_char CHR '':'' fds_val))) s"
    "fds_val = fds_text (zip (get_journal_names cfg) fds)" "distinct (get_journals cfg)"
    "length fds = length (get_journals cfg)" "list_all fd_ok fds" "max_fds \<le> 2 ^ 31"
    "cl_progress (ps_clients s i) = Fixed"
  shows "\<exists>m. fds_of_file fds_val (cl_received (ps_clients s i)) = Value m \<and>
    (\<forall>k < length fds. \<exists>fd ob. posted m (get_journals cfg ! k) = Some fd \<and>
       map_of (cl_table (ps_clients s i)) fd = Some ob \<and> map_of tab (fds ! k) = Some ob)"
proof -
  let ?c = "ps_clients s i" and ?js = "get_journals cfg"
  have ok: "list_all (\<lambda>(n, fd). CHR '':'' \<notin> set n \<and> fd_ok fd) (zip (List.map journal_name ?js) fds)"
    using assms(5) by (rule printed_ok)
  have "length (concat (List.map (\<lambda>(n, fd). [n, string_of_int fd]) ps)) = 2 * length ps" for ps
    by (induction ps) auto
  then have pieces: "length (split_at_char CHR '':'' fds_val) = 2 * length fds"
    using split_fds_text [OF ok] assms(2,4) by (simp add: get_journal_names_def)
  obtain sent where inv: "pass_inv max_fds tab fds (2 * length fds) s sent"
    using pass_inv_reachable [OF assms(1)] unfolding pieces by blast
  note f = fixed_denotes [OF inv assms(7) refl]
  have r: "length (cl_received ?c) = length ?js" "list_all fd_ok (cl_received ?c)"
    using f(1,3) assms(4,6) by (auto simp: usable_def list_all_iff fd_ok_def)
  obtain m where m: "fds_of_file fds_val (cl_received ?c) = Value m" "knows m ?js (cl_received ?c)"
    using fds_map_received [OF assms(4,5) r get_journals_nonempty] knows_fold [OF assms(3) r(1) refl] assms(2)
    by (simp add: get_journal_names_def)
  have "\<exists>fd ob. posted m (?js ! k) = Some fd \<and> map_of (cl_table ?c) fd = Some ob \<and> map_of tab (fds ! k) = Some ob"
    if k: "k < length fds" for k
  proof -
    let ?fd = "cl_received ?c ! k"
    have "posted m (?js ! k) = Some ?fd" using m(2) k assms(4) by (simp add: knows_def)
    moreover have "map_of (cl_table ?c) ?fd = map_of tab (fds ! k)"
      using arg_cong [OF f(2), of "\<lambda>xs. xs ! k"] k f(1) by (simp add: denotes_def)
    moreover have "?fd \<in> fst ` set (cl_table ?c)" using f(1,3) k by (simp add: usable_def)
    then have "map_of (cl_table ?c) ?fd \<noteq> None" by (simp add: map_of_eq_None_iff)
    ultimately show ?thesis by auto
  qed
  then show ?thesis using m(1) by blast
qed


text \<open>A client alone with the server does come through, when its table has room.\<close>

lemma serve_all:
  assumes "ps_server s = Serving i fds" "ps_clients s i = c" "cl_progress c = Fixing" "ps_flight s i = []"
    "length (cl_received c) + length fds = cl_pieces c div 2" "\<forall>fd \<in> set fds. map_of (ps_table s) fd \<noteq> None"
    "int (length (cl_table c) + length fds) \<le> max_fds"
  shows "\<exists>s'. (pass_step max_fds)\<^sup>*\<^sup>* s s' \<and> cl_progress (ps_clients s' i) = Fixed"
  using assms
proof (induction fds arbitrary: s c)
  case Nil
  then have "pass_step max_fds s (s\<lparr> ps_clients := (ps_clients s)(i := fix_end (ps_clients s i)) \<rparr>)" by (intro finishes) auto
  then show ?case by (intro exI conjI) (erule r_into_rtranclp, simp add: fix_end_def)
next
  case (Cons fd fds)
  obtain ob where ob: "map_of (ps_table s) fd = Some ob" using Cons.prems(6) by auto
  let ?s = "s\<lparr> ps_flight := (ps_flight s)(i := [ob]), ps_server := Serving i fds \<rparr>"
  let ?fd = "free_fd (cl_table c)"
  let ?c = "c\<lparr> cl_table := (?fd, ob) # cl_table c, cl_received := cl_received c @ [?fd] \<rparr>"
  let ?s2 = "?s\<lparr> ps_clients := (ps_clients ?s)(i := ?c), ps_flight := (ps_flight ?s)(i := []) \<rparr>"
  have 1: "pass_step max_fds s ?s"
    using Cons.prems(1,4) ob by (intro sends) (simp_all add: send_fd_def)
  have room: "?fd < max_fds" "?fd \<noteq> -1" using free_fd_facts(1,2) [of "cl_table c"] Cons.prems(7) by auto
  have 2: "pass_step max_fds ?s ?s2"
    using Cons.prems(2,3,5) room by (intro receives) (simp_all add: fix_turn_def recv_fd_def install_fd_def Let_def)
  obtain s' where "(pass_step max_fds)\<^sup>*\<^sup>* ?s2 s'" "cl_progress (ps_clients s' i) = Fixed"
    using Cons.IH [of ?s2 ?c] Cons.prems by auto
  with 1 2 show ?case by (meson converse_rtranclp_into_rtranclp)
qed

lemma client_served:
  assumes "\<forall>fd \<in> set fds. map_of tab fd \<noteq> None" "int (Suc (length (tables i) + length fds)) \<le> max_fds" "pieces div 2 = length fds"
  shows "\<exists>s. (pass_step max_fds)\<^sup>*\<^sup>* (pass_start tab fds tables pieces) s \<and> cl_progress (ps_clients s i) = Fixed"
proof -
  let ?s = "pass_start tab fds tables pieces"
  let ?s1 = "?s\<lparr> ps_clients := (ps_clients ?s)(i := fix_begin i (ps_clients ?s i)), ps_pending := ps_pending ?s @ [i] \<rparr>"
  let ?s2 = "?s1\<lparr> ps_server := Serving i (ps_list ?s1), ps_pending := [] \<rparr>"
  have 1: "pass_step max_fds ?s ?s1" by (rule connects) (simp add: pass_start_def)
  have 2: "pass_step max_fds ?s1 ?s2" by (rule accepts) (simp_all add: pass_start_def)
  obtain s' where "(pass_step max_fds)\<^sup>*\<^sup>* ?s2 s'" "cl_progress (ps_clients s' i) = Fixed"
    using serve_all [of ?s2 i fds "ps_clients ?s2 i" max_fds] assms
    by (auto simp: pass_start_def fix_begin_def install_fd_def Let_def)
  with 1 2 show ?thesis by (meson converse_rtranclp_into_rtranclp)
qed

lemma descriptors_passed_witness:
  "\<exists>s. (pass_step 1024)\<^sup>*\<^sup>* (pass_start (List.map (\<lambda>n. (int n, Ko_eventfd n)) [5..<11]) [5, 6, 7, 8, 9, 10] (\<lambda>i. [(0, Ko_socket 9)])
       (length (split_at_char CHR '':'' (fds_text (zip (get_journal_names sample_cfg) [5, 6, 7, 8, 9, 10]))))) s \<and>
     (\<exists>m fd. fds_of_file (fds_text (zip (get_journal_names sample_cfg) [5, 6, 7, 8, 9, 10])) (cl_received (ps_clients s 3)) = Value m \<and>
        posted m (get_journals sample_cfg ! 2) = Some fd \<and> map_of (cl_table (ps_clients s 3)) fd = Some (Ko_eventfd 7))"
proof -
  let ?tab = "List.map (\<lambda>n. (int n, Ko_eventfd n)) [5..<11]" and ?fds = "[5, 6, 7, 8, 9, 10] :: int list"
  let ?val = "fds_text (zip (get_journal_names sample_cfg) ?fds)"
  have n: "length (get_journals sample_cfg) = 6" by (simp add: get_journals_def sample_cfg_def)
  have "list_all (\<lambda>(n, fd). CHR '':'' \<notin> set n \<and> fd_ok fd) (zip (List.map journal_name (get_journals sample_cfg)) ?fds)"
    by (rule printed_ok) (simp add: fd_ok_def)
  moreover have "length (concat (List.map (\<lambda>(n, fd). [n, string_of_int fd]) ps)) = 2 * length ps" for ps
    by (induction ps) auto
  ultimately have p: "length (split_at_char CHR '':'' ?val) div 2 = length ?fds"
    using n by (simp add: split_fds_text get_journal_names_def)
  have t: "?tab = [(5, Ko_eventfd 5), (6, Ko_eventfd 6), (7, Ko_eventfd 7), (8, Ko_eventfd 8), (9, Ko_eventfd 9), (10, Ko_eventfd 10)]"
    by (simp add: upt_rec)
  obtain s where s: "(pass_step 1024)\<^sup>*\<^sup>* (pass_start ?tab ?fds (\<lambda>i. [(0, Ko_socket 9)]) (length (split_at_char CHR '':'' ?val))) s"
    "cl_progress (ps_clients s 3) = Fixed"
    using client_served [of ?fds ?tab "\<lambda>i. [(0, Ko_socket 9)]" 3 1024, OF _ _ p] unfolding t by auto
  from descriptors_passed [OF s(1) refl sample_journals_distinct _ _ _ s(2)] n
  have "\<exists>m. fds_of_file ?val (cl_received (ps_clients s 3)) = Value m \<and>
    (\<forall>k < length ?fds. \<exists>fd ob. posted m (get_journals sample_cfg ! k) = Some fd \<and>
       map_of (cl_table (ps_clients s 3)) fd = Some ob \<and> map_of ?tab (?fds ! k) = Some ob)"
    by (simp add: fd_ok_def)
  then obtain m where m: "fds_of_file ?val (cl_received (ps_clients s 3)) = Value m"
    "\<forall>k < length ?fds. \<exists>fd ob. posted m (get_journals sample_cfg ! k) = Some fd \<and>
       map_of (cl_table (ps_clients s 3)) fd = Some ob \<and> map_of ?tab (?fds ! k) = Some ob"
    by blast
  have "2 < length ?fds" by simp
  then obtain fd ob where "posted m (get_journals sample_cfg ! 2) = Some fd" "map_of (cl_table (ps_clients s 3)) fd = Some ob"
    "map_of ?tab (?fds ! 2) = Some ob"
    using m(2) by blast
  moreover from this(3) have "ob = Ko_eventfd 7" unfolding t by simp
  ultimately show ?thesis using s(1) m(1) by blast
qed

text \<open>A client that fails keeps its socket: nothing on the way of the exceptions closes it.\<close>

lemma failed_client_keeps_socket:
  assumes "fix_turn max_fds c [] = (c', flight)" "cl_sock c \<in> fst ` set (cl_table c)"
  shows "cl_progress c' = Fix_failed" "cl_sock c' \<in> fst ` set (cl_table c')"
proof -
  have "c' = c\<lparr> cl_progress := Fix_failed \<rparr>" using assms(1) by (simp add: fix_turn_def recv_fd_def)
  then show "cl_progress c' = Fix_failed" "cl_sock c' \<in> fst ` set (cl_table c')" using assms(2) by simp_all
qed

end
