(* ===== verification/SharedMem.thy ===== *)
theory SharedMem
  imports Prelude
begin

text \<open>
  Messages through shared memory (src/infra/mem_ipc.hpp, mem_ipc.cpp, bimem_ipc.hpp, bimem_ipc.cpp): a channel of
  one message with a semaphore, the pair of channels each of two processes has, and calls from one process to the
  other as a step relation.

  What both processes see of a channel is a \<open>Region\<close>: the length in its first word, the bytes behind it
  and the count of the semaphore. A pointer into it is its offset, the word of the length included. The semaphore
  is modelled by its documented behaviour; a wait on a count of 0 is not enabled. Writing behind the end of the
  region is \<open>None\<close>. Opening the region and its failures, which throw, are left out.
\<close>

section \<open>A channel\<close>

record Region =
  rg_len :: nat
  rg_data :: "u8 list"
  rg_sem :: nat

definition SIZE_T :: nat where
  "SIZE_T = 8"

record MemIPC =
  mi_mem_size :: nat
  mi_remain_size :: nat
  mi_open_data_len :: nat

definition MemIPC_new :: "nat \<Rightarrow> MemIPC" where
  "MemIPC_new MemSize = \<lparr> mi_mem_size = MemSize + SIZE_T, mi_remain_size = MemSize + SIZE_T, mi_open_data_len = 0 \<rparr>"

definition Region_new :: "nat \<Rightarrow> Region" where
  "Region_new MemSize = \<lparr> rg_len = 0, rg_data = replicate MemSize 0, rg_sem = 0 \<rparr>"

definition usedSize :: "MemIPC \<Rightarrow> nat" where
  "usedSize m = mi_mem_size m - mi_remain_size m + SIZE_T"

text \<open>\<open>read\<close> gives an offset and a length; what is there is read through them.\<close>

definition mem_read :: "MemIPC \<Rightarrow> Region \<Rightarrow> ((nat \<times> nat) \<times> Region) option" where
  "mem_read m r = (case rg_sem r of 0 \<Rightarrow> None | Suc n \<Rightarrow> Some ((usedSize m, rg_len r), r\<lparr> rg_sem := n \<rparr>))"

definition openData :: "nat \<Rightarrow> MemIPC \<Rightarrow> (nat \<times> MemIPC) option" where
  "openData Len m =
     (if mi_open_data_len m \<noteq> 0 \<or> mi_remain_size m < Len \<or> Len = 0 then None
      else Some (usedSize m, m\<lparr> mi_open_data_len := Len \<rparr>))"

definition closeData :: "nat \<Rightarrow> MemIPC \<Rightarrow> Region \<Rightarrow> (MemIPC \<times> Region) option" where
  "closeData Len m r =
     (if Len \<noteq> mi_open_data_len m then None
      else Some (m\<lparr> mi_open_data_len := 0 \<rparr>, r\<lparr> rg_len := mi_open_data_len m, rg_sem := Suc (rg_sem r) \<rparr>))"

text \<open>What the user does with the pointers: filling from one, and taking the bytes at the other.\<close>

definition fill_region :: "nat \<Rightarrow> u8 list \<Rightarrow> Region \<Rightarrow> Region option" where
  "fill_region adr bytes r =
     (if adr < SIZE_T \<or> length (rg_data r) < adr - SIZE_T + length bytes then None
      else Some (r\<lparr> rg_data := take (adr - SIZE_T) (rg_data r) @ bytes @ drop (adr - SIZE_T + length bytes) (rg_data r) \<rparr>))"

definition bytes_at :: "nat \<times> nat \<Rightarrow> Region \<Rightarrow> u8 list" where
  "bytes_at = (\<lambda>(adr, len) r. take len (drop (adr - SIZE_T) (rg_data r)))"

section \<open>Two processes\<close>

text \<open>
  \<open>BiMemIPC\<close>: a channel to read and one to write. One process calls: it fills its channel, and
  \<open>syncFinishData\<close> closes it and reads the answer. The other waits for requests and answers each with what
  \<open>serve\<close> gives.
\<close>

datatype CallPhase = Ph_Ready | Ph_Got "u8 list" | Ph_Opened nat "u8 list" | Ph_Filled "u8 list" | Ph_Blocked

record BiMemIPC =
  bi_read :: MemIPC
  bi_write :: MemIPC

definition BiMemIPC_new :: "nat \<Rightarrow> nat \<Rightarrow> BiMemIPC" where
  "BiMemIPC_new ReadSize WriteSize = \<lparr> bi_read = MemIPC_new ReadSize, bi_write = MemIPC_new WriteSize \<rparr>"

definition bi_openData :: "nat \<Rightarrow> BiMemIPC \<Rightarrow> (nat \<times> BiMemIPC) option" where
  "bi_openData Len b = map_option (\<lambda>(adr, m). (adr, b\<lparr> bi_write := m \<rparr>)) (openData Len (bi_write b))"

definition finishData :: "nat \<Rightarrow> BiMemIPC \<Rightarrow> Region \<Rightarrow> (BiMemIPC \<times> Region) option" where
  "finishData Len b r = map_option (\<lambda>(m, r). (b\<lparr> bi_write := m \<rparr>, r)) (closeData Len (bi_write b) r)"

definition bi_read_data :: "BiMemIPC \<Rightarrow> Region \<Rightarrow> ((nat \<times> nat) \<times> Region) option" where
  "bi_read_data b r = mem_read (bi_read b) r"

record Calls =
  ca_up :: Region
  ca_down :: Region
  ca_client :: BiMemIPC
  ca_server :: BiMemIPC
  ca_cphase :: CallPhase
  ca_sphase :: CallPhase
  ca_todo :: "u8 list list"
  ca_answers :: "u8 list list"

inductive call_step :: "(u8 list \<Rightarrow> u8 list) \<Rightarrow> Calls \<Rightarrow> Calls \<Rightarrow> bool" for serve where
  client_opens: "\<lbrakk> ca_cphase s = Ph_Ready; ca_todo s = q # qs; bi_openData (length q) (ca_client s) = Some (adr, b) \<rbrakk> \<Longrightarrow>
    call_step serve s (s\<lparr> ca_client := b, ca_cphase := Ph_Opened adr q \<rparr>)"
| client_fills: "\<lbrakk> ca_cphase s = Ph_Opened adr q; fill_region adr q (ca_up s) = Some r \<rbrakk> \<Longrightarrow>
    call_step serve s (s\<lparr> ca_up := r, ca_cphase := Ph_Filled q \<rparr>)"
| client_syncs: "\<lbrakk> ca_cphase s = Ph_Filled q; finishData (length q) (ca_client s) (ca_up s) = Some (b, r) \<rbrakk> \<Longrightarrow>
    call_step serve s (s\<lparr> ca_client := b, ca_up := r, ca_cphase := Ph_Blocked, ca_todo := tl (ca_todo s) \<rparr>)"
| client_reads: "\<lbrakk> ca_cphase s = Ph_Blocked; bi_read_data (ca_client s) (ca_down s) = Some (d, r) \<rbrakk> \<Longrightarrow>
    call_step serve s (s\<lparr> ca_down := r, ca_cphase := Ph_Ready, ca_answers := ca_answers s @ [bytes_at d r] \<rparr>)"
| server_reads: "\<lbrakk> ca_sphase s = Ph_Blocked; bi_read_data (ca_server s) (ca_up s) = Some (d, r) \<rbrakk> \<Longrightarrow>
    call_step serve s (s\<lparr> ca_up := r, ca_sphase := Ph_Got (bytes_at d r) \<rparr>)"
| server_opens: "\<lbrakk> ca_sphase s = Ph_Got q; bi_openData (length (serve q)) (ca_server s) = Some (adr, b) \<rbrakk> \<Longrightarrow>
    call_step serve s (s\<lparr> ca_server := b, ca_sphase := Ph_Opened adr (serve q) \<rparr>)"
| server_fills: "\<lbrakk> ca_sphase s = Ph_Opened adr a; fill_region adr a (ca_down s) = Some r \<rbrakk> \<Longrightarrow>
    call_step serve s (s\<lparr> ca_down := r, ca_sphase := Ph_Filled a \<rparr>)"
| server_finishes: "\<lbrakk> ca_sphase s = Ph_Filled a; finishData (length a) (ca_server s) (ca_down s) = Some (b, r) \<rbrakk> \<Longrightarrow>
    call_step serve s (s\<lparr> ca_server := b, ca_down := r, ca_sphase := Ph_Blocked \<rparr>)"

inductive_cases call_stepE: "call_step serve s s'"

definition calls_start :: "nat \<Rightarrow> nat \<Rightarrow> u8 list list \<Rightarrow> Calls" where
  "calls_start up down requests =
     \<lparr> ca_up = Region_new up, ca_down = Region_new down, ca_client = BiMemIPC_new down up, ca_server = BiMemIPC_new up down,
       ca_cphase = Ph_Ready, ca_sphase = Ph_Blocked, ca_todo = requests, ca_answers = [] \<rparr>"

section \<open>One message\<close>

definition steady :: "MemIPC \<Rightarrow> bool" where
  "steady m \<longleftrightarrow> mi_remain_size m = mi_mem_size m"

lemma steady_ops:
  "steady (MemIPC_new n)" "steady m \<Longrightarrow> usedSize m = SIZE_T"
  "openData Len m = Some (adr, m') \<Longrightarrow> steady m' = steady m" "closeData Len m r = Some (m', r') \<Longrightarrow> steady m' = steady m"
  by (auto simp: steady_def MemIPC_new_def usedSize_def openData_def closeData_def split: if_splits)

definition holds_bytes :: "Region \<Rightarrow> u8 list \<Rightarrow> bool" where
  "holds_bytes r q \<longleftrightarrow> take (length q) (rg_data r) = q"

lemma fill_holds: "fill_region SIZE_T q r = Some r' \<Longrightarrow> holds_bytes r' q \<and> rg_len r' = rg_len r \<and> rg_sem r' = rg_sem r"
  by (auto simp: fill_region_def holds_bytes_def split: if_splits)

lemma bytes_held: "holds_bytes r q \<Longrightarrow> bytes_at (SIZE_T, length q) r = q"
  by (simp add: bytes_at_def holds_bytes_def)

lemma bytes_at_sem [simp]: "bytes_at d (r\<lparr> rg_sem := n \<rparr>) = bytes_at d r"
  by (simp add: bytes_at_def split: prod.splits)

text \<open>
  The size that is admitted is greater than that of the region by the word of the length: a message of such a
  size is written behind the end. And closing without opening posts an empty message.
\<close>

lemma open_admits_too_much:
  "\<exists>adr m. openData (MemSize + SIZE_T) (MemIPC_new MemSize) = Some (adr, m) \<and>
     fill_region adr (replicate (MemSize + SIZE_T) 0) (Region_new MemSize) = None"
  by (auto simp: openData_def MemIPC_new_def usedSize_def fill_region_def Region_new_def SIZE_T_def)

lemma close_unopened: "closeData 0 (MemIPC_new n) r = Some (MemIPC_new n, r\<lparr> rg_len := 0, rg_sem := Suc (rg_sem r) \<rparr>)"
  by (simp add: closeData_def MemIPC_new_def)

text \<open>Two messages that are not waited for: the reader gets the second one twice.\<close>

lemma unread_message_lost:
  assumes "steady m" "mi_open_data_len m = 0" "length q = length q'" "q' \<noteq> []" "length q \<le> length (rg_data r)" "length q \<le> mi_remain_size m"
  shows "\<exists>m1 r1 r2 m2 r3 r4 m4 r5 d r6 r7.
    openData (length q) m = Some (SIZE_T, m1) \<and> fill_region SIZE_T q r = Some r1 \<and> closeData (length q) m1 r1 = Some (m2, r2) \<and>
    openData (length q') m2 = Some (SIZE_T, m4) \<and> fill_region SIZE_T q' r2 = Some r3 \<and> closeData (length q') m4 r3 = Some (m, r4) \<and>
    mem_read m r4 = Some (d, r5) \<and> bytes_at d r5 = q' \<and> mem_read m r5 = Some (d, r6) \<and> bytes_at d r6 = q'"
proof -
  have "q \<noteq> []" using assms(3,4) by auto
  then show ?thesis
    using assms by (cases m) (auto simp: steady_def openData_def usedSize_def fill_region_def closeData_def mem_read_def bytes_at_def)
qed


section \<open>Calls\<close>

text \<open>The turns of a call, with the requests answered so far: one process acts, or one channel holds a message.\<close>

definition quiet :: "Region \<Rightarrow> bool" where
  "quiet r \<longleftrightarrow> rg_sem r = 0"

definition delivers :: "Region \<Rightarrow> u8 list \<Rightarrow> bool" where
  "delivers r q \<longleftrightarrow> rg_sem r = 1 \<and> rg_len r = length q \<and> holds_bytes r q"

definition writes :: "Region \<Rightarrow> BiMemIPC \<Rightarrow> nat \<Rightarrow> bool" where
  "writes r b n \<longleftrightarrow> rg_sem r = 0 \<and> mi_open_data_len (bi_write b) = n"

inductive turn :: "(u8 list \<Rightarrow> u8 list) \<Rightarrow> u8 list list \<Rightarrow> Calls \<Rightarrow> bool" for serve reqs where
  "\<lbrakk> ca_cphase s = Ph_Ready; ca_sphase s = Ph_Blocked; quiet (ca_up s); quiet (ca_down s); reqs = answered @ ca_todo s;
     ca_answers s = List.map serve answered \<rbrakk> \<Longrightarrow> turn serve reqs s"
| "\<lbrakk> ca_cphase s = Ph_Opened SIZE_T q; ca_sphase s = Ph_Blocked; quiet (ca_up s); quiet (ca_down s); ca_todo s = q # rest;
     reqs = answered @ q # rest; ca_answers s = List.map serve answered; mi_open_data_len (bi_write (ca_client s)) = length q \<rbrakk>
   \<Longrightarrow> turn serve reqs s"
| "\<lbrakk> ca_cphase s = Ph_Filled q; ca_sphase s = Ph_Blocked; quiet (ca_up s); quiet (ca_down s); ca_todo s = q # rest; holds_bytes (ca_up s) q;
     reqs = answered @ q # rest; ca_answers s = List.map serve answered; mi_open_data_len (bi_write (ca_client s)) = length q \<rbrakk>
   \<Longrightarrow> turn serve reqs s"
| "\<lbrakk> ca_cphase s = Ph_Blocked; ca_sphase s = Ph_Blocked; delivers (ca_up s) q; quiet (ca_down s);
     reqs = answered @ q # ca_todo s; ca_answers s = List.map serve answered \<rbrakk> \<Longrightarrow> turn serve reqs s"
| "\<lbrakk> ca_cphase s = Ph_Blocked; ca_sphase s = Ph_Got q; quiet (ca_up s); quiet (ca_down s);
     reqs = answered @ q # ca_todo s; ca_answers s = List.map serve answered \<rbrakk> \<Longrightarrow> turn serve reqs s"
| "\<lbrakk> ca_cphase s = Ph_Blocked; ca_sphase s = Ph_Opened SIZE_T (serve q); quiet (ca_up s); quiet (ca_down s);
     reqs = answered @ q # ca_todo s; ca_answers s = List.map serve answered; mi_open_data_len (bi_write (ca_server s)) = length (serve q) \<rbrakk>
   \<Longrightarrow> turn serve reqs s"
| "\<lbrakk> ca_cphase s = Ph_Blocked; ca_sphase s = Ph_Filled (serve q); quiet (ca_up s); quiet (ca_down s); holds_bytes (ca_down s) (serve q);
     reqs = answered @ q # ca_todo s; ca_answers s = List.map serve answered; mi_open_data_len (bi_write (ca_server s)) = length (serve q) \<rbrakk>
   \<Longrightarrow> turn serve reqs s"
| "\<lbrakk> ca_cphase s = Ph_Blocked; ca_sphase s = Ph_Blocked; quiet (ca_up s); delivers (ca_down s) (serve q);
     reqs = answered @ q # ca_todo s; ca_answers s = List.map serve answered \<rbrakk> \<Longrightarrow> turn serve reqs s"

definition steady_ends :: "Calls \<Rightarrow> bool" where
  "steady_ends s \<longleftrightarrow> steady (bi_read (ca_client s)) \<and> steady (bi_write (ca_client s)) \<and>
     steady (bi_read (ca_server s)) \<and> steady (bi_write (ca_server s))"

lemma bi_ops:
  "bi_openData n b = Some (adr, b') \<Longrightarrow> steady (bi_write b) \<Longrightarrow>
     adr = SIZE_T \<and> mi_open_data_len (bi_write b') = n \<and> bi_read b' = bi_read b \<and> steady (bi_write b')"
  "finishData n b r = Some (b', r') \<Longrightarrow> bi_read b' = bi_read b \<and> steady (bi_write b') = steady (bi_write b) \<and>
     mi_open_data_len (bi_write b) = n \<and> rg_len r' = n \<and> rg_data r' = rg_data r \<and> rg_sem r' = Suc (rg_sem r)"
  "bi_read_data b r = Some (d, r') \<Longrightarrow> steady (bi_read b) \<Longrightarrow>
     0 < rg_sem r \<and> d = (SIZE_T, rg_len r) \<and> r' = r\<lparr> rg_sem := rg_sem r - 1 \<rparr>"
  by (auto simp: bi_openData_def openData_def finishData_def closeData_def bi_read_data_def mem_read_def steady_def usedSize_def
      split: if_splits nat.splits)

lemma steady_step: "steady_ends s \<Longrightarrow> call_step serve s s' \<Longrightarrow> steady_ends s'"
  by (erule call_stepE) (auto simp: steady_ends_def dest: bi_ops)

lemma holds_cong: "rg_data r = rg_data r' \<Longrightarrow> holds_bytes r q = holds_bytes r' q"
  by (simp add: holds_bytes_def)

lemma turn_step:
  assumes "turn serve reqs s" "steady_ends s" "call_step serve s s'"
  shows "turn serve reqs s'"
  using assms(3)
proof cases
  case (client_opens q qs adr b)
  then show ?thesis
    using assms(1,2) bi_ops(1) [OF client_opens(4)]
    by (elim turn.cases) (auto simp: steady_ends_def intro!: turn.intros(2))
next
  case (client_fills adr q r)
  then show ?thesis
    using assms(1) by (elim turn.cases) (auto simp: quiet_def dest!: fill_holds intro!: turn.intros(3))
next
  case (client_syncs q b r)
  then show ?thesis
    using assms(1) bi_ops(2) [OF client_syncs(3)]
    by (elim turn.cases) (auto simp: quiet_def delivers_def holds_bytes_def intro!: turn.intros(4))
next
  case (client_reads d r)
  then show ?thesis
    using assms(1,2) bi_ops(3) [OF client_reads(3)]
    by (elim turn.cases) (auto simp: quiet_def delivers_def steady_ends_def bytes_held intro!: turn.intros(1))
next
  case (server_reads d r)
  then show ?thesis
    using assms(1,2) bi_ops(3) [OF server_reads(3)]
    by (elim turn.cases) (auto simp: quiet_def delivers_def steady_ends_def bytes_held intro!: turn.intros(5))
next
  case (server_opens q adr b)
  then show ?thesis
    using assms(1,2) bi_ops(1) [OF server_opens(3)]
    by (elim turn.cases) (auto simp: steady_ends_def intro!: turn.intros(6))
next
  case (server_fills adr a r)
  then show ?thesis
    using assms(1) by (elim turn.cases) (auto simp: quiet_def dest!: fill_holds intro!: turn.intros(7))
next
  case (server_finishes a b r)
  then show ?thesis
    using assms(1) bi_ops(2) [OF server_finishes(3)]
    by (elim turn.cases) (auto simp: quiet_def delivers_def holds_bytes_def intro!: turn.intros(8))
qed

lemma turn_reachable:
  assumes "(call_step serve)\<^sup>*\<^sup>* (calls_start up down reqs) s"
  shows "turn serve reqs s \<and> steady_ends s"
  using assms
proof (induction rule: rtranclp_induct)
  case base
  show ?case
    by (auto simp: calls_start_def BiMemIPC_new_def Region_new_def quiet_def steady_ends_def steady_ops intro!: turn.intros(1))
next
  case (step s s')
  then show ?case using turn_step steady_step by blast
qed


text \<open>A message that fits the channels can be written, and nothing is open but the message being written.\<close>

definition is_writing :: "CallPhase \<Rightarrow> bool" where
  "is_writing p \<longleftrightarrow> (case p of Ph_Opened _ _ \<Rightarrow> True | Ph_Filled _ \<Rightarrow> True | _ \<Rightarrow> False)"

definition sized :: "nat \<Rightarrow> nat \<Rightarrow> Calls \<Rightarrow> bool" where
  "sized up down s \<longleftrightarrow>
     length (rg_data (ca_up s)) = up \<and> length (rg_data (ca_down s)) = down \<and>
     mi_remain_size (bi_write (ca_client s)) = up + SIZE_T \<and> mi_remain_size (bi_write (ca_server s)) = down + SIZE_T \<and>
     (\<not> is_writing (ca_cphase s) \<longrightarrow> mi_open_data_len (bi_write (ca_client s)) = 0) \<and>
     (\<not> is_writing (ca_sphase s) \<longrightarrow> mi_open_data_len (bi_write (ca_server s)) = 0)"

lemma sized_ops:
  "bi_openData n b = Some (adr, b') \<Longrightarrow> mi_remain_size (bi_write b') = mi_remain_size (bi_write b)"
  "finishData n b r = Some (b', r') \<Longrightarrow> mi_remain_size (bi_write b') = mi_remain_size (bi_write b) \<and>
     mi_open_data_len (bi_write b') = 0 \<and> length (rg_data r') = length (rg_data r)"
  "bi_read_data b r = Some (d, r') \<Longrightarrow> length (rg_data r') = length (rg_data r)"
  "fill_region adr q r = Some r' \<Longrightarrow> length (rg_data r') = length (rg_data r)"
  by (auto simp: bi_openData_def openData_def finishData_def closeData_def bi_read_data_def mem_read_def fill_region_def
      split: if_splits nat.splits)

lemma sized_step: "sized up down s \<Longrightarrow> call_step serve s s' \<Longrightarrow> sized up down s'"
  by (erule call_stepE) (auto simp: sized_def is_writing_def dest: sized_ops)

lemma sized_reachable: "(call_step serve)\<^sup>*\<^sup>* (calls_start up down reqs) s \<Longrightarrow> sized up down s"
proof (induction rule: rtranclp_induct)
  case base
  show ?case by (simp add: sized_def calls_start_def BiMemIPC_new_def MemIPC_new_def Region_new_def is_writing_def)
qed (use sized_step in blast)

lemma can_open:
  "\<lbrakk> steady (bi_write b); mi_open_data_len (bi_write b) = 0; q \<noteq> []; length q \<le> mi_remain_size (bi_write b) \<rbrakk> \<Longrightarrow>
   bi_openData (length q) b = Some (SIZE_T, b\<lparr> bi_write := (bi_write b)\<lparr> mi_open_data_len := length q \<rparr> \<rparr>)"
  by (auto simp: bi_openData_def openData_def usedSize_def steady_def)

lemma can_fill: "length q \<le> length (rg_data r) \<Longrightarrow> \<exists>r'. fill_region SIZE_T q r = Some r'"
  by (simp add: fill_region_def)

lemma can_finish: "mi_open_data_len (bi_write b) = n \<Longrightarrow> \<exists>b' r'. finishData n b r = Some (b', r')"
  by (simp add: finishData_def closeData_def)

lemma can_read: "delivers r q \<Longrightarrow> \<exists>d r'. bi_read_data b r = Some (d, r')"
  by (simp add: bi_read_data_def mem_read_def delivers_def)

definition fits_channels :: "nat \<Rightarrow> nat \<Rightarrow> (u8 list \<Rightarrow> u8 list) \<Rightarrow> u8 list list \<Rightarrow> bool" where
  "fits_channels up down serve reqs \<longleftrightarrow>
     list_all (\<lambda>q. q \<noteq> [] \<and> length q \<le> up \<and> serve q \<noteq> [] \<and> length (serve q) \<le> down) reqs"

lemma call_progress:
  assumes "turn serve reqs s" "steady_ends s" "sized up down s" "fits_channels up down serve reqs"
  shows "(\<exists>s'. call_step serve s s') \<or> ca_answers s = List.map serve reqs"
  using assms(1)
proof cases
  case (1 answered)
  show ?thesis
  proof (cases "ca_todo s")
    case (Cons q qs)
    then have "bi_openData (length q) (ca_client s) \<noteq> None"
      using 1 assms(2,3,4) can_open [of "ca_client s" q]
      by (auto simp: steady_ends_def sized_def is_writing_def fits_channels_def)
    then show ?thesis using client_opens [OF 1(1) Cons] by fastforce
  qed (use 1 in simp)
next
  case (2 q rest answered)
  then have "length q \<le> length (rg_data (ca_up s))" using assms(3,4) by (auto simp: sized_def fits_channels_def)
  then show ?thesis using client_fills [OF 2(1)] can_fill by blast
next
  case (3 q rest answered)
  then show ?thesis using client_syncs [OF 3(1)] can_finish by blast
next
  case (4 q answered)
  then show ?thesis using server_reads [OF 4(2)] can_read by blast
next
  case (5 q answered)
  then have "bi_openData (length (serve q)) (ca_server s) \<noteq> None"
    using assms(2,3,4) can_open [of "ca_server s" "serve q"]
    by (auto simp: steady_ends_def sized_def is_writing_def fits_channels_def)
  then show ?thesis using server_opens [OF 5(2)] by fastforce
next
  case (6 q answered)
  then have "length (serve q) \<le> length (rg_data (ca_down s))" using assms(3,4) by (auto simp: sized_def fits_channels_def)
  then show ?thesis using server_fills [OF 6(2)] can_fill by blast
next
  case (7 q answered)
  then show ?thesis using server_finishes [OF 7(2)] can_finish by blast
next
  case (8 q answered)
  then show ?thesis using client_reads [OF 8(1)] can_read by blast
qed

lemma turn_answers: "turn serve reqs s \<Longrightarrow> ca_answers s = List.map serve (take (length (ca_answers s)) reqs)"
  by (erule turn.cases) auto

text \<open>C33: a call through shared memory is a call. However the two processes interleave, the caller has at every
  moment got the answers to its first requests, in order, each the one the other process gives to that request;
  and when requests and answers are not empty and fit their channels, the two are never stuck before every request is
  answered.\<close>

theorem calls_answered:
  assumes "(call_step serve)\<^sup>*\<^sup>* (calls_start up down reqs) s"
  shows "ca_answers s = List.map serve (take (length (ca_answers s)) reqs) \<and>
    (fits_channels up down serve reqs \<longrightarrow> (\<exists>s'. call_step serve s s') \<or> ca_answers s = List.map serve reqs)"
  using turn_reachable [OF assms] sized_reachable [OF assms] turn_answers call_progress by blast

lemma calls_answered_witness:
  "\<exists>s'. call_step rev (calls_start 4 4 [[1, 2], [3]]) s'"
  using calls_answered [OF rtranclp.rtrancl_refl, where serve = rev and up = 4 and down = 4 and reqs = "[[1, 2], [3]]"]
  by (auto simp: fits_channels_def calls_start_def)

end
