(* ===== verification/OsLayer.thy ===== *)
theory OsLayer
  imports FileData
begin

text \<open>
  The wrappers of the operating system (src/infra/mmap.cpp, dlhelper.cpp, signalhandler.cpp, socket.cpp): files
  mapped into memory, libraries, call-backs of signals, and the sockets of nanomsg. What a system call answers is an
  argument; what it does when it succeeds is its documented behaviour. \<open>Raised\<close> is an exception,
  \<open>Undefined\<close> an access outside an object.
\<close>

section \<open>Mapped files\<close>

text \<open>
  The answers of the calls \<open>load_mmap_buffer\<close> makes, and what they act on: the bytes of the file, and
  how many descriptors, mappings and locks of memory the process has.
\<close>

record Answers =
  an_open :: bool
  an_lseek :: bool
  an_write :: bool
  an_mmap :: bool
  an_madvise :: bool
  an_mlock :: bool

record Os =
  os_file :: "u8 list option"
  os_fds :: nat
  os_maps :: nat
  os_locks :: nat

text \<open>A byte 0 at \<open>size - 1\<close>; what is skipped of a shorter file is 0.\<close>

definition stretch :: "nat \<Rightarrow> u8 list \<Rightarrow> u8 list" where
  "stretch n bytes = take (n - 1) (bytes @ replicate n 0) @ 0 # drop n bytes"

definition bytes_of :: "Os \<Rightarrow> u8 list" where
  "bytes_of os = (case os_file os of None \<Rightarrow> [] | Some bytes \<Rightarrow> bytes)"

definition os_close :: "Os \<Rightarrow> Os" where
  "os_close os = os\<lparr> os_fds := os_fds os - 1 \<rparr>"

definition load_mmap_buffer :: "Answers \<Rightarrow> nat \<Rightarrow> bool \<Rightarrow> bool \<Rightarrow> Os \<Rightarrow> Os \<times> unit outcome" where
  "load_mmap_buffer an n is_writing lazy os =
     (let master = is_writing \<or> \<not> lazy
      in if \<not> an_open an then (os, Raised)
         else
           let os = os\<lparr> os_file := Some (bytes_of os), os_fds := Suc (os_fds os) \<rparr>
           in if master \<and> (n = 0 \<or> \<not> an_lseek an) then (os_close os, Raised)
              else if master \<and> \<not> an_write an then (os_close os, Raised)
              else
                let os = (if master then os\<lparr> os_file := Some (stretch n (bytes_of os)) \<rparr> else os)
                in if \<not> an_mmap an then (os_close os, Raised)
                   else
                     let os = os\<lparr> os_maps := Suc (os_maps os) \<rparr>;
                         locks = \<not> lazy \<and> \<not> an_madvise an
                     in if locks \<and> \<not> an_mlock an then (os_close (os\<lparr> os_maps := os_maps os - 1 \<rparr>), Raised)
                        else (os_close (os\<lparr> os_locks := os_locks os + (if locks then 1 else 0) \<rparr>), Value ()))"

text \<open>\<open>locked\<close> says whether the memory had been locked; \<open>munlock\<close> is called in both cases.\<close>

definition release_mmap_buffer :: "bool \<Rightarrow> bool \<Rightarrow> bool \<Rightarrow> bool \<Rightarrow> Os \<Rightarrow> Os \<times> bool" where
  "release_mmap_buffer an_munlock an_munmap locked lazy os =
     (if \<not> lazy \<and> \<not> an_munlock then (os, False)
      else
        let os = (if \<not> lazy \<and> locked then os\<lparr> os_locks := os_locks os - 1 \<rparr> else os)
        in if \<not> an_munmap then (os, False) else (os\<lparr> os_maps := os_maps os - 1 \<rparr>, True))"

lemma stretch_facts:
  assumes "0 < n"
  shows "length (stretch n bytes) = max n (length bytes)"
    "i \<noteq> n - 1 \<Longrightarrow> i < length bytes \<Longrightarrow> stretch n bytes ! i = bytes ! i"
    "length bytes \<le> i \<Longrightarrow> i < n \<Longrightarrow> stretch n bytes ! i = 0"
    "stretch n bytes ! (n - 1) = 0"
  using assms by (auto simp: stretch_def nth_append nth_Cons' min_def)

text \<open>
  In the usual case, where \<open>madvise\<close> succeeds, nothing is locked: the condition joins the two calls by a
  conjunction, so \<open>mlock\<close> is only tried when \<open>madvise\<close> has failed.
\<close>

lemma nothing_locked: "an_madvise an \<Longrightarrow> os_locks (fst (load_mmap_buffer an n is_writing lazy os)) = os_locks os"
  by (simp add: load_mmap_buffer_def os_close_def Let_def)

text \<open>A lazy reader makes a file that is not there, empty, and maps it: every access is then behind its end.\<close>

lemma lazy_reader_maps_nothing:
  assumes "an_open an" "an_mmap an" "os_file os = None"
  shows "load_mmap_buffer an n False True os = (os\<lparr> os_file := Some [], os_maps := Suc (os_maps os) \<rparr>, Value ())"
  using assms by (simp add: load_mmap_buffer_def os_close_def bytes_of_def Let_def)

text \<open>Loading a page keeps what is in it and leaks nothing. Whatever the system answers, no descriptor stays
  open, and a mapping stays exactly when an address is returned. A file that was there keeps its bytes but
  the last one of the page, which is set to 0, and does not shrink; a page that is mapped by a writer, or not
  lazily, has its full size, and new bytes are 0.\<close>

theorem page_mapped_safely:
  assumes "0 < n" "load_mmap_buffer an n is_writing lazy os = (os', res)"
  shows "os_fds os' = os_fds os \<and> res \<noteq> Undefined \<and>
    os_maps os' = os_maps os + (if res = Value () then 1 else 0) \<and>
    length (bytes_of os) \<le> length (bytes_of os') \<and>
    (\<forall>i < length (bytes_of os). i \<noteq> n - 1 \<longrightarrow> bytes_of os' ! i = bytes_of os ! i) \<and>
    (\<forall>i < length (bytes_of os'). length (bytes_of os) \<le> i \<longrightarrow> bytes_of os' ! i = 0) \<and>
    (res = Value () \<and> (is_writing \<or> \<not> lazy) \<longrightarrow> n \<le> length (bytes_of os'))"
proof -
  have "bytes_of os' = bytes_of os \<or> bytes_of os' = stretch n (bytes_of os)"
    and s: "res = Value () \<and> (is_writing \<or> \<not> lazy) \<longrightarrow> bytes_of os' = stretch n (bytes_of os)"
    and r: "os_fds os' = os_fds os" "res \<noteq> Undefined" "os_maps os' = os_maps os + (if res = Value () then 1 else 0)"
    using assms by (auto simp: load_mmap_buffer_def os_close_def bytes_of_def Let_def split: if_splits)
  then show ?thesis using stretch_facts [OF assms(1), where bytes = "bytes_of os"] by auto
qed

lemma page_mapped_safely_witness:
  "let (os, res) = load_mmap_buffer \<lparr> an_open = True, an_lseek = True, an_write = True, an_mmap = True, an_madvise = True, an_mlock = True \<rparr>
         4 True False \<lparr> os_file = Some [7, 8], os_fds = 3, os_maps = 0, os_locks = 0 \<rparr>
   in os_fds os = 3 \<and> res = Value () \<and> 4 \<le> length (bytes_of os)"
proof -
  let ?an = "\<lparr> an_open = True, an_lseek = True, an_write = True, an_mmap = True, an_madvise = True, an_mlock = True \<rparr>"
  let ?os = "\<lparr> os_file = Some [7, 8], os_fds = 3, os_maps = 0, os_locks = 0 \<rparr>"
  have r: "snd (load_mmap_buffer ?an 4 True False ?os) = Value ()" by (simp add: load_mmap_buffer_def Let_def)
  obtain os' res where l: "load_mmap_buffer ?an 4 True False ?os = (os', res)" by fastforce
  from page_mapped_safely [OF _ l] r l show ?thesis by simp
qed

text \<open>What was loaded is released again.\<close>

lemma load_release:
  assumes "load_mmap_buffer an n is_writing lazy os = (os', Value ())"
  shows "\<exists>bytes. release_mmap_buffer True True (\<not> lazy \<and> \<not> an_madvise an) lazy os' = (os\<lparr> os_file := Some bytes \<rparr>, True)"
  using assms by (auto simp: load_mmap_buffer_def release_mmap_buffer_def os_close_def Let_def split: if_splits)

section \<open>Libraries and signals\<close>

text \<open>\<open>DLHelper\<close>: the handles of the libraries, and the index of a library loaded.\<close>

definition dl_load :: "'h option \<Rightarrow> 'h list \<Rightarrow> int \<times> 'h list" where
  "dl_load dlopened handles =
     (case dlopened of None \<Rightarrow> (-1, handles) | Some h \<Rightarrow> (int (length (handles @ [h])) - 1, handles @ [h]))"

lemma dl_index: "dl_load (Some h) handles = (i, handles') \<Longrightarrow> 0 \<le> i \<and> handles' ! nat i = h \<and> take (length handles) handles' = handles"
  by (auto simp: dl_load_def)

text \<open>\<open>SignalHandler\<close>: the last one registered is the first to run.\<close>

type_synonym 'cb sig_cbs = "(int, 'cb list) omap"

definition register_to_filo :: "int \<Rightarrow> 'cb \<Rightarrow> 'cb sig_cbs \<Rightarrow> 'cb sig_cbs" where
  "register_to_filo signum cb m = omap_set signum (cb # (case omap_find m signum of None \<Rightarrow> [] | Some cbs \<Rightarrow> cbs)) m"

definition exec_sig_cbs :: "('cb \<Rightarrow> 's \<Rightarrow> 's) \<Rightarrow> int \<Rightarrow> 'cb sig_cbs \<Rightarrow> 's \<Rightarrow> 's" where
  "exec_sig_cbs run signum m = fold run (case omap_find m signum of None \<Rightarrow> [] | Some cbs \<Rightarrow> cbs)"

lemma sig_cbs_filo:
  "exec_sig_cbs run signum (fold (\<lambda>(n, cb). register_to_filo n cb) regs []) s =
     foldr (\<lambda>(n, cb). if n = signum then run cb else (\<lambda>s. s)) regs s"
proof (induction regs arbitrary: s rule: rev_induct)
  case (snoc r regs)
  obtain n cb where r: "r = (n, cb)" by fastforce
  show ?case
  proof (cases "n = signum")
    case True
    then show ?thesis using snoc.IH [of "run cb s"] by (simp add: r exec_sig_cbs_def register_to_filo_def)
  next
    case False
    then show ?thesis using snoc.IH [of s] by (simp add: r exec_sig_cbs_def register_to_filo_def)
  qed
qed (simp add: exec_sig_cbs_def)

section \<open>Sockets\<close>

text \<open>
  What \<open>nn_send\<close> and \<open>nn_recv\<close> give: an error, or the size of the message; a message longer
  than the buffer is cut, but its full size is returned.
\<close>

datatype NnError = EAGAIN | ETIMEDOUT | EINTR | Other_error

record Socket =
  so_url :: string
  so_buf :: string
  so_message :: string

definition so_bind :: "string \<Rightarrow> int \<Rightarrow> Socket \<Rightarrow> Socket \<times> int outcome" where
  "so_bind path rc s =
     (let s = s\<lparr> so_url := ''ipc://'' @ path \<rparr> in if rc < 0 then (s, Raised) else (s, Value rc))"

definition so_connect :: "string \<Rightarrow> int \<Rightarrow> Socket \<Rightarrow> Socket \<times> int outcome" where
  "so_connect path rc s =
     (let s = s\<lparr> so_url := ''ipc://'' @ path \<rparr> in if rc < 0 then (s, Raised) else (s, Value rc))"

definition so_send :: "NnError + nat \<Rightarrow> int outcome" where
  "so_send sent = (case sent of Inl EAGAIN \<Rightarrow> Value (-1) | Inl _ \<Rightarrow> Raised | Inr rc \<Rightarrow> Value (int rc))"

definition so_recv :: "NnError + string \<Rightarrow> Socket \<Rightarrow> (nat \<times> Socket) outcome" where
  "so_recv got s =
     (case got of
        Inl Other_error \<Rightarrow> Raised
      | Inl _ \<Rightarrow> Value (0, s\<lparr> so_message := [] \<rparr>)
      | Inr msg \<Rightarrow>
          let buf = take (length (so_buf s)) msg @ drop (length msg) (so_buf s); rc = length msg
          in if length buf < rc then Undefined else Value (rc, s\<lparr> so_buf := buf, so_message := take rc buf \<rparr>))"

definition recv_msg :: "NnError + string \<Rightarrow> Socket \<Rightarrow> (string \<times> Socket) outcome" where
  "recv_msg got s = then_do (so_recv got s) (\<lambda>(_, s). Value (so_message s, s))"

text \<open>
  A message that fits the buffer is received as it is; a longer one is read behind the end of the buffer. As no
  code gives the buffer a size, every message but the empty one is.
\<close>

lemma recv_msg_fits: "length msg \<le> length (so_buf s) \<Longrightarrow> \<exists>s'. recv_msg (Inr msg) s = Value (msg, s')"
  by (simp add: recv_msg_def so_recv_def Let_def)

lemma recv_msg_too_long: "length (so_buf s) < length msg \<Longrightarrow> recv_msg (Inr msg) s = Undefined"
  by (simp add: recv_msg_def so_recv_def Let_def)

lemma recv_msg_nothing: "e \<noteq> Other_error \<Longrightarrow> \<exists>s'. recv_msg (Inl e) s = Value ([], s')"
  by (cases e) (simp_all add: recv_msg_def so_recv_def)

end
