(* ===== verification/DateText.thy ===== *)
theory DateText
  imports Json FileData
begin

text \<open>
  Dates as text (\<open>time::strftime\<close> and \<open>time::strptime\<close> of src/infra/time.cpp), with nanoseconds as
  \<open>%N\<close>. What the C++ library does in the host's time zone is an argument: \<open>put_time\<close> prints a number of
  seconds by a format, \<open>get_time\<close> reads one. In \<open>strptime\<close> the loop over the groups of nine digits assigns the very text
  its iterator runs over, so a text with such a group is \<open>Undefined\<close>.
\<close>

section \<open>Formats\<close>

fun has_N :: "string \<Rightarrow> bool" where
  "has_N (c # d # cs) \<longleftrightarrow> (c = CHR ''%'' \<and> d = CHR ''N'') \<or> has_N (d # cs)"
| "has_N _ \<longleftrightarrow> False"

fun replace_N :: "string \<Rightarrow> string \<Rightarrow> string" where
  "replace_N s (c # d # cs) = (if c = CHR ''%'' \<and> d = CHR ''N'' then s @ replace_N s cs else c # replace_N s (d # cs))"
| "replace_N s cs = cs"

definition is_digit :: "char \<Rightarrow> bool" where
  "is_digit c \<longleftrightarrow> c \<in> set ''0123456789''"

fun has_nine_digits :: "string \<Rightarrow> bool" where
  "has_nine_digits [] \<longleftrightarrow> False"
| "has_nine_digits (c # cs) \<longleftrightarrow> (9 \<le> length (c # cs) \<and> list_all is_digit (take 9 (c # cs))) \<or> has_nine_digits cs"

text \<open>The format \<open>{:09d}\<close>, a sign counted.\<close>

definition nine_wide :: "int \<Rightarrow> string" where
  "nine_wide n =
     (let digits = string_of_int (abs n); width = (if n < 0 then 8 else 9)
      in (if n < 0 then ''-'' else []) @ replicate (width - length digits) CHR ''0'' @ digits)"

definition digits_to :: "char \<Rightarrow> string \<Rightarrow> string" where
  "digits_to d s = List.map (\<lambda>c. if is_digit c then d else c) s"

section \<open>Printing and reading\<close>

definition INT64_MAX :: int where
  "INT64_MAX = 2 ^ 63 - 1"

definition nanos_of :: "TimeUnit \<Rightarrow> int \<Rightarrow> int" where
  "nanos_of unit timestamp =
     (case unit of NANO \<Rightarrow> timestamp | MILLI \<Rightarrow> timestamp * NANOSECONDS_PER_MILLISECOND | SEC \<Rightarrow> timestamp * NANOSECONDS_PER_SECOND)"

definition strftime :: "(int \<Rightarrow> string \<Rightarrow> string) \<Rightarrow> TimeUnit \<Rightarrow> int \<Rightarrow> string \<Rightarrow> string" where
  "strftime put_time unit timestamp format =
     (if timestamp = INT64_MAX then ''end of world''
      else
        let nanotime = nanos_of unit timestamp;
            time_since_epoch = nanotime sdiv NANOSECONDS_PER_SECOND;
            normal_format = (if has_N format then replace_N (nine_wide (nanotime smod NANOSECONDS_PER_SECOND)) format else format);
            oss = put_time time_since_epoch normal_format
        in if nanotime > 0 then oss else if nanotime = 0 then digits_to CHR ''0'' oss else digits_to CHR ''#'' oss)"

definition strptime :: "(string \<Rightarrow> string \<Rightarrow> int) \<Rightarrow> TimeUnit \<Rightarrow> string \<Rightarrow> string \<Rightarrow> int outcome" where
  "strptime get_time unit time_string format =
     (if has_N format \<and> has_nine_digits time_string then Undefined
      else
        let parsed_time = get_time (if has_N format then replace_N [] format else format) time_string
        in Value (case unit of
                    NANO \<Rightarrow> parsed_time * NANOSECONDS_PER_SECOND
                  | MILLI \<Rightarrow> parsed_time * MILLISECONDS_PER_SECOND
                  | SEC \<Rightarrow> parsed_time))"

fun strptime_any ::
    "(int \<Rightarrow> string \<Rightarrow> string) \<Rightarrow> (string \<Rightarrow> string \<Rightarrow> int) \<Rightarrow> TimeUnit \<Rightarrow> string \<Rightarrow> string list \<Rightarrow> int outcome" where
  "strptime_any put_time get_time unit time_string [] = Value (-1)"
| "strptime_any put_time get_time unit time_string (format # formats) =
     then_do (strptime get_time unit time_string format) (\<lambda>t.
       if strftime put_time unit t format = time_string then Value t
       else strptime_any put_time get_time unit time_string formats)"

section \<open>What is read back\<close>

text \<open>The part of a time that a text without nanoseconds keeps.\<close>

definition to_second :: "TimeUnit \<Rightarrow> int \<Rightarrow> int" where
  "to_second unit timestamp =
     (case unit of
        NANO \<Rightarrow> timestamp - timestamp mod NANOSECONDS_PER_SECOND
      | MILLI \<Rightarrow> timestamp - timestamp mod MILLISECONDS_PER_SECOND
      | SEC \<Rightarrow> timestamp)"

lemma nanos_div:
  "0 < timestamp \<Longrightarrow> nanos_of unit timestamp sdiv NANOSECONDS_PER_SECOND =
     (case unit of NANO \<Rightarrow> timestamp div 1000000000 | MILLI \<Rightarrow> timestamp div 1000 | SEC \<Rightarrow> timestamp)"
  by (cases unit) (simp_all add: nanos_of_def time_consts signed_divide_int_def)

text \<open>
  A time after the epoch is printed by a format that says the second and read back by it: exactly what is below
  the second is lost. The library's promise is that reading inverts printing for the format.
\<close>

theorem date_text_roundtrip:
  assumes "\<And>t. 0 \<le> t \<Longrightarrow> get_time format (put_time t format) = t" "\<not> has_N format" "0 < timestamp" "timestamp \<noteq> INT64_MAX"
  shows "strptime get_time unit (strftime put_time unit timestamp format) format = Value (to_second unit timestamp)"
proof -
  have "0 < nanos_of unit timestamp" using assms(3) by (cases unit) (simp_all add: nanos_of_def time_consts)
  then have s: "strftime put_time unit timestamp format = put_time (nanos_of unit timestamp sdiv NANOSECONDS_PER_SECOND) format"
    using assms(2,4) by (simp add: strftime_def Let_def)
  have "0 \<le> nanos_of unit timestamp sdiv NANOSECONDS_PER_SECOND"
    unfolding nanos_div [OF assms(3)] using assms(3) by (cases unit) simp_all
  then have "strptime get_time unit (strftime put_time unit timestamp format) format =
      Value (case unit of
                    NANO \<Rightarrow> (nanos_of unit timestamp sdiv NANOSECONDS_PER_SECOND) * NANOSECONDS_PER_SECOND
                  | MILLI \<Rightarrow> (nanos_of unit timestamp sdiv NANOSECONDS_PER_SECOND) * MILLISECONDS_PER_SECOND
                  | SEC \<Rightarrow> nanos_of unit timestamp sdiv NANOSECONDS_PER_SECOND)"
    using assms(1,2) by (simp add: strptime_def s Let_def)
  then show ?thesis
    unfolding nanos_div [OF assms(3)]
    by (cases unit) (simp_all add: to_second_def time_consts minus_mod_eq_div_mult)
qed

text \<open>Several formats: the time found prints as the text by the first format for which that is so.\<close>

lemma strptime_any_sound:
  "strptime_any put_time get_time unit text formats = Value t \<Longrightarrow>
     t = -1 \<or> (\<exists>format \<in> set formats. strptime get_time unit text format = Value t \<and> strftime put_time unit t format = text)"
proof (induction formats)
  case (Cons format formats)
  then show ?case by (cases "strptime get_time unit text format") (auto split: if_splits)
qed simp

text \<open>Nanoseconds that were printed cannot be read.\<close>

lemma nine_digits_found: "list_all is_digit ds \<Longrightarrow> length ds = 9 \<Longrightarrow> has_nine_digits (xs @ ds @ ys)"
proof (induction xs)
  case Nil
  then obtain d ds' where "ds = d # ds'" by (cases ds) auto
  then show ?case using Nil by simp
qed simp

lemma printed_nanos_undefined:
  assumes "has_N format" "list_all is_digit ds" "length ds = 9"
  shows "strptime get_time unit (xs @ ds @ ys) format = Undefined"
  using assms nine_digits_found by (simp add: strptime_def)

end
