(* ===== verification/Spec2Isabelle.thy ===== *)
theory Spec2Isabelle
  imports Lockstep SimThread Indicators ConsecutiveBar MyStrategy Codec TradeService BinanceData ViewModels
    Wakeup Startup ViewConfig StatisticsDump JournalFiles Backtest Writers Comm Descriptors SharedMem OsLayer DateText
begin

text \<open>
  A verification library for btrader, a quantitative trading framework written in C++. The theories
  model the code that decides what happens to money, orders and messages; every definition names
  the file under src/ it is translated from, in the text block of its theory.

  The program. Three engines run as processes of their own: the market data engine
  (src/engines/md), the trading engine (src/engines/td) and the strategies' engine
  (src/engines/cp). They talk only through journals (src/core/journal): memory-mapped files of
  frames with one writer each, which any number of readers follow. A strategy places an order with
  its executor (src/strategy/live_executor.cpp), which writes a frame to the journal of the account;
  the trading engine hands it to the account's broker, and the broker's answers come back through
  another journal into the strategies' engine, which keeps the book (src/core/book.cpp). In a
  backtest market data comes from CSV files (src/broker/filedataservice) and the broker is simulated
  (src/broker/brokersim); a sync signal that goes round the three engines paces them.

  The theories, from the bottom:
  Prelude: the containers, unordered and ordered maps as association lists, with the two semantics of
  assignment through operator[].
  Float64: IEEE binary64 as the program's double, with round to nearest even, infinities and NaN.
  CArray, Hash: src/infra/array.h with its assignment that copies no terminator, and the 32-bit
  murmur hash that keys every book.
  Enums, Types, Messages: src/core/enums.h and the structs of src/core/types.h.
  Book: src/core/book.cpp, positions, the books keyed by an id, cash and profit.
  DepthBoard: src/extension/depthcallboard.h, the shared board of quoted depth, for instruments the 32-bit hash
  tells apart.
  BrokerSim, SimThread: src/broker/brokersim, its orders and matching as functions of the state, its
  two threads as a step relation.
  Journal, Reader: src/core/journal, the writer's page protocol, the reader's merge of journals, and the
  event loop of src/core/eventengine.cpp.
  Writers: the writer of a journal as an object, with its lock, all its ways to write, and threads that share it.
  Csv, TimeUtil, DateText, FileData: src/infra/csv.cpp, src/infra/time.cpp and the file data service.
  Indicators: src/algorithm, the performance figures over a series of returns.
  Codec: the byte forms of src/core/types.cpp and of the position book.
  Executor, Engines, Lockstep: the requests of a strategy, the handlers of the three engines, and their
  composition as a step relation over the journals between them. Lockstep takes a journal as a list of events that
  can always be read; a reader that is stuck at the end of a page only has fewer steps, so what never happens
  there does not happen on pages, and what has to happen is shown in Backtest with pages.
  Strategy, ConsecutiveBar, MyStrategy: what strategies share, and the two of src/strategies, each as an object
  with its callbacks and as a strategy in the engine.
  Json: values of the JSON library, its conversions, and numbers printed and read back.
  Config: src/core/main_cfg.cpp, src/core/fds_map.cpp and what the set-ups of the engines join: the reading of the
  configuration, the journals each process reads and writes, and the text of event file descriptors.
  Startup: src/main, the command line, the processes the master launches, and the states in which the
  engines begin; src/broker/data_service.cpp and trade_service.cpp, the choice of a service, of this machine or of
  Binance, and its setup.
  JournalFiles: src/core/journal/jlocation.cpp, the files of the pages and what is read back from their names.
  Wakeup: the indicators and observers of src/core/journal/journal.cpp, as a step relation of writers that post
  and end pages and a reader that sleeps.
  Descriptors: src/main/mentor_send_eventfd.cpp, src/core/fds_map_fixing.cpp, the passing of event descriptors to the
  processes of users, as a step relation of a server and its clients.
  Comm: src/core/corecomm.cpp, journal_comm_data.cpp and the agent of the viewer, by which such a process takes part.
  SharedMem, OsLayer: src/infra/mem_ipc.cpp, bimem_ipc.cpp, calls through shared memory; mmap.cpp, dlhelper.cpp,
  signalhandler.cpp and socket.cpp, with the answers of the system as arguments.
  StatisticsDump: src/engines/cp/statistics_dump.cpp, the files of statistics of a run.
  Backtest: a whole backtest over one file, from the start of the engines to the last of them stopped, or to a
  reader stuck at the end of a page.
  BinanceBroker, BinanceData, TradeService: src/broker/binance, the requests sent to the exchange and the
  messages taken from it, and what becomes of orders in both C++ trade services.
  GuiData, GuiModels, ViewModels, ViewConfig: src/tradeview, the data of the viewer, the models its windows show,
  and its settings.

  What the groups of lemmas show. The books stay consistent and do what their operations promise; orders of the
  simulated broker move through their states, are matched within their limits and answered; journals give
  back what was written, in order, whichever threads wrote it, up to the end of the reader's page,
  which no reader gets past, and readers merge them by time; a backtest advances in lockstep, one event
  of market data between two passes of the broker, replays its file bar by bar and comes to an end, when every
  reader finds its messages on its page; the journals connect the engines, the processes find
  them, no wake-up is lost while the pages last, and a process that got its descriptors over a socket wakes the same engines; a strategy keeps its own invariant whatever the engine hands it; files and byte
  forms are read back as they were written; what goes to an exchange carries a valid signature.

  Interfaces are locales: keyed_book (Book, five interpretations), depth_source (DepthBoard, the
  contract the matching engine relies on), strategy_contract (Strategy, what a strategy promises the engine; both
  strategies are interpretations), codec (Codec, a field that is read as it was written) and trade_service
  (TradeService, a law of accepted orders the simulated broker and the service of Binance both keep, though the trading
  engine asks no such thing of a service).

  Conventions. A struct is a record whose fields carry a prefix of the struct; ids and hashes are words
  of the code's width; times are integers, as no computation on them leaves the 64 bits in reach of
  the clock. A failed assertion, an exception that leaves the function and an access outside an
  object are None; where the code catches exceptions the two are told apart, as outcomes Undefined and
  Raised. The clock, the random source, files and directories, the values the JSON library parses, the web
  sockets and the signature, and the user's strategies are arguments. A loop over events takes the list of the
  clock readings it uses as its fuel, two for an event; the theorem about it says how many are enough and
  that then it returns. The search loops of a journal, which may run for ever when pages are reused, are
  partial functions with None for not returning.

  Not modelled: web sockets, HTTP, signatures and logging of src/infra, and the system itself, of which files,
  semaphores, eventfd, epoll and the passing of descriptors enter by their documented behaviour; the windows, the
  application object and the threads of the viewer; the Python bindings; the parsing of JSON text and the printing and
  reading of dates by a format, which the C++ libraries do; of the classes modelled, what only prints, and the
  accessors and operators that restate a field.

  This root theory holds the properties that span the engines: the way of an order from the executor
  to the broker of its account, and of its cancellation.
\<close>

section \<open>The way of an order\<close>


text \<open>C4: an order placed with an account reaches the broker of that account and no other. The executor writes
  a frame with the order, under the id it returns, into the account's journal; delivering it makes the
  trading engine insert exactly that order with that broker.\<close>

theorem order_reaches_its_broker:
  assumes "executor_wf ex" "td_uid td = ex_td_uid ex"
    "live_insert_order rb now encode institution account order w ex = Some (order_id, w1, ex1)"
    "umap_find (td_services td) (jid_build institution account) = Some s" "sim_state s = BS_Ready"
  shows "let sent = order\<lparr> oi_order_id := order_id, oi_insert_time := now \<rparr>;
      acct = jid_build institution account
    in (\<exists>pid pos. let f = pg_mem (page_at (w1 (journal_key (ex_td_uid ex) acct)) pid) pos
        in fr_data f = encode (Ev_OrderInput sent) \<and> fr_msg_type f = tag_num Tag_OrderInput \<and> fr_gen_time f = now) \<and>
      (\<exists>out td'. td_react mem (Ev_OrderInput sent) td = Some (out, td') \<and>
        umap_find (td_services td') acct = Some (snd (insert_order sent s)) \<and>
        (\<forall>k. k \<noteq> acct \<longrightarrow> umap_find (td_services td') k = umap_find (td_services td) k))"
proof -
  note send = assms(3) [unfolded live_insert_order_def]
  have tag: "0 < tag_num Tag_OrderInput" by (simp add: zero_less_iff_neq_zero)
  have a: "to_account_uid order_id (td_uid td) = jid_build institution account"
    using send_request_spec(1) [OF assms(1) send] assms(2) by (simp add: to_account_uid_def)
  show ?thesis
    using send_request_frame [OF assms(1) send tag] assms(4,5)
    by (auto simp: td_insert_order_def with_service_def Let_def a)
qed

text \<open>C5: an order can be cancelled by the id the executor returned. The cancel request, whatever was sent in
  between, reaches the broker that has the order; if it is still open it is cancelled with its open
  volume kept, one response without error goes back, and no other order and no other broker
  changes.\<close>

theorem placed_order_is_cancelled:
  assumes "executor_wf ex" "executor_wf ex2" "ex_td_uid ex2 = ex_td_uid ex" "td_uid td = ex_td_uid ex"
    "live_insert_order rb now encode institution account order w ex = Some (order_id, w1, ex1)"
    "live_cancel_order rb' now' encode order_id w2 ex2 = Some (action_id, w3, ex3)"
    "umap_find (td_services td) (jid_build institution account) = Some s"
    "sim_state s = BS_Ready" "sim_writers s = HasChannel"
    "omap_find (sim_orders s) order_id = Some od" "cancellable (od_status od)"
  shows "let action = OrderCancel_zero\<lparr> oc_order_id := action_id, oc_target_order_id := order_id \<rparr>;
      acct = jid_build institution account
    in \<exists>td' s' od'. td_react mem (Ev_OrderCancel action) td =
        Some ([(Ch_TdResp, Ev_OrderActionResp (cancel_resp action 0))], td') \<and>
      umap_find (td_services td') acct = Some s' \<and>
      omap_find (sim_orders s') order_id = Some od' \<and> od_status od' = OS_Cancelled \<and>
      od_volume_left od' = od_volume_left od \<and>
      (\<forall>k. k \<noteq> order_id \<longrightarrow> omap_find (sim_orders s') k = omap_find (sim_orders s) k) \<and>
      (\<forall>k. k \<noteq> acct \<longrightarrow> umap_find (td_services td') k = umap_find (td_services td) k)"
proof -
  note ins = send_request_spec [OF assms(1) assms(5) [unfolded live_insert_order_def]]
  note can = send_request_spec [OF assms(2) assms(6) [unfolded live_cancel_order_def]]
  have a: "to_account_uid action_id (td_uid td) = jid_build institution account"
    using ins(1) can(1) assms(3,4) by (simp add: to_account_uid_def)
  define action where "action = OrderCancel_zero\<lparr> oc_order_id := action_id, oc_target_order_id := order_id \<rparr>"
  have i: "oc_order_id action = action_id" "oc_target_order_id action = order_id" by (simp_all add: action_def)
  show ?thesis
    using assms(7-11)
    by (simp add: action_def [symmetric] Let_def td_cancel_order_def with_service_def i a cancel_order_def
        notify_or_false_def notify_response_def update_order_status_def now_time_def sent_since_def sim_event_def)
qed

definition sample_ready :: "BrokerSim \<Rightarrow> TDEngine" where
  "sample_ready s = sample_td\<lparr> td_services := [(sample_account, s)] \<rparr>"

lemma sample_ready_sel:
  "td_uid (sample_ready s) = ex_td_uid sample_executor"
  "umap_find (td_services (sample_ready s)) (jid_build ''simulation'' ''a1'') = Some s"
  by (simp_all add: sample_ready_def sample_td_def sample_executor_def umap_find_def sample_account_def)

lemma order_reaches_its_broker_witness:
  "\<exists>order_id out td'. td_react (fst (board_init 0 0 False))
       (Ev_OrderInput (OrderInput_zero\<lparr> oi_order_id := order_id, oi_insert_time := 8 \<rparr>))
       (sample_ready (sample_broker\<lparr> sim_state := BS_Ready \<rparr>)) = Some (out, td') \<and>
     omap_find (sim_orders (the (umap_find (td_services td') sample_account))) order_id \<noteq> None"
proof -
  let ?s = "sample_broker\<lparr> sim_state := BS_Ready \<rparr>"
  obtain order_id w1 ex1 where i:
    "live_insert_order 0 8 (\<lambda>_. []) ''simulation'' ''a1'' OrderInput_zero sample_journals sample_executor = Some (order_id, w1, ex1)"
    using sample_session by blast
  have "oi_side OrderInput_zero \<noteq> Side_Buy \<or> \<not> as_avail (sim_asset ?s) < oi_limit_price OrderInput_zero * oi_volume OrderInput_zero"
    using of_i64_times [of 0 0]
    by (simp add: OrderInput_zero_def sample_broker_def BrokerSim_new_def DEFAULT_INITIAL_CAPITAL_def lit_def
        less_fin zero_double_def)
  then show ?thesis
    using order_reaches_its_broker [OF sample_executor_wf sample_ready_sel(1) i sample_ready_sel(2), of ?s "fst (board_init 0 0 False)"]
    by (fastforce simp: insert_order_def add_order_def submitted_order_def order_from_input_def Order_assign_def
        sample_account_def [symmetric] Let_def)
qed

lemma placed_order_is_cancelled_witness:
  "\<exists>action order_id td'. td_react (fst (board_init 0 0 False)) (Ev_OrderCancel action)
       (sample_ready (sample_broker\<lparr> sim_state := BS_Ready, sim_orders := [(order_id, submitted_order sample_input)] \<rparr>)) =
     Some ([(Ch_TdResp, Ev_OrderActionResp (cancel_resp action 0))], td')"
proof -
  obtain order_id w1 ex1 action_id w2 ex2 where i:
    "live_insert_order 0 8 (\<lambda>_. []) ''simulation'' ''a1'' OrderInput_zero sample_journals sample_executor = Some (order_id, w1, ex1)"
    "live_cancel_order 0 9 (\<lambda>_. []) order_id w1 ex1 = Some (action_id, w2, ex2)"
    "executor_wf ex1" "ex_td_uid ex1 = ex_td_uid sample_executor"
    using sample_session by blast
  let ?s = "sample_broker\<lparr> sim_state := BS_Ready, sim_orders := [(order_id, submitted_order sample_input)] \<rparr>"
  have "sim_state ?s = BS_Ready" "sim_writers ?s = HasChannel"
    "omap_find (sim_orders ?s) order_id = Some (submitted_order sample_input)"
    "cancellable (od_status (submitted_order sample_input))"
    by (simp_all add: sample_broker_def cancellable_def submitted_order_def)
  from placed_order_is_cancelled [OF sample_executor_wf i(3,4) sample_ready_sel(1) i(1,2) sample_ready_sel(2) this,
      of "fst (board_init 0 0 False)"]
  show ?thesis by (auto simp: Let_def)
qed

end
